(* ===== verification/DdkBase.thy ===== *)
theory DdkBase
  imports Main "HOL-Library.Word"
begin

unbundle bit_operations_syntax

text \<open>
  Prelude of the development.  It holds what every component shares:
  the machine integer types of the Windows headers, unsigned 32-bit arithmetic with
  its wrap-around written out, the result type of a routine that may call
  \<open>DdkFail\<close> (src/src/error.cpp) or touch memory it must not touch, checked array
  access, the NTSTATUS codes, and the lemmas about them that carry the component proofs.
\<close>

section \<open>Machine types\<close>

type_synonym UCHAR = "8 word"
type_synonym USHORT = "16 word"
type_synonym WCHAR = "16 word"
type_synonym ULONG = "32 word"
type_synonym LONG = "32 word"
type_synonym NTSTATUS = "32 word"

text \<open>
  Counters, indices and lengths of type ULONG are natural numbers below \<open>2 ^ 32\<close>; the
  arithmetic the code does on them wraps as the unsigned arithmetic of C does.
\<close>

definition ulong_add :: "nat \<Rightarrow> nat \<Rightarrow> nat" where
  "ulong_add a b = (a + b) mod 2 ^ 32"

definition ulong_sub :: "nat \<Rightarrow> nat \<Rightarrow> nat" where
  "ulong_sub a b = (a + (2 ^ 32 - b)) mod 2 ^ 32"

definition ulong_mul :: "nat \<Rightarrow> nat \<Rightarrow> nat" where
  "ulong_mul a b = (a * b) mod 2 ^ 32"

text \<open>
  \<open>1 << n\<close> on a 32-bit operand.  C leaves a shift by 32 or more undefined; the code is
  built for x64 and arm64, whose 32-bit shift instructions use the count modulo 32.
\<close>

definition shl1 :: "nat \<Rightarrow> ULONG" where
  "shl1 n = push_bit (n mod 32) 1"

section \<open>Results\<close>

text \<open>
  \<open>DdkFail\<close> is the exception raised by \<open>ddkfail\<close>, \<open>DDKASSERT\<close> and \<open>KeBugCheck\<close>; \<open>Fault\<close> is an
  access outside the memory the model knows of (a null or dangling pointer, an index out
  of range), which C leaves undefined; \<open>Waits\<close> is a call that does not return from the state it was
  made in, because it waits for another thread.
\<close>

datatype ddk_fail = DdkFail string | BugCheck ULONG | Fault | Waits

type_synonym 'a res = "ddk_fail + 'a"

definition bindE :: "'a res \<Rightarrow> ('a \<Rightarrow> 'b res) \<Rightarrow> 'b res" where
  "bindE m f = (case m of Inl e \<Rightarrow> Inl e | Inr x \<Rightarrow> f x)"

definition ddkassert :: "bool \<Rightarrow> string \<Rightarrow> 'a res \<Rightarrow> 'a res" where
  "ddkassert b msg k = (if b then k else Inl (DdkFail msg))"

fun foldE :: "('a \<Rightarrow> 's \<Rightarrow> 's res) \<Rightarrow> 'a list \<Rightarrow> 's \<Rightarrow> 's res" where
  "foldE f [] s = Inr s"
| "foldE f (x # xs) s = bindE (f x s) (foldE f xs)"

definition rd :: "'a list \<Rightarrow> nat \<Rightarrow> 'a res" where
  "rd xs i = (if i < length xs then Inr (xs ! i) else Inl Fault)"

definition wr :: "'a list \<Rightarrow> nat \<Rightarrow> 'a \<Rightarrow> 'a list res" where
  "wr xs i v = (if i < length xs then Inr (xs[i := v]) else Inl Fault)"

text \<open>
  Routines that also change a state: a function from the state to a failure or a value and the new
  state.
\<close>

type_synonym ('a, 's) st = "'s \<Rightarrow> ('a \<times> 's) res"

definition bindS :: "('a, 's) st \<Rightarrow> ('a \<Rightarrow> ('b, 's) st) \<Rightarrow> ('b, 's) st" where
  "bindS m f s = (case m s of Inl e \<Rightarrow> Inl e | Inr (x, s') \<Rightarrow> f x s')"

definition ret :: "'a \<Rightarrow> ('a, 's) st" where
  "ret x s = Inr (x, s)"

definition fail :: "ddk_fail \<Rightarrow> ('a, 's) st" where
  "fail e s = Inl e"

definition gets :: "('s \<Rightarrow> 'a) \<Rightarrow> ('a, 's) st" where
  "gets f s = Inr (f s, s)"

definition modify :: "('s \<Rightarrow> 's) \<Rightarrow> (unit, 's) st" where
  "modify g s = Inr ((), g s)"

definition assertS :: "('s \<Rightarrow> bool) \<Rightarrow> string \<Rightarrow> (unit, 's) st" where
  "assertS P msg s = (if P s then Inr ((), s) else Inl (DdkFail msg))"

definition liftE :: "'a res \<Rightarrow> ('a, 's) st" where
  "liftE r s = (case r of Inl e \<Rightarrow> Inl e | Inr x \<Rightarrow> Inr (x, s))"

text \<open>A LONG counter after an interlocked operation: 32-bit two's complement.\<close>

definition wrap32 :: "int \<Rightarrow> int" where
  "wrap32 x = sint (word_of_int x :: LONG)"

text \<open>The value of a signed char after an assignment.\<close>

definition cchar :: "int \<Rightarrow> int" where
  "cchar x = (x + 128) mod 256 - 128"

section \<open>Status codes and interrupt request levels\<close>

text \<open>The values of ntstatus.h; a status is a success when its sign bit is clear.\<close>

abbreviation (input) STATUS_SUCCESS :: NTSTATUS where "STATUS_SUCCESS \<equiv> 0"
abbreviation (input) STATUS_PENDING :: NTSTATUS where "STATUS_PENDING \<equiv> 0x103"
abbreviation (input) STATUS_SOME_NOT_MAPPED :: NTSTATUS where "STATUS_SOME_NOT_MAPPED \<equiv> 0x107"
abbreviation (input) STATUS_OBJECT_NAME_EXISTS :: NTSTATUS where "STATUS_OBJECT_NAME_EXISTS \<equiv> 0x40000000"
abbreviation (input) STATUS_BUFFER_OVERFLOW :: NTSTATUS where "STATUS_BUFFER_OVERFLOW \<equiv> 0x80000005"
abbreviation (input) STATUS_NO_MORE_ENTRIES :: NTSTATUS where "STATUS_NO_MORE_ENTRIES \<equiv> 0x8000001A"
abbreviation (input) STATUS_INVALID_HANDLE :: NTSTATUS where "STATUS_INVALID_HANDLE \<equiv> 0xC0000008"
abbreviation (input) STATUS_INVALID_PARAMETER :: NTSTATUS where "STATUS_INVALID_PARAMETER \<equiv> 0xC000000D"
abbreviation (input) STATUS_NO_SUCH_DEVICE :: NTSTATUS where "STATUS_NO_SUCH_DEVICE \<equiv> 0xC000000E"
abbreviation (input) STATUS_MORE_PROCESSING_REQUIRED :: NTSTATUS where
  "STATUS_MORE_PROCESSING_REQUIRED \<equiv> 0xC0000016"
abbreviation (input) STATUS_BUFFER_TOO_SMALL :: NTSTATUS where "STATUS_BUFFER_TOO_SMALL \<equiv> 0xC0000023"
abbreviation (input) STATUS_OBJECT_TYPE_MISMATCH :: NTSTATUS where "STATUS_OBJECT_TYPE_MISMATCH \<equiv> 0xC0000024"
abbreviation (input) STATUS_OBJECT_NAME_INVALID :: NTSTATUS where "STATUS_OBJECT_NAME_INVALID \<equiv> 0xC0000033"
abbreviation (input) STATUS_OBJECT_NAME_NOT_FOUND :: NTSTATUS where "STATUS_OBJECT_NAME_NOT_FOUND \<equiv> 0xC0000034"
abbreviation (input) STATUS_OBJECT_NAME_COLLISION :: NTSTATUS where "STATUS_OBJECT_NAME_COLLISION \<equiv> 0xC0000035"
abbreviation (input) STATUS_INSUFFICIENT_RESOURCES :: NTSTATUS where
  "STATUS_INSUFFICIENT_RESOURCES \<equiv> 0xC000009A"
abbreviation (input) STATUS_DELETE_PENDING :: NTSTATUS where "STATUS_DELETE_PENDING \<equiv> 0xC0000056"
abbreviation (input) STATUS_INVALID_PARAMETER_4 :: NTSTATUS where "STATUS_INVALID_PARAMETER_4 \<equiv> 0xC00000F2"
abbreviation (input) STATUS_INVALID_PARAMETER_5 :: NTSTATUS where "STATUS_INVALID_PARAMETER_5 \<equiv> 0xC00000F3"

definition NT_SUCCESS :: "NTSTATUS \<Rightarrow> bool" where
  "NT_SUCCESS status \<longleftrightarrow> \<not> bit status 31"

abbreviation (input) PASSIVE_LEVEL :: nat where "PASSIVE_LEVEL \<equiv> 0"
abbreviation (input) APC_LEVEL :: nat where "APC_LEVEL \<equiv> 1"
abbreviation (input) DISPATCH_LEVEL :: nat where "DISPATCH_LEVEL \<equiv> 2"

section \<open>Shared lemmas\<close>

named_theorems res_simps \<open>evaluation of the result type\<close>
named_theorems ulong_simps \<open>unsigned arithmetic that does not wrap\<close>

lemma bindE_Inl [simp, res_simps]: "bindE (Inl e) f = Inl e"
  by (simp add: bindE_def)

lemma bindE_Inr [simp, res_simps]: "bindE (Inr x) f = f x"
  by (simp add: bindE_def)

lemma bindE_assoc: "bindE (bindE m f) g = bindE m (\<lambda>x. bindE (f x) g)"
  by (cases m) simp_all

lemma bindE_eq_Inr_iff: "bindE m f = Inr y \<longleftrightarrow> (\<exists>x. m = Inr x \<and> f x = Inr y)"
  by (cases m) simp_all

lemma ddkassert_True [simp, res_simps]: "ddkassert True msg k = k"
  by (simp add: ddkassert_def)

lemma ddkassert_False [simp, res_simps]: "ddkassert False msg k = Inl (DdkFail msg)"
  by (simp add: ddkassert_def)

lemma ddkassert_eq_Inr_iff: "ddkassert b msg k = Inr y \<longleftrightarrow> b \<and> k = Inr y"
  by (simp add: ddkassert_def)

lemma rd_in [res_simps]: "i < length xs \<Longrightarrow> rd xs i = Inr (xs ! i)"
  by (simp add: rd_def)

lemma wr_in [res_simps]: "i < length xs \<Longrightarrow> wr xs i v = Inr (xs[i := v])"
  by (simp add: wr_def)

lemma foldE_append: "foldE f (xs @ ys) s = bindE (foldE f xs s) (foldE f ys)"
proof (induction xs arbitrary: s)
  case Nil
  then show ?case by simp
next
  case (Cons x xs)
  then show ?case by (cases "f x s") simp_all
qed

text \<open>The loop rule: an invariant indexed by how far the loop has got.\<close>

lemma foldE_range_invariant:
  assumes "a \<le> b" and "I a s"
    and step: "\<And>i t. a \<le> i \<Longrightarrow> i < b \<Longrightarrow> I i t \<Longrightarrow> \<exists>t'. f i t = Inr t' \<and> I (Suc i) t'"
  shows "\<exists>t. foldE f [a..<b] s = Inr t \<and> I b t"
  using assms(1,2) step
proof (induction b)
  case 0
  then show ?case by simp
next
  case (Suc b)
  show ?case
  proof (cases "a = Suc b")
    case True
    with Suc.prems show ?thesis by simp
  next
    case False
    with Suc.prems have "a \<le> b" by simp
    with Suc obtain t where t: "foldE f [a..<b] s = Inr t" "I b t" by fastforce
    with Suc.prems(3) [of b t] \<open>a \<le> b\<close> obtain t' where "f b t = Inr t'" "I (Suc b) t'" by auto
    with t \<open>a \<le> b\<close> show ?thesis by (simp add: foldE_append)
  qed
qed

lemma bindS_Inr: "m s = Inr (x, s') \<Longrightarrow> bindS m f s = f x s'"
  by (simp add: bindS_def)

lemma bindS_Inl: "m s = Inl e \<Longrightarrow> bindS m f s = Inl e"
  by (simp add: bindS_def)

lemma bindS_eq_Inr_iff:
  "bindS m f s = Inr r \<longleftrightarrow> (\<exists>x s'. m s = Inr (x, s') \<and> f x s' = Inr r)"
  by (auto simp: bindS_def split: sum.splits)

lemma bindS_assoc: "bindS (bindS m f) g = bindS m (\<lambda>x. bindS (f x) g)"
  by (rule ext) (simp add: bindS_def split: sum.splits prod.splits)

lemma bindS_ret [simp]: "bindS (ret x) f s = f x s"
  by (simp add: bindS_def ret_def)

lemma bindS_fail [simp]: "bindS (fail e) f s = Inl e"
  by (simp add: bindS_def fail_def)

lemma bindS_gets [simp]: "bindS (gets g) f s = f (g s) s"
  by (simp add: bindS_def gets_def)

lemma bindS_modify [simp]: "bindS (modify h) f s = f () (h s)"
  by (simp add: bindS_def modify_def)

lemma bindS_assertS [simp]:
  "bindS (assertS P msg) f s = (if P s then f () s else Inl (DdkFail msg))"
  by (simp add: bindS_def assertS_def)

lemma bindS_liftE [simp]:
  "bindS (liftE r) f s = (case r of Inl e \<Rightarrow> Inl e | Inr x \<Rightarrow> f x s)"
  by (simp add: bindS_def liftE_def split: sum.splits)

lemma prims_eq [simp]:
  "ret x s = Inr (x, s)" "fail e s = Inl e" "gets g s = Inr (g s, s)" "modify h s = Inr ((), h s)"
  by (simp_all add: ret_def fail_def gets_def modify_def)

lemma wrap32_small: "- (2 ^ 31) \<le> x \<Longrightarrow> x < 2 ^ 31 \<Longrightarrow> wrap32 x = x"
  unfolding wrap32_def sint_sbintrunc' by (intro signed_take_bit_int_eq_self) simp_all

lemma cchar_id [simp]: "- 128 \<le> x \<Longrightarrow> x < 128 \<Longrightarrow> cchar x = x"
  by (simp add: cchar_def)

lemma ulong_add_small [ulong_simps]: "a + b < 2 ^ 32 \<Longrightarrow> ulong_add a b = a + b"
  by (simp add: ulong_add_def)

lemma ulong_mul_small [ulong_simps]: "a * b < 2 ^ 32 \<Longrightarrow> ulong_mul a b = a * b"
  by (simp add: ulong_mul_def)

lemma ulong_sub_small [ulong_simps]:
  assumes "b \<le> a" "a < 2 ^ 32"
  shows "ulong_sub a b = a - b"
proof -
  have "a + (2 ^ 32 - b) = (a - b) + 2 ^ 32" using assms by simp
  then have "ulong_sub a b = (a - b) mod 2 ^ 32" by (simp only: ulong_sub_def mod_add_self2)
  then show ?thesis using assms by simp
qed

text \<open>How often an element occurs in a list, as an integer: the number of threads at a point.\<close>

definition cnt :: "'a \<Rightarrow> 'a list \<Rightarrow> int" where
  "cnt c xs = int (count_list xs c)"

lemma cnt_update:
  assumes "i < length xs"
  shows "cnt c (xs[i := x]) = cnt c xs - of_bool (c = xs ! i) + of_bool (c = x)"
proof -
  have "count_list (xs[i := x]) c + of_bool (c = xs ! i) = count_list xs c + of_bool (c = x)"
    using assms
  proof (induction xs arbitrary: i)
    case (Cons p xs)
    then show ?case by (cases i) auto
  qed simp
  then have "int (count_list (xs[i := x]) c + of_bool (c = xs ! i)) = int (count_list xs c + of_bool (c = x))" by simp
  then show ?thesis by (simp add: cnt_def)
qed

lemma cnt_nonneg: "0 \<le> cnt c xs"
  by (simp add: cnt_def)

lemma cnt_pos: "0 < cnt c xs \<longleftrightarrow> c \<in> set xs"
  by (simp add: cnt_def) (metis count_list_0_iff gr0I less_irrefl)

lemma cnt_here: "i < length xs \<Longrightarrow> 1 \<le> cnt (xs ! i) xs"
  using cnt_pos [of "xs ! i" xs] by (simp add: int_one_le_iff_zero_less)

lemma bit_shl1: "bit (shl1 n) k \<longleftrightarrow> k = n mod 32"
  by (auto simp: shl1_def push_bit_eq_mult bit_exp_iff)

lemma and_shl1_zero: "w AND shl1 n = 0 \<longleftrightarrow> \<not> bit w (n mod 32)"
proof
  assume "w AND shl1 n = 0"
  then have "\<not> bit (w AND shl1 n) (n mod 32)" by simp
  then show "\<not> bit w (n mod 32)" by (simp add: bit_and_iff bit_shl1)
next
  assume "\<not> bit w (n mod 32)"
  then show "w AND shl1 n = 0" by (intro bit_word_eqI) (auto simp: bit_and_iff bit_shl1)
qed

lemma word32_zero_iff: "(w :: ULONG) = 0 \<longleftrightarrow> (\<forall>k < 32. \<not> bit w k)"
  by (auto intro: bit_word_eqI)

lemma word32_ones_iff: "(w :: ULONG) = - 1 \<longleftrightarrow> (\<forall>k < 32. bit w k)"
  by (auto intro: bit_word_eqI)

end
