(* ===== verification/Bitmap.thy ===== *)
theory Bitmap
  imports DdkBase
begin

unbundle bit_operations_syntax

text \<open>
  The bitmap routines of src/src/bitmap.cpp.  A bitmap is the structure RTL_BITMAP: its size in
  bits and the array of 32-bit elements that holds them.  Every routine of the file is a
  definition below.  The file writes each search and each range update twice, once for
  clear bits and once for set bits, with the same text; the model writes the text once with
  the helpers that differ as arguments (\<open>UpdateBits\<close>, \<open>FindBits\<close>, \<open>NumBitsFound\<close>, \<open>AreBits\<close>)
  and names the two instances as the source does.

  The lemmas relate each routine to the bits of the map (\<open>bm_bit\<close>): which bits an update
  changes, that the searches return the first run, that the counters count.  The locales
  \<open>bit_writer\<close> and \<open>bit_kind\<close> state what a pair of helpers must satisfy; each is
  interpreted for the clear and for the set instance.
\<close>

section \<open>Definitions\<close>

record RTL_BITMAP =
  SizeOfBitMap :: nat
  Buffer :: "ULONG list"

abbreviation (input) BITS_PER_ARRAY :: nat where
  "BITS_PER_ARRAY \<equiv> 32"

abbreviation (input) ALL_BITS_SET :: nat where
  "ALL_BITS_SET \<equiv> 0xFFFFFFFF"

subsection \<open>Commonly used functions\<close>

definition CalculateArrayIndexFromBitNum :: "nat \<Rightarrow> nat" where
  "CalculateArrayIndexFromBitNum bitNumber = bitNumber div BITS_PER_ARRAY"

definition CalculateBitPositionInArrayElement :: "nat \<Rightarrow> nat \<Rightarrow> nat" where
  "CalculateBitPositionInArrayElement bitNumber arrayIndex =
     ulong_sub bitNumber (ulong_mul arrayIndex BITS_PER_ARRAY)"

definition CalculateLastBufferIndex :: "nat \<Rightarrow> nat" where
  "CalculateLastBufferIndex lastBitNum = lastBitNum div BITS_PER_ARRAY"

definition CalculateBitNumberInBitMap :: "nat \<Rightarrow> nat \<Rightarrow> nat" where
  "CalculateBitNumberInBitMap bufferIndex bitPosition =
     ulong_add (ulong_mul bufferIndex BITS_PER_ARRAY) bitPosition"

text \<open>
  The loops \<open>for (i = a; i <= b; i++)\<close> run over \<open>[a..<Suc b]\<close>; no caller passes
  \<open>b = ULONG_MAX\<close>, for which the source's loop would not end.
\<close>

definition ClearBitsInRange :: "ULONG \<Rightarrow> nat \<Rightarrow> nat \<Rightarrow> ULONG" where
  "ClearBitsInRange bufferElement startingIndex endIndex =
     fold (\<lambda>bit_num e. e AND NOT (shl1 bit_num)) [startingIndex..<Suc endIndex] bufferElement"

definition SetBitsInRange :: "ULONG \<Rightarrow> nat \<Rightarrow> nat \<Rightarrow> ULONG" where
  "SetBitsInRange bufferElement startingIndex endIndex =
     fold (\<lambda>bit_num e. e OR shl1 bit_num) [startingIndex..<Suc endIndex] bufferElement"

definition ClearArrayElements :: "ULONG list \<Rightarrow> nat \<Rightarrow> nat \<Rightarrow> ULONG list res" where
  "ClearArrayElements buf startingIndex endIndex =
     foldE (\<lambda>i b. wr b i 0) [startingIndex..<Suc endIndex] buf"

definition SetArrayElements :: "ULONG list \<Rightarrow> nat \<Rightarrow> nat \<Rightarrow> ULONG list res" where
  "SetArrayElements buf startingIndex endIndex =
     foldE (\<lambda>i b. wr b i (- 1)) [startingIndex..<Suc endIndex] buf"

text \<open>\<open>f(Buffer[i], from, to)\<close> for a helper that updates its reference argument.\<close>

definition upd_elem :: "(ULONG \<Rightarrow> nat \<Rightarrow> nat \<Rightarrow> ULONG) \<Rightarrow> ULONG list \<Rightarrow> nat \<Rightarrow> nat \<Rightarrow> nat \<Rightarrow> ULONG list res" where
  "upd_elem f buf i from to = bindE (rd buf i) (\<lambda>w. wr buf i (f w from to))"

definition set_Buffer :: "RTL_BITMAP \<Rightarrow> ULONG list res \<Rightarrow> RTL_BITMAP res" where
  "set_Buffer bm m = bindE m (\<lambda>b. Inr (bm\<lparr>Buffer := b\<rparr>))"

text \<open>\<open>DDKASSERT(NULL != BitMapHeader)\<close>.\<close>

definition with_header :: "RTL_BITMAP option \<Rightarrow> (RTL_BITMAP \<Rightarrow> 'a res) \<Rightarrow> 'a res" where
  "with_header h f =
     (case h of None \<Rightarrow> Inl (DdkFail ''NULL != BitMapHeader'') | Some bm \<Rightarrow> f bm)"

subsection \<open>Setting and clearing bits\<close>

definition RtlInitializeBitMap :: "RTL_BITMAP option \<Rightarrow> ULONG list \<Rightarrow> nat \<Rightarrow> RTL_BITMAP res" where
  "RtlInitializeBitMap h BitMapBuffer BitMapSize =
     (case h of None \<Rightarrow> Inl Fault | Some bm \<Rightarrow> Inr (bm\<lparr>Buffer := BitMapBuffer, SizeOfBitMap := BitMapSize\<rparr>))"

definition RtlClearBit :: "RTL_BITMAP option \<Rightarrow> nat \<Rightarrow> RTL_BITMAP res" where
  "RtlClearBit h BitNumber = with_header h (\<lambda>bm.
     ddkassert (BitNumber < SizeOfBitMap bm) ''BitNumber < SizeOfBitMap''
       (let array_index = CalculateArrayIndexFromBitNum BitNumber
        in set_Buffer bm (upd_elem ClearBitsInRange (Buffer bm) array_index BitNumber BitNumber)))"

definition RtlSetBit :: "RTL_BITMAP option \<Rightarrow> nat \<Rightarrow> RTL_BITMAP res" where
  "RtlSetBit h BitNumber = with_header h (\<lambda>bm.
     ddkassert (BitNumber < SizeOfBitMap bm) ''BitNumber < SizeOfBitMap''
       (let array_index = CalculateArrayIndexFromBitNum BitNumber
        in set_Buffer bm (upd_elem SetBitsInRange (Buffer bm) array_index BitNumber BitNumber)))"

definition RtlTestBit :: "RTL_BITMAP option \<Rightarrow> nat \<Rightarrow> bool res" where
  "RtlTestBit h BitNumber = with_header h (\<lambda>bm.
     ddkassert (BitNumber < SizeOfBitMap bm) ''BitNumber < SizeOfBitMap''
       (let array_index = CalculateArrayIndexFromBitNum BitNumber
        in bindE (rd (Buffer bm) array_index) (\<lambda>w. Inr (w AND shl1 BitNumber \<noteq> 0))))"

definition RtlClearAllBits :: "RTL_BITMAP option \<Rightarrow> RTL_BITMAP res" where
  "RtlClearAllBits h = with_header h (\<lambda>bm.
     let last_buffer_index = CalculateLastBufferIndex (ulong_sub (SizeOfBitMap bm) 1);
         last_bit_number = CalculateBitPositionInArrayElement
           (ulong_sub (SizeOfBitMap bm) 1) last_buffer_index
     in set_Buffer bm (bindE
          (if last_buffer_index > 0 then ClearArrayElements (Buffer bm) 0 (ulong_sub last_buffer_index 1)
           else Inr (Buffer bm))
          (\<lambda>b. upd_elem ClearBitsInRange b last_buffer_index 0 last_bit_number)))"

definition RtlSetAllBits :: "RTL_BITMAP option \<Rightarrow> RTL_BITMAP res" where
  "RtlSetAllBits h = with_header h (\<lambda>bm.
     let last_buffer_index = CalculateLastBufferIndex (ulong_sub (SizeOfBitMap bm) 1);
         last_bit_number = CalculateBitPositionInArrayElement
           (ulong_sub (SizeOfBitMap bm) 1) last_buffer_index
     in set_Buffer bm (bindE
          (if last_buffer_index > 0 then SetArrayElements (Buffer bm) 0 (ulong_sub last_buffer_index 1)
           else Inr (Buffer bm))
          (\<lambda>b. upd_elem SetBitsInRange b last_buffer_index 0 last_bit_number)))"

definition UpdateBits ::
  "(ULONG \<Rightarrow> nat \<Rightarrow> nat \<Rightarrow> ULONG) \<Rightarrow> (ULONG list \<Rightarrow> nat \<Rightarrow> nat \<Rightarrow> ULONG list res) \<Rightarrow>
     RTL_BITMAP option \<Rightarrow> nat \<Rightarrow> nat \<Rightarrow> RTL_BITMAP res" where
  "UpdateBits BitsInRange ArrayElements h StartingIndex Number = with_header h (\<lambda>bm.
     ddkassert (ulong_add StartingIndex Number \<le> SizeOfBitMap bm)
       ''(StartingIndex + Number) <= SizeOfBitMap''
       (if Number = 0 then Inr bm
        else
          let start_buffer_index = CalculateArrayIndexFromBitNum StartingIndex;
              starting_bit_position =
                CalculateBitPositionInArrayElement StartingIndex start_buffer_index;
              last_bit = ulong_sub (ulong_add StartingIndex Number) 1;
              last_buffer_index = CalculateLastBufferIndex last_bit;
              last_bit_position = CalculateBitPositionInArrayElement last_bit last_buffer_index
          in set_Buffer bm
               (if start_buffer_index = last_buffer_index
                then upd_elem BitsInRange (Buffer bm) last_buffer_index
                       starting_bit_position last_bit_position
                else bindE (upd_elem BitsInRange (Buffer bm) start_buffer_index
                              starting_bit_position (BITS_PER_ARRAY - 1)) (\<lambda>b1.
                     bindE (ArrayElements b1 (start_buffer_index + 1) (ulong_sub last_buffer_index 1)) (\<lambda>b2.
                     upd_elem BitsInRange b2 last_buffer_index 0 last_bit_position)))))"

definition RtlClearBits :: "RTL_BITMAP option \<Rightarrow> nat \<Rightarrow> nat \<Rightarrow> RTL_BITMAP res" where
  "RtlClearBits = UpdateBits ClearBitsInRange ClearArrayElements"

definition RtlSetBits :: "RTL_BITMAP option \<Rightarrow> nat \<Rightarrow> nat \<Rightarrow> RTL_BITMAP res" where
  "RtlSetBits = UpdateBits SetBitsInRange SetArrayElements"

subsection \<open>Runs of clear bits\<close>

text \<open>
  The reference arguments \<open>runStarted\<close>, \<open>runEnded\<close>, \<open>startBit\<close> and \<open>runCount\<close> of the helpers
  are the fields of a record that the helpers return updated.
\<close>

record run =
  runStarted :: bool
  runEnded :: bool
  startBit :: nat
  runCount :: nat

fun CountClearLoop :: "ULONG \<Rightarrow> nat \<Rightarrow> nat list \<Rightarrow> run \<Rightarrow> run" where
  "CountClearLoop bufferElement bufferIndex [] r = r"
| "CountClearLoop bufferElement bufferIndex (bit_position # rest) r =
     (if bufferElement AND shl1 bit_position = 0
      then CountClearLoop bufferElement bufferIndex rest
             ((if runStarted r then r
               else r\<lparr>startBit := CalculateBitNumberInBitMap bufferIndex bit_position,
                      runStarted := True\<rparr>)
              \<lparr>runCount := ulong_add (runCount r) 1\<rparr>)
      else if runStarted r then r\<lparr>runEnded := True\<rparr>
      else CountClearLoop bufferElement bufferIndex rest r)"

definition CountClearRun :: "ULONG \<Rightarrow> nat \<Rightarrow> nat \<Rightarrow> nat \<Rightarrow> run \<Rightarrow> run" where
  "CountClearRun bufferElement bufferIndex startBitPosition lastBitPosition r =
     (if bufferElement = 0 \<and> \<not> runStarted r
      then r\<lparr>startBit := CalculateBitNumberInBitMap bufferIndex startBitPosition,
             runCount := ulong_add (ulong_sub lastBitPosition startBitPosition) 1,
             runStarted := True, runEnded := False\<rparr>
      else if bufferElement = 0 \<and> runStarted r
      then r\<lparr>runCount := ulong_add (runCount r) BITS_PER_ARRAY\<rparr>
      else CountClearLoop bufferElement bufferIndex
             [startBitPosition..<Suc lastBitPosition] r)"

text \<open>The loop over the elements between the first and the last; it stops when the run ends.\<close>

fun CountClearMiddle :: "ULONG list \<Rightarrow> nat list \<Rightarrow> run \<Rightarrow> run res" where
  "CountClearMiddle buf [] r = Inr r"
| "CountClearMiddle buf (buffer_index # rest) r =
     bindE (rd buf buffer_index) (\<lambda>w.
       let r' = CountClearRun w buffer_index 0 (BITS_PER_ARRAY - 1) r
       in if runEnded r' then Inr r' else CountClearMiddle buf rest r')"

text \<open>The result is the run length and the value stored in \<open>*StartingRunIndex\<close>.\<close>

definition RtlFindNextForwardRunClear ::
  "RTL_BITMAP option \<Rightarrow> nat \<Rightarrow> bool \<Rightarrow> (nat \<times> nat) res" where
  "RtlFindNextForwardRunClear h FromIndex StartingRunIndexValid = with_header h (\<lambda>bm.
     ddkassert (FromIndex < SizeOfBitMap bm) ''FromIndex < SizeOfBitMap''
     (ddkassert StartingRunIndexValid ''NULL != StartingRunIndex''
       (let start_buffer_index = CalculateArrayIndexFromBitNum FromIndex;
            start_bit_position = CalculateBitPositionInArrayElement FromIndex start_buffer_index;
            last_buffer_index = CalculateLastBufferIndex (ulong_sub (SizeOfBitMap bm) 1);
            last_bit_position = CalculateBitPositionInArrayElement
              (ulong_sub (SizeOfBitMap bm) 1) last_buffer_index;
            r0 = \<lparr>runStarted = False, runEnded = False, startBit = 0, runCount = 0\<rparr>;
            buf = Buffer bm
        in bindE
             (if start_buffer_index = last_buffer_index
              then bindE (rd buf start_buffer_index) (\<lambda>w.
                     Inr (CountClearRun w start_buffer_index start_bit_position last_bit_position r0))
              else bindE (rd buf start_buffer_index) (\<lambda>w.
                let r1 = CountClearRun w start_buffer_index start_bit_position
                           (BITS_PER_ARRAY - 1) r0
                in if runEnded r1 then Inr r1
                   else bindE (CountClearMiddle buf
                                 [start_buffer_index + 1..<last_buffer_index] r1) (\<lambda>r2.
                     if runEnded r2 then Inr r2
                     else bindE (rd buf last_buffer_index) (\<lambda>wl.
                       Inr (CountClearRun wl last_buffer_index 0 last_bit_position r2)))))
             (\<lambda>r. Inr (runCount r, startBit r)))))"

definition RtlFindFirstRunClear :: "RTL_BITMAP option \<Rightarrow> bool \<Rightarrow> (nat \<times> nat) res" where
  "RtlFindFirstRunClear h StartingRunIndexValid =
     RtlFindNextForwardRunClear h 0 StartingRunIndexValid"

subsection \<open>Testing a range\<close>

text \<open>
  A kind of bit is given by the test on one bit of an element (\<open>hit\<close>) and the test the code
  uses for a whole element (\<open>full\<close>): \<open>0 == element\<close> for clear, \<open>ALL_BITS_SET == element\<close> for set.
\<close>

definition is_clear :: "ULONG \<Rightarrow> nat \<Rightarrow> bool" where
  "is_clear w n \<longleftrightarrow> w AND shl1 n = 0"

definition is_set :: "ULONG \<Rightarrow> nat \<Rightarrow> bool" where
  "is_set w n \<longleftrightarrow> w AND shl1 n \<noteq> 0"

definition all_clear :: "ULONG \<Rightarrow> bool" where
  "all_clear w \<longleftrightarrow> w = 0"

definition all_set :: "ULONG \<Rightarrow> bool" where
  "all_set w \<longleftrightarrow> w = - 1"

text \<open>
  The outcome of one of the checking loops: \<open>Inl b\<close> is \<open>return b\<close>, \<open>Inr n\<close> is the loop having
  ended with \<open>bits_checked = n\<close>.  The loop over the first element and the one over the
  middle elements return TRUE when \<open>Length\<close> bits have been checked; the other two go on.
\<close>

fun CheckBits :: "(nat \<Rightarrow> bool) \<Rightarrow> nat \<Rightarrow> bool \<Rightarrow> nat list \<Rightarrow> nat \<Rightarrow> bool + nat" where
  "CheckBits hit len stop [] bits_checked = Inr bits_checked"
| "CheckBits hit len stop (bit_num # rest) bits_checked =
     (if bits_checked < len
      then if \<not> hit bit_num then Inl False
           else CheckBits hit len stop rest (ulong_add bits_checked 1)
      else if stop then Inl True
      else CheckBits hit len stop rest bits_checked)"

fun CheckElements :: "(ULONG \<Rightarrow> bool) \<Rightarrow> nat \<Rightarrow> ULONG list \<Rightarrow> nat list \<Rightarrow> nat \<Rightarrow> (bool + nat) res" where
  "CheckElements full len buf [] bits_checked = Inr (Inr bits_checked)"
| "CheckElements full len buf (buffer_num # rest) bits_checked =
     (if bits_checked < len
      then bindE (rd buf buffer_num) (\<lambda>w.
             if \<not> full w then Inr (Inl False)
             else CheckElements full len buf rest (ulong_add bits_checked BITS_PER_ARRAY))
      else Inr (Inl True))"

definition AreBits ::
  "(ULONG \<Rightarrow> bool) \<Rightarrow> (ULONG \<Rightarrow> nat \<Rightarrow> bool) \<Rightarrow> RTL_BITMAP option \<Rightarrow> nat \<Rightarrow> nat \<Rightarrow> bool res" where
  "AreBits full hit h StartingIndex Length = with_header h (\<lambda>bm.
     if Length = 0 \<or> SizeOfBitMap bm < ulong_add StartingIndex Length then Inr False
     else
       let start_buffer_index = CalculateArrayIndexFromBitNum StartingIndex;
           start_bit_number = CalculateBitPositionInArrayElement StartingIndex start_buffer_index;
           last_bit = ulong_sub (ulong_add StartingIndex Length) 1;
           last_buffer_index = CalculateArrayIndexFromBitNum last_bit;
           last_bit_number = CalculateBitPositionInArrayElement last_bit last_buffer_index;
           buf = Buffer bm;
           finish = (\<lambda>r. case r of Inl b \<Rightarrow> Inr b | Inr _ \<Rightarrow> Inr True)
       in if start_buffer_index = last_buffer_index
          then bindE (rd buf last_buffer_index) (\<lambda>w.
                 finish (CheckBits (hit w) Length False
                           [start_bit_number..<Suc last_bit_number] 0))
          else bindE (rd buf start_buffer_index) (\<lambda>w.
               case CheckBits (hit w) Length True [start_bit_number..<BITS_PER_ARRAY] 0 of
                 Inl b \<Rightarrow> Inr b
               | Inr n1 \<Rightarrow>
                   bindE (CheckElements full Length buf
                            [start_buffer_index + 1..<last_buffer_index] n1) (\<lambda>m.
                   case m of
                     Inl b \<Rightarrow> Inr b
                   | Inr n2 \<Rightarrow> bindE (rd buf last_buffer_index) (\<lambda>wl.
                       finish (CheckBits (hit wl) Length False [0..<Suc last_bit_number] n2)))))"

definition RtlAreBitsClear :: "RTL_BITMAP option \<Rightarrow> nat \<Rightarrow> nat \<Rightarrow> bool res" where
  "RtlAreBitsClear = AreBits all_clear is_clear"

definition RtlAreBitsSet :: "RTL_BITMAP option \<Rightarrow> nat \<Rightarrow> nat \<Rightarrow> bool res" where
  "RtlAreBitsSet = AreBits all_set is_set"

subsection \<open>Finding a run of a given length\<close>

fun NumBitsLoop :: "(nat \<Rightarrow> bool) \<Rightarrow> nat \<Rightarrow> nat \<Rightarrow> nat list \<Rightarrow> run \<Rightarrow> bool \<times> run" where
  "NumBitsLoop hit bufferIndex numToFind [] r = (False, r)"
| "NumBitsLoop hit bufferIndex numToFind (bit_num # rest) r =
     (if hit bit_num
      then let r1 = (if runStarted r then r
                     else r\<lparr>startBit := CalculateBitNumberInBitMap bufferIndex bit_num,
                            runStarted := True\<rparr>);
               r2 = r1\<lparr>runCount := ulong_add (runCount r1) 1\<rparr>
           in if runCount r2 \<ge> numToFind then (True, r2)
              else NumBitsLoop hit bufferIndex numToFind rest r2
      else NumBitsLoop hit bufferIndex numToFind rest (r\<lparr>runCount := 0, runStarted := False\<rparr>))"

definition NumBitsFound ::
  "(ULONG \<Rightarrow> bool) \<Rightarrow> (ULONG \<Rightarrow> nat \<Rightarrow> bool) \<Rightarrow> ULONG \<Rightarrow> nat \<Rightarrow> nat \<Rightarrow> nat \<Rightarrow> nat \<Rightarrow> run \<Rightarrow> bool \<times> run" where
  "NumBitsFound full hit bufferElement bufferIndex numToFind startBitPosition endBitPosition r =
     (if full bufferElement \<and> \<not> runStarted r
      then let r1 = r\<lparr>startBit := CalculateBitNumberInBitMap bufferIndex startBitPosition,
                      runStarted := True,
                      runCount := ulong_add (runCount r)
                        (ulong_add (ulong_sub endBitPosition startBitPosition) 1)\<rparr>
           in (runCount r1 \<ge> numToFind, r1)
      else if full bufferElement \<and> runStarted r
      then let r1 = r\<lparr>runCount := ulong_add (runCount r) BITS_PER_ARRAY\<rparr>
           in (runCount r1 \<ge> numToFind, r1)
      else NumBitsLoop (hit bufferElement) bufferIndex numToFind
             [startBitPosition..<Suc endBitPosition] r)"

definition NumClearBitsFound :: "ULONG \<Rightarrow> nat \<Rightarrow> nat \<Rightarrow> nat \<Rightarrow> nat \<Rightarrow> run \<Rightarrow> bool \<times> run" where
  "NumClearBitsFound = NumBitsFound all_clear is_clear"

definition NumSetBitsFound :: "ULONG \<Rightarrow> nat \<Rightarrow> nat \<Rightarrow> nat \<Rightarrow> nat \<Rightarrow> run \<Rightarrow> bool \<times> run" where
  "NumSetBitsFound = NumBitsFound all_set is_set"

type_synonym scanner = "ULONG \<Rightarrow> nat \<Rightarrow> nat \<Rightarrow> nat \<Rightarrow> nat \<Rightarrow> run \<Rightarrow> bool \<times> run"

fun SearchMiddle :: "scanner \<Rightarrow> ULONG list \<Rightarrow> nat \<Rightarrow> nat list \<Rightarrow> run \<Rightarrow> (bool \<times> run) res" where
  "SearchMiddle scan buf NumberToFind [] r = Inr (False, r)"
| "SearchMiddle scan buf NumberToFind (buffer_index # rest) r =
     bindE (rd buf buffer_index) (\<lambda>w.
       case scan w buffer_index NumberToFind 0 (BITS_PER_ARRAY - 1) r of
         (True, r') \<Rightarrow> Inr (True, r')
       | (False, r') \<Rightarrow> SearchMiddle scan buf NumberToFind rest r')"

text \<open>One turn of the \<open>while (0 != loop_count)\<close> loop.\<close>

definition SearchPass ::
  "scanner \<Rightarrow> ULONG list \<Rightarrow> nat \<Rightarrow> nat \<Rightarrow> nat \<Rightarrow> nat \<Rightarrow> nat \<Rightarrow> run \<Rightarrow> (bool \<times> run) res" where
  "SearchPass scan buf NumberToFind start_buffer_index start_bit_position
     last_buffer_index last_bit_position r =
     (if start_buffer_index = last_buffer_index
      then bindE (rd buf start_buffer_index) (\<lambda>w.
             Inr (scan w start_buffer_index NumberToFind start_bit_position last_bit_position r))
      else bindE (rd buf start_buffer_index) (\<lambda>w.
             case scan w start_buffer_index NumberToFind start_bit_position (BITS_PER_ARRAY - 1) r of
               (True, r1) \<Rightarrow> Inr (True, r1)
             | (False, r1) \<Rightarrow>
                 bindE (SearchMiddle scan buf NumberToFind
                          [start_buffer_index + 1..<last_buffer_index] r1) (\<lambda>(found, r2).
                 if found then Inr (True, r2)
                 else bindE (rd buf last_buffer_index) (\<lambda>wl.
                   Inr (scan wl last_buffer_index NumberToFind 0 last_bit_position r2)))))"

fun SearchLoop ::
  "nat \<Rightarrow> scanner \<Rightarrow> ULONG list \<Rightarrow> nat \<Rightarrow> nat \<Rightarrow> nat \<Rightarrow> nat \<Rightarrow> nat \<Rightarrow> run \<Rightarrow> nat res" where
  "SearchLoop 0 scan buf NumberToFind si sp li lp r = Inr ALL_BITS_SET"
| "SearchLoop (Suc loop_count) scan buf NumberToFind si sp li lp r =
     bindE (SearchPass scan buf NumberToFind si sp li lp r) (\<lambda>(found, r').
       if found then Inr (startBit r')
       else SearchLoop loop_count scan buf NumberToFind 0 0 li lp
              (r'\<lparr>runStarted := False, runCount := 0\<rparr>))"

definition FindBits :: "scanner \<Rightarrow> RTL_BITMAP option \<Rightarrow> nat \<Rightarrow> nat \<Rightarrow> nat res" where
  "FindBits scan h NumberToFind HintIndex = with_header h (\<lambda>bm.
     if NumberToFind < SizeOfBitMap bm
     then
       let start_buffer_index = CalculateArrayIndexFromBitNum HintIndex;
           start_bit_position = CalculateBitPositionInArrayElement HintIndex start_buffer_index;
           last_buffer_index = CalculateLastBufferIndex (ulong_sub (SizeOfBitMap bm) 1);
           last_bit_position = CalculateBitPositionInArrayElement
             (ulong_sub (SizeOfBitMap bm) 1) last_buffer_index;
           num_bits_to_check = ulong_sub (SizeOfBitMap bm) HintIndex;
           r0 = \<lparr>runStarted = False, runEnded = False, startBit = ALL_BITS_SET, runCount = 0\<rparr>
       in if NumberToFind > num_bits_to_check \<or> SizeOfBitMap bm \<le> HintIndex
          then SearchLoop 1 scan (Buffer bm) NumberToFind 0 0 last_buffer_index last_bit_position r0
          else SearchLoop 2 scan (Buffer bm) NumberToFind start_buffer_index start_bit_position
                 last_buffer_index last_bit_position r0
     else Inr ALL_BITS_SET)"

definition RtlFindClearBits :: "RTL_BITMAP option \<Rightarrow> nat \<Rightarrow> nat \<Rightarrow> nat res" where
  "RtlFindClearBits = FindBits NumClearBitsFound"

definition RtlFindSetBits :: "RTL_BITMAP option \<Rightarrow> nat \<Rightarrow> nat \<Rightarrow> nat res" where
  "RtlFindSetBits = FindBits NumSetBitsFound"

definition RtlFindClearBitsAndSet ::
  "RTL_BITMAP option \<Rightarrow> nat \<Rightarrow> nat \<Rightarrow> (nat \<times> RTL_BITMAP option) res" where
  "RtlFindClearBitsAndSet h NumberToFind HintIndex =
     bindE (RtlFindClearBits h NumberToFind HintIndex) (\<lambda>startBitIndex.
       if startBitIndex \<noteq> ALL_BITS_SET
       then bindE (RtlSetBits h startBitIndex NumberToFind) (\<lambda>bm. Inr (startBitIndex, Some bm))
       else Inr (startBitIndex, h))"

definition RtlFindSetBitsAndClear ::
  "RTL_BITMAP option \<Rightarrow> nat \<Rightarrow> nat \<Rightarrow> (nat \<times> RTL_BITMAP option) res" where
  "RtlFindSetBitsAndClear h NumberToFind HintIndex =
     bindE (RtlFindSetBits h NumberToFind HintIndex) (\<lambda>startBitIndex.
       if startBitIndex \<noteq> ALL_BITS_SET
       then bindE (RtlClearBits h startBitIndex NumberToFind) (\<lambda>bm. Inr (startBitIndex, Some bm))
       else Inr (startBitIndex, h))"

subsection \<open>Counting\<close>

definition CountElement :: "ULONG \<Rightarrow> nat \<Rightarrow> nat \<Rightarrow> nat" where
  "CountElement w bound number_of_set_bits =
     fold (\<lambda>bit_num c. if w AND shl1 bit_num \<noteq> 0 then ulong_add c 1 else c) [0..<bound]
       number_of_set_bits"

definition RtlNumberOfSetBits :: "RTL_BITMAP option \<Rightarrow> nat res" where
  "RtlNumberOfSetBits h = with_header h (\<lambda>bm.
     let last_buffer_index = CalculateLastBufferIndex (ulong_sub (SizeOfBitMap bm) 1);
         last_bit_position = CalculateBitPositionInArrayElement
           (ulong_sub (SizeOfBitMap bm) 1) last_buffer_index
     in bindE (foldE (\<lambda>buffer_index c. bindE (rd (Buffer bm) buffer_index) (\<lambda>w.
                 Inr (if w = - 1 then ulong_add c BITS_PER_ARRAY
                      else CountElement w BITS_PER_ARRAY c)))
               [0..<last_buffer_index] 0) (\<lambda>c.
        bindE (rd (Buffer bm) last_buffer_index) (\<lambda>w.
          Inr (CountElement w (Suc last_bit_position) c))))"

section \<open>The bits of a map\<close>

text \<open>
  The abstraction: bit \<open>i\<close> of the array, and what it means that exactly the bits from \<open>lo\<close>
  (inclusive) to \<open>hi\<close> (exclusive) have been given the value \<open>v\<close>.
\<close>

definition buf_bit :: "ULONG list \<Rightarrow> nat \<Rightarrow> bool" where
  "buf_bit buf i \<longleftrightarrow> bit (buf ! (i div 32)) (i mod 32)"

definition bm_bit :: "RTL_BITMAP \<Rightarrow> nat \<Rightarrow> bool" where
  "bm_bit bm i \<longleftrightarrow> buf_bit (Buffer bm) i"

definition wf_bitmap :: "RTL_BITMAP \<Rightarrow> bool" where
  "wf_bitmap bm \<longleftrightarrow> 0 < SizeOfBitMap bm \<and> SizeOfBitMap bm < 2 ^ 32 \<and>
     SizeOfBitMap bm \<le> 32 * length (Buffer bm)"

definition written :: "bool \<Rightarrow> nat \<Rightarrow> nat \<Rightarrow> ULONG list \<Rightarrow> ULONG list \<Rightarrow> bool" where
  "written v lo hi buf b \<longleftrightarrow> length b = length buf \<and>
     (\<forall>k < 32 * length buf. buf_bit b k = (if lo \<le> k \<and> k < hi then v else buf_bit buf k))"

lemma written_trans:
  "written v lo mid a b \<Longrightarrow> written v mid hi b c \<Longrightarrow> lo \<le> mid \<Longrightarrow> mid \<le> hi \<Longrightarrow> written v lo hi a c"
  by (auto simp: written_def)

lemma written_empty: "hi \<le> lo \<Longrightarrow> written v lo hi a a"
  by (auto simp: written_def)

lemma bit_position [simp]:
  "b < 2 ^ 32 \<Longrightarrow> CalculateBitPositionInArrayElement b (b div 32) = b mod 32"
proof -
  assume b: "b < 2 ^ 32"
  have le: "b div 32 * 32 \<le> b" by simp
  then have "ulong_mul (b div 32) 32 = b div 32 * 32" using b by (intro ulong_mul_small) linarith
  moreover have "ulong_sub b (b div 32 * 32) = b - b div 32 * 32"
    using le b by (rule ulong_sub_small)
  ultimately show ?thesis
    by (simp add: CalculateBitPositionInArrayElement_def minus_div_mult_eq_mod)
qed

lemma bit_number:
  "32 * i + p < 2 ^ 32 \<Longrightarrow> CalculateBitNumberInBitMap i p = 32 * i + p"
  by (simp add: CalculateBitNumberInBitMap_def ulong_simps mult.commute)

lemma array_index [simp]:
  "CalculateArrayIndexFromBitNum b = b div 32" "CalculateLastBufferIndex b = b div 32"
  by (simp_all add: CalculateArrayIndexFromBitNum_def CalculateLastBufferIndex_def)

lemma wf_bitmap_last:
  assumes "wf_bitmap bm"
  shows "ulong_sub (SizeOfBitMap bm) 1 = SizeOfBitMap bm - 1"
    and "(SizeOfBitMap bm - 1) div 32 < length (Buffer bm)"
    and "SizeOfBitMap bm - 1 < 2 ^ 32"
  using assms by (auto simp: wf_bitmap_def ulong_sub_small less_mult_imp_div_less mult.commute)

lemma wf_bitmap_index:
  assumes "wf_bitmap bm" "i < SizeOfBitMap bm"
  shows "i div 32 < length (Buffer bm)"
  using assms by (auto simp: wf_bitmap_def less_mult_imp_div_less mult.commute)

lemma bit_ClearBitsInRange:
  "k < 32 \<Longrightarrow> bit (ClearBitsInRange w s e) k \<longleftrightarrow> bit w k \<and> \<not> (\<exists>n. s \<le> n \<and> n \<le> e \<and> n mod 32 = k)"
proof -
  have "k < 32 \<Longrightarrow> bit (fold (\<lambda>n e. e AND NOT (shl1 n)) ns w) k \<longleftrightarrow>
      bit w k \<and> (\<forall>n \<in> set ns. n mod 32 \<noteq> k)" for ns
    by (induction ns arbitrary: w) (auto simp: bit_and_iff bit_not_iff bit_shl1)
  then show "k < 32 \<Longrightarrow> ?thesis"
    by (auto simp: ClearBitsInRange_def less_Suc_eq_le simp del: upt_Suc)
qed

lemma bit_SetBitsInRange:
  "k < 32 \<Longrightarrow> bit (SetBitsInRange w s e) k \<longleftrightarrow> bit w k \<or> (\<exists>n. s \<le> n \<and> n \<le> e \<and> n mod 32 = k)"
proof -
  have "k < 32 \<Longrightarrow> bit (fold (\<lambda>n e. e OR shl1 n) ns w) k \<longleftrightarrow>
      bit w k \<or> (\<exists>n \<in> set ns. n mod 32 = k)" for ns
    by (induction ns arbitrary: w) (auto simp: bit_or_iff bit_shl1)
  then show "k < 32 \<Longrightarrow> ?thesis"
    by (auto simp: SetBitsInRange_def less_Suc_eq_le simp del: upt_Suc)
qed

text \<open>Filling whole elements, for both fill values.\<close>

lemma fill_elements:
  assumes "e < length buf" and "\<And>k. k < 32 \<Longrightarrow> bit x k = v"
  shows "\<exists>b. foldE (\<lambda>i b. wr b i x) [s..<Suc e] buf = Inr b \<and> written v (32 * s) (32 * Suc e) buf b"
proof (cases "s \<le> Suc e")
  case True
  let ?I = "\<lambda>i b. written v (32 * s) (32 * i) buf b"
  have "\<exists>b. foldE (\<lambda>i b. wr b i x) [s..<Suc e] buf = Inr b \<and> ?I (Suc e) b"
  proof (rule foldE_range_invariant [OF True])
    show "?I s buf" by (rule written_empty) simp
  next
    fix i b
    assume i: "s \<le> i" "i < Suc e" and b: "?I i b"
    then have "i < length b" using assms(1) by (simp add: written_def)
    moreover have "?I (Suc i) (b[i := x])"
    proof (unfold written_def, intro conjI allI impI)
      show "length (b[i := x]) = length buf" using b by (simp add: written_def)
      fix k assume k: "k < 32 * length buf"
      have "k div 32 = i \<longleftrightarrow> 32 * i \<le> k \<and> k < 32 * Suc i" by auto
      moreover have "buf_bit b k = (if 32 * s \<le> k \<and> k < 32 * i then v else buf_bit buf k)"
        using b k by (simp add: written_def)
      moreover have "buf_bit (b[i := x]) k = (if k div 32 = i then v else buf_bit b k)"
        using \<open>i < length b\<close> assms(2) by (simp add: buf_bit_def nth_list_update)
      ultimately show "buf_bit (b[i := x]) k =
          (if 32 * s \<le> k \<and> k < 32 * Suc i then v else buf_bit buf k)"
        using i by auto
    qed
    ultimately show "\<exists>b'. wr b i x = Inr b' \<and> ?I (Suc i) b'" by (simp add: wr_def)
  qed
  then show ?thesis .
next
  case False
  then show ?thesis by (simp add: written_empty)
qed

section \<open>Updates\<close>

text \<open>
  What \<open>UpdateBits\<close> and the whole-map updates need from their two helpers: the one that
  writes a range of positions of one element and the one that writes whole elements.
\<close>

lemma UpdateBits_eq:
  assumes wf: "wf_bitmap bm" and range: "s + n \<le> SizeOfBitMap bm" and n: "0 < n"
  shows "UpdateBits BitsInRange ArrayElements (Some bm) s n = set_Buffer bm
     (let l = s + n - 1 in
      if s div 32 = l div 32
      then upd_elem BitsInRange (Buffer bm) (l div 32) (s mod 32) (l mod 32)
      else bindE (upd_elem BitsInRange (Buffer bm) (s div 32) (s mod 32) 31) (\<lambda>b1.
           bindE (ArrayElements b1 (s div 32 + 1) (ulong_sub (l div 32) 1)) (\<lambda>b2.
           upd_elem BitsInRange b2 (l div 32) 0 (l mod 32))))"
proof -
  from wf range have small: "s + n < 2 ^ 32" by (simp add: wf_bitmap_def)
  then have "ulong_add s n = s + n" "ulong_sub (s + n) 1 = s + n - 1"
      "s < 2 ^ 32" "s + n - 1 < 2 ^ 32"
    using n by (simp_all add: ulong_add_small ulong_sub_small)
  with range n show ?thesis
    by (simp only: UpdateBits_def with_header_def option.case ddkassert_True array_index
        bit_position Let_def if_False) (simp add: ddkassert_def)
qed

locale bit_writer =
  fixes BitsInRange :: "ULONG \<Rightarrow> nat \<Rightarrow> nat \<Rightarrow> ULONG"
    and ArrayElements :: "ULONG list \<Rightarrow> nat \<Rightarrow> nat \<Rightarrow> ULONG list res"
    and v :: bool
  assumes range_bit: "k < 32 \<Longrightarrow> e < 32 \<Longrightarrow>
      bit (BitsInRange w s e) k = (if s \<le> k \<and> k \<le> e then v else bit w k)"
    and single_bit: "k < 32 \<Longrightarrow> bit (BitsInRange w n n) k = (if k = n mod 32 then v else bit w k)"
    and elements: "e < length buf \<Longrightarrow>
      \<exists>b. ArrayElements buf s e = Inr b \<and> written v (32 * s) (32 * Suc e) buf b"
begin

lemma upd_elem_written:
  assumes "i < length buf" "e < 32"
  shows "\<exists>b. upd_elem BitsInRange buf i s e = Inr b \<and> written v (32 * i + s) (32 * i + Suc e) buf b"
proof -
  let ?b = "buf[i := BitsInRange (buf ! i) s e]"
  have "buf_bit ?b k = (if 32 * i + s \<le> k \<and> k < 32 * i + Suc e then v else buf_bit buf k)" for k
  proof (cases "k div 32 = i")
    case True
    then have "k = 32 * i + k mod 32" by auto
    then have "s \<le> k mod 32 \<and> k mod 32 \<le> e \<longleftrightarrow> 32 * i + s \<le> k \<and> k < 32 * i + Suc e"
      by linarith
    with True assms show ?thesis by (simp add: buf_bit_def range_bit)
  next
    case False
    then have "\<not> (32 * i + s \<le> k \<and> k < 32 * i + Suc e)" using assms(2) by auto
    with False show ?thesis by (auto simp: buf_bit_def)
  qed
  then show ?thesis using assms by (simp add: upd_elem_def rd_def wr_def written_def)
qed

lemma upd_elem_single:
  assumes "n div 32 < length buf"
  shows "\<exists>b. upd_elem BitsInRange buf (n div 32) n n = Inr b \<and> written v n (Suc n) buf b"
proof -
  let ?b = "buf[n div 32 := BitsInRange (buf ! (n div 32)) n n]"
  have "buf_bit ?b k = (if k = n then v else buf_bit buf k)" for k
  proof (cases "k div 32 = n div 32")
    case True
    then have "k mod 32 = n mod 32 \<longleftrightarrow> k = n" by (metis div_mult_mod_eq)
    with True assms show ?thesis by (simp add: buf_bit_def single_bit)
  qed (auto simp: buf_bit_def)
  then show ?thesis using assms
    by (auto simp: upd_elem_def rd_def wr_def written_def)
qed

lemma update_across_elements:
  assumes "s div 32 < l div 32" "l div 32 < length buf" "l < 2 ^ 32"
  shows "\<exists>b. bindE (upd_elem BitsInRange buf (s div 32) (s mod 32) 31) (\<lambda>b1.
           bindE (ArrayElements b1 (s div 32 + 1) (ulong_sub (l div 32) 1)) (\<lambda>b2.
           upd_elem BitsInRange b2 (l div 32) 0 (l mod 32))) = Inr b \<and> written v s (Suc l) buf b"
proof -
  from assms have "s div 32 < length buf" by simp
  from upd_elem_written [OF this, of 31 "s mod 32"] obtain b1 where
    b1: "upd_elem BitsInRange buf (s div 32) (s mod 32) 31 = Inr b1"
      "written v (32 * (s div 32) + s mod 32) (32 * (s div 32) + 32) buf b1" by auto
  have sub: "ulong_sub (l div 32) 1 = l div 32 - 1"
    using assms by (intro ulong_sub_small) auto
  have "l div 32 - 1 < length b1" using b1(2) assms by (simp add: written_def)
  from elements [OF this, of "s div 32 + 1"] obtain b2 where
    b2: "ArrayElements b1 (s div 32 + 1) (l div 32 - 1) = Inr b2"
      "written v (32 * (s div 32 + 1)) (32 * (l div 32)) b1 b2" using assms(1) by auto
  have "l div 32 < length b2" using b1(2) b2(2) assms by (simp add: written_def)
  from upd_elem_written [OF this, of "l mod 32" 0] obtain b3 where
    b3: "upd_elem BitsInRange b2 (l div 32) 0 (l mod 32) = Inr b3"
      "written v (32 * (l div 32)) (32 * (l div 32) + Suc (l mod 32)) b2 b3" by auto
  have "written v s (32 * (s div 32 + 1)) buf b1" using b1(2) by (simp add: algebra_simps)
  moreover have "s \<le> 32 * (s div 32 + 1)" "32 * (s div 32 + 1) \<le> 32 * (l div 32)"
    using assms(1) by auto
  ultimately have "written v s (32 * (l div 32)) buf b2"
    using b2(2) by (blast intro: written_trans)
  moreover have "written v (32 * (l div 32)) (Suc l) b2 b3" using b3(2) by simp
  moreover have "s \<le> 32 * (l div 32)" "32 * (l div 32) \<le> Suc l" using assms(1) by auto
  ultimately have "written v s (Suc l) buf b3" by (blast intro: written_trans)
  with b1 b2 b3 sub show ?thesis by simp
qed

lemma UpdateBits_written:
  assumes wf: "wf_bitmap bm" and range: "s + n \<le> SizeOfBitMap bm"
  shows "\<exists>b. UpdateBits BitsInRange ArrayElements (Some bm) s n = Inr (bm\<lparr>Buffer := b\<rparr>) \<and>
             written v s (s + n) (Buffer bm) b"
proof (cases "n = 0")
  case True
  have "bm = bm\<lparr>Buffer := Buffer bm\<rparr>" by simp
  with True range wf show ?thesis
    by (auto simp: UpdateBits_def with_header_def wf_bitmap_def ulong_simps
        intro!: exI [of _ "Buffer bm"] written_empty)
next
  case False
  define l where "l = s + n - 1"
  from wf range have small: "l < 2 ^ 32" unfolding wf_bitmap_def l_def by linarith
  from False have l: "s \<le> l" "Suc l = s + n" by (simp_all add: l_def)
  have idx: "l div 32 < length (Buffer bm)"
    using wf range l by (intro wf_bitmap_index) auto
  have eq: "UpdateBits BitsInRange ArrayElements (Some bm) s n = set_Buffer bm
     (if s div 32 = l div 32
      then upd_elem BitsInRange (Buffer bm) (l div 32) (s mod 32) (l mod 32)
      else bindE (upd_elem BitsInRange (Buffer bm) (s div 32) (s mod 32) 31) (\<lambda>b1.
           bindE (ArrayElements b1 (s div 32 + 1) (ulong_sub (l div 32) 1)) (\<lambda>b2.
           upd_elem BitsInRange b2 (l div 32) 0 (l mod 32))))"
    using UpdateBits_eq [OF wf range] False by (simp add: l_def Let_def)
  have "\<exists>b. (if s div 32 = l div 32
      then upd_elem BitsInRange (Buffer bm) (l div 32) (s mod 32) (l mod 32)
      else bindE (upd_elem BitsInRange (Buffer bm) (s div 32) (s mod 32) 31) (\<lambda>b1.
           bindE (ArrayElements b1 (s div 32 + 1) (ulong_sub (l div 32) 1)) (\<lambda>b2.
           upd_elem BitsInRange b2 (l div 32) 0 (l mod 32)))) = Inr b
        \<and> written v s (Suc l) (Buffer bm) b"
  proof (cases "s div 32 = l div 32")
    case True
    then have "32 * (l div 32) + s mod 32 = s" by (metis mult_div_mod_eq)
    with True upd_elem_written [OF idx, of "l mod 32" "s mod 32"] show ?thesis by simp
  next
    case False
    moreover have "s div 32 \<le> l div 32" using l(1) by (rule div_le_mono)
    ultimately have "s div 32 < l div 32" by simp
    with False update_across_elements [OF this idx small] show ?thesis by simp
  qed
  with eq l(2) show ?thesis by (auto simp: set_Buffer_def)
qed

lemma update_all_written:
  assumes wf: "wf_bitmap bm" and l: "l = SizeOfBitMap bm - 1"
  shows "\<exists>b. bindE (if l div 32 > 0 then ArrayElements (Buffer bm) 0 (ulong_sub (l div 32) 1)
                    else Inr (Buffer bm))
             (\<lambda>b. upd_elem BitsInRange b (l div 32) 0 (l mod 32)) = Inr b \<and>
           written v 0 (SizeOfBitMap bm) (Buffer bm) b"
proof -
  from wf_bitmap_last [OF wf] have idx: "l div 32 < length (Buffer bm)" "l < 2 ^ 32"
    by (simp_all add: l)
  from wf have size: "SizeOfBitMap bm = Suc l" by (simp add: l wf_bitmap_def)
  have sub: "l div 32 > 0 \<Longrightarrow> ulong_sub (l div 32) 1 = l div 32 - 1"
    using idx(2) by (intro ulong_sub_small) auto
  obtain b1 where b1: "(if l div 32 > 0 then ArrayElements (Buffer bm) 0 (ulong_sub (l div 32) 1)
      else Inr (Buffer bm)) = Inr b1" "written v 0 (32 * (l div 32)) (Buffer bm) b1"
    using elements [of "l div 32 - 1" "Buffer bm" 0] less_imp_diff_less [OF idx(1), of 1]
      sub written_empty
    by (cases "l div 32 > 0") auto
  have "l div 32 < length b1" using b1(2) idx(1) by (simp add: written_def)
  from upd_elem_written [OF this, of "l mod 32" 0] obtain b2 where
    "upd_elem BitsInRange b1 (l div 32) 0 (l mod 32) = Inr b2"
    "written v (32 * (l div 32)) (Suc l) b1 b2" by auto
  moreover have "32 * (l div 32) \<le> Suc l" by simp
  ultimately show ?thesis using b1 written_trans [OF b1(2)] size by auto
qed

end

lemma written_wf:
  assumes "wf_bitmap bm" "written v lo hi (Buffer bm) b"
  shows "wf_bitmap (bm\<lparr>Buffer := b\<rparr>)"
  using assms by (simp add: wf_bitmap_def written_def)

interpretation clearer: bit_writer ClearBitsInRange ClearArrayElements False
proof
  show "bit (ClearBitsInRange w s e) k = (if s \<le> k \<and> k \<le> e then False else bit w k)"
    if "k < 32" "e < 32" for k e w s
    using that by (auto simp: bit_ClearBitsInRange)
  show "bit (ClearBitsInRange w n n) k = (if k = n mod 32 then False else bit w k)"
    if "k < 32" for k w n
    using that by (auto simp: bit_ClearBitsInRange)
  show "\<exists>b. ClearArrayElements buf s e = Inr b \<and> written False (32 * s) (32 * Suc e) buf b"
    if "e < length buf" for e buf s
    using fill_elements [OF that] by (simp add: ClearArrayElements_def)
qed

interpretation setter: bit_writer SetBitsInRange SetArrayElements True
proof
  show "bit (SetBitsInRange w s e) k = (if s \<le> k \<and> k \<le> e then True else bit w k)"
    if "k < 32" "e < 32" for k e w s
    using that by (auto simp: bit_SetBitsInRange)
  show "bit (SetBitsInRange w n n) k = (if k = n mod 32 then True else bit w k)"
    if "k < 32" for k w n
    using that by (auto simp: bit_SetBitsInRange)
  show "\<exists>b. SetArrayElements buf s e = Inr b \<and> written True (32 * s) (32 * Suc e) buf b"
    if "e < length buf" for e buf s
    using fill_elements [OF that] by (simp add: SetArrayElements_def)
qed

lemma RtlClearBit_written:
  assumes "wf_bitmap bm" "n < SizeOfBitMap bm"
  shows "\<exists>b. RtlClearBit (Some bm) n = Inr (bm\<lparr>Buffer := b\<rparr>) \<and> written False n (Suc n) (Buffer bm) b"
  using clearer.upd_elem_single [OF wf_bitmap_index [OF assms]] assms(2)
  by (auto simp: RtlClearBit_def with_header_def set_Buffer_def)

lemma RtlSetBit_written:
  assumes "wf_bitmap bm" "n < SizeOfBitMap bm"
  shows "\<exists>b. RtlSetBit (Some bm) n = Inr (bm\<lparr>Buffer := b\<rparr>) \<and> written True n (Suc n) (Buffer bm) b"
  using setter.upd_elem_single [OF wf_bitmap_index [OF assms]] assms(2)
  by (auto simp: RtlSetBit_def with_header_def set_Buffer_def)

lemma RtlClearAllBits_written:
  assumes "wf_bitmap bm"
  shows "\<exists>b. RtlClearAllBits (Some bm) = Inr (bm\<lparr>Buffer := b\<rparr>) \<and>
    written False 0 (SizeOfBitMap bm) (Buffer bm) b"
  using clearer.update_all_written [OF assms refl] wf_bitmap_last [OF assms]
  by (auto simp: RtlClearAllBits_def with_header_def set_Buffer_def Let_def)

lemma RtlSetAllBits_written:
  assumes "wf_bitmap bm"
  shows "\<exists>b. RtlSetAllBits (Some bm) = Inr (bm\<lparr>Buffer := b\<rparr>) \<and>
    written True 0 (SizeOfBitMap bm) (Buffer bm) b"
  using setter.update_all_written [OF assms refl] wf_bitmap_last [OF assms]
  by (auto simp: RtlSetAllBits_def with_header_def set_Buffer_def Let_def)

lemma RtlTestBit_bit:
  assumes "wf_bitmap bm" "n < SizeOfBitMap bm"
  shows "RtlTestBit (Some bm) n = Inr (bm_bit bm n)"
  using wf_bitmap_index [OF assms] assms(2)
  by (simp add: RtlTestBit_def with_header_def rd_def and_shl1_zero bm_bit_def buf_bit_def)

lemma RtlTestBit_written:
  assumes "wf_bitmap bm" "i < SizeOfBitMap bm" "written v lo hi (Buffer bm) b"
  shows "RtlTestBit (Some (bm\<lparr>Buffer := b\<rparr>)) i = Inr (if lo \<le> i \<and> i < hi then v else bm_bit bm i)"
  using RtlTestBit_bit [OF written_wf [OF assms(1,3)], of i] assms
  by (simp add: written_def bm_bit_def wf_bitmap_def)

section \<open>Searches\<close>

text \<open>
  The specification of a search: the first position from \<open>lo\<close> on at which \<open>n\<close> consecutive
  bits below \<open>hi\<close> satisfy \<open>P\<close>.
\<close>

definition first_fit :: "(nat \<Rightarrow> bool) \<Rightarrow> nat \<Rightarrow> nat \<Rightarrow> nat \<Rightarrow> nat option" where
  "first_fit P n lo hi = List.find (\<lambda>j. \<forall>i < n. P (j + i)) [lo..<Suc hi - n]"

definition no_fit :: "(nat \<Rightarrow> bool) \<Rightarrow> nat \<Rightarrow> nat \<Rightarrow> nat \<Rightarrow> bool" where
  "no_fit P n lo hi \<longleftrightarrow> (\<forall>j. lo \<le> j \<and> j + n \<le> hi \<longrightarrow> (\<exists>i < n. \<not> P (j + i)))"

lemma first_fit_None: "first_fit P n lo hi = None \<longleftrightarrow> no_fit P n lo hi"
proof -
  have "j \<in> set [lo..<Suc hi - n] \<longleftrightarrow> lo \<le> j \<and> j + n \<le> hi" for j by auto
  then show ?thesis by (auto simp: first_fit_def no_fit_def find_None_iff)
qed

lemma find_upt_least:
  assumes "lo \<le> j" "j < hi" "P j" "\<And>i. lo \<le> i \<Longrightarrow> i < j \<Longrightarrow> \<not> P i"
  shows "List.find P [lo..<hi] = Some j"
  unfolding find_Some_iff
  using assms by (intro exI [of _ "j - lo"]) auto

text \<open>
  The invariant of a scan that began at \<open>s\<close> and has got to \<open>p\<close>: the run record describes the
  longest run ending at \<open>p\<close>, it is shorter than \<open>n\<close>, and no run of \<open>n\<close> bits has been passed.
\<close>

definition run_inv :: "(nat \<Rightarrow> bool) \<Rightarrow> nat \<Rightarrow> nat \<Rightarrow> nat \<Rightarrow> run \<Rightarrow> bool" where
  "run_inv P n s p r \<longleftrightarrow> s + runCount r \<le> p \<and> (runStarted r \<longleftrightarrow> 0 < runCount r) \<and> runCount r < n \<and>
     (runStarted r \<longrightarrow> startBit r = p - runCount r) \<and>
     (\<forall>i. p - runCount r \<le> i \<and> i < p \<longrightarrow> P i) \<and>
     (s + runCount r < p \<longrightarrow> \<not> P (p - runCount r - 1)) \<and> no_fit P n s p"

definition run_found :: "(nat \<Rightarrow> bool) \<Rightarrow> nat \<Rightarrow> nat \<Rightarrow> nat \<Rightarrow> run \<Rightarrow> bool" where
  "run_found P n s p r \<longleftrightarrow> s \<le> startBit r \<and> startBit r + n \<le> p \<and> (\<forall>i < n. P (startBit r + i)) \<and>
     (\<forall>j. s \<le> j \<and> j < startBit r \<longrightarrow> (\<exists>i < n. \<not> P (j + i)))"

definition scan_result :: "(nat \<Rightarrow> bool) \<Rightarrow> nat \<Rightarrow> nat \<Rightarrow> nat \<Rightarrow> bool \<times> run \<Rightarrow> bool" where
  "scan_result P n s p res \<longleftrightarrow>
     (if fst res then run_found P n s p (snd res) else run_inv P n s p (snd res))"

lemma run_found_first_fit:
  assumes "run_found P n s p r" "p \<le> hi"
  shows "first_fit P n s hi = Some (startBit r)"
  unfolding first_fit_def
  using assms by (intro find_upt_least) (auto simp: run_found_def)

lemma run_found_mono: "run_found P n s p r \<Longrightarrow> p \<le> q \<Longrightarrow> run_found P n s q r"
  by (auto simp: run_found_def)

lemma run_inv_init: "0 < n \<Longrightarrow> \<not> runStarted r \<Longrightarrow> runCount r = 0 \<Longrightarrow> run_inv P n s s r"
  by (auto simp: run_inv_def no_fit_def)

lemma run_inv_miss:
  assumes "run_inv P n s p r" "\<not> P p"
  shows "run_inv P n s (Suc p) (r\<lparr>runCount := 0, runStarted := False\<rparr>)"
proof -
  have "no_fit P n s (Suc p)"
  proof (unfold no_fit_def, intro allI impI)
    fix j assume j: "s \<le> j \<and> j + n \<le> Suc p"
    show "\<exists>i < n. \<not> P (j + i)"
    proof (cases "j + n \<le> p")
      case True
      with j assms show ?thesis by (auto simp: run_inv_def no_fit_def)
    next
      case False
      with j assms have "p - j < n" "j + (p - j) = p" by (auto simp: run_inv_def)
      with assms(2) show ?thesis by metis
    qed
  qed
  with assms show ?thesis by (auto simp: run_inv_def)
qed

lemma no_fit_blocked:
  assumes "run_inv P n s p r" "s \<le> j" "j + runCount r < p"
  shows "\<exists>i < n. \<not> P (j + i)"
proof (cases "j + n \<le> p")
  case True
  with assms show ?thesis by (auto simp: run_inv_def no_fit_def)
next
  case False
  from assms have "\<not> P (p - runCount r - 1)" by (auto simp: run_inv_def)
  moreover have "j + (p - runCount r - 1 - j) = p - runCount r - 1" "p - runCount r - 1 - j < n"
    using False assms(3) by auto
  ultimately show ?thesis by metis
qed

text \<open>Passing \<open>m\<close> bits that all satisfy \<open>P\<close>, in one step as for a whole element, or one by one.\<close>

lemma run_advance:
  assumes inv: "run_inv P n s p r" and m: "0 < m" and all: "\<forall>i. p \<le> i \<and> i < p + m \<longrightarrow> P i"
    and r': "runCount r' = runCount r + m" "runStarted r'" "startBit r' = p - runCount r"
  shows "scan_result P n s (p + m) (runCount r' \<ge> n, r')"
proof (cases "runCount r' \<ge> n")
  case True
  have "P i" if "p - runCount r \<le> i" "i < p + m" for i
    using that inv all by (cases "i < p") (auto simp: run_inv_def)
  moreover have "\<exists>i < n. \<not> P (j + i)" if "s \<le> j" "j < startBit r'" for j
    using that inv r'(3) by (intro no_fit_blocked [OF inv]) auto
  ultimately show ?thesis using True inv r' by (auto simp: scan_result_def run_found_def run_inv_def)
next
  case False
  have "no_fit P n s (p + m)"
  proof (unfold no_fit_def, intro allI impI)
    fix j assume "s \<le> j \<and> j + n \<le> p + m"
    with False r' show "\<exists>i < n. \<not> P (j + i)" by (intro no_fit_blocked [OF inv]) auto
  qed
  moreover have "P i" if "p - runCount r \<le> i" "i < p + m" for i
    using that inv all by (cases "i < p") (auto simp: run_inv_def)
  ultimately show ?thesis using False inv r' m by (auto simp: scan_result_def run_inv_def)
qed

text \<open>
  What the searches need from a kind of bit: the test on a whole element agrees with the
  test on its 32 bits.
\<close>

locale bit_kind =
  fixes full :: "ULONG \<Rightarrow> bool" and hit :: "ULONG \<Rightarrow> nat \<Rightarrow> bool"
  assumes full_iff: "full w \<longleftrightarrow> (\<forall>k < 32. hit w k)"
begin

abbreviation hit_at :: "ULONG list \<Rightarrow> nat \<Rightarrow> bool" where
  "hit_at buf i \<equiv> hit (buf ! (i div 32)) (i mod 32)"

lemma hit_at_pos: "k < 32 \<Longrightarrow> hit_at buf (32 * i + k) = hit (buf ! i) k"
  by simp

lemma full_hit_at: "full (buf ! i) \<Longrightarrow> 32 * i \<le> j \<Longrightarrow> j < 32 * i + 32 \<Longrightarrow> hit_at buf j"
proof -
  assume a: "full (buf ! i)" "32 * i \<le> j" "j < 32 * i + 32"
  then have "j div 32 = i" by auto
  with a show ?thesis by (simp add: full_iff)
qed

lemma NumBitsLoop_scan:
  assumes "a \<le> b" "b \<le> 32" "32 * i + b < 2 ^ 32" "n < 2 ^ 32"
    and "run_inv (hit_at buf) n s (32 * i + a) r"
  shows "scan_result (hit_at buf) n s (32 * i + b) (NumBitsLoop (hit (buf ! i)) i n [a..<b] r)"
  using assms
proof (induction "b - a" arbitrary: a r)
  case 0
  then show ?case by (simp add: scan_result_def)
next
  case (Suc d)
  then have ab: "a < b" by simp
  then have upt: "[a..<b] = a # [Suc a..<b]" by (rule upt_conv_Cons)
  let ?P = "hit_at buf" and ?p = "32 * i + a"
  have IH: "run_inv ?P n s (Suc ?p) r' \<Longrightarrow>
      scan_result ?P n s (32 * i + b) (NumBitsLoop (hit (buf ! i)) i n [Suc a..<b] r')" for r'
    using Suc.hyps(1) [of "Suc a" r'] Suc.hyps(2) Suc.prems ab by simp
  have Pp: "?P ?p = hit (buf ! i) a" using ab Suc.prems(2) by (intro hit_at_pos) simp
  show ?case
  proof (cases "hit (buf ! i) a")
    case False
    with IH run_inv_miss [OF Suc.prems(5)] Pp show ?thesis by (simp add: upt)
  next
    case True
    let ?r1 = "if runStarted r then r
       else r\<lparr>startBit := CalculateBitNumberInBitMap i a, runStarted := True\<rparr>"
    let ?r2 = "?r1\<lparr>runCount := ulong_add (runCount ?r1) 1\<rparr>"
    have "runCount r < n" using Suc.prems(5) by (simp add: run_inv_def)
    then have "runCount ?r2 = runCount r + 1" using Suc.prems(4) by (simp add: ulong_add_small)
    moreover have "startBit ?r2 = ?p - runCount r" "runStarted ?r2"
      using Suc.prems ab by (auto simp: run_inv_def bit_number)
    moreover have "\<forall>j. ?p \<le> j \<and> j < ?p + 1 \<longrightarrow> ?P j" using True Pp by (auto simp: le_less_Suc_eq)
    ultimately have adv: "scan_result ?P n s (?p + 1) (runCount ?r2 \<ge> n, ?r2)"
      using run_advance [OF Suc.prems(5), of 1 ?r2] by simp
    show ?thesis
    proof (cases "runCount ?r2 \<ge> n")
      case fin: True
      with adv have "run_found ?P n s (32 * i + b) ?r2"
        using ab by (auto simp: scan_result_def intro: run_found_mono)
      with True fin show ?thesis by (simp add: upt scan_result_def Let_def)
    next
      case False
      with adv have "run_inv ?P n s (Suc ?p) ?r2" by (simp add: scan_result_def)
      from IH [OF this] True False show ?thesis by (simp add: upt Let_def)
    qed
  qed
qed

lemma NumBitsFound_scan:
  assumes ae: "a \<le> e" "e < 32" and small: "32 * i + Suc e < 2 ^ 32" "n < 2 ^ 32"
    and inv: "run_inv (hit_at buf) n s (32 * i + a) r"
    and whole: "full (buf ! i) \<Longrightarrow> runStarted r \<Longrightarrow> a = 0 \<and> e = 31"
  shows "scan_result (hit_at buf) n s (32 * i + Suc e) (NumBitsFound full hit (buf ! i) i n a e r)"
proof (cases "full (buf ! i)")
  case False
  with NumBitsLoop_scan [of a "Suc e" i n buf s r] assms show ?thesis
    by (simp add: NumBitsFound_def del: upt_Suc)
next
  case full: True
  let ?p = "32 * i + a" and ?m = "Suc e - a"
  have all: "\<forall>j. ?p \<le> j \<and> j < ?p + ?m \<longrightarrow> hit_at buf j" using full ae full_hit_at by auto
  have pm: "?p + ?m = 32 * i + Suc e" using ae by simp
  have bounds: "runCount r + ?m < 2 ^ 32"
    using inv small ae by (auto simp: run_inv_def)
  have m1: "ulong_add (ulong_sub e a) 1 = ?m"
    using ae by (simp add: ulong_add_small ulong_sub_small)
  show ?thesis
  proof (cases "runStarted r")
    case False
    then have "runCount r = 0" using inv by (simp add: run_inv_def)
    let ?r1 = "r\<lparr>startBit := CalculateBitNumberInBitMap i a, runStarted := True,
                 runCount := ulong_add (runCount r) (ulong_add (ulong_sub e a) 1)\<rparr>"
    have "scan_result (hit_at buf) n s (?p + ?m) (runCount ?r1 \<ge> n, ?r1)"
      using \<open>runCount r = 0\<close> bounds small ae
      by (intro run_advance [OF inv _ all]) (auto simp: m1 [unfolded One_nat_def] ulong_add_small bit_number)
    with full False show ?thesis by (simp add: NumBitsFound_def Let_def pm)
  next
    case True
    let ?r1 = "r\<lparr>runCount := ulong_add (runCount r) 32\<rparr>"
    from whole [OF full True] have "?m = 32" by simp
    have "scan_result (hit_at buf) n s (?p + ?m) (runCount ?r1 \<ge> n, ?r1)"
      using \<open>?m = 32\<close> bounds True inv
      by (intro run_advance [OF inv _ all]) (auto simp: ulong_add_small run_inv_def)
    with full True show ?thesis by (simp add: NumBitsFound_def Let_def pm)
  qed
qed

lemma SearchMiddle_scan:
  assumes "a \<le> b" "b \<le> length buf" "32 * b < 2 ^ 32" "n < 2 ^ 32"
    and "run_inv (hit_at buf) n s (32 * a) r"
  shows "\<exists>res. SearchMiddle (NumBitsFound full hit) buf n [a..<b] r = Inr res \<and>
           scan_result (hit_at buf) n s (32 * b) res"
  using assms
proof (induction "b - a" arbitrary: a r)
  case 0
  then show ?case by (auto simp: scan_result_def)
next
  case (Suc d)
  then have ab: "a < b" by simp
  then have upt: "[a..<b] = a # [Suc a..<b]" by (rule upt_conv_Cons)
  have rd: "rd buf a = Inr (buf ! a)" using ab Suc.prems by (intro rd_in) simp
  obtain fnd r' where scan: "NumBitsFound full hit (buf ! a) a n 0 31 r = (fnd, r')" by fastforce
  have res: "scan_result (hit_at buf) n s (32 * Suc a) (fnd, r')"
    using NumBitsFound_scan [of 0 31 a n buf s r] Suc.prems ab scan by (simp add: add.commute)
  show ?case
  proof (cases fnd)
    case True
    with res have "run_found (hit_at buf) n s (32 * b) r'"
      using ab by (auto simp: scan_result_def intro: run_found_mono)
    with True scan show ?thesis by (simp add: upt rd scan_result_def)
  next
    case False
    with res have "run_inv (hit_at buf) n s (32 * Suc a) r'" by (simp add: scan_result_def)
    with Suc.hyps(1) [of "Suc a" r'] Suc.hyps(2) Suc.prems ab False scan show ?thesis
      by (simp add: upt rd)
  qed
qed

lemma SearchPass_scan:
  assumes n: "0 < n" "n < 2 ^ 32" and s: "s < sz" and sz: "sz < 2 ^ 32" "sz \<le> 32 * length buf"
    and r: "\<not> runStarted r" "runCount r = 0"
    and whole: "32 dvd sz \<or> \<not> full (buf ! ((sz - 1) div 32))"
  shows "\<exists>res. SearchPass (NumBitsFound full hit) buf n (s div 32) (s mod 32)
            ((sz - 1) div 32) ((sz - 1) mod 32) r = Inr res \<and> scan_result (hit_at buf) n s sz res"
proof -
  define l where "l = sz - 1"
  have l: "s \<le> l" "Suc l = sz" using s by (simp_all add: l_def)
  have li: "l div 32 < length buf" using sz l by (simp add: less_mult_imp_div_less mult.commute)
  have si: "s div 32 < length buf" using li div_le_mono [OF l(1), of 32] by linarith
  have inv: "run_inv (hit_at buf) n s (32 * (s div 32) + s mod 32) r"
    using n r by (simp add: run_inv_init)
  note rds = rd_in [OF li] rd_in [OF si]
  have end_pos: "32 * (l div 32) + Suc (l mod 32) = sz" using l by simp
  have whole': "full (buf ! (l div 32)) \<Longrightarrow> l mod 32 = 31"
    using whole l by (auto simp: l_def [symmetric] dvd_eq_mod_eq_0 mod_Suc split: if_splits)
  have "\<exists>res. SearchPass (NumBitsFound full hit) buf n (s div 32) (s mod 32)
            (l div 32) (l mod 32) r = Inr res \<and> scan_result (hit_at buf) n s sz res"
  proof (cases "s div 32 = l div 32")
    case True
    have "s mod 32 \<le> l mod 32" using l(1) True by (metis add_le_cancel_left mult_div_mod_eq)
    with NumBitsFound_scan [of "s mod 32" "l mod 32" "l div 32" n buf s r] inv True r li sz n end_pos
    show ?thesis by (simp add: SearchPass_def rds del: split_paired_Ex)
  next
    case False
    with div_le_mono [OF l(1), of 32] have lt: "s div 32 < l div 32" by simp
    have below: "32 * (l div 32) < 2 ^ 32" using sz(1) end_pos by linarith
    obtain f1 r1 where scan1: "NumBitsFound full hit (buf ! (s div 32)) (s div 32) n (s mod 32) 31 r = (f1, r1)"
      by fastforce
    have res1: "scan_result (hit_at buf) n s (32 * (s div 32 + 1)) (f1, r1)"
      using NumBitsFound_scan [of "s mod 32" 31 "s div 32" n buf s r] inv r n lt below scan1
      by (simp add: add.commute less_Suc_eq_le [symmetric])
    show ?thesis
    proof (cases f1)
      case True
      with res1 lt end_pos have "run_found (hit_at buf) n s sz r1"
        by (auto simp: scan_result_def intro: run_found_mono)
      with True False scan1 si show ?thesis
        by (simp add: SearchPass_def rds scan_result_def)
    next
      case nf1: False
      with res1 SearchMiddle_scan [of "s div 32 + 1" "l div 32" buf n s r1] lt li below n
      obtain f2 r2 where mid: "SearchMiddle (NumBitsFound full hit) buf n [s div 32 + 1..<l div 32] r1 = Inr (f2, r2)"
        and res2: "scan_result (hit_at buf) n s (32 * (l div 32)) (f2, r2)"
        by (auto simp: scan_result_def)
      show ?thesis
      proof (cases f2)
        case True
        with res2 end_pos have "run_found (hit_at buf) n s sz r2"
          by (auto simp: scan_result_def intro: run_found_mono)
        with True nf1 False scan1 mid si show ?thesis
          by (simp add: SearchPass_def rds scan_result_def)
      next
        case nf2: False
        with res2 have "run_inv (hit_at buf) n s (32 * (l div 32) + 0) r2" by (simp add: scan_result_def)
        with NumBitsFound_scan [of 0 "l mod 32" "l div 32" n buf s r2] whole' sz n end_pos
        have "scan_result (hit_at buf) n s sz
            (NumBitsFound full hit (buf ! (l div 32)) (l div 32) n 0 (l mod 32) r2)" by simp
        with nf1 nf2 False scan1 mid si li show ?thesis
          by (simp add: SearchPass_def rds del: split_paired_Ex)
      qed
    qed
  qed
  then show ?thesis by (simp only: l_def)
qed

lemma SearchLoop_scan:
  assumes n: "0 < n" "n < 2 ^ 32" and sz: "s < sz" "sz < 2 ^ 32" "sz \<le> 32 * length buf"
    and whole: "32 dvd sz \<or> \<not> full (buf ! ((sz - 1) div 32))"
    and r: "\<not> runStarted r" "runCount r = 0"
  shows "SearchLoop (Suc c) (NumBitsFound full hit) buf n (s div 32) (s mod 32)
            ((sz - 1) div 32) ((sz - 1) mod 32) r =
          (case first_fit (hit_at buf) n s sz of
             Some j \<Rightarrow> Inr j
           | None \<Rightarrow> if c = 0 then Inr ALL_BITS_SET
               else Inr (case first_fit (hit_at buf) n 0 sz of Some j \<Rightarrow> j | None \<Rightarrow> ALL_BITS_SET))"
  using assms
proof (induction c arbitrary: s r)
  case 0
  from SearchPass_scan [OF 0(1-5,7,8,6)] show ?case
    by (auto simp: scan_result_def run_found_first_fit run_inv_def first_fit_None [symmetric])
next
  case (Suc c)
  from SearchPass_scan [OF Suc.prems(1-5,7,8,6)] obtain fnd r' where
    pass: "SearchPass (NumBitsFound full hit) buf n (s div 32) (s mod 32)
            ((sz - 1) div 32) ((sz - 1) mod 32) r = Inr (fnd, r')"
    and res: "scan_result (hit_at buf) n s sz (fnd, r')" by auto
  show ?case
  proof (cases fnd)
    case True
    with res have "first_fit (hit_at buf) n s sz = Some (startBit r')"
      by (auto simp: scan_result_def run_found_first_fit)
    with True pass show ?thesis by simp
  next
    case False
    with res have "first_fit (hit_at buf) n s sz = None"
      by (simp add: scan_result_def run_inv_def first_fit_None)
    moreover from Suc.IH [of 0 "r'\<lparr>runStarted := False, runCount := 0\<rparr>"] Suc.prems
    have "SearchLoop (Suc c) (NumBitsFound full hit) buf n 0 0 ((sz - 1) div 32) ((sz - 1) mod 32)
        (r'\<lparr>runStarted := False, runCount := 0\<rparr>) =
        Inr (case first_fit (hit_at buf) n 0 sz of Some j \<Rightarrow> j | None \<Rightarrow> ALL_BITS_SET)"
      by (auto split: option.splits)
    ultimately show ?thesis using False pass by simp
  qed
qed

lemma FindBits_first_fit:
  assumes wf: "wf_bitmap bm" and n: "0 < n" "n < SizeOfBitMap bm"
    and whole: "32 dvd SizeOfBitMap bm \<or> \<not> full (Buffer bm ! ((SizeOfBitMap bm - 1) div 32))"
    and hint: "h < 2 ^ 32"
  shows "FindBits (NumBitsFound full hit) (Some bm) n h =
    Inr (case (if h < SizeOfBitMap bm then first_fit (hit_at (Buffer bm)) n h (SizeOfBitMap bm) else None) of
           Some j \<Rightarrow> j
         | None \<Rightarrow> (case first_fit (hit_at (Buffer bm)) n 0 (SizeOfBitMap bm) of
                     Some j \<Rightarrow> j | None \<Rightarrow> ALL_BITS_SET))"
proof -
  let ?sz = "SizeOfBitMap bm"
  let ?r0 = "\<lparr>runStarted = False, runEnded = False, startBit = ALL_BITS_SET, runCount = 0\<rparr>"
  note loop = SearchLoop_scan [OF n(1) _ _ _ _ whole, of _ ?r0]
  have sz: "?sz < 2 ^ 32" "?sz \<le> 32 * length (Buffer bm)" "n < 2 ^ 32" "0 < ?sz"
    using wf n by (auto simp: wf_bitmap_def)
  note last = wf_bitmap_last [OF wf]
  show ?thesis
  proof (cases "n > ulong_sub ?sz h \<or> ?sz \<le> h")
    case True
    have "(if h < ?sz then first_fit (hit_at (Buffer bm)) n h ?sz else None) = None"
    proof (cases "h < ?sz")
      case True
      with \<open>n > ulong_sub ?sz h \<or> ?sz \<le> h\<close> sz have "n > ?sz - h" by (simp add: ulong_sub_small)
      then show ?thesis by (auto simp: first_fit_None no_fit_def)
    qed simp
    with True n loop [of 0 0] sz last show ?thesis
      by (auto simp: FindBits_def with_header_def Let_def simp del: SearchLoop.simps split: option.splits)
  next
    case False
    then have "h < ?sz" by simp
    with False n loop [of h 1] sz last hint show ?thesis
      by (auto simp: FindBits_def with_header_def Let_def numeral_2_eq_2
          simp del: SearchLoop.simps split: option.splits)
  qed
qed

lemma CheckBits_spec:
  assumes "c + length ks \<le> len" "len < 2 ^ 32"
  shows "CheckBits P len stop ks c =
    (if \<forall>k \<in> set ks. P k then Inr (c + length ks) else Inl False)"
  using assms by (induction ks arbitrary: c) (auto simp: ulong_add_small)

lemma CheckElements_spec:
  assumes "c + 32 * length ks \<le> len" "len < 2 ^ 32" "\<forall>k \<in> set ks. k < length buf"
  shows "CheckElements full len buf ks c =
    Inr (if \<forall>k \<in> set ks. full (buf ! k) then Inr (c + 32 * length ks) else Inl False)"
  using assms by (induction ks arbitrary: c) (auto simp: ulong_add_small rd_in)

lemma segment_hits:
  assumes "b \<le> 32"
  shows "(\<forall>k \<in> set [a..<b]. hit (buf ! i) k) \<longleftrightarrow> (\<forall>j. 32 * i + a \<le> j \<and> j < 32 * i + b \<longrightarrow> hit_at buf j)"
proof
  assume seg: "\<forall>k \<in> set [a..<b]. hit (buf ! i) k"
  show "\<forall>j. 32 * i + a \<le> j \<and> j < 32 * i + b \<longrightarrow> hit_at buf j"
  proof (intro allI impI)
    fix j assume j: "32 * i + a \<le> j \<and> j < 32 * i + b"
    define k where "k = j - 32 * i"
    with j assms have "j = 32 * i + k" "k \<in> set [a..<b]" "k < 32" by auto
    with seg show "hit_at buf j" by simp
  qed
next
  assume at: "\<forall>j. 32 * i + a \<le> j \<and> j < 32 * i + b \<longrightarrow> hit_at buf j"
  show "\<forall>k \<in> set [a..<b]. hit (buf ! i) k"
  proof
    fix k assume "k \<in> set [a..<b]"
    with at [rule_format, of "32 * i + k"] assms show "hit (buf ! i) k" by simp
  qed
qed

lemma elements_hits:
  "(\<forall>i \<in> set [a..<b]. full (buf ! i)) \<longleftrightarrow> (\<forall>j. 32 * a \<le> j \<and> j < 32 * b \<longrightarrow> hit_at buf j)"
proof
  assume f: "\<forall>i \<in> set [a..<b]. full (buf ! i)"
  show "\<forall>j. 32 * a \<le> j \<and> j < 32 * b \<longrightarrow> hit_at buf j"
  proof (intro allI impI)
    fix j assume "32 * a \<le> j \<and> j < 32 * b"
    then have "j div 32 \<in> set [a..<b]" by auto
    with f show "hit_at buf j" by (simp add: full_iff)
  qed
next
  assume at: "\<forall>j. 32 * a \<le> j \<and> j < 32 * b \<longrightarrow> hit_at buf j"
  show "\<forall>i \<in> set [a..<b]. full (buf ! i)"
  proof (intro ballI, unfold full_iff, intro allI impI)
    fix i k :: nat assume "i \<in> set [a..<b]" "k < 32"
    with at [rule_format, of "32 * i + k"] show "hit (buf ! i) k" by simp
  qed
qed

lemma range_split:
  assumes "a \<le> b" "b \<le> (c::nat)"
  shows "(\<forall>j. a \<le> j \<and> j < c \<longrightarrow> P j) \<longleftrightarrow>
    (\<forall>j. a \<le> j \<and> j < b \<longrightarrow> P j) \<and> (\<forall>j. b \<le> j \<and> j < c \<longrightarrow> P j)"
  using assms by (meson le_trans less_le_trans not_le)

lemma AreBits_spec:
  assumes wf: "wf_bitmap bm" and small: "s + n < 2 ^ 32"
  shows "AreBits full hit (Some bm) s n = Inr (0 < n \<and> s + n \<le> SizeOfBitMap bm \<and>
           (\<forall>j. s \<le> j \<and> j < s + n \<longrightarrow> hit_at (Buffer bm) j))"
proof (cases "n = 0 \<or> SizeOfBitMap bm < s + n")
  case True
  then show ?thesis using small by (auto simp: AreBits_def with_header_def ulong_add_small)
next
  case False
  define l where "l = s + n - 1"
  let ?buf = "Buffer bm"
  have l: "s \<le> l" "s + n = Suc l" "l < 2 ^ 32" "s < 2 ^ 32"
    using False small by (auto simp: l_def)
  have li: "l div 32 < length ?buf" using wf False l by (intro wf_bitmap_index) auto
  have si: "s div 32 < length ?buf" using li div_le_mono [OF l(1), of 32] by linarith
  have add: "ulong_add s n = Suc l" "ulong_sub (Suc l) 1 = l"
    using l small by (simp_all add: ulong_add_small ulong_sub_small)
  have pos_l: "32 * (l div 32) + Suc (l mod 32) = Suc l" by simp
  have eq: "AreBits full hit (Some bm) s n =
      (if s div 32 = l div 32
       then case CheckBits (hit (?buf ! (l div 32))) n False [s mod 32..<Suc (l mod 32)] 0 of
              Inl b \<Rightarrow> Inr b | Inr _ \<Rightarrow> Inr True
       else case CheckBits (hit (?buf ! (s div 32))) n True [s mod 32..<32] 0 of
              Inl b \<Rightarrow> Inr b
            | Inr n1 \<Rightarrow> bindE (CheckElements full n ?buf [s div 32 + 1..<l div 32] n1) (\<lambda>m.
                case m of Inl b \<Rightarrow> Inr b
                | Inr n2 \<Rightarrow> (case CheckBits (hit (?buf ! (l div 32))) n False [0..<Suc (l mod 32)] n2 of
                    Inl b \<Rightarrow> Inr b | Inr _ \<Rightarrow> Inr True)))"
    using False l
    by (simp only: AreBits_def with_header_def option.case Let_def add array_index bit_position
        rd_in [OF li] rd_in [OF si] bindE_Inr) auto
  show ?thesis
  proof (cases "s div 32 = l div 32")
    case True
    then have ps: "32 * (l div 32) + s mod 32 = s" by (metis mult_div_mod_eq)
    have "s mod 32 \<le> Suc (l mod 32)" using l(1) True by (metis add_le_cancel_left le_SucI mult_div_mod_eq)
    then have cnt: "0 + length [s mod 32..<Suc (l mod 32)] \<le> n"
      using ps pos_l l(2) unfolding length_upt by linarith
    show ?thesis
      using eq True False l CheckBits_spec [OF cnt] segment_hits [of "Suc (l mod 32)" "s mod 32" ?buf "l div 32"]
        small unfolding ps pos_l
      by (simp del: upt_Suc)
  next
    case neq: False
    with div_le_mono [OF l(1), of 32] have lt: "s div 32 < l div 32" by simp
    define n1 where "n1 = 32 - s mod 32"
    define n2 where "n2 = n1 + 32 * (l div 32 - (s div 32 + 1))"
    have tot: "n2 + Suc (l mod 32) = n"
    proof -
      have "s = 32 * (s div 32) + s mod 32" "l = 32 * (l div 32) + l mod 32" by simp_all
      then show ?thesis using lt l(2) unfolding n1_def n2_def
        by (simp add: diff_mult_distrib2)
    qed
    have c1: "0 + length [s mod 32..<32] \<le> n" "0 + length [s mod 32..<32] = n1"
      using tot by (auto simp: n1_def n2_def)
    have c2: "n1 + 32 * length [s div 32 + 1..<l div 32] \<le> n"
        "n1 + 32 * length [s div 32 + 1..<l div 32] = n2"
      using tot by (auto simp: n2_def)
    have c3: "n2 + length [0..<Suc (l mod 32)] \<le> n" using tot by (simp del: upt_Suc)
    have bound: "\<forall>k \<in> set [s div 32 + 1..<l div 32]. k < length ?buf" using li by auto
    have p1: "32 * (s div 32) + s mod 32 = s" by simp
    have r1: "(\<forall>j. s \<le> j \<and> j < Suc l \<longrightarrow> hit_at ?buf j) \<longleftrightarrow>
        (\<forall>k \<in> set [s mod 32..<32]. hit (?buf ! (s div 32)) k) \<and>
        (\<forall>i \<in> set [s div 32 + 1..<l div 32]. full (?buf ! i)) \<and>
        (\<forall>k \<in> set [0..<Suc (l mod 32)]. hit (?buf ! (l div 32)) k)"
    proof -
      have b: "s \<le> 32 * (s div 32) + 32" "32 * (s div 32) + 32 \<le> 32 * (l div 32)"
          "32 * (l div 32) \<le> Suc l" using lt by auto
      have e: "32 * (s div 32 + 1) = 32 * (s div 32) + 32" by simp
      show ?thesis
        using segment_hits [of 32 "s mod 32" ?buf "s div 32"]
          segment_hits [of "Suc (l mod 32)" 0 ?buf "l div 32"]
          elements_hits [of "s div 32 + 1" "l div 32" ?buf, unfolded e]
          range_split [OF b(1) le_trans [OF b(2,3)], of "hit_at ?buf"] range_split [OF b(2,3), of "hit_at ?buf"]
        unfolding pos_l p1 by (simp del: upt_Suc)
    qed
    show ?thesis
      using eq neq False small l(2) r1
        CheckBits_spec [OF c1(1), of "hit (?buf ! (s div 32))" True]
        CheckElements_spec [OF c2(1) _ bound]
        CheckBits_spec [OF c3, of "hit (?buf ! (l div 32))" False]
      by (simp only: c1(2) c2(2)) (simp del: upt_Suc)
  qed
qed

end

interpretation clear_bits: bit_kind all_clear is_clear
proof
  show "all_clear w \<longleftrightarrow> (\<forall>k < 32. is_clear w k)" for w
    unfolding all_clear_def is_clear_def and_shl1_zero by (subst word32_zero_iff) simp
qed

interpretation set_bits: bit_kind all_set is_set
proof
  show "all_set w \<longleftrightarrow> (\<forall>k < 32. is_set w k)" for w
    unfolding all_set_def is_set_def and_shl1_zero by (subst word32_ones_iff) simp
qed

lemma kind_at:
  "is_clear (Buffer bm ! (j div 32)) (j mod 32) \<longleftrightarrow> \<not> bm_bit bm j"
  "is_set (Buffer bm ! (j div 32)) (j mod 32) \<longleftrightarrow> bm_bit bm j"
  by (simp_all add: is_clear_def is_set_def and_shl1_zero bm_bit_def buf_bit_def)

section \<open>The next run of clear bits\<close>

text \<open>
  The state of the search for a run of clear bits that began at \<open>s\<close> and has got to \<open>p\<close>.  While the
  run has not ended it reaches up to \<open>p\<close>; once it has ended, the bit after it is set.
\<close>

definition clear_run :: "ULONG list \<Rightarrow> nat \<Rightarrow> nat \<Rightarrow> run \<Rightarrow> bool" where
  "clear_run buf s p r \<longleftrightarrow>
     (if runStarted r
      then s \<le> startBit r \<and> 0 < runCount r \<and> startBit r + runCount r \<le> p \<and>
           (\<forall>j. s \<le> j \<and> j < startBit r \<longrightarrow> buf_bit buf j) \<and>
           (\<forall>j. startBit r \<le> j \<and> j < startBit r + runCount r \<longrightarrow> \<not> buf_bit buf j) \<and>
           (if runEnded r then startBit r + runCount r < p \<and> buf_bit buf (startBit r + runCount r)
            else startBit r + runCount r = p)
      else \<not> runEnded r \<and> runCount r = 0 \<and> startBit r = 0 \<and> (\<forall>j. s \<le> j \<and> j < p \<longrightarrow> buf_bit buf j))"

lemma clear_run_ended_mono: "clear_run buf s p r \<Longrightarrow> runEnded r \<Longrightarrow> p \<le> q \<Longrightarrow> clear_run buf s q r"
  by (auto simp: clear_run_def split: if_splits)

lemma clear_run_hit:
  assumes "clear_run buf s p r" "\<not> runEnded r" "s \<le> p" "0 < m"
    "\<forall>j. p \<le> j \<and> j < p + m \<longrightarrow> \<not> buf_bit buf j"
    "runStarted r'" "\<not> runEnded r'" "runCount r' = runCount r + m"
    "startBit r' = (if runStarted r then startBit r else p)"
  shows "clear_run buf s (p + m) r'"
proof (cases "runStarted r")
  case True
  with assms have "\<not> buf_bit buf j" if "startBit r \<le> j" "j < startBit r + runCount r + m" for j
    using that by (cases "j < p") (auto simp: clear_run_def)
  with True assms show ?thesis by (auto simp: clear_run_def)
qed (use assms in \<open>auto simp: clear_run_def\<close>)

lemma buf_bit_elem: "k < 32 \<Longrightarrow> buf_bit buf (32 * i + k) \<longleftrightarrow> bit (buf ! i) k"
  by (simp add: buf_bit_def)

lemma CountClearLoop_run:
  assumes "a \<le> b" "b \<le> 32" "32 * i + b < 2 ^ 32" "s \<le> 32 * i + a" "\<not> runEnded r"
    and "clear_run buf s (32 * i + a) r"
  shows "clear_run buf s (32 * i + b) (CountClearLoop (buf ! i) i [a..<b] r)"
  using assms
proof (induction "b - a" arbitrary: a r)
  case 0
  then show ?case by simp
next
  case (Suc d)
  then have ab: "a < b" by simp
  then have upt: "[a..<b] = a # [Suc a..<b]" by (rule upt_conv_Cons)
  have IH: "clear_run buf s (32 * i + a + 1) r' \<Longrightarrow> \<not> runEnded r' \<Longrightarrow>
      clear_run buf s (32 * i + b) (CountClearLoop (buf ! i) i [Suc a..<b] r')" for r'
    using Suc.hyps(1) [of "Suc a" r'] Suc.hyps(2) Suc.prems ab by simp
  have bit: "buf_bit buf (32 * i + a) \<longleftrightarrow> buf ! i AND shl1 a \<noteq> 0"
    using ab Suc.prems(2) by (simp add: buf_bit_elem and_shl1_zero)
  show ?case
  proof (cases "buf ! i AND shl1 a = 0")
    case True
    let ?r = "(if runStarted r then r
       else r\<lparr>startBit := CalculateBitNumberInBitMap i a, runStarted := True\<rparr>)
         \<lparr>runCount := ulong_add (runCount r) 1\<rparr>"
    have "runCount r + 1 < 2 ^ 32"
      using Suc.prems ab by (auto simp: clear_run_def split: if_splits)
    then have "clear_run buf s (32 * i + a + 1) ?r"
      using Suc.prems ab True bit
      by (intro clear_run_hit [OF Suc.prems(6)]) (auto simp: ulong_add_small bit_number le_less_Suc_eq)
    from IH [OF this] True Suc.prems show ?thesis by (simp add: upt)
  next
    case False
    show ?thesis
    proof (cases "runStarted r")
      case True
      with False bit Suc.prems ab show ?thesis by (auto simp: upt clear_run_def)
    next
      case ns: False
      with False bit Suc.prems have "clear_run buf s (32 * i + a + 1) r"
        by (auto simp: clear_run_def less_Suc_eq)
      from IH [OF this] ns False Suc.prems show ?thesis by (simp add: upt)
    qed
  qed
qed

lemma CountClearRun_run:
  assumes ae: "a \<le> e" "e < 32" "32 * i + Suc e < 2 ^ 32" and s: "s \<le> 32 * i + a" "\<not> runEnded r"
    and run: "clear_run buf s (32 * i + a) r"
    and whole: "buf ! i = 0 \<Longrightarrow> runStarted r \<Longrightarrow> a = 0 \<and> e = 31"
  shows "clear_run buf s (32 * i + Suc e) (CountClearRun (buf ! i) i a e r)"
proof (cases "buf ! i = 0")
  case False
  with CountClearLoop_run [of a "Suc e" i s r buf] assms show ?thesis
    by (simp add: CountClearRun_def del: upt_Suc)
next
  case zero: True
  define m where "m = Suc e - a"
  have pm: "32 * i + Suc e = 32 * i + a + m" using ae by (simp add: m_def)
  have "\<not> buf_bit buf j" if "32 * i + a \<le> j \<and> j < 32 * i + a + m" for j
  proof -
    have "j div 32 = i" using that ae by (auto simp: m_def)
    with zero show ?thesis by (simp add: buf_bit_def)
  qed
  then have all: "\<forall>j. 32 * i + a \<le> j \<and> j < 32 * i + a + m \<longrightarrow> \<not> buf_bit buf j" by blast
  have m: "0 < m" using ae by (simp add: m_def)
  have m1: "ulong_add (ulong_sub e a) 1 = m" using ae by (simp add: ulong_add_small ulong_sub_small m_def)
  show ?thesis
  proof (cases "runStarted r")
    case False
    then have "runCount r = 0" using run by (simp add: clear_run_def)
    with False zero m1 ae show ?thesis unfolding pm
      by (intro clear_run_hit [OF run s(2,1) m all]) (auto simp: CountClearRun_def bit_number)
  next
    case True
    from whole [OF zero True] have m32: "m = 32" by (simp add: m_def)
    have "runCount r + 32 < 2 ^ 32"
      using run True s(2) ae(3) m32 pm by (auto simp: clear_run_def)
    then have "ulong_add (runCount r) 32 = runCount r + m" by (simp add: m32 ulong_add_small)
    with True zero s show ?thesis unfolding pm
      by (intro clear_run_hit [OF run s(2,1) m all]) (auto simp: CountClearRun_def)
  qed
qed

lemma CountClearMiddle_run:
  assumes "a \<le> b" "b \<le> length buf" "32 * b < 2 ^ 32" "s \<le> 32 * a" "\<not> runEnded r"
    and "clear_run buf s (32 * a) r"
  shows "\<exists>r'. CountClearMiddle buf [a..<b] r = Inr r' \<and> clear_run buf s (32 * b) r'"
  using assms
proof (induction "b - a" arbitrary: a r)
  case 0
  then show ?case by simp
next
  case (Suc d)
  then have ab: "a < b" by simp
  then have upt: "[a..<b] = a # [Suc a..<b]" by (rule upt_conv_Cons)
  define r' where "r' = CountClearRun (buf ! a) a 0 31 r"
  have run: "clear_run buf s (32 * Suc a) r'"
    using CountClearRun_run [of 0 31 a s r buf] Suc.prems ab by (simp add: add.commute r'_def)
  show ?case
  proof (cases "runEnded r'")
    case True
    with run ab have "clear_run buf s (32 * b) r'" by (intro clear_run_ended_mono [OF run]) auto
    with True ab Suc.prems show ?thesis by (simp add: upt rd_in Let_def r'_def)
  next
    case False
    with Suc.hyps(1) [of "Suc a" r'] Suc.hyps(2) Suc.prems ab run show ?thesis
      by (simp add: upt rd_in Let_def r'_def)
  qed
qed

lemma dvd_Suc_mod: "Suc l = sz \<Longrightarrow> 32 dvd sz \<longleftrightarrow> l mod 32 = 31"
  by (auto simp: dvd_eq_mod_eq_0 mod_Suc split: if_splits)

lemma RtlFindNextForwardRunClear_run:
  assumes wf: "wf_bitmap bm" and s: "s < SizeOfBitMap bm"
    and whole: "32 dvd SizeOfBitMap bm \<or> Buffer bm ! ((SizeOfBitMap bm - 1) div 32) \<noteq> 0"
  shows "\<exists>r. RtlFindNextForwardRunClear (Some bm) s True = Inr (runCount r, startBit r) \<and>
           clear_run (Buffer bm) s (SizeOfBitMap bm) r"
proof -
  let ?buf = "Buffer bm" and ?sz = "SizeOfBitMap bm"
  let ?r0 = "\<lparr>runStarted = False, runEnded = False, startBit = 0, runCount = 0\<rparr>"
  define l where "l = ?sz - 1"
  have l: "s \<le> l" "Suc l = ?sz" using s by (simp_all add: l_def)
  note last = wf_bitmap_last [OF wf, folded l_def]
  have li: "l div 32 < length ?buf" by (rule last(2))
  have si: "s div 32 < length ?buf" using li div_le_mono [OF l(1), of 32] by linarith
  have small: "?sz < 2 ^ 32" "s < 2 ^ 32" using wf s by (auto simp: wf_bitmap_def)
  have end_pos: "32 * (l div 32) + Suc (l mod 32) = ?sz" using l by simp
  have whole': "?buf ! (l div 32) = 0 \<Longrightarrow> l mod 32 = 31"
    using whole unfolding l_def [symmetric] dvd_Suc_mod [OF l(2)] by blast
  have init: "clear_run ?buf s (32 * (s div 32) + s mod 32) ?r0" by (auto simp: clear_run_def)
  note eval = RtlFindNextForwardRunClear_def with_header_def last(1) [unfolded One_nat_def] array_index
      bit_position [OF small(2)] bit_position [OF last(3)] rd_in [OF li] rd_in [OF si] Let_def
  show ?thesis
  proof (cases "s div 32 = l div 32")
    case True
    then have "s mod 32 \<le> l mod 32" using l(1) by (metis add_le_cancel_left mult_div_mod_eq)
    moreover have "s = 32 * (l div 32) + s mod 32" using True by (metis mult_div_mod_eq)
    ultimately have "clear_run ?buf s ?sz
        (CountClearRun (?buf ! (l div 32)) (l div 32) (s mod 32) (l mod 32) ?r0)"
      using CountClearRun_run [of "s mod 32" "l mod 32" "l div 32" s ?r0 ?buf] init True small end_pos
      by simp
    then show ?thesis using s True bit_position [OF small(2)] by (auto simp: eval)
  next
    case False
    with div_le_mono [OF l(1), of 32] have lt: "s div 32 < l div 32" by simp
    have below: "32 * (l div 32) < 2 ^ 32" using small(1) end_pos by linarith
    have s31: "s mod 32 \<le> 31" using mod_less_divisor [of 32 s] by linarith
    define r1 where "r1 = CountClearRun (?buf ! (s div 32)) (s div 32) (s mod 32) 31 ?r0"
    have run1: "clear_run ?buf s (32 * (s div 32 + 1)) r1"
      using CountClearRun_run [of "s mod 32" 31 "s div 32" s ?r0 ?buf] init lt below s31
      by (simp add: r1_def add.commute)
    show ?thesis
    proof (cases "runEnded r1")
      case True
      have "clear_run ?buf s ?sz r1"
        using lt end_pos by (intro clear_run_ended_mono [OF run1 True]) simp
      with True False s show ?thesis by (auto simp: eval r1_def [symmetric])
    next
      case ne1: False
      have s1: "s \<le> 32 * (s div 32 + 1)" by simp
      from CountClearMiddle_run [OF _ less_imp_le [OF li] below s1 ne1 run1] lt obtain r2 where
        r2: "CountClearMiddle ?buf [s div 32 + 1..<l div 32] r1 = Inr r2"
          "clear_run ?buf s (32 * (l div 32)) r2" by auto
      show ?thesis
      proof (cases "runEnded r2")
        case True
        have "clear_run ?buf s ?sz r2"
          using end_pos by (intro clear_run_ended_mono [OF r2(2) True]) linarith
        with True ne1 False s r2(1) show ?thesis by (auto simp: eval r1_def [symmetric])
      next
        case ne2: False
        have "s \<le> 32 * (l div 32)" using lt s1 by linarith
        with CountClearRun_run [of 0 "l mod 32" "l div 32" s r2 ?buf] r2(2) ne2 whole' small end_pos
        have "clear_run ?buf s ?sz (CountClearRun (?buf ! (l div 32)) (l div 32) 0 (l mod 32) r2)"
          by simp
        with ne2 ne1 False s r2(1) show ?thesis by (auto simp: eval r1_def [symmetric])
      qed
    qed
  qed
qed

section \<open>Counting\<close>

definition set_below :: "ULONG list \<Rightarrow> nat \<Rightarrow> nat" where
  "set_below buf p = card {j. j < p \<and> buf_bit buf j}"

lemma set_below_le: "set_below buf p \<le> p"
proof -
  have "card {j. j < p \<and> buf_bit buf j} \<le> card {..<p}" by (intro card_mono) auto
  then show ?thesis by (simp add: set_below_def)
qed

lemma set_below_Suc: "set_below buf (Suc p) = set_below buf p + (if buf_bit buf p then 1 else 0)"
proof -
  have "{j. j < Suc p \<and> buf_bit buf j} =
      (if buf_bit buf p then insert p {j. j < p \<and> buf_bit buf j} else {j. j < p \<and> buf_bit buf j})"
    by (auto simp: less_Suc_eq)
  then show ?thesis by (simp add: set_below_def)
qed

lemma set_below_full:
  "(\<forall>j. p \<le> j \<and> j < p + m \<longrightarrow> buf_bit buf j) \<Longrightarrow> set_below buf (p + m) = set_below buf p + m"
  by (induction m) (auto simp: set_below_Suc)

lemma CountElement_card:
  assumes "b \<le> 32" "32 * i + b < 2 ^ 32"
  shows "CountElement (buf ! i) b (set_below buf (32 * i)) = set_below buf (32 * i + b)"
  using assms
proof (induction b)
  case 0
  then show ?case by (simp add: CountElement_def)
next
  case (Suc b)
  have "set_below buf (32 * i + b) + 1 < 2 ^ 32" using set_below_le [of buf "32 * i + b"] Suc.prems by linarith
  with Suc show ?case
    by (simp add: CountElement_def set_below_Suc buf_bit_elem and_shl1_zero ulong_add_small)
qed

lemma RtlNumberOfSetBits_card:
  assumes wf: "wf_bitmap bm"
  shows "RtlNumberOfSetBits (Some bm) = Inr (card {j. j < SizeOfBitMap bm \<and> bm_bit bm j})"
proof -
  let ?buf = "Buffer bm"
  define l where "l = SizeOfBitMap bm - 1"
  note last = wf_bitmap_last [OF wf, folded l_def]
  have pos: "32 * (l div 32) + Suc (l mod 32) = SizeOfBitMap bm" "SizeOfBitMap bm < 2 ^ 32"
    using wf by (auto simp: l_def wf_bitmap_def)
  let ?f = "\<lambda>buffer_index c. bindE (rd ?buf buffer_index) (\<lambda>w.
                 Inr (if w = - 1 then ulong_add c 32 else CountElement w 32 c))"
  have "\<exists>c. foldE ?f [0..<l div 32] 0 = Inr c \<and> c = set_below ?buf (32 * (l div 32))"
  proof (rule foldE_range_invariant)
    show "0 = set_below ?buf (32 * 0)" by (simp add: set_below_def)
    fix i c assume i: "i < l div 32" and c: "c = set_below ?buf (32 * i)"
    have small: "32 * i + 32 < 2 ^ 32" using i pos by linarith
    have idx: "i < length ?buf" using i last(2) by simp
    have "set_below ?buf (32 * i + 32) = set_below ?buf (32 * i) + 32" if "?buf ! i = - 1"
    proof (rule set_below_full, intro allI impI)
      fix j assume "32 * i \<le> j \<and> j < 32 * i + 32"
      then have "j div 32 = i" by auto
      with that show "buf_bit ?buf j" by (simp add: buf_bit_def)
    qed
    moreover have "set_below ?buf (32 * i) + 32 < 2 ^ 32" using set_below_le [of ?buf "32 * i"] small by linarith
    ultimately show "\<exists>c'. ?f i c = Inr c' \<and> c' = set_below ?buf (32 * Suc i)"
      using CountElement_card [of 32 i ?buf] small idx c by (auto simp: rd_in ulong_add_small add.commute)
  qed simp
  then have "foldE ?f [0..<l div 32] 0 = Inr (set_below ?buf (32 * (l div 32)))" by simp
  moreover have "CountElement (?buf ! (l div 32)) (Suc (l mod 32)) (set_below ?buf (32 * (l div 32))) =
      set_below ?buf (SizeOfBitMap bm)"
    using CountElement_card [of "Suc (l mod 32)" "l div 32" ?buf] pos by (simp del: upt_Suc)
  ultimately show ?thesis
    using last rd_in [OF last(2)]
    by (simp add: RtlNumberOfSetBits_def with_header_def Let_def set_below_def bm_bit_def)
qed

section \<open>Properties\<close>

text \<open>
  C1.  RtlSetBits and RtlClearBits: for a map whose array is long enough and a range inside it
  the call succeeds, exactly the bits of the range take the new value, every other bit of the array
  and the size keep theirs, and the map stays well formed.
\<close>

theorem RtlSetBits_RtlClearBits_exact:
  assumes "wf_bitmap bm" "s + n \<le> SizeOfBitMap bm"
  shows "\<exists>bs bc. RtlSetBits (Some bm) s n = Inr bs \<and> RtlClearBits (Some bm) s n = Inr bc \<and>
    wf_bitmap bs \<and> wf_bitmap bc \<and>
    SizeOfBitMap bs = SizeOfBitMap bm \<and> SizeOfBitMap bc = SizeOfBitMap bm \<and>
    (\<forall>j < 32 * length (Buffer bm).
      bm_bit bs j = (s \<le> j \<and> j < s + n \<or> bm_bit bm j) \<and>
      bm_bit bc j = (bm_bit bm j \<and> \<not> (s \<le> j \<and> j < s + n)))"
proof -
  obtain b where b: "RtlSetBits (Some bm) s n = Inr (bm\<lparr>Buffer := b\<rparr>)" "written True s (s + n) (Buffer bm) b"
    using setter.UpdateBits_written [OF assms] by (auto simp: RtlSetBits_def)
  obtain c where c: "RtlClearBits (Some bm) s n = Inr (bm\<lparr>Buffer := c\<rparr>)" "written False s (s + n) (Buffer bm) c"
    using clearer.UpdateBits_written [OF assms] by (auto simp: RtlClearBits_def)
  show ?thesis
    using b c written_wf [OF assms(1) b(2)] written_wf [OF assms(1) c(2)]
    by - (rule exI [of _ "bm\<lparr>Buffer := b\<rparr>"], rule exI [of _ "bm\<lparr>Buffer := c\<rparr>"],
          auto simp: written_def bm_bit_def)
qed

abbreviation map40 :: RTL_BITMAP where
  "map40 \<equiv> \<lparr>SizeOfBitMap = 40, Buffer = [0x7FFFFFFF, 0x80]\<rparr>"

lemma wf_map40: "wf_bitmap map40"
  by (simp add: wf_bitmap_def)

lemma map40_clear35: "i < 3 \<Longrightarrow> \<not> bm_bit map40 (35 + i)"
  by (auto simp: bm_bit_def buf_bit_def less_Suc_eq numeral_3_eq_3)

theorem RtlSetBits_RtlClearBits_exact_witness:
  "\<exists>bs bc. RtlSetBits (Some map40) 3 34 = Inr bs \<and> RtlClearBits (Some map40) 3 34 = Inr bc \<and>
    bm_bit bs 31 \<and> \<not> bm_bit bc 31 \<and> bm_bit bc 2 \<and> \<not> bm_bit bs 37 \<and> bm_bit bc 39"
proof -
  have bits: "\<not> bm_bit map40 37" "bm_bit map40 2" "bm_bit map40 39"
    by (simp_all add: bm_bit_def buf_bit_def)
  have "(3::nat) + 34 \<le> SizeOfBitMap map40" by simp
  from RtlSetBits_RtlClearBits_exact [OF wf_map40 this] obtain bs bc where
    r: "RtlSetBits (Some map40) 3 34 = Inr bs" "RtlClearBits (Some map40) 3 34 = Inr bc" and
    b: "\<forall>j < 32 * length (Buffer map40).
      bm_bit bs j = (3 \<le> j \<and> j < 3 + 34 \<or> bm_bit map40 j) \<and>
      bm_bit bc j = (bm_bit map40 j \<and> \<not> (3 \<le> j \<and> j < 3 + 34))" by blast
  from b [rule_format, of 31] b [rule_format, of 2] b [rule_format, of 37] b [rule_format, of 39] bits r
  show ?thesis by simp
qed

text \<open>
  C2.  RtlFindClearBits: for a request smaller than the map, the result is the first position, from the
  hint on, of \<open>n\<close> consecutive clear bits of the map; when there is none from the hint on (or the hint
  is outside the map) the first such position of the whole map; 0xFFFFFFFF when there is none at
  all.  The last array element must be in use entirely or not be zero, the condition that
  the counting of whole elements needs.
\<close>

theorem RtlFindClearBits_first_fit:
  assumes "wf_bitmap bm" "0 < n" "n < SizeOfBitMap bm" "h < 2 ^ 32"
    and "32 dvd SizeOfBitMap bm \<or> Buffer bm ! ((SizeOfBitMap bm - 1) div 32) \<noteq> 0"
  shows "RtlFindClearBits (Some bm) n h =
    Inr (case (if h < SizeOfBitMap bm then first_fit (\<lambda>j. \<not> bm_bit bm j) n h (SizeOfBitMap bm) else None) of
           Some j \<Rightarrow> j
         | None \<Rightarrow> (case first_fit (\<lambda>j. \<not> bm_bit bm j) n 0 (SizeOfBitMap bm) of
                     Some j \<Rightarrow> j | None \<Rightarrow> 0xFFFFFFFF))"
  using clear_bits.FindBits_first_fit [of bm n h, unfolded kind_at] assms
  by (simp add: RtlFindClearBits_def NumClearBitsFound_def all_clear_def)

theorem RtlFindClearBits_first_fit_witness:
  "RtlFindClearBits (Some map40) 3 35 = Inr 35"
proof -
  have "first_fit (\<lambda>j. \<not> bm_bit map40 j) 3 35 40 = Some 35"
    unfolding first_fit_def by (rule find_upt_least) (simp_all add: map40_clear35)
  with RtlFindClearBits_first_fit [OF wf_map40, of 3 35] show ?thesis by simp
qed

text \<open>
  RtlFindSetBits: the same for set bits; the last array element must be in use entirely or not be
  all ones.
\<close>

theorem RtlFindSetBits_first_fit:
  assumes "wf_bitmap bm" "0 < n" "n < SizeOfBitMap bm" "h < 2 ^ 32"
    and "32 dvd SizeOfBitMap bm \<or> Buffer bm ! ((SizeOfBitMap bm - 1) div 32) \<noteq> - 1"
  shows "RtlFindSetBits (Some bm) n h =
    Inr (case (if h < SizeOfBitMap bm then first_fit (bm_bit bm) n h (SizeOfBitMap bm) else None) of
           Some j \<Rightarrow> j
         | None \<Rightarrow> (case first_fit (bm_bit bm) n 0 (SizeOfBitMap bm) of
                     Some j \<Rightarrow> j | None \<Rightarrow> 0xFFFFFFFF))"
  using set_bits.FindBits_first_fit [of bm n h, unfolded kind_at] assms
  by (simp add: RtlFindSetBits_def NumSetBitsFound_def all_set_def)

theorem RtlFindSetBits_first_fit_witness:
  "RtlFindSetBits (Some map40) 2 5 = Inr 5"
proof -
  have "first_fit (bm_bit map40) 2 5 40 = Some 5"
    unfolding first_fit_def by (rule find_upt_least) (auto simp: bm_bit_def buf_bit_def less_Suc_eq numeral_2_eq_2)
  with RtlFindSetBits_first_fit [OF wf_map40, of 2 5] show ?thesis by simp
qed




text \<open>
  RtlAreBitsClear and RtlAreBitsSet answer TRUE exactly when the range is not empty, lies in the map and
  all its bits are clear (set), for every range whose end is representable in a ULONG.
\<close>

theorem RtlAreBits_exact:
  assumes "wf_bitmap bm" "s + n < 2 ^ 32"
  shows "RtlAreBitsClear (Some bm) s n = Inr (0 < n \<and> s + n \<le> SizeOfBitMap bm \<and>
           (\<forall>j. s \<le> j \<and> j < s + n \<longrightarrow> \<not> bm_bit bm j)) \<and>
         RtlAreBitsSet (Some bm) s n = Inr (0 < n \<and> s + n \<le> SizeOfBitMap bm \<and>
           (\<forall>j. s \<le> j \<and> j < s + n \<longrightarrow> bm_bit bm j))"
  using clear_bits.AreBits_spec [OF assms, unfolded kind_at] set_bits.AreBits_spec [OF assms, unfolded kind_at]
  by (simp add: RtlAreBitsClear_def RtlAreBitsSet_def)

theorem RtlAreBits_exact_witness:
  "RtlAreBitsClear (Some map40) 31 2 = Inr True \<and> RtlAreBitsSet (Some map40) 31 2 = Inr False"
proof -
  have "\<forall>j. 31 \<le> j \<and> j < 31 + 2 \<longrightarrow> \<not> bm_bit map40 j"
    by (auto simp: bm_bit_def buf_bit_def less_Suc_eq_le le_less dest!: Suc_leI)
  moreover from this have "\<not> bm_bit map40 31" by simp
  ultimately show ?thesis using RtlAreBits_exact [OF wf_map40, of 31 2] by auto
qed

text \<open>
  RtlFindNextForwardRunClear: the result is the first clear bit of the map from \<open>s\<close> on together with the
  length of the whole run of clear bits there, up to the next set bit or the end of the
  map; when every bit from \<open>s\<close> on is set, the length and the start are 0.
\<close>

theorem RtlFindNextForwardRunClear_next_run:
  assumes "wf_bitmap bm" "s < SizeOfBitMap bm"
    and "32 dvd SizeOfBitMap bm \<or> Buffer bm ! ((SizeOfBitMap bm - 1) div 32) \<noteq> 0"
  shows "\<exists>count start. RtlFindNextForwardRunClear (Some bm) s True = Inr (count, start) \<and>
    (if \<forall>j. s \<le> j \<and> j < SizeOfBitMap bm \<longrightarrow> bm_bit bm j then count = 0 \<and> start = 0
     else s \<le> start \<and> 0 < count \<and> start + count \<le> SizeOfBitMap bm \<and>
       (\<forall>j. s \<le> j \<and> j < start \<longrightarrow> bm_bit bm j) \<and>
       (\<forall>j. start \<le> j \<and> j < start + count \<longrightarrow> \<not> bm_bit bm j) \<and>
       (start + count < SizeOfBitMap bm \<longrightarrow> bm_bit bm (start + count)))"
proof -
  from RtlFindNextForwardRunClear_run [OF assms] obtain r where
    r: "RtlFindNextForwardRunClear (Some bm) s True = Inr (runCount r, startBit r)"
      "clear_run (Buffer bm) s (SizeOfBitMap bm) r" by blast
  then show ?thesis
  proof (cases "runStarted r")
    case True
    then have "\<not> (\<forall>j. s \<le> j \<and> j < SizeOfBitMap bm \<longrightarrow> bm_bit bm j)"
      using r(2) by (auto simp: clear_run_def bm_bit_def intro!: exI [of _ "startBit r"])
    with True r show ?thesis by (auto simp: clear_run_def bm_bit_def split: if_splits)
  next
    case False
    with r show ?thesis by (auto simp: clear_run_def bm_bit_def)
  qed
qed

theorem RtlFindNextForwardRunClear_next_run_witness:
  "\<exists>count start. RtlFindNextForwardRunClear (Some map40) 4 True = Inr (count, start) \<and> 0 < count"
proof -
  have "\<not> (4 \<le> (31::nat) \<and> 31 < SizeOfBitMap map40 \<longrightarrow> bm_bit map40 31)"
    by (simp add: bm_bit_def buf_bit_def)
  then have neg: "\<not> (\<forall>j. 4 \<le> j \<and> j < SizeOfBitMap map40 \<longrightarrow> bm_bit map40 j)" by blast
  have hyps: "4 < SizeOfBitMap map40"
      "32 dvd SizeOfBitMap map40 \<or> Buffer map40 ! ((SizeOfBitMap map40 - 1) div 32) \<noteq> 0" by simp_all
  show ?thesis using RtlFindNextForwardRunClear_next_run [OF wf_map40 hyps, unfolded if_not_P [OF neg]] by blast
qed

text \<open>
  RtlNumberOfSetBits counts the set bits of the map, and so returns the size after RtlSetAllBits and 0
  after RtlClearAllBits.
\<close>

theorem RtlNumberOfSetBits_counts:
  assumes "wf_bitmap bm"
  shows "RtlNumberOfSetBits (Some bm) = Inr (card {j. j < SizeOfBitMap bm \<and> bm_bit bm j}) \<and>
    bindE (RtlSetAllBits (Some bm)) (\<lambda>b. RtlNumberOfSetBits (Some b)) = Inr (SizeOfBitMap bm) \<and>
    bindE (RtlClearAllBits (Some bm)) (\<lambda>b. RtlNumberOfSetBits (Some b)) = Inr 0"
proof -
  have all: "{j. j < SizeOfBitMap bm \<and> buf_bit b j} = (if v then {..<SizeOfBitMap bm} else {})"
    if "written v 0 (SizeOfBitMap bm) (Buffer bm) b" for v b
    using that assms by (auto simp: written_def wf_bitmap_def)
  from RtlSetAllBits_written [OF assms] RtlClearAllBits_written [OF assms] show ?thesis
    by (auto simp: RtlNumberOfSetBits_card written_wf [OF assms] assms bm_bit_def all)
qed

theorem RtlNumberOfSetBits_counts_witness:
  "bindE (RtlSetAllBits (Some map40)) (\<lambda>b. RtlNumberOfSetBits (Some b)) = Inr 40"
  using RtlNumberOfSetBits_counts [OF wf_map40] by simp

text \<open>
  RtlTestBit reads back what RtlSetBit and RtlClearBit wrote, and a write to one bit of the map is not
  seen at any other; a bit number outside the map raises the assertion in all three.
\<close>

theorem RtlTestBit_after_write:
  assumes "wf_bitmap bm" "i < SizeOfBitMap bm"
  shows "bindE (RtlSetBit (Some bm) n) (\<lambda>b. RtlTestBit (Some b) i) =
      (if n < SizeOfBitMap bm then Inr (i = n \<or> bm_bit bm i)
       else Inl (DdkFail ''BitNumber < SizeOfBitMap'')) \<and>
    bindE (RtlClearBit (Some bm) n) (\<lambda>b. RtlTestBit (Some b) i) =
      (if n < SizeOfBitMap bm then Inr (i \<noteq> n \<and> bm_bit bm i)
       else Inl (DdkFail ''BitNumber < SizeOfBitMap'')) \<and>
    RtlTestBit (Some bm) i = Inr (bm_bit bm i)"
proof (cases "n < SizeOfBitMap bm")
  case True
  from RtlSetBit_written [OF assms(1) True] RtlClearBit_written [OF assms(1) True] True assms
  show ?thesis by (auto simp: RtlTestBit_bit RtlTestBit_written [OF assms])
next
  case False
  then show ?thesis using RtlTestBit_bit [OF assms]
    by (simp add: RtlSetBit_def RtlClearBit_def with_header_def)
qed

theorem RtlTestBit_after_write_witness:
  "bindE (RtlSetBit (Some map40) 33) (\<lambda>b. RtlTestBit (Some b) 33) = Inr True \<and>
   bindE (RtlSetBit (Some map40) 40) (\<lambda>b. RtlTestBit (Some b) 33) = Inl (DdkFail ''BitNumber < SizeOfBitMap'')"
  using RtlTestBit_after_write [OF wf_map40, of 33 33] RtlTestBit_after_write [OF wf_map40, of 33 40] by simp

lemmas search_eval = RtlFindFirstRunClear_def RtlFindNextForwardRunClear_def RtlFindClearBits_def
  FindBits_def with_header_def CalculateBitPositionInArrayElement_def CalculateBitNumberInBitMap_def
  ulong_add_def ulong_sub_def ulong_mul_def rd_def Let_def CountClearRun_def SearchPass_def
  NumClearBitsFound_def NumBitsFound_def all_clear_def is_clear_def and_shl1_zero

lemma element_bits:
  "[0..<32] = [0, 1, 2, 3, 4, 5, 6, 7, 8, 9, 10, 11, 12, 13, 14, 15, 16, 17, 18, 19, 20, 21, 22, 23, 24, 25, 26, 27, 28, 29, 30, 31]"
  by (simp add: upt_rec)

lemma SearchLoop_twice:
  "SearchLoop 2 scan buf NumberToFind si sp li lp r =
     bindE (SearchPass scan buf NumberToFind si sp li lp r) (\<lambda>(found, r').
       if found then Inr (startBit r')
       else SearchLoop (Suc 0) scan buf NumberToFind 0 0 li lp
              (r'\<lparr>runStarted := False, runCount := 0\<rparr>))"
  by (simp add: numeral_2_eq_2)

lemma overcounted_find:
  "RtlFindClearBits (Some \<lparr>SizeOfBitMap = 40, Buffer = [0x7FFFFFFF, 0]\<rparr>) 20 0 = Inr 31"
  by (simp add: search_eval element_bits SearchLoop_twice)

lemma overcounted_set:
  "RtlSetBits (Some \<lparr>SizeOfBitMap = 40, Buffer = [0x7FFFFFFF, 0]\<rparr>) 31 20 =
     Inl (DdkFail ''(StartingIndex + Number) <= SizeOfBitMap'')"
  by (simp add: RtlSetBits_def UpdateBits_def with_header_def ulong_add_def)

text \<open>
  When the last array element is only partly in use and is zero, the searches count all its 32 bits.  A map
  of 40 clear bits is reported as a run of 64; in a map of 40 bits with 9 clear bits left the
  request for 20 is answered with position 31, and RtlFindClearBitsAndSet then fails the range
  assertion of RtlSetBits.
\<close>

theorem partial_last_element_overcounted:
  "RtlFindFirstRunClear (Some \<lparr>SizeOfBitMap = 40, Buffer = [0, 0]\<rparr>) True = Inr (64, 0) \<and>
   RtlFindClearBits (Some \<lparr>SizeOfBitMap = 40, Buffer = [0x7FFFFFFF, 0]\<rparr>) 20 0 = Inr 31 \<and>
   RtlFindClearBitsAndSet (Some \<lparr>SizeOfBitMap = 40, Buffer = [0x7FFFFFFF, 0]\<rparr>) 20 0 =
     Inl (DdkFail ''(StartingIndex + Number) <= SizeOfBitMap'')"
proof (intro conjI)
  show "RtlFindFirstRunClear (Some \<lparr>SizeOfBitMap = 40, Buffer = [0, 0]\<rparr>) True = Inr (64, 0)"
    by (simp add: search_eval)
qed (simp_all add: RtlFindClearBitsAndSet_def overcounted_find overcounted_set)

end
