(* ===== verification/Strings.thy ===== *)
theory Strings
  imports DdkBase
begin

unbundle bit_operations_syntax

text \<open>
  Counted strings: src/src/unicode.cpp and src/src/string.cpp.  STRING and UNICODE_STRING have the same
  three fields; Length and MaximumLength are in bytes, and Buffer is the memory the pointer
  reaches, as bytes (None is the null pointer).  WCHARs are read and written as two bytes, low byte
  first.  The routines copy bytes in some places and WCHARs in others, as the source does.
  The interrupt request level, which the source reads with KeGetCurrentIrql, is the argument \<open>irql\<close>.  Source and
  destination are taken to be different strings.

  From the C library the code uses the functions of the \<open>C\<close> locale (towupper and the
  case-insensitive comparisons change only the letters of ASCII).  The Win32 code page conversions are
  arguments.
\<close>

section \<open>Definitions\<close>

record STRING =
  Length :: nat
  MaximumLength :: nat
  Buffer :: "UCHAR list option"

type_synonym UNICODE_STRING = STRING
type_synonym ANSI_STRING = STRING

text \<open>The memory behind a buffer pointer, and the update of it.  No index of a null buffer is valid.\<close>

definition mem :: "UNICODE_STRING \<Rightarrow> UCHAR list" where
  "mem u = (case Buffer u of None \<Rightarrow> [] | Some b \<Rightarrow> b)"

definition set_mem :: "UCHAR list \<Rightarrow> UNICODE_STRING \<Rightarrow> UNICODE_STRING" where
  "set_mem b u = u\<lparr>Buffer := map_option (\<lambda>_. b) (Buffer u)\<rparr>"

text \<open>Access to the WCHAR with index \<open>i\<close>.\<close>

definition wchar_of :: "UCHAR \<Rightarrow> UCHAR \<Rightarrow> WCHAR" where
  "wchar_of lo hi = push_bit 8 (ucast hi) OR ucast lo"

definition rdw :: "UCHAR list \<Rightarrow> nat \<Rightarrow> WCHAR res" where
  "rdw b i = bindE (rd b (2 * i)) (\<lambda>lo. bindE (rd b (2 * i + 1)) (\<lambda>hi. Inr (wchar_of lo hi)))"

definition wrw :: "UCHAR list \<Rightarrow> nat \<Rightarrow> WCHAR \<Rightarrow> UCHAR list res" where
  "wrw b i c = bindE (wr b (2 * i) (ucast c)) (\<lambda>b1. wr b1 (2 * i + 1) (ucast (drop_bit 8 c)))"

fun bytes_of :: "WCHAR list \<Rightarrow> UCHAR list" where
  "bytes_of [] = []"
| "bytes_of (c # cs) = ucast c # ucast (drop_bit 8 c) # bytes_of cs"

subsection \<open>The C library\<close>

text \<open>A pointer to a null-terminated string is the memory from there on.\<close>

definition wcslen :: "'a::zero list \<Rightarrow> nat res" where
  "wcslen s = (if 0 \<in> set s then Inr (length (takeWhile (\<lambda>c. c \<noteq> 0) s)) else Inl Fault)"

definition iswlower :: "'a::len word \<Rightarrow> bool" where
  "iswlower c \<longleftrightarrow> 0x61 \<le> c \<and> c \<le> 0x7A"

definition towupper :: "'a::len word \<Rightarrow> 'a word" where
  "towupper c = (if 0x61 \<le> c \<and> c \<le> 0x7A then c - 0x20 else c)"

definition towlower :: "'a::len word \<Rightarrow> 'a word" where
  "towlower c = (if 0x41 \<le> c \<and> c \<le> 0x5A then c + 0x20 else c)"

text \<open>
  \<open>strncmp\<close>, \<open>wcsncmp\<close> (\<open>f\<close> the identity) and \<open>_strnicmp\<close>, \<open>_wcsnicmp\<close> (\<open>f\<close> the conversion to lower case): the
  difference of the first characters that differ among the first \<open>n\<close>, stopping at a null.
\<close>

fun ncmp :: "('a::len word \<Rightarrow> 'a word) \<Rightarrow> nat \<Rightarrow> (nat \<Rightarrow> 'a word res) \<Rightarrow> (nat \<Rightarrow> 'a word res) \<Rightarrow> nat \<Rightarrow> int res" where
  "ncmp f 0 s1 s2 i = Inr 0"
| "ncmp f (Suc n) s1 s2 i =
     bindE (s1 i) (\<lambda>c1. bindE (s2 i) (\<lambda>c2.
       if f c1 = f c2 \<and> c1 \<noteq> 0 then ncmp f n s1 s2 (Suc i)
       else Inr (uint (f c1) - uint (f c2))))"

text \<open>\<open>_ui64tow_s\<close>: the digits of a number, most significant first.\<close>

definition digit_char :: "nat \<Rightarrow> WCHAR" where
  "digit_char d = (if d < 10 then of_nat (0x30 + d) else of_nat (0x61 + (d - 10)))"

function ui64tow :: "nat \<Rightarrow> nat \<Rightarrow> WCHAR list" where
  "ui64tow base n =
     (if base < 2 \<or> n < base then [digit_char n]
      else ui64tow base (n div base) @ [digit_char (n mod base)])"
  by pat_completeness auto
termination
  by (relation "measure snd") auto

subsection \<open>Unicode strings\<close>

definition RtlInitUnicodeString :: "WCHAR list option \<Rightarrow> UNICODE_STRING res" where
  "RtlInitUnicodeString s =
     (case s of
        None \<Rightarrow> Inr \<lparr>Length = 0, MaximumLength = 0, Buffer = None\<rparr>
      | Some ws \<Rightarrow> bindE (wcslen ws) (\<lambda>n.
          ddkassert ((n + 1) * 2 \<le> 0xFFFE) ''wcslen(s)''
            (Inr \<lparr>Length = n * 2, MaximumLength = n * 2 + 2, Buffer = Some (bytes_of ws)\<rparr>)))"

definition RtlCopyUnicodeString :: "UNICODE_STRING \<Rightarrow> UNICODE_STRING option \<Rightarrow> UNICODE_STRING res" where
  "RtlCopyUnicodeString u s =
     (case s of
        None \<Rightarrow> Inr (u\<lparr>Length := 0\<rparr>)
      | Some t \<Rightarrow> let n = min (MaximumLength u) (Length t)
          in bindE (foldE (\<lambda>i b. bindE (rd (mem t) i) (wr b i)) [0..<n] (mem u)) (\<lambda>b.
               Inr ((set_mem b u)\<lparr>Length := n\<rparr>)))"

definition RtlIntegerToUnicodeString ::
  "nat \<Rightarrow> nat \<Rightarrow> nat \<Rightarrow> UNICODE_STRING option \<Rightarrow> (NTSTATUS \<times> UNICODE_STRING) res" where
  "RtlIntegerToUnicodeString irql val base up =
     (case up of None \<Rightarrow> Inl (DdkFail ''u != NULL'') | Some u \<Rightarrow>
        ddkassert (irql = PASSIVE_LEVEL) ''KeGetCurrentIrql() == PASSIVE_LEVEL''
          (if base \<notin> {0, 10, 2, 8, 16} then Inr (STATUS_INVALID_PARAMETER, u)
           else
             let base = (if base = 0 then 10 else base);
                 buf = ui64tow base val;
                 lenInBytes = length buf * 2
             in ddkassert (length buf < 65) ''err == 0''
                  (if lenInBytes > MaximumLength u then Inr (STATUS_BUFFER_OVERFLOW, u)
                   else bindE (foldE (\<lambda>i b. wr b i (bytes_of buf ! i)) [0..<lenInBytes] (mem u)) (\<lambda>b.
                          Inr (STATUS_SUCCESS, (set_mem b u)\<lparr>Length := lenInBytes mod 2 ^ 16\<rparr>)))))"

definition RtlCompareUnicodeStrings ::
  "nat \<Rightarrow> UCHAR list \<Rightarrow> nat \<Rightarrow> UCHAR list \<Rightarrow> nat \<Rightarrow> bool \<Rightarrow> int res" where
  "RtlCompareUnicodeStrings irql String1 String1Length String2 String2Length ign =
     ddkassert (irql = PASSIVE_LEVEL) ''KeGetCurrentIrql() == PASSIVE_LEVEL''
       (let l = min String1Length String2Length
        in bindE (if l \<noteq> 0
                  then ncmp (if ign then towlower else id) (l div 2) (rdw String1) (rdw String2) 0
                  else Inr 0) (\<lambda>rc.
             if rc \<noteq> 0 then Inr rc
             else Inr (sint (word_of_int (int String1Length - int String2Length) :: LONG))))"

definition RtlCompareUnicodeString :: "nat \<Rightarrow> UNICODE_STRING \<Rightarrow> UNICODE_STRING \<Rightarrow> bool \<Rightarrow> int res" where
  "RtlCompareUnicodeString irql u1 u2 ign =
     RtlCompareUnicodeStrings irql (mem u1) (Length u1) (mem u2) (Length u2) ign"

definition RtlEqualUnicodeString :: "nat \<Rightarrow> UNICODE_STRING \<Rightarrow> UNICODE_STRING \<Rightarrow> bool \<Rightarrow> bool res" where
  "RtlEqualUnicodeString irql String1 String2 CaseInSensitive =
     bindE (RtlCompareUnicodeString irql String1 String2 CaseInSensitive) (\<lambda>rc. Inr (rc = 0))"

definition RtlAppendUnicodeToString :: "UNICODE_STRING \<Rightarrow> WCHAR list \<Rightarrow> (NTSTATUS \<times> UNICODE_STRING) res" where
  "RtlAppendUnicodeToString Destination Source =
     bindE (wcslen Source) (\<lambda>len.
       let n = len mod 2 ^ 16
       in if Length Destination + n * 2 > MaximumLength Destination
          then Inr (STATUS_BUFFER_TOO_SMALL, Destination)
          else bindE (foldE (\<lambda>i b. wrw b (Length Destination div 2 + i) (Source ! i)) [0..<n]
                       (mem Destination)) (\<lambda>b.
                 Inr (STATUS_SUCCESS,
                   (set_mem b Destination)\<lparr>Length := (Length Destination + n * 2) mod 2 ^ 16\<rparr>)))"

text \<open>The loop \<open>while (u->Length < u->MaximumLength && i < s->Length)\<close>, with the memory and Length of \<open>u\<close>.\<close>

fun AppendLoop :: "UCHAR list \<Rightarrow> nat \<Rightarrow> nat list \<Rightarrow> UCHAR list \<times> nat \<Rightarrow> (UCHAR list \<times> nat) res" where
  "AppendLoop src maxlen [] st = Inr st"
| "AppendLoop src maxlen (i # rest) (b, len) =
     (if len < maxlen
      then bindE (rd src i) (\<lambda>c. bindE (wr b len c) (\<lambda>b'. AppendLoop src maxlen rest (b', len + 1)))
      else Inr (b, len))"

definition RtlAppendUnicodeStringToString ::
  "UNICODE_STRING \<Rightarrow> UNICODE_STRING \<Rightarrow> (NTSTATUS \<times> UNICODE_STRING) res" where
  "RtlAppendUnicodeStringToString u s =
     (if Length u + Length s > MaximumLength u then Inr (STATUS_BUFFER_TOO_SMALL, u)
      else bindE (AppendLoop (mem s) (MaximumLength u) [0..<Length s] (mem u, Length u)) (\<lambda>(b, len).
             Inr (STATUS_SUCCESS, (set_mem b u)\<lparr>Length := len\<rparr>)))"

text \<open>
  \<open>DdkAllocUnicodeBuffer\<close> and \<open>DdkAllocAnsiBuffer\<close>: \<open>pool n\<close> is what ExAllocatePool returns for \<open>n\<close> bytes, the
  memory of the block or None.
\<close>

definition DdkAllocUnicodeBuffer :: "(nat \<Rightarrow> UCHAR list option) \<Rightarrow> nat \<Rightarrow> UCHAR list res" where
  "DdkAllocUnicodeBuffer pool len =
     (case pool len of None \<Rightarrow> Inl (DdkFail ''Unable to allocate memory'') | Some b \<Rightarrow> Inr b)"

definition DdkAllocAnsiBuffer :: "(nat \<Rightarrow> UCHAR list option) \<Rightarrow> nat \<Rightarrow> UCHAR list res" where
  "DdkAllocAnsiBuffer pool len =
     (case pool len of None \<Rightarrow> Inl (DdkFail ''Unable to allocate memory'') | Some b \<Rightarrow> Inr b)"

definition RtlUpcaseUnicodeString ::
  "(nat \<Rightarrow> UCHAR list option) \<Rightarrow> nat \<Rightarrow> UNICODE_STRING \<Rightarrow> UNICODE_STRING \<Rightarrow> bool \<Rightarrow> (NTSTATUS \<times> UNICODE_STRING) res" where
  "RtlUpcaseUnicodeString pool irql Dest Source AllocateDestinationString =
     ddkassert (irql \<le> APC_LEVEL) ''KeGetCurrentIrql() <= APC_LEVEL''
       (bindE (if AllocateDestinationString
               then bindE (DdkAllocUnicodeBuffer pool (Length Source)) (\<lambda>b.
                      Inr (Dest\<lparr>Buffer := Some b, MaximumLength := Length Source\<rparr>))
               else Inr Dest) (\<lambda>d.
        if MaximumLength d < Length Source then Inr (STATUS_BUFFER_TOO_SMALL, d)
        else ddkassert (Buffer d \<noteq> None) ''DestinationString->Buffer != NULL''
          (bindE (foldE (\<lambda>i b. bindE (rdw (mem Source) i) (\<lambda>ch.
                    wrw b i (if iswlower ch then towupper ch else ch)))
                  [0..<Length Source div 2] (mem d)) (\<lambda>b.
             Inr (STATUS_SUCCESS, (set_mem b d)\<lparr>Length := Length Source\<rparr>)))))"

text \<open>
  RtlUnicodeStringToInteger.  \<open>head\<close> and \<open>tail\<close> are indices; \<open>iswspace\<close> is the library's classification of
  white space.
\<close>

fun SkipSpace :: "(WCHAR \<Rightarrow> bool) \<Rightarrow> UCHAR list \<Rightarrow> nat list \<Rightarrow> nat \<Rightarrow> nat res" where
  "SkipSpace iswspace b [] head = Inr head"
| "SkipSpace iswspace b (i # rest) head =
     bindE (rdw b i) (\<lambda>c. if iswspace c then SkipSpace iswspace b rest (head + 1) else Inr head)"

definition digit_value :: "WCHAR \<Rightarrow> nat" where
  "digit_value c =
     (if 0x30 \<le> c \<and> c \<le> 0x39 then unat (c - 0x30)
      else if 0x61 \<le> c \<and> c \<le> 0x66 then unat (c - 0x61) + 10
      else if 0x41 \<le> c \<and> c \<le> 0x46 then unat (c - 0x41) + 10
      else 0xFFFFFFFF)"

fun DigitLoop :: "nat \<Rightarrow> UCHAR list \<Rightarrow> nat list \<Rightarrow> nat \<Rightarrow> nat res" where
  "DigitLoop base b [] v = Inr v"
| "DigitLoop base b (i # rest) v =
     bindE (rdw b i) (\<lambda>c.
       if digit_value c \<ge> base then Inr v
       else DigitLoop base b rest (ulong_add (ulong_mul v base) (digit_value c)))"

definition RtlUnicodeStringToInteger ::
  "(WCHAR \<Rightarrow> bool) \<Rightarrow> nat \<Rightarrow> UNICODE_STRING \<Rightarrow> nat \<Rightarrow> (NTSTATUS \<times> nat) res" where
  "RtlUnicodeStringToInteger iswspace irql String Base =
     ddkassert (irql = PASSIVE_LEVEL) ''KeGetCurrentIrql() == PASSIVE_LEVEL''
       (if Base \<notin> {16, 10, 8, 2, 0} \<or> Length String = 0 then Inr (STATUS_INVALID_PARAMETER, 0)
        else
          let b = mem String; tail = (Length String - 1) div 2
          in bindE (SkipSpace iswspace b [0..<Suc tail] 0) (\<lambda>h0.
             bindE (if h0 \<le> tail
                    then bindE (rdw b h0) (\<lambda>c. Inr (if c = 0x2B \<or> c = 0x2D then (c, h0 + 1) else (0x2B, h0)))
                    else Inr (0x2B, h0)) (\<lambda>(sign, h1).
             bindE (if Base = 0 \<and> h1 < tail
                    then bindE (rdw b h1) (\<lambda>c.
                           if c = 0x30
                           then bindE (rdw b (h1 + 1)) (\<lambda>x.
                                  Inr (if x = 0x78 then (16, h1 + 2) else if x = 0x6F then (8, h1 + 2)
                                       else if x = 0x62 then (2, h1 + 2) else (0, h1 + 1)))
                           else Inr (Base, h1))
                    else Inr (Base, h1)) (\<lambda>(base0, h2).
             let base = (if base0 = 0 then 10 else base0)
             in bindE (DigitLoop base b [h2..<Suc tail] 0) (\<lambda>v.
                  Inr (STATUS_SUCCESS, if sign = 0x2D then ulong_sub 0 v else v))))))"

definition RtlHashUnicodeString ::
  "nat \<Rightarrow> UNICODE_STRING option \<Rightarrow> bool \<Rightarrow> nat \<Rightarrow> ULONG option \<Rightarrow> (NTSTATUS \<times> ULONG option) res" where
  "RtlHashUnicodeString irql String CaseInSensitive HashAlgorithm HashValue =
     ddkassert (irql \<le> APC_LEVEL) ''KeGetCurrentIrql() <= APC_LEVEL''
       (case (String, HashValue) of
          (Some s, Some _) \<Rightarrow>
            (if HashAlgorithm \<notin> {0, 1} then Inr (STATUS_INVALID_PARAMETER, HashValue)
             else bindE (foldE (\<lambda>i hash. bindE (rdw (mem s) i) (\<lambda>ch.
                           let c = (if CaseInSensitive then towupper ch else ch)
                           in Inr (ucast c + push_bit 6 hash + push_bit 16 hash - hash)))
                          [0..<Length s div 2] 0) (\<lambda>hash.
                    Inr (STATUS_SUCCESS, Some hash)))
        | _ \<Rightarrow> Inr (STATUS_INVALID_PARAMETER, HashValue))"

definition RtlFreeUnicodeString :: "UNICODE_STRING \<Rightarrow> UNICODE_STRING" where
  "RtlFreeUnicodeString UnicodeString = UnicodeString\<lparr>Buffer := None\<rparr>"

definition RtlUpcaseUnicodeChar :: "nat \<Rightarrow> WCHAR \<Rightarrow> WCHAR res" where
  "RtlUpcaseUnicodeChar irql c =
     ddkassert (irql \<le> APC_LEVEL) ''KeGetCurrentIrql() <= APC_LEVEL'' (Inr (towupper c))"

definition RtlDowncaseUnicodeChar :: "nat \<Rightarrow> WCHAR \<Rightarrow> WCHAR res" where
  "RtlDowncaseUnicodeChar irql c =
     ddkassert (irql = PASSIVE_LEVEL) ''KeGetCurrentIrql() == PASSIVE_LEVEL'' (Inr (towlower c))"

text \<open>
  \<open>DdkUnicodeToString\<close>: the result is the memory of the block that malloc returned (\<open>ok\<close> tells whether it
  did), the characters without the leading \<open>remove\<close> characters and a terminating null.
\<close>

fun StripLoop :: "UCHAR list \<Rightarrow> WCHAR \<Rightarrow> nat list \<Rightarrow> nat \<Rightarrow> nat res" where
  "StripLoop b remove [] start = Inr start"
| "StripLoop b remove (i # rest) start =
     bindE (rdw b i) (\<lambda>c. if c = remove then StripLoop b remove rest (start + 2) else Inr start)"

definition DdkUnicodeToString :: "bool \<Rightarrow> UNICODE_STRING option \<Rightarrow> WCHAR \<Rightarrow> UCHAR list option res" where
  "DdkUnicodeToString ok up remove =
     (case up of None \<Rightarrow> Inr None | Some u \<Rightarrow>
        bindE (if remove \<noteq> 0 then StripLoop (mem u) remove [0..<Length u div 2] 0 else Inr 0) (\<lambda>start.
        if \<not> ok then Inl (DdkFail ''Unable to allocate memory'')
        else if Length u - start \<noteq> 0 \<and> length (mem u) < Length u then Inl Fault
        else Inr (Some (take (Length u - start) (drop start (mem u)) @ [0, 0]))))"

subsection \<open>Guids\<close>

record GUID =
  Data1 :: ULONG
  Data2 :: USHORT
  Data3 :: USHORT
  Data4 :: "UCHAR list"

text \<open>\<open>%0wX\<close>: upper case hexadecimal digits, padded with zeros to \<open>w\<close> characters.\<close>

definition hexX :: "nat \<Rightarrow> nat \<Rightarrow> WCHAR list" where
  "hexX w n = (let ds = map towupper (ui64tow 16 n) in replicate (w - length ds) 0x30 @ ds)"

definition guid_text :: "GUID \<Rightarrow> WCHAR list" where
  "guid_text g =
     [0x7B] @ hexX 8 (unat (Data1 g)) @ [0x2D] @ hexX 4 (unat (Data2 g)) @ [0x2D] @ hexX 4 (unat (Data3 g)) @ [0x2D] @
     hexX 2 (unat (Data4 g ! 0)) @ hexX 2 (unat (Data4 g ! 1)) @ [0x2D] @
     hexX 2 (unat (Data4 g ! 2)) @ hexX 2 (unat (Data4 g ! 3)) @ hexX 2 (unat (Data4 g ! 4)) @
     hexX 2 (unat (Data4 g ! 5)) @ hexX 2 (unat (Data4 g ! 6)) @ hexX 2 (unat (Data4 g ! 7)) @ [0x7D]"

text \<open>
  \<open>swprintf(GuidString->Buffer, 39, ...)\<close> writes the text and its null when they fit in 39 characters and
  returns their number without the null, and otherwise a negative count.
\<close>

definition RtlStringFromGUID ::
  "(nat \<Rightarrow> UCHAR list option) \<Rightarrow> nat \<Rightarrow> GUID \<Rightarrow> UNICODE_STRING option \<Rightarrow> (NTSTATUS \<times> UNICODE_STRING) res" where
  "RtlStringFromGUID pool irql Guid up =
     ddkassert (irql = PASSIVE_LEVEL) ''KeGetCurrentIrql() == PASSIVE_LEVEL''
       (case up of None \<Rightarrow> Inl (DdkFail ''GuidString != NULL'') | Some _ \<Rightarrow>
          bindE (DdkAllocUnicodeBuffer pool (39 * 2)) (\<lambda>b.
            let s = \<lparr>Length = 38 * 2, MaximumLength = 39 * 2, Buffer = Some b\<rparr>; text = guid_text Guid @ [0]
            in bindE (foldE (\<lambda>i b. wrw b i (text ! i)) [0..<min 39 (length text)] b) (\<lambda>b'.
                 if length text = 39 then Inr (STATUS_SUCCESS, set_mem b' s)
                 else Inr (STATUS_INVALID_PARAMETER, RtlFreeUnicodeString s))))"

text \<open>
  The directives of the \<open>swscanf\<close> format.  The input is the memory from the current position on; reading
  beyond it is a fault.  A literal character must match.  \<open>%wX\<close> skips white space, then takes the longest
  prefix, of at most \<open>w\<close> characters, of a hexadecimal number with optional sign and 0x.  None is
  the end of the conversion.
\<close>

fun scan_lit :: "WCHAR \<Rightarrow> WCHAR list \<Rightarrow> WCHAR list option res" where
  "scan_lit c [] = Inl Fault"
| "scan_lit c (x # xs) = Inr (if x = c then Some xs else None)"

fun scan_digits :: "nat \<Rightarrow> nat \<Rightarrow> nat \<Rightarrow> WCHAR list \<Rightarrow> (nat \<times> nat \<times> WCHAR list) res" where
  "scan_digits 0 k v s = Inr (k, v, s)"
| "scan_digits (Suc w) k v [] = Inl Fault"
| "scan_digits (Suc w) k v (x # xs) =
     (if digit_value x < 16 then scan_digits w (Suc k) (16 * v + digit_value x) xs else Inr (k, v, x # xs))"

fun skip_spaces :: "(WCHAR \<Rightarrow> bool) \<Rightarrow> WCHAR list \<Rightarrow> WCHAR list res" where
  "skip_spaces iswspace [] = Inl Fault"
| "skip_spaces iswspace (x # xs) = (if iswspace x then skip_spaces iswspace xs else Inr (x # xs))"

definition scan_hex :: "(WCHAR \<Rightarrow> bool) \<Rightarrow> nat \<Rightarrow> WCHAR list \<Rightarrow> (int \<times> WCHAR list) option res" where
  "scan_hex iswspace w s =
     bindE (skip_spaces iswspace s) (\<lambda>s0.
       let sgn = (w > 0 \<and> s0 \<noteq> [] \<and> (hd s0 = 0x2B \<or> hd s0 = 0x2D));
           s1 = (if sgn then tl s0 else s0); w1 = (if sgn then w - 1 else w);
           pre = (w1 \<ge> 2 \<and> length s1 \<ge> 2 \<and> hd s1 = 0x30 \<and> (s1 ! 1 = 0x78 \<or> s1 ! 1 = 0x58));
           s2 = (if pre then drop 2 s1 else s1); w2 = (if pre then w1 - 2 else w1)
       in bindE (scan_digits w2 0 0 s2) (\<lambda>(k, v, s3).
            Inr (if k = 0 then None else Some (if sgn \<and> hd s0 = 0x2D then - int v else int v, s3))))"

datatype fmt = Lit WCHAR | Hex nat

text \<open>The scan returns the converted values in order; it stops at the first directive that fails.\<close>

fun swscanf :: "(WCHAR \<Rightarrow> bool) \<Rightarrow> fmt list \<Rightarrow> WCHAR list \<Rightarrow> int list res" where
  "swscanf iswspace [] s = Inr []"
| "swscanf iswspace (Lit c # f) s =
     bindE (scan_lit c s) (\<lambda>r. case r of None \<Rightarrow> Inr [] | Some s' \<Rightarrow> swscanf iswspace f s')"
| "swscanf iswspace (Hex w # f) s =
     bindE (scan_hex iswspace w s) (\<lambda>r. case r of None \<Rightarrow> Inr []
       | Some (v, s') \<Rightarrow> bindE (swscanf iswspace f s') (\<lambda>vs. Inr (v # vs)))"

definition guid_fmt :: "fmt list" where
  "guid_fmt = [Lit 0x7B, Hex 8, Lit 0x2D, Hex 4, Lit 0x2D, Hex 4, Lit 0x2D, Hex 2, Hex 2, Lit 0x2D,
     Hex 2, Hex 2, Hex 2, Hex 2, Hex 2, Hex 2, Lit 0x7D]"

fun wchars :: "UCHAR list \<Rightarrow> WCHAR list" where
  "wchars (lo # hi # b) = wchar_of lo hi # wchars b"
| "wchars b = []"

definition RtlGUIDFromString ::
  "(WCHAR \<Rightarrow> bool) \<Rightarrow> nat \<Rightarrow> UNICODE_STRING option \<Rightarrow> GUID option \<Rightarrow> (NTSTATUS \<times> GUID) res" where
  "RtlGUIDFromString iswspace irql sp gp =
     ddkassert (irql = PASSIVE_LEVEL) ''KeGetCurrentIrql() == PASSIVE_LEVEL''
       (case sp of None \<Rightarrow> Inl (DdkFail ''GuidString != NULL'') | Some s \<Rightarrow>
        (case gp of None \<Rightarrow> Inl (DdkFail ''Guid != NULL'') | Some g \<Rightarrow>
          if Length s \<noteq> 38 * 2 then Inr (STATUS_INVALID_PARAMETER, g)
          else bindE (rdw (mem s) 0) (\<lambda>c0. bindE (rdw (mem s) 37) (\<lambda>c37.
            if c0 \<noteq> 0x7B \<or> c37 \<noteq> 0x7D then Inr (STATUS_INVALID_PARAMETER, g)
            else bindE (swscanf iswspace guid_fmt (wchars (mem s))) (\<lambda>vs.
              let g1 = g\<lparr>Data1 := (if 0 < length vs then word_of_int (vs ! 0) else Data1 g),
                         Data2 := (if 1 < length vs then word_of_int (vs ! 1) else Data2 g),
                         Data3 := (if 2 < length vs then word_of_int (vs ! 2) else Data3 g)\<rparr>
              in if length vs \<noteq> 11 then Inr (STATUS_INVALID_PARAMETER, g1)
                 else Inr (STATUS_SUCCESS,
                   g1\<lparr>Data4 := map (\<lambda>i. ucast (word_of_int (vs ! i) :: USHORT)) [3..<11]\<rparr>))))))"

subsection \<open>Conversions between Unicode and multi-byte strings\<close>

text \<open>
  \<open>mbstowcs\<close> and \<open>wcstombs\<close> in the \<open>C\<close> locale: a byte and the WCHAR of the same value.  They convert up to the
  terminating null, which is stored too if there is room and not counted.
\<close>

fun mbstowcs :: "UCHAR list \<Rightarrow> nat \<Rightarrow> nat \<Rightarrow> UCHAR list \<Rightarrow> (nat \<times> UCHAR list) res" where
  "mbstowcs src 0 i dest = Inr (i, dest)"
| "mbstowcs src (Suc n) i dest =
     bindE (rd src i) (\<lambda>c. bindE (wrw dest i (ucast c)) (\<lambda>dest'.
       if c = 0 then Inr (i, dest') else mbstowcs src n (Suc i) dest'))"

fun wcstombs :: "UCHAR list \<Rightarrow> nat \<Rightarrow> nat \<Rightarrow> UCHAR list \<Rightarrow> (int \<times> UCHAR list) res" where
  "wcstombs src 0 i dest = Inr (int i, dest)"
| "wcstombs src (Suc n) i dest =
     bindE (rdw src i) (\<lambda>c.
       if c > 0xFF then Inr (- 1, dest)
       else bindE (wr dest i (ucast c)) (\<lambda>dest'.
         if c = 0 then Inr (int i, dest') else wcstombs src n (Suc i) dest'))"

text \<open>\<open>ansi_size\<close> stands for RtlAnsiStringToUnicodeSize, a macro of the kernel headers.\<close>

definition RtlAnsiStringToUnicodeString ::
  "(ANSI_STRING \<Rightarrow> nat) \<Rightarrow> (nat \<Rightarrow> UCHAR list option) \<Rightarrow> nat \<Rightarrow> UNICODE_STRING \<Rightarrow> ANSI_STRING \<Rightarrow> bool \<Rightarrow>
     (NTSTATUS \<times> UNICODE_STRING) res" where
  "RtlAnsiStringToUnicodeString ansi_size pool irql Dest Source AllocateDestinationString =
     ddkassert (irql = PASSIVE_LEVEL) ''KeGetCurrentIrql() == PASSIVE_LEVEL''
       (let len = ansi_size Source
        in if len = 0 then Inr (STATUS_INVALID_PARAMETER, Dest)
           else bindE (if AllocateDestinationString
                       then bindE (DdkAllocUnicodeBuffer pool len) (\<lambda>b.
                              Inr (Dest\<lparr>Buffer := Some b, MaximumLength := len mod 2 ^ 16\<rparr>))
                       else Inr Dest) (\<lambda>d.
             if len > MaximumLength d + 2 then Inr (STATUS_BUFFER_TOO_SMALL, d)
             else bindE (mbstowcs (mem Source) (MaximumLength d div 2) 0 (mem d)) (\<lambda>(count, b).
               Inr (STATUS_SUCCESS, (set_mem b d)\<lparr>Length := (count * 2) mod 2 ^ 16\<rparr>))))"

text \<open>\<open>wctmb u\<close> is the size WideCharToMultiByte reports for the characters of \<open>u\<close> in the ANSI code page.\<close>

definition RtlxUnicodeStringToAnsiSize :: "(UNICODE_STRING \<Rightarrow> nat) \<Rightarrow> UNICODE_STRING \<Rightarrow> nat" where
  "RtlxUnicodeStringToAnsiSize wctmb UnicodeString = wctmb UnicodeString + 1"

definition RtlUnicodeStringToAnsiString ::
  "(UNICODE_STRING \<Rightarrow> nat) \<Rightarrow> (nat \<Rightarrow> UCHAR list option) \<Rightarrow> nat \<Rightarrow> ANSI_STRING \<Rightarrow> UNICODE_STRING \<Rightarrow> bool \<Rightarrow>
     (NTSTATUS \<times> ANSI_STRING) res" where
  "RtlUnicodeStringToAnsiString wctmb pool irql Dest Source AllocateDestinationString =
     ddkassert (irql = PASSIVE_LEVEL) ''KeGetCurrentIrql() == PASSIVE_LEVEL''
       (let len = RtlxUnicodeStringToAnsiSize wctmb Source
        in if \<not> AllocateDestinationString \<and> len > MaximumLength Dest then Inr (STATUS_BUFFER_TOO_SMALL, Dest)
           else bindE (if AllocateDestinationString
                       then bindE (DdkAllocAnsiBuffer pool (len mod 2 ^ 16)) (\<lambda>b.
                              Inr (Dest\<lparr>Buffer := Some b, MaximumLength := len mod 2 ^ 16\<rparr>))
                       else Inr Dest) (\<lambda>d.
             bindE (wcstombs (mem Source) (MaximumLength d) 0 (mem d)) (\<lambda>(count, b).
               Inr (STATUS_SUCCESS, (set_mem b d)\<lparr>Length := nat (count mod 2 ^ 16)\<rparr>))))"

text \<open>
  UTF-8.  The Win32 conversion is an argument: for the flag that makes invalid characters an error, the
  source and the room in the destination it gives the count it returns, what it writes to the
  destination, and the last error.  The loop that looks for the number of characters that fit asks
  for one unit less each time; \<open>m\<close> is the value at which the unsigned counter wraps.
\<close>

datatype win_error = ERROR_INSUFFICIENT_BUFFER | ERROR_NO_UNICODE_TRANSLATION | OTHER_ERROR

type_synonym ('s, 'd) conversion = "bool \<Rightarrow> 's list \<Rightarrow> nat \<Rightarrow> nat \<times> 'd list \<times> win_error"

definition prefix_of :: "'s list \<Rightarrow> nat \<Rightarrow> 's list res" where
  "prefix_of src n = (if n \<le> length src then Inr (take n src) else Inl Fault)"

function ShrinkLoop ::
  "nat \<Rightarrow> ('s, 'd) conversion \<Rightarrow> 's list \<Rightarrow> nat \<Rightarrow> nat \<Rightarrow> (nat \<times> 'd list) res" where
  "ShrinkLoop m conv src cap k =
     (case prefix_of src k of
        Inl e \<Rightarrow> Inl e
      | Inr s \<Rightarrow>
          let r = conv False s cap; k' = (if k = 0 then m - 1 else k - 1)
          in if fst r = 0 \<and> snd (snd r) = ERROR_INSUFFICIENT_BUFFER \<and> k' \<noteq> 0
             then ShrinkLoop m conv src cap k'
             else Inr (fst r, fst (snd r)))"
  by pat_completeness auto
termination
  by (relation "measure (\<lambda>(m, conv, src, cap, k). if k = 0 then m else k)") auto

text \<open>The part RtlUnicodeToUTF8N and RtlUTF8ToUnicodeN share, with the first length the loop tries.\<close>

definition ConvertN ::
  "nat \<Rightarrow> ('s, 'd) conversion \<Rightarrow> 's list \<Rightarrow> nat \<Rightarrow> nat \<Rightarrow> nat \<Rightarrow> (NTSTATUS \<times> nat \<times> 'd list) res" where
  "ConvertN m conv src n cap first =
     bindE (prefix_of src n) (\<lambda>s.
     case conv True s cap of (count, out, err) \<Rightarrow>
       if count \<noteq> 0 then Inr (STATUS_SUCCESS, count, out)
       else (case err of
           ERROR_INSUFFICIENT_BUFFER \<Rightarrow>
             bindE (ShrinkLoop m conv src cap first) (\<lambda>(count', out').
               Inr (STATUS_BUFFER_TOO_SMALL, count', out' @ drop (length out') out))
         | ERROR_NO_UNICODE_TRANSLATION \<Rightarrow>
             (case conv False s cap of (count', out', _) \<Rightarrow> Inr (STATUS_SOME_NOT_MAPPED, count', out'))
         | OTHER_ERROR \<Rightarrow> Inl (DdkFail ''0'')))"

text \<open>
  The results are the status, the value stored in the actual count (None when nothing is stored) and
  what was written to the destination.  \<open>same\<close> tells whether the two pointers are equal.
\<close>

definition RtlUnicodeToUTF8N ::
  "(WCHAR, UCHAR) conversion \<Rightarrow> nat \<Rightarrow> bool \<Rightarrow> bool \<Rightarrow> nat \<Rightarrow> bool \<Rightarrow> WCHAR list option \<Rightarrow> nat \<Rightarrow>
     (NTSTATUS \<times> nat option \<times> UCHAR list) res" where
  "RtlUnicodeToUTF8N conv irql same dest UTF8StringMaxByteCount actual source UnicodeStringByteCount =
     ddkassert (irql < DISPATCH_LEVEL) ''KeGetCurrentIrql() < DISPATCH_LEVEL''
     (ddkassert (UTF8StringMaxByteCount < 0x7FFFFFFF) ''UTF8StringMaxByteCount < INT_MAX''
     (ddkassert (UnicodeStringByteCount div 2 < 0x7FFFFFFF) ''UnicodeStringByteCount / sizeof(WCHAR) < INT_MAX''
       (if \<not> dest \<and> \<not> actual \<or> same \<or> \<not> dest \<and> source = None then Inr (STATUS_INVALID_PARAMETER, None, [])
        else (case source of None \<Rightarrow> Inr (STATUS_INVALID_PARAMETER_4, None, []) | Some src \<Rightarrow>
          if UnicodeStringByteCount mod 2 \<noteq> 0 then Inr (STATUS_INVALID_PARAMETER_5, None, [])
          else if UnicodeStringByteCount = 0 then Inr (STATUS_SUCCESS, None, [])
          else bindE (ConvertN (2 ^ 31) conv src (UnicodeStringByteCount div 2)
                        (if dest then UTF8StringMaxByteCount else 0)
                        ((UnicodeStringByteCount - 2) div 2)) (\<lambda>(status, count, out).
                 Inr (status, if actual then Some count else None, out))))))"

definition RtlUTF8ToUnicodeN ::
  "(UCHAR, WCHAR) conversion \<Rightarrow> nat \<Rightarrow> bool \<Rightarrow> bool \<Rightarrow> nat \<Rightarrow> bool \<Rightarrow> UCHAR list option \<Rightarrow> nat \<Rightarrow>
     (NTSTATUS \<times> nat option \<times> WCHAR list) res" where
  "RtlUTF8ToUnicodeN conv irql same dest UnicodeStringMaxByteCount actual source UTF8StringByteCount =
     ddkassert (irql < DISPATCH_LEVEL) ''KeGetCurrentIrql() < DISPATCH_LEVEL''
     (ddkassert (UTF8StringByteCount < 0x7FFFFFFF) ''UTF8StringByteCount < INT_MAX''
     (ddkassert (UnicodeStringMaxByteCount div 2 < 0x7FFFFFFF) ''UnicodeStringMaxByteCount / sizeof(WCHAR) < INT_MAX''
       (if \<not> dest \<and> \<not> actual \<or> same \<or> \<not> dest \<and> source = None then Inr (STATUS_INVALID_PARAMETER, None, [])
        else (case source of None \<Rightarrow> Inr (STATUS_INVALID_PARAMETER_4, None, []) | Some src \<Rightarrow>
          if UTF8StringByteCount = 0 then Inr (STATUS_SUCCESS, None, [])
          else bindE (ConvertN (2 ^ 32) conv src UTF8StringByteCount
                        ((if dest then UnicodeStringMaxByteCount else 0) div 2)
                        (ulong_sub UTF8StringByteCount 2)) (\<lambda>(status, count, out).
                 Inr (status, if actual then Some (ulong_mul count 2) else None, out))))))"

subsection \<open>Ansi strings\<close>

definition RtlInitAnsiString :: "UCHAR list option \<Rightarrow> ANSI_STRING res" where
  "RtlInitAnsiString s =
     (case s of
        None \<Rightarrow> Inr \<lparr>Length = 0, MaximumLength = 0, Buffer = None\<rparr>
      | Some cs \<Rightarrow> bindE (wcslen cs) (\<lambda>n.
          ddkassert (n \<le> 0xFFFE) ''!s || strlen(s) <= (MAXUSHORT - 1)''
            (Inr \<lparr>Length = n, MaximumLength = n + 1, Buffer = Some cs\<rparr>)))"

definition RtlInitString :: "UCHAR list option \<Rightarrow> STRING res" where
  "RtlInitString SourceString = RtlInitAnsiString SourceString"

text \<open>\<open>mbslen\<close> is \<open>mbstowcs\<close> with a null destination; a negative result is an error.\<close>

definition RtlxAnsiStringToUnicodeSize :: "(UCHAR list \<Rightarrow> nat \<Rightarrow> int) \<Rightarrow> ANSI_STRING \<Rightarrow> nat" where
  "RtlxAnsiStringToUnicodeSize mbslen AnsiString =
     (let len = mbslen (mem AnsiString) (Length AnsiString)
      in if len \<ge> 0 then ulong_mul (nat len + 1) 2 else 0)"

definition RtlCompareString :: "STRING \<Rightarrow> STRING \<Rightarrow> bool \<Rightarrow> int res" where
  "RtlCompareString s1 s2 ign =
     (let l = min (Length s1) (Length s2)
      in bindE (if l \<noteq> 0 then ncmp (if ign then towlower else id) l (rd (mem s1)) (rd (mem s2)) 0
                else Inr 0) (\<lambda>rc.
           if rc \<noteq> 0 then Inr rc else Inr (int (Length s1) - int (Length s2))))"

definition RtlFreeAnsiString :: "nat \<Rightarrow> ANSI_STRING \<Rightarrow> ANSI_STRING res" where
  "RtlFreeAnsiString irql AnsiString =
     ddkassert (irql \<le> APC_LEVEL) ''KeGetCurrentIrql() <= APC_LEVEL'' (Inr (AnsiString\<lparr>Buffer := None\<rparr>))"

definition RtlCopyString :: "STRING option \<Rightarrow> STRING option \<Rightarrow> STRING res" where
  "RtlCopyString dp sp =
     (case dp of None \<Rightarrow> Inl (DdkFail ''DestinationString != NULL'') | Some d \<Rightarrow>
       (case sp of None \<Rightarrow> Inr (d\<lparr>Length := 0\<rparr>) | Some s \<Rightarrow>
          let len = min (Length s) (MaximumLength d)
          in ddkassert (Buffer d \<noteq> None) ''DestinationString->Buffer != NULL''
               (bindE (foldE (\<lambda>i b. bindE (rd (mem s) i) (wr b i)) [0..<len] (mem d)) (\<lambda>b.
                  Inr ((set_mem b d)\<lparr>Length := len\<rparr>)))))"

definition RtlEqualString :: "nat \<Rightarrow> STRING \<Rightarrow> STRING \<Rightarrow> bool \<Rightarrow> bool res" where
  "RtlEqualString irql s1 s2 CaseInSensitive =
     ddkassert (irql = PASSIVE_LEVEL) ''KeGetCurrentIrql() == PASSIVE_LEVEL''
       (bindE (RtlCompareString s1 s2 CaseInSensitive) (\<lambda>rc. Inr (rc = 0)))"

definition RtlUpperString :: "nat \<Rightarrow> STRING option \<Rightarrow> STRING option \<Rightarrow> STRING res" where
  "RtlUpperString irql dp sp =
     ddkassert (irql \<le> APC_LEVEL) ''KeGetCurrentIrql() <= APC_LEVEL''
     (ddkassert (dp \<noteq> None \<or> sp \<noteq> None) ''DestinationString != NULL || SourceString != NULL''
       (case (dp, sp) of
          (Some d, Some s) \<Rightarrow>
            (let len = min (Length s) (MaximumLength d)
             in bindE (foldE (\<lambda>i b. bindE (rd (mem s) i) (\<lambda>ch.
                         wr b i (if iswlower ch then towupper ch else ch))) [0..<len] (mem d)) (\<lambda>b.
                  Inr ((set_mem b d)\<lparr>Length := len\<rparr>)))
        | _ \<Rightarrow> Inl Fault))"

section \<open>Reading and writing buffers\<close>

lemma wchar_of_bytes [simp]: "wchar_of (ucast c) (ucast (drop_bit 8 c)) = (c :: WCHAR)"
proof (rule bit_word_eqI)
  fix n assume "n < LENGTH(16)"
  then show "bit (wchar_of (ucast c) (ucast (drop_bit 8 c))) n = bit c n"
    by (auto simp: wchar_of_def bit_simps)
qed

lemma length_bytes_of [simp]: "length (bytes_of ws) = 2 * length ws"
  by (induction ws) simp_all

lemma bytes_of_append [simp]: "bytes_of (xs @ ys) = bytes_of xs @ bytes_of ys"
  by (induction xs) simp_all

lemma wchars_bytes_of [simp]: "wchars (bytes_of ws) = ws"
  by (induction ws) simp_all

lemma wchars_append: "wchars (bytes_of ws @ b) = ws @ wchars b"
  by (induction ws) simp_all

lemma rdw_bytes_of:
  assumes "i < length ws"
  shows "rdw (bytes_of ws @ b) i = Inr (ws ! i)"
  using assms
proof (induction ws arbitrary: i)
  case (Cons c ws)
  then show ?case
  proof (cases i)
    case (Suc j)
    with Cons.prems have "rdw (bytes_of (c # ws) @ b) i = rdw (bytes_of ws @ b) j"
      by (simp add: rdw_def rd_def)
    with Cons Suc show ?thesis by simp
  qed (simp add: rdw_def rd_def)
qed simp

lemma rdw_bytes_of_at:
  "length pre = 2 * k \<Longrightarrow> i < length ws \<Longrightarrow> rdw (pre @ bytes_of ws @ b) (k + i) = Inr (ws ! i)"
proof -
  assume a: "length pre = 2 * k" "i < length ws"
  then have "rdw (pre @ bytes_of ws @ b) (k + i) = rdw (bytes_of ws @ b) i"
    by (auto simp: rdw_def rd_def nth_append)
  with a show ?thesis by (simp add: rdw_bytes_of)
qed

lemma foldE_cong:
  "(\<And>x s. x \<in> set xs \<Longrightarrow> f x s = g x s) \<Longrightarrow> foldE f xs s = foldE g xs s"
proof (induction xs arbitrary: s)
  case (Cons x xs)
  then show ?case by (cases "g x s") simp_all
qed simp

text \<open>The loops that store the values \<open>v 0, v 1, \<dots>\<close> at consecutive places of a buffer.\<close>

lemma store_bytes:
  "k + n \<le> length b \<Longrightarrow>
     foldE (\<lambda>i b. wr b (k + i) (v i)) [0..<n] b = Inr (take k b @ map v [0..<n] @ drop (k + n) b)"
proof (induction n)
  case (Suc n)
  let ?b = "take k b @ map v [0..<n] @ drop (k + n) b"
  from Suc have "k + n < length ?b" by simp
  moreover have "?b[k + n := v n] = take k b @ map v [0..<Suc n] @ drop (k + Suc n) b"
    using Suc.prems Cons_nth_drop_Suc [of "k + n" b, symmetric]
    by (simp add: list_update_append)
  ultimately show ?case using Suc by (simp add: foldE_append wr_def)
qed simp

lemma store_wchars:
  "2 * (k + n) \<le> length b \<Longrightarrow>
     foldE (\<lambda>i b. wrw b (k + i) (v i)) [0..<n] b =
       Inr (take (2 * k) b @ bytes_of (map v [0..<n]) @ drop (2 * (k + n)) b)"
proof (induction n)
  case (Suc n)
  let ?b = "take (2 * k) b @ bytes_of (map v [0..<n]) @ drop (2 * (k + n)) b"
  obtain x y zs where d: "drop (2 * (k + n)) b = x # y # zs"
  proof -
    have "drop (2 * (k + n)) b = b ! (2 * (k + n)) # b ! Suc (2 * (k + n)) # drop (Suc (Suc (2 * (k + n)))) b"
      using Suc.prems by (simp add: Cons_nth_drop_Suc)
    with that show ?thesis by blast
  qed
  have zs: "drop (2 * (k + Suc n)) b = zs"
    using arg_cong [OF d, of "drop 2"] by (simp add: numeral_2_eq_2)
  have "wrw ?b (k + n) (v n) = Inr (take (2 * k) b @ bytes_of (map v [0..<Suc n]) @ zs)"
    using Suc.prems d by (simp add: wrw_def wr_def list_update_append)
  with Suc zs show ?case by (simp add: foldE_append)
qed simp

lemma copy_bytes:
  assumes "n \<le> length src" "n \<le> length b"
  shows "foldE (\<lambda>i b. bindE (rd src i) (wr b i)) [0..<n] b = Inr (take n src @ drop n b)"
proof -
  have "foldE (\<lambda>i b. bindE (rd src i) (wr b i)) [0..<n] b = foldE (\<lambda>i b. wr b (0 + i) (src ! i)) [0..<n] b"
    using assms(1) by (intro foldE_cong) (simp add: rd_def)
  also have "\<dots> = Inr (map ((!) src) [0..<n] @ drop n b)"
    using store_bytes [of 0 n b "(!) src"] assms(2) by simp
  also have "map ((!) src) [0..<n] = take n src"
    using assms(1) by (intro nth_equalityI) auto
  finally show ?thesis .
qed

section \<open>Strings as values\<close>

text \<open>
  A string is well formed when its counts are those of a USHORT and its buffer is as long as it says.
  \<open>contents\<close> are its bytes, \<open>chars\<close> its characters.
\<close>

definition wf_string :: "STRING \<Rightarrow> bool" where
  "wf_string u \<longleftrightarrow> Length u \<le> MaximumLength u \<and> MaximumLength u < 2 ^ 16 \<and> MaximumLength u \<le> length (mem u)"

definition contents :: "STRING \<Rightarrow> UCHAR list" where
  "contents u = take (Length u) (mem u)"

definition chars :: "UNICODE_STRING \<Rightarrow> WCHAR list" where
  "chars u = wchars (contents u)"

lemma mem_set_mem: "length (mem u) \<le> length b \<Longrightarrow> length b = length (mem u) \<Longrightarrow> mem (set_mem b u) = b"
  by (cases "Buffer u") (auto simp: mem_def set_mem_def)

lemma set_mem_fields [simp]:
  "Length (set_mem b u) = Length u" "MaximumLength (set_mem b u) = MaximumLength u"
  by (simp_all add: set_mem_def)

lemma mem_Length_update [simp]: "mem (u\<lparr>Length := n\<rparr>) = mem u"
  by (simp add: mem_def)

lemma AppendLoop_copies:
  assumes "length b0 + length src \<le> maxlen" "length b0 + length src + length rest = n" "maxlen \<le> n"
    "length old = length src"
  shows "AppendLoop (pre @ src @ post) maxlen [length pre..<length pre + length src] (b0 @ old @ rest, length b0) =
    Inr (b0 @ src @ rest, length b0 + length src)"
  using assms
proof (induction src arbitrary: pre b0 old)
  case (Cons c src)
  then obtain o' old' where old: "old = o' # old'" by (cases old) auto
  have upt: "[length pre..<length pre + length (c # src)] = length pre # [length (pre @ [c])..<length (pre @ [c]) + length src]"
    by (simp add: upt_conv_Cons del: upt_Suc)
  have "AppendLoop ((pre @ [c]) @ src @ post) maxlen [length (pre @ [c])..<length (pre @ [c]) + length src]
      ((b0 @ [c]) @ old' @ rest, length (b0 @ [c])) = Inr ((b0 @ [c]) @ src @ rest, length (b0 @ [c]) + length src)"
    using Cons.prems old by (intro Cons.IH) auto
  with Cons.prems old show ?case unfolding upt by (simp add: rd_def wr_def)
qed simp

section \<open>Numbers\<close>

declare ui64tow.simps [simp del]

definition number_of :: "nat \<Rightarrow> nat \<Rightarrow> WCHAR list \<Rightarrow> nat" where
  "number_of base v ws = fold (\<lambda>c v. v * base + digit_value c) ws v"

lemma hex_digit_cases: "(d::nat) < 16 \<Longrightarrow> d \<in> {0, 1, 2, 3, 4, 5, 6, 7, 8, 9, 10, 11, 12, 13, 14, 15}"
  by (simp only: insert_iff empty_iff) presburger

lemma digit_value_digit_char:
  assumes "d < 16"
  shows "digit_value (digit_char d) = d"
proof -
  from assms have "d \<in> {0, 1, 2, 3, 4, 5, 6, 7, 8, 9, 10, 11, 12, 13, 14, 15}" by (rule hex_digit_cases)
  then show ?thesis unfolding insert_iff empty_iff
    by (elim disjE) (simp_all add: digit_value_def digit_char_def)
qed

lemma digit_value_upper:
  assumes "d < 16"
  shows "digit_value (towupper (digit_char d)) = d"
proof -
  from assms have "d \<in> {0, 1, 2, 3, 4, 5, 6, 7, 8, 9, 10, 11, 12, 13, 14, 15}" by (rule hex_digit_cases)
  then show ?thesis unfolding insert_iff empty_iff
    by (elim disjE) (simp_all add: digit_value_def digit_char_def towupper_def)
qed

text \<open>A number's digits are below the base and evaluate to it; there is no leading zero.\<close>

lemma ui64tow_induct:
  assumes "2 \<le> base" "base \<le> 16"
    and "\<And>d. d < base \<Longrightarrow> P d [digit_char d]"
    and "\<And>m d ws. d < base \<Longrightarrow> 0 < m \<Longrightarrow> P m ws \<Longrightarrow> P (m * base + d) (ws @ [digit_char d])"
  shows "P n (ui64tow base n)"
proof (induction n rule: less_induct)
  case (less n)
  show ?case
  proof (cases "n < base")
    case True
    with assms(1,3) show ?thesis by (simp add: ui64tow.simps [of base n])
  next
    case False
    with assms(1) have "n div base < n" "0 < n div base" "n mod base < base"
      by (simp_all add: div_greater_zero_iff)
    with assms(4) [of "n mod base" "n div base" "ui64tow base (n div base)"] less False assms(1)
    show ?thesis by (simp add: ui64tow.simps [of base n])
  qed
qed

lemma number_of_snoc [simp]: "number_of base v (ws @ [c]) = number_of base v ws * base + digit_value c"
  by (simp add: number_of_def)

lemma number_of_Cons [simp]:
  "number_of base v (c # ws) = number_of base (v * base + digit_value c) ws" "number_of base v [] = v"
  by (simp_all add: number_of_def)

lemma ui64tow_digits:
  assumes "2 \<le> base" "base \<le> 16"
  shows "number_of base 0 (ui64tow base n) = n \<and> ui64tow base n \<noteq> [] \<and>
    (\<forall>c \<in> set (ui64tow base n). \<exists>d < base. c = digit_char d) \<and>
    (0 < n \<longrightarrow> hd (ui64tow base n) \<noteq> digit_char 0)"
proof -
  have inj: "digit_char d \<noteq> digit_char 0" if "0 < d" "d < base" for d
    using that assms digit_value_digit_char [of d] digit_value_digit_char [of 0] by (metis less_le_trans zero_less_numeral less_numeral_extra(3))
  show ?thesis
    by (rule ui64tow_induct [OF assms])
      (use assms inj in \<open>auto simp: digit_value_digit_char\<close>)
qed

lemma ui64tow_length:
  assumes "2 \<le> base" "n < base ^ k" "0 < k"
  shows "length (ui64tow base n) \<le> k"
  using assms
proof (induction k arbitrary: n)
  case (Suc k)
  show ?case
  proof (cases "n < base")
    case True
    then show ?thesis by (simp add: ui64tow.simps [of base n])
  next
    case False
    with Suc.prems have "n div base < base ^ k" "0 < k"
      by (auto simp: less_mult_imp_div_less mult.commute intro: Nat.gr0I)
    with Suc.IH [of "n div base"] Suc.prems(1) False show ?thesis
      by (simp add: ui64tow.simps [of base n])
  qed
qed simp

lemma number_of_mono: "0 < base \<Longrightarrow> v \<le> number_of base v ws"
proof (induction ws arbitrary: v)
  case (Cons c ws)
  have "v \<le> v * base + digit_value c" using Cons.prems by (simp add: trans_le_add1)
  also have "\<dots> \<le> number_of base (v * base + digit_value c) ws" by (rule Cons.IH [OF Cons.prems])
  finally show ?case by simp
qed simp

lemma DigitLoop_number:
  assumes "0 < base" "\<forall>c \<in> set ws. digit_value c < base" "number_of base v ws < 2 ^ 32" "length pre = 2 * k"
  shows "DigitLoop base (pre @ bytes_of ws @ post) [k..<k + length ws] v = Inr (number_of base v ws)"
  using assms
proof (induction ws arbitrary: pre k v)
  case (Cons c ws)
  have upt: "[k..<k + length (c # ws)] = k # [Suc k..<Suc k + length ws]"
    by (simp add: upt_conv_Cons del: upt_Suc)
  have "v * base + digit_value c < 2 ^ 32"
    using Cons.prems(3) number_of_mono [OF Cons.prems(1), of "v * base + digit_value c" ws] by simp
  then have step: "ulong_add (ulong_mul v base) (digit_value c) = v * base + digit_value c"
    by (simp add: ulong_simps)
  have "DigitLoop base ((pre @ bytes_of [c]) @ bytes_of ws @ post) [Suc k..<Suc k + length ws] (v * base + digit_value c) =
      Inr (number_of base (v * base + digit_value c) ws)"
    using Cons.prems by (intro Cons.IH) auto
  moreover have "rdw (pre @ bytes_of (c # ws) @ post) k = Inr c"
    using rdw_bytes_of_at [of pre k 0 "c # ws" post] Cons.prems(4) by simp
  ultimately show ?case using Cons.prems step unfolding upt by simp
qed simp

lemma RtlUnicodeStringToInteger_digits:
  assumes mem: "mem u = bytes_of ws @ post" "Length u = 2 * length ws" and ws: "ws \<noteq> []"
    and base: "base \<in> {0, 2, 8, 10, 16}" and b: "b = (if base = 0 then 10 else base)"
    and digits: "\<forall>c \<in> set ws. \<exists>d < b. c = digit_char d" and small: "number_of b 0 ws < 2 ^ 32"
    and lead: "base = 0 \<Longrightarrow> 1 < length ws \<Longrightarrow> hd ws \<noteq> digit_char 0"
    and space: "\<forall>d < 16. \<not> sp (digit_char d)"
  shows "RtlUnicodeStringToInteger sp PASSIVE_LEVEL u base = Inr (STATUS_SUCCESS, number_of b 0 ws)"
proof -
  have b16: "0 < b" "b \<le> 16" using base b by auto
  define tail where "tail = (Length u - 1) div 2"
  have tail: "Suc tail = length ws" using mem(2) ws by (cases ws) (auto simp: tail_def)
  have c0: "rdw (mem u) 0 = Inr (hd ws)" using rdw_bytes_of [of 0 ws post] ws mem(1) by (simp add: hd_conv_nth)
  obtain d0 where d0: "d0 < 16" "hd ws = digit_char d0" using digits ws b16 by (metis hd_in_set less_le_trans)
  have "d0 \<in> {0, 1, 2, 3, 4, 5, 6, 7, 8, 9, 10, 11, 12, 13, 14, 15}" using d0(1) by (rule hex_digit_cases)
  then have nosign: "hd ws \<noteq> 0x2B" "hd ws \<noteq> 0x2D" using d0(2) by (auto simp: digit_char_def)
  have nospace: "\<not> sp (hd ws)" using space d0 by simp
  have skip: "SkipSpace sp (mem u) [0..<Suc tail] 0 = Inr 0"
    using c0 nospace by (simp add: upt_conv_Cons del: upt_Suc)
  have "\<forall>c \<in> set ws. digit_value c < b" using digits b16(2) by (auto simp: digit_value_digit_char)
  then have loop: "DigitLoop b (mem u) [0..<Suc tail] 0 = Inr (number_of b 0 ws)"
    using DigitLoop_number [of b ws 0 "[]" 0 post] small b16 mem(1) tail
    by (simp del: upt_Suc)
  have lead': "base = 0 \<Longrightarrow> 0 < tail \<Longrightarrow> hd ws \<noteq> 0x30" using lead tail by (auto simp: digit_char_def)
  have "Length u \<noteq> 0" using mem(2) ws by simp
  then show ?thesis
    using base b skip loop c0 nosign lead'
    unfolding RtlUnicodeStringToInteger_def Let_def tail_def [symmetric]
    by (auto simp del: upt_Suc)
qed

section \<open>Characters of a string\<close>

lemma length_wchars [simp]: "length (wchars b) = length b div 2"
  by (induction b rule: wchars.induct) simp_all

lemma wchars_nth: "Suc (2 * i) < length b \<Longrightarrow> wchars b ! i = wchar_of (b ! (2 * i)) (b ! Suc (2 * i))"
proof (induction b arbitrary: i rule: wchars.induct)
  case (1 lo hi b)
  then show ?case by (cases i) auto
qed auto

lemma rdw_chars:
  assumes "wf_string u" "i < Length u div 2"
  shows "rdw (mem u) i = Inr (chars u ! i)"
proof -
  from assms have "Suc (2 * i) < Length u" "Length u \<le> length (mem u)" by (auto simp: wf_string_def)
  then show ?thesis by (simp add: rdw_def rd_def chars_def contents_def wchars_nth)
qed

lemma length_chars: "wf_string u \<Longrightarrow> length (chars u) = Length u div 2"
  by (simp add: chars_def contents_def wf_string_def)

lemma ncmp_zero:
  assumes "\<And>i. k \<le> i \<Longrightarrow> i < k + n \<Longrightarrow> s1 i = Inr (x i) \<and> s2 i = Inr (y i) \<and> x i \<noteq> 0"
  shows "\<exists>r. ncmp f n s1 s2 k = Inr r \<and> (r = 0 \<longleftrightarrow> (\<forall>i. k \<le> i \<and> i < k + n \<longrightarrow> f (x i) = f (y i)))"
  using assms
proof (induction n arbitrary: k)
  case (Suc n)
  have now: "s1 k = Inr (x k)" "s2 k = Inr (y k)" "x k \<noteq> 0" using Suc.prems [of k] by auto
  obtain r where r: "ncmp f n s1 s2 (Suc k) = Inr r"
      "r = 0 \<longleftrightarrow> (\<forall>i. Suc k \<le> i \<and> i < Suc k + n \<longrightarrow> f (x i) = f (y i))"
    using Suc.IH [of "Suc k"] Suc.prems by auto
  show ?case
  proof (cases "f (x k) = f (y k)")
    case True
    then have "(\<forall>i. k \<le> i \<and> i < k + Suc n \<longrightarrow> f (x i) = f (y i)) \<longleftrightarrow> r = 0"
      using r(2) by (metis Suc_leI add_Suc_shift le_neq_implies_less le_SucI Suc_le_lessD less_imp_le)
    with True now r(1) show ?thesis by simp
  next
    case False
    then have "uint (f (x k)) - uint (f (y k)) \<noteq> 0" by (simp add: word_uint_eq_iff)
    with False now show ?thesis by auto
  qed
qed auto

lemma sint_difference:
  assumes "a < 2 ^ 16" "b < 2 ^ 16"
  shows "sint (word_of_int (int a - int b) :: LONG) = int a - int b"
proof -
  have "int a < 2 ^ 16" "int b < 2 ^ 16" using assms by simp_all
  then show ?thesis unfolding sint_sbintrunc' by (intro signed_take_bit_int_eq_self) simp_all
qed

lemma RtlCompareUnicodeString_zero:
  assumes wf: "wf_string u1" "wf_string u2" and even: "even (Length u1)" "even (Length u2)"
    and nul: "0 \<notin> set (chars u1)" and f: "f = (if ign then towlower else id)"
  shows "\<exists>r. RtlCompareUnicodeString PASSIVE_LEVEL u1 u2 ign = Inr r \<and> (r = 0 \<longleftrightarrow> map f (chars u1) = map f (chars u2))"
proof -
  let ?n = "min (Length u1) (Length u2) div 2"
  have reads: "rdw (mem u1) i = Inr (chars u1 ! i) \<and> rdw (mem u2) i = Inr (chars u2 ! i) \<and> chars u1 ! i \<noteq> 0"
    if "0 \<le> i" "i < 0 + ?n" for i
  proof -
    have "i < Length u1 div 2" "i < Length u2 div 2" using that by auto
    moreover from this have "chars u1 ! i \<in> set (chars u1)" by (intro nth_mem) (simp add: length_chars wf)
    ultimately show ?thesis using rdw_chars wf nul by auto
  qed
  have "\<exists>r. ncmp f ?n (rdw (mem u1)) (rdw (mem u2)) 0 = Inr r \<and>
      (r = 0 \<longleftrightarrow> (\<forall>i. 0 \<le> i \<and> i < 0 + ?n \<longrightarrow> f (chars u1 ! i) = f (chars u2 ! i)))"
    by (rule ncmp_zero) (rule reads)
  then obtain r where
    r: "ncmp f ?n (rdw (mem u1)) (rdw (mem u2)) 0 = Inr r" "r = 0 \<longleftrightarrow> (\<forall>i < ?n. f (chars u1 ! i) = f (chars u2 ! i))"
    by auto
  have small: "Length u1 < 2 ^ 16" "Length u2 < 2 ^ 16" using wf by (auto simp: wf_string_def)
  have eq: "map f (chars u1) = map f (chars u2) \<longleftrightarrow>
      Length u1 = Length u2 \<and> (\<forall>i < ?n. f (chars u1 ! i) = f (chars u2 ! i))"
    using even by (auto simp: list_eq_iff_nth_eq length_chars wf)
  show ?thesis
  proof (cases "min (Length u1) (Length u2) = 0")
    case True
    then show ?thesis using eq sint_difference [OF small]
      by (auto simp: RtlCompareUnicodeString_def RtlCompareUnicodeStrings_def Let_def)
  next
    case False
    then show ?thesis using r eq sint_difference [OF small] f
      by (auto simp: RtlCompareUnicodeString_def RtlCompareUnicodeStrings_def Let_def)
  qed
qed

section \<open>Hexadecimal fields\<close>

lemma number_of_append: "number_of base v (xs @ ys) = number_of base (number_of base v xs) ys"
  by (simp add: number_of_def)

lemma number_of_cong:
  "(\<And>c. c \<in> set ws \<Longrightarrow> digit_value (g c) = digit_value c) \<Longrightarrow> number_of base v (map g ws) = number_of base v ws"
  by (induction ws arbitrary: v) simp_all

lemma number_of_zeros: "number_of base 0 (replicate k 0x30) = 0"
  by (induction k) (simp_all add: digit_value_def)

lemma hexX_digits:
  assumes "n < 16 ^ w" "0 < w"
  shows "length (hexX w n) = w \<and> number_of 16 0 (hexX w n) = n \<and>
    (\<forall>c \<in> set (hexX w n). \<exists>d < 16. c = towupper (digit_char d))"
proof -
  let ?ds = "ui64tow 16 n"
  have d: "number_of 16 0 ?ds = n" "\<forall>c \<in> set ?ds. \<exists>d < 16. c = digit_char d"
    using ui64tow_digits [of 16 n] by auto
  have len: "length ?ds \<le> w" using ui64tow_length [of 16 n w] assms by simp
  have "number_of 16 0 (map towupper ?ds) = n"
    using d by (subst number_of_cong) (auto simp: digit_value_upper digit_value_digit_char)
  moreover have "\<exists>d < 16. (0x30 :: WCHAR) = towupper (digit_char d)"
    by (rule exI [of _ 0]) (simp add: digit_char_def towupper_def)
  ultimately show ?thesis using len d(2)
    by (auto simp: hexX_def Let_def number_of_append number_of_zeros)
qed

lemma scan_digits_all:
  "\<forall>c \<in> set ds. digit_value c < 16 \<Longrightarrow>
     scan_digits (length ds) k v (ds @ rest) = Inr (k + length ds, number_of 16 v ds, rest)"
  by (induction ds arbitrary: k v) (auto simp: mult.commute)

lemma upper_digit_plain:
  assumes "c = towupper (digit_char d)" "d < 16"
  shows "digit_value c = d" "c \<noteq> 0x2B" "c \<noteq> 0x2D" "c \<noteq> 0x78" "c \<noteq> 0x58"
proof -
  from assms(2) have "d \<in> {0, 1, 2, 3, 4, 5, 6, 7, 8, 9, 10, 11, 12, 13, 14, 15}" by (rule hex_digit_cases)
  then have "c \<noteq> 0x2B \<and> c \<noteq> 0x2D \<and> c \<noteq> 0x78 \<and> c \<noteq> 0x58" unfolding insert_iff empty_iff assms(1)
    by (elim disjE) (simp_all add: digit_char_def towupper_def)
  then show "c \<noteq> 0x2B" "c \<noteq> 0x2D" "c \<noteq> 0x78" "c \<noteq> 0x58" by simp_all
  show "digit_value c = d" using assms digit_value_upper by simp
qed

lemma scan_hex_hexX:
  assumes "n < 16 ^ w" "2 \<le> w" and space: "\<forall>d < 16. \<not> sp (towupper (digit_char d))"
  shows "scan_hex sp w (hexX w n @ rest) = Inr (Some (int n, rest))"
proof -
  from hexX_digits [OF assms(1)] assms(2) have h: "length (hexX w n) = w" "number_of 16 0 (hexX w n) = n"
    "\<forall>c \<in> set (hexX w n). \<exists>d < 16. c = towupper (digit_char d)" by auto
  obtain c0 c1 cs where cs: "hexX w n = c0 # c1 # cs"
    using h(1) assms(2) by (cases "hexX w n" rule: list.exhaust; cases "tl (hexX w n)") auto
  have plain: "c0 \<noteq> 0x2B" "c0 \<noteq> 0x2D" "c1 \<noteq> 0x78" "c1 \<noteq> 0x58" "\<not> sp c0"
    using h(3) upper_digit_plain space unfolding cs by (metis list.set_intros(1) list.set_intros(2))+
  have dv: "\<forall>c \<in> set (hexX w n). digit_value c < 16" using h(3) upper_digit_plain(1) by auto
  have "scan_digits w 0 0 (hexX w n @ rest) = Inr (w, n, rest)"
    using scan_digits_all [OF dv, of 0 0 rest] h(1,2) by simp
  then show ?thesis using plain assms(2)
    by (simp add: scan_hex_def cs Let_def del: scan_digits.simps)
qed

lemma uchar_ushort: "ucast (ucast (x :: UCHAR) :: USHORT) = x"
  by (rule bit_word_eqI) (auto simp: bit_simps)

section \<open>Properties\<close>

text \<open>
  C4.  Integers survive the round trip through text: for every 32-bit value and every base the routines
  accept, RtlIntegerToUnicodeString into a buffer of 64 bytes succeeds, the string stays
  well formed, and RtlUnicodeStringToInteger with the same base gives back the value.  The hypothesis on
  the C library is that no digit is white space.
\<close>

theorem integer_string_roundtrip:
  assumes "wf_string u" "64 \<le> MaximumLength u" "val < 2 ^ 32" "base \<in> {0, 2, 8, 10, 16}"
    and space: "\<forall>d < 16. \<not> iswspace (digit_char d)"
  shows "\<exists>u'. RtlIntegerToUnicodeString PASSIVE_LEVEL val base (Some u) = Inr (STATUS_SUCCESS, u') \<and>
    wf_string u' \<and> RtlUnicodeStringToInteger iswspace PASSIVE_LEVEL u' base = Inr (STATUS_SUCCESS, val)"
proof -
  define b where "b = (if base = 0 then 10 else base)"
  have b: "2 \<le> b" "b \<le> 16" using assms(4) by (auto simp: b_def)
  let ?ds = "ui64tow b val"
  from ui64tow_digits [OF b] have ds: "number_of b 0 ?ds = val" "?ds \<noteq> []"
    "\<forall>c \<in> set ?ds. \<exists>d < b. c = digit_char d" "0 < val \<longrightarrow> hd ?ds \<noteq> digit_char 0" by blast+
  have "val < b ^ 32" using assms(3) power_mono [OF b(1), of 32] by linarith
  with ui64tow_length [OF b(1)] have len: "length ?ds \<le> 32" by simp
  define u' where "u' = (set_mem (bytes_of ?ds @ drop (2 * length ?ds) (mem u)) u)\<lparr>Length := 2 * length ?ds\<rparr>"
  have room: "2 * length ?ds \<le> length (mem u)" using assms(1,2) len by (simp add: wf_string_def)
  have mem': "mem u' = bytes_of ?ds @ drop (2 * length ?ds) (mem u)"
    using room by (simp add: u'_def mem_set_mem)
  have "foldE (\<lambda>i b. wr b i (bytes_of ?ds ! i)) [0..<length ?ds * 2] (mem u) =
      Inr (bytes_of ?ds @ drop (2 * length ?ds) (mem u))"
    using store_bytes [of 0 "length ?ds * 2" "mem u" "(!) (bytes_of ?ds)"] room map_nth [of "bytes_of ?ds"]
    by (simp add: mult.commute)
  then have stored: "RtlIntegerToUnicodeString PASSIVE_LEVEL val base (Some u) = Inr (STATUS_SUCCESS, u')"
    using assms(2,4) len
    by (auto simp: RtlIntegerToUnicodeString_def Let_def b_def [symmetric] u'_def mult.commute)
  have lead: "hd ?ds \<noteq> digit_char 0" if "1 < length ?ds"
    using that ds(4) by (cases "val = 0") (use b in \<open>auto simp: ui64tow.simps [of b 0]\<close>)
  have "RtlUnicodeStringToInteger iswspace PASSIVE_LEVEL u' base = Inr (STATUS_SUCCESS, number_of b 0 ?ds)"
    using ds(1-3) assms(3,4) lead space b_def mem'
    by (intro RtlUnicodeStringToInteger_digits) (auto simp: u'_def)
  moreover have "wf_string u'" using assms(1,2) len mem' room by (simp add: wf_string_def u'_def)
  ultimately show ?thesis using stored ds(1) by auto
qed

abbreviation empty64 :: UNICODE_STRING where
  "empty64 \<equiv> \<lparr>Length = 0, MaximumLength = 64, Buffer = Some (replicate 64 0)\<rparr>"

lemma wf_empty64: "wf_string empty64"
  by (simp add: wf_string_def mem_def)

theorem integer_string_roundtrip_witness:
  "\<exists>u'. RtlIntegerToUnicodeString PASSIVE_LEVEL 51966 16 (Some empty64) = Inr (STATUS_SUCCESS, u') \<and>
    RtlUnicodeStringToInteger (\<lambda>c. c = 0x20) PASSIVE_LEVEL u' 16 = Inr (STATUS_SUCCESS, 51966)"
proof -
  have "\<forall>d < 16. \<not> digit_char d = 0x20"
  proof (intro allI impI notI)
    fix d :: nat assume "d < 16" "digit_char d = 0x20"
    then have "d = digit_value 0x20" using digit_value_digit_char [of d] by simp
    then show False using \<open>d < 16\<close> by (simp add: digit_value_def)
  qed
  with integer_string_roundtrip [OF wf_empty64, of 51966 16 "\<lambda>c. c = 0x20"] show ?thesis by auto
qed

text \<open>
  Guids survive the round trip through text: RtlStringFromGUID gives a string of 38 characters, and
  RtlGUIDFromString of it gives back the guid.
\<close>

theorem guid_string_roundtrip:
  assumes "pool 78 = Some b" "length b = 78" "length (Data4 g) = 8"
    and space: "\<forall>d < 16. \<not> iswspace (towupper (digit_char d))"
  shows "\<exists>s. RtlStringFromGUID pool PASSIVE_LEVEL g (Some u) = Inr (STATUS_SUCCESS, s) \<and> wf_string s \<and>
    length (chars s) = 38 \<and> RtlGUIDFromString iswspace PASSIVE_LEVEL (Some s) (Some g0) = Inr (STATUS_SUCCESS, g)"
proof -
  have bound: "unat (x :: USHORT) < 16 ^ 4" "unat (y :: UCHAR) < 16 ^ 2" "unat (z :: ULONG) < 16 ^ 8" for x y z
    using unsigned_less [of x, where 'a = nat] unsigned_less [of y, where 'a = nat] unsigned_less [of z, where 'a = nat]
    by simp_all
  note len = hexX_digits [OF bound(1), THEN conjunct1] hexX_digits [OF bound(2), THEN conjunct1]
    hexX_digits [OF bound(3), THEN conjunct1]
  have ltext: "length (guid_text g) = 38" by (simp add: guid_text_def len)
  define m where "m = bytes_of (guid_text g @ [0])"
  define s where "s = \<lparr>Length = 76, MaximumLength = 78, Buffer = Some m\<rparr>"
  have lm: "length m = 78" by (simp add: m_def ltext)
  have mem: "mem s = m" by (simp add: s_def mem_def)
  have stored: "foldE (\<lambda>i b. wrw b i ((guid_text g @ [0]) ! i)) [0..<39] b = Inr m"
    using store_wchars [of 0 39 b "(!) (guid_text g @ [0])"] map_nth [of "guid_text g @ [0]"] assms(2) ltext
    by (simp add: m_def)
  have str: "RtlStringFromGUID pool PASSIVE_LEVEL g (Some u) = Inr (STATUS_SUCCESS, s)"
    using assms(1) ltext stored by (simp add: RtlStringFromGUID_def DdkAllocUnicodeBuffer_def s_def set_mem_def Let_def)
  note scan = scan_hex_hexX [OF bound(1) _ space] scan_hex_hexX [OF bound(2) _ space] scan_hex_hexX [OF bound(3) _ space]
  have vs: "swscanf iswspace guid_fmt (wchars m) = Inr (int (unat (Data1 g)) # int (unat (Data2 g)) # int (unat (Data3 g)) #
      map (\<lambda>i. int (unat (Data4 g ! i))) [0, 1, 2, 3, 4, 5, 6, 7])"
    unfolding m_def wchars_bytes_of by (simp add: guid_text_def guid_fmt_def scan)
  have ends: "rdw m 0 = Inr 0x7B" "rdw m 37 = Inr 0x7D"
    using rdw_bytes_of [of 0 "guid_text g @ [0]" "[]"] rdw_bytes_of [of 37 "guid_text g @ [0]" "[]"] ltext
    by (auto simp: m_def guid_text_def nth_append len)
  have d4: "map (\<lambda>i. ucast (word_of_int (int (unat (Data4 g ! i))) :: USHORT)) [0, 1, 2, 3, 4, 5, 6, 7] = Data4 g"
    using assms(3) by (intro nth_equalityI) (auto simp: less_Suc_eq numeral_eq_Suc nth_Cons' uchar_ushort)
  have "RtlGUIDFromString iswspace PASSIVE_LEVEL (Some s) (Some g0) = Inr (STATUS_SUCCESS, g)"
    using d4 by (cases g) (simp add: RtlGUIDFromString_def s_def mem_def ends vs Let_def upt_rec)
  moreover have "wf_string s" "length (chars s) = 38" using lm by (simp_all add: wf_string_def s_def mem_def chars_def contents_def)
  ultimately show ?thesis using str by blast
qed

abbreviation sample_guid :: GUID where
  "sample_guid \<equiv> \<lparr>Data1 = 0xDEADBEEF, Data2 = 0x1234, Data3 = 0, Data4 = [1, 2, 3, 4, 5, 6, 7, 0xFF]\<rparr>"

theorem guid_string_roundtrip_witness:
  "\<exists>s. RtlStringFromGUID (\<lambda>n. Some (replicate n 0)) PASSIVE_LEVEL sample_guid (Some empty64) = Inr (STATUS_SUCCESS, s) \<and>
    RtlGUIDFromString (\<lambda>c. c = 0x20) PASSIVE_LEVEL (Some s) (Some sample_guid) = Inr (STATUS_SUCCESS, sample_guid)"
proof -
  have "\<forall>d < 16. \<not> towupper (digit_char d) = 0x20"
  proof (intro allI impI notI)
    fix d :: nat assume "d < 16" "towupper (digit_char d) = 0x20"
    then have "d = digit_value 0x20" using digit_value_upper [of d] by simp
    then show False using \<open>d < 16\<close> by (simp add: digit_value_def)
  qed
  with guid_string_roundtrip [of "\<lambda>n. Some (replicate n 0)" "replicate 78 0" sample_guid "\<lambda>c. c = 0x20" empty64 sample_guid]
  show ?thesis by auto
qed

text \<open>
  RtlAppendUnicodeStringToString appends the bytes of the second string when the result fits in the maximum
  length of the first, and otherwise changes nothing and returns STATUS_BUFFER_TOO_SMALL.  RtlCopyUnicodeString
  copies as many bytes as fit.  Both keep the destination well formed and the memory behind the result unchanged.
\<close>

theorem append_copy_unicode_string:
  assumes "wf_string u" "wf_string s"
  shows "(if Length u + Length s \<le> MaximumLength u
      then \<exists>u'. RtlAppendUnicodeStringToString u s = Inr (STATUS_SUCCESS, u') \<and> wf_string u' \<and>
             contents u' = contents u @ contents s \<and> MaximumLength u' = MaximumLength u \<and>
             drop (Length u') (mem u') = drop (Length u') (mem u)
      else RtlAppendUnicodeStringToString u s = Inr (STATUS_BUFFER_TOO_SMALL, u)) \<and>
    (\<exists>u'. RtlCopyUnicodeString u (Some s) = Inr u' \<and> wf_string u' \<and>
       contents u' = take (MaximumLength u) (contents s) \<and> MaximumLength u' = MaximumLength u \<and>
       drop (Length u') (mem u') = drop (Length u') (mem u))"
proof -
  have wf: "Length u \<le> MaximumLength u" "MaximumLength u \<le> length (mem u)" "Length s \<le> length (mem s)"
    "MaximumLength u < 2 ^ 16"
    using assms by (auto simp: wf_string_def)
  have app: "\<exists>u'. RtlAppendUnicodeStringToString u s = Inr (STATUS_SUCCESS, u') \<and> wf_string u' \<and>
             contents u' = contents u @ contents s \<and> MaximumLength u' = MaximumLength u \<and>
             drop (Length u') (mem u') = drop (Length u') (mem u)" if fits: "Length u + Length s \<le> MaximumLength u"
  proof -
    let ?rest = "drop (Length u + Length s) (mem u)"
    let ?b = "contents u @ contents s @ ?rest"
    have split: "mem u = contents u @ take (Length s) (drop (Length u) (mem u)) @ ?rest"
      using append_take_drop_id [of "Length s" "drop (Length u) (mem u)"]
        append_take_drop_id [of "Length u" "mem u"] by (simp add: contents_def add.commute)
    have len: "length (contents u) = Length u" "length (contents s) = Length s"
      using wf by (simp_all add: contents_def)
    have src: "mem s = [] @ contents s @ drop (Length s) (mem s)" by (simp add: contents_def)
    have "AppendLoop (mem s) (MaximumLength u) [0..<Length s] (mem u, Length u) = Inr (?b, Length u + Length s)"
      using AppendLoop_copies [of "contents u" "contents s" "MaximumLength u" ?rest "length (mem u)"
          "take (Length s) (drop (Length u) (mem u))" "[]" "drop (Length s) (mem s)"] wf fits len
      unfolding split [symmetric] src [symmetric] by simp
    then have "RtlAppendUnicodeStringToString u s =
        Inr (STATUS_SUCCESS, (set_mem ?b u)\<lparr>Length := Length u + Length s\<rparr>)"
      using fits by (simp add: RtlAppendUnicodeStringToString_def)
    moreover have "mem (set_mem ?b u) = ?b" using wf fits len by (intro mem_set_mem) auto
    ultimately show ?thesis using wf fits len by (auto simp: wf_string_def contents_def)
  qed
  let ?n = "min (MaximumLength u) (Length s)"
  let ?c = "take ?n (mem s) @ drop ?n (mem u)"
  have "foldE (\<lambda>i b. bindE (rd (mem s) i) (wr b i)) [0..<?n] (mem u) = Inr ?c"
    using wf by (intro copy_bytes) auto
  moreover have "mem (set_mem ?c u) = ?c" using wf by (intro mem_set_mem) auto
  ultimately have copy: "\<exists>u'. RtlCopyUnicodeString u (Some s) = Inr u' \<and> wf_string u' \<and>
       contents u' = take (MaximumLength u) (contents s) \<and> MaximumLength u' = MaximumLength u \<and>
       drop (Length u') (mem u') = drop (Length u') (mem u)"
    using wf by (auto simp: RtlCopyUnicodeString_def Let_def wf_string_def contents_def min.commute)
  show ?thesis using app copy by (simp add: RtlAppendUnicodeStringToString_def)
qed

abbreviation abc :: UNICODE_STRING where
  "abc \<equiv> \<lparr>Length = 6, MaximumLength = 8, Buffer = Some [0x61, 0, 0x62, 0, 0x63, 0, 0, 0]\<rparr>"

lemma wf_abc: "wf_string abc"
  by (simp add: wf_string_def mem_def)

theorem append_copy_unicode_string_witness:
  "(\<exists>u'. RtlAppendUnicodeStringToString empty64 abc = Inr (STATUS_SUCCESS, u') \<and> contents u' = [0x61, 0, 0x62, 0, 0x63, 0]) \<and>
   RtlAppendUnicodeStringToString abc abc = Inr (STATUS_BUFFER_TOO_SMALL, abc)"
proof -
  have "contents empty64 = []" "contents abc = [0x61, 0, 0x62, 0, 0x63, 0]" by (simp_all add: contents_def mem_def)
  then show ?thesis
    using append_copy_unicode_string [OF wf_empty64 wf_abc] append_copy_unicode_string [OF wf_abc wf_abc] by auto
qed

text \<open>
  RtlEqualUnicodeString decides equality of the characters, or equality up to the case of the ASCII letters
  when asked to, for strings of whole characters the first of which holds no null character.
\<close>

theorem RtlEqualUnicodeString_correct:
  assumes "wf_string u1" "wf_string u2" "even (Length u1)" "even (Length u2)" "0 \<notin> set (chars u1)"
  shows "RtlEqualUnicodeString PASSIVE_LEVEL u1 u2 False = Inr (chars u1 = chars u2) \<and>
    RtlEqualUnicodeString PASSIVE_LEVEL u1 u2 True = Inr (map towlower (chars u1) = map towlower (chars u2))"
  using RtlCompareUnicodeString_zero [OF assms refl, of False] RtlCompareUnicodeString_zero [OF assms refl, of True]
  by (auto simp: RtlEqualUnicodeString_def)

theorem RtlEqualUnicodeString_correct_witness:
  "RtlEqualUnicodeString PASSIVE_LEVEL abc abc False = Inr True"
proof -
  have "0 \<notin> set (chars abc)" by (simp add: chars_def contents_def mem_def wchar_of_def)
  with RtlEqualUnicodeString_correct [OF wf_abc wf_abc] show ?thesis by simp
qed

text \<open>
  A null character ends the comparison: two strings of three characters that differ only after an embedded
  null are reported as equal.
\<close>

theorem RtlEqualUnicodeString_embedded_null:
  "RtlEqualUnicodeString PASSIVE_LEVEL
     \<lparr>Length = 6, MaximumLength = 6, Buffer = Some (bytes_of [0x61, 0, 0x62])\<rparr>
     \<lparr>Length = 6, MaximumLength = 6, Buffer = Some (bytes_of [0x61, 0, 0x63])\<rparr> False = Inr True"
  by (simp add: RtlEqualUnicodeString_def RtlCompareUnicodeString_def RtlCompareUnicodeStrings_def Let_def
      mem_def rdw_def rd_def wchar_of_def numeral_3_eq_3)

text \<open>
  RtlHashUnicodeString computes, with shifts, the polynomial with multiplier 65599 over the characters (in
  upper case when asked to), modulo \<open>2 ^ 32\<close>.
\<close>

theorem RtlHashUnicodeString_x65599:
  assumes "wf_string s" "irql \<le> APC_LEVEL" "alg \<in> {0, 1}"
  shows "RtlHashUnicodeString irql (Some s) ign alg (Some v) =
    Inr (STATUS_SUCCESS, Some (fold (\<lambda>c h. 65599 * h + ucast (if ign then towupper c else c)) (chars s) 0))"
proof -
  let ?g = "\<lambda>c (h :: ULONG). 65599 * h + ucast (if ign then towupper c else c)"
  have loop: "foldE (\<lambda>i hash. bindE (rdw (mem s) i) (\<lambda>ch.
        let c = (if ign then towupper ch else ch)
        in Inr (ucast c + push_bit 6 hash + push_bit 16 hash - hash))) is h =
      Inr (fold ?g (map ((!) (chars s)) is) h)" if "\<forall>i \<in> set is. i < Length s div 2" for "is" h
    using that
  proof (induction "is" arbitrary: h)
    case (Cons i "is")
    then show ?case by (simp add: rdw_chars [OF assms(1)] Let_def push_bit_eq_mult algebra_simps)
  qed simp
  show ?thesis
    using assms(2,3) loop [of "[0..<Length s div 2]" 0] map_nth [of "chars s"]
    by (auto simp: RtlHashUnicodeString_def length_chars [OF assms(1)])
qed

theorem RtlHashUnicodeString_x65599_witness:
  "RtlHashUnicodeString PASSIVE_LEVEL (Some abc) True 0 (Some 7) =
     Inr (STATUS_SUCCESS, Some (fold (\<lambda>c h. 65599 * h + ucast (if True then towupper c else c)) (chars abc) 0))"
  by (rule RtlHashUnicodeString_x65599 [OF wf_abc]) simp_all

definition ascii_conv :: "('s::len word, 'd::len word) conversion" where
  "ascii_conv strict s cap =
     (if s = [] then (0, [], OTHER_ERROR)
      else if cap = 0 then (length s, [], OTHER_ERROR)
      else if length s \<le> cap then (length s, map ucast s, OTHER_ERROR)
      else (0, map ucast (take cap s), ERROR_INSUFFICIENT_BUFFER))"

text \<open>
  A conversion that does not fit reports how much was written by trying shorter and shorter sources.
  RtlUTF8ToUnicodeN begins two bytes below the full length instead of one: with a conversion that maps each
  ASCII byte to one character, five bytes into room for four characters write four characters (eight bytes)
  and report six bytes, while RtlUnicodeToUTF8N reports the four bytes it wrote.
\<close>

theorem RtlUTF8ToUnicodeN_undercounts:
  "RtlUTF8ToUnicodeN ascii_conv PASSIVE_LEVEL False True 8 True (Some [0x61, 0x62, 0x63, 0x64, 0x65]) 5 =
     Inr (STATUS_BUFFER_TOO_SMALL, Some 6, [0x61, 0x62, 0x63, 0x64]) \<and>
   RtlUnicodeToUTF8N ascii_conv PASSIVE_LEVEL False True 4 True (Some [0x61, 0x62, 0x63, 0x64, 0x65]) 10 =
     Inr (STATUS_BUFFER_TOO_SMALL, Some 4, [0x61, 0x62, 0x63, 0x64])"
  by (simp add: RtlUTF8ToUnicodeN_def RtlUnicodeToUTF8N_def ConvertN_def prefix_of_def ascii_conv_def
      ShrinkLoop.simps [of _ _ _ _ 3] ShrinkLoop.simps [of _ _ _ _ 4] Let_def ulong_sub_def ulong_mul_def
      del: ShrinkLoop.simps)

end
