(* ===== verification/Objects.thy ===== *)
theory Objects
  imports Strings
begin

text \<open>
  The object manager: src/src/object.h, object.cpp, name.cpp, symlink.cpp and the parts of driver.cpp, device.cpp, file.cpp and
  registry.cpp that create and free the objects it manages.

  The state holds the objects by address, the list of names, the memory that is left (the number of
  allocations that still succeed), the interrupt request level, and what has been given back to the system: the
  handles closed, the registry keys closed and the images unloaded.  An object that has been freed is not in the heap any
  more, so using it is a fault.  Reference counts are LONGs changed by interlocked operations.

  The devices of a driver are linked through their NextDevice field; the model keeps that list, in order, with the
  driver.  The names are the characters of the UNICODE_STRING.
\<close>

section \<open>Definitions\<close>

type_synonym addr = nat

datatype OBJECTTYPE =
  EventType | MutexType | SemaphoreType | ThreadType | TimerType | ProcessType | SecurityTokenType | EnlistmentType |
  ResourceManagerType | TransactionManagerType | TransactionType | CmKeyType | IoFileType | IoDeviceType |
  IoDriverType | IoSymbolicLinkType | KeyType

text \<open>A PVOID to an object points to its OBJECT header or, for a public object, to the structure behind it.\<close>

datatype PVOID = NullPtr | HeaderPtr addr | PublicPtr addr

record DEVICE_OBJECT =
  DriverObject :: PVOID
  DeviceType :: nat
  Characteristics :: nat
  DeviceName :: "WCHAR list option"

record DRIVER_OBJECT =
  DeviceList :: "addr list"
  Image :: "nat option"
  loadcount :: int

text \<open>What follows the OBJECT header.\<close>

datatype BODY =
  NoBody
| SYMLINK "WCHAR list" bool
| DEVICE DEVICE_OBJECT
| DRIVER DRIVER_OBJECT
| FILEOBJ PVOID
| KEYOBJ "nat option"

record OBJECT =
  otype :: OBJECTTYPE
  alloc :: bool
  refcount :: int
  handle :: "nat option"
  body :: BODY

record NAME =
  Name :: "WCHAR list"
  Object :: addr

record DDK =
  heap :: "addr \<Rightarrow> OBJECT option"
  next_addr :: addr
  mem_left :: nat
  DdkNameList :: "NAME list"
  irql :: nat
  UniqueId :: int
  closed_handles :: "nat list"
  closed_keys :: "nat list"
  unloaded :: "nat list"

subsection \<open>Object validation and pointers\<close>

definition isPublicObject :: "OBJECT \<Rightarrow> bool" where
  "isPublicObject ob \<longleftrightarrow> otype ob \<in> {IoFileType, IoDeviceType, IoDriverType}"

definition isDispatchObject :: "OBJECT \<Rightarrow> bool" where
  "isDispatchObject ob \<longleftrightarrow> otype ob \<in> {EventType, MutexType, SemaphoreType, ThreadType, TimerType}"

definition isHandleObject :: "OBJECT \<Rightarrow> bool" where
  "isHandleObject ob \<longleftrightarrow> refcount ob > 0 \<and>
     otype ob \<in> {EventType, SemaphoreType, ThreadType, ProcessType, IoFileType, SecurityTokenType, EnlistmentType,
       ResourceManagerType, TransactionManagerType, TransactionType, KeyType}"

text \<open>Objects have even addresses; a handle is the address with the lowest bit set.\<close>

definition ToHandle :: "addr \<Rightarrow> nat" where
  "ToHandle a = (if even a then a + 1 else a)"

definition lookup :: "addr \<Rightarrow> (OBJECT, DDK) st" where
  "lookup a s = (case heap s a of None \<Rightarrow> Inl Fault | Some ob \<Rightarrow> Inr (ob, s))"

definition update :: "addr \<Rightarrow> (OBJECT \<Rightarrow> OBJECT) \<Rightarrow> (unit, DDK) st" where
  "update a f s = (case heap s a of None \<Rightarrow> Inl Fault | Some ob \<Rightarrow> Inr ((), s\<lparr>heap := (heap s)(a \<mapsto> f ob)\<rparr>))"

definition FromHandle :: "nat \<Rightarrow> (addr option, DDK) st" where
  "FromHandle Handle =
     (let a = Handle - Handle mod 2
      in if a = 0 then ret None
         else bindS (lookup a) (\<lambda>ob. ret (if isHandleObject ob then Some a else None)))"

definition ToPointer :: "addr \<Rightarrow> (PVOID, DDK) st" where
  "ToPointer a = bindS (lookup a) (\<lambda>ob. ret (if isPublicObject ob then PublicPtr a else HeaderPtr a))"

definition FromPointer :: "PVOID \<Rightarrow> (addr, DDK) st" where
  "FromPointer p =
     (case p of
        NullPtr \<Rightarrow> fail (DdkFail ''Invalid object pointer'')
      | HeaderPtr a \<Rightarrow> bindS (lookup a) (\<lambda>ob.
          if refcount ob \<le> 0 then fail (DdkFail ''Invalid object pointer'') else ret a)
      | PublicPtr a \<Rightarrow> bindS (lookup a) (\<lambda>ob.
          if refcount ob \<le> 0 \<or> \<not> isPublicObject ob then fail (DdkFail ''Invalid object pointer'') else ret a))"

subsection \<open>Allocation and reference counts\<close>

text \<open>
  \<open>calloc\<close> of an object: it fails when no memory is left.  \<open>b\<close> is the body as the caller initialises it right
  after the allocation.
\<close>

definition DdkAllocObject :: "BODY \<Rightarrow> OBJECTTYPE \<Rightarrow> bool \<Rightarrow> (addr option, DDK) st" where
  "DdkAllocObject b ty opt s =
     (if mem_left s = 0
      then if opt then Inr (None, s) else Inl (DdkFail ''Unable to allocate object'')
      else Inr (Some (next_addr s),
             s\<lparr>heap := (heap s)(next_addr s \<mapsto> \<lparr>otype = ty, alloc = True, refcount = 1, handle = None, body = b\<rparr>),
               next_addr := next_addr s + 16, mem_left := mem_left s - 1\<rparr>))"

definition DdkInitializeObject :: "addr \<Rightarrow> OBJECTTYPE \<Rightarrow> nat \<Rightarrow> nat \<Rightarrow> (unit, DDK) st" where
  "DdkInitializeObject a ty sz maxsize =
     (if sz > maxsize then fail (DdkFail ''Object is too small to initialize'')
      else modify (\<lambda>s. s\<lparr>heap := (heap s)(a \<mapsto>
             \<lparr>otype = ty, alloc = False, refcount = 1, handle = None, body = NoBody\<rparr>)\<rparr>))"

definition DdkReferenceObject :: "addr \<Rightarrow> (unit, DDK) st" where
  "DdkReferenceObject a = update a (\<lambda>ob. ob\<lparr>refcount := wrap32 (refcount ob + 1)\<rparr>)"

text \<open>
  Freeing an object gives back what it holds, which may drop the last reference to another object.  \<open>deref\<close> is
  DdkDereferenceObject for those.
\<close>

text \<open>
  \<open>DdkRemoveObjectName\<close> and \<open>DdkRemoveName\<close>: the loop over the name list that removes the entries that satisfy
  \<open>hit\<close>.  \<open>i\<close> is the position of the current entry and \<open>n\<close> the number of entries not yet visited.
\<close>

fun RemoveNames :: "(addr \<Rightarrow> (unit, DDK) st) \<Rightarrow> (NAME \<Rightarrow> (bool, DDK) st) \<Rightarrow> nat \<Rightarrow> nat \<Rightarrow> (unit, DDK) st" where
  "RemoveNames deref hit 0 i = ret ()"
| "RemoveNames deref hit (Suc n) i =
     bindS (gets DdkNameList) (\<lambda>names.
       if i < length names
       then bindS (hit (names ! i)) (\<lambda>b.
              if b
              then bindS (modify (\<lambda>s. s\<lparr>DdkNameList := take i names @ drop (Suc i) names\<rparr>)) (\<lambda>_.
                   bindS (deref (Object (names ! i))) (\<lambda>_. RemoveNames deref hit n i))
              else RemoveNames deref hit n (Suc i))
       else ret ())"

definition RemoveObjectName :: "(addr \<Rightarrow> (unit, DDK) st) \<Rightarrow> addr \<Rightarrow> (unit, DDK) st" where
  "RemoveObjectName deref a =
     bindS (gets (\<lambda>s. length (DdkNameList s))) (\<lambda>n. RemoveNames deref (\<lambda>e. ret (Object e = a)) n 0)"

definition GetDriver :: "addr \<Rightarrow> (DRIVER_OBJECT, DDK) st" where
  "GetDriver a = bindS (lookup a) (\<lambda>ob.
     case (otype ob, body ob) of (IoDriverType, DRIVER d) \<Rightarrow> ret d | _ \<Rightarrow> fail (DdkFail ''Invalid driver specified''))"

definition GetDevice :: "addr \<Rightarrow> (DEVICE_OBJECT, DDK) st" where
  "GetDevice a = bindS (lookup a) (\<lambda>ob.
     case (otype ob, body ob) of (IoDeviceType, DEVICE d) \<Rightarrow> ret d | _ \<Rightarrow> fail (DdkFail ''Invalid device specified''))"

definition GetFile :: "addr \<Rightarrow> (PVOID, DDK) st" where
  "GetFile a = bindS (lookup a) (\<lambda>ob.
     case (otype ob, body ob) of (IoFileType, FILEOBJ d) \<Rightarrow> ret d | _ \<Rightarrow> fail (DdkFail ''Invalid file object specified''))"

definition DdkAddDevice :: "PVOID \<Rightarrow> addr \<Rightarrow> (unit, DDK) st" where
  "DdkAddDevice drv dev =
     bindS (FromPointer drv) (\<lambda>a. bindS (GetDriver a) (\<lambda>d.
     bindS (update a (\<lambda>ob. ob\<lparr>body := DRIVER (d\<lparr>DeviceList := DeviceList d @ [dev]\<rparr>)\<rparr>)) (\<lambda>_.
     DdkReferenceObject a)))"

definition RemoveDevice :: "(addr \<Rightarrow> (unit, DDK) st) \<Rightarrow> PVOID \<Rightarrow> addr \<Rightarrow> (unit, DDK) st" where
  "RemoveDevice deref drv dev =
     bindS (FromPointer drv) (\<lambda>a. bindS (GetDriver a) (\<lambda>d.
     if dev \<in> set (DeviceList d)
     then bindS (update a (\<lambda>ob. ob\<lparr>body := DRIVER (d\<lparr>DeviceList := remove1 dev (DeviceList d)\<rparr>)\<rparr>)) (\<lambda>_. deref a)
     else ret ()))"

definition FreeFileObject :: "(addr \<Rightarrow> (unit, DDK) st) \<Rightarrow> addr \<Rightarrow> (unit, DDK) st" where
  "FreeFileObject deref a =
     bindS (GetFile a) (\<lambda>dev. if dev = NullPtr then ret () else bindS (FromPointer dev) deref)"

definition DdkFreeDriverObject :: "addr \<Rightarrow> (unit, DDK) st" where
  "DdkFreeDriverObject a =
     bindS (GetDriver a) (\<lambda>d.
       case Image d of None \<Rightarrow> ret () | Some i \<Rightarrow> modify (\<lambda>s. s\<lparr>unloaded := i # unloaded s\<rparr>))"

definition FreeDeviceObject :: "(addr \<Rightarrow> (unit, DDK) st) \<Rightarrow> addr \<Rightarrow> (unit, DDK) st" where
  "FreeDeviceObject deref a = bindS (GetDevice a) (\<lambda>d. RemoveDevice deref (DriverObject d) a)"

text \<open>The key of the hive itself, key 0 here, is never closed.\<close>

definition DdkFreeKeyObject :: "addr \<Rightarrow> (unit, DDK) st" where
  "DdkFreeKeyObject a =
     bindS (lookup a) (\<lambda>ob.
       case body ob of
         KEYOBJ (Some k) \<Rightarrow>
           bindS (if k \<noteq> 0 then modify (\<lambda>s. s\<lparr>closed_keys := k # closed_keys s\<rparr>) else ret ()) (\<lambda>_.
           update a (\<lambda>ob. ob\<lparr>body := KEYOBJ None\<rparr>))
       | KEYOBJ None \<Rightarrow> ret ()
       | _ \<Rightarrow> fail Fault)"

abbreviation (input) current_process :: nat where
  "current_process \<equiv> 0xFFFFFFFFFFFFFFFF"

definition FreeByType :: "(addr \<Rightarrow> (unit, DDK) st) \<Rightarrow> OBJECT \<Rightarrow> addr \<Rightarrow> (unit, DDK) st" where
  "FreeByType deref ob a =
     (case otype ob of
        IoFileType \<Rightarrow> FreeFileObject deref a
      | IoDriverType \<Rightarrow> DdkFreeDriverObject a
      | IoDeviceType \<Rightarrow> FreeDeviceObject deref a
      | KeyType \<Rightarrow> DdkFreeKeyObject a
      | _ \<Rightarrow> ret ())"

definition CloseObjectHandle :: "OBJECT \<Rightarrow> addr \<Rightarrow> (unit, DDK) st" where
  "CloseObjectHandle ob a =
     (case handle ob of
        None \<Rightarrow> ret ()
      | Some h \<Rightarrow>
          bindS (assertS (\<lambda>_. h \<noteq> current_process) ''pObj->h != GetCurrentProcess()'') (\<lambda>_.
          bindS (modify (\<lambda>s. s\<lparr>closed_handles := h # closed_handles s\<rparr>)) (\<lambda>_.
          update a (\<lambda>ob. ob\<lparr>handle := None\<rparr>))))"

definition FreeObject :: "(addr \<Rightarrow> (unit, DDK) st) \<Rightarrow> addr \<Rightarrow> (unit, DDK) st" where
  "FreeObject deref a =
     bindS (lookup a) (\<lambda>ob.
     bindS (FreeByType deref ob a) (\<lambda>_.
     bindS (CloseObjectHandle ob a) (\<lambda>_.
     bindS (RemoveObjectName deref a) (\<lambda>_.
     if alloc ob then modify (\<lambda>s. s\<lparr>heap := (heap s)(a := None)\<rparr>) else ret ()))))"

text \<open>
  A file holds its device and a device its driver, so the last reference to an object frees at most a chain of three:
  the recursion is given a depth of four, and going deeper is a fault.
\<close>

fun Dereference :: "nat \<Rightarrow> addr \<Rightarrow> (unit, DDK) st" where
  "Dereference 0 a = fail Fault"
| "Dereference (Suc depth) a =
     bindS (update a (\<lambda>ob. ob\<lparr>refcount := wrap32 (refcount ob - 1)\<rparr>)) (\<lambda>_.
     bindS (lookup a) (\<lambda>ob.
     if refcount ob = 0 then FreeObject (Dereference depth) a else ret ()))"

definition DdkDereferenceObject :: "addr \<Rightarrow> (unit, DDK) st" where
  "DdkDereferenceObject a = Dereference 4 a"

definition DdkFreeObject :: "addr \<Rightarrow> (unit, DDK) st" where
  "DdkFreeObject a = FreeObject DdkDereferenceObject a"

definition DdkRemoveObjectName :: "addr \<Rightarrow> (unit, DDK) st" where
  "DdkRemoveObjectName a = RemoveObjectName DdkDereferenceObject a"

definition DdkRemoveDevice :: "PVOID \<Rightarrow> addr \<Rightarrow> (unit, DDK) st" where
  "DdkRemoveDevice drv dev = RemoveDevice DdkDereferenceObject drv dev"

subsection \<open>The object interface of the kernel\<close>

definition ObfReferenceObjectWithTag :: "PVOID \<Rightarrow> nat \<Rightarrow> (int, DDK) st" where
  "ObfReferenceObjectWithTag p Tag =
     bindS (FromPointer p) (\<lambda>a.
     bindS (assertS (\<lambda>s. irql s \<le> DISPATCH_LEVEL) ''KeGetCurrentIrql() <= DISPATCH_LEVEL'') (\<lambda>_.
     bindS (DdkReferenceObject a) (\<lambda>_. ret 0)))"

abbreviation (input) default_tag :: nat where
  "default_tag \<equiv> 0x746C6644"

definition ObfReferenceObject :: "PVOID \<Rightarrow> (int, DDK) st" where
  "ObfReferenceObject p = ObfReferenceObjectWithTag p default_tag"

definition ObReferenceObject :: "PVOID \<Rightarrow> (int, DDK) st" where
  "ObReferenceObject p = ObfReferenceObjectWithTag p default_tag"

definition ObReferenceObjectWithTag :: "PVOID \<Rightarrow> nat \<Rightarrow> (int, DDK) st" where
  "ObReferenceObjectWithTag p Tag = ObfReferenceObjectWithTag p Tag"

definition ObReferenceObjectByPointerWithTag :: "PVOID \<Rightarrow> OBJECTTYPE option \<Rightarrow> nat \<Rightarrow> (NTSTATUS, DDK) st" where
  "ObReferenceObjectByPointerWithTag p ObjectType Tag =
     bindS (FromPointer p) (\<lambda>a.
     bindS (assertS (\<lambda>s. irql s \<le> DISPATCH_LEVEL) ''KeGetCurrentIrql() <= DISPATCH_LEVEL'') (\<lambda>_.
     bindS (lookup a) (\<lambda>ob.
     if ObjectType \<noteq> None \<and> ObjectType \<noteq> Some (otype ob) then ret STATUS_OBJECT_TYPE_MISMATCH
     else bindS (DdkReferenceObject a) (\<lambda>_. ret STATUS_SUCCESS))))"

definition ObReferenceObjectByPointer :: "PVOID \<Rightarrow> OBJECTTYPE option \<Rightarrow> (NTSTATUS, DDK) st" where
  "ObReferenceObjectByPointer p ObjectType = ObReferenceObjectByPointerWithTag p ObjectType default_tag"

text \<open>The result is the status and the value stored in \<open>*Object\<close>, None when nothing is stored.\<close>

definition ObReferenceObjectByHandleWithTag ::
  "nat \<Rightarrow> OBJECTTYPE option \<Rightarrow> nat \<Rightarrow> bool \<Rightarrow> (NTSTATUS \<times> PVOID option, DDK) st" where
  "ObReferenceObjectByHandleWithTag Handle ObjectType Tag HandleInformation =
     bindS (FromHandle Handle) (\<lambda>pObj.
     case pObj of None \<Rightarrow> ret (STATUS_INVALID_HANDLE, None) | Some a \<Rightarrow>
       bindS (assertS (\<lambda>s. irql s = PASSIVE_LEVEL) ''KeGetCurrentIrql() == PASSIVE_LEVEL'') (\<lambda>_.
       bindS (assertS (\<lambda>s. \<not> HandleInformation) ''HandleInformation == NULL'') (\<lambda>_.
       bindS (ToPointer a) (\<lambda>p.
       bindS (ObReferenceObjectByPointerWithTag p ObjectType Tag) (\<lambda>rc.
       ret (if rc \<noteq> STATUS_SUCCESS then (rc, None) else (STATUS_SUCCESS, Some p)))))))"

definition ObReferenceObjectByHandle :: "nat \<Rightarrow> OBJECTTYPE option \<Rightarrow> bool \<Rightarrow> (NTSTATUS \<times> PVOID option, DDK) st" where
  "ObReferenceObjectByHandle Handle ObjectType HandleInformation =
     ObReferenceObjectByHandleWithTag Handle ObjectType default_tag HandleInformation"

definition ObfDereferenceObjectWithTag :: "PVOID \<Rightarrow> nat \<Rightarrow> (int, DDK) st" where
  "ObfDereferenceObjectWithTag p Tag =
     bindS (FromPointer p) (\<lambda>a.
     bindS (assertS (\<lambda>s. irql s \<le> DISPATCH_LEVEL) ''KeGetCurrentIrql() <= DISPATCH_LEVEL'') (\<lambda>_.
     bindS (DdkDereferenceObject a) (\<lambda>_. ret 0)))"

definition ObfDereferenceObject :: "PVOID \<Rightarrow> (int, DDK) st" where
  "ObfDereferenceObject p = ObfDereferenceObjectWithTag p default_tag"

definition ObDereferenceObject :: "PVOID \<Rightarrow> (int, DDK) st" where
  "ObDereferenceObject p = ObfDereferenceObjectWithTag p default_tag"

definition ObDereferenceObjectWithTag :: "PVOID \<Rightarrow> nat \<Rightarrow> (int, DDK) st" where
  "ObDereferenceObjectWithTag p Tag = ObfDereferenceObjectWithTag p Tag"

text \<open>
  The deferred variant: \<open>work\<close> tells whether CreateThreadpoolWork succeeds; the result is the work item's object, which
  \<open>DdkObjectCallback\<close> frees when the thread pool runs it.
\<close>

definition ObDereferenceObjectDeferDeleteWithTag :: "bool \<Rightarrow> PVOID \<Rightarrow> nat \<Rightarrow> (addr option, DDK) st" where
  "ObDereferenceObjectDeferDeleteWithTag work p Tag =
     bindS (FromPointer p) (\<lambda>a.
     bindS (assertS (\<lambda>s. irql s \<le> DISPATCH_LEVEL) ''KeGetCurrentIrql() <= DISPATCH_LEVEL'') (\<lambda>_.
     bindS (update a (\<lambda>ob. ob\<lparr>refcount := wrap32 (refcount ob - 1)\<rparr>)) (\<lambda>_.
     bindS (lookup a) (\<lambda>ob.
     if refcount ob \<noteq> 0 then ret None
     else if work then ret (Some a) else fail (DdkFail ''Unable to defer object deletion'')))))"

definition ObDereferenceObjectDeferDelete :: "bool \<Rightarrow> PVOID \<Rightarrow> (addr option, DDK) st" where
  "ObDereferenceObjectDeferDelete work p = ObDereferenceObjectDeferDeleteWithTag work p default_tag"

definition DdkObjectCallback :: "addr \<Rightarrow> (unit, DDK) st" where
  "DdkObjectCallback a = DdkFreeObject a"

definition ZwClose :: "nat \<Rightarrow> (NTSTATUS, DDK) st" where
  "ZwClose Handle =
     bindS (FromHandle Handle) (\<lambda>pObj.
     case pObj of None \<Rightarrow> ret STATUS_INVALID_HANDLE | Some a \<Rightarrow>
       bindS (assertS (\<lambda>s. irql s = PASSIVE_LEVEL) ''KeGetCurrentIrql() == PASSIVE_LEVEL'') (\<lambda>_.
       bindS (ObfDereferenceObject (HeaderPtr a)) (\<lambda>_. ret STATUS_SUCCESS)))"

definition ObCloseHandle :: "nat \<Rightarrow> (NTSTATUS, DDK) st" where
  "ObCloseHandle Handle = ZwClose Handle"

text \<open>
  \<open>DdkWaitLastReference\<close>: the polls of the reference count; \<open>counts\<close> are the values read before the time runs out.
\<close>

fun DdkWaitLastReference :: "int list \<Rightarrow> int \<Rightarrow> bool" where
  "DdkWaitLastReference [] count = False"
| "DdkWaitLastReference (c # cs) count = (if c > count then DdkWaitLastReference cs count else True)"

subsection \<open>Names\<close>

definition take_mem :: "string \<Rightarrow> (unit, DDK) st" where
  "take_mem msg s = (if mem_left s = 0 then Inl (DdkFail msg) else Inr ((), s\<lparr>mem_left := mem_left s - 1\<rparr>))"

text \<open>RtlInitUnicodeString of a buffer that holds these characters and a null.\<close>

definition ustr :: "WCHAR list \<Rightarrow> UNICODE_STRING" where
  "ustr ws = \<lparr>Length = 2 * length ws, MaximumLength = 2 * length ws + 2, Buffer = Some (bytes_of (ws @ [0]))\<rparr>"

definition DdkCreatePath :: "WCHAR list \<Rightarrow> WCHAR list \<Rightarrow> WCHAR list \<Rightarrow> (WCHAR list, DDK) st" where
  "DdkCreatePath Nm Dir Prefix =
     (if Nm = [] then fail Fault
      else
        let rel = (hd Nm \<noteq> 0x5C); d = (Dir \<noteq> [] \<and> rel); p = (Prefix \<noteq> [] \<and> rel);
            path = (if d then Dir @ (if last Dir \<noteq> 0x5C then [0x5C] else []) else []) @
                   (if p then Prefix else []) @ takeWhile (\<lambda>c. c \<noteq> 0) Nm
        in bindS (take_mem ''Unable to allocate memory'') (\<lambda>_.
           bindS (assertS (\<lambda>_. (length path + 1) * 2 \<le> 0xFFFE) ''wcslen(s)'') (\<lambda>_. ret path)))"

definition NameMatches :: "WCHAR list \<Rightarrow> NAME \<Rightarrow> (bool, DDK) st" where
  "NameMatches Path e =
     bindS (gets irql) (\<lambda>q. bindS (liftE (RtlCompareUnicodeString q (ustr Path) (ustr (Name e)) True)) (\<lambda>rc. ret (rc = 0)))"

fun FindName :: "WCHAR list \<Rightarrow> NAME list \<Rightarrow> (NAME option, DDK) st" where
  "FindName Path [] = ret None"
| "FindName Path (e # rest) =
     bindS (NameMatches Path e) (\<lambda>b.
       if b
       then bindS (lookup (Object e)) (\<lambda>ob. if refcount ob \<noteq> 0 then ret (Some e) else FindName Path rest)
       else FindName Path rest)"

definition DdkFindName :: "WCHAR list \<Rightarrow> (NAME option, DDK) st" where
  "DdkFindName Path = bindS (gets DdkNameList) (FindName Path)"

text \<open>The results of DdkCreateName and DdkInsertName carry the value of \<open>*pPath\<close>.\<close>

definition DdkCreateName :: "WCHAR list \<Rightarrow> addr \<Rightarrow> WCHAR list \<Rightarrow> (addr \<times> WCHAR list, DDK) st" where
  "DdkCreateName Nm pObj Dir =
     bindS (assertS (\<lambda>_. Nm \<noteq> []) ''Name->Length >= sizeof(WCHAR)'') (\<lambda>_.
     bindS (DdkCreatePath Nm Dir []) (\<lambda>path.
     bindS (take_mem ''Unable to create name'') (\<lambda>_.
     bindS (DdkFindName path) (\<lambda>pLookup.
     case pLookup of
       Some e \<Rightarrow>
         bindS (DdkReferenceObject (Object e)) (\<lambda>_.
         bindS (DdkDereferenceObject pObj) (\<lambda>_.
         ret (Object e, Name e)))
     | None \<Rightarrow>
         bindS (modify (\<lambda>s. s\<lparr>DdkNameList := \<lparr>Name = path, Object = pObj\<rparr> # DdkNameList s\<rparr>)) (\<lambda>_.
         bindS (DdkReferenceObject pObj) (\<lambda>_.
         ret (pObj, path)))))))"

definition DdkInsertName :: "WCHAR list \<Rightarrow> addr \<Rightarrow> WCHAR list \<Rightarrow> (bool \<times> WCHAR list, DDK) st" where
  "DdkInsertName Nm pObj Dir =
     bindS (DdkCreateName Nm pObj Dir) (\<lambda>(pResult, path).
     if pResult \<noteq> pObj then bindS (DdkDereferenceObject pResult) (\<lambda>_. ret (False, path))
     else ret (True, path))"

definition DdkRemoveName :: "WCHAR list \<Rightarrow> (unit, DDK) st" where
  "DdkRemoveName Nm =
     bindS (gets (\<lambda>s. length (DdkNameList s))) (\<lambda>n. RemoveNames DdkDereferenceObject (NameMatches Nm) n 0)"

definition DdkLookupName :: "WCHAR list \<Rightarrow> WCHAR list \<Rightarrow> (addr option, DDK) st" where
  "DdkLookupName Nm Dir =
     bindS (DdkCreatePath Nm Dir []) (\<lambda>path.
     bindS (DdkFindName path) (\<lambda>e.
     case e of
       None \<Rightarrow> ret None
     | Some e \<Rightarrow> bindS (DdkReferenceObject (Object e)) (\<lambda>_. ret (Some (Object e)))))"

subsection \<open>Symbolic links\<close>

definition IoCreateSymbolicLink :: "WCHAR list \<Rightarrow> WCHAR list \<Rightarrow> (NTSTATUS, DDK) st" where
  "IoCreateSymbolicLink SymbolicLinkName DevName =
     bindS (assertS (\<lambda>_. DevName \<noteq> []) ''DeviceName && DeviceName->Length'') (\<lambda>_.
     bindS (assertS (\<lambda>_. SymbolicLinkName \<noteq> []) ''SymbolicLinkName && SymbolicLinkName->Length'') (\<lambda>_.
     bindS (DdkAllocObject (SYMLINK (takeWhile (\<lambda>c. c \<noteq> 0) DevName) True) IoSymbolicLinkType True) (\<lambda>pLink.
     case pLink of
       None \<Rightarrow> ret STATUS_INSUFFICIENT_RESOURCES
     | Some a \<Rightarrow>
         bindS (assertS (\<lambda>_. (length (takeWhile (\<lambda>c. c \<noteq> 0) DevName) + 1) * 2 \<le> 0xFFFE) ''wcslen(s)'') (\<lambda>_.
         bindS (DdkInsertName SymbolicLinkName a []) (\<lambda>(ok, _).
         ret (if ok then STATUS_SUCCESS else STATUS_OBJECT_NAME_EXISTS))))))"

definition IoDeleteSymbolicLink :: "WCHAR list \<Rightarrow> (NTSTATUS, DDK) st" where
  "IoDeleteSymbolicLink SymbolicLinkName =
     bindS (assertS (\<lambda>_. SymbolicLinkName \<noteq> []) ''SymbolicLinkName && SymbolicLinkName->Length'') (\<lambda>_.
     bindS (DdkLookupName SymbolicLinkName []) (\<lambda>pObj.
     case pObj of
       None \<Rightarrow> ret STATUS_OBJECT_NAME_NOT_FOUND
     | Some a \<Rightarrow>
         bindS (lookup a) (\<lambda>ob.
         if otype ob \<noteq> IoSymbolicLinkType then ret STATUS_OBJECT_NAME_NOT_FOUND
         else bindS (DdkRemoveObjectName a) (\<lambda>_.
              bindS (DdkDereferenceObject a) (\<lambda>_. ret STATUS_SUCCESS)))))"

text \<open>The first argument counts the links that may still be followed: 1001 for \<open>count++ > 1000\<close>.\<close>

fun ResolveLoop :: "nat \<Rightarrow> addr option \<Rightarrow> (addr option, DDK) st" where
  "ResolveLoop n None = ret None"
| "ResolveLoop n (Some a) =
     bindS (lookup a) (\<lambda>ob.
     case (otype ob, body ob) of
       (IoSymbolicLinkType, SYMLINK dest enabled) \<Rightarrow>
         (case n of
            0 \<Rightarrow> fail (DdkFail ''Recursive Symbolic Link'')
          | Suc m \<Rightarrow>
              if \<not> enabled then ret (Some a)
              else bindS (DdkLookupName dest []) (\<lambda>pObj.
                   bindS (ObDereferenceObject (HeaderPtr a)) (\<lambda>_. ResolveLoop m pObj)))
     | _ \<Rightarrow> ret (Some a))"

definition DdkResolveSymbolicLink :: "addr option \<Rightarrow> (addr option, DDK) st" where
  "DdkResolveSymbolicLink pObj = ResolveLoop 1001 pObj"

definition DdkIsDeviceInterface :: "WCHAR list \<Rightarrow> bool \<Rightarrow> (bool, DDK) st" where
  "DdkIsDeviceInterface path all =
     bindS (DdkLookupName path []) (\<lambda>pObj.
     case pObj of
       None \<Rightarrow> ret False
     | Some a \<Rightarrow>
         bindS (lookup a) (\<lambda>ob.
         bindS (case (otype ob, body ob) of
                  (IoSymbolicLinkType, SYMLINK dest enabled) \<Rightarrow>
                    if all \<or> enabled
                    then bindS (DdkLookupName dest []) (\<lambda>pDev.
                           case pDev of
                             None \<Rightarrow> ret False
                           | Some d \<Rightarrow> bindS (lookup d) (\<lambda>dob.
                               bindS (DdkDereferenceObject d) (\<lambda>_. ret (otype dob = IoDeviceType))))
                    else ret False
                | _ \<Rightarrow> ret False) (\<lambda>rc.
         bindS (DdkDereferenceObject a) (\<lambda>_. ret rc))))"

definition IoSetDeviceInterfaceState :: "WCHAR list \<Rightarrow> bool \<Rightarrow> (NTSTATUS, DDK) st" where
  "IoSetDeviceInterfaceState SymbolicLinkName Enable =
     bindS (DdkLookupName SymbolicLinkName []) (\<lambda>pObj.
     case pObj of
       None \<Rightarrow> ret STATUS_OBJECT_NAME_NOT_FOUND
     | Some a \<Rightarrow>
         bindS (lookup a) (\<lambda>ob.
         bindS (case (otype ob, body ob) of
                  (IoSymbolicLinkType, SYMLINK dest enabled) \<Rightarrow>
                    bindS (update a (\<lambda>ob. ob\<lparr>body := SYMLINK dest Enable\<rparr>)) (\<lambda>_.
                    ret (if \<not> enabled \<and> \<not> Enable then STATUS_OBJECT_NAME_NOT_FOUND
                         else if enabled \<and> Enable then STATUS_OBJECT_NAME_EXISTS else STATUS_SUCCESS))
                | _ \<Rightarrow> ret STATUS_OBJECT_NAME_NOT_FOUND) (\<lambda>status.
         bindS (DdkDereferenceObject a) (\<lambda>_. ret status))))"

subsection \<open>Devices\<close>

definition device_dir :: "WCHAR list" where
  "device_dir = 0x5C # map of_char ''Device''"

definition auto_name :: "int \<Rightarrow> WCHAR list" where
  "auto_name n = device_dir @ [0x5C] @
     (let ds = ui64tow 16 (nat (n mod 2 ^ 32)) in replicate (8 - length ds) 0x30 @ ds)"

text \<open>The result is the status and the value stored in \<open>*DeviceObject\<close>.\<close>

definition IoCreateDevice ::
  "PVOID \<Rightarrow> WCHAR list option \<Rightarrow> nat \<Rightarrow> nat \<Rightarrow> (NTSTATUS \<times> PVOID option, DDK) st" where
  "IoCreateDevice drv devname ty charac =
     bindS (assertS (\<lambda>s. irql s \<le> APC_LEVEL) ''KeGetCurrentIrql() <= APC_LEVEL'') (\<lambda>_.
     bindS (DdkAllocObject (DEVICE \<lparr>DriverObject = drv, DeviceType = ty, Characteristics = charac, DeviceName = None\<rparr>)
              IoDeviceType True) (\<lambda>pDevice.
     case pDevice of
       None \<Rightarrow> ret (STATUS_INSUFFICIENT_RESOURCES, None)
     | Some a \<Rightarrow>
         bindS (assertS (\<lambda>_. drv \<noteq> NullPtr) ''DriverObject'') (\<lambda>_.
         bindS (case devname of
                  Some nm \<Rightarrow> DdkInsertName nm a device_dir
                | None \<Rightarrow>
                    if charac div 0x80 mod 2 = 1
                    then bindS (modify (\<lambda>s. s\<lparr>UniqueId := wrap32 (UniqueId s + 1)\<rparr>)) (\<lambda>_.
                         bindS (gets UniqueId) (\<lambda>n. DdkInsertName (auto_name n) a device_dir))
                    else ret (True, [])) (\<lambda>(ok, path).
         if \<not> ok then ret (STATUS_OBJECT_NAME_EXISTS, None)
         else bindS (if path = [] then ret ()
                     else update a (\<lambda>ob. ob\<lparr>body := DEVICE \<lparr>DriverObject = drv, DeviceType = ty,
                            Characteristics = charac, DeviceName = Some path\<rparr>\<rparr>)) (\<lambda>_.
              bindS (DdkAddDevice drv a) (\<lambda>_.
              ret (STATUS_SUCCESS, Some (PublicPtr a))))))))"

definition IoDeleteDevice :: "PVOID \<Rightarrow> (unit, DDK) st" where
  "IoDeleteDevice dev =
     bindS (assertS (\<lambda>s. irql s \<le> APC_LEVEL) ''KeGetCurrentIrql() <= APC_LEVEL'') (\<lambda>_.
     bindS (FromPointer dev) (\<lambda>a. bindS (GetDevice a) (\<lambda>_.
     bindS (DdkRemoveObjectName a) (\<lambda>_. DdkDereferenceObject a))))"

section \<open>The invariant of the object manager\<close>

lemmas object_ops = lookup_def update_def FromPointer_def GetDriver_def GetDevice_def GetFile_def

definition name_refs :: "DDK \<Rightarrow> addr \<Rightarrow> nat" where
  "name_refs s a = length (filter (\<lambda>e. Object e = a) (DdkNameList s))"

text \<open>The device an open file holds a reference to; a file that is being freed holds none any more.\<close>

definition file_device :: "OBJECT \<Rightarrow> PVOID" where
  "file_device ob = (if 0 < refcount ob then (case body ob of FILEOBJ p \<Rightarrow> p | _ \<Rightarrow> NullPtr) else NullPtr)"

definition holds :: "DDK \<Rightarrow> addr \<Rightarrow> PVOID" where
  "holds s f = (case heap s f of None \<Rightarrow> NullPtr | Some ob \<Rightarrow> file_device ob)"

definition file_refs :: "DDK \<Rightarrow> addr \<Rightarrow> nat" where
  "file_refs s a = card {f. holds s f = PublicPtr a}"

text \<open>
  The references the object manager itself holds: one for each name, on a driver one for each of its devices, and on
  a device one for each open file.
\<close>

definition held :: "DDK \<Rightarrow> addr \<Rightarrow> OBJECT \<Rightarrow> nat" where
  "held s a ob = name_refs s a + file_refs s a + (case body ob of DRIVER d \<Rightarrow> length (DeviceList d) | _ \<Rightarrow> 0)"

definition typed :: "OBJECT \<Rightarrow> bool" where
  "typed ob = (case body ob of
     SYMLINK _ _ \<Rightarrow> otype ob = IoSymbolicLinkType
   | DEVICE _ \<Rightarrow> otype ob = IoDeviceType
   | DRIVER _ \<Rightarrow> otype ob = IoDriverType
   | FILEOBJ _ \<Rightarrow> otype ob = IoFileType
   | KEYOBJ _ \<Rightarrow> otype ob = KeyType
   | NoBody \<Rightarrow> otype ob \<notin> {IoSymbolicLinkType, IoDeviceType, IoDriverType, IoFileType, KeyType})"

definition name_ok :: "WCHAR list \<Rightarrow> bool" where
  "name_ok ws \<longleftrightarrow> 0 \<notin> set ws \<and> length ws \<le> 0x7FFE"

text \<open>
  The invariant.  An object's count covers the references held inside, so every object has zero or more
  references held by the program; names and the devices of a driver refer to objects in the heap; a device with
  references is on the list of its driver and a device on a list belongs to that driver; the device of an open file,
  if it has one, is a device in the heap.
\<close>

fun link_of :: "BODY \<Rightarrow> BODY option" where
  "link_of (DEVICE d) = Some (DEVICE d)"
| "link_of (DRIVER d) = Some (DRIVER d)"
| "link_of _ = None"

definition body_at :: "DDK \<Rightarrow> addr \<Rightarrow> BODY option" where
  "body_at s a = (case heap s a of None \<Rightarrow> None | Some ob \<Rightarrow> link_of (body ob))"

lemma link_of_iff: "link_of b = Some (DEVICE d) \<longleftrightarrow> b = DEVICE d" "link_of b = Some (DRIVER dd) \<longleftrightarrow> b = DRIVER dd"
  by (cases b; simp)+

lemma body_at_iff:
  "body_at s a = Some (DEVICE d) \<longleftrightarrow> (\<exists>ob. heap s a = Some ob \<and> body ob = DEVICE d)"
  "body_at s a = Some (DRIVER dd) \<longleftrightarrow> (\<exists>ob. heap s a = Some ob \<and> body ob = DRIVER dd)"
  by (auto simp: body_at_def link_of_iff split: option.splits)

definition device_ok :: "DDK \<Rightarrow> addr \<Rightarrow> OBJECT \<Rightarrow> bool" where
  "device_ok s a ob \<longleftrightarrow> (\<forall>d. body ob = DEVICE d \<longrightarrow> 0 < refcount ob \<longrightarrow>
     (\<exists>drv dd. DriverObject d = PublicPtr drv \<and> body_at s drv = Some (DRIVER dd) \<and> a \<in> set (DeviceList dd)))"

definition driver_ok :: "DDK \<Rightarrow> addr \<Rightarrow> OBJECT \<Rightarrow> bool" where
  "driver_ok s a ob \<longleftrightarrow> (\<forall>dd. body ob = DRIVER dd \<longrightarrow> distinct (DeviceList dd) \<and>
     (\<forall>dev \<in> set (DeviceList dd). \<exists>d. body_at s dev = Some (DEVICE d) \<and> DriverObject d = PublicPtr a))"

definition file_ok :: "DDK \<Rightarrow> OBJECT \<Rightarrow> bool" where
  "file_ok s ob \<longleftrightarrow> file_device ob = NullPtr \<or> (\<exists>d dev. file_device ob = PublicPtr d \<and> body_at s d = Some (DEVICE dev))"

definition count_ok :: "DDK \<Rightarrow> addr \<Rightarrow> OBJECT \<Rightarrow> bool" where
  "count_ok s a ob \<longleftrightarrow> int (held s a ob) \<le> refcount ob \<and> refcount ob < 2 ^ 31 \<and> typed ob \<and>
     handle ob \<noteq> Some current_process \<and> a < next_addr s"

definition obj_inv :: "DDK \<Rightarrow> addr \<Rightarrow> OBJECT \<Rightarrow> bool" where
  "obj_inv s a ob \<longleftrightarrow> count_ok s a ob \<and> device_ok s a ob \<and> driver_ok s a ob \<and> file_ok s ob"

definition wf_ddk :: "DDK \<Rightarrow> bool" where
  "wf_ddk s \<longleftrightarrow> (\<forall>a ob. heap s a = Some ob \<longrightarrow> obj_inv s a ob) \<and>
     (\<forall>e \<in> set (DdkNameList s). heap s (Object e) \<noteq> None \<and> name_ok (Name e))"

lemma wf_ddkD: "wf_ddk s \<Longrightarrow> heap s a = Some ob \<Longrightarrow> obj_inv s a ob"
  by (simp add: wf_ddk_def)

lemma named_live:
  assumes "wf_ddk s" "e \<in> set (DdkNameList s)"
  shows "\<exists>ob. heap s (Object e) = Some ob \<and> 0 < refcount ob"
proof -
  from assms obtain ob where ob: "heap s (Object e) = Some ob" by (auto simp: wf_ddk_def)
  have "0 < name_refs s (Object e)" using assms(2) by (auto simp: name_refs_def filter_empty_conv)
  with wf_ddkD [OF assms(1) ob] ob show ?thesis by (auto simp: obj_inv_def count_ok_def held_def)
qed

lemma name_refs_cong: "DdkNameList t = DdkNameList s \<Longrightarrow> name_refs t a = name_refs s a"
  by (simp add: name_refs_def)

lemma holds_upd: "heap t = (heap s)(a := v) \<Longrightarrow>
    holds t = (holds s)(a := (case v of None \<Rightarrow> NullPtr | Some ob \<Rightarrow> file_device ob))"
  by (auto simp: holds_def)

lemma file_refs_cong: "holds t = holds s \<Longrightarrow> file_refs t = file_refs s"
  by (simp add: file_refs_def fun_eq_iff)

lemma file_refs_heap: "heap t = heap s \<Longrightarrow> file_refs t = file_refs s"
  by (rule file_refs_cong) (simp add: holds_def fun_eq_iff)

lemma file_refs_fields [simp]:
  "file_refs (s\<lparr>DdkNameList := ns\<rparr>) = file_refs s" "file_refs (s\<lparr>mem_left := m\<rparr>) = file_refs s"
  "file_refs (s\<lparr>next_addr := n\<rparr>) = file_refs s" "file_refs (s\<lparr>closed_handles := hs\<rparr>) = file_refs s"
  by (rule file_refs_heap, simp)+

text \<open>Replacing an object by one that holds the same device.\<close>

lemma file_refs_same:
  assumes "heap s a = Some ob" "file_device ob' = file_device ob" "heap t = (heap s)(a \<mapsto> ob')"
  shows "file_refs t = file_refs s"
proof (rule file_refs_cong)
  have "holds s a = file_device ob" using assms(1) by (simp add: holds_def)
  with holds_upd [OF assms(3)] assms(2) show "holds t = holds s" by auto
qed

lemma finite_holds: "wf_ddk s \<Longrightarrow> finite {f. holds s f = PublicPtr a}"
proof (rule finite_subset)
  show "{f. holds s f = PublicPtr a} \<subseteq> {..<next_addr s}" if "wf_ddk s"
    using wf_ddkD [OF that] by (auto simp: holds_def obj_inv_def count_ok_def split: option.splits)
qed simp

lemma file_refs_fewer:
  assumes "wf_ddk s" "\<And>f. holds t f = holds s f \<or> holds t f = NullPtr"
  shows "file_refs t a \<le> file_refs s a"
  unfolding file_refs_def
proof (rule card_mono [OF finite_holds [OF assms(1)]])
  show "{f. holds t f = PublicPtr a} \<subseteq> {f. holds s f = PublicPtr a}"
  proof
    fix f assume "f \<in> {f. holds t f = PublicPtr a}"
    with assms(2) [of f] show "f \<in> {f. holds s f = PublicPtr a}" by auto
  qed
qed

lemma file_refs_pos: "wf_ddk s \<Longrightarrow> heap s f = Some ob \<Longrightarrow> file_device ob = PublicPtr a \<Longrightarrow> 0 < file_refs s a"
  using finite_holds [of s a] by (auto simp: file_refs_def card_gt_0_iff holds_def intro!: exI [of _ f])

lemma held_cong: "DdkNameList t = DdkNameList s \<Longrightarrow> file_refs t = file_refs s \<Longrightarrow> held t a ob = held s a ob"
  by (simp add: held_def name_refs_def)

text \<open>When no name refers to an object, removing its names does nothing.\<close>

lemma RemoveNames_none:
  "(\<And>e. e \<in> set (DdkNameList s) \<Longrightarrow> hit e s = Inr (False, s)) \<Longrightarrow> RemoveNames deref hit n i s = Inr ((), s)"
proof (induction n arbitrary: i)
  case (Suc n)
  show ?case
  proof (cases "i < length (DdkNameList s)")
    case True
    then have "hit (DdkNameList s ! i) s = Inr (False, s)" using Suc.prems by simp
    with True Suc.IH [OF Suc.prems] show ?thesis by (simp add: bindS_def)
  qed simp
qed simp

lemma RemoveObjectName_none: "name_refs s a = 0 \<Longrightarrow> RemoveObjectName deref a s = Inr ((), s)"
  unfolding RemoveObjectName_def bindS_gets
  by (rule RemoveNames_none) (auto simp: name_refs_def filter_empty_conv)

text \<open>
  The invariant of an object depends on the rest of the state only through the references held, the bodies and the next
  address, and holding fewer references keeps it.
\<close>

lemma obj_inv_fewer:
  assumes "body_at t = body_at s" "next_addr t = next_addr s" "held t b ob \<le> held s b ob" "obj_inv s b ob"
  shows "obj_inv t b ob"
proof -
  have "int (held t b ob) \<le> refcount ob" using assms(3,4) by (simp add: obj_inv_def count_ok_def)
  with assms show ?thesis by (simp add: obj_inv_def count_ok_def device_ok_def driver_ok_def file_ok_def)
qed

lemma wf_set_object:
  assumes wf: "wf_ddk s" and ob: "heap s a = Some ob" and same: "link_of (body ob') = link_of (body ob)" and inv: "obj_inv s a ob'"
    and t: "heap t = (heap s)(a \<mapsto> ob')" "DdkNameList t = DdkNameList s" "next_addr t = next_addr s"
    and dev: "file_device ob' = file_device ob \<or> file_device ob' = NullPtr"
  shows "wf_ddk t"
proof -
  have at: "body_at t = body_at s" using t(1) ob same by (auto simp: body_at_def fun_eq_iff)
  have "holds t f = holds s f \<or> holds t f = NullPtr" for f
    using holds_upd [OF t(1)] dev ob by (auto simp: holds_def)
  from file_refs_fewer [OF wf this] have "held t b x \<le> held s b x" for b x
    using t(2) by (simp add: held_def name_refs_def)
  note fewer = obj_inv_fewer [OF at t(3) this]
  have "obj_inv t b obb" if "heap t b = Some obb" for b obb
    using that t(1) inv wf_ddkD [OF wf] by (auto intro: fewer split: if_splits)
  then show ?thesis using wf t by (auto simp: wf_ddk_def)
qed

text \<open>Dropping a reference that is not the last one, and taking one.\<close>

lemma obj_inv_refcount:
  assumes "obj_inv s a ob" "int (held s a ob) \<le> n" "n < 2 ^ 31" "0 < n \<Longrightarrow> 0 < refcount ob"
  shows "obj_inv s a (ob\<lparr>refcount := n\<rparr>)"
proof -
  have "typed (ob\<lparr>refcount := n\<rparr>) = typed ob" by (simp add: typed_def split: BODY.split)
  moreover have "file_ok s (ob\<lparr>refcount := n\<rparr>)" using assms(1,4) by (auto simp: obj_inv_def file_ok_def file_device_def)
  ultimately show ?thesis using assms by (auto simp: obj_inv_def count_ok_def device_ok_def driver_ok_def held_def)
qed

lemma DdkReferenceObject_ok:
  assumes wf: "wf_ddk s" and ob: "heap s a = Some ob" and n: "0 < refcount ob" "refcount ob < 2 ^ 31 - 1"
  shows "DdkReferenceObject a s = Inr ((), s\<lparr>heap := (heap s)(a \<mapsto> ob\<lparr>refcount := refcount ob + 1\<rparr>)\<rparr>)"
    and "wf_ddk (s\<lparr>heap := (heap s)(a \<mapsto> ob\<lparr>refcount := refcount ob + 1\<rparr>)\<rparr>)"
proof -
  have "wrap32 (refcount ob + 1) = refcount ob + 1" using n by (intro wrap32_small) auto
  then show "DdkReferenceObject a s = Inr ((), s\<lparr>heap := (heap s)(a \<mapsto> ob\<lparr>refcount := refcount ob + 1\<rparr>)\<rparr>)"
    using ob by (simp add: DdkReferenceObject_def update_def)
  have "obj_inv s a (ob\<lparr>refcount := refcount ob + 1\<rparr>)"
    using wf_ddkD [OF wf ob] n by (intro obj_inv_refcount) (auto simp: obj_inv_def count_ok_def)
  then show "wf_ddk (s\<lparr>heap := (heap s)(a \<mapsto> ob\<lparr>refcount := refcount ob + 1\<rparr>)\<rparr>)"
    using n by (intro wf_set_object [OF wf ob]) (auto simp: file_device_def)
qed

text \<open>Taking an object without references out of the heap.\<close>

lemma wf_remove_object:
  assumes wf: "wf_ddk s" and ob: "heap s a = Some ob" "refcount ob = 0"
    and off: "\<And>drv dd. body_at s drv = Some (DRIVER dd) \<Longrightarrow> a \<notin> set (DeviceList dd)"
  shows "wf_ddk (s\<lparr>heap := (heap s)(a := None)\<rparr>)"
proof -
  let ?t = "s\<lparr>heap := (heap s)(a := None)\<rparr>"
  have none: "name_refs s a = 0" "file_refs s a = 0" "\<And>dd. body ob = DRIVER dd \<Longrightarrow> DeviceList dd = []"
    using wf_ddkD [OF wf ob(1)] ob(2) by (auto simp: obj_inv_def count_ok_def held_def of_nat_add [symmetric] simp del: of_nat_add)
  have "holds s a = NullPtr" using ob by (simp add: holds_def file_device_def)
  then have refs: "file_refs ?t = file_refs s" using holds_upd [of ?t s a None] by (intro file_refs_cong) auto
  have "obj_inv ?t b obb" if b: "heap s b = Some obb" "b \<noteq> a" for b obb
  proof -
    from wf_ddkD [OF wf b(1)] have inv: "count_ok s b obb" "device_ok s b obb" "driver_ok s b obb" "file_ok s obb"
      by (simp_all add: obj_inv_def)
    have "body_at ?t x = body_at s x" if "x \<noteq> a" for x using that by (simp add: body_at_def)
    moreover have "drv \<noteq> a" if "body_at s drv = Some (DRIVER dd)" "b \<in> set (DeviceList dd)" for drv dd
      using that none(3) ob(1) by (auto simp: body_at_iff)
    ultimately have "device_ok ?t b obb" using inv(2) unfolding device_ok_def by metis
    moreover have "driver_ok ?t b obb"
    proof (unfold driver_ok_def, intro allI impI)
      fix dd assume dd: "body obb = DRIVER dd"
      with b have "a \<notin> set (DeviceList dd)" by (intro off [of b]) (auto simp: body_at_iff)
      moreover have "body_at ?t x = body_at s x" if "x \<noteq> a" for x using that by (simp add: body_at_def)
      ultimately show "distinct (DeviceList dd) \<and>
          (\<forall>dev \<in> set (DeviceList dd). \<exists>d. body_at ?t dev = Some (DEVICE d) \<and> DriverObject d = PublicPtr b)"
        using inv(3) dd unfolding driver_ok_def by metis
    qed
    moreover have "count_ok ?t b obb" using inv(1) refs by (simp add: count_ok_def held_def name_refs_def)
    moreover have "file_ok ?t obb"
    proof (cases "file_device obb = NullPtr")
      case False
      with inv(4) obtain d dev where d: "file_device obb = PublicPtr d" "body_at s d = Some (DEVICE dev)" by (auto simp: file_ok_def)
      with file_refs_pos [OF wf b(1), of d] none(2) have "d \<noteq> a" by auto
      with d show ?thesis by (simp add: file_ok_def body_at_def)
    qed (simp add: file_ok_def)
    ultimately show ?thesis by (simp add: obj_inv_def)
  qed
  moreover have "Object e \<noteq> a" if "e \<in> set (DdkNameList s)" for e
    using that none(1) by (auto simp: name_refs_def filter_empty_conv)
  ultimately show ?thesis using wf by (auto simp: wf_ddk_def split: if_splits)
qed

text \<open>
  Freeing an object that is not a device: what it holds is given back, and it leaves the heap if the object manager
  allocated it.  \<open>rest\<close> says which parts of the state no free touches.
\<close>

definition rest_same :: "DDK \<Rightarrow> DDK \<Rightarrow> bool" where
  "rest_same s t \<longleftrightarrow> DdkNameList t = DdkNameList s \<and> next_addr t = next_addr s \<and> mem_left t = mem_left s \<and>
     irql t = irql s \<and> UniqueId t = UniqueId s"

lemma rest_same_refl [simp]: "rest_same s s"
  by (simp add: rest_same_def)

lemma rest_same_trans [trans]: "rest_same r s \<Longrightarrow> rest_same s t \<Longrightarrow> rest_same r t"
  by (simp add: rest_same_def)

text \<open>The part of FreeObject after the type-specific step.\<close>

lemma FreeObject_tail:
  assumes wf: "wf_ddk s" and ob: "heap s a = Some ob" "refcount ob = 0"
    and off: "\<And>drv dd. body_at s drv = Some (DRIVER dd) \<Longrightarrow> a \<notin> set (DeviceList dd)"
  shows "\<exists>t. bindS (CloseObjectHandle ob a) (\<lambda>_.
     bindS (RemoveObjectName deref a) (\<lambda>_.
     if alloc ob then modify (\<lambda>s. s\<lparr>heap := (heap s)(a := None)\<rparr>) else ret ())) s = Inr ((), t) \<and>
    wf_ddk t \<and> rest_same s t \<and> (\<forall>b. b \<noteq> a \<longrightarrow> heap t b = heap s b) \<and>
    heap t a = (if alloc ob then None else Some (ob\<lparr>handle := None\<rparr>))"
proof -
  let ?ob = "ob\<lparr>handle := None\<rparr>"
  let ?s1 = "s\<lparr>closed_handles := (case handle ob of None \<Rightarrow> [] | Some h \<Rightarrow> [h]) @ closed_handles s, heap := (heap s)(a \<mapsto> ?ob)\<rparr>"
  have inv: "obj_inv s a ob" using wf ob(1) by (rule wf_ddkD)
  then have none: "name_refs s a = 0" using ob(2) by (auto simp: obj_inv_def count_ok_def held_def of_nat_add [symmetric] simp del: of_nat_add)
  have "typed ?ob = typed ob" by (simp add: typed_def split: BODY.split)
  with inv have "obj_inv s a ?ob"
    by (auto simp: obj_inv_def count_ok_def device_ok_def driver_ok_def held_def file_ok_def file_device_def)
  then have wf1: "wf_ddk ?s1" by (intro wf_set_object [OF wf ob(1)]) (auto simp: file_device_def)
  have body1: "body_at ?s1 = body_at s" using ob(1) by (auto simp: body_at_def fun_eq_iff)
  have wf2: "wf_ddk (?s1\<lparr>heap := (heap ?s1)(a := None)\<rparr>)"
    using ob off body1 by (intro wf_remove_object [OF wf1, of a ?ob]) auto
  have same: "s\<lparr>heap := (heap s)(a \<mapsto> ob)\<rparr> = s" using ob(1) by (simp add: fun_upd_idem)
  have close: "CloseObjectHandle ob a s = Inr ((), ?s1)"
  proof (cases "handle ob")
    case None
    then have e: "?ob = ob" by simp
    have "?s1 = s" unfolding e using same None by simp
    then show ?thesis using None by (simp only: CloseObjectHandle_def option.case prims_eq)
  next
    case (Some x)
    with inv ob(1) show ?thesis by (simp add: CloseObjectHandle_def obj_inv_def count_ok_def update_def)
  qed
  have "name_refs ?s1 a = 0" using none by (simp add: name_refs_def)
  then have "RemoveObjectName deref a ?s1 = Inr ((), ?s1)" by (rule RemoveObjectName_none)
  with close wf1 wf2 show ?thesis
    by (cases "alloc ob") (auto simp: bindS_def rest_same_def)
qed

lemma FreeObject_after:
  assumes ob: "heap s a = Some ob" and step: "FreeByType deref ob a s = Inr ((), s1)"
    and wf1: "wf_ddk s1" and ob1: "heap s1 a = Some ob1" "refcount ob1 = 0" "handle ob = handle ob1" "alloc ob = alloc ob1"
    and off: "\<And>drv dd. body_at s1 drv = Some (DRIVER dd) \<Longrightarrow> a \<notin> set (DeviceList dd)"
  shows "\<exists>t. FreeObject deref a s = Inr ((), t) \<and> wf_ddk t \<and> rest_same s1 t \<and>
    (\<forall>b. b \<noteq> a \<longrightarrow> heap t b = heap s1 b) \<and> heap t a = (if alloc ob then None else Some (ob1\<lparr>handle := None\<rparr>))"
proof -
  have "CloseObjectHandle ob a = CloseObjectHandle ob1 a" using ob1(3) by (simp add: CloseObjectHandle_def)
  then have "FreeObject deref a s = bindS (CloseObjectHandle ob1 a) (\<lambda>_.
     bindS (RemoveObjectName deref a) (\<lambda>_.
     if alloc ob1 then modify (\<lambda>s. s\<lparr>heap := (heap s)(a := None)\<rparr>) else ret ())) s1"
    unfolding FreeObject_def using ob step ob1(4) by (simp add: lookup_def bindS_def)
  with FreeObject_tail [OF wf1 ob1(1,2), of deref] off ob1(4) show ?thesis by auto
qed

lemma Free_plain:
  assumes wf: "wf_ddk s" and ob: "heap s a = Some ob" "refcount ob = 0" "otype ob \<noteq> IoDeviceType"
    and nodev: "\<And>p. body ob = FILEOBJ p \<Longrightarrow> p = NullPtr"
  shows "\<exists>t ob'. FreeObject deref a s = Inr ((), t) \<and> wf_ddk t \<and> rest_same s t \<and>
    (\<forall>b. b \<noteq> a \<longrightarrow> heap t b = heap s b) \<and> heap t a = (if alloc ob then None else Some ob') \<and> refcount ob' = 0 \<and>
    link_of (body ob') = link_of (body ob)"
proof -
  from wf_ddkD [OF wf ob(1)] have inv: "obj_inv s a ob" .
  then have ty: "typed ob" by (simp add: obj_inv_def count_ok_def)
  have off: "a \<notin> set (DeviceList dd)" if "body_at s drv = Some (DRIVER dd)" for drv dd
  proof
    assume a: "a \<in> set (DeviceList dd)"
    from that obtain dob where dob: "heap s drv = Some dob" "body dob = DRIVER dd" by (auto simp: body_at_iff)
    from wf_ddkD [OF wf dob(1)] dob(2) a obtain d where "body_at s a = Some (DEVICE d)"
      by (auto simp: obj_inv_def driver_ok_def)
    with ob ty show False by (auto simp: body_at_iff typed_def)
  qed
  have finish: ?thesis
    if step: "FreeByType deref ob a s = Inr ((), s1)"
      and s1: "heap s1 = (heap s)(a \<mapsto> ob1)" "rest_same s s1" "obj_inv s a ob1" "link_of (body ob1) = link_of (body ob)"
        "refcount ob1 = 0" "handle ob = handle ob1" "alloc ob = alloc ob1" for s1 ob1
  proof -
    have wf1: "wf_ddk s1" using s1 by (intro wf_set_object [OF wf ob(1) s1(4,3)]) (auto simp: rest_same_def file_device_def)
    have "body_at s1 = body_at s" using s1(1,4) ob(1) by (auto simp: body_at_def fun_eq_iff)
    with FreeObject_after [OF ob(1) step wf1 _ s1(5-7)] off s1(1,5) obtain t where
      "FreeObject deref a s = Inr ((), t)" "wf_ddk t" "rest_same s1 t" "\<forall>b. b \<noteq> a \<longrightarrow> heap t b = heap s1 b"
      "heap t a = (if alloc ob then None else Some (ob1\<lparr>handle := None\<rparr>))" by auto
    with s1(1,4,5) rest_same_trans [OF s1(2)] show ?thesis
      by (intro exI [of _ t] exI [of _ "ob1\<lparr>handle := None\<rparr>"]) auto
  qed
  note same = fun_upd_idem [of "heap s" a "Some ob", OF ob(1), symmetric]
  consider (driver) dd where "otype ob = IoDriverType" "body ob = DRIVER dd"
    | (fileobj) "otype ob = IoFileType" "body ob = FILEOBJ NullPtr"
    | (keyobj) k where "otype ob = KeyType" "body ob = KEYOBJ k"
    | (other) "otype ob \<notin> {IoDriverType, IoFileType, KeyType, IoDeviceType}"
    using ty ob(3) nodev by (auto simp: typed_def split: BODY.splits)
  then show ?thesis
  proof cases
    case driver
    show ?thesis
      by (rule finish [of "case Image dd of None \<Rightarrow> s | Some i \<Rightarrow> s\<lparr>unloaded := i # unloaded s\<rparr>" ob])
        (use driver ob inv same in \<open>auto simp: FreeByType_def DdkFreeDriverObject_def GetDriver_def lookup_def bindS_def rest_same_def
            split: option.split\<close>)
  next
    case fileobj
    show ?thesis
      by (rule finish [of s ob])
        (use fileobj ob inv same in \<open>auto simp: FreeByType_def FreeFileObject_def GetFile_def lookup_def bindS_def\<close>)
  next
    case keyobj
    let ?ob1 = "ob\<lparr>body := KEYOBJ None\<rparr>"
    let ?s1 = "s\<lparr>closed_keys := (case k of Some k \<Rightarrow> if k \<noteq> 0 then [k] else [] | None \<Rightarrow> []) @ closed_keys s,
      heap := (heap s)(a \<mapsto> ?ob1)\<rparr>"
    have inv1: "obj_inv s a ?ob1"
      using inv keyobj by (auto simp: obj_inv_def count_ok_def device_ok_def driver_ok_def held_def typed_def file_ok_def file_device_def)
    show ?thesis
    proof (cases k)
      case None
      then have "?ob1 = ob" using keyobj by simp
      show ?thesis
        by (rule finish [of s ob])
          (use keyobj None ob inv same in \<open>auto simp: FreeByType_def DdkFreeKeyObject_def lookup_def bindS_def\<close>)
    next
      case (Some x)
      show ?thesis
        by (rule finish [of ?s1 ?ob1])
          (use keyobj Some ob inv1 in \<open>auto simp: FreeByType_def DdkFreeKeyObject_def lookup_def update_def bindS_def rest_same_def\<close>)
    qed
  next
    case other
    show ?thesis
      by (rule finish [of s ob]) (use other ob inv same in \<open>auto simp: FreeByType_def split: OBJECTTYPE.split\<close>)
  qed
qed

section \<open>Dropping references\<close>

text \<open>
  What becomes of an object when one reference to it is dropped: one reference less, or, when it was the last, it has
  left the heap if the object manager allocated it.
\<close>

definition dropped :: "OBJECT \<Rightarrow> OBJECT option \<Rightarrow> bool" where
  "dropped ob r \<longleftrightarrow>
     (if refcount ob > 1 then r = Some (ob\<lparr>refcount := refcount ob - 1\<rparr>)
      else if alloc ob then r = None else (\<exists>ob'. r = Some ob' \<and> refcount ob' = 0 \<and> link_of (body ob') = link_of (body ob)))"

lemma Dereference_unfold:
  assumes "heap s a = Some ob" "0 < refcount ob" "refcount ob < 2 ^ 31"
  shows "Dereference (Suc n) a s =
    (let t = s\<lparr>heap := (heap s)(a \<mapsto> ob\<lparr>refcount := refcount ob - 1\<rparr>)\<rparr>
     in if refcount ob = 1 then FreeObject (Dereference n) a t else Inr ((), t))"
proof -
  have "wrap32 (refcount ob - 1) = refcount ob - 1" using assms by (intro wrap32_small) auto
  with assms(1) show ?thesis by (simp add: update_def lookup_def bindS_def)
qed

lemma drop_wf:
  assumes wf: "wf_ddk s" and ob: "heap s a = Some ob" and spare: "int (held s a ob) < refcount ob"
  shows "wf_ddk (s\<lparr>heap := (heap s)(a \<mapsto> ob\<lparr>refcount := refcount ob - 1\<rparr>)\<rparr>)"
proof -
  have "obj_inv s a (ob\<lparr>refcount := refcount ob - 1\<rparr>)"
    using wf_ddkD [OF wf ob] spare by (intro obj_inv_refcount) (auto simp: obj_inv_def count_ok_def)
  then show ?thesis by (intro wf_set_object [OF wf ob]) (use spare in \<open>auto simp: file_device_def\<close>)
qed

lemma Dereference_plain:
  assumes wf: "wf_ddk s" and ob: "heap s a = Some ob" and spare: "int (held s a ob) < refcount ob"
    and ty: "otype ob \<noteq> IoDeviceType \<and> file_device ob = NullPtr \<or> 1 < refcount ob"
  shows "\<exists>t. Dereference (Suc n) a s = Inr ((), t) \<and> wf_ddk t \<and> rest_same s t \<and>
    (\<forall>b. b \<noteq> a \<longrightarrow> heap t b = heap s b) \<and> dropped ob (heap t a)"
proof -
  let ?ob = "ob\<lparr>refcount := refcount ob - 1\<rparr>"
  let ?t = "s\<lparr>heap := (heap s)(a \<mapsto> ?ob)\<rparr>"
  have small: "refcount ob < 2 ^ 31" using wf_ddkD [OF wf ob] by (simp add: obj_inv_def count_ok_def)
  have pos: "0 < refcount ob" using spare by linarith
  note eq = Dereference_unfold [OF ob pos small, of n, unfolded Let_def]
  note wft = drop_wf [OF wf ob spare]
  show ?thesis
  proof (cases "refcount ob = 1")
    case False
    with eq wft pos show ?thesis by (auto simp: dropped_def rest_same_def)
  next
    case True
    with ty have "otype ?ob \<noteq> IoDeviceType" "\<And>p. body ?ob = FILEOBJ p \<Longrightarrow> p = NullPtr" by (auto simp: file_device_def)
    with Free_plain [OF wft, of a ?ob "Dereference n"] True obtain t ob' where
      t: "FreeObject (Dereference n) a ?t = Inr ((), t)" "wf_ddk t" "rest_same ?t t" "\<forall>b. b \<noteq> a \<longrightarrow> heap t b = heap ?t b"
        "heap t a = (if alloc ?ob then None else Some ob')" "refcount ob' = 0" "link_of (body ob') = link_of (body ?ob)"
      by auto
    then have "rest_same s t" by (simp add: rest_same_def)
    with t eq True show ?thesis by (auto simp: dropped_def)
  qed
qed

text \<open>A device on its driver's list: unlinking it keeps the invariant and leaves a spare reference to the driver.\<close>

lemma unlink_wf:
  assumes wf: "wf_ddk s" and dob: "heap s drv = Some dob" "body dob = DRIVER dd" and dev: "a \<in> set (DeviceList dd)"
    and ob: "heap s a = Some ob" "refcount ob = 0"
    and dob1: "dob1 = dob\<lparr>body := DRIVER (dd\<lparr>DeviceList := remove1 a (DeviceList dd)\<rparr>)\<rparr>"
    and s1: "s1 = s\<lparr>heap := (heap s)(drv \<mapsto> dob1)\<rparr>"
  shows "wf_ddk s1 \<and> int (held s1 drv dob1) < refcount dob \<and> 0 < refcount dob \<and> otype dob = IoDriverType"
proof -
  have dinv: "obj_inv s drv dob" using wf dob(1) by (rule wf_ddkD)
  then have dist: "distinct (DeviceList dd)" and ty: "otype dob = IoDriverType"
    using dob(2) by (auto simp: obj_inv_def driver_ok_def count_ok_def typed_def)
  have len: "length (DeviceList dd) = Suc (length (remove1 a (DeviceList dd)))"
    using dev length_pos_if_in_set [OF dev] by (simp add: length_remove1)
  have refs: "file_refs s1 = file_refs s"
    using file_refs_same [OF dob(1), of dob1 s1] dob(2) by (simp add: file_device_def dob1 s1)
  have held: "held s drv dob = Suc (held s1 drv dob1)"
    using dob(2) len by (simp add: held_def refs) (simp add: dob1 s1 name_refs_def)
  have at: "body_at s1 x = body_at s x" if "x \<noteq> drv" for x using that by (simp add: body_at_def s1)
  have atd: "body_at s1 drv = Some (DRIVER (dd\<lparr>DeviceList := remove1 a (DeviceList dd)\<rparr>))" by (simp add: body_at_def s1 dob1)
  have dev_at: "body_at s1 x = Some (DEVICE d)" if "body_at s x = Some (DEVICE d)" for x d
    using that at dob by (cases "x = drv") (auto simp: body_at_iff)
  have "obj_inv s1 b obb" if b: "heap s1 b = Some obb" for b obb
  proof (cases "b = drv")
    case True
    with b have obb: "obb = dob1" by (simp add: s1)
    have "driver_ok s1 drv dob1"
      using dinv dob(2) dev_at dist by (auto simp: obj_inv_def driver_ok_def dob1 dest!: notin_set_remove1 set_remove1_subset [THEN subsetD])
    moreover have "device_ok s1 drv dob1" by (simp add: device_ok_def dob1)
    moreover have "count_ok s1 drv dob1"
      using dinv held ty dob(2) by (auto simp: obj_inv_def count_ok_def dob1 typed_def s1)
    moreover have "file_ok s1 dob1" by (simp add: file_ok_def file_device_def dob1)
    ultimately show ?thesis using True obb by (simp add: obj_inv_def)
  next
    case False
    with b have hb: "heap s b = Some obb" by (simp add: s1)
    from wf_ddkD [OF wf this] have inv: "count_ok s b obb" "device_ok s b obb" "driver_ok s b obb" "file_ok s obb"
      by (simp_all add: obj_inv_def)
    have "device_ok s1 b obb"
    proof (unfold device_ok_def, intro allI impI)
      fix d assume d: "body obb = DEVICE d" "0 < refcount obb"
      with hb ob have "b \<noteq> a" by auto
      from inv(2) d obtain drv' dd' where x: "DriverObject d = PublicPtr drv'" "body_at s drv' = Some (DRIVER dd')" "b \<in> set (DeviceList dd')"
        by (auto simp: device_ok_def)
      show "\<exists>drv dd. DriverObject d = PublicPtr drv \<and> body_at s1 drv = Some (DRIVER dd) \<and> b \<in> set (DeviceList dd)"
      proof (cases "drv' = drv")
        case True
        with x dob have "dd' = dd" by (auto simp: body_at_iff)
        with x True atd \<open>b \<noteq> a\<close> show ?thesis by auto
      next
        case False
        with x at show ?thesis by auto
      qed
    qed
    moreover have "driver_ok s1 b obb" using inv(3) dev_at unfolding driver_ok_def by metis
    moreover have "count_ok s1 b obb" using inv(1) by (simp add: count_ok_def held_def refs) (simp add: name_refs_def s1)
    moreover have "file_ok s1 obb" using inv(4) dev_at unfolding file_ok_def by metis
    ultimately show ?thesis by (simp add: obj_inv_def)
  qed
  moreover have "heap s1 (Object e) \<noteq> None \<and> name_ok (Name e)" if "e \<in> set (DdkNameList s1)" for e
    using that wf by (auto simp: wf_ddk_def s1)
  ultimately show ?thesis using held dinv ty by (auto simp: wf_ddk_def obj_inv_def count_ok_def)
qed

lemma Dereference_device:
  assumes wf: "wf_ddk s" and ob: "heap s a = Some ob" "refcount ob = 1" "otype ob = IoDeviceType"
    and spare: "int (held s a ob) < refcount ob"
  shows "\<exists>t d drv dob. Dereference (Suc (Suc n)) a s = Inr ((), t) \<and> wf_ddk t \<and> rest_same s t \<and> dropped ob (heap t a) \<and>
    body ob = DEVICE d \<and> DriverObject d = PublicPtr drv \<and> drv \<noteq> a \<and> heap s drv = Some dob \<and>
    (\<exists>dd. body dob = DRIVER dd \<and>
       dropped (dob\<lparr>body := DRIVER (dd\<lparr>DeviceList := remove1 a (DeviceList dd)\<rparr>)\<rparr>) (heap t drv)) \<and>
    (\<forall>b. b \<noteq> a \<longrightarrow> b \<noteq> drv \<longrightarrow> heap t b = heap s b)"
proof -
  let ?ob = "ob\<lparr>refcount := refcount ob - 1\<rparr>"
  let ?s0 = "s\<lparr>heap := (heap s)(a \<mapsto> ?ob)\<rparr>"
  note wf0 = drop_wf [OF wf ob(1) spare]
  have inv: "obj_inv s a ob" using wf ob(1) by (rule wf_ddkD)
  then obtain d where d: "body ob = DEVICE d" using ob(3) by (auto simp: obj_inv_def count_ok_def typed_def split: BODY.splits)
  with inv ob(2) obtain drv dob dd where drv: "DriverObject d = PublicPtr drv" "heap s drv = Some dob" "body dob = DRIVER dd"
      "a \<in> set (DeviceList dd)" by (auto simp: obj_inv_def device_ok_def body_at_iff)
  have ne: "drv \<noteq> a" using drv(2,3) ob(1) d by auto
  define dob1 where "dob1 = dob\<lparr>body := DRIVER (dd\<lparr>DeviceList := remove1 a (DeviceList dd)\<rparr>)\<rparr>"
  define s1 where "s1 = ?s0\<lparr>heap := (heap ?s0)(drv \<mapsto> dob1)\<rparr>"
  have dob0: "heap ?s0 drv = Some dob" using drv(2) ne by simp
  have "heap ?s0 a = Some ?ob" "refcount ?ob = 0" using ob(2) by simp_all
  note un = unlink_wf [OF wf0 dob0 drv(3,4) this dob1_def s1_def]
  have d1: "heap s1 drv = Some dob1" by (simp add: s1_def)
  have ty1: "otype dob1 \<noteq> IoDeviceType" "refcount dob1 = refcount dob" "file_device dob1 = NullPtr"
    using un by (simp_all add: dob1_def file_device_def)
  from Dereference_plain [of s1 drv dob1 n] un d1 ty1 obtain s2 where
    s2: "Dereference (Suc n) drv s1 = Inr ((), s2)" "wf_ddk s2" "rest_same s1 s2" "\<forall>b. b \<noteq> drv \<longrightarrow> heap s2 b = heap s1 b"
      "dropped dob1 (heap s2 drv)" by auto
  have a2: "heap s2 a = Some ?ob" using s2(4) ne by (simp add: s1_def)
  have off: "a \<notin> set (DeviceList dd2)" if x: "body_at s2 drv2 = Some (DRIVER dd2)" for drv2 dd2
  proof
    assume in2: "a \<in> set (DeviceList dd2)"
    from x obtain dob2 where h2: "heap s2 drv2 = Some dob2" "body dob2 = DRIVER dd2" by (auto simp: body_at_iff)
    with wf_ddkD [OF s2(2) h2(1)] in2 a2 d drv(1) have "drv2 = drv"
      by (auto simp: obj_inv_def driver_ok_def body_at_iff)
    with h2 s2(5) have "DeviceList dd2 = remove1 a (DeviceList dd)"
      by (auto simp: dropped_def dob1_def link_of_iff split: if_splits)
    moreover have "distinct (DeviceList dd)"
      using wf_ddkD [OF wf drv(2)] drv(3) by (auto simp: obj_inv_def driver_ok_def)
    ultimately show False using in2 by simp
  qed
  have pub: "isPublicObject dob" "0 < refcount dob" "otype dob = IoDriverType" using un by (simp_all add: isPublicObject_def)
  have step: "FreeByType (Dereference (Suc n)) ?ob a ?s0 = Inr ((), s2)"
    using ob(3) d drv dob0 pub s2(1)
    by (simp add: FreeByType_def FreeDeviceObject_def GetDevice_def RemoveDevice_def FromPointer_def GetDriver_def
        lookup_def update_def bindS_def s1_def dob1_def del: Dereference.simps)
  from FreeObject_after [OF _ step s2(2) a2] off ob(2) obtain t where
    t: "FreeObject (Dereference (Suc n)) a ?s0 = Inr ((), t)" "wf_ddk t" "rest_same s2 t" "\<forall>b. b \<noteq> a \<longrightarrow> heap t b = heap s2 b"
      "heap t a = (if alloc ?ob then None else Some (?ob\<lparr>handle := None\<rparr>))" by auto
  have "Dereference (Suc (Suc n)) a s = Inr ((), t)"
    using Dereference_unfold [OF ob(1), of "Suc n"] ob(2) t(1) by simp
  moreover have "rest_same s t" using t(3) s2(3) by (simp add: rest_same_def s1_def)
  moreover have "dropped ob (heap t a)" using t(5) ob(2) by (auto simp: dropped_def)
  moreover have "\<forall>b. b \<noteq> a \<longrightarrow> b \<noteq> drv \<longrightarrow> heap t b = heap s b" using t(4) s2(4) by (simp add: s1_def)
  moreover have "dropped dob1 (heap t drv)" using t(4) s2(5) ne by simp
  ultimately show ?thesis using t(2) d drv ne unfolding dob1_def by blast
qed

text \<open>An open file with a device: the last reference to it gives back its reference to the device.\<close>

lemma release_device:
  assumes wf: "wf_ddk s" and ob: "heap s a = Some ob" "refcount ob = 1" "file_device ob = PublicPtr d" and dob: "heap s d = Some dob"
    and spare: "int (held s a ob) < refcount ob"
    and s0: "s0 = s\<lparr>heap := (heap s)(a \<mapsto> ob\<lparr>refcount := refcount ob - 1\<rparr>)\<rparr>" and ne: "d \<noteq> a"
  shows "wf_ddk s0" "heap s0 d = Some dob" "int (held s0 d dob) < refcount dob"
proof -
  show "wf_ddk s0" unfolding s0 by (rule drop_wf [OF wf ob(1) spare])
  show "heap s0 d = Some dob" using dob ne by (simp add: s0)
  have "holds s0 = (holds s)(a := NullPtr)"
    using holds_upd [of s0 s a "Some (ob\<lparr>refcount := 0\<rparr>)"] ob(2) by (simp add: s0 file_device_def)
  moreover have "holds s a = PublicPtr d" using ob by (simp add: holds_def)
  ultimately have "{f. holds s f = PublicPtr d} = insert a {f. holds s0 f = PublicPtr d}" "a \<notin> {f. holds s0 f = PublicPtr d}"
    by (auto split: if_splits)
  moreover have "finite {f. holds s0 f = PublicPtr d}" by (rule finite_holds) fact
  ultimately have "file_refs s d = Suc (file_refs s0 d)" unfolding file_refs_def by simp
  moreover have "name_refs s0 d = name_refs s d" by (simp add: name_refs_def s0)
  ultimately show "int (held s0 d dob) < refcount dob"
    using wf_ddkD [OF wf dob] by (simp add: obj_inv_def count_ok_def held_def)
qed

text \<open>What else a dropped reference changes: the objects at the end of the chain from a file to its device and its driver.\<close>

lemma Dereference_chain:
  assumes wf: "wf_ddk s" and ob: "heap s a = Some ob" and spare: "int (held s a ob) < refcount ob"
    and nofile: "file_device ob = NullPtr \<or> 1 < refcount ob"
  shows "\<exists>t. Dereference (Suc (Suc n)) a s = Inr ((), t) \<and> wf_ddk t \<and> rest_same s t \<and> dropped ob (heap t a) \<and>
    (\<forall>b bob. b \<noteq> a \<longrightarrow> heap s b = Some bob \<longrightarrow> otype bob \<noteq> IoDriverType \<or> 1 < refcount ob \<or> otype ob \<noteq> IoDeviceType \<longrightarrow> heap t b = heap s b)"
proof (cases "otype ob = IoDeviceType \<and> refcount ob = 1")
  case True
  with Dereference_device [OF wf ob, of n] spare obtain t drv dob dd where
    t: "Dereference (Suc (Suc n)) a s = Inr ((), t)" "wf_ddk t" "rest_same s t" "dropped ob (heap t a)" "heap s drv = Some dob" "body dob = DRIVER dd"
      "\<forall>b. b \<noteq> a \<longrightarrow> b \<noteq> drv \<longrightarrow> heap t b = heap s b" by auto
  moreover have "otype dob = IoDriverType"
    using wf_ddkD [OF wf t(5)] t(6) by (simp add: obj_inv_def count_ok_def typed_def)
  ultimately show ?thesis using True by (auto simp del: Dereference.simps)
next
  case False
  have "0 < refcount ob" using spare by linarith
  with False nofile have "otype ob \<noteq> IoDeviceType \<and> file_device ob = NullPtr \<or> 1 < refcount ob" by auto
  from Dereference_plain [OF wf ob spare this, of "Suc n"] show ?thesis by (auto simp del: Dereference.simps)
qed

lemma Dereference_file:
  assumes wf: "wf_ddk s" and ob: "heap s a = Some ob" "refcount ob = 1" "file_device ob = PublicPtr d"
    and spare: "int (held s a ob) < refcount ob"
  shows "\<exists>t dob. Dereference (Suc (Suc (Suc n))) a s = Inr ((), t) \<and> wf_ddk t \<and> rest_same s t \<and> dropped ob (heap t a) \<and>
    heap s d = Some dob \<and> otype dob = IoDeviceType \<and> dropped dob (heap t d) \<and>
    (\<forall>b bob. b \<noteq> a \<longrightarrow> b \<noteq> d \<longrightarrow> heap s b = Some bob \<longrightarrow> otype bob \<noteq> IoDriverType \<longrightarrow> heap t b = heap s b)"
proof -
  let ?ob = "ob\<lparr>refcount := refcount ob - 1\<rparr>"
  define s0 where "s0 = s\<lparr>heap := (heap s)(a \<mapsto> ?ob)\<rparr>"
  have inv: "obj_inv s a ob" using wf ob(1) by (rule wf_ddkD)
  have body: "body ob = FILEOBJ (PublicPtr d)" using ob(2,3) by (auto simp: file_device_def split: BODY.splits)
  with inv have ty: "otype ob = IoFileType" by (simp add: obj_inv_def count_ok_def typed_def)
  from inv ob(3) obtain dev dob where dob: "heap s d = Some dob" "body dob = DEVICE dev"
    by (auto simp: obj_inv_def file_ok_def body_at_iff)
  have ne: "d \<noteq> a" using dob body ob(1) by auto
  note rel = release_device [OF wf ob dob(1) spare s0_def ne]
  have dty: "otype dob = IoDeviceType" using wf_ddkD [OF wf dob(1)] dob(2) by (simp add: obj_inv_def count_ok_def typed_def)
  have pos: "0 < refcount dob" using rel(3) by linarith
  have "file_device dob = NullPtr" using dob(2) by (simp add: file_device_def)
  from Dereference_chain [OF rel disjI1, OF this, of n] obtain s2 where
    s2: "Dereference (Suc (Suc n)) d s0 = Inr ((), s2)" "wf_ddk s2" "rest_same s0 s2" "dropped dob (heap s2 d)"
      "\<forall>b bob. b \<noteq> d \<longrightarrow> heap s0 b = Some bob \<longrightarrow> otype bob \<noteq> IoDriverType \<or> 1 < refcount dob \<or> otype dob \<noteq> IoDeviceType \<longrightarrow>
         heap s2 b = heap s0 b" by blast
  have a0: "heap s0 a = Some ?ob" by (simp add: s0_def)
  have a2: "heap s2 a = Some ?ob" using s2(5) [rule_format, of a ?ob] a0 ne ty by auto
  have off: "a \<notin> set (DeviceList dd)" if "body_at s2 drv = Some (DRIVER dd)" for drv dd
    using that wf_ddkD [OF s2(2)] a2 body by (fastforce simp: body_at_iff obj_inv_def driver_ok_def)
  have step: "FreeByType (Dereference (Suc (Suc n))) ?ob a s0 = Inr ((), s2)"
    using ty body a0 rel(2) pos dty s2(1)
    by (simp add: FreeByType_def FreeFileObject_def GetFile_def FromPointer_def lookup_def bindS_def isPublicObject_def del: Dereference.simps)
  from FreeObject_after [OF a0 step s2(2) a2] off ob(2) obtain t where
    t: "FreeObject (Dereference (Suc (Suc n))) a s0 = Inr ((), t)" "wf_ddk t" "rest_same s2 t" "\<forall>b. b \<noteq> a \<longrightarrow> heap t b = heap s2 b"
      "heap t a = (if alloc ?ob then None else Some (?ob\<lparr>handle := None\<rparr>))" by auto
  have "Dereference (Suc (Suc (Suc n))) a s = Inr ((), t)"
    using Dereference_unfold [OF ob(1), of "Suc (Suc n)"] ob(2) t(1) by (simp add: s0_def del: Dereference.simps)
  moreover have "rest_same s t" using t(3) s2(3) by (simp add: rest_same_def s0_def)
  moreover have "dropped ob (heap t a)" using t(5) ob(2) by (auto simp: dropped_def)
  moreover have "dropped dob (heap t d)" using t(4) s2(4) ne by simp
  moreover have "heap t b = heap s b" if "b \<noteq> a" "b \<noteq> d" "heap s b = Some bob" "otype bob \<noteq> IoDriverType" for b bob
    using that t(4) s2(5) [rule_format, of b bob] by (simp add: s0_def)
  ultimately show ?thesis using t(2) dob(1) dty by blast
qed

text \<open>
  Dropping a reference the program holds: it always succeeds, keeps the invariant, the names and the other
  objects, except that a file that goes away gives back its device and a device that goes away its driver.
\<close>

lemma DdkDereferenceObject_ok:
  assumes wf: "wf_ddk s" and ob: "heap s a = Some ob" and spare: "int (held s a ob) < refcount ob"
  shows "\<exists>t. DdkDereferenceObject a s = Inr ((), t) \<and> wf_ddk t \<and> rest_same s t \<and> dropped ob (heap t a) \<and>
    (\<forall>b bob. b \<noteq> a \<longrightarrow> heap s b = Some bob \<longrightarrow>
       1 < refcount ob \<or> (otype bob \<noteq> IoDriverType \<or> otype ob \<noteq> IoDeviceType \<and> file_device ob = NullPtr) \<and> file_device ob \<noteq> PublicPtr b \<longrightarrow>
       heap t b = heap s b) \<and>
    (\<forall>d. file_device ob = PublicPtr d \<and> refcount ob = 1 \<longrightarrow> (\<exists>dob. heap s d = Some dob \<and> dropped dob (heap t d)))"
proof (cases "file_device ob = NullPtr \<or> 1 < refcount ob")
  case True
  from Dereference_chain [OF wf ob spare True, of 2] obtain t where
    t: "Dereference 4 a s = Inr ((), t)" "wf_ddk t" "rest_same s t" "dropped ob (heap t a)"
      "\<forall>b bob. b \<noteq> a \<longrightarrow> heap s b = Some bob \<longrightarrow> otype bob \<noteq> IoDriverType \<or> 1 < refcount ob \<or> otype ob \<noteq> IoDeviceType \<longrightarrow> heap t b = heap s b"
    by (auto simp: numeral_eq_Suc simp del: Dereference.simps)
  then show ?thesis using True by (auto simp: DdkDereferenceObject_def simp del: Dereference.simps)
next
  case False
  have "0 < refcount ob" using spare by linarith
  with False have one: "refcount ob = 1" by auto
  from False wf_ddkD [OF wf ob] obtain d where d: "file_device ob = PublicPtr d" by (auto simp: obj_inv_def file_ok_def)
  from Dereference_file [OF wf ob one d spare, of 1] obtain t dob where
    t: "Dereference 4 a s = Inr ((), t)" "wf_ddk t" "rest_same s t" "dropped ob (heap t a)" "heap s d = Some dob" "dropped dob (heap t d)"
      "\<forall>b bob. b \<noteq> a \<longrightarrow> b \<noteq> d \<longrightarrow> heap s b = Some bob \<longrightarrow> otype bob \<noteq> IoDriverType \<longrightarrow> heap t b = heap s b"
    by (auto simp: numeral_eq_Suc simp del: Dereference.simps)
  then show ?thesis using d one by (auto simp: DdkDereferenceObject_def simp del: Dereference.simps)
qed

section \<open>Names\<close>

definition same_name :: "WCHAR list \<Rightarrow> WCHAR list \<Rightarrow> bool" where
  "same_name p q \<longleftrightarrow> map towlower p = map towlower q"

text \<open>The abstract name space: the entry a path denotes.\<close>

definition find_name :: "DDK \<Rightarrow> WCHAR list \<Rightarrow> NAME option" where
  "find_name s path = List.find (\<lambda>e. same_name path (Name e)) (DdkNameList s)"

definition names_live :: "DDK \<Rightarrow> bool" where
  "names_live s \<longleftrightarrow> (\<forall>e \<in> set (DdkNameList s). name_ok (Name e) \<and> (\<exists>ob. heap s (Object e) = Some ob \<and> 0 < refcount ob))"

lemma wf_names_live: "wf_ddk s \<Longrightarrow> names_live s"
  using named_live by (auto simp: names_live_def wf_ddk_def)

lemma ustr_ok: "name_ok ws \<Longrightarrow> wf_string (ustr ws) \<and> even (Length (ustr ws)) \<and> chars (ustr ws) = ws"
proof -
  assume ok: "name_ok ws"
  have "take (2 * length ws) (bytes_of (ws @ [0])) = bytes_of ws" by (simp add: take_append)
  with ok show ?thesis
    by (auto simp: wf_string_def ustr_def mem_def chars_def contents_def name_ok_def)
qed

lemma NameMatches_same:
  assumes "name_ok p" "name_ok (Name e)" "irql s = PASSIVE_LEVEL"
  shows "NameMatches p e s = Inr (same_name p (Name e), s)"
proof -
  obtain r where "RtlCompareUnicodeString PASSIVE_LEVEL (ustr p) (ustr (Name e)) True = Inr r"
      "r = 0 \<longleftrightarrow> map towlower p = map towlower (Name e)"
    using RtlCompareUnicodeString_zero [of "ustr p" "ustr (Name e)" towlower True] ustr_ok [OF assms(1)] ustr_ok [OF assms(2)] assms(1)
    by (auto simp: name_ok_def)
  with assms(3) show ?thesis by (simp add: NameMatches_def same_name_def)
qed

lemma DdkFindName_finds:
  assumes "names_live s" "irql s = PASSIVE_LEVEL" "name_ok path"
  shows "DdkFindName path s = Inr (find_name s path, s)"
proof -
  have "FindName path es s = Inr (List.find (\<lambda>e. same_name path (Name e)) es, s)" if "set es \<subseteq> set (DdkNameList s)" for es
    using that
  proof (induction es)
    case (Cons e es)
    then obtain ob where "heap s (Object e) = Some ob" "0 < refcount ob" "name_ok (Name e)"
      using assms(1) by (auto simp: names_live_def)
    with Cons assms(2,3) show ?case by (simp add: NameMatches_same bindS_def lookup_def)
  qed simp
  then show ?thesis by (simp add: DdkFindName_def find_name_def)
qed

definition full_path :: "WCHAR list \<Rightarrow> WCHAR list \<Rightarrow> WCHAR list" where
  "full_path nm dir =
     (if dir \<noteq> [] \<and> hd nm \<noteq> 0x5C then dir @ (if last dir \<noteq> 0x5C then [0x5C] else []) else []) @ takeWhile (\<lambda>c. c \<noteq> 0) nm"

lemma DdkCreatePath_full:
  assumes "nm \<noteq> []" "0 < mem_left s" "name_ok (full_path nm dir)"
  shows "DdkCreatePath nm dir [] s = Inr (full_path nm dir, s\<lparr>mem_left := mem_left s - 1\<rparr>)"
proof -
  have len: "(length (full_path nm dir) + 1) * 2 \<le> 0xFFFE" using assms(3) by (simp add: name_ok_def)
  show ?thesis
    using assms(1,2) len
    by (cases "dir \<noteq> [] \<and> hd nm \<noteq> 0x5C") (auto simp: DdkCreatePath_def take_mem_def bindS_def full_path_def Let_def assertS_def)
qed

lemma find_name_mem [simp]: "find_name (s\<lparr>mem_left := m\<rparr>) p = find_name s p"
  "find_name (s\<lparr>heap := h\<rparr>) p = find_name s p"
  by (simp_all add: find_name_def)

lemma wf_mem_left [simp]: "wf_ddk (s\<lparr>mem_left := m\<rparr>) = wf_ddk s"
  by (simp add: wf_ddk_def obj_inv_def count_ok_def device_ok_def driver_ok_def file_ok_def held_def name_refs_def body_at_def)

lemma names_live_mem_left [simp]: "names_live (s\<lparr>mem_left := m\<rparr>) = names_live s"
  by (simp add: names_live_def)

text \<open>DdkLookupName returns the object the path denotes, with one more reference, and nothing else changes.\<close>

lemma DdkLookupName_finds:
  assumes wf: "wf_ddk s" and irql: "irql s = PASSIVE_LEVEL" and nm: "nm \<noteq> []" "name_ok (full_path nm dir)" and mem: "0 < mem_left s"
  shows "find_name s (full_path nm dir) = None \<Longrightarrow> DdkLookupName nm dir s = Inr (None, s\<lparr>mem_left := mem_left s - 1\<rparr>)"
    and "find_name s (full_path nm dir) = Some e \<Longrightarrow> heap s (Object e) = Some ob \<Longrightarrow> refcount ob < 2 ^ 31 - 1 \<Longrightarrow>
      DdkLookupName nm dir s = Inr (Some (Object e),
        s\<lparr>mem_left := mem_left s - 1, heap := (heap s)(Object e \<mapsto> ob\<lparr>refcount := refcount ob + 1\<rparr>)\<rparr>) \<and>
      wf_ddk (s\<lparr>mem_left := mem_left s - 1, heap := (heap s)(Object e \<mapsto> ob\<lparr>refcount := refcount ob + 1\<rparr>)\<rparr>)"
proof -
  let ?s = "s\<lparr>mem_left := mem_left s - 1\<rparr>"
  have find: "DdkFindName (full_path nm dir) ?s = Inr (find_name s (full_path nm dir), ?s)"
    using DdkFindName_finds [of ?s "full_path nm dir"] wf_names_live [OF wf] irql nm(2) by simp
  note path = DdkCreatePath_full [OF nm(1) mem nm(2)]
  show "find_name s (full_path nm dir) = None \<Longrightarrow> DdkLookupName nm dir s = Inr (None, ?s)"
    using path find by (simp add: DdkLookupName_def bindS_def)
  assume e: "find_name s (full_path nm dir) = Some e" "heap s (Object e) = Some ob" "refcount ob < 2 ^ 31 - 1"
  then have "e \<in> set (DdkNameList s)" by (auto simp: find_name_def find_Some_iff)
  from named_live [OF wf this] e(2) have "0 < refcount ob" by auto
  with DdkReferenceObject_ok [of ?s "Object e" ob] wf e path find
  show "DdkLookupName nm dir s = Inr (Some (Object e),
        s\<lparr>mem_left := mem_left s - 1, heap := (heap s)(Object e \<mapsto> ob\<lparr>refcount := refcount ob + 1\<rparr>)\<rparr>) \<and>
      wf_ddk (s\<lparr>mem_left := mem_left s - 1, heap := (heap s)(Object e \<mapsto> ob\<lparr>refcount := refcount ob + 1\<rparr>)\<rparr>)"
    by (simp add: DdkLookupName_def bindS_def)
qed

lemma wf_change_names:
  assumes wf: "wf_ddk s" and names: "\<And>e. e \<in> set ns \<Longrightarrow> heap s (Object e) \<noteq> None \<and> name_ok (Name e)"
    and fewer: "\<And>b. name_refs (s\<lparr>DdkNameList := ns\<rparr>) b \<le> name_refs s b"
  shows "wf_ddk (s\<lparr>DdkNameList := ns\<rparr>)"
proof -
  let ?t = "s\<lparr>DdkNameList := ns\<rparr>"
  have "body_at ?t = body_at s" by (simp add: body_at_def fun_eq_iff)
  moreover have "held ?t b ob \<le> held s b ob" for b ob using fewer [of b] by (simp add: held_def)
  ultimately have "obj_inv ?t b ob" if "obj_inv s b ob" for b ob
    using that by (intro obj_inv_fewer [of ?t s]) simp_all
  then show ?thesis using wf names by (auto simp: wf_ddk_def)
qed

lemma wf_add_name:
  assumes wf: "wf_ddk s" and ob: "heap s a = Some ob" "0 < refcount ob" "refcount ob < 2 ^ 31 - 1" and ok: "name_ok path"
    and t: "t = s\<lparr>DdkNameList := \<lparr>Name = path, Object = a\<rparr> # DdkNameList s, heap := (heap s)(a \<mapsto> ob\<lparr>refcount := refcount ob + 1\<rparr>)\<rparr>"
  shows "wf_ddk t"
proof -
  let ?ob = "ob\<lparr>refcount := refcount ob + 1\<rparr>"
  have inv: "obj_inv s a ob" using wf ob(1) by (rule wf_ddkD)
  have at: "body_at t = body_at s" using ob(1) by (auto simp: t body_at_def fun_eq_iff)
  have ty: "typed ?ob = typed ob" by (simp add: typed_def split: BODY.split)
  have refs: "file_refs t = file_refs s"
    using file_refs_same [OF ob(1), of ?ob t] ob(2) by (simp add: file_device_def t)
  have held_a: "held t a x = Suc (held s a x)" for x by (simp add: held_def refs) (simp add: t name_refs_def)
  have held_b: "held t b x = held s b x" if "b \<noteq> a" for b x
    using that by (simp add: held_def refs) (simp add: t name_refs_def)
  have hob: "held s a ?ob = held s a ob" by (simp add: held_def)
  have "obj_inv t a ?ob"
    using inv ob(2,3) ty held_a hob at by (auto simp: obj_inv_def count_ok_def device_ok_def driver_ok_def file_ok_def file_device_def t)
  moreover have "obj_inv t b x" if "b \<noteq> a" "heap s b = Some x" for b x
    using wf_ddkD [OF wf that(2)] held_b [OF that(1)] at by (simp add: obj_inv_def count_ok_def device_ok_def driver_ok_def file_ok_def t)
  moreover have "\<forall>e \<in> set (DdkNameList t). heap t (Object e) \<noteq> None \<and> name_ok (Name e)"
    using wf ok by (auto simp: wf_ddk_def t)
  ultimately show ?thesis by (auto simp: wf_ddk_def t split: if_splits)
qed

lemma remove_entry:
  assumes wf: "wf_ddk s" and i: "i < length (DdkNameList s)" "Object (DdkNameList s ! i) = a" and ob: "heap s a = Some ob"
    and t: "t = s\<lparr>DdkNameList := take i (DdkNameList s) @ drop (Suc i) (DdkNameList s)\<rparr>"
  shows "wf_ddk t" "Suc (held t a ob) = held s a ob" "Suc (name_refs t a) = name_refs s a"
proof -
  let ?ns = "DdkNameList s"
  have split: "?ns = take i ?ns @ ?ns ! i # drop (Suc i) ?ns" using i(1) by (rule id_take_nth_drop)
  have sub: "set (take i ?ns @ drop (Suc i) ?ns) \<subseteq> set ?ns" by (auto dest: in_set_takeD in_set_dropD)
  have refs: "name_refs s b = name_refs t b + (if b = a then 1 else 0)" for b
    using i(2) arg_cong [OF split, of "\<lambda>xs. length (filter (\<lambda>e. Object e = b) xs)"] by (simp add: name_refs_def t)
  then show "Suc (name_refs t a) = name_refs s a" by simp
  then show "Suc (held t a ob) = held s a ob" by (simp add: held_def t)
  have "name_refs t b \<le> name_refs s b" for b using refs [of b] by simp
  moreover have "heap s (Object e) \<noteq> None \<and> name_ok (Name e)" if "e \<in> set (take i ?ns @ drop (Suc i) ?ns)" for e
    using that sub wf by (auto simp: wf_ddk_def)
  ultimately show "wf_ddk t" unfolding t by (intro wf_change_names [OF wf]) auto
qed

text \<open>Removing the names of an object the program holds a reference to.\<close>

lemma RemoveNames_object:
  assumes "wf_ddk s" "heap s a = Some ob" "int (held s a ob) < refcount ob" "length (DdkNameList s) \<le> i + n" "i \<le> length (DdkNameList s)"
  shows "RemoveNames DdkDereferenceObject (\<lambda>e. ret (Object e = a)) n i s =
      Inr ((), s\<lparr>DdkNameList := take i (DdkNameList s) @ filter (\<lambda>e. Object e \<noteq> a) (drop i (DdkNameList s)),
                 heap := (heap s)(a \<mapsto> ob\<lparr>refcount := refcount ob - int (length (filter (\<lambda>e. Object e = a) (drop i (DdkNameList s))))\<rparr>)\<rparr>)"
  using assms
proof (induction n arbitrary: s i ob)
  case 0
  then have "i = length (DdkNameList s)" by simp
  with 0 show ?case by (simp add: fun_upd_idem)
next
  case (Suc n)
  let ?ns = "DdkNameList s"
  show ?case
  proof (cases "i < length ?ns")
    case False
    with Suc.prems show ?thesis by (simp add: fun_upd_idem)
  next
    case True
    have dropi: "drop i ?ns = ?ns ! i # drop (Suc i) ?ns" using True by (simp add: Cons_nth_drop_Suc)
    show ?thesis
    proof (cases "Object (?ns ! i) = a")
      case False
      with Suc.IH [OF Suc.prems(1-3), of "Suc i"] Suc.prems(4) True dropi show ?thesis
        by (simp add: take_Suc_conv_app_nth bindS_def)
    next
      case hit: True
      define s1 where "s1 = s\<lparr>DdkNameList := take i ?ns @ drop (Suc i) ?ns\<rparr>"
      note rm = remove_entry [OF Suc.prems(1) True hit Suc.prems(2) s1_def]
      have more: "1 < refcount ob" "int (held s1 a ob) < refcount ob" using rm(2) Suc.prems(3) by linarith+
      let ?ob = "ob\<lparr>refcount := refcount ob - 1\<rparr>"
      have ob1: "heap s1 a = Some ob" using Suc.prems(2) by (simp add: s1_def)
      define s2 where "s2 = s1\<lparr>heap := (heap s1)(a \<mapsto> ?ob)\<rparr>"
      have small: "refcount ob < 2 ^ 31" using wf_ddkD [OF Suc.prems(1,2)] by (simp add: obj_inv_def count_ok_def)
      have deref: "DdkDereferenceObject a s1 = Inr ((), s2)"
        using Dereference_unfold [OF ob1 _ small, of 3] more(1)
        by (simp add: DdkDereferenceObject_def numeral_eq_Suc s2_def del: Dereference.simps)
      have wf2: "wf_ddk s2" unfolding s2_def by (rule drop_wf [OF rm(1) ob1 more(2)])
      have names2: "DdkNameList s2 = take i ?ns @ drop (Suc i) ?ns" by (simp add: s1_def s2_def)
      have "file_refs s2 = file_refs s1"
        using file_refs_same [OF ob1, of ?ob s2] more(1) by (simp add: file_device_def s2_def)
      moreover have "name_refs s2 a = name_refs s1 a" by (simp add: name_refs_def s2_def)
      ultimately have held2: "int (held s2 a ?ob) < refcount ?ob"
        using rm(2) Suc.prems(3) by (simp add: held_def)
      have ob2: "heap s2 a = Some ?ob" by (simp add: s2_def)
      have len2: "length (DdkNameList s2) \<le> i + n" "i \<le> length (DdkNameList s2)"
        using Suc.prems(4) True by (simp_all add: names2)
      have drop2: "drop i (DdkNameList s2) = drop (Suc i) ?ns" "take i (DdkNameList s2) = take i ?ns"
        using True by (simp_all add: names2)
      have "RemoveNames DdkDereferenceObject (\<lambda>e. ret (Object e = a)) (Suc n) i s =
          RemoveNames DdkDereferenceObject (\<lambda>e. ret (Object e = a)) n i s2"
        using True hit deref by (simp add: bindS_def s1_def)
      also have "\<dots> = Inr ((), s2\<lparr>DdkNameList := take i ?ns @ filter (\<lambda>e. Object e \<noteq> a) (drop (Suc i) ?ns),
            heap := (heap s2)(a \<mapsto> ?ob\<lparr>refcount := refcount ?ob - int (length (filter (\<lambda>e. Object e = a) (drop (Suc i) ?ns)))\<rparr>)\<rparr>)"
        by (rule Suc.IH [OF wf2 ob2 held2 len2, unfolded drop2])
      also have "\<dots> = Inr ((), s\<lparr>DdkNameList := take i ?ns @ filter (\<lambda>e. Object e \<noteq> a) (drop i ?ns),
            heap := (heap s)(a \<mapsto> ob\<lparr>refcount := refcount ob - int (length (filter (\<lambda>e. Object e = a) (drop i ?ns)))\<rparr>)\<rparr>)"
        using hit by (simp add: dropi s1_def s2_def diff_diff_eq)
      finally show ?thesis .
    qed
  qed
qed

lemma DdkRemoveObjectName_ok:
  assumes "wf_ddk s" "heap s a = Some ob" "int (held s a ob) < refcount ob"
  defines "t \<equiv> s\<lparr>DdkNameList := filter (\<lambda>e. Object e \<noteq> a) (DdkNameList s),
                 heap := (heap s)(a \<mapsto> ob\<lparr>refcount := refcount ob - int (name_refs s a)\<rparr>)\<rparr>"
  shows "DdkRemoveObjectName a s = Inr ((), t)" "wf_ddk t"
proof -
  show "DdkRemoveObjectName a s = Inr ((), t)"
    using RemoveNames_object [OF assms(1-3), of 0 "length (DdkNameList s)"]
    by (simp add: DdkRemoveObjectName_def RemoveObjectName_def name_refs_def t_def)
  let ?s1 = "s\<lparr>DdkNameList := filter (\<lambda>e. Object e \<noteq> a) (DdkNameList s)\<rparr>"
  let ?ob = "ob\<lparr>refcount := refcount ob - int (name_refs s a)\<rparr>"
  have refs: "name_refs ?s1 b = (if b = a then 0 else name_refs s b)" for b
    by (auto simp: name_refs_def filter_filter filter_empty_conv intro!: arg_cong [of _ _ length] filter_cong)
  have wf1: "wf_ddk ?s1"
    using assms(1) refs by (intro wf_change_names) (auto simp: wf_ddk_def)
  have "obj_inv ?s1 a ob" using wf_ddkD [OF wf1, of a ob] assms(2) by simp
  then have "obj_inv ?s1 a ?ob"
    using assms(3) refs [of a] wf_ddkD [OF assms(1,2)]
    by (intro obj_inv_refcount) (auto simp: held_def obj_inv_def count_ok_def)
  moreover have "0 < refcount ob" using assms(3) by linarith
  ultimately show "wf_ddk t"
    using assms(2) by (intro wf_set_object [OF wf1, of a ob ?ob]) (auto simp: t_def file_device_def)
qed

end
