(* ===== verification/Namespace.thy ===== *)
theory Namespace
  imports Objects
begin

text \<open>
  What the object manager promises: reference counts never free an object that is still named or on a driver's list and
  never leave one behind that nobody holds; names are found again, whatever the case of their letters; a second object cannot
  take a name that is in use; and the life of symbolic links and of devices, with the two places where the code
  loses a reference.
\<close>

section \<open>Allocation\<close>

lemma fresh_addr: "wf_ddk s \<Longrightarrow> heap s (next_addr s) = None"
  by (cases "heap s (next_addr s)") (auto dest: wf_ddkD simp: obj_inv_def count_ok_def)

lemma unnamed_fresh: "wf_ddk s \<Longrightarrow> name_refs s (next_addr s) = 0"
  using fresh_addr [of s] by (auto simp: name_refs_def filter_empty_conv wf_ddk_def)

lemma unheld_fresh: "wf_ddk s \<Longrightarrow> file_refs s (next_addr s) = 0"
proof -
  assume wf: "wf_ddk s"
  have "holds s f \<noteq> PublicPtr (next_addr s)" for f
  proof (cases "heap s f")
    case (Some ob)
    with wf_ddkD [OF wf Some] fresh_addr [OF wf] show ?thesis
      by (auto simp: holds_def obj_inv_def file_ok_def body_at_iff)
  qed (simp add: holds_def)
  then show ?thesis by (simp add: file_refs_def)
qed

lemma file_refs_new:
  assumes "wf_ddk s" "heap t = (heap s)(next_addr s \<mapsto> ob)" "file_device ob = NullPtr"
  shows "file_refs t = file_refs s"
proof (rule file_refs_cong)
  have "holds s (next_addr s) = NullPtr" using fresh_addr [OF assms(1)] by (simp add: holds_def)
  with holds_upd [OF assms(2)] assms(3) show "holds t = holds s" by auto
qed

lemma wf_alloc:
  assumes wf: "wf_ddk s" and new: "typed ob" "refcount ob = 1" "handle ob = None" "link_of (body ob) = None" "file_device ob = NullPtr"
    and t: "t = s\<lparr>heap := (heap s)(next_addr s \<mapsto> ob), next_addr := next_addr s + 16, mem_left := m\<rparr>"
  shows "wf_ddk t"
proof -
  let ?a = "next_addr s"
  note fresh = fresh_addr [OF wf] unnamed_fresh [OF wf] unheld_fresh [OF wf]
  have refs: "file_refs t = file_refs s" by (rule file_refs_new [OF wf _ new(5)]) (simp add: t)
  have at: "body_at t = body_at s" using fresh(1) new(4) by (auto simp: t body_at_def fun_eq_iff)
  have nob: "body ob \<noteq> DEVICE d" "body ob \<noteq> DRIVER dd" for d dd using new(4) by auto
  have names: "name_refs t = name_refs s" by (simp add: name_refs_def fun_eq_iff t)
  have "held t ?a ob = 0" using fresh(2,3) nob by (simp add: held_def refs names split: BODY.split)
  then have "obj_inv t ?a ob"
    using new nob by (simp add: obj_inv_def count_ok_def device_ok_def driver_ok_def file_ok_def t)
  moreover have "obj_inv t b x" if "obj_inv s b x" for b x
    using that at by (auto simp: obj_inv_def count_ok_def device_ok_def driver_ok_def file_ok_def held_def refs names) (simp_all add: t)
  ultimately show ?thesis using wf by (auto simp: wf_ddk_def t)
qed

section \<open>Creating names\<close>

lemma DdkCreateName_runs:
  assumes live: "names_live s" and irql: "irql s = PASSIVE_LEVEL" and nm: "nm \<noteq> []" "name_ok (full_path nm dir)"
    and mem: "2 \<le> mem_left s" and ob: "heap s a = Some ob" "0 < refcount ob" "refcount ob < 2 ^ 31 - 1"
    and new: "find_name s (full_path nm dir) = None"
  shows "DdkCreateName nm a dir s = Inr ((a, full_path nm dir),
     s\<lparr>mem_left := mem_left s - 2, DdkNameList := \<lparr>Name = full_path nm dir, Object = a\<rparr> # DdkNameList s,
       heap := (heap s)(a \<mapsto> ob\<lparr>refcount := refcount ob + 1\<rparr>)\<rparr>)"
proof -
  let ?s1 = "s\<lparr>mem_left := mem_left s - Suc 0\<rparr>" and ?s2 = "s\<lparr>mem_left := mem_left s - 2\<rparr>"
  have path: "DdkCreatePath nm dir [] s = Inr (full_path nm dir, ?s1)"
    using mem DdkCreatePath_full [OF nm(1) _ nm(2), of s] by simp
  have take: "take_mem ''Unable to create name'' ?s1 = Inr ((), ?s2)"
    using mem by (simp add: take_mem_def numeral_2_eq_2)
  have find: "DdkFindName (full_path nm dir) ?s2 = Inr (None, ?s2)"
    using DdkFindName_finds [of ?s2 "full_path nm dir"] live irql nm(2) new by simp
  have "wrap32 (refcount ob + 1) = refcount ob + 1" using ob by (intro wrap32_small) auto
  then show ?thesis
    using nm(1) ob(1)
    by (simp add: DdkCreateName_def bindS_def assertS_def path take find DdkReferenceObject_def update_def)
qed

lemma DdkCreateName_new:
  assumes wf: "wf_ddk s" and irql: "irql s = PASSIVE_LEVEL" and nm: "nm \<noteq> []" "name_ok (full_path nm dir)"
    and mem: "2 \<le> mem_left s" and ob: "heap s a = Some ob" "0 < refcount ob" "refcount ob < 2 ^ 31 - 1"
    and new: "find_name s (full_path nm dir) = None"
  defines "t \<equiv> s\<lparr>mem_left := mem_left s - 2, DdkNameList := \<lparr>Name = full_path nm dir, Object = a\<rparr> # DdkNameList s,
             heap := (heap s)(a \<mapsto> ob\<lparr>refcount := refcount ob + 1\<rparr>)\<rparr>"
  shows "DdkCreateName nm a dir s = Inr ((a, full_path nm dir), t)" "wf_ddk t"
proof -
  show "DdkCreateName nm a dir s = Inr ((a, full_path nm dir), t)"
    unfolding t_def using wf_names_live [OF wf] assms(2-9) by (rule DdkCreateName_runs)
  have "wf_ddk (s\<lparr>mem_left := mem_left s - 2\<rparr>)" using wf by simp
  then show "wf_ddk t"
    by (rule wf_add_name [of _ a ob "full_path nm dir"]) (use ob nm(2) in \<open>simp_all add: t_def\<close>)
qed

lemma DdkCreateName_exists:
  assumes wf: "wf_ddk s" and irql: "irql s = PASSIVE_LEVEL" and nm: "nm \<noteq> []" "name_ok (full_path nm dir)"
    and mem: "2 \<le> mem_left s" and e: "find_name s (full_path nm dir) = Some e" "Object e \<noteq> a"
    and ob: "heap s a = Some ob" "refcount ob = 1" "alloc ob" "otype ob \<noteq> IoDeviceType \<and> file_device ob = NullPtr" "held s a ob = 0"
    and obe: "heap s (Object e) = Some obe" "refcount obe < 2 ^ 31 - 1"
  shows "\<exists>t. DdkCreateName nm a dir s = Inr ((Object e, Name e), t) \<and> wf_ddk t \<and>
    DdkNameList t = DdkNameList s \<and> mem_left t = mem_left s - 2 \<and> irql t = irql s \<and> next_addr t = next_addr s \<and>
    heap t = (heap s)(a := None, Object e \<mapsto> obe\<lparr>refcount := refcount obe + 1\<rparr>)"
proof -
  let ?s1 = "s\<lparr>mem_left := mem_left s - 1\<rparr>" and ?s2 = "s\<lparr>mem_left := mem_left s - 2\<rparr>"
  have path: "DdkCreatePath nm dir [] s = Inr (full_path nm dir, ?s1)"
    using mem by (intro DdkCreatePath_full nm) simp
  have take: "take_mem ''Unable to create name'' ?s1 = Inr ((), ?s2)"
    using mem by (simp add: take_mem_def numeral_2_eq_2)
  have find: "DdkFindName (full_path nm dir) ?s2 = Inr (Some e, ?s2)"
    using DdkFindName_finds [of ?s2 "full_path nm dir"] wf_names_live [OF wf] irql nm(2) e(1) by simp
  have "e \<in> set (DdkNameList s)" using e(1) by (auto simp: find_name_def find_Some_iff)
  from named_live [OF wf this] obe(1) have pos: "0 < refcount obe" by auto
  let ?s3 = "?s2\<lparr>heap := (heap ?s2)(Object e \<mapsto> obe\<lparr>refcount := refcount obe + 1\<rparr>)\<rparr>"
  have wf2: "wf_ddk ?s2" using wf by simp
  have ref: "DdkReferenceObject (Object e) ?s2 = Inr ((), ?s3)" "wf_ddk ?s3"
    using DdkReferenceObject_ok [OF wf2, of "Object e" obe] obe pos by simp_all
  have ob3: "heap ?s3 a = Some ob" using ob(1) e(2) by simp
  have "file_refs ?s3 = file_refs ?s2"
    using file_refs_same [of ?s2 "Object e" obe _ ?s3] obe(1) pos by (simp add: file_device_def)
  then have "held ?s3 a ob = 0" using ob(5) by (simp add: held_def name_refs_def)
  with Dereference_plain [OF ref(2) ob3, of 3] ob obtain t where
    t: "DdkDereferenceObject a ?s3 = Inr ((), t)" "wf_ddk t" "rest_same ?s3 t" "\<forall>b. b \<noteq> a \<longrightarrow> heap t b = heap ?s3 b" "dropped ob (heap t a)"
    by (auto simp: DdkDereferenceObject_def numeral_eq_Suc simp del: Dereference.simps)
  have "heap t = (heap s)(a := None, Object e \<mapsto> obe\<lparr>refcount := refcount obe + 1\<rparr>)"
    using t(4,5) ob(2,3) e(2) by (auto simp: fun_eq_iff dropped_def)
  moreover have "DdkCreateName nm a dir s = Inr ((Object e, Name e), t)"
    using nm(1) path take find ref(1) t(1) by (simp add: DdkCreateName_def bindS_def assertS_def)
  ultimately show ?thesis using t(2,3) by (auto simp: rest_same_def)
qed

text \<open>A name that is in use: the new object is given up and everything else is as it was.\<close>

lemma DdkInsertName_exists:
  assumes wf: "wf_ddk s" and irql: "irql s = PASSIVE_LEVEL" and nm: "nm \<noteq> []" "name_ok (full_path nm dir)"
    and mem: "2 \<le> mem_left s" and e: "find_name s (full_path nm dir) = Some e" "Object e \<noteq> a"
    and ob: "heap s a = Some ob" "refcount ob = 1" "alloc ob" "otype ob \<noteq> IoDeviceType \<and> file_device ob = NullPtr" "held s a ob = 0"
    and obe: "heap s (Object e) = Some obe" "refcount obe < 2 ^ 31 - 1"
  shows "\<exists>t. DdkInsertName nm a dir s = Inr ((False, Name e), t) \<and> wf_ddk t \<and>
    DdkNameList t = DdkNameList s \<and> heap t = (heap s)(a := None)"
proof -
  obtain t1 where t1: "DdkCreateName nm a dir s = Inr ((Object e, Name e), t1)" "wf_ddk t1" "DdkNameList t1 = DdkNameList s"
      "heap t1 = (heap s)(a := None, Object e \<mapsto> obe\<lparr>refcount := refcount obe + 1\<rparr>)"
    using DdkCreateName_exists [OF assms] by blast
  let ?obe = "obe\<lparr>refcount := refcount obe + 1\<rparr>"
  have "e \<in> set (DdkNameList s)" using e(1) by (auto simp: find_name_def find_Some_iff)
  from named_live [OF wf this] obe(1) have pos: "0 < refcount obe" by auto
  have he: "heap t1 (Object e) = Some ?obe" using t1(4) by simp
  have "holds t1 f = holds s f" for f
    using t1(4) ob(1,2,4) obe(1) pos e(2) by (simp add: holds_def file_device_def)
  then have "file_refs t1 = file_refs s" by (intro file_refs_cong) blast
  then have "held t1 (Object e) ?obe = held s (Object e) obe" using t1(3) by (simp add: held_def name_refs_def)
  then have "int (held t1 (Object e) ?obe) < refcount ?obe"
    using wf_ddkD [OF wf obe(1)] by (simp add: obj_inv_def count_ok_def)
  from Dereference_plain [OF t1(2) he this, of 3] pos obtain t where
    t: "DdkDereferenceObject (Object e) t1 = Inr ((), t)" "wf_ddk t" "rest_same t1 t"
      "\<forall>b. b \<noteq> Object e \<longrightarrow> heap t b = heap t1 b" "dropped ?obe (heap t (Object e))"
    by (auto simp: DdkDereferenceObject_def numeral_eq_Suc simp del: Dereference.simps)
  have "obe\<lparr>refcount := refcount obe\<rparr> = obe" by simp
  then have "heap t x = ((heap s)(a := None)) x" for x
    using t(4,5) t1(4) e(2) obe(1) pos by (cases "x = Object e") (auto simp: dropped_def)
  then have "heap t = (heap s)(a := None)" by blast
  with t t1 e(2) show ?thesis by (auto simp: DdkInsertName_def bindS_def rest_same_def)
qed

section \<open>Symbolic links\<close>

lemma full_path_root: "name_ok nm \<Longrightarrow> full_path nm [] = nm"
  by (auto simp: full_path_def name_ok_def takeWhile_eq_all_conv)

definition link_object :: "WCHAR list \<Rightarrow> int \<Rightarrow> OBJECT" where
  "link_object dest n = \<lparr>otype = IoSymbolicLinkType, alloc = True, refcount = n, handle = None, body = SYMLINK dest True\<rparr>"

lemma alloc_link:
  assumes wf: "wf_ddk s" and mem: "0 < mem_left s"
    and t_def: "t = s\<lparr>heap := (heap s)(next_addr s \<mapsto> link_object dest 1), next_addr := next_addr s + 16, mem_left := mem_left s - 1\<rparr>"
  shows "DdkAllocObject (SYMLINK dest True) IoSymbolicLinkType True s = Inr (Some (next_addr s), t)" "wf_ddk t"
    "held t (next_addr s) (link_object dest 1) = 0" "find_name t p = find_name s p"
proof -
  show "DdkAllocObject (SYMLINK dest True) IoSymbolicLinkType True s = Inr (Some (next_addr s), t)"
    using mem by (simp add: DdkAllocObject_def t_def link_object_def)
  show "wf_ddk t" using wf_alloc [OF wf, of "link_object dest 1" t "mem_left s - 1"] by (simp add: t_def link_object_def typed_def file_device_def)
  have "file_refs t = file_refs s" 
    by (rule file_refs_new [OF wf, of t "link_object dest 1"]) (simp_all add: t_def link_object_def file_device_def)
  then show "held t (next_addr s) (link_object dest 1) = 0"
    using unnamed_fresh [OF wf] unheld_fresh [OF wf] by (simp add: held_def) (simp add: name_refs_def t_def link_object_def)
  show "find_name t p = find_name s p" by (simp add: find_name_def t_def)
qed

lemma IoCreateSymbolicLink_new:
  assumes wf: "wf_ddk s" and irql: "irql s = PASSIVE_LEVEL" and nm: "nm \<noteq> []" "name_ok nm" and dest: "dest \<noteq> []" "name_ok dest"
    and mem: "3 \<le> mem_left s" and new: "find_name s nm = None"
  defines "t \<equiv> s\<lparr>next_addr := next_addr s + 16, mem_left := mem_left s - 3,
      DdkNameList := \<lparr>Name = nm, Object = next_addr s\<rparr> # DdkNameList s, heap := (heap s)(next_addr s \<mapsto> link_object dest 2)\<rparr>"
  shows "IoCreateSymbolicLink nm dest s = Inr (STATUS_SUCCESS, t)" "wf_ddk t"
proof -
  let ?a = "next_addr s"
  define s1 where "s1 = s\<lparr>heap := (heap s)(?a \<mapsto> link_object dest 1), next_addr := ?a + 16, mem_left := mem_left s - 1\<rparr>"
  have tk: "takeWhile (\<lambda>c. c \<noteq> 0) dest = dest" using dest(2) by (auto simp: name_ok_def takeWhile_eq_all_conv)
  have "0 < mem_left s" using mem by simp
  note al = alloc_link [OF wf this s1_def]
  have fp: "full_path nm [] = nm" using nm(2) by (rule full_path_root)
  have t_eq: "t = s1\<lparr>mem_left := mem_left s1 - 2, DdkNameList := \<lparr>Name = full_path nm [], Object = ?a\<rparr> # DdkNameList s1,
             heap := (heap s1)(?a \<mapsto> link_object dest 1\<lparr>refcount := refcount (link_object dest 1) + 1\<rparr>)\<rparr>"
    using mem fp by (simp add: t_def s1_def link_object_def)
  have "irql s1 = PASSIVE_LEVEL" "name_ok (full_path nm [])" "2 \<le> mem_left s1" "heap s1 ?a = Some (link_object dest 1)"
      "0 < refcount (link_object dest 1)" "refcount (link_object dest 1) < 2 ^ 31 - 1" "find_name s1 (full_path nm []) = None"
    using irql nm(2) mem new fp al(4) by (simp_all add: s1_def link_object_def)
  from DdkCreateName_new [OF al(2) this(1) nm(1) this(2-7), folded t_eq]
  have cr: "DdkCreateName nm ?a [] s1 = Inr ((?a, nm), t)" "wf_ddk t" using fp by simp_all
  show "wf_ddk t" by (rule cr(2))
  have "length dest \<le> 0x7FFE" using dest(2) by (simp add: name_ok_def)
  then show "IoCreateSymbolicLink nm dest s = Inr (STATUS_SUCCESS, t)"
    using nm(1) dest(1) al(1) cr(1)
    by (simp add: IoCreateSymbolicLink_def DdkInsertName_def bindS_def assertS_def tk)
qed

lemma IoCreateSymbolicLink_exists:
  assumes wf: "wf_ddk s" and irql: "irql s = PASSIVE_LEVEL" and nm: "nm \<noteq> []" "name_ok nm" and dest: "dest \<noteq> []" "name_ok dest"
    and mem: "3 \<le> mem_left s" and e: "find_name s nm = Some e" "heap s (Object e) = Some obe" "refcount obe < 2 ^ 31 - 1"
  shows "\<exists>t. IoCreateSymbolicLink nm dest s = Inr (STATUS_OBJECT_NAME_EXISTS, t) \<and> wf_ddk t \<and> heap t = heap s \<and> DdkNameList t = DdkNameList s"
proof -
  let ?a = "next_addr s"
  define s1 where "s1 = s\<lparr>heap := (heap s)(?a \<mapsto> link_object dest 1), next_addr := ?a + 16, mem_left := mem_left s - 1\<rparr>"
  have tk: "takeWhile (\<lambda>c. c \<noteq> 0) dest = dest" using dest(2) by (auto simp: name_ok_def takeWhile_eq_all_conv)
  have "0 < mem_left s" using mem by simp
  note al = alloc_link [OF wf this s1_def]
  have fp: "full_path nm [] = nm" using nm(2) by (rule full_path_root)
  have ne: "Object e \<noteq> ?a" using e(2) fresh_addr [OF wf] by auto
  have "2 \<le> mem_left s - Suc 0" using mem by linarith
  with DdkInsertName_exists [OF al(2), of nm "[]" e ?a "link_object dest 1" obe] irql nm mem e ne fp al(3,4)
  obtain t where t: "DdkInsertName nm ?a [] s1 = Inr ((False, Name e), t)" "wf_ddk t" "DdkNameList t = DdkNameList s1"
      "heap t = (heap s1)(?a := None)"
    by (auto simp: s1_def link_object_def file_device_def)
  have "heap t = heap s" using t(4) fresh_addr [OF wf] by (auto simp: s1_def fun_eq_iff)
  moreover have "length dest \<le> 0x7FFE" using dest(2) by (simp add: name_ok_def)
  ultimately show ?thesis
    using nm(1) dest(1) al(1) t by (simp add: IoCreateSymbolicLink_def bindS_def assertS_def tk s1_def)
qed

lemma IoDeleteSymbolicLink_ok:
  assumes wf: "wf_ddk s" and irql: "irql s = PASSIVE_LEVEL" and nm: "nm \<noteq> []" "name_ok nm" and mem: "0 < mem_left s"
    and e: "find_name s nm = Some e" "Object e = a" "heap s a = Some ob" "refcount ob < 2 ^ 31 - 1" "otype ob = IoSymbolicLinkType"
    and spare: "int (held s a ob) < refcount ob"
  defines "t \<equiv> s\<lparr>mem_left := mem_left s - 1, DdkNameList := filter (\<lambda>e. Object e \<noteq> a) (DdkNameList s),
      heap := (heap s)(a \<mapsto> ob\<lparr>refcount := refcount ob - int (name_refs s a)\<rparr>)\<rparr>"
  shows "IoDeleteSymbolicLink nm s = Inr (STATUS_SUCCESS, t)"
proof -
  let ?ob1 = "ob\<lparr>refcount := refcount ob + 1\<rparr>"
  let ?s1 = "s\<lparr>mem_left := mem_left s - 1, heap := (heap s)(a \<mapsto> ?ob1)\<rparr>"
  have look: "DdkLookupName nm [] s = Inr (Some a, ?s1)" "wf_ddk ?s1"
    using DdkLookupName_finds(2) [OF wf irql nm(1) _ mem, of "[]" e ob] full_path_root [OF nm(2)] nm(2) e by auto
  have refs: "name_refs ?s1 a = name_refs s a" by (simp add: name_refs_def)
  have h1: "heap ?s1 a = Some ?ob1" by simp
  have "0 < refcount ob" using spare by linarith
  then have fr: "file_refs ?s1 = file_refs s"
    using file_refs_same [OF e(3), of ?ob1 ?s1] by (simp add: file_device_def)
  have sp1: "int (held ?s1 a ?ob1) < refcount ?ob1" using spare fr by (simp add: held_def name_refs_def)
  let ?ob2 = "?ob1\<lparr>refcount := refcount ?ob1 - int (name_refs ?s1 a)\<rparr>"
  let ?s2 = "?s1\<lparr>DdkNameList := filter (\<lambda>e. Object e \<noteq> a) (DdkNameList ?s1), heap := (heap ?s1)(a \<mapsto> ?ob2)\<rparr>"
  note rm = DdkRemoveObjectName_ok [OF look(2) h1 sp1]
  have more: "1 < refcount ?ob2" using spare refs by (simp add: held_def)
  have small: "refcount ?ob2 < 2 ^ 31" using e(4) by simp
  have h2: "heap ?s2 a = Some ?ob2" by simp
  have "DdkDereferenceObject a ?s2 = Inr ((), t)"
    using Dereference_unfold [OF h2 _ small, of 3] more refs
    by (simp add: DdkDereferenceObject_def numeral_eq_Suc t_def del: Dereference.simps)
  then show ?thesis
    using nm(1) look(1) rm(1) e(5) by (simp add: IoDeleteSymbolicLink_def bindS_def assertS_def lookup_def)
qed

section \<open>Following links\<close>

text \<open>One turn of the loop for a link that leads to itself: only the memory used for the path changes.\<close>

lemma ResolveLoop_self:
  assumes wf: "wf_ddk s" and irql: "irql s = PASSIVE_LEVEL" and dest: "dest \<noteq> []" "name_ok dest"
    and e: "find_name s dest = Some e" "Object e = a" "heap s a = Some ob" "body ob = SYMLINK dest True" "otype ob = IoSymbolicLinkType"
    and n: "refcount ob < 2 ^ 31 - 1" and mem: "0 < mem_left s"
  shows "ResolveLoop (Suc m) (Some a) s = ResolveLoop m (Some a) (s\<lparr>mem_left := mem_left s - 1\<rparr>)"
proof -
  let ?ob1 = "ob\<lparr>refcount := refcount ob + 1\<rparr>"
  let ?s1 = "s\<lparr>mem_left := mem_left s - 1, heap := (heap s)(a \<mapsto> ?ob1)\<rparr>"
  have look: "DdkLookupName dest [] s = Inr (Some a, ?s1)"
    using DdkLookupName_finds(2) [OF wf irql dest(1) _ mem, of "[]" e ob] full_path_root [OF dest(2)] dest(2) e n by auto
  have "e \<in> set (DdkNameList s)" using e(1) by (auto simp: find_name_def find_Some_iff)
  from named_live [OF wf this] e(2,3) have pos: "0 < refcount ob" by auto
  have h1: "heap ?s1 a = Some ?ob1" by simp
  have "refcount ?ob1 < 2 ^ 31" "0 < refcount ?ob1" "refcount ?ob1 \<noteq> 1" using n pos by simp_all
  then have "Dereference 4 a ?s1 = Inr ((), s\<lparr>mem_left := mem_left s - 1\<rparr>)"
    using Dereference_unfold [OF h1, of 3] e(3) by (simp add: numeral_eq_Suc fun_upd_idem del: Dereference.simps)
  then have "ObDereferenceObject (HeaderPtr a) ?s1 = Inr (0, s\<lparr>mem_left := mem_left s - 1\<rparr>)"
    using irql pos by (simp add: ObDereferenceObject_def ObfDereferenceObjectWithTag_def FromPointer_def lookup_def bindS_def
        assertS_def DdkDereferenceObject_def del: Dereference.simps)
  with look e(3-5) show ?thesis by (simp add: lookup_def bindS_def)
qed

lemma ResolveLoop_self_fails:
  assumes "wf_ddk s" "irql s = PASSIVE_LEVEL" "dest \<noteq> []" "name_ok dest"
    "find_name s dest = Some e" "Object e = a" "heap s a = Some ob" "body ob = SYMLINK dest True" "otype ob = IoSymbolicLinkType"
    "refcount ob < 2 ^ 31 - 1" "m \<le> mem_left s"
  shows "ResolveLoop m (Some a) s = Inl (DdkFail ''Recursive Symbolic Link'')"
  using assms
proof (induction m arbitrary: s)
  case 0
  then show ?case by (simp add: lookup_def bindS_def)
next
  case (Suc m)
  let ?s = "s\<lparr>mem_left := mem_left s - 1\<rparr>"
  have "ResolveLoop (Suc m) (Some a) s = ResolveLoop m (Some a) ?s"
    using Suc.prems by (intro ResolveLoop_self) auto
  moreover have "ResolveLoop m (Some a) ?s = Inl (DdkFail ''Recursive Symbolic Link'')"
    using Suc.prems by (intro Suc.IH) auto
  ultimately show ?case by simp
qed

section \<open>Devices\<close>

lemma wf_add_device:
  assumes wf: "wf_ddk s" and drv: "heap s drv = Some dob" "body dob = DRIVER dd" "refcount dob < 2 ^ 31 - 1"
    and dev: "body dev = DEVICE d" "DriverObject d = PublicPtr drv" "refcount dev = 2" "handle dev = None" "otype dev = IoDeviceType"
    and path: "name_ok path"
    and t: "t = s\<lparr>next_addr := next_addr s + 16, mem_left := m, DdkNameList := \<lparr>Name = path, Object = next_addr s\<rparr> # DdkNameList s,
      heap := (heap s)(next_addr s \<mapsto> dev,
        drv \<mapsto> dob\<lparr>body := DRIVER (dd\<lparr>DeviceList := DeviceList dd @ [next_addr s]\<rparr>), refcount := refcount dob + 1\<rparr>)\<rparr>"
  shows "wf_ddk t"
proof -
  let ?a = "next_addr s"
  let ?dd = "dd\<lparr>DeviceList := DeviceList dd @ [?a]\<rparr>"
  let ?dob = "dob\<lparr>body := DRIVER ?dd, refcount := refcount dob + 1\<rparr>"
  note fresh = fresh_addr [OF wf] unnamed_fresh [OF wf] unheld_fresh [OF wf]
  have ne: "drv \<noteq> ?a" using drv(1) fresh(1) by auto
  have "holds t f = holds s f" for f
    using drv(1,2) dev(1) fresh(1) ne by (simp add: holds_def t file_device_def)
  then have refs: "file_refs t = file_refs s" by (intro file_refs_cong) blast
  have dinv: "obj_inv s drv dob" using wf drv(1) by (rule wf_ddkD)
  have off: "?a \<notin> set (DeviceList dd)" using dinv drv(2) fresh(1) by (auto simp: obj_inv_def driver_ok_def body_at_iff)
  have at: "body_at t x = body_at s x" if "x \<noteq> ?a" "x \<noteq> drv" for x using that by (simp add: t body_at_def)
  have atd: "body_at t drv = Some (DRIVER ?dd)" by (simp add: t body_at_def)
  have dev_at: "body_at t x = Some (DEVICE y)" if "body_at s x = Some (DEVICE y)" for x y
    using that at fresh(1) drv(1,2) by (cases "x = drv"; cases "x = ?a") (auto simp: body_at_iff)
  have held: "held t b ob = (if b = ?a then 1 else 0) + held s b ob" for b ob
    by (simp add: held_def refs) (simp add: t name_refs_def)
  have "obj_inv t b ob" if b: "heap t b = Some ob" for b ob
  proof -
    consider "b = ?a" "ob = dev" | "b = drv" "ob = ?dob" "b \<noteq> ?a" | "b \<noteq> ?a" "b \<noteq> drv" "heap s b = Some ob"
      using b ne by (auto simp: t split: if_splits)
    then show ?thesis
    proof cases
      case 1
      have "held s ?a dev = 0" using fresh(2,3) dev(1) by (simp add: held_def)
      with 1 dev atd held [of ?a dev] show ?thesis
        by (auto simp: obj_inv_def count_ok_def device_ok_def driver_ok_def file_ok_def file_device_def typed_def t)
    next
      case 2
      have "held t drv ?dob = Suc (held s drv dob)" using held [of drv ?dob] ne drv(2) by (simp add: held_def)
      with dinv drv(2,3) have "count_ok t drv ?dob" by (auto simp: obj_inv_def count_ok_def typed_def t)
      moreover have "driver_ok t drv ?dob"
      proof -
        have "\<exists>y. body_at t ?a = Some (DEVICE y) \<and> DriverObject y = PublicPtr drv" using dev ne by (auto simp: t body_at_def)
        moreover have "\<exists>y. body_at t x = Some (DEVICE y) \<and> DriverObject y = PublicPtr drv" if "x \<in> set (DeviceList dd)" for x
          using dinv drv(2) that dev_at unfolding obj_inv_def driver_ok_def by metis
        moreover have "distinct (DeviceList dd)" using dinv drv(2) by (auto simp: obj_inv_def driver_ok_def)
        ultimately show ?thesis using off by (simp add: driver_ok_def)
      qed
      ultimately show ?thesis using 2 by (simp add: obj_inv_def device_ok_def file_ok_def file_device_def)
    next
      case 3
      from wf_ddkD [OF wf 3(3)] have inv: "count_ok s b ob" "device_ok s b ob" "driver_ok s b ob" "file_ok s ob"
        by (simp_all add: obj_inv_def)
      have "count_ok t b ob" using inv(1) held [of b ob] 3(1) by (simp add: count_ok_def t)
      moreover have "driver_ok t b ob" using inv(3) dev_at unfolding driver_ok_def by metis
      moreover have "file_ok t ob" using inv(4) dev_at unfolding file_ok_def by metis
      moreover have "device_ok t b ob"
      proof (unfold device_ok_def, intro allI impI)
        fix y assume "body ob = DEVICE y" "0 < refcount ob"
        with inv(2) obtain drv' dd' where x: "DriverObject y = PublicPtr drv'" "body_at s drv' = Some (DRIVER dd')" "b \<in> set (DeviceList dd')"
          by (auto simp: device_ok_def)
        show "\<exists>drv dd. DriverObject y = PublicPtr drv \<and> body_at t drv = Some (DRIVER dd) \<and> b \<in> set (DeviceList dd)"
        proof (cases "drv' = drv")
          case True
          with x drv(1,2) have "dd' = dd" by (auto simp: body_at_iff)
          with x True atd show ?thesis by auto
        next
          case False
          have "drv' \<noteq> ?a" using x(2) fresh(1) by (auto simp: body_at_iff)
          with x False at [of drv'] show ?thesis by auto
        qed
      qed
      ultimately show ?thesis by (simp add: obj_inv_def)
    qed
  qed
  moreover have "\<forall>e \<in> set (DdkNameList t). heap t (Object e) \<noteq> None \<and> name_ok (Name e)"
    using wf path by (auto simp: wf_ddk_def t)
  ultimately show ?thesis by (simp add: wf_ddk_def)
qed

definition new_device :: "PVOID \<Rightarrow> nat \<Rightarrow> nat \<Rightarrow> WCHAR list \<Rightarrow> OBJECT" where
  "new_device drv ty charac path = \<lparr>otype = IoDeviceType, alloc = True, refcount = 2, handle = None,
     body = DEVICE \<lparr>DriverObject = drv, DeviceType = ty, Characteristics = charac, DeviceName = Some path\<rparr>\<rparr>"

lemma IoCreateDevice_new:
  assumes wf: "wf_ddk s" and irql: "irql s = PASSIVE_LEVEL" and nm: "nm \<noteq> []" "name_ok (full_path nm device_dir)"
      "full_path nm device_dir \<noteq> []"
    and mem: "3 \<le> mem_left s" and drv: "heap s drv = Some dob" "body dob = DRIVER dd" "0 < refcount dob" "refcount dob < 2 ^ 31 - 1"
    and new: "find_name s (full_path nm device_dir) = None"
    and path_def: "path = full_path nm device_dir"
    and t_def: "t = s\<lparr>next_addr := next_addr s + 16, mem_left := mem_left s - 3, DdkNameList := \<lparr>Name = path, Object = next_addr s\<rparr> # DdkNameList s,
      heap := (heap s)(next_addr s \<mapsto> new_device (PublicPtr drv) ty charac path,
        drv \<mapsto> dob\<lparr>body := DRIVER (dd\<lparr>DeviceList := DeviceList dd @ [next_addr s]\<rparr>), refcount := refcount dob + 1\<rparr>)\<rparr>"
  shows "IoCreateDevice (PublicPtr drv) (Some nm) ty charac s = Inr ((STATUS_SUCCESS, Some (PublicPtr (next_addr s))), t)" "wf_ddk t"
proof -
  let ?a = "next_addr s"
  let ?dev0 = "\<lparr>otype = IoDeviceType, alloc = True, refcount = 1, handle = None,
     body = DEVICE \<lparr>DriverObject = PublicPtr drv, DeviceType = ty, Characteristics = charac, DeviceName = None\<rparr>\<rparr>"
  define s1 where "s1 = s\<lparr>heap := (heap s)(?a \<mapsto> ?dev0), next_addr := ?a + 16, mem_left := mem_left s - Suc 0\<rparr>"
  have ne: "drv \<noteq> ?a" using drv(1) fresh_addr [OF wf] by auto
  have live: "names_live s1"
    using wf_names_live [OF wf] fresh_addr [OF wf] by (auto simp: names_live_def s1_def)
  have find: "find_name s1 path = None" using new by (simp add: find_name_def s1_def path_def)
  have cr: "DdkCreateName nm ?a device_dir s1 = Inr ((?a, path), s1\<lparr>mem_left := mem_left s1 - 2,
       DdkNameList := \<lparr>Name = path, Object = ?a\<rparr> # DdkNameList s1, heap := (heap s1)(?a \<mapsto> ?dev0\<lparr>refcount := refcount ?dev0 + 1\<rparr>)\<rparr>)"
    unfolding path_def
    using live irql nm mem find by (intro DdkCreateName_runs) (auto simp: s1_def path_def)
  have ty: "otype dob = IoDriverType" "isPublicObject dob"
    using wf_ddkD [OF wf drv(1)] drv(2) by (simp_all add: obj_inv_def count_ok_def typed_def isPublicObject_def)
  have wrap: "wrap32 (refcount dob + 1) = refcount dob + 1" using drv by (intro wrap32_small) auto
  have alloc: "DdkAllocObject (DEVICE \<lparr>DriverObject = PublicPtr drv, DeviceType = ty, Characteristics = charac, DeviceName = None\<rparr>)
      IoDeviceType True s = Inr (Some ?a, s1)" using mem by (simp add: DdkAllocObject_def s1_def)
  let ?b = "DEVICE \<lparr>DriverObject = PublicPtr drv, DeviceType = ty, Characteristics = charac, DeviceName = Some path\<rparr>"
  define s3 where "s3 = s\<lparr>next_addr := ?a + 16, mem_left := mem_left s - 3,
      DdkNameList := \<lparr>Name = path, Object = ?a\<rparr> # DdkNameList s, heap := (heap s)(?a \<mapsto> new_device (PublicPtr drv) ty charac path)\<rparr>"
  obtain s2 where s2: "DdkInsertName nm ?a device_dir s1 = Inr ((True, path), s2)" "update ?a (\<lambda>ob. ob\<lparr>body := ?b\<rparr>) s2 = Inr ((), s3)"
    using cr by (simp add: DdkInsertName_def bindS_def update_def s1_def s3_def new_device_def)
  have add: "DdkAddDevice (PublicPtr drv) ?a s3 = Inr ((), t)"
    using drv ty ne wrap
    by (simp add: DdkAddDevice_def FromPointer_def GetDriver_def lookup_def update_def bindS_def DdkReferenceObject_def s3_def t_def)
  show "IoCreateDevice (PublicPtr drv) (Some nm) ty charac s = Inr ((STATUS_SUCCESS, Some (PublicPtr ?a)), t)"
    using irql nm(3) by (simp add: IoCreateDevice_def bindS_def assertS_def alloc s2 add path_def [symmetric])
  have wf': "name_ok path" using nm(2) by (simp add: path_def)
  show "wf_ddk t"
    by (rule wf_add_device [OF wf drv(1,2,4), of "new_device (PublicPtr drv) ty charac path"
          "\<lparr>DriverObject = PublicPtr drv, DeviceType = ty, Characteristics = charac, DeviceName = Some path\<rparr>" path])
      (use wf' in \<open>simp_all add: t_def new_device_def\<close>)
qed

lemma IoDeleteDevice_ok:
  assumes wf: "wf_ddk s" and irql: "irql s \<le> APC_LEVEL" and dev: "heap s a = Some ob" "otype ob = IoDeviceType" "alloc ob"
    and n: "refcount ob = int (name_refs s a) + 1" and closed: "file_refs s a = 0"
  shows "\<exists>t d drv dob dd. IoDeleteDevice (PublicPtr a) s = Inr ((), t) \<and> wf_ddk t \<and> heap t a = None \<and>
    DdkNameList t = filter (\<lambda>e. Object e \<noteq> a) (DdkNameList s) \<and>
    body ob = DEVICE d \<and> DriverObject d = PublicPtr drv \<and> drv \<noteq> a \<and> heap s drv = Some dob \<and> body dob = DRIVER dd \<and>
    dropped (dob\<lparr>body := DRIVER (dd\<lparr>DeviceList := remove1 a (DeviceList dd)\<rparr>)\<rparr>) (heap t drv) \<and>
    (\<forall>b. b \<noteq> a \<longrightarrow> b \<noteq> drv \<longrightarrow> heap t b = heap s b)"
proof -
  have inv: "obj_inv s a ob" using wf dev(1) by (rule wf_ddkD)
  then obtain d where d: "body ob = DEVICE d" using dev(2) by (auto simp: obj_inv_def count_ok_def typed_def split: BODY.splits)
  have held: "int (held s a ob) < refcount ob" using d n closed by (simp add: held_def)
  let ?ob1 = "ob\<lparr>refcount := refcount ob - int (name_refs s a)\<rparr>"
  define s1 where "s1 = s\<lparr>DdkNameList := filter (\<lambda>e. Object e \<noteq> a) (DdkNameList s), heap := (heap s)(a \<mapsto> ?ob1)\<rparr>"
  note rm = DdkRemoveObjectName_ok [OF wf dev(1) held, folded s1_def]
  have h1: "heap s1 a = Some ?ob1" by (simp add: s1_def)
  have "name_refs s1 a = 0" by (simp add: name_refs_def s1_def filter_empty_conv)
  moreover have "file_refs s1 = file_refs s"
    using file_refs_same [of s a ob ?ob1 s1] dev(1) d by (simp add: s1_def file_device_def)
  ultimately have held1: "int (held s1 a ?ob1) < refcount ?ob1" using d n closed by (simp add: held_def)
  have "refcount ?ob1 = 1" "otype ?ob1 = IoDeviceType" using n dev(2) by simp_all
  from Dereference_device [OF rm(2) h1 this held1, of 2] obtain t d' drv dob dd where
    t: "Dereference 4 a s1 = Inr ((), t)" "wf_ddk t" "rest_same s1 t" "dropped ?ob1 (heap t a)" "body ?ob1 = DEVICE d'"
      "DriverObject d' = PublicPtr drv" "drv \<noteq> a" "heap s1 drv = Some dob" "body dob = DRIVER dd"
      "dropped (dob\<lparr>body := DRIVER (dd\<lparr>DeviceList := remove1 a (DeviceList dd)\<rparr>)\<rparr>) (heap t drv)"
      "\<forall>b. b \<noteq> a \<longrightarrow> b \<noteq> drv \<longrightarrow> heap t b = heap s1 b" by (auto simp: numeral_eq_Suc simp del: Dereference.simps)
  have "0 < refcount ob" using n by linarith
  then have "IoDeleteDevice (PublicPtr a) s = Inr ((), t)"
    using irql dev d rm(1) t(1)
    by (simp add: IoDeleteDevice_def bindS_def assertS_def FromPointer_def GetDevice_def lookup_def isPublicObject_def
        DdkDereferenceObject_def del: Dereference.simps)
  moreover have "heap t a = None" using t(4) dev(3) n by (auto simp: dropped_def)
  ultimately show ?thesis using t d by (auto simp: s1_def rest_same_def)
qed

section \<open>Properties\<close>

text \<open>The state the witnesses use: a driver with one device, which has the name of one backslash and an x.\<close>

definition sample_driver :: "addr list \<Rightarrow> int \<Rightarrow> OBJECT" where
  "sample_driver devs n = \<lparr>otype = IoDriverType, alloc = True, refcount = n, handle = None,
     body = DRIVER \<lparr>DeviceList = devs, Image = None, loadcount = 1\<rparr>\<rparr>"

definition sample_device :: OBJECT where
  "sample_device = \<lparr>otype = IoDeviceType, alloc = True, refcount = 2, handle = None,
     body = DEVICE \<lparr>DriverObject = PublicPtr 16, DeviceType = 0, Characteristics = 0, DeviceName = Some [0x5C, 0x78]\<rparr>\<rparr>"

definition sample :: DDK where
  "sample = \<lparr>heap = (\<lambda>_. None)(16 \<mapsto> sample_driver [32] 2, 32 \<mapsto> sample_device), next_addr = 48, mem_left = 2000,
     DdkNameList = [\<lparr>Name = [0x5C, 0x78], Object = 32\<rparr>], irql = 0, UniqueId = - 1, closed_handles = [], closed_keys = [], unloaded = []\<rparr>"

lemma sample_refs: "file_refs sample a = 0"
proof -
  have "{f. holds sample f = PublicPtr a} = {}"
    by (auto simp: holds_def file_device_def sample_def sample_driver_def sample_device_def split: if_splits)
  then show ?thesis by (simp only: file_refs_def card.empty)
qed

lemma wf_sample: "wf_ddk sample"
proof -
  have "obj_inv sample 16 (sample_driver [32] 2)" "obj_inv sample 32 sample_device"
    by (simp_all add: obj_inv_def count_ok_def device_ok_def driver_ok_def file_ok_def file_device_def held_def sample_refs typed_def)
      (simp_all add: name_refs_def body_at_def sample_def sample_driver_def sample_device_def)
  then show ?thesis by (auto simp: wf_ddk_def sample_def name_ok_def split: if_splits)
qed

text \<open>
  C5.  Dropping a reference that the program holds always succeeds and keeps the invariant and the names.  The
  object loses one reference.  With the last one it leaves the heap if the object manager allocated it; an object
  that lies in the caller's memory stays there with count zero.  An open file that goes away gives its
  reference to its device back, and a device that goes away the one to its driver, so that a chain of three objects may be
  freed; every other object is untouched.  As the invariant holds afterwards, no object is freed
  while a name, a driver's list or an open file still refers to it.
\<close>

theorem DdkDereferenceObject_safe:
  assumes "wf_ddk s" "heap s a = Some ob" "int (held s a ob) < refcount ob"
  shows "\<exists>t. DdkDereferenceObject a s = Inr ((), t) \<and> wf_ddk t \<and> DdkNameList t = DdkNameList s \<and>
    (if refcount ob > 1 then heap t a = Some (ob\<lparr>refcount := refcount ob - 1\<rparr>)
     else if alloc ob then heap t a = None
     else \<exists>ob'. heap t a = Some ob' \<and> refcount ob' = 0) \<and>
    (\<forall>d. file_device ob = PublicPtr d \<and> refcount ob = 1 \<longrightarrow>
       (\<exists>dob. heap s d = Some dob \<and>
          (if refcount dob > 1 then heap t d = Some (dob\<lparr>refcount := refcount dob - 1\<rparr>)
           else alloc dob \<longrightarrow> heap t d = None))) \<and>
    (\<forall>b bob. b \<noteq> a \<and> heap s b = Some bob \<and> otype bob \<noteq> IoDriverType \<and> file_device ob \<noteq> PublicPtr b \<longrightarrow>
       heap t b = Some bob)"
proof -
  from DdkDereferenceObject_ok [OF assms] obtain t where
    t: "DdkDereferenceObject a s = Inr ((), t)" "wf_ddk t" "rest_same s t" "dropped ob (heap t a)" and
    others: "\<forall>b bob. b \<noteq> a \<longrightarrow> heap s b = Some bob \<longrightarrow>
       1 < refcount ob \<or> (otype bob \<noteq> IoDriverType \<or> otype ob \<noteq> IoDeviceType \<and> file_device ob = NullPtr) \<and> file_device ob \<noteq> PublicPtr b \<longrightarrow>
       heap t b = heap s b" and
    dev: "\<forall>d. file_device ob = PublicPtr d \<and> refcount ob = 1 \<longrightarrow> (\<exists>dob. heap s d = Some dob \<and> dropped dob (heap t d))" by blast
  from t(4) have "if refcount ob > 1 then heap t a = Some (ob\<lparr>refcount := refcount ob - 1\<rparr>)
     else if alloc ob then heap t a = None else \<exists>ob'. heap t a = Some ob' \<and> refcount ob' = 0"
    by (auto simp: dropped_def)
  moreover have "\<forall>d. file_device ob = PublicPtr d \<and> refcount ob = 1 \<longrightarrow>
       (\<exists>dob. heap s d = Some dob \<and>
          (if refcount dob > 1 then heap t d = Some (dob\<lparr>refcount := refcount dob - 1\<rparr>)
           else alloc dob \<longrightarrow> heap t d = None))"
    using dev unfolding dropped_def by (metis (full_types))
  moreover have "\<forall>b bob. b \<noteq> a \<and> heap s b = Some bob \<and> otype bob \<noteq> IoDriverType \<and> file_device ob \<noteq> PublicPtr b \<longrightarrow>
       heap t b = Some bob" using others by simp
  moreover have "DdkNameList t = DdkNameList s" using t(3) by (simp add: rest_same_def)
  ultimately show ?thesis using t(1,2) by blast
qed

text \<open>A driver, a device that only an open file holds any more, and the file.\<close>

definition chain_device :: OBJECT where
  "chain_device = sample_device\<lparr>refcount := 1\<rparr>"

definition chain_file :: OBJECT where
  "chain_file = \<lparr>otype = IoFileType, alloc = True, refcount = 1, handle = None, body = FILEOBJ (PublicPtr 32)\<rparr>"

definition chain_state :: DDK where
  "chain_state = \<lparr>heap = (\<lambda>_. None)(16 \<mapsto> sample_driver [32] 2, 32 \<mapsto> chain_device, 48 \<mapsto> chain_file), next_addr = 64, mem_left = 10,
     DdkNameList = [], irql = 0, UniqueId = - 1, closed_handles = [], closed_keys = [], unloaded = []\<rparr>"

lemma chain_refs: "file_refs chain_state a = (if a = 32 then 1 else 0)"
proof -
  have "{f. holds chain_state f = PublicPtr a} = (if a = 32 then {48} else {})"
    by (auto simp: holds_def file_device_def chain_state_def chain_device_def chain_file_def sample_driver_def sample_device_def split: if_splits)
  then show ?thesis by (simp add: file_refs_def)
qed

lemma wf_chain: "wf_ddk chain_state"
proof -
  have at: "heap chain_state = (\<lambda>_. None)(16 \<mapsto> sample_driver [32] 2, 32 \<mapsto> chain_device, 48 \<mapsto> chain_file)"
    "DdkNameList chain_state = []" "next_addr chain_state = 64" by (simp_all add: chain_state_def)
  have "obj_inv chain_state 16 (sample_driver [32] 2)" "obj_inv chain_state 32 chain_device" "obj_inv chain_state 48 chain_file"
    by (simp_all add: obj_inv_def count_ok_def device_ok_def driver_ok_def file_ok_def file_device_def held_def chain_refs name_refs_def
        typed_def body_at_def at sample_driver_def chain_device_def sample_device_def chain_file_def)
  then show ?thesis by (auto simp: wf_ddk_def at split: if_splits)
qed

theorem DdkDereferenceObject_safe_witness:
  "(\<exists>t. DdkDereferenceObject 32 sample = Inr ((), t) \<and> wf_ddk t \<and> heap t 32 = Some (sample_device\<lparr>refcount := 1\<rparr>)) \<and>
   (\<exists>t. DdkDereferenceObject 48 chain_state = Inr ((), t) \<and> wf_ddk t \<and> heap t 48 = None \<and> heap t 32 = None)"
proof (rule conjI)
  have "heap sample 32 = Some sample_device" "int (held sample 32 sample_device) < refcount sample_device" "refcount sample_device = 2"
    by (simp_all add: sample_refs held_def) (simp_all add: sample_def sample_device_def name_refs_def)
  with DdkDereferenceObject_safe [OF wf_sample, of 32 sample_device]
  show "\<exists>t. DdkDereferenceObject 32 sample = Inr ((), t) \<and> wf_ddk t \<and> heap t 32 = Some (sample_device\<lparr>refcount := 1\<rparr>)" by auto
next
  have fo: "heap chain_state 48 = Some chain_file" "heap chain_state 32 = Some chain_device" "int (held chain_state 48 chain_file) < refcount chain_file"
    by (simp_all add: chain_refs held_def) (simp_all add: chain_state_def chain_file_def name_refs_def)
  have "file_device chain_file = PublicPtr 32" "refcount chain_file = 1" "alloc chain_file" "refcount chain_device = 1" "alloc chain_device"
    by (simp_all add: file_device_def chain_file_def chain_device_def sample_device_def)
  with DdkDereferenceObject_safe [OF wf_chain fo(1,3)] fo(2)
  show "\<exists>t. DdkDereferenceObject 48 chain_state = Inr ((), t) \<and> wf_ddk t \<and> heap t 48 = None \<and> heap t 32 = None" by auto
qed

text \<open>
  C6.  A name that is not in use can be created for an object, the invariant is kept, and looking up any name whose
  path differs from it only in the case of ASCII letters returns that object with one more reference.
\<close>

theorem DdkCreateName_DdkLookupName:
  assumes "wf_ddk s" "irql s = PASSIVE_LEVEL" "3 \<le> mem_left s"
    and nm: "nm \<noteq> []" "name_ok (full_path nm dir)" "find_name s (full_path nm dir) = None"
    and nm': "nm' \<noteq> []" "name_ok (full_path nm' dir')" "same_name (full_path nm' dir') (full_path nm dir)"
    and ob: "heap s a = Some ob" "0 < refcount ob" "refcount ob < 2 ^ 31 - 2"
  shows "\<exists>t. bindS (DdkCreateName nm a dir) (\<lambda>_. DdkLookupName nm' dir') s = Inr (Some a, t) \<and> wf_ddk t \<and>
    heap t = (heap s)(a \<mapsto> ob\<lparr>refcount := refcount ob + 2\<rparr>) \<and>
    DdkNameList t = \<lparr>Name = full_path nm dir, Object = a\<rparr> # DdkNameList s"
proof -
  let ?e = "\<lparr>Name = full_path nm dir, Object = a\<rparr>" and ?ob = "ob\<lparr>refcount := refcount ob + 1\<rparr>"
  define s1 where "s1 = s\<lparr>mem_left := mem_left s - 2, DdkNameList := ?e # DdkNameList s, heap := (heap s)(a \<mapsto> ?ob)\<rparr>"
  have "2 \<le> mem_left s" "refcount ob < 2 ^ 31 - 1" using assms(3) ob(3) by simp_all
  note cr = DdkCreateName_new [OF assms(1,2) nm(1,2) this(1) ob(1,2) this(2) nm(3), folded s1_def]
  have "irql s1 = PASSIVE_LEVEL" "0 < mem_left s1" "find_name s1 (full_path nm' dir') = Some ?e"
      "heap s1 (Object ?e) = Some ?ob" "refcount ?ob < 2 ^ 31 - 1"
    using assms(2,3) nm'(3) ob(3) by (simp_all add: s1_def find_name_def)
  from DdkLookupName_finds(2) [OF cr(2) this(1) nm'(1,2) this(2-5)] cr(1) show ?thesis
    by (auto simp: bindS_def s1_def)
qed

theorem DdkCreateName_DdkLookupName_witness:
  "\<exists>t. bindS (DdkCreateName [0x61] 32 device_dir) (\<lambda>_. DdkLookupName [0x41] device_dir) sample = Inr (Some 32, t)"
proof -
  have ok: "name_ok (full_path [0x61] device_dir)" "name_ok (full_path [0x41] device_dir)"
    "same_name (full_path [0x41] device_dir) (full_path [0x61] device_dir)" "find_name sample (full_path [0x61] device_dir) = None"
    by (simp_all add: full_path_def device_dir_def name_ok_def same_name_def towlower_def find_name_def sample_def)
  have "heap sample 32 = Some sample_device" "irql sample = 0" "3 \<le> mem_left sample" "0 < refcount sample_device" "refcount sample_device < 2 ^ 31 - 2"
    by (simp_all add: sample_def sample_device_def)
  with DdkCreateName_DdkLookupName [OF wf_sample, of "[0x61]" device_dir "[0x41]" device_dir 32 sample_device] ok
  show ?thesis by auto
qed

text \<open>
  IoCreateSymbolicLink for a name that is in use returns STATUS_OBJECT_NAME_EXISTS, frees the object it had
  made and leaves the heap and the names as they were.  That status counts as a success for NT_SUCCESS.
\<close>

theorem IoCreateSymbolicLink_collision:
  assumes "wf_ddk s" "irql s = PASSIVE_LEVEL" "nm \<noteq> []" "name_ok nm" "dest \<noteq> []" "name_ok dest" "3 \<le> mem_left s"
    and "find_name s nm = Some e" "heap s (Object e) = Some ob" "refcount ob < 2 ^ 31 - 1"
  shows "(\<exists>t. IoCreateSymbolicLink nm dest s = Inr (STATUS_OBJECT_NAME_EXISTS, t) \<and> wf_ddk t \<and> heap t = heap s \<and>
      DdkNameList t = DdkNameList s) \<and> NT_SUCCESS STATUS_OBJECT_NAME_EXISTS"
  using IoCreateSymbolicLink_exists [OF assms] by (simp add: NT_SUCCESS_def)

theorem IoCreateSymbolicLink_collision_witness:
  "\<exists>t. IoCreateSymbolicLink [0x5C, 0x58] [0x5C, 0x61] sample = Inr (STATUS_OBJECT_NAME_EXISTS, t) \<and> heap t = heap sample"
proof -
  have "find_name sample [0x5C, 0x58] = Some \<lparr>Name = [0x5C, 0x78], Object = 32\<rparr>" "heap sample 32 = Some sample_device"
      "irql sample = 0" "3 \<le> mem_left sample" "refcount sample_device < 2 ^ 31 - 1"
    by (simp_all add: find_name_def same_name_def towlower_def sample_def sample_device_def)
  with IoCreateSymbolicLink_collision [OF wf_sample, of "[0x5C, 0x58]" "[0x5C, 0x61]" "\<lparr>Name = [0x5C, 0x78], Object = 32\<rparr>" sample_device] show ?thesis by (auto simp: name_ok_def)
qed

text \<open>
  IoDeleteSymbolicLink takes back the name but not the reference IoCreateSymbolicLink got with the allocation: after a
  link has been created and deleted again its name is gone, and the object stays in the heap with one reference and
  no name, where nothing can reach it any more.
\<close>

theorem symbolic_link_leaks:
  assumes "wf_ddk s" "irql s = PASSIVE_LEVEL" "nm \<noteq> []" "name_ok nm" "dest \<noteq> []" "name_ok dest" "4 \<le> mem_left s"
    and new: "find_name s nm = None"
  shows "\<exists>t. bindS (IoCreateSymbolicLink nm dest) (\<lambda>_. IoDeleteSymbolicLink nm) s = Inr (STATUS_SUCCESS, t) \<and>
    DdkNameList t = DdkNameList s \<and> heap s (next_addr s) = None \<and>
    heap t = (heap s)(next_addr s \<mapsto> link_object dest 1)"
proof -
  let ?a = "next_addr s"
  define s1 where "s1 = s\<lparr>next_addr := next_addr s + 16, mem_left := mem_left s - 3,
      DdkNameList := \<lparr>Name = nm, Object = ?a\<rparr> # DdkNameList s, heap := (heap s)(?a \<mapsto> link_object dest 2)\<rparr>"
  have "3 \<le> mem_left s" using assms(7) by simp
  note cr = IoCreateSymbolicLink_new [OF assms(1-6) this new, folded s1_def]
  have refs: "name_refs s1 ?a = 1" using unnamed_fresh [OF assms(1)] by (simp add: name_refs_def s1_def)
  have others: "filter (\<lambda>e. Object e \<noteq> ?a) (DdkNameList s) = DdkNameList s"
    using unnamed_fresh [OF assms(1)] by (simp add: name_refs_def filter_id_conv filter_empty_conv)
  have "file_refs s1 = file_refs s"
    by (rule file_refs_new [OF assms(1), of s1 "link_object dest 2"]) (simp_all add: s1_def link_object_def file_device_def)
  then have "file_refs s1 ?a = 0" using unheld_fresh [OF assms(1)] by simp
  then have "int (held s1 ?a (link_object dest 2)) < refcount (link_object dest 2)"
    using refs by (simp add: held_def) (simp add: link_object_def)
  moreover have "irql s1 = PASSIVE_LEVEL" "0 < mem_left s1" "find_name s1 nm = Some \<lparr>Name = nm, Object = ?a\<rparr>"
      "Object \<lparr>Name = nm, Object = ?a\<rparr> = ?a" "heap s1 ?a = Some (link_object dest 2)" "refcount (link_object dest 2) < 2 ^ 31 - 1"
      "otype (link_object dest 2) = IoSymbolicLinkType"
    using assms(2,7) by (simp_all add: s1_def link_object_def find_name_def same_name_def)
  ultimately have "IoDeleteSymbolicLink nm s1 = Inr (STATUS_SUCCESS, s1\<lparr>mem_left := mem_left s1 - 1,
      DdkNameList := filter (\<lambda>e. Object e \<noteq> ?a) (DdkNameList s1),
      heap := (heap s1)(?a \<mapsto> link_object dest 2\<lparr>refcount := refcount (link_object dest 2) - int (name_refs s1 ?a)\<rparr>)\<rparr>)"
    using IoDeleteSymbolicLink_ok [OF cr(2) _ assms(3,4)] by blast
  with cr(1) refs others fresh_addr [OF assms(1)]
  show ?thesis by (auto simp: bindS_def s1_def link_object_def)
qed

theorem symbolic_link_leaks_witness:
  "\<exists>t. bindS (IoCreateSymbolicLink [0x5C, 0x61] [0x5C, 0x78]) (\<lambda>_. IoDeleteSymbolicLink [0x5C, 0x61]) sample = Inr (STATUS_SUCCESS, t) \<and>
    heap t 48 = Some (link_object [0x5C, 0x78] 1)"
proof -
  have "find_name sample [0x5C, 0x61] = None" "irql sample = 0" "4 \<le> mem_left sample" "next_addr sample = 48"
    by (simp_all add: find_name_def same_name_def towlower_def sample_def)
  with symbolic_link_leaks [OF wf_sample, of "[0x5C, 0x61]" "[0x5C, 0x78]"] show ?thesis by (auto simp: name_ok_def)
qed

text \<open>
  IoDeleteSymbolicLink of a name that denotes something else than a link answers STATUS_OBJECT_NAME_NOT_FOUND and
  keeps the reference the lookup took: every such call adds one to the count of the object.
\<close>

theorem IoDeleteSymbolicLink_keeps_reference:
  assumes "wf_ddk s" "irql s = PASSIVE_LEVEL" "nm \<noteq> []" "name_ok nm" "0 < mem_left s"
    and e: "find_name s nm = Some e" "heap s (Object e) = Some ob" "otype ob \<noteq> IoSymbolicLinkType" "refcount ob < 2 ^ 31 - 1"
  shows "\<exists>t. IoDeleteSymbolicLink nm s = Inr (STATUS_OBJECT_NAME_NOT_FOUND, t) \<and> DdkNameList t = DdkNameList s \<and>
    heap t (Object e) = Some (ob\<lparr>refcount := refcount ob + 1\<rparr>)"
  using DdkLookupName_finds(2) [OF assms(1-3) _ assms(5), of "[]" e ob] full_path_root [OF assms(4)] assms(3,4) e
  by (auto simp: IoDeleteSymbolicLink_def bindS_def assertS_def lookup_def)

theorem IoDeleteSymbolicLink_keeps_reference_witness:
  "\<exists>t. IoDeleteSymbolicLink [0x5C, 0x78] sample = Inr (STATUS_OBJECT_NAME_NOT_FOUND, t) \<and>
    heap t 32 = Some (sample_device\<lparr>refcount := 3\<rparr>)"
proof -
  have "find_name sample [0x5C, 0x78] = Some \<lparr>Name = [0x5C, 0x78], Object = 32\<rparr>" "heap sample 32 = Some sample_device"
      "irql sample = 0" "0 < mem_left sample" "refcount sample_device = 2" "otype sample_device = IoDeviceType"
    by (simp_all add: find_name_def same_name_def sample_def sample_device_def)
  with IoDeleteSymbolicLink_keeps_reference [OF wf_sample, of "[0x5C, 0x78]" "\<lparr>Name = [0x5C, 0x78], Object = 32\<rparr>" sample_device] show ?thesis by (auto simp: name_ok_def)
qed

text \<open>
  A link that leads to itself does not make DdkResolveSymbolicLink run forever: it gives up with the failure for
  recursive links.
\<close>

theorem DdkResolveSymbolicLink_detects_cycle:
  assumes "wf_ddk s" "irql s = PASSIVE_LEVEL" "dest \<noteq> []" "name_ok dest" "1001 \<le> mem_left s"
    and "find_name s dest = Some e" "heap s (Object e) = Some ob" "body ob = SYMLINK dest True" "refcount ob < 2 ^ 31 - 1"
  shows "DdkResolveSymbolicLink (Some (Object e)) s = Inl (DdkFail ''Recursive Symbolic Link'')"
proof -
  have "otype ob = IoSymbolicLinkType" using wf_ddkD [OF assms(1,7)] assms(8) by (simp add: obj_inv_def count_ok_def typed_def)
  then show ?thesis unfolding DdkResolveSymbolicLink_def
    by (intro ResolveLoop_self_fails [OF assms(1-4,6) refl assms(7,8) _ assms(9,5)])
qed

definition looped :: DDK where
  "looped = \<lparr>heap = (\<lambda>_. None)(16 \<mapsto> link_object [0x5C, 0x61] 2), next_addr = 32, mem_left = 2000,
     DdkNameList = [\<lparr>Name = [0x5C, 0x61], Object = 16\<rparr>], irql = 0, UniqueId = - 1, closed_handles = [], closed_keys = [], unloaded = []\<rparr>"

theorem DdkResolveSymbolicLink_detects_cycle_witness:
  "DdkResolveSymbolicLink (Some 16) looped = Inl (DdkFail ''Recursive Symbolic Link'')"
proof -
  have "obj_inv looped 16 (link_object [0x5C, 0x61] 2)"
    by (simp add: obj_inv_def count_ok_def device_ok_def driver_ok_def file_ok_def file_device_def held_def name_refs_def typed_def
        file_refs_def holds_def looped_def link_object_def)
  then have "wf_ddk looped" by (auto simp: wf_ddk_def looped_def name_ok_def split: if_splits)
  from DdkResolveSymbolicLink_detects_cycle [OF this, of "[0x5C, 0x61]" "\<lparr>Name = [0x5C, 0x61], Object = 16\<rparr>" "link_object [0x5C, 0x61] 2"]
  show ?thesis by (simp add: looped_def link_object_def find_name_def same_name_def name_ok_def)
qed

text \<open>
  C7.  The life of a device: IoCreateDevice with a name that is not in use puts the device on its driver's list, with a
  reference to the driver, and under its name; IoDeleteDevice of it gives all of that back, so that the heap and
  the names are exactly as before.
\<close>

theorem device_lifecycle:
  assumes "wf_ddk s" "irql s = PASSIVE_LEVEL" "nm \<noteq> []" "name_ok (full_path nm device_dir)" "full_path nm device_dir \<noteq> []" "3 \<le> mem_left s"
    and drv: "heap s drv = Some dob" "body dob = DRIVER dd" "0 < refcount dob" "refcount dob < 2 ^ 31 - 1"
    and new: "find_name s (full_path nm device_dir) = None"
  shows "\<exists>a t u. IoCreateDevice (PublicPtr drv) (Some nm) ty charac s = Inr ((STATUS_SUCCESS, Some (PublicPtr a)), t) \<and> wf_ddk t \<and>
    find_name t (full_path nm device_dir) = Some \<lparr>Name = full_path nm device_dir, Object = a\<rparr> \<and>
    heap t drv = Some (dob\<lparr>body := DRIVER (dd\<lparr>DeviceList := DeviceList dd @ [a]\<rparr>), refcount := refcount dob + 1\<rparr>) \<and>
    IoDeleteDevice (PublicPtr a) t = Inr ((), u) \<and> wf_ddk u \<and> heap u = heap s \<and> DdkNameList u = DdkNameList s"
proof -
  let ?a = "next_addr s" and ?path = "full_path nm device_dir"
  let ?dev = "new_device (PublicPtr drv) ty charac ?path"
  let ?dob = "dob\<lparr>body := DRIVER (dd\<lparr>DeviceList := DeviceList dd @ [?a]\<rparr>), refcount := refcount dob + 1\<rparr>"
  define t where "t = s\<lparr>next_addr := ?a + 16, mem_left := mem_left s - 3, DdkNameList := \<lparr>Name = ?path, Object = ?a\<rparr> # DdkNameList s,
      heap := (heap s)(?a \<mapsto> ?dev, drv \<mapsto> ?dob)\<rparr>"
  note cr = IoCreateDevice_new [OF assms(1-6) drv new refl t_def]
  note fresh = fresh_addr [OF assms(1)] unnamed_fresh [OF assms(1)]
  have ne: "drv \<noteq> ?a" using drv(1) fresh(1) by auto
  have "irql t \<le> APC_LEVEL" "heap t ?a = Some ?dev" "otype ?dev = IoDeviceType" "alloc ?dev" "refcount ?dev = int (name_refs t ?a) + 1"
    using assms(2) ne fresh(2) by (simp_all add: t_def new_device_def name_refs_def)
  moreover have "holds t f = holds s f" for f
    using drv(1,2) ne fresh(1) by (simp add: holds_def t_def file_device_def new_device_def)
  then have "file_refs t = file_refs s" by (intro file_refs_cong) blast
  then have "file_refs t ?a = 0" using unheld_fresh [OF assms(1)] by simp
  ultimately obtain u d drv' dob' dd' where
    u: "IoDeleteDevice (PublicPtr ?a) t = Inr ((), u)" "wf_ddk u" "heap u ?a = None" "DdkNameList u = filter (\<lambda>e. Object e \<noteq> ?a) (DdkNameList t)"
      "body ?dev = DEVICE d" "DriverObject d = PublicPtr drv'" "heap t drv' = Some dob'" "body dob' = DRIVER dd'"
      "dropped (dob'\<lparr>body := DRIVER (dd'\<lparr>DeviceList := remove1 ?a (DeviceList dd')\<rparr>)\<rparr>) (heap u drv')"
      "\<forall>b. b \<noteq> ?a \<longrightarrow> b \<noteq> drv' \<longrightarrow> heap u b = heap t b"
    using IoDeleteDevice_ok [OF cr(2)] by blast
  have drv': "drv' = drv" using u(5,6) by (auto simp: new_device_def)
  with u(7,8) have dob': "dob' = ?dob" "dd' = dd\<lparr>DeviceList := DeviceList dd @ [?a]\<rparr>" by (auto simp: t_def)
  have "?a \<notin> set (DeviceList dd)"
    using wf_ddkD [OF assms(1) drv(1)] drv(2) fresh(1) by (auto simp: obj_inv_def driver_ok_def body_at_iff)
  then have "remove1 ?a (DeviceList dd @ [?a]) = DeviceList dd" by (simp add: remove1_append)
  with u(9) drv(2,3) have "heap u drv = Some dob" unfolding drv' dob' by (simp add: dropped_def)
  then have "heap u x = heap s x" for x
    using u(3,10) fresh(1) drv(1) drv' by (cases "x = ?a"; cases "x = drv") (auto simp: t_def)
  then have "heap u = heap s" by blast
  moreover have "DdkNameList u = DdkNameList s"
    using u(4) fresh(2) by (simp add: t_def name_refs_def filter_id_conv filter_empty_conv)
  moreover have "find_name t ?path = Some \<lparr>Name = ?path, Object = ?a\<rparr>" "heap t drv = Some ?dob"
    by (simp_all add: t_def find_name_def same_name_def)
  ultimately show ?thesis using cr u(1,2) by blast
qed

theorem device_lifecycle_witness:
  "\<exists>a t u. IoCreateDevice (PublicPtr 16) (Some [0x79]) 0 0 sample = Inr ((STATUS_SUCCESS, Some (PublicPtr a)), t) \<and>
    IoDeleteDevice (PublicPtr a) t = Inr ((), u) \<and> heap u = heap sample"
proof -
  have "name_ok (full_path [0x79] device_dir)" "full_path [0x79] device_dir \<noteq> []" "find_name sample (full_path [0x79] device_dir) = None"
    by (simp_all add: full_path_def device_dir_def name_ok_def same_name_def towlower_def find_name_def sample_def)
  moreover have "heap sample 16 = Some (sample_driver [32] 2)" "irql sample = 0" "3 \<le> mem_left sample"
      "body (sample_driver [32] 2) = DRIVER \<lparr>DeviceList = [32], Image = None, loadcount = 1\<rparr>"
      "0 < refcount (sample_driver [32] 2)" "refcount (sample_driver [32] 2) < 2 ^ 31 - 1"
    by (simp_all add: sample_def sample_driver_def)
  ultimately show ?thesis
    using device_lifecycle [OF wf_sample, of "[0x79]" 16 "sample_driver [32] 2" "\<lparr>DeviceList = [32], Image = None, loadcount = 1\<rparr>" 0 0]
    by blast
qed

end
