(* ===== verification/Detours.thy ===== *)
theory Detours
  imports DdkBase
begin

text \<open>
  Intercepts: src/src/detours.cpp.  A region is a block of memory near the intercepted functions that holds an array of
  detours; a detour belongs to one function and has the list of its intercepts, most recent first; the wrapper of
  the detour asks DdkGetIntercept which of them the current thread runs.

  A null pointer is 0.  An intercept is identified by its address (\<open>iid\<close>), a detour by the address of its region and its
  index.  The Detours library and the memory manager are the environment: \<open>api\<close> holds the return codes of the
  next calls of the Detours library in order (NO_ERROR when it is used up), \<open>tramp_of\<close> the trampoline DetourAttach makes for a
  function, \<open>region_supply\<close> what the next calls of DetourAllocateRegionWithinJumpBounds return, \<open>imem\<close> how many more
  intercepts calloc can give.  All operations run under the lock of the module, so each is one step.  The sizes are
  those of the x64 build; addresses are natural numbers, without the wrap at the end of the address space.
\<close>

section \<open>Definitions\<close>

record INTERCEPT =
  iid :: nat
  intercept :: nat
  identity :: nat
  inst :: nat
  thread :: nat

record DETOUR =
  func :: nat
  trampoline :: nat
  intercepts :: "INTERCEPT list"

record REGION =
  base :: nat
  rsize :: nat
  rrefcount :: nat
  rcount :: nat
  freecount :: nat
  hwm :: nat
  detours :: "DETOUR list"

record DET =
  regionlist :: "REGION list"
  imem :: nat
  next_iid :: nat
  api :: "nat list"
  tramp_of :: "nat \<Rightarrow> nat"
  region_supply :: "(nat \<times> nat) list"
  released :: "nat list"

abbreviation (input) sizeof_DETOUR :: nat where "sizeof_DETOUR \<equiv> 56"
abbreviation (input) sizeof_REGION :: nat where "sizeof_REGION \<equiv> 96"

abbreviation (input) NO_ERROR :: nat where "NO_ERROR \<equiv> 0"

definition DdkGetDetourStatus :: "nat \<Rightarrow> NTSTATUS" where
  "DdkGetDetourStatus rc =
     (if rc = NO_ERROR then STATUS_SUCCESS
      else if rc = 4317 then 0xC0000476
      else if rc = 5 then 0xC0000022
      else if rc = 8 then STATUS_INSUFFICIENT_RESOURCES
      else if rc = 9 then 0xC0000173
      else if rc = 6 then STATUS_INVALID_HANDLE
      else if rc = 13 then 0xC000003E
      else 0xC0000001)"

text \<open>The return code of the next call of the Detours library.\<close>

definition call_api :: "(nat, DET) st" where
  "call_api s = (case api s of [] \<Rightarrow> Inr (NO_ERROR, s) | c # cs \<Rightarrow> Inr (c, s\<lparr>api := cs\<rparr>))"

definition region_at :: "nat \<Rightarrow> (REGION, DET) st" where
  "region_at a s = (case List.find (\<lambda>r. base r = a) (regionlist s) of None \<Rightarrow> Inl Fault | Some r \<Rightarrow> Inr (r, s))"

definition set_region :: "nat \<Rightarrow> (REGION \<Rightarrow> REGION) \<Rightarrow> (unit, DET) st" where
  "set_region a f = modify (\<lambda>s. s\<lparr>regionlist := map (\<lambda>r. if base r = a then f r else r) (regionlist s)\<rparr>)"

definition detour_at :: "nat \<Rightarrow> nat \<Rightarrow> (DETOUR, DET) st" where
  "detour_at a i = bindS (region_at a) (\<lambda>r. if i < length (detours r) then ret (detours r ! i) else fail Fault)"

definition set_detour :: "nat \<Rightarrow> nat \<Rightarrow> (DETOUR \<Rightarrow> DETOUR) \<Rightarrow> (unit, DET) st" where
  "set_detour a i f = set_region a (\<lambda>r. r\<lparr>detours := (detours r)[i := f (detours r ! i)]\<rparr>)"

subsection \<open>Regions\<close>

definition DdkAddReference :: "nat \<Rightarrow> (unit, DET) st" where
  "DdkAddReference a = set_region a (\<lambda>r. r\<lparr>rrefcount := rrefcount r + 1\<rparr>)"

definition DdkFreeRegion :: "nat \<Rightarrow> (unit, DET) st" where
  "DdkFreeRegion a =
     bindS (region_at a) (\<lambda>r.
     if rrefcount r \<noteq> 0 \<or> freecount r \<noteq> rcount r then ret ()
     else modify (\<lambda>s. s\<lparr>regionlist := filter (\<lambda>r. base r \<noteq> a) (regionlist s), released := a # released s\<rparr>))"

definition DdkDeleteReference :: "nat \<Rightarrow> (unit, DET) st" where
  "DdkDeleteReference a =
     bindS (set_region a (\<lambda>r. r\<lparr>rrefcount := rrefcount r - 1\<rparr>)) (\<lambda>_. DdkFreeRegion a)"

text \<open>The result is the status and the new region.\<close>

definition DdkAllocateRegion :: "(NTSTATUS \<times> nat, DET) st" where
  "DdkAllocateRegion s =
     (case region_supply s of
        [] \<Rightarrow> Inr ((STATUS_INSUFFICIENT_RESOURCES, 0), s)
      | (a, sz) # rest \<Rightarrow>
          if a = 0 then Inr ((STATUS_INSUFFICIENT_RESOURCES, 0), s\<lparr>region_supply := rest\<rparr>)
          else if sz < sizeof_REGION
          then Inr ((STATUS_INSUFFICIENT_RESOURCES, 0), s\<lparr>region_supply := rest, released := a # released s\<rparr>)
          else
            let n = (sz - sizeof_REGION) div sizeof_DETOUR + 1
            in Inr ((STATUS_SUCCESS, a), s\<lparr>region_supply := rest,
                 regionlist := \<lparr>base = a, rsize = sz, rrefcount = 0, rcount = n, freecount = n, hwm = 0,
                   detours = replicate n \<lparr>func = 0, trampoline = 0, intercepts = []\<rparr>\<rparr> # regionlist s\<rparr>))"

text \<open>\<open>MAXIMUM_JUMP\<close> is \<open>2 ^ 31\<close>; the region reaches from its base to base plus size.\<close>

definition DdkIsRegionWithinJumpBounds :: "REGION \<Rightarrow> nat \<Rightarrow> nat \<Rightarrow> bool" where
  "DdkIsRegionWithinJumpBounds r pAddr slack \<longleftrightarrow>
     (let maxjump = 0x80000000 - slack
      in pAddr \<ge> base r \<and> pAddr - base r \<le> maxjump \<or>
         base r + rsize r > pAddr \<and> base r + rsize r - pAddr \<le> maxjump)"

subsection \<open>Detours\<close>

definition DdkUpdateDetour :: "nat \<Rightarrow> nat \<Rightarrow> bool \<Rightarrow> (NTSTATUS, DET) st" where
  "DdkUpdateDetour a i enable =
     bindS call_api (\<lambda>rc.
     if rc \<noteq> NO_ERROR then ret (DdkGetDetourStatus rc)
     else bindS call_api (\<lambda>rc.
     if rc \<noteq> NO_ERROR then ret (DdkGetDetourStatus rc)
     else bindS call_api (\<lambda>rc.
     if rc \<noteq> NO_ERROR then ret (DdkGetDetourStatus rc)
     else bindS call_api (\<lambda>rc.
     if rc \<noteq> NO_ERROR then ret (DdkGetDetourStatus rc)
     else bindS (gets tramp_of) (\<lambda>tr.
          bindS (set_detour a i (\<lambda>d. d\<lparr>trampoline := (if enable then tr (func d) else func d)\<rparr>)) (\<lambda>_.
          ret STATUS_SUCCESS))))))"

definition DdkAttachDetour :: "nat \<Rightarrow> nat \<Rightarrow> (NTSTATUS, DET) st" where
  "DdkAttachDetour a i =
     bindS (detour_at a i) (\<lambda>d.
     if trampoline d \<noteq> 0 then ret STATUS_SUCCESS
     else bindS (set_detour a i (\<lambda>d. d\<lparr>trampoline := func d\<rparr>)) (\<lambda>_.
          bindS (DdkUpdateDetour a i True) (\<lambda>status.
          if \<not> NT_SUCCESS status
          then bindS (set_detour a i (\<lambda>d. d\<lparr>trampoline := 0\<rparr>)) (\<lambda>_. ret status)
          else ret status)))"

definition DdkDetachDetour :: "nat \<Rightarrow> nat \<Rightarrow> (NTSTATUS, DET) st" where
  "DdkDetachDetour a i =
     bindS (detour_at a i) (\<lambda>d.
     if trampoline d = 0 then ret STATUS_SUCCESS
     else bindS (DdkUpdateDetour a i False) (\<lambda>status.
          if NT_SUCCESS status
          then bindS (set_detour a i (\<lambda>d. d\<lparr>trampoline := 0\<rparr>)) (\<lambda>_. ret status)
          else ret status))"

text \<open>\<open>for (; hwm; hwm--) if (detour[hwm - 1].function) break;\<close>\<close>

fun shrink :: "DETOUR list \<Rightarrow> nat \<Rightarrow> nat" where
  "shrink ds 0 = 0"
| "shrink ds (Suc h) = (if func (ds ! h) \<noteq> 0 then Suc h else shrink ds h)"

definition release_detour :: "nat \<Rightarrow> REGION \<Rightarrow> REGION" where
  "release_detour i r =
     (let d = detours r ! i;
          r1 = (if trampoline d = 0 \<and> func d \<noteq> 0
                then r\<lparr>detours := (detours r)[i := d\<lparr>func := 0\<rparr>], freecount := freecount r + 1\<rparr> else r)
      in r1\<lparr>hwm := shrink (detours r1) (hwm r1)\<rparr>)"

definition DdkFreeDetour :: "nat \<Rightarrow> nat \<Rightarrow> (NTSTATUS, DET) st" where
  "DdkFreeDetour a i =
     bindS (detour_at a i) (\<lambda>d.
     if intercepts d \<noteq> [] then ret STATUS_SUCCESS
     else bindS (DdkDetachDetour a i) (\<lambda>status.
          bindS (set_region a (release_detour i)) (\<lambda>_.
          bindS (DdkFreeRegion a) (\<lambda>_. ret status))))"

text \<open>The detours of a region in use that belong to the function, in order.\<close>

definition find_in_region :: "nat \<Rightarrow> REGION \<Rightarrow> nat option" where
  "find_in_region pFunction r = List.find (\<lambda>i. func (detours r ! i) = pFunction) [0..<hwm r]"

fun FindDetour :: "nat \<Rightarrow> REGION list \<Rightarrow> (nat \<times> nat) option" where
  "FindDetour pFunction [] = None"
| "FindDetour pFunction (r # rs) =
     (if \<not> DdkIsRegionWithinJumpBounds r pFunction 0 then FindDetour pFunction rs
      else case find_in_region pFunction r of
             Some i \<Rightarrow> Some (base r, i)
           | None \<Rightarrow> FindDetour pFunction rs)"

definition DdkFindDetour :: "nat \<Rightarrow> ((nat \<times> nat) option, DET) st" where
  "DdkFindDetour pFunction = gets (\<lambda>s. FindDetour pFunction (regionlist s))"

definition take_slot :: "nat \<Rightarrow> nat \<Rightarrow> REGION \<Rightarrow> REGION" where
  "take_slot pFunction i r =
     r\<lparr>hwm := (if i \<ge> hwm r then i + 1 else hwm r), freecount := freecount r - 1,
       detours := (detours r)[i := \<lparr>func = pFunction, trampoline = 0, intercepts = []\<rparr>]\<rparr>"

definition DdkAllocateDetour :: "nat \<Rightarrow> (NTSTATUS \<times> (nat \<times> nat), DET) st" where
  "DdkAllocateDetour pFunction =
     bindS (gets (\<lambda>s. List.find (\<lambda>r. freecount r \<noteq> 0 \<and> DdkIsRegionWithinJumpBounds r pFunction 0x100) (regionlist s))) (\<lambda>found.
     bindS (case found of Some r \<Rightarrow> ret (STATUS_SUCCESS, base r) | None \<Rightarrow> DdkAllocateRegion) (\<lambda>(status, a).
     if \<not> NT_SUCCESS status then ret (status, (0, 0))
     else bindS (region_at a) (\<lambda>r.
          case List.find (\<lambda>i. func (detours r ! i) = 0) [0..<rcount r] of
            None \<Rightarrow> fail (DdkFail ''Region has no free detours'')
          | Some i \<Rightarrow>
              bindS (set_region a (take_slot pFunction i)) (\<lambda>_.
              bindS (DdkAttachDetour a i) (\<lambda>status.
              if \<not> NT_SUCCESS status then bindS (DdkFreeDetour a i) (\<lambda>_. ret (status, (0, 0)))
              else ret (STATUS_SUCCESS, (a, i)))))))"

subsection \<open>Intercepts\<close>

definition DdkAllocateIntercept :: "nat \<Rightarrow> nat \<Rightarrow> nat \<Rightarrow> nat \<Rightarrow> (INTERCEPT option, DET) st" where
  "DdkAllocateIntercept pIntercept pIdentity pInstance pThread s =
     (if imem s = 0 then Inr (None, s)
      else Inr (Some \<lparr>iid = next_iid s, intercept = pIntercept, identity = pIdentity, inst = pInstance, thread = pThread\<rparr>,
             s\<lparr>imem := imem s - 1, next_iid := next_iid s + 1\<rparr>))"

text \<open>The second argument is the detour of the intercept, None before it has one.\<close>

definition DdkFreeIntercept :: "INTERCEPT \<Rightarrow> (nat \<times> nat) option \<Rightarrow> (NTSTATUS, DET) st" where
  "DdkFreeIntercept p pDetour =
     bindS (case pDetour of
              None \<Rightarrow> ret STATUS_SUCCESS
            | Some (a, i) \<Rightarrow>
                bindS (detour_at a i) (\<lambda>_.
                bindS (set_detour a i (\<lambda>d. d\<lparr>intercepts := filter (\<lambda>q. iid q \<noteq> iid p) (intercepts d)\<rparr>)) (\<lambda>_.
                DdkFreeDetour a i))) (\<lambda>status.
     bindS (modify (\<lambda>s. s\<lparr>imem := imem s + 1\<rparr>)) (\<lambda>_. ret status))"

definition DdkAttachIntercept :: "nat \<Rightarrow> nat \<Rightarrow> nat \<Rightarrow> nat \<Rightarrow> nat \<Rightarrow> (NTSTATUS, DET) st" where
  "DdkAttachIntercept pFunction pIntercept pIdentity pInstance pThread =
     (if pFunction = 0 \<or> pIntercept = 0 then ret STATUS_INVALID_PARAMETER
      else
        bindS (DdkAllocateIntercept pIntercept pIdentity pInstance pThread) (\<lambda>pEntry.
        case pEntry of
          None \<Rightarrow> ret STATUS_INSUFFICIENT_RESOURCES
        | Some e \<Rightarrow>
            bindS (DdkFindDetour pFunction) (\<lambda>found.
            bindS (case found of Some d \<Rightarrow> ret (STATUS_SUCCESS, d) | None \<Rightarrow> DdkAllocateDetour pFunction) (\<lambda>(status, (a, i)).
            if \<not> NT_SUCCESS status then bindS (DdkFreeIntercept e None) (\<lambda>_. ret status)
            else bindS (detour_at a i) (\<lambda>_.
                 bindS (set_detour a i (\<lambda>d. d\<lparr>intercepts := e # intercepts d\<rparr>)) (\<lambda>_.
                 ret STATUS_SUCCESS))))))"

text \<open>The loops of the two detaching functions, over the intercepts of a detour and over the detours of a region.\<close>

fun FreeMatching :: "(INTERCEPT \<Rightarrow> bool) \<Rightarrow> nat \<Rightarrow> nat \<Rightarrow> INTERCEPT list \<Rightarrow> NTSTATUS \<Rightarrow> (NTSTATUS, DET) st" where
  "FreeMatching hit a i [] status = ret status"
| "FreeMatching hit a i (p # rest) status =
     (if hit p
      then bindS (DdkFreeIntercept p (Some (a, i))) (\<lambda>rc. FreeMatching hit a i rest (if NT_SUCCESS rc then status else rc))
      else FreeMatching hit a i rest status)"

fun DetachDetours :: "(nat \<Rightarrow> bool) \<Rightarrow> (INTERCEPT \<Rightarrow> bool) \<Rightarrow> nat \<Rightarrow> nat \<Rightarrow> nat \<Rightarrow> NTSTATUS \<Rightarrow> (NTSTATUS, DET) st" where
  "DetachDetours sel hit a 0 i status = ret status"
| "DetachDetours sel hit a (Suc n) i status =
     bindS (region_at a) (\<lambda>r.
     if i < hwm r
     then bindS (detour_at a i) (\<lambda>d.
          bindS (if sel (func d) then FreeMatching hit a i (intercepts d) status else ret status) (\<lambda>status'.
          DetachDetours sel hit a n (Suc i) status'))
     else ret status)"

fun DetachRegions :: "(nat \<Rightarrow> bool) \<Rightarrow> (INTERCEPT \<Rightarrow> bool) \<Rightarrow> nat list \<Rightarrow> NTSTATUS \<Rightarrow> (NTSTATUS, DET) st" where
  "DetachRegions sel hit [] status = ret status"
| "DetachRegions sel hit (a # rest) status =
     bindS (DdkAddReference a) (\<lambda>_.
     bindS (region_at a) (\<lambda>r.
     bindS (DetachDetours sel hit a (hwm r) 0 status) (\<lambda>status'.
     bindS (DdkDeleteReference a) (\<lambda>_. DetachRegions sel hit rest status'))))"

definition DdkDetachIntercept :: "nat \<Rightarrow> nat \<Rightarrow> (NTSTATUS, DET) st" where
  "DdkDetachIntercept pId pThread =
     bindS (gets (\<lambda>s. map base (regionlist s))) (\<lambda>rs.
     DetachRegions (\<lambda>_. True)
       (\<lambda>p. (pThread = 0 \<or> thread p = pThread) \<and> (pId = 0 \<or> identity p = pId \<or> inst p = pId)) rs STATUS_SUCCESS)"

text \<open>The module is given by the range of its image, from the header: None is the null handle.\<close>

definition DdkDetachAddressRange :: "nat \<Rightarrow> nat \<Rightarrow> (nat \<times> nat) option \<Rightarrow> (NTSTATUS, DET) st" where
  "DdkDetachAddressRange pAddr len module =
     (if len = 0 then ret STATUS_SUCCESS
      else bindS (gets (\<lambda>s. map base (regionlist s))) (\<lambda>rs.
           DetachRegions (\<lambda>f. f \<noteq> 0 \<and> pAddr \<le> f \<and> f < pAddr + len)
             (\<lambda>p. case module of None \<Rightarrow> True | Some (lo, n) \<Rightarrow> lo \<le> intercept p \<and> intercept p < lo + n) rs STATUS_SUCCESS))"

fun SelectIntercept :: "nat \<Rightarrow> INTERCEPT list \<Rightarrow> nat \<Rightarrow> nat" where
  "SelectIntercept cur [] pIntercept = pIntercept"
| "SelectIntercept cur (ep # rest) pIntercept =
     (if thread ep = cur then intercept ep
      else SelectIntercept cur rest (if thread ep = 0 then intercept ep else pIntercept))"

text \<open>The result is the function to call and the thread's \<open>realpointer\<close>.\<close>

definition DdkGetIntercept :: "nat \<Rightarrow> DETOUR option \<Rightarrow> (nat \<times> nat) res" where
  "DdkGetIntercept cur pDetour =
     (case pDetour of
        None \<Rightarrow> Inl (DdkFail ''Invalid detour'')
      | Some d \<Rightarrow>
          if func d = 0 then Inl (DdkFail ''Invalid detour'')
          else let p = SelectIntercept cur (intercepts d) (trampoline d)
               in Inr (if p = 0 then func d else p, trampoline d))"

definition DdkGetRealPointer :: "nat \<Rightarrow> (nat \<times> nat) res" where
  "DdkGetRealPointer realpointer =
     (if realpointer = 0 then Inl (DdkFail ''Real pointer not found'') else Inr (realpointer, 0))"

section \<open>Invariant\<close>

definition free_slots :: "DETOUR list \<Rightarrow> nat" where
  "free_slots ds = length (filter (\<lambda>d. func d = 0) ds)"

definition wf_detour :: "DETOUR \<Rightarrow> bool" where
  "wf_detour d \<longleftrightarrow> (func d = 0 \<longrightarrow> intercepts d = [] \<and> trampoline d = 0) \<and> distinct (map iid (intercepts d))"

definition wf_region :: "REGION \<Rightarrow> bool" where
  "wf_region r \<longleftrightarrow> length (detours r) = rcount r \<and> freecount r = free_slots (detours r) \<and> hwm r \<le> rcount r
     \<and> (\<forall>i. hwm r \<le> i \<and> i < rcount r \<longrightarrow> func (detours r ! i) = 0) \<and> (\<forall>d \<in> set (detours r). wf_detour d)"

definition wf_det :: "DET \<Rightarrow> bool" where
  "wf_det s \<longleftrightarrow> distinct (map base (regionlist s)) \<and>
     (\<forall>r \<in> set (regionlist s). wf_region r \<and> rrefcount r = 0 \<and> freecount r < rcount r \<and>
        (\<forall>d \<in> set (detours r). \<forall>p \<in> set (intercepts d). iid p < next_iid s))"

text \<open>Every detour in use has an intercept: no function is patched without need.\<close>

definition needed :: "REGION \<Rightarrow> bool" where
  "needed r \<longleftrightarrow> (\<forall>d \<in> set (detours r). func d \<noteq> 0 \<longrightarrow> intercepts d \<noteq> [])"

text \<open>The abstract state: the pairs of an intercepted function and an intercept.\<close>

definition tagged :: "DETOUR \<Rightarrow> (nat \<times> INTERCEPT) list" where
  "tagged d = map (Pair (func d)) (intercepts d)"

definition region_view :: "REGION \<Rightarrow> (nat \<times> INTERCEPT) list" where
  "region_view r = concat (map tagged (detours r))"

definition view :: "DET \<Rightarrow> (nat \<times> INTERCEPT) list" where
  "view s = concat (map region_view (regionlist s))"

subsection \<open>A region in the list\<close>

definition focus :: "DET \<Rightarrow> REGION list \<Rightarrow> REGION \<Rightarrow> REGION list \<Rightarrow> bool" where
  "focus s xs r ys \<longleftrightarrow> regionlist s = xs @ r # ys \<and> (\<forall>q \<in> set xs. base q \<noteq> base r) \<and> (\<forall>q \<in> set ys. base q \<noteq> base r)"

lemma focus_upd:
  "focus s xs r ys \<Longrightarrow> base r' = base r \<Longrightarrow> focus (s\<lparr>regionlist := xs @ r' # ys, api := cs, imem := m\<rparr>) xs r' ys"
  "focus s xs r ys \<Longrightarrow> base r' = base r \<Longrightarrow> focus (s\<lparr>regionlist := xs @ r' # ys, api := cs\<rparr>) xs r' ys"
  "focus s xs r ys \<Longrightarrow> base r' = base r \<Longrightarrow> focus (s\<lparr>regionlist := xs @ r' # ys\<rparr>) xs r' ys"
  by (auto simp: focus_def)

lemma find_none: "(\<And>x. x \<in> set xs \<Longrightarrow> \<not> P x) \<Longrightarrow> List.find P (xs @ ys) = List.find P ys"
  by (induction xs) auto

lemma map_if_other: "\<forall>q \<in> set xs. base q \<noteq> a \<Longrightarrow> map (\<lambda>q. if base q = a then f q else q) xs = xs"
  by (auto intro!: map_idI)

lemma region_at_focus: "focus s xs r ys \<Longrightarrow> region_at (base r) s = Inr (r, s)"
  by (simp add: region_at_def focus_def find_none [of xs])

lemma set_region_focus:
  "focus s xs r ys \<Longrightarrow> set_region (base r) f s = Inr ((), s\<lparr>regionlist := xs @ f r # ys\<rparr>)"
  by (simp add: set_region_def focus_def map_if_other)

lemma detour_at_focus:
  "focus s xs r ys \<Longrightarrow> i < length (detours r) \<Longrightarrow> detour_at (base r) i s = Inr (detours r ! i, s)"
  by (simp add: detour_at_def bindS_def region_at_focus)

lemma set_detour_focus:
  "focus s xs r ys \<Longrightarrow> set_detour (base r) i f s
     = Inr ((), s\<lparr>regionlist := xs @ r\<lparr>detours := (detours r)[i := f (detours r ! i)]\<rparr> # ys\<rparr>)"
  by (simp add: set_detour_def set_region_focus)

lemma DdkFreeRegion_focus:
  assumes "focus s xs r ys"
  shows "DdkFreeRegion (base r) s = Inr ((), if rrefcount r \<noteq> 0 \<or> freecount r \<noteq> rcount r then s
           else s\<lparr>regionlist := xs @ ys, released := base r # released s\<rparr>)"
proof -
  have "filter (\<lambda>q. base q \<noteq> base r) xs = xs" "filter (\<lambda>q. base q \<noteq> base r) ys = ys"
    using assms by (auto simp: focus_def filter_id_conv)
  with assms show ?thesis
    by (simp add: DdkFreeRegion_def bindS_def region_at_focus [OF assms] focus_def)
qed

lemmas focus_simps = region_at_focus set_region_focus detour_at_focus set_detour_focus DdkFreeRegion_focus

lemma focus_eq: "focus s xs r ys \<Longrightarrow> s\<lparr>regionlist := xs @ r # ys, api := api s\<rparr> = s"
  by (simp add: focus_def)

lemma NT_SUCCESS_DdkGetDetourStatus: "NT_SUCCESS (DdkGetDetourStatus rc) \<longleftrightarrow> rc = NO_ERROR"
  by (simp add: DdkGetDetourStatus_def NT_SUCCESS_def)

lemma NT_SUCCESS_0 [simp]: "NT_SUCCESS 0"
  by (simp add: NT_SUCCESS_def)

lemma call_api_eq: "call_api s = Inr (if api s = [] then NO_ERROR else hd (api s), s\<lparr>api := tl (api s)\<rparr>)"
  by (cases "api s") (simp_all add: call_api_def)

text \<open>What an update of detour \<open>i\<close> of \<open>r\<close> does, with the change \<open>f\<close> when it succeeds.\<close>

definition detour_update :: "DET \<Rightarrow> REGION list \<Rightarrow> REGION \<Rightarrow> REGION list \<Rightarrow> nat \<Rightarrow> (DETOUR \<Rightarrow> DETOUR) \<Rightarrow> nat list
    \<Rightarrow> (NTSTATUS \<times> DET) res \<Rightarrow> bool" where
  "detour_update s xs r ys i f c m \<longleftrightarrow> (\<exists>st d' cs.
     m = Inr (st, s\<lparr>regionlist := xs @ r\<lparr>detours := (detours r)[i := d']\<rparr> # ys, api := cs\<rparr>)
     \<and> (NT_SUCCESS st \<longrightarrow> st = STATUS_SUCCESS \<and> d' = f (detours r ! i))
     \<and> (\<not> NT_SUCCESS st \<longrightarrow> d' = detours r ! i)
     \<and> (c = [] \<longrightarrow> st = STATUS_SUCCESS \<and> cs = []))"

lemma detour_update_call:
  assumes "focus s xs r ys" and "detour_update s xs r ys i f (tl c) (k (s\<lparr>api := tl c\<rparr>))"
  shows "detour_update s xs r ys i f c
    (bindS call_api (\<lambda>rc. if rc \<noteq> NO_ERROR then ret (DdkGetDetourStatus rc) else k) (s\<lparr>api := c\<rparr>))"
proof (cases "c = [] \<or> hd c = NO_ERROR")
  case True
  with assms(2) show ?thesis
    by (auto simp: bindS_def call_api_eq detour_update_def)
next
  case False
  have "s\<lparr>api := tl c\<rparr> = s\<lparr>regionlist := xs @ r\<lparr>detours := (detours r)[i := detours r ! i]\<rparr> # ys, api := tl c\<rparr>"
    using assms(1) by (simp add: focus_def)
  moreover have "\<not> NT_SUCCESS (DdkGetDetourStatus (hd c))" using False by (simp add: NT_SUCCESS_DdkGetDetourStatus)
  ultimately show ?thesis using False unfolding detour_update_def
    by (simp add: bindS_def call_api_eq) blast
qed

lemma DdkUpdateDetour_focus:
  assumes "focus s xs r ys"
  shows "detour_update s xs r ys i
    (\<lambda>d. d\<lparr>trampoline := (if enable then tramp_of s (func d) else func d)\<rparr>) (api s) (DdkUpdateDetour (base r) i enable s)"
proof -
  have foc: "focus (s\<lparr>api := c\<rparr>) xs r ys" for c using assms by (simp add: focus_def)
  have "detour_update s xs r ys i (\<lambda>d. d\<lparr>trampoline := (if enable then tramp_of s (func d) else func d)\<rparr>) (api s)
      (DdkUpdateDetour (base r) i enable (s\<lparr>api := api s\<rparr>))"
    unfolding DdkUpdateDetour_def
    by (rule detour_update_call [OF assms])+
       (auto simp: bindS_def set_detour_focus [OF foc] detour_update_def intro!: exI [of _ "tl (tl (tl (tl (api s))))"])
  then show ?thesis by simp
qed

lemma map_nth_cong: "length xs = length ys \<Longrightarrow> (\<And>j. j < length ys \<Longrightarrow> f (xs ! j) = f (ys ! j)) \<Longrightarrow> map f xs = map f ys"
  by (rule nth_equalityI) simp_all

lemma trampoline_same: "trampoline d = v \<Longrightarrow> d\<lparr>trampoline := v\<rparr> = d"
  by (cases d) simp

lemma DdkDetachDetour_focus:
  assumes foc: "focus s xs r ys" and i: "i < length (detours r)"
  shows "detour_update s xs r ys i (\<lambda>d. d\<lparr>trampoline := 0\<rparr>) (api s) (DdkDetachDetour (base r) i s)"
proof (cases "trampoline (detours r ! i) = 0")
  case True
  moreover have "s = s\<lparr>regionlist := xs @ r\<lparr>detours := (detours r)[i := (detours r ! i)\<lparr>trampoline := 0\<rparr>]\<rparr> # ys, api := api s\<rparr>"
    using foc True by (simp add: focus_def trampoline_same)
  ultimately show ?thesis using i unfolding detour_update_def
    by (auto simp add: DdkDetachDetour_def bindS_def detour_at_focus [OF foc] trampoline_same intro!: exI [of _ "api s"])
next
  case False
  obtain st d' cs where u: "DdkUpdateDetour (base r) i False s
      = Inr (st, s\<lparr>regionlist := xs @ r\<lparr>detours := (detours r)[i := d']\<rparr> # ys, api := cs\<rparr>)"
    "NT_SUCCESS st \<Longrightarrow> st = STATUS_SUCCESS \<and> d' = (detours r ! i)\<lparr>trampoline := func (detours r ! i)\<rparr>"
    "\<not> NT_SUCCESS st \<Longrightarrow> d' = detours r ! i" "api s = [] \<Longrightarrow> st = STATUS_SUCCESS \<and> cs = []"
    using DdkUpdateDetour_focus [OF foc, of i False] by (auto simp: detour_update_def)
  have foc': "focus (s\<lparr>regionlist := xs @ r\<lparr>detours := (detours r)[i := d']\<rparr> # ys, api := cs\<rparr>) xs (r\<lparr>detours := (detours r)[i := d']\<rparr>) ys"
    using foc by (intro focus_upd) simp_all
  show ?thesis
  proof (cases "NT_SUCCESS st")
    case True
    with u False i set_detour_focus [OF foc'] show ?thesis unfolding detour_update_def
      by (auto simp add: DdkDetachDetour_def bindS_def detour_at_focus [OF foc] intro!: exI [of _ cs])
  next
    case F: False
    with u False i show ?thesis unfolding detour_update_def
      by (auto simp add: DdkDetachDetour_def bindS_def detour_at_focus [OF foc])
  qed
qed

lemma DdkAttachDetour_focus:
  assumes foc: "focus s xs r ys" and i: "i < length (detours r)" and tr: "trampoline (detours r ! i) = 0"
  shows "detour_update s xs r ys i (\<lambda>d. d\<lparr>trampoline := tramp_of s (func d)\<rparr>) (api s) (DdkAttachDetour (base r) i s)"
proof -
  let ?d = "detours r ! i"
  let ?r = "r\<lparr>detours := (detours r)[i := ?d\<lparr>trampoline := func ?d\<rparr>]\<rparr>"
  let ?s = "s\<lparr>regionlist := xs @ ?r # ys\<rparr>"
  have foc1: "focus ?s xs ?r ys" using foc by (intro focus_upd) simp_all
  obtain st d' cs where u: "DdkUpdateDetour (base ?r) i True ?s
      = Inr (st, ?s\<lparr>regionlist := xs @ ?r\<lparr>detours := (detours ?r)[i := d']\<rparr> # ys, api := cs\<rparr>)"
    "NT_SUCCESS st \<Longrightarrow> st = STATUS_SUCCESS \<and> d' = ?d\<lparr>trampoline := tramp_of s (func ?d)\<rparr>"
    "\<not> NT_SUCCESS st \<Longrightarrow> d' = ?d\<lparr>trampoline := func ?d\<rparr>" "api s = [] \<Longrightarrow> st = STATUS_SUCCESS \<and> cs = []"
    using DdkUpdateDetour_focus [OF foc1, of i True] i by (auto simp: detour_update_def)
  have foc2: "focus (s\<lparr>regionlist := xs @ r\<lparr>detours := (detours r)[i := d']\<rparr> # ys, api := cs\<rparr>) xs (r\<lparr>detours := (detours r)[i := d']\<rparr>) ys"
    using foc by (intro focus_upd) simp_all
  have undo: "?d\<lparr>trampoline := 0\<rparr> = ?d" using tr by (rule trampoline_same)
  show ?thesis
  proof (cases "NT_SUCCESS st")
    case True
    with u i tr show ?thesis unfolding detour_update_def
      by (auto simp add: DdkAttachDetour_def bindS_def detour_at_focus [OF foc] set_detour_focus [OF foc])
  next
    case F: False
    with u i tr set_detour_focus [OF foc2, of i "\<lambda>d. d\<lparr>trampoline := 0\<rparr>"] undo show ?thesis unfolding detour_update_def
      by (auto simp add: DdkAttachDetour_def bindS_def detour_at_focus [OF foc] set_detour_focus [OF foc]
            intro!: exI [of _ cs])
  qed
qed

subsection \<open>Freeing an intercept of a region that is held\<close>

lemma shrink_le: "shrink ds h \<le> h"
  by (induction ds h rule: shrink.induct) auto

lemma shrink_above: "shrink ds h \<le> i \<Longrightarrow> i < h \<Longrightarrow> func (ds ! i) = 0"
  by (induction ds h rule: shrink.induct) (auto simp: less_Suc_eq split: if_splits)

lemma wf_region_shrink:
  assumes "wf_region r"
  shows "wf_region (r\<lparr>hwm := shrink (detours r) (hwm r)\<rparr>)"
proof -
  have "func (detours r ! i) = 0" if "shrink (detours r) (hwm r) \<le> i" "i < rcount r" for i
    using assms that shrink_above [of "detours r" "hwm r" i] by (cases "i < hwm r") (simp_all add: wf_region_def)
  with assms le_trans [OF shrink_le [of "detours r" "hwm r"]] show ?thesis by (simp add: wf_region_def)
qed

lemma free_slots_update:
  "i < length ds \<Longrightarrow> free_slots (ds[i := d]) + (if func (ds ! i) = 0 then 1 else 0) = free_slots ds + (if func d = 0 then 1 else 0)"
proof (induction ds arbitrary: i)
  case (Cons x ds)
  then show ?case by (cases i) (auto simp: free_slots_def split: if_splits)
qed simp

lemma free_slots_le: "free_slots ds \<le> length ds"
  by (simp add: free_slots_def)

text \<open>Replacing a detour by one that is in use when the old one is.\<close>

lemma wf_region_set:
  assumes "wf_region r" "i < length (detours r)" "wf_detour d" "func d = func (detours r ! i)"
  shows "wf_region (r\<lparr>detours := (detours r)[i := d]\<rparr>)"
  using assms free_slots_update [of i "detours r" d] set_update_subset_insert [of "detours r" i d]
  by (auto simp: wf_region_def nth_list_update split: if_splits)

lemma wf_detour_at: "wf_region r \<Longrightarrow> i < length (detours r) \<Longrightarrow> wf_detour (detours r ! i)"
  by (simp add: wf_region_def)

text \<open>\<open>r'\<close> is \<open>r\<close> with the intercepts of detour \<open>i\<close> replaced; the detour may have been released.\<close>

definition changed :: "REGION \<Rightarrow> nat \<Rightarrow> INTERCEPT list \<Rightarrow> REGION \<Rightarrow> bool" where
  "changed r i ics r' \<longleftrightarrow> base r' = base r \<and> rrefcount r' = rrefcount r \<and> rcount r' = rcount r \<and> hwm r' \<le> hwm r \<and> wf_region r'
     \<and> (\<exists>d'. detours r' = (detours r)[i := d'] \<and> intercepts d' = ics \<and> (ics \<noteq> [] \<longrightarrow> func d' = func (detours r ! i)))"

lemma wf_release_detour:
  assumes "wf_region r" "i < length (detours r)" "intercepts (detours r ! i) = []"
  shows "changed r i [] (release_detour i r)"
    and "trampoline (detours r ! i) = 0 \<Longrightarrow> func (detours (release_detour i r) ! i) = 0"
    and "trampoline (detours r ! i) \<noteq> 0 \<Longrightarrow> detours (release_detour i r) = detours r"
proof -
  let ?d = "detours r ! i"
  let ?r = "if trampoline ?d = 0 \<and> func ?d \<noteq> 0
    then r\<lparr>detours := (detours r)[i := ?d\<lparr>func := 0\<rparr>], freecount := freecount r + 1\<rparr> else r"
  have eq: "release_detour i r = ?r\<lparr>hwm := shrink (detours ?r) (hwm ?r)\<rparr>" by (simp add: release_detour_def Let_def)
  have "wf_region ?r"
    using assms free_slots_update [of i "detours r" "?d\<lparr>func := 0\<rparr>"] set_update_subset_insert [of "detours r" i "?d\<lparr>func := 0\<rparr>"]
    by (auto simp: wf_region_def wf_detour_def nth_list_update split: if_splits)
  then have "wf_region (release_detour i r)"
    unfolding eq by (rule wf_region_shrink)
  moreover have "hwm (release_detour i r) \<le> hwm r" unfolding eq using shrink_le by simp
  moreover have "\<exists>d'. detours (release_detour i r) = (detours r)[i := d'] \<and> intercepts d' = []"
    unfolding eq using assms(3) list_update_id [of "detours r" i, symmetric]
    by (cases "trampoline ?d = 0 \<and> func ?d \<noteq> 0") (force intro: exI [of _ "?d\<lparr>func := 0\<rparr>"] exI [of _ ?d])+
  ultimately show "changed r i [] (release_detour i r)" unfolding changed_def eq by simp
  show "trampoline ?d = 0 \<Longrightarrow> func (detours (release_detour i r) ! i) = 0" unfolding eq using assms(2) by simp
  show "trampoline ?d \<noteq> 0 \<Longrightarrow> detours (release_detour i r) = detours r" unfolding eq by simp
qed

lemma DdkFreeDetour_held:
  assumes foc: "focus s xs r ys" and wf: "wf_region r" and i: "i < length (detours r)"
    and none: "intercepts (detours r ! i) = []" and held: "rrefcount r \<noteq> 0"
  shows "\<exists>st r' cs. DdkFreeDetour (base r) i s = Inr (st, s\<lparr>regionlist := xs @ r' # ys, api := cs\<rparr>) \<and> changed r i [] r'
    \<and> (api s = [] \<longrightarrow> st = STATUS_SUCCESS \<and> cs = [] \<and> func (detours r' ! i) = 0)"
proof -
  let ?d = "detours r ! i"
  obtain st d' cs where u: "DdkDetachDetour (base r) i s
      = Inr (st, s\<lparr>regionlist := xs @ r\<lparr>detours := (detours r)[i := d']\<rparr> # ys, api := cs\<rparr>)"
    "d' = (if NT_SUCCESS st then ?d\<lparr>trampoline := 0\<rparr> else ?d)" "api s = [] \<Longrightarrow> st = STATUS_SUCCESS \<and> cs = []"
    using DdkDetachDetour_focus [OF foc i] unfolding detour_update_def by metis
  let ?r = "r\<lparr>detours := (detours r)[i := d']\<rparr>"
  let ?s = "s\<lparr>regionlist := xs @ ?r # ys, api := cs\<rparr>"
  let ?q = "release_detour i ?r"
  have foc1: "focus ?s xs ?r ys" using foc by (intro focus_upd) simp_all
  have "wf_region ?r" using wf i wf_detour_at [OF wf i] u(2) by (intro wf_region_set) (auto simp: wf_detour_def)
  note q = wf_release_detour [OF this, of i]
  have ch: "changed ?r i [] ?q" using q(1) i none u(2) by simp
  then have b: "base ?q = base r" "rrefcount ?q = rrefcount r" by (simp_all add: changed_def)
  have foc2: "focus (?s\<lparr>regionlist := xs @ ?q # ys\<rparr>) xs ?q ys"
    by (rule focus_upd(3) [OF foc1]) (use b in simp)
  have "DdkFreeDetour (base r) i s = Inr (st, ?s\<lparr>regionlist := xs @ ?q # ys\<rparr>)"
    using none i held u(1) set_region_focus [OF foc1] DdkFreeRegion_focus [OF foc2] b
    by (simp add: DdkFreeDetour_def bindS_def detour_at_focus [OF foc])
  moreover have "changed r i [] ?q" using ch by (auto simp: changed_def)
  moreover have "api s = [] \<Longrightarrow> func (detours ?q ! i) = 0" using q(2) u(2,3) i none by simp
  ultimately show ?thesis using u(3) by (intro exI [of _ st] exI [of _ ?q] exI [of _ cs]) simp
qed

lemma DdkFreeIntercept_held:
  assumes foc: "focus s xs r ys" and wf: "wf_region r" and i: "i < length (detours r)" and held: "rrefcount r \<noteq> 0"
    and ics: "intercepts (detours r ! i) = pre @ p # rest"
  shows "\<exists>st r' cs. DdkFreeIntercept p (Some (base r, i)) s
           = Inr (st, s\<lparr>regionlist := xs @ r' # ys, api := cs, imem := imem s + 1\<rparr>) \<and> changed r i (pre @ rest) r'
    \<and> (api s = [] \<longrightarrow> st = STATUS_SUCCESS \<and> cs = [] \<and> (pre @ rest = [] \<longrightarrow> func (detours r' ! i) = 0))"
proof -
  let ?d = "detours r ! i"
  let ?e = "?d\<lparr>intercepts := pre @ rest\<rparr>"
  let ?r = "r\<lparr>detours := (detours r)[i := ?e]\<rparr>"
  let ?s = "s\<lparr>regionlist := xs @ ?r # ys\<rparr>"
  have dist: "distinct (map iid (pre @ p # rest))" using wf_detour_at [OF wf i] ics by (simp add: wf_detour_def)
  then have "\<forall>q \<in> set pre \<union> set rest. iid q \<noteq> iid p" by (auto simp: image_iff)
  then have del: "filter (\<lambda>q. iid q \<noteq> iid p) (intercepts ?d) = pre @ rest"
    unfolding ics by simp
  have foc1: "focus ?s xs ?r ys" using foc by (intro focus_upd) simp_all
  have wf1: "wf_region ?r" using wf i wf_detour_at [OF wf i] ics by (intro wf_region_set) (auto simp: wf_detour_def)
  have eq: "DdkFreeIntercept p (Some (base r, i)) s
      = (case DdkFreeDetour (base r) i ?s of Inl e \<Rightarrow> Inl e | Inr (st, t) \<Rightarrow> Inr (st, t\<lparr>imem := imem t + 1\<rparr>))"
    using i by (simp add: DdkFreeIntercept_def bindS_def detour_at_focus [OF foc] set_detour_focus [OF foc] del split: sum.splits)
  show ?thesis
  proof (cases "pre @ rest = []")
    case True
    obtain st r' cs where f: "DdkFreeDetour (base ?r) i ?s = Inr (st, ?s\<lparr>regionlist := xs @ r' # ys, api := cs\<rparr>)" "changed ?r i [] r'"
      "api ?s = [] \<longrightarrow> st = STATUS_SUCCESS \<and> cs = [] \<and> func (detours r' ! i) = 0"
      using DdkFreeDetour_held [OF foc1 wf1, of i] i held True by auto
    then have "changed r i (pre @ rest) r'" using True by (auto simp: changed_def)
    with f eq show ?thesis by auto
  next
    case False
    then have "DdkFreeDetour (base r) i ?s = Inr (STATUS_SUCCESS, ?s)"
      using i detour_at_focus [OF foc1, of i] by (simp add: DdkFreeDetour_def bindS_def)
    moreover have "changed r i (pre @ rest) ?r" using wf1 by (auto simp: changed_def)
    moreover have "?s\<lparr>imem := imem s + 1\<rparr> = s\<lparr>regionlist := xs @ ?r # ys, api := api s, imem := imem s + 1\<rparr>" by simp
    ultimately show ?thesis using eq False by (intro exI [of _ STATUS_SUCCESS] exI [of _ ?r] exI [of _ "api s"]) auto
  qed
qed

lemma changed_trans:
  assumes "changed r i a r1" "changed r1 i b r2" "i < length (detours r)" "b \<noteq> [] \<longrightarrow> a \<noteq> []"
  shows "changed r i b r2"
  using assms by (auto simp: changed_def)

lemma FreeMatching_held:
  assumes "focus s xs r ys" "wf_region r" "i < length (detours r)" "rrefcount r \<noteq> 0"
    and "intercepts (detours r ! i) = pre @ rest"
  shows "\<exists>st' r' cs m. FreeMatching hit (base r) i rest st s = Inr (st', s\<lparr>regionlist := xs @ r' # ys, api := cs, imem := m\<rparr>)
     \<and> changed r i (pre @ filter (\<lambda>p. \<not> hit p) rest) r'
     \<and> (api s = [] \<longrightarrow> st' = st \<and> cs = [] \<and> (pre @ rest \<noteq> [] \<and> pre @ filter (\<lambda>p. \<not> hit p) rest = []
          \<longrightarrow> func (detours r' ! i) = 0))"
  using assms
proof (induction rest arbitrary: s r pre st)
  case Nil
  moreover have "changed r i pre r" using Nil.prems by (auto simp: changed_def intro!: exI [of _ "detours r ! i"])
  ultimately show ?case
    by (intro exI [of _ st] exI [of _ r] exI [of _ "api s"] exI [of _ "imem s"]) (simp add: focus_def)
next
  case (Cons p rest)
  note foc = Cons.prems(1)
  show ?case
  proof (cases "hit p")
    case False
    then show ?thesis using Cons.IH [of s r "pre @ [p]" st] Cons.prems by simp
  next
    case True
    obtain st1 r1 cs1 where f: "DdkFreeIntercept p (Some (base r, i)) s
        = Inr (st1, s\<lparr>regionlist := xs @ r1 # ys, api := cs1, imem := imem s + 1\<rparr>)" "changed r i (pre @ rest) r1"
      "api s = [] \<longrightarrow> st1 = STATUS_SUCCESS \<and> cs1 = [] \<and> (pre @ rest = [] \<longrightarrow> func (detours r1 ! i) = 0)"
      using DdkFreeIntercept_held [OF Cons.prems] by metis
    let ?s = "s\<lparr>regionlist := xs @ r1 # ys, api := cs1, imem := imem s + 1\<rparr>"
    let ?st = "if NT_SUCCESS st1 then st else st1"
    have b: "base r1 = base r" "rrefcount r1 = rrefcount r" "wf_region r1" "i < length (detours r1)"
        "intercepts (detours r1 ! i) = pre @ rest"
      using f(2) Cons.prems(3) by (auto simp: changed_def)
    have "focus ?s xs r1 ys" using foc b(1) by (intro focus_upd)
    moreover have "rrefcount r1 \<noteq> 0" using Cons.prems(4) b(2) by simp
    ultimately obtain st' r' cs m where g: "FreeMatching hit (base r1) i rest ?st ?s = Inr (st', ?s\<lparr>regionlist := xs @ r' # ys, api := cs, imem := m\<rparr>)"
      "changed r1 i (pre @ filter (\<lambda>p. \<not> hit p) rest) r'"
      "api ?s = [] \<longrightarrow> st' = ?st \<and> cs = [] \<and> (pre @ rest \<noteq> [] \<and> pre @ filter (\<lambda>p. \<not> hit p) rest = []
          \<longrightarrow> func (detours r' ! i) = 0)"
      using Cons.IH [of ?s r1 pre ?st] b(3-5) by blast
    have "changed r i (pre @ filter (\<lambda>p. \<not> hit p) rest) r'"
      by (rule changed_trans [OF f(2) g(2) Cons.prems(3)]) auto
    moreover have "FreeMatching hit (base r) i (p # rest) st s = Inr (st', s\<lparr>regionlist := xs @ r' # ys, api := cs, imem := m\<rparr>)"
      using True f(1) g(1) b(1) by (simp add: bindS_def)
    moreover have "func (detours r' ! i) = 0" if "api s = []" "pre @ filter (\<lambda>p. \<not> hit p) rest = []"
    proof (cases "pre @ rest = []")
      case True
      then have "rest = []" by simp
      with g(1) have "?s = s\<lparr>regionlist := xs @ r' # ys, api := cs, imem := m\<rparr>" by simp
      from arg_cong [OF this, of regionlist] have "r' = r1" by simp
      with f(3) that True show ?thesis by simp
    next
      case False
      with g(3) f(3) that show ?thesis by simp
    qed
    ultimately show ?thesis using f(3) g(3) True
      by (intro exI [of _ st'] exI [of _ r'] exI [of _ cs] exI [of _ m]) auto
  qed
qed

subsection \<open>Detaching\<close>

definition spared :: "(nat \<Rightarrow> bool) \<Rightarrow> (INTERCEPT \<Rightarrow> bool) \<Rightarrow> nat \<times> INTERCEPT \<Rightarrow> bool" where
  "spared sel hit x \<longleftrightarrow> \<not> (sel (fst x) \<and> hit (snd x))"

text \<open>\<open>r'\<close> is \<open>r\<close> after the loop has treated the detours below \<open>k\<close>.\<close>

definition swept :: "(nat \<Rightarrow> bool) \<Rightarrow> (INTERCEPT \<Rightarrow> bool) \<Rightarrow> nat \<Rightarrow> nat \<Rightarrow> REGION \<Rightarrow> REGION \<Rightarrow> bool" where
  "swept sel hit i k r r' \<longleftrightarrow> base r' = base r \<and> rrefcount r' = rrefcount r \<and> rcount r' = rcount r \<and> hwm r' \<le> hwm r \<and> wf_region r'
     \<and> length (detours r') = length (detours r)
     \<and> (\<forall>j < length (detours r). tagged (detours r' ! j)
          = (if i \<le> j \<and> j < k then filter (spared sel hit) (tagged (detours r ! j)) else tagged (detours r ! j)))"

lemma tagged_unused: "wf_detour d \<Longrightarrow> func d = 0 \<Longrightarrow> tagged d = []"
  by (simp add: wf_detour_def tagged_def)

lemma tagged_changed:
  assumes "changed r i ics r'" "i < length (detours r)"
  shows "tagged (detours r' ! i) = map (Pair (func (detours r ! i))) ics"
    and "j \<noteq> i \<Longrightarrow> detours r' ! j = detours r ! j" and "length (detours r') = length (detours r)"
  using assms by (auto simp: changed_def tagged_def)

lemma filter_spared:
  "filter (spared sel hit) (tagged d) = map (Pair (func d)) (if sel (func d) then filter (\<lambda>p. \<not> hit p) (intercepts d) else intercepts d)"
  by (simp add: tagged_def filter_map spared_def comp_def)

lemma sweep_one:
  assumes foc: "focus s xs r ys" and wf: "wf_region r" and i: "i < length (detours r)" and held: "rrefcount r \<noteq> 0"
  defines "d \<equiv> detours r ! i"
  shows "\<exists>st' r' cs m. (if sel (func d) then FreeMatching hit (base r) i (intercepts d) st else ret st) s
           = Inr (st', s\<lparr>regionlist := xs @ r' # ys, api := cs, imem := m\<rparr>)
     \<and> changed r i (if sel (func d) then filter (\<lambda>p. \<not> hit p) (intercepts d) else intercepts d) r'
     \<and> (api s = [] \<longrightarrow> st' = st \<and> cs = [] \<and> (needed r \<longrightarrow> needed r'))"
proof (cases "sel (func d) \<and> intercepts d \<noteq> []")
  case True
  with FreeMatching_held [OF foc wf i held, of "[]" "intercepts d" hit st]
  obtain st' r' cs m where f: "FreeMatching hit (base r) i (intercepts d) st s = Inr (st', s\<lparr>regionlist := xs @ r' # ys, api := cs, imem := m\<rparr>)"
    "changed r i (filter (\<lambda>p. \<not> hit p) (intercepts d)) r'"
    "api s = [] \<longrightarrow> st' = st \<and> cs = [] \<and> (filter (\<lambda>p. \<not> hit p) (intercepts d) = [] \<longrightarrow> func (detours r' ! i) = 0)"
    unfolding d_def by auto
  have "needed r'" if n: "needed r" "api s = []" unfolding needed_def
  proof (intro ballI impI)
    fix e assume "e \<in> set (detours r')" "func e \<noteq> 0"
    then obtain j where j: "j < length (detours r')" "e = detours r' ! j" by (metis in_set_conv_nth)
    show "intercepts e \<noteq> []"
    proof (cases "j = i")
      case True
      have "intercepts (detours r' ! i) = filter (\<lambda>p. \<not> hit p) (intercepts d)" using f(2) i by (auto simp: changed_def)
      with f(3) n j \<open>func e \<noteq> 0\<close> True show ?thesis by auto
    next
      case False
      with j n \<open>func e \<noteq> 0\<close> tagged_changed(2,3) [OF f(2) i] show ?thesis by (simp add: needed_def)
    qed
  qed
  with True f show ?thesis by auto
next
  case False
  moreover have "changed r i (intercepts d) r" using wf unfolding d_def by (auto simp: changed_def intro!: exI [of _ "detours r ! i"])
  ultimately show ?thesis using foc
    by (intro exI [of _ st] exI [of _ r] exI [of _ "api s"] exI [of _ "imem s"]) (auto simp: focus_def)
qed

lemma DetachDetours_held:
  assumes "focus s xs r ys" "wf_region r" "rrefcount r \<noteq> 0" "hwm r \<le> i + n"
  shows "\<exists>st' r' cs m. DetachDetours sel hit (base r) n i st s = Inr (st', s\<lparr>regionlist := xs @ r' # ys, api := cs, imem := m\<rparr>)
     \<and> swept sel hit i (i + n) r r' \<and> (api s = [] \<longrightarrow> st' = st \<and> cs = [] \<and> (needed r \<longrightarrow> needed r'))"
  using assms
proof (induction n arbitrary: i s r st)
  case 0
  then show ?case
    by (intro exI [of _ st] exI [of _ r] exI [of _ "api s"] exI [of _ "imem s"]) (auto simp: focus_def swept_def)
next
  case (Suc n)
  note foc = Suc.prems(1) and wf = Suc.prems(2)
  show ?case
  proof (cases "i < hwm r")
    case False
    have "tagged (detours r ! j) = []" if "i \<le> j" "j < length (detours r)" for j
      using wf False that by (intro tagged_unused) (auto simp: wf_region_def)
    then have "swept sel hit i (i + Suc n) r r" using wf by (simp add: swept_def)
    with False foc show ?thesis
      by (intro exI [of _ st] exI [of _ r] exI [of _ "api s"] exI [of _ "imem s"])
         (simp add: bindS_def region_at_focus [OF foc], simp add: focus_def)
  next
    case True
    then have i: "i < length (detours r)" using wf by (simp add: wf_region_def)
    let ?d = "detours r ! i"
    let ?step = "if sel (func ?d) then FreeMatching hit (base r) i (intercepts ?d) st else ret st"
    let ?ics = "if sel (func ?d) then filter (\<lambda>p. \<not> hit p) (intercepts ?d) else intercepts ?d"
    obtain st1 r1 cs1 m1 where f: "?step s = Inr (st1, s\<lparr>regionlist := xs @ r1 # ys, api := cs1, imem := m1\<rparr>)"
      "changed r i ?ics r1" "api s = [] \<longrightarrow> st1 = st \<and> cs1 = [] \<and> (needed r \<longrightarrow> needed r1)"
      using sweep_one [OF foc wf i Suc.prems(3)] by blast
    let ?s = "s\<lparr>regionlist := xs @ r1 # ys, api := cs1, imem := m1\<rparr>"
    note tc = tagged_changed [OF f(2) i]
    have b: "base r1 = base r" "rrefcount r1 = rrefcount r" "wf_region r1" "hwm r1 \<le> hwm r" "rcount r1 = rcount r"
      using f(2) by (auto simp: changed_def)
    have "focus ?s xs r1 ys" using foc b(1) by (intro focus_upd)
    moreover have "rrefcount r1 \<noteq> 0" "hwm r1 \<le> Suc i + n" using Suc.prems(3,4) b by simp_all
    ultimately obtain st' r' cs m where g: "DetachDetours sel hit (base r1) n (Suc i) st1 ?s
          = Inr (st', ?s\<lparr>regionlist := xs @ r' # ys, api := cs, imem := m\<rparr>)"
      "swept sel hit (Suc i) (Suc i + n) r1 r'" "api ?s = [] \<longrightarrow> st' = st1 \<and> cs = [] \<and> (needed r1 \<longrightarrow> needed r')"
      using Suc.IH [of ?s r1 "Suc i" st1] b(3) by blast
    have "swept sel hit i (i + Suc n) r r'"
      using f(2) g(2) tc(2,3) tc(1) [unfolded filter_spared [symmetric]] b
      by (auto simp: swept_def Suc_le_eq nat_less_le [of i])
    moreover have "DetachDetours sel hit (base r) (Suc n) i st s = Inr (st', s\<lparr>regionlist := xs @ r' # ys, api := cs, imem := m\<rparr>)"
      using True i f(1) g(1) b(1) by (simp add: bindS_def region_at_focus [OF foc] detour_at_focus [OF foc])
    ultimately show ?thesis using f(3) g(3)
      by (intro exI [of _ st'] exI [of _ r'] exI [of _ cs] exI [of _ m]) auto
  qed
qed

lemma swept_view:
  assumes "swept sel hit 0 k r r'" "wf_region r" "hwm r \<le> k"
  shows "region_view r' = filter (spared sel hit) (region_view r)"
proof -
  have "tagged (detours r' ! j) = filter (spared sel hit) (tagged (detours r ! j))" if "j < length (detours r)" for j
  proof (cases "j < k")
    case False
    then have "tagged (detours r ! j) = []"
      using that assms(2,3) by (intro tagged_unused) (auto simp: wf_region_def)
    with assms(1) that False show ?thesis by (simp add: swept_def)
  qed (use assms(1) that in \<open>simp add: swept_def\<close>)
  then have "map tagged (detours r') = map (\<lambda>d. filter (spared sel hit) (tagged d)) (detours r)"
    using assms(1) by (intro nth_equalityI) (simp_all add: swept_def)
  then show ?thesis by (simp add: region_view_def filter_concat comp_def)
qed

definition alive :: "DET \<Rightarrow> REGION \<Rightarrow> bool" where
  "alive s r \<longleftrightarrow> wf_region r \<and> rrefcount r = 0 \<and> freecount r < rcount r \<and> (\<forall>x \<in> set (region_view r). iid (snd x) < next_iid s)"

lemma wf_det_iff: "wf_det s \<longleftrightarrow> distinct (map base (regionlist s)) \<and> (\<forall>r \<in> set (regionlist s). alive s r)"
  by (force simp: wf_det_def alive_def region_view_def tagged_def)

lemma unused_region_view: "wf_region r \<Longrightarrow> freecount r = rcount r \<Longrightarrow> region_view r = []"
proof -
  assume wf: "wf_region r" and "freecount r = rcount r"
  then have "\<forall>d \<in> set (detours r). func d = 0"
    by (metis (mono_tags, lifting) free_slots_def wf_region_def length_filter_less nat_less_le)
  with wf show ?thesis by (auto simp: region_view_def wf_region_def intro: tagged_unused)
qed

text \<open>One region of the loop: afterwards it is in the list, or it was unused and has been released.\<close>

lemma DetachRegion:
  assumes foc: "focus s xs r ys" and al: "alive s r"
  shows "\<exists>st' s' L. bindS (DdkAddReference (base r)) (\<lambda>_. bindS (region_at (base r)) (\<lambda>q.
      bindS (DetachDetours sel hit (base r) (hwm q) 0 st) (\<lambda>st. bindS (DdkDeleteReference (base r)) (\<lambda>_. ret st)))) s = Inr (st', s')
     \<and> regionlist s' = xs @ L @ ys \<and> next_iid s' = next_iid s \<and> region_supply s' = region_supply s \<and> tramp_of s' = tramp_of s
     \<and> map base L \<in> {[], [base r]} \<and> (\<forall>q \<in> set L. alive s q)
     \<and> concat (map region_view L) = filter (spared sel hit) (region_view r)
     \<and> (api s = [] \<longrightarrow> st' = st \<and> api s' = [] \<and> (needed r \<longrightarrow> (\<forall>q \<in> set L. needed q)))"
proof -
  let ?r = "r\<lparr>rrefcount := rrefcount r + 1\<rparr>"
  let ?s = "s\<lparr>regionlist := xs @ ?r # ys\<rparr>"
  have foc1: "focus ?s xs ?r ys" using foc by (intro focus_upd) simp_all
  have wf: "wf_region ?r" using al by (simp add: alive_def wf_region_def)
  obtain st1 r1 cs m where d: "DetachDetours sel hit (base r) (hwm r) 0 st ?s = Inr (st1, ?s\<lparr>regionlist := xs @ r1 # ys, api := cs, imem := m\<rparr>)"
    "swept sel hit 0 (hwm r) ?r r1" "api s = [] \<longrightarrow> st1 = st \<and> cs = [] \<and> (needed ?r \<longrightarrow> needed r1)"
    using DetachDetours_held [OF foc1 wf, of 0 "hwm r" sel hit st] by auto
  let ?t = "s\<lparr>regionlist := xs @ r1 # ys, api := cs, imem := m\<rparr>"
  let ?q = "r1\<lparr>rrefcount := rrefcount r1 - 1\<rparr>"
  have b: "base r1 = base r" "rrefcount r1 = 1" "wf_region ?q" using d(2) al by (auto simp: swept_def alive_def wf_region_def)
  have foc2: "focus ?t xs r1 ys" using foc b(1) by (intro focus_upd)
  have foc3: "focus (?t\<lparr>regionlist := xs @ ?q # ys\<rparr>) xs ?q ys" by (rule focus_upd(3) [OF foc2]) simp
  have v: "region_view ?q = filter (spared sel hit) (region_view r)"
    using swept_view [OF d(2) wf] by (simp add: region_view_def)
  have run: "bindS (DdkAddReference (base r)) (\<lambda>_. bindS (region_at (base r)) (\<lambda>q.
      bindS (DetachDetours sel hit (base r) (hwm q) 0 st) (\<lambda>st. bindS (DdkDeleteReference (base r)) (\<lambda>_. ret st)))) s
     = Inr (st1, if freecount r1 \<noteq> rcount r1 then ?t\<lparr>regionlist := xs @ ?q # ys\<rparr>
         else ?t\<lparr>regionlist := xs @ ys, released := base r # released s\<rparr>)"
    using d(1) b(1,2) set_region_focus [OF foc2] DdkFreeRegion_focus [OF foc3] region_at_focus [OF foc1]
    by (simp add: bindS_def DdkAddReference_def DdkDeleteReference_def set_region_focus [OF foc])
  have n: "needed ?q = needed r1" "needed ?r = needed r" by (simp_all add: needed_def)
  show ?thesis
  proof (cases "freecount r1 = rcount r1")
    case True
    with b v unused_region_view [of ?q] have "filter (spared sel hit) (region_view r) = []" by simp
    with True run d(3) n show ?thesis 
      by (intro exI [of _ st1] exI [of _ "?t\<lparr>regionlist := xs @ ys, released := base r # released s\<rparr>"] exI [of _ "[]"]) simp
  next
    case False
    have "freecount r1 < rcount r1" using False b(3) free_slots_le [of "detours r1"] by (simp add: wf_region_def)
    moreover have "iid (snd x) < next_iid s" if "x \<in> set (region_view ?q)" for x
      using that al unfolding v alive_def by auto
    ultimately have "alive s ?q" using b by (simp add: alive_def)
    with False run d(3) n b v show ?thesis 
      by (intro exI [of _ st1] exI [of _ "?t\<lparr>regionlist := xs @ ?q # ys\<rparr>"] exI [of _ "[?q]"]) simp
  qed
qed

lemma bindS_ret_fun: "bindS (ret x) f = f x"
  by (rule ext) simp

lemma DetachRegions_Cons:
  "DetachRegions sel hit (a # rest) st = bindS (bindS (DdkAddReference a) (\<lambda>_. bindS (region_at a) (\<lambda>q.
      bindS (DetachDetours sel hit a (hwm q) 0 st) (\<lambda>st. bindS (DdkDeleteReference a) (\<lambda>_. ret st))))) (DetachRegions sel hit rest)"
  by (simp add: bindS_assoc bindS_ret_fun)

lemma DetachRegions_run:
  assumes "regionlist s = xs @ ys" "distinct (map base (xs @ ys))" "\<forall>r \<in> set (xs @ ys). alive s r"
  shows "\<exists>st' s' L. DetachRegions sel hit (map base ys) st s = Inr (st', s') \<and> regionlist s' = xs @ L
     \<and> next_iid s' = next_iid s \<and> region_supply s' = region_supply s \<and> tramp_of s' = tramp_of s
     \<and> distinct (map base (xs @ L)) \<and> set (map base L) \<subseteq> set (map base ys) \<and> (\<forall>r \<in> set L. alive s r)
     \<and> concat (map region_view L) = filter (spared sel hit) (concat (map region_view ys))
     \<and> (api s = [] \<longrightarrow> st' = st \<and> api s' = [] \<and> ((\<forall>r \<in> set ys. needed r) \<longrightarrow> (\<forall>r \<in> set L. needed r)))"
  using assms
proof (induction ys arbitrary: s xs st)
  case Nil
  then show ?case by simp
next
  case (Cons r ys)
  have foc: "focus s xs r ys" using Cons.prems by (auto simp: focus_def image_iff)
  have "alive s r" using Cons.prems(3) by simp
  from DetachRegion [OF foc this, of sel hit st] obtain st1 s1 L1 where d: "bindS (DdkAddReference (base r)) (\<lambda>_. bindS (region_at (base r)) (\<lambda>q.
      bindS (DetachDetours sel hit (base r) (hwm q) 0 st) (\<lambda>st. bindS (DdkDeleteReference (base r)) (\<lambda>_. ret st)))) s = Inr (st1, s1)"
    "regionlist s1 = xs @ L1 @ ys" "next_iid s1 = next_iid s" "region_supply s1 = region_supply s" "tramp_of s1 = tramp_of s"
    "map base L1 \<in> {[], [base r]}" "\<forall>q \<in> set L1. alive s q"
    "concat (map region_view L1) = filter (spared sel hit) (region_view r)"
    "api s = [] \<longrightarrow> st1 = st \<and> api s1 = [] \<and> (needed r \<longrightarrow> (\<forall>q \<in> set L1. needed q))"
    by (elim exE conjE) (rule that; assumption)
  have al: "alive s1 q = alive s q" for q using d(3) by (simp add: alive_def)
  have p2: "distinct (map base ((xs @ L1) @ ys))" using Cons.prems(2) d(6) by (auto simp: image_iff)
  have p3: "\<forall>q \<in> set ((xs @ L1) @ ys). alive s1 q" using Cons.prems(3) d(7) al by auto
  have p1: "regionlist s1 = (xs @ L1) @ ys" using d(2) by simp
  from Cons.IH [OF p1 p2 p3, of st1] obtain st' s' L where e: "DetachRegions sel hit (map base ys) st1 s1 = Inr (st', s')" "regionlist s' = (xs @ L1) @ L"
     "next_iid s' = next_iid s1" "region_supply s' = region_supply s1" "tramp_of s' = tramp_of s1"
     "distinct (map base ((xs @ L1) @ L))" "set (map base L) \<subseteq> set (map base ys)" "\<forall>r \<in> set L. alive s1 r"
     "concat (map region_view L) = filter (spared sel hit) (concat (map region_view ys))"
     "api s1 = [] \<longrightarrow> st' = st1 \<and> api s' = [] \<and> ((\<forall>r \<in> set ys. needed r) \<longrightarrow> (\<forall>r \<in> set L. needed r))"
    by (elim exE conjE) (rule that; assumption)
  have "DetachRegions sel hit (map base (r # ys)) st s = Inr (st', s')"
    using d(1) e(1) by (simp only: list.map DetachRegions_Cons) (simp add: bindS_Inr)
  moreover have "regionlist s' = xs @ L1 @ L" "distinct (map base (xs @ L1 @ L))" using e(2,6) by simp_all
  moreover have "set (map base (L1 @ L)) \<subseteq> set (map base (r # ys))"
    using e(7) d(6) set_map [of base L1, symmetric] by (auto simp del: set_map simp: set_map [of base L] set_map [of base ys])
  moreover have "\<forall>q \<in> set (L1 @ L). alive s q" using d(7) e(8) al by auto
  moreover have "concat (map region_view (L1 @ L)) = filter (spared sel hit) (concat (map region_view (r # ys)))"
    using d(8) e(9) by simp
  moreover have "api s = [] \<longrightarrow> st' = st \<and> api s' = [] \<and> ((\<forall>q \<in> set (r # ys). needed q) \<longrightarrow> (\<forall>q \<in> set (L1 @ L). needed q))"
    using d(9) e(10) by (metis Un_iff list.set_intros set_append)
  ultimately show ?case using d(3-5) e(3-5)
    by (intro exI [of _ st'] exI [of _ s'] exI [of _ "L1 @ L"] conjI) (assumption | simp only:)+
qed

text \<open>The contract of the two routines that detach.\<close>

lemma DetachRegions_contract:
  assumes "wf_det s"
  shows "\<exists>st s'. bindS (gets (\<lambda>s. map base (regionlist s))) (\<lambda>rs. DetachRegions sel hit rs STATUS_SUCCESS) s = Inr (st, s')
     \<and> wf_det s' \<and> view s' = filter (spared sel hit) (view s)
     \<and> (api s = [] \<longrightarrow> st = STATUS_SUCCESS \<and> api s' = [] \<and> ((\<forall>r \<in> set (regionlist s). needed r) \<longrightarrow> (\<forall>r \<in> set (regionlist s'). needed r)))"
proof -
  obtain st' s' L where "DetachRegions sel hit (map base (regionlist s)) STATUS_SUCCESS s = Inr (st', s')" "regionlist s' = L"
     "next_iid s' = next_iid s" "distinct (map base L)" "\<forall>r \<in> set L. alive s r"
     "concat (map region_view L) = filter (spared sel hit) (view s)"
     "api s = [] \<longrightarrow> st' = STATUS_SUCCESS \<and> api s' = [] \<and> ((\<forall>r \<in> set (regionlist s). needed r) \<longrightarrow> (\<forall>r \<in> set L. needed r))"
    using DetachRegions_run [of s "[]" "regionlist s" sel hit STATUS_SUCCESS] assms by (auto simp: wf_det_iff view_def)
  moreover have "alive s' r = alive s r" for r using \<open>next_iid s' = next_iid s\<close> by (simp add: alive_def)
  ultimately show ?thesis by (auto simp: wf_det_iff view_def)
qed

subsection \<open>Attaching\<close>

text \<open>A region DetourAllocateRegionWithinJumpBounds returns is none of those in use.\<close>

definition fresh_supply :: "DET \<Rightarrow> bool" where
  "fresh_supply s \<longleftrightarrow> (case region_supply s of [] \<Rightarrow> True | (a, sz) # _ \<Rightarrow> a \<notin> set (map base (regionlist s)))"

text \<open>Detour \<open>i\<close> of region \<open>r\<close> in \<open>s'\<close> is the one of the function, and the intercepts are those of \<open>s\<close>.\<close>

definition has_detour :: "DET \<Rightarrow> nat \<Rightarrow> DET \<Rightarrow> REGION list \<Rightarrow> REGION \<Rightarrow> REGION list \<Rightarrow> nat \<Rightarrow> bool" where
  "has_detour s f s' xs r ys i \<longleftrightarrow> focus s' xs r ys \<and> i < length (detours r) \<and> func (detours r ! i) = f \<and> wf_det s'
     \<and> next_iid s' = next_iid s \<and> view s' = view s"

lemma find_Some: "List.find P xs = Some x \<Longrightarrow> x \<in> set xs \<and> P x"
  by (auto simp: find_Some_iff)

lemma split_region:
  assumes "wf_det s" "r \<in> set (regionlist s)"
  obtains xs ys where "focus s xs r ys" "alive s r"
proof -
  from assms(2) obtain xs ys where "regionlist s = xs @ r # ys" by (meson split_list)
  with assms show thesis by (intro that [of xs ys]) (auto simp: focus_def wf_det_iff image_iff)
qed

lemma FindDetour_has:
  assumes "wf_det s" "FindDetour f rs = Some (a, i)" "set rs \<subseteq> set (regionlist s)"
  shows "\<exists>xs r ys. base r = a \<and> has_detour s f s xs r ys i"
  using assms(2,3)
proof (induction rs)
  case (Cons r rs)
  show ?case
  proof (cases "DdkIsRegionWithinJumpBounds r f 0 \<and> find_in_region f r \<noteq> None")
    case True
    then have e: "find_in_region f r = Some i" "base r = a" using Cons.prems(1) by auto
    obtain xs ys where r: "focus s xs r ys" "alive s r" using Cons.prems(2) split_region [OF assms(1), of r] by auto
    from e find_Some [of _ "[0..<hwm r]" i] have "i < hwm r" "func (detours r ! i) = f" by (auto simp: find_in_region_def)
    with e r assms(1) show ?thesis
      by (intro exI [of _ xs] exI [of _ r] exI [of _ ys]) (simp add: has_detour_def alive_def wf_region_def)
  next
    case False
    with Cons show ?thesis by (auto split: if_splits option.splits)
  qed
qed simp

lemma wf_take_slot:
  assumes "wf_region r" "i < length (detours r)" "func (detours r ! i) = 0" "f \<noteq> 0"
  shows "wf_region (take_slot f i r)"
proof -
  let ?d = "\<lparr>func = f, trampoline = 0, intercepts = []\<rparr>"
  have "free_slots ((detours r)[i := ?d]) = free_slots (detours r) - 1"
    using free_slots_update [OF assms(2), of ?d] assms(3,4) by simp
  with assms set_update_subset_insert [of "detours r" i ?d] show ?thesis
    by (auto simp: wf_region_def take_slot_def wf_detour_def nth_list_update)
qed

lemma region_view_update:
  "i < length (detours r) \<Longrightarrow> tagged d = tagged (detours r ! i) \<Longrightarrow> region_view (r\<lparr>detours := (detours r)[i := d]\<rparr>) = region_view r"
  by (simp add: region_view_def map_update) (metis list_update_id map_update)

lemma free_slot_exists:
  assumes "wf_region r" "freecount r \<noteq> 0"
  shows "\<exists>i. List.find (\<lambda>i. func (detours r ! i) = 0) [0..<rcount r] = Some i \<and> i < length (detours r) \<and> func (detours r ! i) = 0"
proof -
  from assms have "filter (\<lambda>d. func d = 0) (detours r) \<noteq> []" by (auto simp: wf_region_def free_slots_def)
  then obtain i where "i < length (detours r)" "func (detours r ! i) = 0"
    by (auto simp: filter_empty_conv in_set_conv_nth)
  then have "List.find (\<lambda>i. func (detours r ! i) = 0) [0..<rcount r] \<noteq> None"
    using assms(1) by (auto simp: find_None_iff wf_region_def)
  then obtain j where j: "List.find (\<lambda>i. func (detours r ! i) = 0) [0..<rcount r] = Some j" by auto
  from find_Some [OF this] show ?thesis using j assms(1) by (auto simp: wf_region_def)
qed

text \<open>The part of DdkAllocateDetour after it has a region with a free detour.\<close>

definition AllocateInRegion :: "nat \<Rightarrow> nat \<Rightarrow> (NTSTATUS \<times> (nat \<times> nat), DET) st" where
  "AllocateInRegion f a = bindS (region_at a) (\<lambda>r.
     case List.find (\<lambda>i. func (detours r ! i) = 0) [0..<rcount r] of
       None \<Rightarrow> fail (DdkFail ''Region has no free detours'')
     | Some i \<Rightarrow> bindS (set_region a (take_slot f i)) (\<lambda>_. bindS (DdkAttachDetour a i) (\<lambda>status.
         if \<not> NT_SUCCESS status then bindS (DdkFreeDetour a i) (\<lambda>_. ret (status, (0, 0))) else ret (STATUS_SUCCESS, (a, i)))))"

lemma wf_det_focus:
  assumes "focus s xs r ys" "distinct (map base (xs @ r # ys))"
  shows "wf_det s \<longleftrightarrow> alive s r \<and> (\<forall>q \<in> set (xs @ ys). alive s q)"
  using assms by (auto simp: wf_det_iff focus_def)

lemma view_focus: "focus s xs r ys \<Longrightarrow> view s = concat (map region_view xs) @ region_view r @ concat (map region_view ys)"
  by (simp add: view_def focus_def)

lemma region_view_take_slot:
  assumes "wf_region r" "i < length (detours r)" "func (detours r ! i) = 0"
  shows "region_view ((take_slot f i r)\<lparr>detours := (detours (take_slot f i r))[i := \<lparr>func = g, trampoline = v, intercepts = []\<rparr>]\<rparr>) = region_view r"
proof -
  have "tagged (detours r ! i) = []" using assms by (simp add: wf_detour_at tagged_unused)
  then show ?thesis
    using region_view_update [OF assms(2), of "\<lparr>func = g, trampoline = v, intercepts = []\<rparr>"]
    by (simp add: take_slot_def region_view_def tagged_def)
qed

text \<open>Freeing a detour that is not hooked into its function.\<close>

lemma DdkFreeDetour_unhooked:
  assumes foc: "focus s xs r ys" and wf: "wf_region r" "rrefcount r = 0" and i: "i < length (detours r)"
    and d: "intercepts (detours r ! i) = []" "trampoline (detours r ! i) = 0"
    and lt: "freecount r < rcount r" and ids: "\<forall>x \<in> set (region_view r). iid (snd x) < next_iid s"
  shows "\<exists>s' L. DdkFreeDetour (base r) i s = Inr (STATUS_SUCCESS, s') \<and> regionlist s' = xs @ L @ ys \<and> next_iid s' = next_iid s
     \<and> map base L \<in> {[], [base r]} \<and> (\<forall>q \<in> set L. alive s q) \<and> concat (map region_view L) = region_view r"
proof -
  let ?q = "release_detour i r"
  let ?s = "s\<lparr>regionlist := xs @ ?q # ys\<rparr>"
  note ch = wf_release_detour [OF wf(1) i d(1)]
  have b: "base ?q = base r" "rrefcount ?q = 0" "wf_region ?q" using ch(1) wf(2) by (simp_all add: changed_def)
  have focq: "focus ?s xs ?q ys" using foc b(1) by (rule focus_upd)
  have "tagged (detours ?q ! i) = tagged (detours r ! i)" using tagged_changed(1) [OF ch(1) i] d(1) by (simp add: tagged_def)
  then have "map tagged (detours ?q) = map tagged (detours r)"
    using tagged_changed(2,3) [OF ch(1) i] by (intro map_nth_cong) metis+
  then have v: "region_view ?q = region_view r" by (simp add: region_view_def)
  have run: "DdkFreeDetour (base r) i s = Inr (STATUS_SUCCESS, if freecount ?q \<noteq> rcount ?q then ?s
      else ?s\<lparr>regionlist := xs @ ys, released := base r # released s\<rparr>)"
    using d i b(1,2) DdkFreeRegion_focus [OF focq]
    by (simp add: DdkFreeDetour_def DdkDetachDetour_def bindS_def detour_at_focus [OF foc] set_region_focus [OF foc])
  show ?thesis
  proof (cases "freecount ?q = rcount ?q")
    case True
    with unused_region_view [OF b(3)] v run show ?thesis
      by (intro exI [of _ "?s\<lparr>regionlist := xs @ ys, released := base r # released s\<rparr>"] exI [of _ "[]"]) simp
  next
    case False
    then have "freecount ?q < rcount ?q" using b(3) free_slots_le [of "detours ?q"] by (simp add: wf_region_def)
    then have "alive s ?q" using b ids v by (simp add: alive_def)
    with False run b(1) v show ?thesis by (intro exI [of _ ?s] exI [of _ "[?q]"]) simp
  qed
qed

lemma AllocateInRegion_run:
  assumes foc: "focus s xs r ys" and wf: "wf_region r" "rrefcount r = 0" "freecount r \<noteq> 0"
    and rest: "distinct (map base (xs @ r # ys))" "\<forall>q \<in> set (xs @ ys). alive s q" "\<forall>x \<in> set (region_view r). iid (snd x) < next_iid s"
    and f: "f \<noteq> 0"
  shows "\<exists>st d s'. AllocateInRegion f (base r) s = Inr ((st, d), s') \<and>
     (if NT_SUCCESS st then \<exists>r'. fst d = base r \<and> base r' = base r \<and> has_detour s f s' xs r' ys (snd d) \<and> trampoline (detours r' ! snd d) = tramp_of s f
      else wf_det s' \<and> view s' = view s \<and> next_iid s' = next_iid s)"
proof -
  obtain i where i: "List.find (\<lambda>i. func (detours r ! i) = 0) [0..<rcount r] = Some i" "i < length (detours r)" "func (detours r ! i) = 0"
    using free_slot_exists [OF wf(1,3)] by blast
  let ?r = "take_slot f i r"
  let ?s = "s\<lparr>regionlist := xs @ ?r # ys\<rparr>"
  have b: "base ?r = base r" "rrefcount ?r = 0" "i < length (detours ?r)" "detours ?r ! i = \<lparr>func = f, trampoline = 0, intercepts = []\<rparr>"
    using i wf(2) by (simp_all add: take_slot_def)
  have foc1: "focus ?s xs ?r ys" using foc b(1) by (rule focus_upd)
  have wf1: "wf_region ?r" using wf(1) i(2,3) f by (rule wf_take_slot)
  have "trampoline (detours ?r ! i) = 0" by (simp add: b(4))
  from DdkAttachDetour_focus [OF foc1 b(3) this, unfolded detour_update_def] obtain st d' cs where
    u': "DdkAttachDetour (base ?r) i ?s = Inr (st, ?s\<lparr>regionlist := xs @ ?r\<lparr>detours := (detours ?r)[i := d']\<rparr> # ys, api := cs\<rparr>)"
      "NT_SUCCESS st \<longrightarrow> st = STATUS_SUCCESS \<and> d' = (detours ?r ! i)\<lparr>trampoline := tramp_of ?s (func (detours ?r ! i))\<rparr>"
      "\<not> NT_SUCCESS st \<longrightarrow> d' = detours ?r ! i"
    by (elim exE conjE) (rule that; assumption)
  have u: "DdkAttachDetour (base r) i ?s = Inr (st, s\<lparr>regionlist := xs @ ?r\<lparr>detours := (detours ?r)[i := d']\<rparr> # ys, api := cs\<rparr>)"
    "d' = \<lparr>func = f, trampoline = (if NT_SUCCESS st then tramp_of s f else 0), intercepts = []\<rparr>"
    using u' by (simp_all add: b(1,4))
  let ?q = "?r\<lparr>detours := (detours ?r)[i := d']\<rparr>"
  let ?t = "s\<lparr>regionlist := xs @ ?q # ys, api := cs\<rparr>"
  have vq: "region_view ?q = region_view r" using region_view_take_slot [OF wf(1) i(2,3)] u(2) by simp
  have wfq: "wf_region ?q" using wf1 b(3) by (rule wf_region_set) (simp_all add: u(2) b(4) wf_detour_def f)
  have focq: "focus ?t xs ?q ys" using foc by (rule focus_upd) (simp add: b(1))
  have disq: "distinct (map base (xs @ ?q # ys))" using rest(1) b(1) by simp
  have al: "alive ?t q = alive s q" for q by (simp add: alive_def)
  have lt: "freecount ?q < rcount ?q" using wf(1,3) free_slots_le [of "detours r"] by (simp add: take_slot_def wf_region_def)
  have step: "AllocateInRegion f (base r) s = (if NT_SUCCESS st then Inr ((STATUS_SUCCESS, (base r, i)), ?t)
      else bindS (DdkFreeDetour (base r) i) (\<lambda>_. ret (st, (0, 0))) ?t)"
    using i u(1) by (simp add: AllocateInRegion_def bindS_def region_at_focus [OF foc] set_region_focus [OF foc])
  show ?thesis
  proof (cases "NT_SUCCESS st")
    case True
    have "alive s ?q" using wfq b(2) lt rest(3) vq by (simp add: alive_def)
    then have "wf_det ?t" using wf_det_focus [OF focq disq] rest(2) al by simp
    moreover have "view ?t = view s" using view_focus [OF focq] view_focus [OF foc] vq by simp
    ultimately have "has_detour s f ?t xs ?q ys i" using focq b(3) u(2) by (simp add: has_detour_def)
    with True step show ?thesis using b(1,3) u(2) by (intro exI [of _ STATUS_SUCCESS] exI [of _ "(base r, i)"] exI [of _ ?t]) (auto intro: exI [of _ ?q])
  next
    case False
    obtain s' L where d: "DdkFreeDetour (base ?q) i ?t = Inr (STATUS_SUCCESS, s')" "regionlist s' = xs @ L @ ys" "next_iid s' = next_iid ?t"
      "map base L \<in> {[], [base ?q]}" "\<forall>q \<in> set L. alive ?t q" "concat (map region_view L) = region_view ?q"
      using DdkFreeDetour_unhooked [OF focq wfq _ _ _ _ lt, of i] b rest(3) vq u(2) False by auto
    have al': "alive s' q = alive s q" for q using d(3) by (simp add: alive_def)
    have "distinct (map base (xs @ L @ ys))" using rest(1) d(4) b(1) by (auto simp: image_iff)
    then have "wf_det s'" using d(2,5) rest(2) al al' by (auto simp: wf_det_iff)
    moreover have "view s' = view s" using d(2,6) vq view_focus [OF foc] by (simp add: view_def)
    ultimately show ?thesis using step False d(1,3) b(1)
      by (intro exI [of _ st] exI [of _ "(0, 0)"] exI [of _ s']) (simp add: bindS_def)
  qed
qed

lemma DdkAllocateDetour_eq:
  "DdkAllocateDetour f s =
     (case List.find (\<lambda>r. freecount r \<noteq> 0 \<and> DdkIsRegionWithinJumpBounds r f 0x100) (regionlist s) of
        Some r \<Rightarrow> AllocateInRegion f (base r) s
      | None \<Rightarrow> bindS DdkAllocateRegion (\<lambda>(status, a). if \<not> NT_SUCCESS status then ret (status, (0, 0)) else AllocateInRegion f a) s)"
  unfolding DdkAllocateDetour_def AllocateInRegion_def [symmetric] by (simp split: option.split)

lemma DdkAllocateRegion_cases:
  obtains (fails) st s' where "DdkAllocateRegion s = Inr ((st, 0), s')" "\<not> NT_SUCCESS st" "regionlist s' = regionlist s" "next_iid s' = next_iid s"
  | (new) r s' rest where "DdkAllocateRegion s = Inr ((STATUS_SUCCESS, base r), s')" "regionlist s' = r # regionlist s"
      "next_iid s' = next_iid s" "tramp_of s' = tramp_of s" "wf_region r" "rrefcount r = 0" "freecount r \<noteq> 0" "region_view r = []"
      "region_supply s = (base r, rsize r) # rest"
proof (cases "region_supply s")
  case Nil
  then show thesis using fails by (simp add: DdkAllocateRegion_def NT_SUCCESS_def)
next
  case (Cons x rest)
  obtain a sz where x: "x = (a, sz)" by fastforce
  show thesis
  proof (cases "a = 0 \<or> sz < sizeof_REGION")
    case True
    with Cons x show thesis
      by (intro fails [of STATUS_INSUFFICIENT_RESOURCES "if a = 0 then s\<lparr>region_supply := rest\<rparr>
            else s\<lparr>region_supply := rest, released := a # released s\<rparr>"]) (auto simp: DdkAllocateRegion_def NT_SUCCESS_def)
  next
    case False
    define n where "n = (sz - sizeof_REGION) div sizeof_DETOUR + 1"
    define r where "r = \<lparr>base = a, rsize = sz, rrefcount = 0, rcount = n, freecount = n, hwm = 0,
                   detours = replicate n \<lparr>func = 0, trampoline = 0, intercepts = []\<rparr>\<rparr>"
    have "DdkAllocateRegion s = Inr ((STATUS_SUCCESS, base r), s\<lparr>region_supply := rest, regionlist := r # regionlist s\<rparr>)"
      using False Cons x by (simp add: DdkAllocateRegion_def r_def n_def Let_def)
    moreover have "wf_region r" by (simp add: r_def wf_region_def wf_detour_def free_slots_def)
    moreover have "region_view r = []" by (simp add: r_def region_view_def tagged_def)
    ultimately show thesis using Cons x 
      by (intro new [of r "s\<lparr>region_supply := rest, regionlist := r # regionlist s\<rparr>" rest]) (simp_all add: r_def n_def)
  qed
qed

definition allocated :: "DET \<Rightarrow> nat \<Rightarrow> NTSTATUS \<Rightarrow> nat \<times> nat \<Rightarrow> DET \<Rightarrow> bool" where
  "allocated s f st d s' \<longleftrightarrow>
     (if NT_SUCCESS st then \<exists>xs r ys. base r = fst d \<and> has_detour s f s' xs r ys (snd d)
      else wf_det s' \<and> view s' = view s \<and> next_iid s' = next_iid s)"

lemma DdkAllocateDetour_run:
  assumes wf: "wf_det s" and fresh: "fresh_supply s" and f: "f \<noteq> 0"
  shows "\<exists>st d s'. DdkAllocateDetour f s = Inr ((st, d), s') \<and> allocated s f st d s'"
proof (cases "List.find (\<lambda>r. freecount r \<noteq> 0 \<and> DdkIsRegionWithinJumpBounds r f 0x100) (regionlist s)")
  case (Some r)
  with find_Some [OF this] have r: "r \<in> set (regionlist s)" "freecount r \<noteq> 0" by auto
  obtain xs ys where foc: "focus s xs r ys" "alive s r" using split_region [OF wf r(1)] by blast
  with wf have "distinct (map base (xs @ r # ys))" "\<forall>q \<in> set (xs @ ys). alive s q" by (auto simp: wf_det_iff focus_def)
  with AllocateInRegion_run [OF foc(1) _ _ r(2) _ _ _ f] foc(2)
  obtain st d s' where "AllocateInRegion f (base r) s = Inr ((st, d), s')" "allocated s f st d s'"
    unfolding allocated_def alive_def by (metis (full_types))
  with Some show ?thesis unfolding DdkAllocateDetour_eq by auto
next
  case None
  show ?thesis
  proof (cases rule: DdkAllocateRegion_cases [of s])
    case (fails st s')
    have "alive s' r = alive s r" for r using fails(4) by (simp add: alive_def)
    then have "wf_det s'" using wf fails(3) by (simp add: wf_det_iff)
    with fails None show ?thesis unfolding allocated_def DdkAllocateDetour_eq
      by (intro exI [of _ st] exI [of _ "(0, 0)"] exI [of _ s']) (simp add: bindS_def view_def)
  next
    case (new r s' rest)
    have "base r \<notin> set (map base (regionlist s))" using fresh new(9) by (simp add: fresh_supply_def)
    then have foc: "focus s' [] r (regionlist s)" and dist: "distinct (map base ([] @ r # regionlist s))"
      using new(2) wf by (auto simp: focus_def wf_det_iff image_iff)
    have al: "\<forall>q \<in> set ([] @ regionlist s). alive s' q" using wf new(3) by (simp add: wf_det_iff alive_def)
    have "has_detour s' f t xs q ys i = has_detour s f t xs q ys i" for t xs q ys i
      using new(2,3,8) by (simp add: has_detour_def view_def)
    moreover have "view s' = view s" using new(2,8) by (simp add: view_def)
    moreover have "\<forall>x \<in> set (region_view r). iid (snd x) < next_iid s'" using new(8) by simp
    ultimately obtain st d t where "AllocateInRegion f (base r) s' = Inr ((st, d), t)" "allocated s f st d t"
      using AllocateInRegion_run [OF foc new(5-7) dist al _ f] new(3) unfolding allocated_def by (metis (full_types))
    with new(1) None show ?thesis unfolding DdkAllocateDetour_eq by (auto simp: bindS_def)
  qed
qed

section \<open>Contracts\<close>

text \<open>
  What the two detaching routines share: run on a well-formed state they return, keep the invariant, and remove from the
  abstract state exactly what they are asked to.
\<close>

locale detacher =
  fixes run :: "'k \<Rightarrow> (NTSTATUS, DET) st" and hits :: "'k \<Rightarrow> nat \<times> INTERCEPT \<Rightarrow> bool"
  assumes law: "wf_det s \<Longrightarrow> \<exists>st s'. run k s = Inr (st, s') \<and> wf_det s' \<and> view s' = filter (\<lambda>x. \<not> hits k x) (view s)
    \<and> (api s = [] \<longrightarrow> st = STATUS_SUCCESS \<and> api s' = [] \<and> ((\<forall>r \<in> set (regionlist s). needed r) \<longrightarrow> (\<forall>r \<in> set (regionlist s'). needed r)))"
begin

lemma effect:
  assumes "wf_det s"
  obtains st s' where "run k s = Inr (st, s')" "wf_det s'" "view s' = filter (\<lambda>x. \<not> hits k x) (view s)"
    "api s = [] \<Longrightarrow> st = STATUS_SUCCESS \<and> api s' = []"
    "api s = [] \<Longrightarrow> \<forall>r \<in> set (regionlist s). needed r \<Longrightarrow> \<forall>r \<in> set (regionlist s'). needed r"
  using law [OF assms, of k] by blast

text \<open>When everything is detached and the library did not fail, every region has been released.\<close>

lemma releases_all:
  assumes "wf_det s" "api s = []" "\<forall>r \<in> set (regionlist s). needed r" "\<forall>x \<in> set (view s). hits k x"
  shows "\<exists>s'. run k s = Inr (STATUS_SUCCESS, s') \<and> regionlist s' = []"
proof -
  obtain st s' where e: "run k s = Inr (st, s')" "wf_det s'" "view s' = filter (\<lambda>x. \<not> hits k x) (view s)"
    "st = STATUS_SUCCESS" "\<forall>r \<in> set (regionlist s'). needed r"
    using effect [OF assms(1), of k] assms(2,3) by metis
  have "view s' = []" using assms(4) e(3) by simp
  have False if r: "r \<in> set (regionlist s')" for r
  proof -
    have "region_view r = []" using r \<open>view s' = []\<close> by (simp add: view_def)
    moreover have "needed r" using e(5) r by simp
    ultimately have "\<forall>d \<in> set (detours r). func d = 0" by (auto simp: region_view_def tagged_def needed_def)
    then have "free_slots (detours r) = length (detours r)" by (simp add: free_slots_def)
    with e(2) r show False by (auto simp: wf_det_def wf_region_def)
  qed
  then have "regionlist s' = []" by (cases "regionlist s'") auto
  with e show ?thesis by simp
qed

lemma idempotent:
  assumes "wf_det s" "run k s = Inr (st, s')" "run k s' = Inr (st', s'')"
  shows "view s'' = view s'"
proof -
  have "wf_det s'" "view s' = filter (\<lambda>x. \<not> hits k x) (view s)"
    using effect [OF assms(1), of k] assms(2) by auto
  moreover from effect [OF this(1), of k] assms(3) have "view s'' = filter (\<lambda>x. \<not> hits k x) (view s')" by auto
  ultimately show ?thesis by simp
qed

end

definition detach_hits :: "nat \<times> nat \<Rightarrow> nat \<times> INTERCEPT \<Rightarrow> bool" where
  "detach_hits = (\<lambda>(pId, pThread) (f, p). (pThread = 0 \<or> thread p = pThread) \<and> (pId = 0 \<or> identity p = pId \<or> inst p = pId))"

definition range_hits :: "nat \<times> nat \<times> (nat \<times> nat) option \<Rightarrow> nat \<times> INTERCEPT \<Rightarrow> bool" where
  "range_hits = (\<lambda>(pAddr, len, module) (f, p). f \<noteq> 0 \<and> pAddr \<le> f \<and> f < pAddr + len
     \<and> (case module of None \<Rightarrow> True | Some (lo, n) \<Rightarrow> lo \<le> intercept p \<and> intercept p < lo + n))"

interpretation by_identity: detacher "\<lambda>(pId, pThread). DdkDetachIntercept pId pThread" detach_hits
proof
  fix s and k :: "nat \<times> nat"
  assume wf: "wf_det s"
  obtain pId pThread where k: "k = (pId, pThread)" by fastforce
  have "spared (\<lambda>_. True) (\<lambda>p. (pThread = 0 \<or> thread p = pThread) \<and> (pId = 0 \<or> identity p = pId \<or> inst p = pId)) = (\<lambda>x. \<not> detach_hits k x)"
    by (auto simp: spared_def detach_hits_def k)
  then show "\<exists>st s'. (case k of (pId, pThread) \<Rightarrow> DdkDetachIntercept pId pThread) s = Inr (st, s') \<and> wf_det s' \<and>
      view s' = filter (\<lambda>x. \<not> detach_hits k x) (view s)
    \<and> (api s = [] \<longrightarrow> st = STATUS_SUCCESS \<and> api s' = [] \<and> ((\<forall>r \<in> set (regionlist s). needed r) \<longrightarrow> (\<forall>r \<in> set (regionlist s'). needed r)))"
    using DetachRegions_contract [OF wf, of "\<lambda>_. True" "\<lambda>p. (pThread = 0 \<or> thread p = pThread) \<and> (pId = 0 \<or> identity p = pId \<or> inst p = pId)"]
    unfolding DdkDetachIntercept_def k by simp
qed

interpretation by_range: detacher "\<lambda>(pAddr, len, module). DdkDetachAddressRange pAddr len module" range_hits
proof
  fix s and k :: "nat \<times> nat \<times> (nat \<times> nat) option"
  assume wf: "wf_det s"
  obtain pAddr len module where k: "k = (pAddr, len, module)" by (cases k)
  have hits: "spared (\<lambda>f. f \<noteq> 0 \<and> pAddr \<le> f \<and> f < pAddr + len)
      (\<lambda>p. case module of None \<Rightarrow> True | Some (lo, n) \<Rightarrow> lo \<le> intercept p \<and> intercept p < lo + n) = (\<lambda>x. \<not> range_hits k x)"
    by (rule ext) (auto simp: spared_def range_hits_def k split: option.splits)
  show "\<exists>st s'. (case k of (pAddr, len, module) \<Rightarrow> DdkDetachAddressRange pAddr len module) s = Inr (st, s') \<and> wf_det s' \<and>
      view s' = filter (\<lambda>x. \<not> range_hits k x) (view s)
    \<and> (api s = [] \<longrightarrow> st = STATUS_SUCCESS \<and> api s' = [] \<and> ((\<forall>r \<in> set (regionlist s). needed r) \<longrightarrow> (\<forall>r \<in> set (regionlist s'). needed r)))"
  proof (cases "len = 0")
    case True
    then have "filter (\<lambda>x. \<not> range_hits k x) (view s) = view s"
      by (intro filter_True) (auto simp: range_hits_def k)
    with wf True show ?thesis by (simp add: DdkDetachAddressRange_def k)
  next
    case False
    with DetachRegions_contract [OF wf, of "\<lambda>f. f \<noteq> 0 \<and> pAddr \<le> f \<and> f < pAddr + len"
        "\<lambda>p. case module of None \<Rightarrow> True | Some (lo, n) \<Rightarrow> lo \<le> intercept p \<and> intercept p < lo + n", unfolded hits]
    show ?thesis unfolding DdkDetachAddressRange_def k by simp
  qed
qed

lemma view_insert:
  assumes foc: "focus s xs r ys" and i: "i < length (detours r)" and d: "tagged d = x # tagged (detours r ! i)"
  shows "\<exists>us vs. view s = us @ vs \<and> view (s\<lparr>regionlist := xs @ r\<lparr>detours := (detours r)[i := d]\<rparr> # ys\<rparr>) = us @ x # vs"
proof -
  let ?A = "concat (map tagged (take i (detours r)))" and ?B = "concat (map tagged (drop (Suc i) (detours r)))"
  have "region_view r = ?A @ tagged (detours r ! i) @ ?B"
    unfolding region_view_def by (subst id_take_nth_drop [OF i]) simp
  moreover have "region_view (r\<lparr>detours := (detours r)[i := d]\<rparr>) = ?A @ x # tagged (detours r ! i) @ ?B"
    unfolding region_view_def using i d by (simp add: upd_conv_take_nth_drop)
  ultimately show ?thesis using foc
    by (intro exI [of _ "concat (map region_view xs) @ ?A"] exI [of _ "tagged (detours r ! i) @ ?B @ concat (map region_view ys)"])
       (simp add: view_def focus_def)
qed

lemma region_view_member: "x \<in> set (region_view r) \<longleftrightarrow> (\<exists>d \<in> set (detours r). fst x = func d \<and> snd x \<in> set (intercepts d))"
  by (cases x) (auto simp: region_view_def tagged_def)

lemma attach_to_detour:
  assumes foc: "focus s xs r ys" and i: "i < length (detours r)" and wf: "wf_det s" and f: "func (detours r ! i) \<noteq> 0"
    and new: "\<forall>x \<in> set (view s). iid (snd x) < iid e" "iid e < next_iid s"
  shows "wf_det (s\<lparr>regionlist := xs @ r\<lparr>detours := (detours r)[i := (detours r ! i)\<lparr>intercepts := e # intercepts (detours r ! i)\<rparr>]\<rparr> # ys\<rparr>)"
proof -
  let ?d = "(detours r ! i)\<lparr>intercepts := e # intercepts (detours r ! i)\<rparr>"
  let ?r = "r\<lparr>detours := (detours r)[i := ?d]\<rparr>"
  have dist: "distinct (map base (xs @ r # ys))" and al: "alive s r" "\<forall>q \<in> set (xs @ ys). alive s q"
    using wf foc by (auto simp: wf_det_iff focus_def)
  have wfr: "wf_region r" using al(1) by (simp add: alive_def)
  have "iid e \<notin> iid ` set (intercepts (detours r ! i))"
  proof
    assume "iid e \<in> iid ` set (intercepts (detours r ! i))"
    then obtain p where "p \<in> set (intercepts (detours r ! i))" "iid p = iid e" by auto
    then have "(func (detours r ! i), p) \<in> set (view s)"
      using i foc by (auto simp: view_def focus_def region_view_member intro!: bexI [of _ "detours r ! i"])
    with new(1) \<open>iid p = iid e\<close> show False by fastforce
  qed
  then have "wf_detour ?d" using wf_detour_at [OF wfr i] f by (simp add: wf_detour_def)
  then have wf': "wf_region ?r" by (intro wf_region_set [OF wfr i]) simp_all
  have "iid (snd x) < next_iid s" if "x \<in> set (region_view ?r)" for x
  proof -
    from that obtain d where d: "d \<in> set ((detours r)[i := ?d])" "fst x = func d" "snd x \<in> set (intercepts d)"
      by (auto simp: region_view_member)
    then have "d \<in> insert ?d (set (detours r))" using set_update_subset_insert by fastforce
    then have "snd x = e \<or> x \<in> set (region_view r)" using d(2,3) i by (auto simp: region_view_member)
    with new(2) al(1) show ?thesis by (auto simp: alive_def)
  qed
  then have "alive s ?r" using wf' al(1) by (simp add: alive_def)
  with al(2) dist show ?thesis by (auto simp: wf_det_iff alive_def)
qed

lemma view_bound: "wf_det s \<Longrightarrow> x \<in> set (view s) \<Longrightarrow> iid (snd x) < next_iid s"
  by (auto simp: wf_det_iff alive_def view_def)

lemma find_or_allocate:
  assumes "wf_det s" "fresh_supply s" "f \<noteq> 0"
  shows "\<exists>st d s'. (case FindDetour f (regionlist s) of Some d \<Rightarrow> ret (STATUS_SUCCESS, d) | None \<Rightarrow> DdkAllocateDetour f) s
      = Inr ((st, d), s') \<and> allocated s f st d s'"
proof (cases "FindDetour f (regionlist s)")
  case None
  then show ?thesis using DdkAllocateDetour_run [OF assms] by simp
next
  case (Some d)
  obtain a i where d: "d = (a, i)" by fastforce
  have "\<exists>xs r ys. base r = a \<and> has_detour s f s xs r ys i" using FindDetour_has [OF assms(1)] Some d by blast
  with Some d show ?thesis by (auto simp: allocated_def)
qed

lemma DdkAttachIntercept_run:
  assumes wf: "wf_det s" and fresh: "fresh_supply s" and arg: "pFunction \<noteq> 0" "pIntercept \<noteq> 0" and mem: "imem s \<noteq> 0"
    and e_def: "e = \<lparr>iid = next_iid s, intercept = pIntercept, identity = pIdentity, inst = pInstance, thread = pThread\<rparr>"
  shows "\<exists>st s'. DdkAttachIntercept pFunction pIntercept pIdentity pInstance pThread s = Inr (st, s') \<and> wf_det s' \<and>
    (if NT_SUCCESS st
     then (\<exists>us vs. view s = us @ vs \<and> view s' = us @ (pFunction, e) # vs) \<and>
          (\<exists>r \<in> set (regionlist s'). \<exists>d \<in> set (detours r). func d = pFunction \<and> intercepts d \<noteq> [] \<and> hd (intercepts d) = e)
     else view s' = view s)"
proof -
  let ?s = "s\<lparr>imem := imem s - 1, next_iid := next_iid s + 1\<rparr>"
  have wf1: "wf_det ?s" and fresh1: "fresh_supply ?s"
    using wf fresh by (force simp: wf_det_def, cases "region_supply s", auto simp: fresh_supply_def)
  obtain st d s1 where f: "(case FindDetour pFunction (regionlist s) of Some d \<Rightarrow> ret (STATUS_SUCCESS, d) | None \<Rightarrow> DdkAllocateDetour pFunction) ?s
      = Inr ((st, d), s1)" "allocated ?s pFunction st d s1"
    using find_or_allocate [OF wf1 fresh1 arg(1)] by auto
  obtain a i where d: "d = (a, i)" by fastforce
  have run: "DdkAttachIntercept pFunction pIntercept pIdentity pInstance pThread s
     = (if \<not> NT_SUCCESS st then Inr (st, s1\<lparr>imem := imem s1 + 1\<rparr>)
        else bindS (detour_at a i) (\<lambda>_. bindS (set_detour a i (\<lambda>d. d\<lparr>intercepts := e # intercepts d\<rparr>)) (\<lambda>_. ret STATUS_SUCCESS)) s1)"
    using arg mem f(1) d
    by (simp add: DdkAttachIntercept_def DdkAllocateIntercept_def DdkFindDetour_def DdkFreeIntercept_def bindS_def e_def)
  show ?thesis
  proof (cases "NT_SUCCESS st")
    case False
    with f(2) have "wf_det (s1\<lparr>imem := imem s1 + 1\<rparr>)" "view (s1\<lparr>imem := imem s1 + 1\<rparr>) = view s"
      by (auto simp: allocated_def wf_det_def view_def)
    with run False show ?thesis by auto
  next
    case True
    then obtain xs r ys where h: "base r = a" "has_detour ?s pFunction s1 xs r ys i"
      using f(2) d by (auto simp: allocated_def)
    let ?d = "(detours r ! i)\<lparr>intercepts := e # intercepts (detours r ! i)\<rparr>"
    let ?t = "s1\<lparr>regionlist := xs @ r\<lparr>detours := (detours r)[i := ?d]\<rparr> # ys\<rparr>"
    have foc: "focus s1 xs r ys" and i: "i < length (detours r)" and fn: "func (detours r ! i) = pFunction"
      and wf2: "wf_det s1" and ni: "next_iid s1 = next_iid s + 1" and v: "view s1 = view s"
      using h(2) by (auto simp: has_detour_def view_def)
    have new: "\<forall>x \<in> set (view s1). iid (snd x) < iid e" "iid e < next_iid s1"
      using view_bound [OF wf] v ni by (simp_all add: e_def)
    have "wf_det ?t" using attach_to_detour [OF foc i wf2 _ new] fn arg(1) by simp
    moreover have "\<exists>us vs. view s = us @ vs \<and> view ?t = us @ (pFunction, e) # vs"
      using view_insert [OF foc i, of ?d "(pFunction, e)"] fn v by (simp add: tagged_def)
    moreover have "?d \<in> set ((detours r)[i := ?d])" using i by (rule set_update_memI)
    moreover have "DdkAttachIntercept pFunction pIntercept pIdentity pInstance pThread s = Inr (STATUS_SUCCESS, ?t)"
      unfolding run using True i h(1) detour_at_focus [OF foc i] set_detour_focus [OF foc, of i] by (simp add: bindS_def)
    ultimately show ?thesis using fn by (intro exI [of _ STATUS_SUCCESS] exI [of _ ?t]) (auto intro!: bexI [of _ ?d])
  qed
qed

lemma SelectIntercept_eq:
  "SelectIntercept cur ics p =
     (case List.find (\<lambda>e. thread e = cur) ics of
        Some e \<Rightarrow> intercept e
      | None \<Rightarrow> (case List.find (\<lambda>e. thread e = 0) (rev ics) of Some e \<Rightarrow> intercept e | None \<Rightarrow> p))"
proof (induction ics arbitrary: p)
  case (Cons e ics)
  have app: "List.find P (xs @ ys) = (case List.find P xs of Some x \<Rightarrow> Some x | None \<Rightarrow> List.find P ys)" for P :: "INTERCEPT \<Rightarrow> bool" and xs ys
    by (induction xs) auto
  show ?case by (auto simp: Cons.IH app split: option.splits)
qed simp

section \<open>Properties\<close>

definition one_region :: DET where
  "one_region = \<lparr>regionlist = [\<lparr>base = 0x10000, rsize = 200, rrefcount = 0, rcount = 2, freecount = 1, hwm = 1,
       detours = [\<lparr>func = 0x20000, trampoline = 7, intercepts = [\<lparr>iid = 0, intercept = 5, identity = 6, inst = 0, thread = 8\<rparr>]\<rparr>,
                  \<lparr>func = 0, trampoline = 0, intercepts = []\<rparr>]\<rparr>],
     imem = 3, next_iid = 1, api = [], tramp_of = (\<lambda>f. f + 1), region_supply = [(0x40000, 4096)], released = []\<rparr>"

lemma wf_one_region: "wf_det one_region" "fresh_supply one_region" "\<forall>r \<in> set (regionlist one_region). needed r"
  by (auto simp: one_region_def wf_det_def wf_region_def free_slots_def wf_detour_def fresh_supply_def needed_def less_Suc_eq
      numeral_2_eq_2 nth_Cons split: nat.splits)

text \<open>
  C8.  DdkAttachIntercept with a function, an intercept and memory: from a state that satisfies the invariant it returns
  (no "Region has no free detours", no access outside a region), keeps the invariant, and either fails and leaves the set of
  intercepts as it was or adds exactly the new one, in front of the intercepts of the function's detour, so that the
  thread it was attached for runs the intercept.
\<close>

theorem DdkAttachIntercept_registers:
  assumes "wf_det s" "fresh_supply s" "pFunction \<noteq> 0" "pIntercept \<noteq> 0" "imem s \<noteq> 0"
    and "e = \<lparr>iid = next_iid s, intercept = pIntercept, identity = pIdentity, inst = pInstance, thread = pThread\<rparr>"
  shows "\<exists>st s'. DdkAttachIntercept pFunction pIntercept pIdentity pInstance pThread s = Inr (st, s') \<and> wf_det s' \<and>
    (if NT_SUCCESS st
     then (\<exists>us vs. view s = us @ vs \<and> view s' = us @ (pFunction, e) # vs) \<and>
          (\<exists>r \<in> set (regionlist s'). \<exists>d \<in> set (detours r). func d = pFunction \<and>
             DdkGetIntercept pThread (Some d) = Inr (pIntercept, trampoline d))
     else view s' = view s)"
proof -
  have "DdkGetIntercept pThread (Some d) = Inr (pIntercept, trampoline d)"
    if "func d = pFunction" "intercepts d \<noteq> []" "hd (intercepts d) = e" for d
    using that assms(3,4,6) by (cases "intercepts d") (auto simp: DdkGetIntercept_def)
  then have "\<exists>r \<in> R. \<exists>d \<in> set (detours r). func d = pFunction \<and> DdkGetIntercept pThread (Some d) = Inr (pIntercept, trampoline d)"
    if "\<exists>r \<in> R. \<exists>d \<in> set (detours r). func d = pFunction \<and> intercepts d \<noteq> [] \<and> hd (intercepts d) = e" for R :: "REGION set"
    using that by fast
  with DdkAttachIntercept_run [OF assms] show ?thesis by (metis (no_types, lifting))
qed

theorem DdkAttachIntercept_registers_witness:
  "\<exists>st s'. DdkAttachIntercept 0x20000 9 6 0 11 one_region = Inr (st, s') \<and> wf_det s'"
proof -
  have "imem one_region \<noteq> 0" by (simp add: one_region_def)
  from DdkAttachIntercept_registers [OF wf_one_region(1,2) _ _ this refl, where pFunction = "0x20000" and pIntercept = 9 and pIdentity = 6 and pInstance = 0 and pThread = 11] show ?thesis by auto
qed

text \<open>
  C9.  DdkDetachIntercept refines the removal from the abstract set of intercepts: it returns whatever the Detours library
  answers, keeps the invariant, and removes exactly the intercepts whose thread and whose identity or instance match, null being
  a wild card; the others stay, in order, with their functions.
\<close>

theorem DdkDetachIntercept_exact:
  assumes "wf_det s"
  shows "\<exists>st s'. DdkDetachIntercept pId pThread s = Inr (st, s') \<and> wf_det s' \<and>
    view s' = filter (\<lambda>(f, p). \<not> ((pThread = 0 \<or> thread p = pThread) \<and> (pId = 0 \<or> identity p = pId \<or> inst p = pId))) (view s)"
  using by_identity.law [OF assms, of "(pId, pThread)"] by (auto simp: detach_hits_def case_prod_unfold)

theorem DdkDetachIntercept_exact_witness:
  "\<exists>st s'. DdkDetachIntercept 6 0 one_region = Inr (st, s') \<and> view s' = []"
  using DdkDetachIntercept_exact [OF wf_one_region(1), where pId = 6 and pThread = 0]
  by (auto simp: view_def region_view_def tagged_def one_region_def)

text \<open>
  DdkDetachAddressRange removes exactly the intercepts of the functions in the range whose code is in the module, any code when the
  module is null, and keeps the invariant.
\<close>

theorem DdkDetachAddressRange_exact:
  assumes "wf_det s"
  shows "\<exists>st s'. DdkDetachAddressRange pAddr len module s = Inr (st, s') \<and> wf_det s' \<and>
    view s' = filter (\<lambda>(f, p). \<not> (f \<noteq> 0 \<and> pAddr \<le> f \<and> f < pAddr + len \<and>
      (case module of None \<Rightarrow> True | Some (lo, n) \<Rightarrow> lo \<le> intercept p \<and> intercept p < lo + n))) (view s)"
  using by_range.law [OF assms, of "(pAddr, len, module)"] by (auto simp: range_hits_def case_prod_unfold)

theorem DdkDetachAddressRange_exact_witness:
  "\<exists>st s'. DdkDetachAddressRange 0x10000 0x20000 None one_region = Inr (st, s') \<and> view s' = []"
  using DdkDetachAddressRange_exact [OF wf_one_region(1), where pAddr = "0x10000" and len = "0x20000" and module = None]
  by (auto simp: view_def region_view_def tagged_def one_region_def)

text \<open>
  No region is leaked: when every hooked function has an intercept and the Detours library does not fail, detaching everything
  succeeds and releases all regions, so that the wrappers are gone from memory.
\<close>

theorem DdkDetachIntercept_releases_regions:
  assumes "wf_det s" "api s = []" "\<forall>r \<in> set (regionlist s). needed r"
  shows "\<exists>s'. DdkDetachIntercept 0 0 s = Inr (STATUS_SUCCESS, s') \<and> regionlist s' = []"
  using by_identity.releases_all [OF assms, of "(0, 0)"] by (auto simp: detach_hits_def)

theorem DdkDetachIntercept_releases_regions_witness:
  "\<exists>s'. DdkDetachIntercept 0 0 one_region = Inr (STATUS_SUCCESS, s') \<and> regionlist s' = []"
  by (rule DdkDetachIntercept_releases_regions [OF wf_one_region(1) _ wf_one_region(3)]) (simp add: one_region_def)

text \<open>
  C10.  Which function a wrapper runs on thread \<open>cur\<close>: the intercept attached last for that thread; if there is none, the
  one attached first for all threads; if there is none either, the trampoline to the original function, or the function
  itself when the detour is not hooked.  A detour without function stops with "Invalid detour".
\<close>

theorem DdkGetIntercept_selects:
  "DdkGetIntercept cur (Some d) =
     (if func d = 0 then Inl (DdkFail ''Invalid detour'')
      else let p = (case List.find (\<lambda>e. thread e = cur) (intercepts d) of
                      Some e \<Rightarrow> intercept e
                    | None \<Rightarrow> (case List.find (\<lambda>e. thread e = 0) (rev (intercepts d)) of
                         Some e \<Rightarrow> intercept e | None \<Rightarrow> trampoline d))
           in Inr (if p = 0 then func d else p, trampoline d))"
  by (simp add: DdkGetIntercept_def SelectIntercept_eq)

end
