(* ===== verification/Sync.thy ===== *)
theory Sync
  imports DdkBase
begin

text \<open>
  Interrupt request levels and spin locks: src/src/irql.cpp and src/src/spinlock.cpp.

  Every thread has its own level (\<open>DdkCurrentIrql\<close> is thread local).  A spin lock is a slim reader/writer lock of Windows
  (SRWLOCK), laid over the KSPIN_LOCK itself or, for the reader/writer spin locks, an element of a pool that is named by a
  number stored in the 32-bit EX_SPIN_LOCK: 0 stands for a lock that has no element yet.  A slim lock is free, held by one
  thread, or held by several in shared mode; acquiring one that is not available waits, releasing one that the thread does not hold
  is undefined behaviour (\<open>Fault\<close>).  The operations of a thread are steps of its own; a wait is a step that is not
  enabled.  The first argument \<open>t\<close> of an operation is the calling thread.
\<close>

section \<open>Definitions\<close>

datatype SRWLOCK = Free | Exclusive nat | Shared "nat list"

text \<open>A slim lock by its place: over the spin lock at an address, or at an index of the pool \<open>lockv\<close>.\<close>

datatype SRWID = Spin nat | Pool nat

record SYNC =
  DdkCurrentIrql :: "nat \<Rightarrow> nat"
  srw :: "SRWID \<Rightarrow> SRWLOCK"
  cell :: "nat \<Rightarrow> nat"
  lockcount :: nat
  lockv :: "nat list"
  blocks_left :: nat

abbreviation (input) HIGH_LEVEL :: nat where "HIGH_LEVEL \<equiv> 15"
abbreviation (input) maxv :: nat where "maxv \<equiv> 4096"

subsection \<open>Levels\<close>

definition KeGetCurrentIrql :: "nat \<Rightarrow> (nat, SYNC) st" where
  "KeGetCurrentIrql t = gets (\<lambda>s. DdkCurrentIrql s t)"

definition DdkGetCurrentIrql :: "nat \<Rightarrow> (nat, SYNC) st" where
  "DdkGetCurrentIrql t = gets (\<lambda>s. DdkCurrentIrql s t)"

definition DdkReadCR8 :: "nat \<Rightarrow> (nat, SYNC) st" where
  "DdkReadCR8 t = gets (\<lambda>s. DdkCurrentIrql s t)"

definition set_irql :: "nat \<Rightarrow> nat \<Rightarrow> (unit, SYNC) st" where
  "set_irql t v = modify (\<lambda>s. s\<lparr>DdkCurrentIrql := (DdkCurrentIrql s)(t := v)\<rparr>)"

text \<open>A KIRQL is a byte: the cast drops the upper bits of the 64-bit value.\<close>

definition DdkWriteCR8 :: "nat \<Rightarrow> nat \<Rightarrow> (unit, SYNC) st" where
  "DdkWriteCR8 t v = set_irql t (v mod 256)"

definition KfRaiseIrql :: "nat \<Rightarrow> nat \<Rightarrow> (nat, SYNC) st" where
  "KfRaiseIrql t NewIrql =
     bindS (gets (\<lambda>s. DdkCurrentIrql s t)) (\<lambda>irql.
     bindS (assertS (\<lambda>s. DdkCurrentIrql s t \<le> NewIrql) ''KeGetCurrentIrql() <= NewIrql'') (\<lambda>_.
     bindS (set_irql t NewIrql) (\<lambda>_. ret irql)))"

text \<open>The old level is the result.\<close>

definition KeRaiseIrql :: "nat \<Rightarrow> nat \<Rightarrow> (nat, SYNC) st" where
  "KeRaiseIrql t NewIrql = KfRaiseIrql t NewIrql"

definition KeLowerIrql :: "nat \<Rightarrow> nat \<Rightarrow> (unit, SYNC) st" where
  "KeLowerIrql t NewIrql =
     bindS (assertS (\<lambda>s. DdkCurrentIrql s t \<ge> NewIrql) ''KeGetCurrentIrql() >= NewIrql'') (\<lambda>_. set_irql t NewIrql)"

definition KfLowerIrql :: "nat \<Rightarrow> nat \<Rightarrow> (unit, SYNC) st" where
  "KfLowerIrql t NewIrql =
     bindS (assertS (\<lambda>s. DdkCurrentIrql s t \<ge> NewIrql) ''KeGetCurrentIrql() >= NewIrql'') (\<lambda>_. set_irql t NewIrql)"

definition DdkRaiseIrqlToDpcLevel :: "nat \<Rightarrow> (nat, SYNC) st" where
  "DdkRaiseIrqlToDpcLevel t = KfRaiseIrql t DISPATCH_LEVEL"

subsection \<open>Slim locks\<close>

definition set_srw :: "SRWID \<Rightarrow> SRWLOCK \<Rightarrow> (unit, SYNC) st" where
  "set_srw l v = modify (\<lambda>s. s\<lparr>srw := (srw s)(l := v)\<rparr>)"

definition AcquireSRWLockExclusive :: "nat \<Rightarrow> SRWID \<Rightarrow> (unit, SYNC) st" where
  "AcquireSRWLockExclusive t l s = (if srw s l = Free then set_srw l (Exclusive t) s else Inl Waits)"

definition TryAcquireSRWLockExclusive :: "nat \<Rightarrow> SRWID \<Rightarrow> (bool, SYNC) st" where
  "TryAcquireSRWLockExclusive t l s =
     (if srw s l = Free then bindS (set_srw l (Exclusive t)) (\<lambda>_. ret True) s else Inr (False, s))"

definition ReleaseSRWLockExclusive :: "nat \<Rightarrow> SRWID \<Rightarrow> (unit, SYNC) st" where
  "ReleaseSRWLockExclusive t l s = (if srw s l = Exclusive t then set_srw l Free s else Inl Fault)"

definition AcquireSRWLockShared :: "nat \<Rightarrow> SRWID \<Rightarrow> (unit, SYNC) st" where
  "AcquireSRWLockShared t l s =
     (case srw s l of Free \<Rightarrow> set_srw l (Shared [t]) s | Shared ts \<Rightarrow> set_srw l (Shared (t # ts)) s | Exclusive _ \<Rightarrow> Inl Waits)"

definition ReleaseSRWLockShared :: "nat \<Rightarrow> SRWID \<Rightarrow> (unit, SYNC) st" where
  "ReleaseSRWLockShared t l s =
     (case srw s l of
        Shared ts \<Rightarrow> if t \<in> set ts then set_srw l (if remove1 t ts = [] then Free else Shared (remove1 t ts)) s else Inl Fault
      | _ \<Rightarrow> Inl Fault)"

subsection \<open>Spin locks\<close>

definition KeInitializeSpinLock :: "nat \<Rightarrow> (unit, SYNC) st" where
  "KeInitializeSpinLock SpinLock = set_srw (Spin SpinLock) Free"

definition KeTestSpinLock :: "nat \<Rightarrow> (bool, SYNC) st" where
  "KeTestSpinLock SpinLock = gets (\<lambda>s. srw s (Spin SpinLock) = Free)"

definition AcquireSpinLock :: "nat \<Rightarrow> nat \<Rightarrow> nat \<Rightarrow> (nat, SYNC) st" where
  "AcquireSpinLock t SpinLock NewIrql =
     bindS (KeRaiseIrql t NewIrql) (\<lambda>rc.
     bindS (AcquireSRWLockExclusive t (Spin SpinLock)) (\<lambda>_. ret rc))"

definition KeAcquireSpinLockRaiseToDpc :: "nat \<Rightarrow> nat \<Rightarrow> (nat, SYNC) st" where
  "KeAcquireSpinLockRaiseToDpc t SpinLock =
     bindS (assertS (\<lambda>s. DdkCurrentIrql s t \<le> DISPATCH_LEVEL) ''KeGetCurrentIrql() <= DISPATCH_LEVEL'') (\<lambda>_.
     AcquireSpinLock t SpinLock DISPATCH_LEVEL)"

definition KeAcquireSpinLockForDpc :: "nat \<Rightarrow> nat \<Rightarrow> (nat, SYNC) st" where
  "KeAcquireSpinLockForDpc t SpinLock = AcquireSpinLock t SpinLock DISPATCH_LEVEL"

definition KeAcquireSpinLockAtDpcLevel :: "nat \<Rightarrow> nat \<Rightarrow> (unit, SYNC) st" where
  "KeAcquireSpinLockAtDpcLevel t SpinLock =
     bindS (assertS (\<lambda>s. DdkCurrentIrql s t \<ge> DISPATCH_LEVEL) ''KeGetCurrentIrql() >= DISPATCH_LEVEL'') (\<lambda>_.
     bindS (KeGetCurrentIrql t) (\<lambda>irql.
     bindS (AcquireSpinLock t SpinLock irql) (\<lambda>_. ret ())))"

definition KeTryToAcquireSpinLockAtDpcLevel :: "nat \<Rightarrow> nat \<Rightarrow> (bool, SYNC) st" where
  "KeTryToAcquireSpinLockAtDpcLevel t SpinLock =
     bindS (assertS (\<lambda>s. DdkCurrentIrql s t \<ge> DISPATCH_LEVEL) ''KeGetCurrentIrql() >= DISPATCH_LEVEL'') (\<lambda>_.
     TryAcquireSRWLockExclusive t (Spin SpinLock))"

definition KeReleaseSpinLock :: "nat \<Rightarrow> nat \<Rightarrow> nat \<Rightarrow> (unit, SYNC) st" where
  "KeReleaseSpinLock t SpinLock NewIrql =
     bindS (assertS (\<lambda>s. DdkCurrentIrql s t \<ge> DISPATCH_LEVEL) ''KeGetCurrentIrql() >= DISPATCH_LEVEL'') (\<lambda>_.
     bindS (ReleaseSRWLockExclusive t (Spin SpinLock)) (\<lambda>_.
     KeLowerIrql t NewIrql))"

definition KeReleaseSpinLockFromDpcLevel :: "nat \<Rightarrow> nat \<Rightarrow> (unit, SYNC) st" where
  "KeReleaseSpinLockFromDpcLevel t SpinLock = bindS (KeGetCurrentIrql t) (KeReleaseSpinLock t SpinLock)"

definition KeReleaseSpinLockForDpc :: "nat \<Rightarrow> nat \<Rightarrow> nat \<Rightarrow> (unit, SYNC) st" where
  "KeReleaseSpinLockForDpc t SpinLock OldIrql = KeReleaseSpinLock t SpinLock OldIrql"

text \<open>The handle of a queued spin lock is the lock and the old level; acquiring gives it as the result.\<close>

type_synonym LOCKHANDLE = "nat \<times> nat"

definition KeAcquireInStackQueuedSpinLock :: "nat \<Rightarrow> nat \<Rightarrow> (LOCKHANDLE, SYNC) st" where
  "KeAcquireInStackQueuedSpinLock t SpinLock =
     bindS (assertS (\<lambda>s. DdkCurrentIrql s t \<le> DISPATCH_LEVEL) ''KeGetCurrentIrql() <= DISPATCH_LEVEL'') (\<lambda>_.
     bindS (AcquireSpinLock t SpinLock DISPATCH_LEVEL) (\<lambda>irql. ret (SpinLock, irql)))"

definition KeAcquireInStackQueuedSpinLockAtDpcLevel :: "nat \<Rightarrow> nat \<Rightarrow> (LOCKHANDLE, SYNC) st" where
  "KeAcquireInStackQueuedSpinLockAtDpcLevel t SpinLock =
     bindS (assertS (\<lambda>s. DdkCurrentIrql s t \<ge> DISPATCH_LEVEL) ''KeGetCurrentIrql() >= DISPATCH_LEVEL'') (\<lambda>_.
     bindS (KeGetCurrentIrql t) (\<lambda>cur.
     bindS (AcquireSpinLock t SpinLock cur) (\<lambda>irql. ret (SpinLock, irql))))"

definition KeReleaseInStackQueuedSpinLock :: "nat \<Rightarrow> LOCKHANDLE \<Rightarrow> (unit, SYNC) st" where
  "KeReleaseInStackQueuedSpinLock t h =
     bindS (assertS (\<lambda>s. DdkCurrentIrql s t = DISPATCH_LEVEL) ''KeGetCurrentIrql() == DISPATCH_LEVEL'') (\<lambda>_.
     KeReleaseSpinLock t (fst h) (snd h))"

definition KeReleaseInStackQueuedSpinLockFromDpcLevel :: "nat \<Rightarrow> LOCKHANDLE \<Rightarrow> (unit, SYNC) st" where
  "KeReleaseInStackQueuedSpinLockFromDpcLevel t h =
     bindS (assertS (\<lambda>s. DdkCurrentIrql s t \<ge> DISPATCH_LEVEL) ''KeGetCurrentIrql() >= DISPATCH_LEVEL'') (\<lambda>_.
     KeReleaseSpinLock t (fst h) (snd h))"

subsection \<open>Reader/writer spin locks\<close>

text \<open>
  \<open>lockv\<close> holds the numbers of the blocks that have been allocated; a block has \<open>maxv\<close> elements.  The
  allocation of an element runs under the lock of the module, so it is one step.
\<close>

definition GetSRWLock :: "nat \<Rightarrow> (SRWID, SYNC) st" where
  "GetSRWLock SpinLock =
     bindS (gets (\<lambda>s. cell s SpinLock)) (\<lambda>i0.
     bindS (if i0 = 0
            then bindS (gets lockcount) (\<lambda>i.
                 bindS (assertS (\<lambda>_. i div maxv < maxv) ''Too many read write spinlocks'') (\<lambda>_.
                 bindS (assertS (\<lambda>s. i div maxv \<in> set (lockv s) \<or> blocks_left s \<noteq> 0) ''Unable to allocate read write spinlock'') (\<lambda>_.
                 bindS (modify (\<lambda>s. if i div maxv \<in> set (lockv s) then s
                          else s\<lparr>lockv := i div maxv # lockv s, blocks_left := blocks_left s - 1\<rparr>)) (\<lambda>_.
                 bindS (modify (\<lambda>s. s\<lparr>lockcount := lockcount s + 1, cell := (cell s)(SpinLock := i)\<rparr>)) (\<lambda>_.
                 ret i)))))
            else ret i0) (\<lambda>i.
     bindS (assertS (\<lambda>s. i < lockcount s \<and> i div maxv \<in> set (lockv s)) ''Uninitialized read write lock'') (\<lambda>_.
     ret (Pool i))))"

definition AcquireSpinLockShared :: "nat \<Rightarrow> nat \<Rightarrow> nat \<Rightarrow> (nat, SYNC) st" where
  "AcquireSpinLockShared t SpinLock NewIrql =
     bindS (KeRaiseIrql t NewIrql) (\<lambda>rc.
     bindS (GetSRWLock SpinLock) (\<lambda>l.
     bindS (AcquireSRWLockShared t l) (\<lambda>_. ret rc)))"

definition ExAcquireSpinLockShared :: "nat \<Rightarrow> nat \<Rightarrow> (nat, SYNC) st" where
  "ExAcquireSpinLockShared t SpinLock =
     bindS (assertS (\<lambda>s. DdkCurrentIrql s t \<le> DISPATCH_LEVEL) ''KeGetCurrentIrql() <= DISPATCH_LEVEL'') (\<lambda>_.
     AcquireSpinLockShared t SpinLock DISPATCH_LEVEL)"

definition ExReleaseSpinLockShared :: "nat \<Rightarrow> nat \<Rightarrow> nat \<Rightarrow> (unit, SYNC) st" where
  "ExReleaseSpinLockShared t SpinLock NewIrql =
     bindS (assertS (\<lambda>s. DdkCurrentIrql s t = DISPATCH_LEVEL) ''KeGetCurrentIrql() == DISPATCH_LEVEL'') (\<lambda>_.
     bindS (GetSRWLock SpinLock) (\<lambda>l.
     bindS (ReleaseSRWLockShared t l) (\<lambda>_.
     KeLowerIrql t NewIrql)))"

definition ExAcquireSpinLockSharedAtDpcLevel :: "nat \<Rightarrow> nat \<Rightarrow> (unit, SYNC) st" where
  "ExAcquireSpinLockSharedAtDpcLevel t SpinLock =
     bindS (assertS (\<lambda>s. DdkCurrentIrql s t \<ge> DISPATCH_LEVEL) ''KeGetCurrentIrql() >= DISPATCH_LEVEL'') (\<lambda>_.
     bindS (KeGetCurrentIrql t) (\<lambda>cur.
     bindS (AcquireSpinLockShared t SpinLock cur) (\<lambda>_. ret ())))"

definition ExReleaseSpinLockSharedFromDpcLevel :: "nat \<Rightarrow> nat \<Rightarrow> (unit, SYNC) st" where
  "ExReleaseSpinLockSharedFromDpcLevel t SpinLock =
     bindS (assertS (\<lambda>s. DdkCurrentIrql s t \<ge> DISPATCH_LEVEL) ''KeGetCurrentIrql() >= DISPATCH_LEVEL'') (\<lambda>_.
     bindS (GetSRWLock SpinLock) (\<lambda>l. ReleaseSRWLockShared t l))"

definition ExTryConvertSharedSpinLockExclusive :: "nat \<Rightarrow> (bool, SYNC) st" where
  "ExTryConvertSharedSpinLockExclusive SpinLock = ret False"

definition AcquireSpinLockExclusive :: "nat \<Rightarrow> nat \<Rightarrow> nat \<Rightarrow> (nat, SYNC) st" where
  "AcquireSpinLockExclusive t SpinLock NewIrql =
     bindS (KeRaiseIrql t NewIrql) (\<lambda>rc.
     bindS (GetSRWLock SpinLock) (\<lambda>l.
     bindS (AcquireSRWLockExclusive t l) (\<lambda>_. ret rc)))"

definition ExAcquireSpinLockExclusive :: "nat \<Rightarrow> nat \<Rightarrow> (nat, SYNC) st" where
  "ExAcquireSpinLockExclusive t SpinLock =
     bindS (assertS (\<lambda>s. DdkCurrentIrql s t \<le> DISPATCH_LEVEL) ''KeGetCurrentIrql() <= DISPATCH_LEVEL'') (\<lambda>_.
     AcquireSpinLockExclusive t SpinLock DISPATCH_LEVEL)"

definition ExReleaseSpinLockExclusive :: "nat \<Rightarrow> nat \<Rightarrow> nat \<Rightarrow> (unit, SYNC) st" where
  "ExReleaseSpinLockExclusive t SpinLock NewIrql =
     bindS (assertS (\<lambda>s. DdkCurrentIrql s t \<ge> DISPATCH_LEVEL) ''KeGetCurrentIrql() >= DISPATCH_LEVEL'') (\<lambda>_.
     bindS (GetSRWLock SpinLock) (\<lambda>l.
     bindS (ReleaseSRWLockExclusive t l) (\<lambda>_.
     KeLowerIrql t NewIrql)))"

definition ExAcquireSpinLockExclusiveAtDpcLevel :: "nat \<Rightarrow> nat \<Rightarrow> (unit, SYNC) st" where
  "ExAcquireSpinLockExclusiveAtDpcLevel t SpinLock =
     bindS (assertS (\<lambda>s. DdkCurrentIrql s t \<ge> DISPATCH_LEVEL) ''KeGetCurrentIrql() >= DISPATCH_LEVEL'') (\<lambda>_.
     bindS (KeGetCurrentIrql t) (\<lambda>cur.
     bindS (AcquireSpinLockExclusive t SpinLock cur) (\<lambda>_. ret ())))"

definition ExReleaseSpinLockExclusiveFromDpcLevel :: "nat \<Rightarrow> nat \<Rightarrow> (unit, SYNC) st" where
  "ExReleaseSpinLockExclusiveFromDpcLevel t SpinLock =
     bindS (KeGetCurrentIrql t) (ExReleaseSpinLockExclusive t SpinLock)"

section \<open>Steps of the threads\<close>

datatype call =
    Raise nat | Lower nat | WriteCR8 nat
  | InitLock nat | Acquire nat | AcquireForDpc nat | AcquireAtDpc nat | TryAcquire nat | Release nat nat | ReleaseFromDpc nat
  | AcquireQueued nat | AcquireQueuedAtDpc nat | ReleaseQueued LOCKHANDLE | ReleaseQueuedFromDpc LOCKHANDLE
  | AcquireShared nat | ReleaseShared nat nat | AcquireSharedAtDpc nat | ReleaseSharedFromDpc nat
  | AcquireExclusive nat | ReleaseExclusive nat nat | AcquireExclusiveAtDpc nat | ReleaseExclusiveFromDpc nat

definition drop_result :: "('a, 's) st \<Rightarrow> (unit, 's) st" where
  "drop_result m = bindS m (\<lambda>_. ret ())"

fun exec :: "nat \<Rightarrow> call \<Rightarrow> (unit, SYNC) st" where
  "exec t (Raise n) = drop_result (KeRaiseIrql t n)"
| "exec t (Lower n) = KeLowerIrql t n"
| "exec t (WriteCR8 n) = DdkWriteCR8 t n"
| "exec t (InitLock l) = KeInitializeSpinLock l"
| "exec t (Acquire l) = drop_result (KeAcquireSpinLockRaiseToDpc t l)"
| "exec t (AcquireForDpc l) = drop_result (KeAcquireSpinLockForDpc t l)"
| "exec t (AcquireAtDpc l) = KeAcquireSpinLockAtDpcLevel t l"
| "exec t (TryAcquire l) = drop_result (KeTryToAcquireSpinLockAtDpcLevel t l)"
| "exec t (Release l n) = KeReleaseSpinLock t l n"
| "exec t (ReleaseFromDpc l) = KeReleaseSpinLockFromDpcLevel t l"
| "exec t (AcquireQueued l) = drop_result (KeAcquireInStackQueuedSpinLock t l)"
| "exec t (AcquireQueuedAtDpc l) = drop_result (KeAcquireInStackQueuedSpinLockAtDpcLevel t l)"
| "exec t (ReleaseQueued h) = KeReleaseInStackQueuedSpinLock t h"
| "exec t (ReleaseQueuedFromDpc h) = KeReleaseInStackQueuedSpinLockFromDpcLevel t h"
| "exec t (AcquireShared l) = drop_result (ExAcquireSpinLockShared t l)"
| "exec t (ReleaseShared l n) = ExReleaseSpinLockShared t l n"
| "exec t (AcquireSharedAtDpc l) = ExAcquireSpinLockSharedAtDpcLevel t l"
| "exec t (ReleaseSharedFromDpc l) = ExReleaseSpinLockSharedFromDpcLevel t l"
| "exec t (AcquireExclusive l) = drop_result (ExAcquireSpinLockExclusive t l)"
| "exec t (ReleaseExclusive l n) = ExReleaseSpinLockExclusive t l n"
| "exec t (AcquireExclusiveAtDpc l) = ExAcquireSpinLockExclusiveAtDpcLevel t l"
| "exec t (ReleaseExclusiveFromDpc l) = ExReleaseSpinLockExclusiveFromDpcLevel t l"

text \<open>The state when the library is loaded, with memory for \<open>n\<close> blocks; and the states the threads can reach, in any interleaving.\<close>

definition sync_init :: "nat \<Rightarrow> SYNC" where
  "sync_init n = \<lparr>DdkCurrentIrql = (\<lambda>_. PASSIVE_LEVEL), srw = (\<lambda>_. Free), cell = (\<lambda>_. 0), lockcount = 1, lockv = [], blocks_left = n\<rparr>"

inductive reach :: "SYNC \<Rightarrow> bool" where
  init: "reach (sync_init n)"
| step: "reach s \<Longrightarrow> exec t c s = Inr ((), s') \<Longrightarrow> reach s'"

text \<open>Two calls in sequence of locks acquired and released by one thread.\<close>

fun AcquireAll :: "nat \<Rightarrow> nat list \<Rightarrow> (nat list, SYNC) st" where
  "AcquireAll t [] = ret []"
| "AcquireAll t (l # ls) = bindS (KeAcquireSpinLockRaiseToDpc t l) (\<lambda>irql. bindS (AcquireAll t ls) (\<lambda>irqls. ret (irql # irqls)))"

fun ReleaseAll :: "nat \<Rightarrow> (nat \<times> nat) list \<Rightarrow> (unit, SYNC) st" where
  "ReleaseAll t [] = ret ()"
| "ReleaseAll t ((l, irql) # rest) = bindS (KeReleaseSpinLock t l irql) (\<lambda>_. ReleaseAll t rest)"

section \<open>Lemmas\<close>

named_theorems pres_rules \<open>preservation by the primitives and their composition\<close>

definition pres :: "('s \<Rightarrow> bool) \<Rightarrow> ('a, 's) st \<Rightarrow> bool" where
  "pres P m \<longleftrightarrow> (\<forall>s r s'. P s \<longrightarrow> m s = Inr (r, s') \<longrightarrow> P s')"

lemma pres_bindS [pres_rules]: "pres P m \<Longrightarrow> (\<And>x. pres P (f x)) \<Longrightarrow> pres P (bindS m f)"
  unfolding pres_def by (metis bindS_eq_Inr_iff)

lemma pres_prims [pres_rules]: "pres P (ret x)" "pres P (gets g)" "pres P (assertS Q msg)"
  by (auto simp: pres_def assertS_def)

lemma pres_drop_result [pres_rules]: "pres P m \<Longrightarrow> pres P (drop_result m)"
  unfolding drop_result_def by (intro pres_rules)

lemma presD: "pres P m \<Longrightarrow> P s \<Longrightarrow> m s = Inr (r, s') \<Longrightarrow> P s'"
  by (auto simp: pres_def)

definition wf_sync :: "SYNC \<Rightarrow> bool" where
  "wf_sync s \<longleftrightarrow> 0 < lockcount s \<and> lockcount s \<le> maxv * maxv \<and> (\<forall>c. cell s c < lockcount s)
     \<and> (\<forall>c c'. c \<noteq> c' \<longrightarrow> cell s c \<noteq> 0 \<longrightarrow> cell s c \<noteq> cell s c')
     \<and> (\<forall>i. 0 < i \<and> i < lockcount s \<longrightarrow> i div maxv \<in> set (lockv s))"

lemma div_maxv_bound: "i div 4096 < (4096 :: nat) \<longleftrightarrow> i < 16777216"
  by (simp add: less_mult_imp_div_less div_less_iff_less_mult)

text \<open>Where GetSRWLock leads from a well-formed state, on every branch.\<close>

lemma GetSRWLock_cases:
  assumes "wf_sync s"
  shows "GetSRWLock c s =
    (if cell s c \<noteq> 0 then Inr (Pool (cell s c), s)
     else if lockcount s = maxv * maxv then Inl (DdkFail ''Too many read write spinlocks'')
     else if lockcount s div maxv \<notin> set (lockv s) \<and> blocks_left s = 0 then Inl (DdkFail ''Unable to allocate read write spinlock'')
     else Inr (Pool (lockcount s),
       (if lockcount s div maxv \<in> set (lockv s) then s
        else s\<lparr>lockv := lockcount s div maxv # lockv s, blocks_left := blocks_left s - 1\<rparr>)
       \<lparr>lockcount := lockcount s + 1, cell := (cell s)(c := lockcount s)\<rparr>))"
  using assms by (auto simp: GetSRWLock_def wf_sync_def bindS_def assertS_def div_maxv_bound Let_def)

lemma GetSRWLock_wf: "wf_sync s \<Longrightarrow> GetSRWLock c s = Inr (l, s') \<Longrightarrow> wf_sync s'"
proof -
  assume wf: "wf_sync s" and run: "GetSRWLock c s = Inr (l, s')"
  show ?thesis
  proof (cases "cell s c = 0")
    case False
    with run wf show ?thesis by (simp add: GetSRWLock_cases [OF wf])
  next
    case True
    let ?n = "lockcount s"
    have s': "s' = (if ?n div maxv \<in> set (lockv s) then s else s\<lparr>lockv := ?n div maxv # lockv s, blocks_left := blocks_left s - 1\<rparr>)
       \<lparr>lockcount := ?n + 1, cell := (cell s)(c := ?n)\<rparr>" and n: "?n \<noteq> maxv * maxv"
      using run True by (auto simp: GetSRWLock_cases [OF wf] split: if_splits)
    have "cell s' = (cell s)(c := ?n)" "lockcount s' = ?n + 1" "set (lockv s') = insert (?n div maxv) (set (lockv s))"
      unfolding s' by auto
    moreover have "cell s x \<noteq> ?n" for x
    proof -
      have "cell s x < ?n" using wf by (simp add: wf_sync_def)
      then show ?thesis by simp
    qed
    moreover have "?n + 1 \<le> maxv * maxv" using n wf by (simp add: wf_sync_def)
    ultimately show ?thesis using wf unfolding wf_sync_def by (auto simp: less_Suc_eq)
  qed
qed

lemma wf_set [pres_rules]: "pres wf_sync (set_irql t v)" "pres wf_sync (set_srw l w)" "pres wf_sync (GetSRWLock c)"
proof -
  show "pres wf_sync (GetSRWLock c)" unfolding pres_def using GetSRWLock_wf by blast
qed (auto simp: pres_def set_irql_def set_srw_def wf_sync_def)

lemma pres_srw:
  assumes "\<And>l v. pres P (set_srw l v)"
  shows "pres P (AcquireSRWLockExclusive t l)" "pres P (TryAcquireSRWLockExclusive t l)" "pres P (ReleaseSRWLockExclusive t l)"
    "pres P (AcquireSRWLockShared t l)" "pres P (ReleaseSRWLockShared t l)"
  using assms
  by (auto simp: pres_def AcquireSRWLockExclusive_def TryAcquireSRWLockExclusive_def ReleaseSRWLockExclusive_def
      AcquireSRWLockShared_def ReleaseSRWLockShared_def bindS_def split: if_splits SRWLOCK.splits sum.splits prod.splits)

lemmas wf_srw [pres_rules] = pres_srw [OF wf_set(2)]

lemmas op_defs = KfRaiseIrql_def KeRaiseIrql_def KeLowerIrql_def DdkWriteCR8_def KeGetCurrentIrql_def
  KeInitializeSpinLock_def AcquireSpinLock_def KeAcquireSpinLockRaiseToDpc_def KeAcquireSpinLockForDpc_def
  KeAcquireSpinLockAtDpcLevel_def KeTryToAcquireSpinLockAtDpcLevel_def KeReleaseSpinLock_def KeReleaseSpinLockFromDpcLevel_def
  KeAcquireInStackQueuedSpinLock_def KeAcquireInStackQueuedSpinLockAtDpcLevel_def KeReleaseInStackQueuedSpinLock_def
  KeReleaseInStackQueuedSpinLockFromDpcLevel_def AcquireSpinLockShared_def ExAcquireSpinLockShared_def ExReleaseSpinLockShared_def
  ExAcquireSpinLockSharedAtDpcLevel_def ExReleaseSpinLockSharedFromDpcLevel_def AcquireSpinLockExclusive_def
  ExAcquireSpinLockExclusive_def ExReleaseSpinLockExclusive_def ExAcquireSpinLockExclusiveAtDpcLevel_def
  ExReleaseSpinLockExclusiveFromDpcLevel_def

lemma exec_wf: "pres wf_sync (exec t c)"
  by (cases c; simp only: exec.simps; (simp only: op_defs | intro pres_rules)+)

lemma reach_wf: "reach s \<Longrightarrow> wf_sync s"
proof (induction rule: reach.induct)
  case (init n)
  then show ?case by (auto simp: sync_init_def wf_sync_def)
next
  case (step s t c s')
  then show ?case using presD [OF exec_wf] by blast
qed

text \<open>What no step of another thread changes: the exclusive holder of an element of the pool.\<close>

definition held_by :: "nat \<Rightarrow> nat \<Rightarrow> nat \<Rightarrow> SYNC \<Rightarrow> bool" where
  "held_by t c i s \<longleftrightarrow> wf_sync s \<and> cell s c = i \<and> i \<noteq> 0 \<and> srw s (Pool i) = Exclusive t"

lemma held_prims [pres_rules]:
  "pres (held_by t c i) (set_irql t' v)" "pres (held_by t c i) (set_srw (Spin l) w)" "pres (held_by t c i) (GetSRWLock c')"
proof -
  show "pres (held_by t c i) (GetSRWLock c')" unfolding pres_def
  proof (intro allI impI)
    fix s l s'
    assume h: "held_by t c i s" and run: "GetSRWLock c' s = Inr (l, s')"
    then have wf: "wf_sync s" by (simp add: held_by_def)
    have "cell s' c = cell s c" "srw s' = srw s"
      using run h by (auto simp: GetSRWLock_cases [OF wf] held_by_def split: if_splits)
    with h GetSRWLock_wf [OF wf run] show "held_by t c i s'" by (simp add: held_by_def)
  qed
qed (auto simp: pres_def held_by_def set_irql_def set_srw_def wf_sync_def)

lemma held_srw [pres_rules]:
  assumes "t \<noteq> t'"
  shows "pres (held_by t c i) (AcquireSRWLockExclusive t' l)" "pres (held_by t c i) (TryAcquireSRWLockExclusive t' l)"
    "pres (held_by t c i) (ReleaseSRWLockExclusive t' l)" "pres (held_by t c i) (AcquireSRWLockShared t' l)"
    "pres (held_by t c i) (ReleaseSRWLockShared t' l)"
  using assms by (auto simp: pres_def held_by_def wf_sync_def set_srw_def bindS_def AcquireSRWLockExclusive_def
      TryAcquireSRWLockExclusive_def ReleaseSRWLockExclusive_def AcquireSRWLockShared_def ReleaseSRWLockShared_def
      split: if_splits SRWLOCK.splits)

lemma exec_held: "t \<noteq> t' \<Longrightarrow> pres (held_by t c i) (exec t' op)"
  by (cases op; simp only: exec.simps; (assumption | simp only: op_defs | intro pres_rules)+)

lemma KeAcquireSpinLockRaiseToDpc_eq:
  "KeAcquireSpinLockRaiseToDpc t l s =
     (if DdkCurrentIrql s t > DISPATCH_LEVEL then Inl (DdkFail ''KeGetCurrentIrql() <= DISPATCH_LEVEL'')
      else if srw s (Spin l) \<noteq> Free then Inl Waits
      else Inr (DdkCurrentIrql s t, s\<lparr>DdkCurrentIrql := (DdkCurrentIrql s)(t := DISPATCH_LEVEL), srw := (srw s)(Spin l := Exclusive t)\<rparr>))"
  by (simp add: op_defs bindS_def assertS_def set_irql_def set_srw_def AcquireSRWLockExclusive_def)

lemma KeReleaseSpinLock_eq:
  "KeReleaseSpinLock t l n s =
     (if DdkCurrentIrql s t < DISPATCH_LEVEL then Inl (DdkFail ''KeGetCurrentIrql() >= DISPATCH_LEVEL'')
      else if srw s (Spin l) \<noteq> Exclusive t then Inl Fault
      else if DdkCurrentIrql s t < n then Inl (DdkFail ''KeGetCurrentIrql() >= NewIrql'')
      else Inr ((), s\<lparr>DdkCurrentIrql := (DdkCurrentIrql s)(t := n), srw := (srw s)(Spin l := Free)\<rparr>))"
  by (simp add: op_defs bindS_def assertS_def set_irql_def set_srw_def ReleaseSRWLockExclusive_def)

lemma ReleaseAll_append: "ReleaseAll t (xs @ ys) s = bindS (ReleaseAll t xs) (\<lambda>_. ReleaseAll t ys) s"
  by (induction t xs arbitrary: s rule: ReleaseAll.induct) (simp_all add: bindS_def split: sum.splits)

lemma AcquireAll_ReleaseAll:
  assumes "distinct ls" "\<forall>l \<in> set ls. srw s (Spin l) = Free" "DdkCurrentIrql s t \<le> DISPATCH_LEVEL"
  shows "\<exists>irqls s'. AcquireAll t ls s = Inr (irqls, s') \<and> length irqls = length ls
    \<and> DdkCurrentIrql s' t = (if ls = [] then DdkCurrentIrql s t else DISPATCH_LEVEL)
    \<and> (\<forall>l \<in> set ls. srw s' (Spin l) = Exclusive t) \<and> (\<forall>l. l \<notin> Spin ` set ls \<longrightarrow> srw s' l = srw s l)
    \<and> ReleaseAll t (rev (zip ls irqls)) s' = Inr ((), s)"
  using assms
proof (induction ls arbitrary: s)
  case Nil
  then show ?case by simp
next
  case (Cons l ls)
  let ?s = "s\<lparr>DdkCurrentIrql := (DdkCurrentIrql s)(t := DISPATCH_LEVEL), srw := (srw s)(Spin l := Exclusive t)\<rparr>"
  have acq: "KeAcquireSpinLockRaiseToDpc t l s = Inr (DdkCurrentIrql s t, ?s)"
    using Cons.prems by (simp add: KeAcquireSpinLockRaiseToDpc_eq)
  have free: "\<forall>x \<in> set ls. srw ?s (Spin x) = Free" "DdkCurrentIrql ?s t \<le> DISPATCH_LEVEL" "distinct ls"
    using Cons.prems by auto
  obtain irqls s' where ih: "AcquireAll t ls ?s = Inr (irqls, s')" "length irqls = length ls"
      "DdkCurrentIrql s' t = DISPATCH_LEVEL" "\<forall>l \<in> set ls. srw s' (Spin l) = Exclusive t"
      "\<forall>x. x \<notin> Spin ` set ls \<longrightarrow> srw s' x = srw ?s x" "ReleaseAll t (rev (zip ls irqls)) s' = Inr ((), ?s)"
    using Cons.IH [OF free(3,1,2)] by (elim exE conjE) (rule that; simp)
  have undo: "KeReleaseSpinLock t l (DdkCurrentIrql s t) ?s = Inr ((), s)"
    using Cons.prems by (simp add: KeReleaseSpinLock_eq fun_upd_idem)
  have "ReleaseAll t (rev (zip (l # ls) (DdkCurrentIrql s t # irqls))) s' = Inr ((), s)"
    using ih(6) undo by (simp add: ReleaseAll_append bindS_def)
  with acq ih Cons.prems(1) show ?case
    by (intro exI [of _ "DdkCurrentIrql s t # irqls"] exI [of _ s']) (auto simp: bindS_def)
qed

lemma acquire_waits:
  assumes "held_by t c i s" "DdkCurrentIrql s t' \<le> DISPATCH_LEVEL"
  shows "ExAcquireSpinLockExclusive t' c s = Inl Waits" "ExAcquireSpinLockShared t' c s = Inl Waits"
proof -
  let ?s = "s\<lparr>DdkCurrentIrql := (DdkCurrentIrql s)(t' := DISPATCH_LEVEL)\<rparr>"
  have wf: "wf_sync ?s" using assms(1) by (simp add: held_by_def wf_sync_def)
  have "GetSRWLock c ?s = Inr (Pool i, ?s)" using assms(1) GetSRWLock_cases [OF wf, of c] by (simp add: held_by_def)
  with assms show "ExAcquireSpinLockExclusive t' c s = Inl Waits" "ExAcquireSpinLockShared t' c s = Inl Waits"
    by (simp_all add: op_defs bindS_def assertS_def set_irql_def AcquireSRWLockExclusive_def AcquireSRWLockShared_def held_by_def)
qed

section \<open>Properties\<close>

text \<open>
  Spin locks nest: a thread at or below DISPATCH_LEVEL that acquires any number of different free spin locks gets
  them all, runs at DISPATCH_LEVEL, and releasing them in the opposite order with the levels the acquisitions returned
  restores the state it started from, its level included.
\<close>

theorem spin_locks_nest:
  assumes "distinct ls" "\<forall>l \<in> set ls. srw s (Spin l) = Free" "DdkCurrentIrql s t \<le> DISPATCH_LEVEL"
  shows "\<exists>irqls s'. AcquireAll t ls s = Inr (irqls, s')
    \<and> DdkCurrentIrql s' t = (if ls = [] then DdkCurrentIrql s t else DISPATCH_LEVEL)
    \<and> (\<forall>l \<in> set ls. srw s' (Spin l) = Exclusive t)
    \<and> ReleaseAll t (rev (zip ls irqls)) s' = Inr ((), s)"
  using AcquireAll_ReleaseAll [OF assms] by blast

theorem spin_locks_nest_witness:
  "\<exists>irqls s'. AcquireAll 1 [10, 20] (sync_init 0) = Inr (irqls, s') \<and> ReleaseAll 1 (rev (zip [10, 20] irqls)) s' = Inr ((), sync_init 0)"
  using spin_locks_nest [of "[10, 20]" "sync_init 0" 1] by (auto simp: sync_init_def)

text \<open>
  In every state the threads can reach, in any interleaving of the operations on levels and spin locks, the numbers stored in the
  reader/writer spin locks are those of different elements of the pool, below \<open>2 ^ 24\<close>, so that two locks never share
  an element, and the check "Uninitialized read write lock" does not fail.
\<close>

theorem ex_spin_locks_have_own_element:
  assumes "reach s"
  shows "(c \<noteq> c' \<and> cell s c \<noteq> 0 \<longrightarrow> cell s c \<noteq> cell s c') \<and> cell s c < 2 ^ 24
    \<and> GetSRWLock c s \<noteq> Inl (DdkFail ''Uninitialized read write lock'')"
proof -
  have wf: "wf_sync s" by (rule reach_wf [OF assms])
  then have "cell s c < 2 ^ 24" using less_le_trans [of "cell s c" "lockcount s" "2 ^ 24"] by (simp add: wf_sync_def)
  moreover have "c \<noteq> c' \<and> cell s c \<noteq> 0 \<longrightarrow> cell s c \<noteq> cell s c'" using wf by (simp add: wf_sync_def)
  ultimately show ?thesis by (simp add: GetSRWLock_cases [OF wf])
qed

text \<open>
  C11.  Mutual exclusion of a reader/writer spin lock: while a thread holds it exclusively, an attempt of a thread to acquire it, exclusively
  or shared, waits, and no operation of another thread takes it away: afterwards it is still held.
\<close>

theorem ex_spin_lock_exclusion:
  assumes "reach s" "cell s c \<noteq> 0" "srw s (Pool (cell s c)) = Exclusive t"
  shows "(DdkCurrentIrql s t' \<le> DISPATCH_LEVEL \<longrightarrow>
            ExAcquireSpinLockExclusive t' c s = Inl Waits \<and> ExAcquireSpinLockShared t' c s = Inl Waits)
    \<and> (t' \<noteq> t \<and> exec t' op s = Inr ((), s') \<longrightarrow> cell s' c = cell s c \<and> srw s' (Pool (cell s' c)) = Exclusive t)"
proof -
  have h: "held_by t c (cell s c) s" using assms reach_wf by (simp add: held_by_def)
  have "held_by t c (cell s c) s'" if "t \<noteq> t'" "exec t' op s = Inr ((), s')"
    using presD [OF exec_held [OF that(1)] h that(2)] .
  with acquire_waits [OF h] show ?thesis by (auto simp: held_by_def)
qed

definition locked_state :: SYNC where
  "locked_state = (sync_init 0)\<lparr>DdkCurrentIrql := (\<lambda>_. 0)(1 := 2), srw := (\<lambda>_. Free)(Pool 1 := Exclusive 1),
     cell := (\<lambda>_. 0)(7 := 1), lockcount := 2, lockv := [0]\<rparr>"

lemma reach_locked: "reach locked_state"
proof -
  have "exec 1 (AcquireExclusive 7) (sync_init 1) = Inr ((), locked_state)"
    by (simp add: locked_state_def sync_init_def op_defs drop_result_def GetSRWLock_def bindS_def assertS_def set_irql_def set_srw_def
        AcquireSRWLockExclusive_def numeral_2_eq_2)
  then show ?thesis using reach.step [OF reach.init] by blast
qed

theorem ex_spin_locks_have_own_element_witness:
  "cell locked_state 7 < 2 ^ 24 \<and> cell locked_state 7 \<noteq> cell locked_state 8"
  using ex_spin_locks_have_own_element [OF reach_locked, of 7 8] by (simp add: locked_state_def)

theorem ex_spin_lock_exclusion_witness:
  "ExAcquireSpinLockExclusive 2 7 locked_state = Inl Waits \<and> ExAcquireSpinLockShared 2 7 locked_state = Inl Waits"
  using ex_spin_lock_exclusion [OF reach_locked, of 7 1 2] by (simp add: locked_state_def sync_init_def)

end
