(* ===== verification/BugCheck.thy ===== *)
theory BugCheck
  imports Sync
begin

text \<open>
  Bug checks: src/src/error.cpp.  A driver registers callback records, plain ones and ones with a reason; a bug check runs the
  callbacks of the records on the two lists whose checksum is intact, at HIGH_LEVEL and under the lock of the module, and then
  raises the exception of the unit test (\<open>BugCheck code\<close>).

  Records are identified by their addresses; the doubly linked lists are lists of addresses in the order of insertion.  The
  callbacks are the driver's: a call of one is an event of the trace, and \<open>extra\<close> says how many more page ranges a
  callback reports after the first (None when it always asks to be called again).
\<close>

unbundle bit_operations_syntax

section \<open>Definitions\<close>

type_synonym ULONG_PTR = "64 word"

datatype RECSTATE = BufferEmpty | BufferInserted | BufferStarted | BufferFinished | BufferIncomplete

datatype REASON = KbCallbackInvalid | KbCallbackReserved1 | KbCallbackSecondaryDumpData | KbCallbackDumpIo | KbCallbackAddPages
  | KbCallbackSecondaryMultiPartDumpData | KbCallbackRemovePages | KbCallbackTriageDumpData

record RECORD =
  CallbackRoutine :: ULONG_PTR
  BufferPtr :: ULONG_PTR
  BufferLength :: ULONG
  Component :: ULONG_PTR
  Checksum :: ULONG_PTR
  State :: RECSTATE
  Reason :: REASON

datatype event =
    PlainCall ULONG_PTR ULONG_PTR ULONG
  | ReasonCall ULONG_PTR REASON ULONG_PTR ULONG "ULONG_PTR list"

record ERR =
  sync :: SYNC
  BugList :: "ULONG_PTR list"
  ReasonList :: "ULONG_PTR list"
  plain :: "ULONG_PTR \<Rightarrow> RECORD"
  reason :: "ULONG_PTR \<Rightarrow> RECORD"
  trace :: "event list"

text \<open>The operator \<open>&\<close> of C binds tighter than \<open>^\<close>.\<close>

definition BUGCHECK_CHECKSUM :: "ULONG_PTR \<Rightarrow> RECORD \<Rightarrow> ULONG_PTR" where
  "BUGCHECK_CHECKSUM cb r = cb XOR (CallbackRoutine r AND Component r)"

text \<open>The spin lock of the module.\<close>

abbreviation (input) Lock :: nat where "Lock \<equiv> 64"

definition with_sync :: "('a, SYNC) st \<Rightarrow> ('a, ERR) st" where
  "with_sync m s = (case m (sync s) of Inl e \<Rightarrow> Inl e | Inr (x, y) \<Rightarrow> Inr (x, s\<lparr>sync := y\<rparr>))"

definition DdkInitError :: "(unit, ERR) st" where
  "DdkInitError =
     bindS (with_sync (KeInitializeSpinLock Lock)) (\<lambda>_.
     modify (\<lambda>s. s\<lparr>BugList := [], ReasonList := []\<rparr>))"

definition emit :: "event \<Rightarrow> (unit, ERR) st" where
  "emit e = modify (\<lambda>s. s\<lparr>trace := trace s @ [e]\<rparr>)"

text \<open>The loop over the page ranges of one callback, with \<open>k\<close> ranges after the present one.\<close>

fun PagesLoop :: "event \<Rightarrow> nat \<Rightarrow> (unit, ERR) st" where
  "PagesLoop e 0 = emit e"
| "PagesLoop e (Suc k) = bindS (emit e) (\<lambda>_. PagesLoop e k)"

definition ReasonCallback :: "(ULONG_PTR \<Rightarrow> nat option) \<Rightarrow> ULONG \<Rightarrow> ULONG_PTR list \<Rightarrow> ULONG_PTR \<Rightarrow> (unit, ERR) st" where
  "ReasonCallback extra code params rp =
     bindS (gets (\<lambda>s. reason s rp)) (\<lambda>r.
     if Checksum r \<noteq> BUGCHECK_CHECKSUM rp r then ret ()
     else case Reason r of
            KbCallbackAddPages \<Rightarrow>
              (case extra rp of None \<Rightarrow> fail Waits | Some k \<Rightarrow> PagesLoop (ReasonCall (CallbackRoutine r) (Reason r) rp code []) k)
          | KbCallbackRemovePages \<Rightarrow>
              (case extra rp of None \<Rightarrow> fail Waits | Some k \<Rightarrow> PagesLoop (ReasonCall (CallbackRoutine r) (Reason r) rp code []) k)
          | KbCallbackTriageDumpData \<Rightarrow> emit (ReasonCall (CallbackRoutine r) (Reason r) rp code params)
          | _ \<Rightarrow> ret ())"

definition PlainCallback :: "ULONG_PTR \<Rightarrow> (unit, ERR) st" where
  "PlainCallback rp =
     bindS (gets (\<lambda>s. plain s rp)) (\<lambda>r.
     if Checksum r = BUGCHECK_CHECKSUM rp r then emit (PlainCall (CallbackRoutine r) (BufferPtr r) (BufferLength r)) else ret ())"

fun for_each :: "('a \<Rightarrow> (unit, 's) st) \<Rightarrow> 'a list \<Rightarrow> (unit, 's) st" where
  "for_each f [] = ret ()"
| "for_each f (x # xs) = bindS (f x) (\<lambda>_. for_each f xs)"

definition BugCheckCallbacks :: "(ULONG_PTR \<Rightarrow> nat option) \<Rightarrow> nat \<Rightarrow> ULONG \<Rightarrow> ULONG_PTR list \<Rightarrow> (unit, ERR) st" where
  "BugCheckCallbacks extra t code params =
     bindS (with_sync (KeRaiseIrql t HIGH_LEVEL)) (\<lambda>irql.
     bindS (with_sync (KeAcquireSpinLockAtDpcLevel t Lock)) (\<lambda>_.
     bindS (gets ReasonList) (\<lambda>rs.
     bindS (for_each (ReasonCallback extra code params) rs) (\<lambda>_.
     bindS (gets BugList) (\<lambda>ps.
     bindS (for_each PlainCallback ps) (\<lambda>_.
     bindS (with_sync (KeReleaseSpinLockFromDpcLevel t Lock)) (\<lambda>_.
     with_sync (KeLowerIrql t irql))))))))"

definition KeBugCheckEx :: "(ULONG_PTR \<Rightarrow> nat option) \<Rightarrow> nat \<Rightarrow> ULONG \<Rightarrow> ULONG_PTR list \<Rightarrow> (unit, ERR) st" where
  "KeBugCheckEx extra t BugCheckCode params =
     bindS (BugCheckCallbacks extra t BugCheckCode params) (\<lambda>_. fail (BugCheck BugCheckCode))"

definition KeBugCheck :: "(ULONG_PTR \<Rightarrow> nat option) \<Rightarrow> nat \<Rightarrow> ULONG \<Rightarrow> (unit, ERR) st" where
  "KeBugCheck extra t BugCheckCode = KeBugCheckEx extra t BugCheckCode [0, 0, 0, 0]"

definition BugCheckString :: "ULONG \<Rightarrow> string" where
  "BugCheckString code =
     (if code = 0xC0000047 then ''STATUS_SEMAPHORE_LIMIT_EXCEEDED''
      else if code = 0xC then ''MAXIMUM_WAIT_OBJECTS_EXCEEDED''
      else if code = 0x44 then ''MULTIPLE_IRP_COMPLETE_REQUESTS''
      else if code = 0x35 then ''NO_MORE_IRP_STACK_LOCATIONS''
      else ''UNKNOWN'')"

text \<open>What the four routines share: nothing for a null record, otherwise the change at HIGH_LEVEL and under the lock.\<close>

definition at_high_level :: "nat \<Rightarrow> ULONG_PTR \<Rightarrow> (bool, ERR) st \<Rightarrow> (bool, ERR) st" where
  "at_high_level t rp m =
     (if rp = 0 then ret False
      else bindS (with_sync (KeRaiseIrql t HIGH_LEVEL)) (\<lambda>irql.
           bindS (with_sync (KeAcquireSpinLockAtDpcLevel t Lock)) (\<lambda>_.
           bindS m (\<lambda>rc.
           bindS (with_sync (KeReleaseSpinLockFromDpcLevel t Lock)) (\<lambda>_.
           bindS (with_sync (KeLowerIrql t irql)) (\<lambda>_. ret rc))))))"

definition set_checksum :: "ULONG_PTR \<Rightarrow> RECORD \<Rightarrow> RECORD" where
  "set_checksum rp r = r\<lparr>Checksum := BUGCHECK_CHECKSUM rp r\<rparr>"

definition KeRegisterBugCheckCallback ::
    "nat \<Rightarrow> ULONG_PTR \<Rightarrow> ULONG_PTR \<Rightarrow> ULONG_PTR \<Rightarrow> ULONG \<Rightarrow> ULONG_PTR \<Rightarrow> (bool, ERR) st" where
  "KeRegisterBugCheckCallback t rp routine buf len cmp =
     at_high_level t rp (\<lambda>s.
       if State (plain s rp) = BufferEmpty
       then Inr (True, s\<lparr>plain := (plain s)(rp := set_checksum rp ((plain s rp)\<lparr>CallbackRoutine := routine, BufferPtr := buf,
                   BufferLength := len, Component := cmp, State := BufferInserted\<rparr>)), BugList := BugList s @ [rp]\<rparr>)
       else Inr (False, s))"

definition KeDeregisterBugCheckCallback :: "nat \<Rightarrow> ULONG_PTR \<Rightarrow> (bool, ERR) st" where
  "KeDeregisterBugCheckCallback t rp =
     at_high_level t rp (\<lambda>s.
       if State (plain s rp) = BufferInserted
       then if rp \<in> set (BugList s)
            then Inr (True, s\<lparr>BugList := remove1 rp (BugList s), plain := (plain s)(rp := (plain s rp)\<lparr>State := BufferEmpty\<rparr>)\<rparr>)
            else Inl Fault
       else Inr (False, s))"

definition KeRegisterBugCheckReasonCallback :: "nat \<Rightarrow> ULONG_PTR \<Rightarrow> ULONG_PTR \<Rightarrow> REASON \<Rightarrow> ULONG_PTR \<Rightarrow> (bool, ERR) st" where
  "KeRegisterBugCheckReasonCallback t rp routine rsn cmp =
     at_high_level t rp (\<lambda>s.
       if State (reason s rp) = BufferEmpty
       then Inr (True, s\<lparr>reason := (reason s)(rp := set_checksum rp ((reason s rp)\<lparr>CallbackRoutine := routine,
                   Component := cmp, Reason := rsn, State := BufferInserted\<rparr>)), ReasonList := ReasonList s @ [rp]\<rparr>)
       else Inr (False, s))"

definition KeDeregisterBugCheckReasonCallback :: "nat \<Rightarrow> ULONG_PTR \<Rightarrow> (bool, ERR) st" where
  "KeDeregisterBugCheckReasonCallback t rp =
     at_high_level t rp (\<lambda>s.
       if State (reason s rp) = BufferInserted
       then if rp \<in> set (ReasonList s)
            then Inr (True, s\<lparr>ReasonList := remove1 rp (ReasonList s), reason := (reason s)(rp := (reason s rp)\<lparr>State := BufferEmpty\<rparr>)\<rparr>)
            else Inl Fault
       else Inr (False, s))"

section \<open>Invariant\<close>

definition wf_err :: "ERR \<Rightarrow> bool" where
  "wf_err s \<longleftrightarrow> distinct (BugList s) \<and> distinct (ReasonList s)
     \<and> (\<forall>rp. rp \<in> set (BugList s) \<longleftrightarrow> State (plain s rp) = BufferInserted)
     \<and> (\<forall>rp. rp \<in> set (ReasonList s) \<longleftrightarrow> State (reason s rp) = BufferInserted)"

text \<open>The lock is free and the thread is not above HIGH_LEVEL.\<close>

definition quiet :: "nat \<Rightarrow> ERR \<Rightarrow> bool" where
  "quiet t s \<longleftrightarrow> srw (sync s) (Spin Lock) = Free \<and> DdkCurrentIrql (sync s) t \<le> HIGH_LEVEL"

text \<open>The state of the locks inside the critical section.\<close>

definition inside :: "nat \<Rightarrow> ERR \<Rightarrow> ERR" where
  "inside t s = s\<lparr>sync := (sync s)\<lparr>DdkCurrentIrql := (DdkCurrentIrql (sync s))(t := HIGH_LEVEL), srw := (srw (sync s))(Spin Lock := Exclusive t)\<rparr>\<rparr>"

lemma enter:
  "quiet t s \<Longrightarrow> bindS (with_sync (KeRaiseIrql t HIGH_LEVEL)) (\<lambda>irql. bindS (with_sync (KeAcquireSpinLockAtDpcLevel t Lock)) (\<lambda>_. k irql)) s
     = k (DdkCurrentIrql (sync s) t) (inside t s)"
  by (simp add: quiet_def inside_def with_sync_def op_defs bindS_def assertS_def set_irql_def set_srw_def AcquireSRWLockExclusive_def)

lemma leave:
  assumes "quiet t s" "sync s' = sync (inside t s)"
  shows "bindS (with_sync (KeReleaseSpinLockFromDpcLevel t Lock)) (\<lambda>_. with_sync (KeLowerIrql t (DdkCurrentIrql (sync s) t))) s'
     = Inr ((), s'\<lparr>sync := sync s\<rparr>)"
  using assms by (simp add: quiet_def inside_def with_sync_def op_defs bindS_def assertS_def set_irql_def set_srw_def
      ReleaseSRWLockExclusive_def fun_upd_idem)

lemma at_high_level_eq:
  assumes "quiet t s" and "\<And>x s'. m (inside t s) = Inr (x, s') \<Longrightarrow> sync s' = sync (inside t s)"
  shows "at_high_level t rp m s =
    (if rp = 0 then Inr (False, s)
     else case m (inside t s) of Inl e \<Rightarrow> Inl e | Inr (x, s') \<Rightarrow> Inr (x, s'\<lparr>sync := sync s\<rparr>))"
proof (cases "m (inside t s)")
  case (Inl e)
  then have "bindS m f (inside t s) = Inl e" for f :: "bool \<Rightarrow> (bool, ERR) st" by (simp add: bindS_def)
  with Inl show ?thesis by (simp add: at_high_level_def enter [OF assms(1)])
next
  case (Inr y)
  obtain x s' where y: "y = (x, s')" by fastforce
  have "bindS (with_sync (KeReleaseSpinLockFromDpcLevel t Lock)) (\<lambda>_. bindS (with_sync (KeLowerIrql t (DdkCurrentIrql (sync s) t))) (\<lambda>_. ret x)) s'
      = Inr (x, s'\<lparr>sync := sync s\<rparr>)"
    using leave [OF assms(1), of s'] assms(2) [of x s'] Inr y by (auto simp: bindS_def split: sum.splits)
  moreover have "bindS m f (inside t s) = f x s'" for f :: "bool \<Rightarrow> (bool, ERR) st" using Inr y by (simp add: bindS_def)
  ultimately show ?thesis using Inr y by (simp add: at_high_level_def enter [OF assms(1)])
qed

lemma inside_sel [simp]:
  "BugList (inside t s) = BugList s" "ReasonList (inside t s) = ReasonList s" "plain (inside t s) = plain s"
  "reason (inside t s) = reason s" "trace (inside t s) = trace s"
  by (simp_all add: inside_def)

lemma inside_sync [simp]: "(inside t s)\<lparr>sync := sync s\<rparr> = s"
  by (simp add: inside_def)

text \<open>The four routines on a quiet state.\<close>

lemma KeRegisterBugCheckCallback_eq:
  assumes "quiet t s"
  shows "KeRegisterBugCheckCallback t rp routine buf len cmp s =
    (if rp = 0 \<or> State (plain s rp) \<noteq> BufferEmpty then Inr (False, s)
     else Inr (True, s\<lparr>plain := (plain s)(rp := set_checksum rp ((plain s rp)\<lparr>CallbackRoutine := routine, BufferPtr := buf,
                   BufferLength := len, Component := cmp, State := BufferInserted\<rparr>)), BugList := BugList s @ [rp]\<rparr>))"
  unfolding KeRegisterBugCheckCallback_def by (subst at_high_level_eq [OF assms]) (auto simp: inside_def split: if_splits)

lemma KeRegisterBugCheckReasonCallback_eq:
  assumes "quiet t s"
  shows "KeRegisterBugCheckReasonCallback t rp routine rsn cmp s =
    (if rp = 0 \<or> State (reason s rp) \<noteq> BufferEmpty then Inr (False, s)
     else Inr (True, s\<lparr>reason := (reason s)(rp := set_checksum rp ((reason s rp)\<lparr>CallbackRoutine := routine,
                   Component := cmp, Reason := rsn, State := BufferInserted\<rparr>)), ReasonList := ReasonList s @ [rp]\<rparr>))"
  unfolding KeRegisterBugCheckReasonCallback_def by (subst at_high_level_eq [OF assms]) (auto simp: inside_def split: if_splits)

lemma KeDeregisterBugCheckCallback_eq:
  assumes "quiet t s" "wf_err s"
  shows "KeDeregisterBugCheckCallback t rp s =
    (if rp = 0 \<or> State (plain s rp) \<noteq> BufferInserted then Inr (False, s)
     else Inr (True, s\<lparr>BugList := remove1 rp (BugList s), plain := (plain s)(rp := (plain s rp)\<lparr>State := BufferEmpty\<rparr>)\<rparr>))"
  using assms(2) unfolding KeDeregisterBugCheckCallback_def
  by (subst at_high_level_eq [OF assms(1)]) (auto simp: inside_def wf_err_def split: if_splits)

lemma KeDeregisterBugCheckReasonCallback_eq:
  assumes "quiet t s" "wf_err s"
  shows "KeDeregisterBugCheckReasonCallback t rp s =
    (if rp = 0 \<or> State (reason s rp) \<noteq> BufferInserted then Inr (False, s)
     else Inr (True, s\<lparr>ReasonList := remove1 rp (ReasonList s), reason := (reason s)(rp := (reason s rp)\<lparr>State := BufferEmpty\<rparr>)\<rparr>))"
  using assms(2) unfolding KeDeregisterBugCheckReasonCallback_def
  by (subst at_high_level_eq [OF assms(1)]) (auto simp: inside_def wf_err_def split: if_splits)

lemma wf_register:
  "wf_err s \<Longrightarrow> State (plain s rp) \<noteq> BufferInserted \<Longrightarrow> State r = BufferInserted \<Longrightarrow>
     wf_err (s\<lparr>plain := (plain s)(rp := r), BugList := BugList s @ [rp]\<rparr>)"
  "wf_err s \<Longrightarrow> State (reason s rp) \<noteq> BufferInserted \<Longrightarrow> State r = BufferInserted \<Longrightarrow>
     wf_err (s\<lparr>reason := (reason s)(rp := r), ReasonList := ReasonList s @ [rp]\<rparr>)"
  by (auto simp: wf_err_def)

lemma wf_deregister:
  "wf_err s \<Longrightarrow> State r \<noteq> BufferInserted \<Longrightarrow> wf_err (s\<lparr>BugList := remove1 rp (BugList s), plain := (plain s)(rp := r)\<rparr>)"
  "wf_err s \<Longrightarrow> State r \<noteq> BufferInserted \<Longrightarrow> wf_err (s\<lparr>ReasonList := remove1 rp (ReasonList s), reason := (reason s)(rp := r)\<rparr>)"
  by (auto simp: wf_err_def)

subsection \<open>The callbacks\<close>

text \<open>
  What a record contributes to the trace of a bug check.  The records for secondary dump data, multi-part dump data and dump I/O may be
  registered but the bug check never calls them.
\<close>

definition pages :: "REASON \<Rightarrow> bool" where
  "pages r \<longleftrightarrow> r = KbCallbackAddPages \<or> r = KbCallbackRemovePages"

definition reason_events :: "(ULONG_PTR \<Rightarrow> nat option) \<Rightarrow> ULONG \<Rightarrow> ULONG_PTR list \<Rightarrow> RECORD \<Rightarrow> ULONG_PTR \<Rightarrow> event list" where
  "reason_events extra code params r rp =
     (if Checksum r \<noteq> BUGCHECK_CHECKSUM rp r then []
      else if Reason r \<in> {KbCallbackAddPages, KbCallbackRemovePages}
      then replicate (the (extra rp) + 1) (ReasonCall (CallbackRoutine r) (Reason r) rp code [])
      else if Reason r = KbCallbackTriageDumpData then [ReasonCall (CallbackRoutine r) (Reason r) rp code params]
      else [])"

definition plain_events :: "RECORD \<Rightarrow> ULONG_PTR \<Rightarrow> event list" where
  "plain_events r rp = (if Checksum r = BUGCHECK_CHECKSUM rp r then [PlainCall (CallbackRoutine r) (BufferPtr r) (BufferLength r)] else [])"

lemma PagesLoop_eq: "PagesLoop e k s = Inr ((), s\<lparr>trace := trace s @ replicate (k + 1) e\<rparr>)"
  by (induction k arbitrary: s) (simp_all add: emit_def replicate_append_same)

lemma ReasonCallback_eq:
  assumes "pages (Reason (reason s rp)) \<longrightarrow> extra rp \<noteq> None"
  shows "ReasonCallback extra code params rp s = Inr ((), s\<lparr>trace := trace s @ reason_events extra code params (reason s rp) rp\<rparr>)"
  using assms by (cases "Reason (reason s rp)") (auto simp: ReasonCallback_def reason_events_def PagesLoop_eq emit_def pages_def)

lemma PlainCallback_eq: "PlainCallback rp s = Inr ((), s\<lparr>trace := trace s @ plain_events (plain s rp) rp\<rparr>)"
  by (simp add: PlainCallback_def plain_events_def emit_def)

lemma for_each_reason:
  assumes "\<forall>rp \<in> set rs. pages (Reason (reason s rp)) \<longrightarrow> extra rp \<noteq> None"
  shows "for_each (ReasonCallback extra code params) rs s
    = Inr ((), s\<lparr>trace := trace s @ concat (map (\<lambda>rp. reason_events extra code params (reason s rp) rp) rs)\<rparr>)"
  using assms by (induction rs arbitrary: s) (simp_all add: bindS_def ReasonCallback_eq)

lemma for_each_plain:
  "for_each PlainCallback ps s = Inr ((), s\<lparr>trace := trace s @ concat (map (\<lambda>rp. plain_events (plain s rp) rp) ps)\<rparr>)"
  by (induction ps arbitrary: s) (simp_all add: bindS_def PlainCallback_eq)

lemma BugCheckCallbacks_eq:
  assumes q: "quiet t s" and ex: "\<forall>rp \<in> set (ReasonList s). pages (Reason (reason s rp)) \<longrightarrow> extra rp \<noteq> None"
  shows "BugCheckCallbacks extra t code params s
    = Inr ((), s\<lparr>trace := trace s @ concat (map (\<lambda>rp. reason_events extra code params (reason s rp) rp) (ReasonList s))
                                 @ concat (map (\<lambda>rp. plain_events (plain s rp) rp) (BugList s))\<rparr>)"
proof -
  let ?s = "(inside t s)\<lparr>trace := trace s @ concat (map (\<lambda>rp. reason_events extra code params (reason s rp) rp) (ReasonList s))
                                 @ concat (map (\<lambda>rp. plain_events (plain s rp) rp) (BugList s))\<rparr>"
  have "BugCheckCallbacks extra t code params s
      = bindS (with_sync (KeReleaseSpinLockFromDpcLevel t Lock)) (\<lambda>_. with_sync (KeLowerIrql t (DdkCurrentIrql (sync s) t))) ?s"
    unfolding BugCheckCallbacks_def enter [OF q] using ex
    by (simp add: bindS_def [of "for_each PlainCallback _"] bindS_def [of "for_each (ReasonCallback _ _ _) _"] for_each_reason for_each_plain)
  also have "\<dots> = Inr ((), ?s\<lparr>sync := sync s\<rparr>)" by (rule leave [OF q]) simp
  also have "?s\<lparr>sync := sync s\<rparr> = s\<lparr>trace := trace ?s\<rparr>" by (simp add: inside_def)
  finally show ?thesis by simp
qed






section \<open>Contract\<close>

text \<open>What the two kinds of callback records have in common; \<open>vacant\<close> says that a record may be registered.\<close>

locale callback_registry =
  fixes register :: "nat \<Rightarrow> ULONG_PTR \<Rightarrow> 'k \<Rightarrow> (bool, ERR) st" and deregister :: "nat \<Rightarrow> ULONG_PTR \<Rightarrow> (bool, ERR) st"
    and members :: "ERR \<Rightarrow> ULONG_PTR list" and vacant :: "ERR \<Rightarrow> ULONG_PTR \<Rightarrow> bool"
  assumes register_vacant: "wf_err s \<Longrightarrow> quiet t s \<Longrightarrow> rp \<noteq> 0 \<Longrightarrow> vacant s rp \<Longrightarrow>
      \<exists>s'. register t rp k s = Inr (True, s') \<and> wf_err s' \<and> sync s' = sync s \<and> members s' = members s @ [rp]"
    and register_taken: "wf_err s \<Longrightarrow> quiet t s \<Longrightarrow> rp = 0 \<or> \<not> vacant s rp \<Longrightarrow> register t rp k s = Inr (False, s)"
    and deregister_member: "wf_err s \<Longrightarrow> quiet t s \<Longrightarrow> rp \<noteq> 0 \<Longrightarrow> rp \<in> set (members s) \<Longrightarrow>
      \<exists>s'. deregister t rp s = Inr (True, s') \<and> wf_err s' \<and> sync s' = sync s \<and> members s' = remove1 rp (members s) \<and> vacant s' rp"
    and deregister_other: "wf_err s \<Longrightarrow> quiet t s \<Longrightarrow> rp = 0 \<or> rp \<notin> set (members s) \<Longrightarrow> deregister t rp s = Inr (False, s)"
    and member_taken: "wf_err s \<Longrightarrow> rp \<in> set (members s) \<Longrightarrow> \<not> vacant s rp"
begin

lemma roundtrip:
  assumes "wf_err s" "quiet t s" "rp \<noteq> 0" "vacant s rp"
  shows "\<exists>s1 s2. register t rp k s = Inr (True, s1) \<and> members s1 = members s @ [rp] \<and> register t rp k' s1 = Inr (False, s1)
    \<and> deregister t rp s1 = Inr (True, s2) \<and> members s2 = members s \<and> vacant s2 rp \<and> sync s2 = sync s
    \<and> deregister t rp s2 = Inr (False, s2)"
proof -
  obtain s1 where s1: "register t rp k s = Inr (True, s1)" "wf_err s1" "sync s1 = sync s" "members s1 = members s @ [rp]"
    using register_vacant [OF assms] by blast
  have new: "rp \<notin> set (members s)" using member_taken assms(1,4) by blast
  have q1: "quiet t s1" using assms(2) s1(3) by (simp add: quiet_def)
  have "register t rp k' s1 = Inr (False, s1)" using register_taken [OF s1(2) q1] member_taken [OF s1(2), of rp] s1(4) by simp
  moreover obtain s2 where s2: "deregister t rp s1 = Inr (True, s2)" "wf_err s2" "sync s2 = sync s1" "members s2 = remove1 rp (members s1)" "vacant s2 rp"
    using deregister_member [OF s1(2) q1 assms(3)] s1(4) by auto
  moreover have "members s2 = members s" using s2(4) s1(4) new by (simp add: remove1_append)
  moreover have "deregister t rp s2 = Inr (False, s2)"
  proof (rule deregister_other [OF s2(2)])
    show "quiet t s2" using q1 s2(3) by (simp add: quiet_def)
    show "rp = 0 \<or> rp \<notin> set (members s2)" using \<open>members s2 = members s\<close> new by simp
  qed
  ultimately show ?thesis using s1 by auto
qed

end

interpretation plain_registry: callback_registry
  "\<lambda>t rp (routine, buf, len, cmp). KeRegisterBugCheckCallback t rp routine buf len cmp" KeDeregisterBugCheckCallback
  BugList "\<lambda>s rp. State (plain s rp) = BufferEmpty"
proof (unfold_locales, goal_cases)
  case (1 s t rp k)
  then show ?case by (auto simp: KeRegisterBugCheckCallback_eq set_checksum_def intro!: wf_register split: prod.split)
next
  case (2 s t rp k)
  then show ?case by (auto simp: KeRegisterBugCheckCallback_eq split: prod.split)
next
  case (3 s t rp)
  then show ?case by (auto simp: KeDeregisterBugCheckCallback_eq wf_err_def [of s] intro!: wf_deregister)
next
  case (4 s t rp)
  then show ?case by (auto simp: KeDeregisterBugCheckCallback_eq wf_err_def [of s])
next
  case (5 s rp)
  then show ?case by (auto simp: wf_err_def)
qed

interpretation reason_registry: callback_registry
  "\<lambda>t rp (routine, rsn, cmp). KeRegisterBugCheckReasonCallback t rp routine rsn cmp" KeDeregisterBugCheckReasonCallback
  ReasonList "\<lambda>s rp. State (reason s rp) = BufferEmpty"
proof (unfold_locales, goal_cases)
  case (1 s t rp k)
  then show ?case by (auto simp: KeRegisterBugCheckReasonCallback_eq set_checksum_def intro!: wf_register split: prod.split)
next
  case (2 s t rp k)
  then show ?case by (auto simp: KeRegisterBugCheckReasonCallback_eq split: prod.split)
next
  case (3 s t rp)
  then show ?case by (auto simp: KeDeregisterBugCheckReasonCallback_eq wf_err_def [of s] intro!: wf_deregister)
next
  case (4 s t rp)
  then show ?case by (auto simp: KeDeregisterBugCheckReasonCallback_eq wf_err_def [of s])
next
  case (5 s rp)
  then show ?case by (auto simp: wf_err_def)
qed

section \<open>Properties\<close>

definition empty_record :: RECORD where
  "empty_record = \<lparr>CallbackRoutine = 0, BufferPtr = 0, BufferLength = 0, Component = 0, Checksum = 0, State = BufferEmpty, Reason = KbCallbackInvalid\<rparr>"

definition err_init :: ERR where
  "err_init = \<lparr>sync = sync_init 0, BugList = [], ReasonList = [], plain = (\<lambda>_. empty_record), reason = (\<lambda>_. empty_record), trace = []\<rparr>"

lemma err_init_ok: "wf_err err_init" "quiet t err_init"
  by (simp_all add: wf_err_def quiet_def err_init_def empty_record_def sync_init_def)

text \<open>
  Registration and removal of bug check callbacks, plain and with a reason, are inverse: an empty record is added at the
  end of its list once (a second registration answers FALSE and changes nothing), its removal gives back the list and the
  vacancy of the record (a second removal answers FALSE), and level and lock of the calling thread are as before.
\<close>

theorem bug_check_registration_roundtrip:
  assumes "wf_err s" "quiet t s" "rp \<noteq> 0"
  shows "(State (plain s rp) = BufferEmpty \<longrightarrow>
      (\<exists>s1 s2. KeRegisterBugCheckCallback t rp routine buf len cmp s = Inr (True, s1) \<and> BugList s1 = BugList s @ [rp]
        \<and> KeRegisterBugCheckCallback t rp routine buf len cmp s1 = Inr (False, s1)
        \<and> KeDeregisterBugCheckCallback t rp s1 = Inr (True, s2) \<and> BugList s2 = BugList s \<and> State (plain s2 rp) = BufferEmpty
        \<and> sync s2 = sync s \<and> KeDeregisterBugCheckCallback t rp s2 = Inr (False, s2)))
    \<and> (State (reason s rp) = BufferEmpty \<longrightarrow>
      (\<exists>s1 s2. KeRegisterBugCheckReasonCallback t rp routine rsn cmp s = Inr (True, s1) \<and> ReasonList s1 = ReasonList s @ [rp]
        \<and> KeRegisterBugCheckReasonCallback t rp routine rsn cmp s1 = Inr (False, s1)
        \<and> KeDeregisterBugCheckReasonCallback t rp s1 = Inr (True, s2) \<and> ReasonList s2 = ReasonList s \<and> State (reason s2 rp) = BufferEmpty
        \<and> sync s2 = sync s \<and> KeDeregisterBugCheckReasonCallback t rp s2 = Inr (False, s2)))"
  using plain_registry.roundtrip [OF assms, of "(routine, buf, len, cmp)" "(routine, buf, len, cmp)"]
    reason_registry.roundtrip [OF assms, of "(routine, rsn, cmp)" "(routine, rsn, cmp)"] by auto

theorem bug_check_registration_roundtrip_witness:
  "\<exists>s1 s2. KeRegisterBugCheckCallback 1 8 5 6 7 9 err_init = Inr (True, s1) \<and> KeDeregisterBugCheckCallback 1 8 s1 = Inr (True, s2)
     \<and> BugList s2 = []"
proof -
  have "State (plain err_init 8) = BufferEmpty" "BugList err_init = []" "(8 :: ULONG_PTR) \<noteq> 0"
    by (simp_all add: err_init_def empty_record_def)
  with bug_check_registration_roundtrip [OF err_init_ok, where t = 1 and rp = 8 and routine = 5 and buf = 6 and len = 7 and cmp = 9 and rsn = KbCallbackInvalid]
  show ?thesis by fastforce
qed




text \<open>
  The checksum of a record does not protect the address of its callback: the macro combines the address and the
  component with \<open>&\<close>, so that for a component whose bits are disjoint from both addresses a record whose callback was overwritten
  after the registration passes the check and the bug check calls the new address.
\<close>

theorem overwritten_callback_runs:
  "\<exists>s1 s2. KeRegisterBugCheckCallback 1 8 0x1000 6 7 0x40 err_init = Inr (True, s1)
     \<and> BugCheckCallbacks (\<lambda>_. None) 1 0x44 [] (s1\<lparr>plain := (plain s1)(8 := (plain s1 8)\<lparr>CallbackRoutine := 0xBAD000\<rparr>)\<rparr>) = Inr ((), s2)
     \<and> trace s2 = [PlainCall 0xBAD000 6 7]"
proof -
  define r where "r = set_checksum 8 (empty_record\<lparr>CallbackRoutine := 0x1000, BufferPtr := 6, BufferLength := 7, Component := 0x40, State := BufferInserted\<rparr>)"
  define s1 where "s1 = err_init\<lparr>plain := (plain err_init)(8 := r), BugList := [8]\<rparr>"
  let ?s = "s1\<lparr>plain := (plain s1)(8 := (plain s1 8)\<lparr>CallbackRoutine := 0xBAD000\<rparr>)\<rparr>"
  have sel: "State (plain err_init 8) = BufferEmpty" "BugList err_init = []" "plain err_init 8 = empty_record" "ReasonList err_init = []" "trace err_init = []"
    by (simp_all add: err_init_def empty_record_def)
  have "KeRegisterBugCheckCallback 1 8 0x1000 6 7 0x40 err_init = Inr (True, s1)"
    unfolding KeRegisterBugCheckCallback_eq [OF err_init_ok(2)] by (simp add: sel s1_def r_def) (simp add: empty_record_def)
  moreover have "quiet 1 ?s" using err_init_ok(2) [of 1] by (simp add: quiet_def s1_def)
  then have "BugCheckCallbacks (\<lambda>_. None) 1 0x44 [] ?s = Inr ((), ?s\<lparr>trace := [PlainCall 0xBAD000 6 7]\<rparr>)"
    by (subst BugCheckCallbacks_eq) (simp_all add: sel s1_def r_def plain_events_def set_checksum_def BUGCHECK_CHECKSUM_def empty_record_def)
  ultimately show ?thesis by auto
qed

end
