(* ===== verification/Irp.thy ===== *)
theory Irp
  imports DdkBase
begin

text \<open>
  I/O request packets: src/src/irp.cpp with the parts of src/src/mdl.cpp and src/src/memory.cpp it uses.  A packet has a
  stack of locations, one per driver it passes through; a call of a driver moves down the stack, completion moves up and calls the
  completion routines on its way.

  Packets, buffers, memory descriptor lists, events and status blocks are found by their addresses, 0 being the null pointer.  The
  fields \<open>CurrentLocation\<close> (a signed char) and \<open>CurrentStackLocation\<close> (a pointer, here the index of the location it
  points to) are kept apart as in the code.  Drivers and completion routines are the environment: arguments \<open>dispatch\<close> and
  \<open>completion\<close> of the definitions.  \<open>calls\<close> records the calls of completion routines (routine, device, context).
  The macros of wdm.h on stack locations are translated from their documentation.
\<close>

unbundle bit_operations_syntax

section \<open>Definitions\<close>

record IO_STACK_LOCATION =
  MajorFunction :: UCHAR
  MinorFunction :: UCHAR
  SlFlags :: UCHAR
  Control :: UCHAR
  Argument1 :: nat
  Argument2 :: nat
  Argument3 :: nat
  Argument4 :: nat
  DeviceObject :: nat
  FileObject :: nat
  CompletionRoutine :: nat
  Context :: nat

record IRP =
  Size :: nat
  StackCount :: int
  CurrentLocation :: int
  CurrentStackLocation :: int
  stack :: "IO_STACK_LOCATION list"
  Status :: NTSTATUS
  Information :: nat
  PendingReturned :: bool
  Cancel :: bool
  Flags :: ULONG
  SystemBuffer :: nat
  UserBuffer :: nat
  UserEvent :: nat
  UserIosb :: nat
  MdlAddress :: nat
  Thread :: nat
  RequestorMode :: nat

record MDL =
  VirtualAddress :: nat
  ByteCount :: nat
  Next :: nat
  PagesLocked :: bool

record IO =
  irps :: "nat \<rightharpoonup> IRP"
  bufs :: "nat \<rightharpoonup> UCHAR list"
  mdls :: "nat \<rightharpoonup> MDL"
  next_addr :: nat
  pool_left :: nat
  junk :: UCHAR
  events :: "nat \<rightharpoonup> bool"
  iosbs :: "nat \<rightharpoonup> NTSTATUS \<times> nat"
  StackSize :: "nat \<rightharpoonup> int"
  cur_irql :: nat
  cur_thread :: nat
  calls :: "(nat \<times> nat \<times> nat) list"

abbreviation (input) sizeof_IRP :: nat where "sizeof_IRP \<equiv> 208"
abbreviation (input) sizeof_LOCATION :: nat where "sizeof_LOCATION \<equiv> 72"
abbreviation (input) SL_PENDING_RETURNED :: UCHAR where "SL_PENDING_RETURNED \<equiv> 0x01"
abbreviation (input) SL_INVOKE_ON_CANCEL :: UCHAR where "SL_INVOKE_ON_CANCEL \<equiv> 0x20"
abbreviation (input) SL_INVOKE_ON_SUCCESS :: UCHAR where "SL_INVOKE_ON_SUCCESS \<equiv> 0x40"
abbreviation (input) SL_INVOKE_ON_ERROR :: UCHAR where "SL_INVOKE_ON_ERROR \<equiv> 0x80"
abbreviation (input) IRP_BUFFERED_IO :: ULONG where "IRP_BUFFERED_IO \<equiv> 0x10"
abbreviation (input) IRP_DEALLOCATE_BUFFER :: ULONG where "IRP_DEALLOCATE_BUFFER \<equiv> 0x20"
abbreviation (input) IRP_MJ_DEVICE_CONTROL :: UCHAR where "IRP_MJ_DEVICE_CONTROL \<equiv> 0x0E"
abbreviation (input) IRP_MJ_INTERNAL_DEVICE_CONTROL :: UCHAR where "IRP_MJ_INTERNAL_DEVICE_CONTROL \<equiv> 0x0F"
abbreviation (input) MULTIPLE_IRP_COMPLETE_REQUESTS :: ULONG where "MULTIPLE_IRP_COMPLETE_REQUESTS \<equiv> 0x44"

subsection \<open>Memory\<close>

definition get_irp :: "nat \<Rightarrow> (IRP, IO) st" where
  "get_irp a s = (case irps s a of None \<Rightarrow> Inl Fault | Some p \<Rightarrow> Inr (p, s))"

definition set_irp :: "nat \<Rightarrow> (IRP \<Rightarrow> IRP) \<Rightarrow> (unit, IO) st" where
  "set_irp a f = bindS (get_irp a) (\<lambda>p. modify (\<lambda>s. s\<lparr>irps := (irps s)(a \<mapsto> f p)\<rparr>))"

definition get_loc :: "nat \<Rightarrow> int \<Rightarrow> (IO_STACK_LOCATION, IO) st" where
  "get_loc a i = bindS (get_irp a) (\<lambda>p. if 0 \<le> i \<and> i < int (length (stack p)) then ret (stack p ! nat i) else fail Fault)"

definition set_loc :: "nat \<Rightarrow> int \<Rightarrow> (IO_STACK_LOCATION \<Rightarrow> IO_STACK_LOCATION) \<Rightarrow> (unit, IO) st" where
  "set_loc a i f = bindS (get_loc a i) (\<lambda>l. set_irp a (\<lambda>p. p\<lparr>stack := (stack p)[nat i := f l]\<rparr>))"

definition new_address :: "(nat, IO) st" where
  "new_address s = Inr (next_addr s, s\<lparr>next_addr := next_addr s + 1\<rparr>)"

text \<open>ExAllocatePool: the address of the new block, 0 when there is no memory.\<close>

definition ExAllocatePool :: "(nat, IO) st" where
  "ExAllocatePool = bindS (gets pool_left) (\<lambda>n.
     if n = 0 then ret 0 else bindS (modify (\<lambda>s. s\<lparr>pool_left := pool_left s - 1\<rparr>)) (\<lambda>_. new_address))"

subsection \<open>Packets\<close>

definition IoSizeOfIrp :: "int \<Rightarrow> nat" where
  "IoSizeOfIrp n = (sizeof_IRP + nat n * sizeof_LOCATION) mod 2 ^ 16"

definition zero_location :: IO_STACK_LOCATION where
  "zero_location = \<lparr>MajorFunction = 0, MinorFunction = 0, SlFlags = 0, Control = 0, Argument1 = 0, Argument2 = 0, Argument3 = 0,
     Argument4 = 0, DeviceObject = 0, FileObject = 0, CompletionRoutine = 0, Context = 0\<rparr>"

definition IoInitializeIrp :: "nat \<Rightarrow> nat \<Rightarrow> int \<Rightarrow> (unit, IO) st" where
  "IoInitializeIrp a PacketSize n =
     modify (\<lambda>s. s\<lparr>irps := (irps s)(a \<mapsto>
       \<lparr>Size = PacketSize, StackCount = n, CurrentLocation = cchar (n + 1),
        CurrentStackLocation = int ((PacketSize - sizeof_IRP) div sizeof_LOCATION),
        stack = replicate ((PacketSize - sizeof_IRP) div sizeof_LOCATION) zero_location,
        Status = 0, Information = 0, PendingReturned = False, Cancel = False, Flags = 0, SystemBuffer = 0, UserBuffer = 0,
        UserEvent = 0, UserIosb = 0, MdlAddress = 0, Thread = 0, RequestorMode = 0\<rparr>)\<rparr>)"

definition IoAllocateIrp :: "int \<Rightarrow> (nat, IO) st" where
  "IoAllocateIrp n =
     bindS ExAllocatePool (\<lambda>a.
     if a \<noteq> 0 then bindS (IoInitializeIrp a (IoSizeOfIrp n) n) (\<lambda>_. ret a) else ret 0)"

definition IoFreeIrp :: "nat \<Rightarrow> (unit, IO) st" where
  "IoFreeIrp a = bindS (get_irp a) (\<lambda>_. modify (\<lambda>s. s\<lparr>irps := (irps s)(a := None)\<rparr>))"

subsection \<open>Stack locations (wdm.h)\<close>

definition IoSetNextIrpStackLocation :: "nat \<Rightarrow> (unit, IO) st" where
  "IoSetNextIrpStackLocation a =
     set_irp a (\<lambda>p. p\<lparr>CurrentLocation := cchar (CurrentLocation p - 1), CurrentStackLocation := CurrentStackLocation p - 1\<rparr>)"

definition IoSetCompletionRoutine :: "nat \<Rightarrow> nat \<Rightarrow> nat \<Rightarrow> bool \<Rightarrow> bool \<Rightarrow> bool \<Rightarrow> (unit, IO) st" where
  "IoSetCompletionRoutine a routine context onSuccess onError onCancel =
     bindS (get_irp a) (\<lambda>p.
     set_loc a (CurrentStackLocation p - 1) (\<lambda>l. l\<lparr>CompletionRoutine := routine, Context := context,
       Control := (if onSuccess then SL_INVOKE_ON_SUCCESS else 0) OR (if onError then SL_INVOKE_ON_ERROR else 0)
                  OR (if onCancel then SL_INVOKE_ON_CANCEL else 0)\<rparr>))"

definition IoMarkIrpPending :: "nat \<Rightarrow> (unit, IO) st" where
  "IoMarkIrpPending a =
     bindS (get_irp a) (\<lambda>p. set_loc a (CurrentStackLocation p) (\<lambda>l. l\<lparr>Control := Control l OR SL_PENDING_RETURNED\<rparr>))"

subsection \<open>Calling a driver\<close>

definition IofCallDriver :: "(nat \<Rightarrow> UCHAR \<Rightarrow> nat \<Rightarrow> (NTSTATUS, IO) st) \<Rightarrow> nat \<Rightarrow> nat \<Rightarrow> (NTSTATUS, IO) st" where
  "IofCallDriver dispatch dev a =
     bindS (assertS (\<lambda>s. cur_irql s \<le> DISPATCH_LEVEL) ''KeGetCurrentIrql() <= DISPATCH_LEVEL'') (\<lambda>_.
     bindS (get_irp a) (\<lambda>p.
     bindS (assertS (\<lambda>_. CurrentLocation p > 0) ''Irp->CurrentLocation > 0'') (\<lambda>_.
     bindS (IoSetNextIrpStackLocation a) (\<lambda>_.
     bindS (get_irp a) (\<lambda>p.
     bindS (set_loc a (CurrentStackLocation p) (\<lambda>l. l\<lparr>DeviceObject := dev\<rparr>)) (\<lambda>_.
     bindS (get_loc a (CurrentStackLocation p)) (\<lambda>l.
     dispatch dev (MajorFunction l) a)))))))"

subsection \<open>Completion\<close>

definition ClearStackLocation :: "IO_STACK_LOCATION \<Rightarrow> IO_STACK_LOCATION" where
  "ClearStackLocation l = l\<lparr>MinorFunction := 0, SlFlags := 0, Control := 0, Argument1 := 0, Argument2 := 0, Argument3 := 0, FileObject := 0\<rparr>"

definition invokes :: "IRP \<Rightarrow> UCHAR \<Rightarrow> bool" where
  "invokes p c \<longleftrightarrow> NT_SUCCESS (Status p) \<and> c AND SL_INVOKE_ON_SUCCESS \<noteq> 0 \<or>
     \<not> NT_SUCCESS (Status p) \<and> c AND SL_INVOKE_ON_ERROR \<noteq> 0 \<or> Cancel p \<and> c AND SL_INVOKE_ON_CANCEL \<noteq> 0"

text \<open>\<open>pStack = CurrentStackLocation++, CurrentLocation++\<close>\<close>

definition Advance :: "nat \<Rightarrow> (int, IO) st" where
  "Advance a =
     bindS (get_irp a) (\<lambda>p.
     bindS (set_irp a (\<lambda>p. p\<lparr>CurrentStackLocation := CurrentStackLocation p + 1, CurrentLocation := cchar (CurrentLocation p + 1)\<rparr>)) (\<lambda>_.
     ret (CurrentStackLocation p)))"

definition CallCompletion ::
    "(nat \<Rightarrow> nat \<Rightarrow> nat \<Rightarrow> nat \<Rightarrow> (NTSTATUS, IO) st) \<Rightarrow> nat \<Rightarrow> nat \<Rightarrow> nat \<Rightarrow> nat \<Rightarrow> (NTSTATUS, IO) st" where
  "CallCompletion completion routine dev a context =
     bindS (modify (\<lambda>s. s\<lparr>calls := calls s @ [(routine, dev, context)]\<rparr>)) (\<lambda>_. completion routine dev a context)"

definition MmUnlockPages :: "nat \<Rightarrow> (unit, IO) st" where
  "MmUnlockPages m s =
     (case mdls s m of None \<Rightarrow> Inl Fault | Some d \<Rightarrow> Inr ((), s\<lparr>mdls := (mdls s)(m \<mapsto> d\<lparr>PagesLocked := False\<rparr>)\<rparr>))"

text \<open>
  The loop over the packet's descriptor lists, which ends at a null pointer; on a chain that leads back into itself it never ends, which is
  the value None.
\<close>

partial_function (option) UnlockMdls :: "nat \<Rightarrow> IO \<Rightarrow> (unit \<times> IO) res option" where
  "UnlockMdls m s =
     (if m = 0 then Some (Inr ((), s))
      else case MmUnlockPages m s of
             Inl e \<Rightarrow> Some (Inl e)
           | Inr (_, s1) \<Rightarrow> (case mdls s1 m of None \<Rightarrow> Some (Inl Fault) | Some d \<Rightarrow> UnlockMdls (Next d) s1))"

declare UnlockMdls.simps [code]

definition UnlockChain :: "nat \<Rightarrow> (unit, IO) st" where
  "UnlockChain m s = (case UnlockMdls m s of None \<Rightarrow> Inl Waits | Some r \<Rightarrow> r)"

text \<open>
  The loop of IofCompleteRequest for at most \<open>n\<close> rounds (\<open>Waits\<close> when they are used up); \<open>i\<close> is the index
  pStack stands for.
\<close>

fun CompleteLoop :: "(nat \<Rightarrow> nat \<Rightarrow> nat \<Rightarrow> nat \<Rightarrow> (NTSTATUS, IO) st) \<Rightarrow> nat \<Rightarrow> nat \<Rightarrow> int \<Rightarrow> (unit, IO) st" where
  "CompleteLoop completion a 0 i = fail Waits"
| "CompleteLoop completion a (Suc n) i =
     bindS (get_irp a) (\<lambda>p.
     if CurrentLocation p \<le> StackCount p + 1 then
       bindS (get_loc a i) (\<lambda>l.
       bindS (set_irp a (\<lambda>p. p\<lparr>PendingReturned := (Control l AND SL_PENDING_RETURNED \<noteq> 0)\<rparr>)) (\<lambda>_.
       bindS (set_loc a i ClearStackLocation) (\<lambda>_.
       if invokes p (Control l) then
         bindS (if CurrentLocation p \<le> StackCount p then bindS (get_loc a (CurrentStackLocation p)) (\<lambda>l'. ret (DeviceObject l'))
                else ret 0) (\<lambda>dev.
         bindS (CallCompletion completion (CompletionRoutine l) dev a (Context l)) (\<lambda>status.
         if status = STATUS_MORE_PROCESSING_REQUIRED then ret ()
         else bindS (Advance a) (\<lambda>i. CompleteLoop completion a n i)))
       else
         bindS (if Control l AND SL_PENDING_RETURNED \<noteq> 0 \<and> CurrentLocation p \<le> StackCount p then IoMarkIrpPending a else ret ()) (\<lambda>_.
         bindS (Advance a) (\<lambda>i. CompleteLoop completion a n i)))))
     else UnlockChain (MdlAddress p))"

definition IofCompleteRequest :: "(nat \<Rightarrow> nat \<Rightarrow> nat \<Rightarrow> nat \<Rightarrow> (NTSTATUS, IO) st) \<Rightarrow> nat \<Rightarrow> nat \<Rightarrow> (unit, IO) st" where
  "IofCompleteRequest completion n a =
     bindS (get_irp a) (\<lambda>p.
     if CurrentLocation p > StackCount p + 1 then fail (BugCheck MULTIPLE_IRP_COMPLETE_REQUESTS)
     else bindS (Advance a) (\<lambda>i. CompleteLoop completion a n i))"

subsection \<open>Requests of the library\<close>

definition KeSetEvent :: "nat \<Rightarrow> (unit, IO) st" where
  "KeSetEvent e =
     bindS (assertS (\<lambda>s. cur_irql s \<le> DISPATCH_LEVEL) ''KeGetCurrentIrql() <= (Wait ? APC_LEVEL : DISPATCH_LEVEL)'') (\<lambda>_.
     \<lambda>s. case events s e of None \<Rightarrow> Inl Fault | Some _ \<Rightarrow> Inr ((), s\<lparr>events := (events s)(e \<mapsto> True)\<rparr>))"

definition DdkIrpCompletion :: "nat \<Rightarrow> (NTSTATUS, IO) st" where
  "DdkIrpCompletion pContext = bindS (KeSetEvent pContext) (\<lambda>_. ret STATUS_MORE_PROCESSING_REQUIRED)"

text \<open>memcpy of \<open>n\<close> bytes between two buffers; a null or short buffer is a fault unless \<open>n\<close> is 0.\<close>

definition CopyBytes :: "nat \<Rightarrow> nat \<Rightarrow> nat \<Rightarrow> (unit, IO) st" where
  "CopyBytes dst src n s =
     (if n = 0 then Inr ((), s)
      else case (bufs s dst, bufs s src) of
             (Some d, Some c) \<Rightarrow> if n \<le> length d \<and> n \<le> length c then Inr ((), s\<lparr>bufs := (bufs s)(dst \<mapsto> take n c @ drop n d)\<rparr>) else Inl Fault
           | _ \<Rightarrow> Inl Fault)"

definition IoFreeMdl :: "nat \<Rightarrow> (unit, IO) st" where
  "IoFreeMdl m s = (case mdls s m of None \<Rightarrow> Inl Fault | Some _ \<Rightarrow> Inr ((), s\<lparr>mdls := (mdls s)(m := None)\<rparr>))"

definition DdkIoctlCompletion :: "nat \<Rightarrow> (NTSTATUS, IO) st" where
  "DdkIoctlCompletion a =
     bindS (get_irp a) (\<lambda>p.
     bindS (if Flags p AND IRP_BUFFERED_IO \<noteq> 0 then CopyBytes (UserBuffer p) (SystemBuffer p) (Information p) else ret ()) (\<lambda>_.
     bindS (if UserIosb p \<noteq> 0 then modify (\<lambda>s. s\<lparr>iosbs := (iosbs s)(UserIosb p \<mapsto> (Status p, Information p))\<rparr>) else ret ()) (\<lambda>_.
     bindS (if UserEvent p \<noteq> 0 then KeSetEvent (UserEvent p) else ret ()) (\<lambda>_.
     bindS (if MdlAddress p \<noteq> 0 then IoFreeMdl (MdlAddress p) else ret ()) (\<lambda>_.
     bindS (IoFreeIrp a) (\<lambda>_. ret STATUS_MORE_PROCESSING_REQUIRED))))))"

text \<open>IoAllocateMdl for a packet, the descriptor list being its first; the address, or 0.\<close>

definition IoAllocateMdl :: "nat \<Rightarrow> nat \<Rightarrow> nat \<Rightarrow> (nat, IO) st" where
  "IoAllocateMdl addr len a =
     bindS ExAllocatePool (\<lambda>m.
     if m = 0 then ret 0
     else bindS (modify (\<lambda>s. s\<lparr>mdls := (mdls s)(m \<mapsto> \<lparr>VirtualAddress = addr, ByteCount = len, Next = 0, PagesLocked = False\<rparr>)\<rparr>)) (\<lambda>_.
          bindS (set_irp a (\<lambda>p. p\<lparr>MdlAddress := m\<rparr>)) (\<lambda>_. ret m)))"

text \<open>The address DdkIoctlCompletion has as a completion routine.\<close>

abbreviation (input) ioctl_routine :: nat where "ioctl_routine \<equiv> 0x10001"
abbreviation (input) irp_routine :: nat where "irp_routine \<equiv> 0x10002"

definition AllocateSystemBuffer :: "nat \<Rightarrow> nat \<Rightarrow> (nat, IO) st" where
  "AllocateSystemBuffer inlen outlen =
     bindS ExAllocatePool (\<lambda>b.
     if b = 0 then ret 0
     else bindS (modify (\<lambda>s. s\<lparr>bufs := (bufs s)(b \<mapsto> replicate (if inlen > outlen then inlen else outlen) (junk s))\<rparr>)) (\<lambda>_. ret b))"

text \<open>The switch over the transfer method; False when memory ran out and the packet has been freed.\<close>

definition SetupBuffers :: "nat \<Rightarrow> nat \<Rightarrow> nat \<Rightarrow> nat \<Rightarrow> nat \<Rightarrow> nat \<Rightarrow> (bool, IO) st" where
  "SetupBuffers code inbuf inlen outbuf outlen a =
     (if code mod 4 = 0 then
        bindS (AllocateSystemBuffer inlen outlen) (\<lambda>b.
        if b = 0 then bindS (IoFreeIrp a) (\<lambda>_. ret False)
        else bindS (set_irp a (\<lambda>p. p\<lparr>SystemBuffer := b\<rparr>)) (\<lambda>_.
             bindS (CopyBytes b inbuf inlen) (\<lambda>_.
             bindS (set_irp a (\<lambda>p. p\<lparr>UserBuffer := outbuf, Flags := Flags p OR (IRP_BUFFERED_IO OR IRP_DEALLOCATE_BUFFER)\<rparr>)) (\<lambda>_.
             ret True))))
      else if code mod 4 = 1 \<or> code mod 4 = 2 then
        bindS (set_irp a (\<lambda>p. p\<lparr>SystemBuffer := inbuf, Flags := Flags p OR IRP_BUFFERED_IO\<rparr>)) (\<lambda>_.
        bindS (IoAllocateMdl outbuf outlen a) (\<lambda>m.
        if m = 0 then bindS (IoFreeIrp a) (\<lambda>_. ret False) else ret True))
      else
        bindS (get_irp a) (\<lambda>p.
        bindS (set_loc a (CurrentStackLocation p - 1) (\<lambda>l. l\<lparr>Argument4 := inbuf\<rparr>)) (\<lambda>_.
        bindS (set_irp a (\<lambda>p. p\<lparr>UserBuffer := outbuf\<rparr>)) (\<lambda>_. ret True))))"

definition IoBuildDeviceIoControlRequest ::
    "nat \<Rightarrow> nat \<Rightarrow> nat \<Rightarrow> nat \<Rightarrow> nat \<Rightarrow> nat \<Rightarrow> bool \<Rightarrow> nat \<Rightarrow> nat \<Rightarrow> (nat, IO) st" where
  "IoBuildDeviceIoControlRequest code dev inbuf inlen outbuf outlen internal event iosb =
     bindS (gets (\<lambda>s. StackSize s dev)) (\<lambda>sz.
     case sz of None \<Rightarrow> fail Fault | Some n \<Rightarrow>
     bindS (IoAllocateIrp n) (\<lambda>a.
     if a = 0 then ret 0
     else
       bindS (get_irp a) (\<lambda>p.
       bindS (set_loc a (CurrentStackLocation p - 1) (\<lambda>l. l\<lparr>
         MajorFunction := (if internal then IRP_MJ_INTERNAL_DEVICE_CONTROL else IRP_MJ_DEVICE_CONTROL),
         MinorFunction := 0, Argument3 := code, Argument2 := inlen, Argument1 := outlen, DeviceObject := dev\<rparr>)) (\<lambda>_.
       bindS (SetupBuffers code inbuf inlen outbuf outlen a) (\<lambda>ok.
       if \<not> ok then ret 0
       else
         bindS (set_irp a (\<lambda>p. p\<lparr>UserEvent := event, UserIosb := iosb, RequestorMode := 0\<rparr>)) (\<lambda>_.
         bindS (IoSetCompletionRoutine a ioctl_routine 0 True True True) (\<lambda>_. ret a)))))))"

definition WaitEvent :: "nat \<Rightarrow> (unit, IO) st" where
  "WaitEvent e s = (case events s e of None \<Rightarrow> Inl Fault | Some b \<Rightarrow> if b then Inr ((), s) else Inl Waits)"

text \<open>\<open>Irp\<close> is 0 when the packet is to be allocated.  The event is on the stack of the caller: it gets an address of its own.\<close>

definition DdkSynchronousIrp ::
    "(nat \<Rightarrow> UCHAR \<Rightarrow> nat \<Rightarrow> (NTSTATUS, IO) st) \<Rightarrow> nat \<Rightarrow> UCHAR \<Rightarrow> UCHAR \<Rightarrow> nat \<Rightarrow> (NTSTATUS, IO) st" where
  "DdkSynchronousIrp dispatch dev Major Minor irp0 =
     bindS (if irp0 \<noteq> 0 then ret irp0
            else bindS (gets (\<lambda>s. StackSize s dev)) (\<lambda>sz. case sz of None \<Rightarrow> fail Fault | Some n \<Rightarrow> IoAllocateIrp n)) (\<lambda>a.
     if a = 0 then ret STATUS_INSUFFICIENT_RESOURCES
     else
       bindS (get_irp a) (\<lambda>p.
       bindS (set_loc a (CurrentStackLocation p - 1) (\<lambda>l. l\<lparr>MajorFunction := Major, MinorFunction := Minor\<rparr>)) (\<lambda>_.
       bindS new_address (\<lambda>e.
       bindS (modify (\<lambda>s. s\<lparr>events := (events s)(e \<mapsto> False)\<rparr>)) (\<lambda>_.
       bindS (IoSetCompletionRoutine a irp_routine e True True True) (\<lambda>_.
       bindS (gets cur_thread) (\<lambda>t.
       bindS (set_irp a (\<lambda>p. p\<lparr>Status := STATUS_SUCCESS, Information := 0, Thread := t\<rparr>)) (\<lambda>_.
       bindS (IofCallDriver dispatch dev a) (\<lambda>status.
       bindS (if status = STATUS_PENDING
              then bindS (WaitEvent e) (\<lambda>_. bindS (get_irp a) (\<lambda>p. ret (Status p)))
              else ret status) (\<lambda>status.
       bindS (IoFreeIrp a) (\<lambda>_. ret status)))))))))))"

section \<open>Lemmas\<close>

definition wf_irp :: "IRP \<Rightarrow> bool" where
  "wf_irp p \<longleftrightarrow> StackCount p = int (length (stack p)) \<and> StackCount p \<le> 125 \<and> 0 \<le> CurrentStackLocation p
     \<and> CurrentStackLocation p \<le> StackCount p \<and> CurrentLocation p = CurrentStackLocation p + 1"

named_theorems irp_eval \<open>evaluation of the accesses to a packet\<close>

lemma get_irp_eval [irp_eval]: "irps s a = Some p \<Longrightarrow> get_irp a s = Inr (p, s)"
  by (simp add: get_irp_def)

lemma set_irp_eval [irp_eval]: "irps s a = Some p \<Longrightarrow> set_irp a f s = Inr ((), s\<lparr>irps := (irps s)(a \<mapsto> f p)\<rparr>)"
  by (simp add: set_irp_def bindS_def irp_eval)

lemma get_loc_eval [irp_eval]:
  "irps s a = Some p \<Longrightarrow> 0 \<le> i \<Longrightarrow> i < int (length (stack p)) \<Longrightarrow> get_loc a i s = Inr (stack p ! nat i, s)"
  by (simp add: get_loc_def bindS_def irp_eval)

lemma set_loc_eval [irp_eval]:
  "irps s a = Some p \<Longrightarrow> 0 \<le> i \<Longrightarrow> i < int (length (stack p)) \<Longrightarrow>
     set_loc a i f s = Inr ((), s\<lparr>irps := (irps s)(a \<mapsto> p\<lparr>stack := (stack p)[nat i := f (stack p ! nat i)]\<rparr>)\<rparr>)"
  by (simp add: set_loc_def bindS_def irp_eval)

lemma Advance_eval [irp_eval]:
  "irps s a = Some p \<Longrightarrow> Advance a s = Inr (CurrentStackLocation p, s\<lparr>irps := (irps s)(a \<mapsto>
     p\<lparr>CurrentStackLocation := CurrentStackLocation p + 1, CurrentLocation := cchar (CurrentLocation p + 1)\<rparr>)\<rparr>)"
  by (simp add: Advance_def bindS_def irp_eval)

lemma IoMarkIrpPending_eval [irp_eval]:
  "irps s a = Some p \<Longrightarrow> 0 \<le> CurrentStackLocation p \<Longrightarrow> CurrentStackLocation p < int (length (stack p)) \<Longrightarrow>
     IoMarkIrpPending a s = Inr ((), s\<lparr>irps := (irps s)(a \<mapsto> p\<lparr>stack := (stack p)[nat (CurrentStackLocation p) :=
       (stack p ! nat (CurrentStackLocation p))\<lparr>Control := Control (stack p ! nat (CurrentStackLocation p)) OR SL_PENDING_RETURNED\<rparr>]\<rparr>)\<rparr>)"
  by (simp add: IoMarkIrpPending_def bindS_def irp_eval)

text \<open>Completion routines that look on: they answer by their address and leave the packet alone.\<close>

definition observer :: "(nat \<Rightarrow> NTSTATUS) \<Rightarrow> nat \<Rightarrow> nat \<Rightarrow> nat \<Rightarrow> nat \<Rightarrow> (NTSTATUS, IO) st" where
  "observer answer routine dev a context = ret (answer routine)"

text \<open>The pending flag of a location is handed to the next one.\<close>

fun hand_over :: "bool \<Rightarrow> IO_STACK_LOCATION list \<Rightarrow> IO_STACK_LOCATION list" where
  "hand_over b [] = []"
| "hand_over b (l # ls) = (if b then l\<lparr>Control := Control l OR SL_PENDING_RETURNED\<rparr> else l) # ls"

text \<open>
  The calls of completion routines for the locations from the current one up, whether one of them stopped the
  completion, and how many locations were treated.
\<close>

function completions ::
    "(nat \<Rightarrow> NTSTATUS) \<Rightarrow> IRP \<Rightarrow> IO_STACK_LOCATION list \<Rightarrow> (nat \<times> nat \<times> nat) list \<times> bool \<times> nat" where
  "completions answer p [] = ([], False, 0)"
| "completions answer p (l # ls) =
     (if invokes p (Control l)
      then let c = (CompletionRoutine l, (case ls of [] \<Rightarrow> 0 | l' # _ \<Rightarrow> DeviceObject l'), Context l)
           in if answer (CompletionRoutine l) = STATUS_MORE_PROCESSING_REQUIRED then ([c], True, 1)
              else case completions answer p ls of (cs, stopped, n) \<Rightarrow> (c # cs, stopped, n + 1)
      else case completions answer p (hand_over (Control l AND SL_PENDING_RETURNED \<noteq> 0) ls) of (cs, stopped, n) \<Rightarrow> (cs, stopped, n + 1))"
  by pat_completeness auto

lemma length_hand_over [simp]: "length (hand_over b ls) = length ls"
  by (cases ls) simp_all

termination completions by (relation "measure (\<lambda>(_, _, ls). length ls)") auto

text \<open>The descriptor lists of a chain, and what unlocking them does.\<close>

fun mdl_chain :: "(nat \<rightharpoonup> MDL) \<Rightarrow> nat \<Rightarrow> nat list \<Rightarrow> bool" where
  "mdl_chain M m [] \<longleftrightarrow> m = 0"
| "mdl_chain M m (x # xs) \<longleftrightarrow> m = x \<and> x \<noteq> 0 \<and> (case M x of None \<Rightarrow> False | Some d \<Rightarrow> mdl_chain M (Next d) xs)"

definition unlocked :: "nat list \<Rightarrow> (nat \<rightharpoonup> MDL) \<Rightarrow> (nat \<rightharpoonup> MDL)" where
  "unlocked ms M = (\<lambda>m. if m \<in> set ms then map_option (\<lambda>d. d\<lparr>PagesLocked := False\<rparr>) (M m) else M m)"

lemma mdl_chain_upd:
  "mdl_chain M m ms \<Longrightarrow> M x = Some d \<Longrightarrow> mdl_chain (M(x \<mapsto> d\<lparr>PagesLocked := False\<rparr>)) m ms"
  by (induction ms arbitrary: m) (auto split: option.splits)

lemma UnlockChain_all: "mdl_chain (mdls s) m ms \<Longrightarrow> UnlockChain m s = Inr ((), s\<lparr>mdls := unlocked ms (mdls s)\<rparr>)"
proof (induction ms arbitrary: m s)
  case Nil
  then show ?case by (simp add: UnlockChain_def UnlockMdls.simps unlocked_def)
next
  case (Cons x xs)
  then obtain d where d: "m = x" "x \<noteq> 0" "mdls s x = Some d" "mdl_chain (mdls s) (Next d) xs" by (auto split: option.splits)
  let ?s = "s\<lparr>mdls := (mdls s)(x \<mapsto> d\<lparr>PagesLocked := False\<rparr>)\<rparr>"
  have "UnlockChain m s = UnlockChain (Next d) ?s"
    using d by (subst UnlockChain_def, subst UnlockMdls.simps) (simp add: MmUnlockPages_def UnlockChain_def)
  also have "\<dots> = Inr ((), ?s\<lparr>mdls := unlocked xs (mdls ?s)\<rparr>)" using mdl_chain_upd [OF d(4,3)] by (intro Cons.IH) (simp del: fun_upd_apply)
  also have "unlocked xs (mdls ?s) = unlocked (x # xs) (mdls s)" using d by (auto simp: unlocked_def fun_eq_iff)
  finally show ?case by simp
qed

text \<open>One round of the loop, before the step to the next location.\<close>

lemma CompleteLoop_round:
  assumes p: "irps s a = Some p" and st: "stack p = pre @ l # ls" "StackCount p = int (length (stack p))"
    and loc: "CurrentStackLocation p = int (length pre) + 1" "CurrentLocation p = int (length pre) + 2"
  defines "pend \<equiv> Control l AND SL_PENDING_RETURNED \<noteq> 0"
  defines "p1 \<equiv> p\<lparr>PendingReturned := pend, stack := pre @ ClearStackLocation l # ls\<rparr>"
  defines "c \<equiv> (CompletionRoutine l, (case ls of [] \<Rightarrow> 0 | l' # _ \<Rightarrow> DeviceObject l'), Context l)"
  shows "CompleteLoop (observer answer) a (Suc n) (int (length pre)) s =
    (if invokes p (Control l)
     then (if answer (CompletionRoutine l) = STATUS_MORE_PROCESSING_REQUIRED then Inr ((), s\<lparr>irps := (irps s)(a \<mapsto> p1), calls := calls s @ [c]\<rparr>)
           else bindS (Advance a) (\<lambda>i. CompleteLoop (observer answer) a n i) (s\<lparr>irps := (irps s)(a \<mapsto> p1), calls := calls s @ [c]\<rparr>))
     else bindS (Advance a) (\<lambda>i. CompleteLoop (observer answer) a n i)
        (s\<lparr>irps := (irps s)(a \<mapsto> p1\<lparr>stack := (pre @ [ClearStackLocation l]) @ hand_over pend ls\<rparr>)\<rparr>))"
proof -
  have le: "CurrentLocation p \<le> StackCount p + 1" using st loc by simp
  have last: "CurrentLocation p \<le> StackCount p \<longleftrightarrow> ls \<noteq> []" using st loc by (cases ls) auto
  have nx: "nat (int (length pre) + 1) = Suc (length pre)" by simp
  show ?thesis
  proof (cases ls)
    case Nil
    then show ?thesis using p st loc le last
      by (auto simp: bindS_def irp_eval CallCompletion_def observer_def p1_def pend_def c_def nth_append)
  next
    case (Cons l' ls')
    then show ?thesis using p st loc le last nx
      by (auto simp: bindS_def irp_eval CallCompletion_def observer_def p1_def pend_def c_def nth_append list_update_append)
  qed
qed

definition at_location :: "IRP \<Rightarrow> IRP \<Rightarrow> int \<Rightarrow> bool" where
  "at_location p p' i \<longleftrightarrow> StackCount p' = StackCount p \<and> length (stack p') = length (stack p) \<and> Status p' = Status p \<and> Cancel p' = Cancel p
     \<and> MdlAddress p' = MdlAddress p \<and> CurrentStackLocation p' = i \<and> CurrentLocation p' = i + 1"

lemma CompleteLoop_observer:
  assumes "irps s a = Some p" "stack p = pre @ locs" "StackCount p = int (length (stack p))" "StackCount p \<le> 125"
    "CurrentStackLocation p = int (length pre) + 1" "CurrentLocation p = int (length pre) + 2" "mdl_chain (mdls s) (MdlAddress p) ms" "length locs < n"
    "Status p = Status q" "Cancel p = Cancel q" "completions answer q locs = (cs, stopped, k)"
  shows "\<exists>p'. CompleteLoop (observer answer) a n (int (length pre)) s =
        Inr ((), s\<lparr>irps := (irps s)(a \<mapsto> p'), mdls := (if stopped then mdls s else unlocked ms (mdls s)), calls := calls s @ cs\<rparr>)
    \<and> at_location p p' (int (length pre) + int k + (if stopped then 0 else 1))"
  using assms
proof (induction answer q locs arbitrary: s p pre n cs k rule: completions.induct)
  case (1 answer q)
  then obtain m where n: "n = Suc m" by (cases n) auto
  from 1 have "CompleteLoop (observer answer) a n (int (length pre)) s = Inr ((), s\<lparr>mdls := unlocked ms (mdls s)\<rparr>)"
    by (simp add: n bindS_def irp_eval UnlockChain_all)
  moreover have "(irps s)(a \<mapsto> p) = irps s" using 1 by (intro fun_upd_idem)
  moreover have "cs = []" "\<not> stopped" "k = 0" using 1 by simp_all
  ultimately show ?case using 1 by (intro exI [of _ p]) (simp only: at_location_def, simp)
next
  case (2 answer q l ls)
  obtain m where n: "n = Suc m" using 2 by (cases n) auto
  let ?pend = "Control l AND SL_PENDING_RETURNED \<noteq> 0"
  let ?p1 = "p\<lparr>PendingReturned := ?pend, stack := pre @ ClearStackLocation l # ls\<rparr>"
  let ?c = "(CompletionRoutine l, (case ls of [] \<Rightarrow> 0 | l' # _ \<Rightarrow> DeviceObject l'), Context l)"
  have inv: "invokes p (Control l) = invokes q (Control l)" using 2 by (simp add: invokes_def)
  note round = CompleteLoop_round [OF 2(3-5) 2(7,8), of answer m]
  let ?adv = "\<lambda>p. p\<lparr>CurrentStackLocation := int (length (pre @ [ClearStackLocation l])) + 1, CurrentLocation := int (length (pre @ [ClearStackLocation l])) + 2\<rparr>"
  have adv: "bindS (Advance a) (\<lambda>i. CompleteLoop (observer answer) a m i) t
      = CompleteLoop (observer answer) a m (int (length (pre @ [ClearStackLocation l]))) (t\<lparr>irps := (irps t)(a \<mapsto> ?adv r)\<rparr>)"
    if "irps t a = Some r" "CurrentStackLocation r = CurrentStackLocation p" "CurrentLocation r = CurrentLocation p" for t r
    using 2 that by (simp add: bindS_def Advance_eval [OF that(1)] add.commute)
  show ?case
  proof (cases "invokes q (Control l)")
    case True
    show ?thesis
    proof (cases "answer (CompletionRoutine l) = STATUS_MORE_PROCESSING_REQUIRED")
      case more: True
      then have "cs = [?c]" "stopped" "k = 1" using 2 True by simp_all
      with round more True inv 2 show ?thesis unfolding n
        by (intro exI [of _ ?p1]) (simp add: at_location_def del: fun_upd_apply)
    next
      case False
      obtain cs' k' where r: "completions answer q ls = (cs', stopped, k')" "cs = ?c # cs'" "k = k' + 1"
        using 2 True False by (auto split: prod.splits)
      let ?t = "s\<lparr>irps := (irps s)(a \<mapsto> ?p1), calls := calls s @ [?c]\<rparr>"
      let ?u = "?t\<lparr>irps := (irps ?t)(a \<mapsto> ?adv ?p1)\<rparr>"
      have "\<exists>p'. CompleteLoop (observer answer) a m (int (length (pre @ [ClearStackLocation l]))) ?u
          = Inr ((), ?u\<lparr>irps := (irps ?u)(a \<mapsto> p'), mdls := (if stopped then mdls ?u else unlocked ms (mdls ?u)), calls := calls ?u @ cs'\<rparr>)
        \<and> at_location (?adv ?p1) p' (int (length (pre @ [ClearStackLocation l])) + int k' + (if stopped then 0 else 1))"
        by (rule 2(1)) (use 2 n r True False in simp_all)
      moreover have "bindS (Advance a) (\<lambda>i. CompleteLoop (observer answer) a m i) ?t
          = CompleteLoop (observer answer) a m (int (length (pre @ [ClearStackLocation l]))) ?u"
        by (rule adv) simp_all
      ultimately show ?thesis using round True False inv r 2(4) unfolding n
        by (elim exE, rename_tac p', rule_tac x = p' in exI) (simp add: at_location_def del: fun_upd_apply)
    qed
  next
    case False
    obtain cs' k' where r: "completions answer q (hand_over ?pend ls) = (cs', stopped, k')" "cs = cs'" "k = k' + 1"
      using 2 False by (auto split: prod.splits)
    let ?p2 = "?p1\<lparr>stack := (pre @ [ClearStackLocation l]) @ hand_over ?pend ls\<rparr>"
    let ?t = "s\<lparr>irps := (irps s)(a \<mapsto> ?p2)\<rparr>"
    let ?u = "?t\<lparr>irps := (irps ?t)(a \<mapsto> ?adv ?p2)\<rparr>"
    have "\<exists>p'. CompleteLoop (observer answer) a m (int (length (pre @ [ClearStackLocation l]))) ?u
        = Inr ((), ?u\<lparr>irps := (irps ?u)(a \<mapsto> p'), mdls := (if stopped then mdls ?u else unlocked ms (mdls ?u)), calls := calls ?u @ cs'\<rparr>)
      \<and> at_location (?adv ?p2) p' (int (length (pre @ [ClearStackLocation l])) + int k' + (if stopped then 0 else 1))"
      by (rule 2(2)) (use 2 n r False in simp_all)
    moreover have "bindS (Advance a) (\<lambda>i. CompleteLoop (observer answer) a m i) ?t
        = CompleteLoop (observer answer) a m (int (length (pre @ [ClearStackLocation l]))) ?u"
      by (rule adv) simp_all
    ultimately show ?thesis using round False inv r 2(4) unfolding n
      by (elim exE, rename_tac p', rule_tac x = p' in exI) (simp add: at_location_def del: fun_upd_apply)
  qed
qed

lemma IofCompleteRequest_observer:
  assumes "irps s a = Some p" "wf_irp p" "mdl_chain (mdls s) (MdlAddress p) ms" "length (stack p) < n"
    "completions answer p (drop (nat (CurrentStackLocation p)) (stack p)) = (cs, stopped, k)"
  shows "\<exists>p'. IofCompleteRequest (observer answer) n a s =
      Inr ((), s\<lparr>irps := (irps s)(a \<mapsto> p'), mdls := (if stopped then mdls s else unlocked ms (mdls s)), calls := calls s @ cs\<rparr>)
    \<and> at_location p p' (CurrentStackLocation p + int k + (if stopped then 0 else 1))"
proof -
  let ?i = "nat (CurrentStackLocation p)"
  let ?p = "p\<lparr>CurrentStackLocation := CurrentStackLocation p + 1, CurrentLocation := CurrentLocation p + 1\<rparr>"
  let ?s = "s\<lparr>irps := (irps s)(a \<mapsto> ?p)\<rparr>"
  let ?pre = "take ?i (stack p)" and ?locs = "drop ?i (stack p)"
  have len: "int (length ?pre) = CurrentStackLocation p" and small: "CurrentLocation p \<le> StackCount p + 1" "cchar (CurrentLocation p + 1) = CurrentLocation p + 1"
    using assms(2) by (auto simp: wf_irp_def)
  have start: "IofCompleteRequest (observer answer) n a s = CompleteLoop (observer answer) a n (int (length ?pre)) ?s"
    using assms(1) small len by (simp add: IofCompleteRequest_def bindS_def irp_eval)
  have "\<exists>p'. CompleteLoop (observer answer) a n (int (length ?pre)) ?s =
      Inr ((), ?s\<lparr>irps := (irps ?s)(a \<mapsto> p'), mdls := (if stopped then mdls ?s else unlocked ms (mdls ?s)), calls := calls ?s @ cs\<rparr>)
    \<and> at_location ?p p' (int (length ?pre) + int k + (if stopped then 0 else 1))"
    by (rule CompleteLoop_observer [where locs = ?locs and q = p]) (use assms len in \<open>auto simp: wf_irp_def\<close>)
  then show ?thesis using start len by (auto simp: at_location_def)
qed

lemma completions_used: "completions answer p ls = (cs, stopped, k) \<Longrightarrow> k \<le> length ls \<and> (\<not> stopped \<longrightarrow> k = length ls)"
proof (induction answer p ls arbitrary: cs stopped k rule: completions.induct)
  case (2 answer p l ls)
  then show ?case by (fastforce simp: Let_def split: if_splits prod.splits)
qed simp

lemma completions_stopped: "completions answer p ls = (cs, True, k) \<Longrightarrow> 0 < k"
  by (cases ls) (auto simp: Let_def split: if_splits prod.splits)

subsection \<open>New packets\<close>

definition fresh_irp :: "int \<Rightarrow> IRP" where
  "fresh_irp n = \<lparr>Size = sizeof_IRP + nat n * sizeof_LOCATION, StackCount = n, CurrentLocation = n + 1, CurrentStackLocation = n,
     stack = replicate (nat n) zero_location, Status = 0, Information = 0, PendingReturned = False, Cancel = False, Flags = 0,
     SystemBuffer = 0, UserBuffer = 0, UserEvent = 0, UserIosb = 0, MdlAddress = 0, Thread = 0, RequestorMode = 0\<rparr>"

lemma wf_fresh_irp: "0 \<le> n \<Longrightarrow> n \<le> 125 \<Longrightarrow> wf_irp (fresh_irp n)"
  by (simp add: fresh_irp_def wf_irp_def)

lemma ExAllocatePool_eval [irp_eval]:
  "pool_left s \<noteq> 0 \<Longrightarrow> ExAllocatePool s = Inr (next_addr s, s\<lparr>pool_left := pool_left s - 1, next_addr := next_addr s + 1\<rparr>)"
  by (simp add: ExAllocatePool_def new_address_def)

lemma IoAllocateIrp_eval [irp_eval]:
  assumes "pool_left s \<noteq> 0" "next_addr s \<noteq> 0" "0 \<le> n" "n \<le> 125"
  shows "IoAllocateIrp n s = Inr (next_addr s, s\<lparr>pool_left := pool_left s - 1, next_addr := next_addr s + 1, irps := (irps s)(next_addr s \<mapsto> fresh_irp n)\<rparr>)"
proof -
  have "IoSizeOfIrp n = sizeof_IRP + nat n * sizeof_LOCATION" using assms(4) by (simp add: IoSizeOfIrp_def)
  with assms show ?thesis
    by (simp add: IoAllocateIrp_def IoInitializeIrp_def bindS_def ExAllocatePool_eval fresh_irp_def)
qed

lemma SetupBuffers_direct:
  assumes "irps s a = Some p" "pool_left s \<noteq> 0" "next_addr s \<noteq> 0" "code mod 4 = 1 \<or> code mod 4 = 2"
  shows "SetupBuffers code inbuf inlen outbuf outlen a s = Inr (True, s\<lparr>pool_left := pool_left s - 1, next_addr := next_addr s + 1,
     mdls := (mdls s)(next_addr s \<mapsto> \<lparr>VirtualAddress = outbuf, ByteCount = outlen, Next = 0, PagesLocked = False\<rparr>),
     irps := (irps s)(a \<mapsto> p\<lparr>SystemBuffer := inbuf, Flags := Flags p OR IRP_BUFFERED_IO, MdlAddress := next_addr s\<rparr>)\<rparr>)"
  using assms by (auto simp: SetupBuffers_def bindS_def irp_eval IoAllocateMdl_def)

lemma SetupBuffers_buffered:
  assumes "irps s a = Some p" "pool_left s \<noteq> 0" "next_addr s \<noteq> 0" "code mod 4 = 0"
    and "bufs s inbuf = Some ib" "inlen \<le> length ib" "inbuf \<noteq> next_addr s"
  shows "SetupBuffers code inbuf inlen outbuf outlen a s = Inr (True, s\<lparr>pool_left := pool_left s - 1, next_addr := next_addr s + 1,
     bufs := (bufs s)(next_addr s \<mapsto> take inlen ib @ replicate (max inlen outlen - inlen) (junk s)),
     irps := (irps s)(a \<mapsto> p\<lparr>SystemBuffer := next_addr s, UserBuffer := outbuf, Flags := Flags p OR (IRP_BUFFERED_IO OR IRP_DEALLOCATE_BUFFER)\<rparr>)\<rparr>)"
  using assms
  by (auto simp: SetupBuffers_def AllocateSystemBuffer_def CopyBytes_def bindS_def irp_eval max_def)

text \<open>The part of the request around the switch.\<close>

lemma build_eq:
  assumes "StackSize s dev = Some n" "1 \<le> n" "n \<le> 125" "pool_left s \<noteq> 0" "next_addr s \<noteq> 0"
    and t: "t = s\<lparr>pool_left := pool_left s - 1, next_addr := next_addr s + 1, irps := (irps s)(next_addr s \<mapsto> p1)\<rparr>"
    and p1: "p1 = (fresh_irp n)\<lparr>stack := (stack (fresh_irp n))[nat (n - 1) := zero_location\<lparr>MajorFunction := (if internal then IRP_MJ_INTERNAL_DEVICE_CONTROL else IRP_MJ_DEVICE_CONTROL),
           MinorFunction := 0, Argument3 := code, Argument2 := inlen, Argument1 := outlen, DeviceObject := dev\<rparr>]\<rparr>"
    and run: "SetupBuffers code inbuf inlen outbuf outlen (next_addr s) t = Inr (True, u)"
    and u: "irps u (next_addr s) = Some p2" "stack p2 = stack p1" "CurrentStackLocation p2 = n"
  shows "\<exists>l. IoBuildDeviceIoControlRequest code dev inbuf inlen outbuf outlen internal event iosb s
    = Inr (next_addr s, u\<lparr>irps := (irps u)(next_addr s \<mapsto> p2\<lparr>UserEvent := event, UserIosb := iosb, RequestorMode := 0, stack := (stack p2)[nat (n - 1) := l]\<rparr>)\<rparr>)
    \<and> CompletionRoutine l = ioctl_routine \<and> Control l = 0xE0 \<and> DeviceObject l = dev \<and> Argument3 l = code"
proof -
  have f: "CurrentStackLocation (fresh_irp n) = n" "stack (fresh_irp n) = replicate (nat n) zero_location"
    by (simp_all add: fresh_irp_def)
  have i: "0 \<le> n - 1" "n - 1 < int (nat n)" "nat (n - 1) < nat n" "0 \<le> n" using assms(2) by simp_all
  have len: "n - 1 < int (length (stack p2))" using u(2) p1 f(2) i(2) by simp
  have "IoBuildDeviceIoControlRequest code dev inbuf inlen outbuf outlen internal event iosb s
    = bindS (set_irp (next_addr s) (\<lambda>p. p\<lparr>UserEvent := event, UserIosb := iosb, RequestorMode := 0\<rparr>)) (\<lambda>_.
         bindS (IoSetCompletionRoutine (next_addr s) ioctl_routine 0 True True True) (\<lambda>_. ret (next_addr s))) u"
    using assms(1-5) run f i unfolding t p1
    by (simp add: IoBuildDeviceIoControlRequest_def bindS_def IoAllocateIrp_eval get_irp_eval set_loc_eval)
  also have "\<dots> = Inr (next_addr s, u\<lparr>irps := (irps u)(next_addr s \<mapsto> p2\<lparr>UserEvent := event, UserIosb := iosb, RequestorMode := 0,
      stack := (stack p2)[nat (n - 1) := (stack p2 ! nat (n - 1))\<lparr>CompletionRoutine := ioctl_routine, Context := 0, Control := 0xE0\<rparr>]\<rparr>)\<rparr>)"
    using u(1,3) i(1) len by (simp add: bindS_def IoSetCompletionRoutine_def irp_eval)
  finally have run': "IoBuildDeviceIoControlRequest code dev inbuf inlen outbuf outlen internal event iosb s = \<dots>" .
  have "stack p2 ! nat (n - 1) = zero_location\<lparr>MajorFunction := (if internal then IRP_MJ_INTERNAL_DEVICE_CONTROL else IRP_MJ_DEVICE_CONTROL),
           MinorFunction := 0, Argument3 := code, Argument2 := inlen, Argument1 := outlen, DeviceObject := dev\<rparr>"
    using u(2) p1 f i by simp
  then show ?thesis unfolding run'
    by (intro exI [of _ "(stack p2 ! nat (n - 1))\<lparr>CompletionRoutine := ioctl_routine, Context := 0, Control := 0xE0\<rparr>"]) simp
qed

section \<open>Properties\<close>

text \<open>
  C13.  IofCompleteRequest on a packet whose completion routines only look on and whose chain of descriptor lists is finite: it returns (with fuel for one round more than the stack has locations; the loop over the descriptor lists has
  no bound) and calls, from the current location up, exactly the routines whose location asks for it under the status of the packet, each
  with the device of the next location, until one answers STATUS_MORE_PROCESSING_REQUIRED.  Then the packet stands at the location above that one,
  ready to be completed again, and its pages stay locked; otherwise the pages of all its descriptor lists, and of no others, are unlocked, the packet stands behind the stack, and a second completion is the bug check
  MULTIPLE_IRP_COMPLETE_REQUESTS.
\<close>

theorem IofCompleteRequest_calls:
  assumes "irps s a = Some p" "wf_irp p" "mdl_chain (mdls s) (MdlAddress p) ms" "length (stack p) < n"
    and "completions answer p (drop (nat (CurrentStackLocation p)) (stack p)) = (cs, stopped, k)"
  shows "\<exists>s' p'. IofCompleteRequest (observer answer) n a s = Inr ((), s') \<and> irps s' a = Some p' \<and> calls s' = calls s @ cs
    \<and> (if stopped then wf_irp p' \<and> CurrentLocation p' = CurrentLocation p + int k \<and> mdls s' = mdls s
       else mdls s' = (\<lambda>m. if m \<in> set ms then map_option (\<lambda>d. d\<lparr>PagesLocked := False\<rparr>) (mdls s m) else mdls s m)
         \<and> IofCompleteRequest (observer answer) n a s' = Inl (BugCheck MULTIPLE_IRP_COMPLETE_REQUESTS))"
proof -
  let ?M = "if stopped then mdls s else unlocked ms (mdls s)"
  obtain p' where r: "IofCompleteRequest (observer answer) n a s = Inr ((), s\<lparr>irps := (irps s)(a \<mapsto> p'), mdls := ?M, calls := calls s @ cs\<rparr>)"
    "at_location p p' (CurrentStackLocation p + int k + (if stopped then 0 else 1))"
    using IofCompleteRequest_observer [OF assms] by blast
  have k: "int k \<le> StackCount p - CurrentStackLocation p" "\<not> stopped \<Longrightarrow> int k = StackCount p - CurrentStackLocation p"
    using completions_used [OF assms(5)] assms(2) by (auto simp: wf_irp_def)
  let ?s = "s\<lparr>irps := (irps s)(a \<mapsto> p'), mdls := ?M, calls := calls s @ cs\<rparr>"
  have "irps ?s a = Some p'" by simp
  moreover have "wf_irp p' \<and> CurrentLocation p' = CurrentLocation p + int k" if stopped
    using that r(2) k(1) assms(2) by (simp add: at_location_def wf_irp_def)
  moreover have "IofCompleteRequest (observer answer) n a ?s = Inl (BugCheck MULTIPLE_IRP_COMPLETE_REQUESTS)" if "\<not> stopped"
    using that r(2) k(2) by (simp add: IofCompleteRequest_def bindS_def get_irp_eval at_location_def)
  ultimately show ?thesis using r(1) by (intro exI [of _ ?s] exI [of _ p']) (simp add: unlocked_def)
qed

definition loc :: "nat \<Rightarrow> nat \<Rightarrow> UCHAR \<Rightarrow> IO_STACK_LOCATION" where
  "loc dev routine c = zero_location\<lparr>DeviceObject := dev, CompletionRoutine := routine, Control := c, Context := routine + 1\<rparr>"

definition sample_irp :: IRP where
  "sample_irp = \<lparr>Size = 352, StackCount = 2, CurrentLocation = 1, CurrentStackLocation = 0, stack = [loc 7 100 0xE0, loc 8 200 0xE0],
     Status = 0, Information = 0, PendingReturned = False, Cancel = False, Flags = 0, SystemBuffer = 0, UserBuffer = 0,
     UserEvent = 0, UserIosb = 0, MdlAddress = 0, Thread = 0, RequestorMode = 0\<rparr>"

definition sample_io :: IO where
  "sample_io = \<lparr>irps = [5 \<mapsto> sample_irp], bufs = [50 \<mapsto> [1, 2, 3, 4], 60 \<mapsto> [0, 0, 0, 0]], mdls = Map.empty, next_addr = 1000, pool_left = 5, junk = 0,
     events = Map.empty, iosbs = Map.empty, StackSize = [7 \<mapsto> 2], cur_irql = 0, cur_thread = 1, calls = []\<rparr>"

definition locked_io :: IO where
  "locked_io = sample_io\<lparr>irps := [5 \<mapsto> sample_irp\<lparr>MdlAddress := 70\<rparr>],
     mdls := [70 \<mapsto> \<lparr>VirtualAddress = 0, ByteCount = 8, Next = 71, PagesLocked = True\<rparr>, 71 \<mapsto> \<lparr>VirtualAddress = 8, ByteCount = 8, Next = 0, PagesLocked = True\<rparr>]\<rparr>"

theorem IofCompleteRequest_calls_witness:
  "\<exists>s'. IofCompleteRequest (observer (\<lambda>_. 0)) 3 5 locked_io = Inr ((), s') \<and> calls s' = [(100, 8, 101), (200, 0, 201)] \<and>
     map_option PagesLocked (mdls s' 70) = Some False \<and> map_option PagesLocked (mdls s' 71) = Some False"
proof -
  let ?p = "sample_irp\<lparr>MdlAddress := 70\<rparr>"
  have io: "irps locked_io 5 = Some ?p" "calls locked_io = []" "wf_irp ?p" "mdl_chain (mdls locked_io) (MdlAddress ?p) [70, 71]"
    "length (stack ?p) < 3" "nat (CurrentStackLocation ?p) = 0"
    by (simp_all add: locked_io_def sample_io_def sample_irp_def wf_irp_def)
  have "completions (\<lambda>_. 0) ?p (stack ?p) = ([(100, 8, 101), (200, 0, 201)], False, 2)"
    by (simp add: sample_irp_def loc_def zero_location_def invokes_def NT_SUCCESS_def)
  with IofCompleteRequest_calls [OF io(1,3-5), of "\<lambda>_. 0"] io(2,6) obtain s' where
    "IofCompleteRequest (observer (\<lambda>_. 0)) 3 5 locked_io = Inr ((), s')" "calls s' = [(100, 8, 101), (200, 0, 201)]"
    "mdls s' = (\<lambda>m. if m \<in> set [70, 71] then map_option (\<lambda>d. d\<lparr>PagesLocked := False\<rparr>) (mdls locked_io m) else mdls locked_io m)" by auto
  then show ?thesis by (simp add: locked_io_def)
qed

lemma IofCallDriver_down:
  assumes "irps s a = Some p" "wf_irp p" "cur_irql s \<le> DISPATCH_LEVEL" "CurrentLocation p \<noteq> 1"
    and "i = nat (CurrentStackLocation p - 1)"
  shows "IofCallDriver dispatch dev a s =
    dispatch dev (MajorFunction (stack p ! i)) a
      (s\<lparr>irps := (irps s)(a \<mapsto> p\<lparr>CurrentLocation := CurrentLocation p - 1, CurrentStackLocation := CurrentStackLocation p - 1,
          stack := (stack p)[i := (stack p ! i)\<lparr>DeviceObject := dev\<rparr>]\<rparr>)\<rparr>)"
proof -
  have "CurrentLocation p > 0" "0 \<le> CurrentStackLocation p - 1" "CurrentStackLocation p - 1 < int (length (stack p))"
    "cchar (CurrentLocation p - 1) = CurrentLocation p - 1" using assms(2,4) by (simp_all add: wf_irp_def)
  with assms show ?thesis
    by (simp add: IofCallDriver_def IoSetNextIrpStackLocation_def bindS_def assertS_def irp_eval)
qed

text \<open>
  C14.  IofCallDriver on a packet with a location left moves one location down, records the device there and calls its driver with
  the major function of that location.  On a packet with no location left (CurrentLocation is 1) the assertion
  \<open>CurrentLocation > 0\<close> holds before the step, and the device is written below the stack.
\<close>

theorem IofCallDriver_moves_down:
  assumes "irps s a = Some p" "wf_irp p" "cur_irql s \<le> DISPATCH_LEVEL"
  shows "IofCallDriver dispatch dev a s =
    (if CurrentLocation p = 1 then Inl Fault
     else let i = nat (CurrentStackLocation p - 1)
          in dispatch dev (MajorFunction (stack p ! i)) a
               (s\<lparr>irps := (irps s)(a \<mapsto> p\<lparr>CurrentLocation := CurrentLocation p - 1, CurrentStackLocation := CurrentStackLocation p - 1,
                   stack := (stack p)[i := (stack p ! i)\<lparr>DeviceObject := dev\<rparr>]\<rparr>)\<rparr>))"
proof (cases "CurrentLocation p = 1")
  case True
  then show ?thesis using assms
    by (simp add: IofCallDriver_def IoSetNextIrpStackLocation_def bindS_def assertS_def irp_eval set_loc_def get_loc_def wf_irp_def)
next
  case False
  with IofCallDriver_down [OF assms False refl] show ?thesis by (simp add: Let_def)
qed

theorem IofCallDriver_moves_down_witness: "IofCallDriver (\<lambda>_ _ _. ret 0) 9 5 sample_io = Inl Fault"
  using IofCallDriver_moves_down [where s = sample_io and a = 5 and p = sample_irp and dev = 9 and dispatch = "\<lambda>_ _ _. ret 0"]
  by (simp add: sample_io_def sample_irp_def wf_irp_def)

text \<open>
  A request with METHOD_IN_DIRECT or METHOD_OUT_DIRECT is marked as buffered although it has no user buffer: when the driver
  completes it with a transfer count other than 0, the completion routine of the library copies to the null pointer.
\<close>

theorem direct_ioctl_completion_faults:
  assumes "StackSize s dev = Some n" "1 \<le> n" "n \<le> 125" "1 < pool_left s" "next_addr s \<noteq> 0" "code mod 4 = 1 \<or> code mod 4 = 2"
    and "bufs s 0 = None" "0 < count"
  shows "\<exists>a s1 p. IoBuildDeviceIoControlRequest code dev inbuf inlen outbuf outlen internal event iosb s = Inr (a, s1)
    \<and> irps s1 a = Some p \<and> DdkIoctlCompletion a (s1\<lparr>irps := (irps s1)(a \<mapsto> p\<lparr>Status := st, Information := count\<rparr>)\<rparr>) = Inl Fault"
proof -
  let ?a = "next_addr s"
  define p1 where "p1 = (fresh_irp n)\<lparr>stack := (stack (fresh_irp n))[nat (n - 1) := zero_location\<lparr>MajorFunction := (if internal then IRP_MJ_INTERNAL_DEVICE_CONTROL else IRP_MJ_DEVICE_CONTROL),
           MinorFunction := 0, Argument3 := code, Argument2 := inlen, Argument1 := outlen, DeviceObject := dev\<rparr>]\<rparr>"
  define t where "t = s\<lparr>pool_left := pool_left s - 1, next_addr := ?a + 1, irps := (irps s)(?a \<mapsto> p1)\<rparr>"
  have "irps t ?a = Some p1" "pool_left t \<noteq> 0" "next_addr t \<noteq> 0" using assms by (simp_all add: t_def)
  note run = SetupBuffers_direct [OF this assms(6), of inbuf inlen outbuf outlen]
  have f: "CurrentStackLocation p1 = n" "UserBuffer p1 = 0" "Flags p1 = 0" by (simp_all add: p1_def fresh_irp_def)
  have nz: "pool_left s \<noteq> 0" using assms(4) by simp
  obtain l where "IoBuildDeviceIoControlRequest code dev inbuf inlen outbuf outlen internal event iosb s = Inr (?a, t\<lparr>pool_left := pool_left t - 1,
     next_addr := next_addr t + 1, mdls := (mdls t)(next_addr t \<mapsto> \<lparr>VirtualAddress = outbuf, ByteCount = outlen, Next = 0, PagesLocked = False\<rparr>),
     irps := (irps t)(?a \<mapsto> p1\<lparr>SystemBuffer := inbuf, Flags := IRP_BUFFERED_IO, MdlAddress := next_addr t, UserEvent := event, UserIosb := iosb,
       RequestorMode := 0, stack := (stack p1)[nat (n - 1) := l]\<rparr>)\<rparr>)"
    using build_eq [OF assms(1-3) nz assms(5) t_def p1_def run, of _ event iosb] f by auto
  then show ?thesis using assms(7,8) f
    by (auto simp: DdkIoctlCompletion_def bindS_def irp_eval CopyBytes_def t_def)
qed

theorem direct_ioctl_completion_faults_witness:
  "\<exists>a s1 p. IoBuildDeviceIoControlRequest 2 7 50 4 60 4 False 0 0 sample_io = Inr (a, s1) \<and> irps s1 a = Some p
     \<and> DdkIoctlCompletion a (s1\<lparr>irps := (irps s1)(a \<mapsto> p\<lparr>Status := 0, Information := 4\<rparr>)\<rparr>) = Inl Fault"
  by (rule direct_ioctl_completion_faults [where n = 2]) (simp_all add: sample_io_def)

text \<open>
  A request with METHOD_BUFFERED: the driver finds the input in a system buffer of the larger of the two lengths; when it
  completes with a transfer count up to the output length, whatever it left in the system buffer reaches the output buffer up to the count, the
  rest of the output buffer stays as it was, and the packet is freed.  The system buffer is not, although the packet carries
  IRP_DEALLOCATE_BUFFER: it is still allocated afterwards.
\<close>

theorem buffered_ioctl_transfers_and_leaks:
  assumes "StackSize s dev = Some n" "1 \<le> n" "n \<le> 125" "1 < pool_left s" "next_addr s \<noteq> 0" "code mod 4 = 0"
    and buf: "bufs s inbuf = Some ib" "inlen \<le> length ib" "bufs s outbuf = Some ob" "outlen \<le> length ob" "inbuf < next_addr s" "outbuf < next_addr s"
    and cnt: "count \<le> outlen" "length sysdata = max inlen outlen"
  shows "\<exists>a s1 p s2. IoBuildDeviceIoControlRequest code dev inbuf inlen outbuf outlen internal 0 iosb s = Inr (a, s1) \<and> irps s1 a = Some p
    \<and> Flags p = IRP_BUFFERED_IO OR IRP_DEALLOCATE_BUFFER
    \<and> bufs s1 (SystemBuffer p) = Some (take inlen ib @ replicate (max inlen outlen - inlen) (junk s))
    \<and> DdkIoctlCompletion a (s1\<lparr>irps := (irps s1)(a \<mapsto> p\<lparr>Status := st, Information := count\<rparr>), bufs := (bufs s1)(SystemBuffer p \<mapsto> sysdata)\<rparr>)
        = Inr (STATUS_MORE_PROCESSING_REQUIRED, s2)
    \<and> bufs s2 outbuf = Some (take count sysdata @ drop count ob) \<and> irps s2 a = None \<and> bufs s2 (SystemBuffer p) = Some sysdata"
proof -
  let ?a = "next_addr s"
  define p1 where "p1 = (fresh_irp n)\<lparr>stack := (stack (fresh_irp n))[nat (n - 1) := zero_location\<lparr>MajorFunction := (if internal then IRP_MJ_INTERNAL_DEVICE_CONTROL else IRP_MJ_DEVICE_CONTROL),
           MinorFunction := 0, Argument3 := code, Argument2 := inlen, Argument1 := outlen, DeviceObject := dev\<rparr>]\<rparr>"
  define t where "t = s\<lparr>pool_left := pool_left s - 1, next_addr := ?a + 1, irps := (irps s)(?a \<mapsto> p1)\<rparr>"
  have tp: "irps t ?a = Some p1" "pool_left t \<noteq> 0" "next_addr t \<noteq> 0" using assms by (simp_all add: t_def)
  have tb: "bufs t inbuf = Some ib" "inbuf \<noteq> next_addr t" "outbuf \<noteq> next_addr t" "bufs t = bufs s" "junk t = junk s"
    using buf by (simp_all add: t_def)
  have run: "SetupBuffers code inbuf inlen outbuf outlen ?a t = Inr (True, t\<lparr>pool_left := pool_left t - 1, next_addr := next_addr t + 1,
     bufs := (bufs t)(next_addr t \<mapsto> take inlen ib @ replicate (max inlen outlen - inlen) (junk t)),
     irps := (irps t)(?a \<mapsto> p1\<lparr>SystemBuffer := next_addr t, UserBuffer := outbuf, Flags := Flags p1 OR (IRP_BUFFERED_IO OR IRP_DEALLOCATE_BUFFER)\<rparr>)\<rparr>)"
    by (rule SetupBuffers_buffered) (use tp tb assms(6) buf(2) in simp_all)
  have f: "CurrentStackLocation p1 = n" "MdlAddress p1 = 0" "Flags p1 = 0" by (simp_all add: p1_def fresh_irp_def)
  have nz: "pool_left s \<noteq> 0" using assms(4) by simp
  let ?p = "p1\<lparr>SystemBuffer := next_addr t, UserBuffer := outbuf, Flags := IRP_BUFFERED_IO OR IRP_DEALLOCATE_BUFFER\<rparr>"
  obtain l where "IoBuildDeviceIoControlRequest code dev inbuf inlen outbuf outlen internal 0 iosb s = Inr (?a, t\<lparr>pool_left := pool_left t - 1,
     next_addr := next_addr t + 1, bufs := (bufs t)(next_addr t \<mapsto> take inlen ib @ replicate (max inlen outlen - inlen) (junk t)),
     irps := (irps t)(?a \<mapsto> ?p\<lparr>UserEvent := 0, UserIosb := iosb, RequestorMode := 0, stack := (stack ?p)[nat (n - 1) := l]\<rparr>)\<rparr>)"
    using build_eq [OF assms(1-3) nz assms(5) t_def p1_def run, of _ 0 iosb] f by auto
  then show ?thesis using buf cnt tb f
    by (auto simp: DdkIoctlCompletion_def IoFreeIrp_def bindS_def irp_eval CopyBytes_def)
qed

theorem buffered_ioctl_transfers_and_leaks_witness:
  "\<exists>a s1 p s2. IoBuildDeviceIoControlRequest 4 7 50 4 60 4 False 0 0 sample_io = Inr (a, s1)
     \<and> DdkIoctlCompletion a (s1\<lparr>irps := (irps s1)(a \<mapsto> p\<lparr>Status := 0, Information := 2\<rparr>), bufs := (bufs s1)(SystemBuffer p \<mapsto> [9, 8, 7, 6])\<rparr>)
         = Inr (STATUS_MORE_PROCESSING_REQUIRED, s2) \<and> bufs s2 60 = Some [9, 8, 0, 0] \<and> bufs s2 (SystemBuffer p) = Some [9, 8, 7, 6]"
  using buffered_ioctl_transfers_and_leaks [where s = sample_io and dev = 7 and n = 2 and code = 4 and inbuf = 50 and inlen = 4 and outbuf = 60
      and outlen = 4 and ib = "[1, 2, 3, 4]" and ob = "[0, 0, 0, 0]" and count = 2 and sysdata = "[9, 8, 7, 6]" and internal = False and iosb = 0 and st = 0]
  by (fastforce simp: sample_io_def numeral_eq_Suc)

end
