(* ===== verification/Dispatch.thy ===== *)
theory Dispatch
  imports DdkBase
begin

text \<open>
  Dispatcher objects and waiting: src/src/event.cpp, src/src/semaphore.cpp, src/src/mutex.cpp, src/src/wait.cpp, and the conversion of
  timeouts of src/src/time.cpp.

  An object of the driver holds the handle of an object of Windows, which does the work; semaphores and mutexes also keep a copy of the
  count (and the owner) that the routines of the library read.  The objects of Windows behave as documented: a wait
  consumes what it waited for, a manual-reset event stays signalled, a mutex may be acquired again by its owner.  A
  wait that is not satisfied in a state either has a finite timeout and ends with it, or does not return from the state
  (\<open>Waits\<close>).  A mutex that its owner has acquired \<open>2 ^ 31 + 1\<close> times cannot be acquired again: the wait fails.  Abandoned mutexes,
  alerts and a thread that is stopped inside a routine are not modelled: every routine is one step, also those that poll an object and then set it by a
  second call of Windows, or change a copy and the object by two calls.  The functions \<open>PollHandle\<close>, \<open>ReleaseHandle\<close>, \<open>ReleaseMutexHandle\<close> and \<open>WaitForMultipleObjects\<close> say what
  Windows documents of WaitForSingleObject, ReleaseSemaphore, ReleaseMutex and WaitForMultipleObjectsEx.  \<open>t\<close> is the calling thread, not 0.
\<close>

section \<open>Definitions\<close>

datatype HOBJ = HEvent bool bool | HSemaphore int int | HMutex nat nat

datatype DTYPE = NoType | EventType | SemaphoreType | MutexType | ThreadType | TimerType

record DOBJ =
  dtype :: DTYPE
  dh :: nat
  notify :: bool
  threadid :: nat
  dcount :: int

record DISP =
  dobjs :: "nat \<rightharpoonup> DOBJ"
  handles :: "nat \<rightharpoonup> HOBJ"
  next_handle :: nat
  handles_left :: nat
  nullevent :: nat
  lvl :: "nat \<Rightarrow> nat"
  now :: int

abbreviation (input) INFINITE :: nat where "INFINITE \<equiv> 0xFFFFFFFF"
abbreviation (input) WAIT_TIMEOUT :: nat where "WAIT_TIMEOUT \<equiv> 258"
abbreviation (input) WAIT_IO_COMPLETION :: nat where "WAIT_IO_COMPLETION \<equiv> 192"
abbreviation (input) WAIT_FAILED :: nat where "WAIT_FAILED \<equiv> 0xFFFFFFFF"
abbreviation (input) MAXIMUM_WAIT_OBJECTS :: nat where "MAXIMUM_WAIT_OBJECTS \<equiv> 64"
abbreviation (input) ThreadWaitObjects :: nat where "ThreadWaitObjects \<equiv> 3"
abbreviation (input) STATUS_TIMEOUT :: NTSTATUS where "STATUS_TIMEOUT \<equiv> 0x102"
abbreviation (input) STATUS_ALERTED :: NTSTATUS where "STATUS_ALERTED \<equiv> 0x101"
abbreviation (input) STATUS_UNSUCCESSFUL :: NTSTATUS where "STATUS_UNSUCCESSFUL \<equiv> 0xC0000001"

subsection \<open>Objects of Windows\<close>

fun signalled :: "nat \<Rightarrow> HOBJ \<Rightarrow> bool" where
  "signalled t (HEvent manual b) = b"
| "signalled t (HSemaphore c limit) = (c > 0)"
| "signalled t (HMutex own r) = (own = 0 \<or> own = t)"

fun consume :: "nat \<Rightarrow> HOBJ \<Rightarrow> HOBJ" where
  "consume t (HEvent manual b) = HEvent manual (manual \<and> b)"
| "consume t (HSemaphore c limit) = HSemaphore (c - 1) limit"
| "consume t (HMutex own r) = HMutex t (r + 1)"

fun at_limit :: "nat \<Rightarrow> HOBJ \<Rightarrow> bool" where
  "at_limit t (HMutex own r) = (own = t \<and> r = 2 ^ 31 + 1)"
| "at_limit t ob = False"

definition is_signalled :: "DISP \<Rightarrow> nat \<Rightarrow> nat \<Rightarrow> bool" where
  "is_signalled s t h = (case handles s h of None \<Rightarrow> False | Some ob \<Rightarrow> signalled t ob)"

definition limit_reached :: "DISP \<Rightarrow> nat \<Rightarrow> nat \<Rightarrow> bool" where
  "limit_reached s t h = (case handles s h of None \<Rightarrow> False | Some ob \<Rightarrow> at_limit t ob)"

definition consume_handle :: "nat \<Rightarrow> nat \<Rightarrow> DISP \<Rightarrow> DISP" where
  "consume_handle t h s = s\<lparr>handles := (handles s)(h := map_option (consume t) (handles s h))\<rparr>"

definition CreateHandle :: "HOBJ \<Rightarrow> (nat, DISP) st" where
  "CreateHandle ob s =
     (if handles_left s = 0 then Inr (0, s)
      else Inr (next_handle s, s\<lparr>handles := (handles s)(next_handle s \<mapsto> ob), next_handle := next_handle s + 1,
             handles_left := handles_left s - 1\<rparr>))"

text \<open>WaitForSingleObject with timeout 0: whether it returned WAIT_OBJECT_0.\<close>

definition PollHandle :: "nat \<Rightarrow> nat \<Rightarrow> (bool, DISP) st" where
  "PollHandle t h s = (if is_signalled s t h \<and> \<not> limit_reached s t h then Inr (True, consume_handle t h s) else Inr (False, s))"

definition put_event :: "bool \<Rightarrow> nat \<Rightarrow> (unit, DISP) st" where
  "put_event b h s =
     (case handles s h of Some (HEvent manual _) \<Rightarrow> Inr ((), s\<lparr>handles := (handles s)(h \<mapsto> HEvent manual b)\<rparr>) | _ \<Rightarrow> Inr ((), s))"

text \<open>WaitForMultipleObjectsEx, which fails without handles, and for equal handles when it waits for all of them.\<close>

definition WaitForMultipleObjects :: "nat \<Rightarrow> nat list \<Rightarrow> bool \<Rightarrow> nat \<Rightarrow> (nat, DISP) st" where
  "WaitForMultipleObjects t hs wait_all timeout s =
     (if hs = [] \<or> wait_all \<and> \<not> distinct hs then Inr (WAIT_FAILED, s)
      else if wait_all \<and> (\<forall>h \<in> set hs. is_signalled s t h)
      then if \<exists>h \<in> set hs. limit_reached s t h then Inr (WAIT_FAILED, s) else Inr (0, fold (consume_handle t) hs s)
      else case (if wait_all then None else List.find (\<lambda>i. is_signalled s t (hs ! i)) [0..<length hs]) of
             Some i \<Rightarrow> if limit_reached s t (hs ! i) then Inr (WAIT_FAILED, s) else Inr (i, consume_handle t (hs ! i) s)
           | None \<Rightarrow> if timeout = INFINITE then Inl Waits else Inr (WAIT_TIMEOUT, s))"

subsection \<open>Access to an object of the driver\<close>

definition dobj :: "nat \<Rightarrow> (DOBJ, DISP) st" where
  "dobj p s = (case dobjs s p of None \<Rightarrow> Inl Fault | Some ob \<Rightarrow> Inr (ob, s))"

definition set_dobj :: "nat \<Rightarrow> (DOBJ \<Rightarrow> DOBJ) \<Rightarrow> (unit, DISP) st" where
  "set_dobj p f = bindS (dobj p) (\<lambda>ob. modify (\<lambda>s. s\<lparr>dobjs := (dobjs s)(p \<mapsto> f ob)\<rparr>))"

definition max_irql :: "nat \<Rightarrow> nat \<Rightarrow> string \<Rightarrow> (unit, DISP) st" where
  "max_irql t n msg = assertS (\<lambda>s. lvl s t \<le> n) msg"

subsection \<open>Events\<close>

definition DdkInitEvent :: "nat \<Rightarrow> bool \<Rightarrow> bool \<Rightarrow> (unit, DISP) st" where
  "DdkInitEvent p notification state =
     bindS (CreateHandle (HEvent notification state)) (\<lambda>h.
     bindS (set_dobj p (\<lambda>ob. ob\<lparr>dh := h, dtype := EventType, notify := notification\<rparr>)) (\<lambda>_.
     if h = 0 then fail (DdkFail ''Unable to initialize Event'') else ret ()))"

definition InitObject :: "nat \<Rightarrow> (unit, DISP) st" where
  "InitObject p = modify (\<lambda>s. s\<lparr>dobjs := (dobjs s)(p \<mapsto> \<lparr>dtype = NoType, dh = 0, notify = False, threadid = 0, dcount = 0\<rparr>)\<rparr>)"

definition KeInitializeEvent :: "nat \<Rightarrow> bool \<Rightarrow> bool \<Rightarrow> (unit, DISP) st" where
  "KeInitializeEvent p notification state = bindS (InitObject p) (\<lambda>_. DdkInitEvent p notification state)"

definition KeSetEvent :: "nat \<Rightarrow> nat \<Rightarrow> bool \<Rightarrow> (int, DISP) st" where
  "KeSetEvent t p Wait =
     bindS (max_irql t (if Wait then APC_LEVEL else DISPATCH_LEVEL) ''KeGetCurrentIrql() <= (Wait ? APC_LEVEL : DISPATCH_LEVEL)'') (\<lambda>_.
     bindS (dobj p) (\<lambda>ob.
     bindS (PollHandle t (dh ob)) (\<lambda>was.
     if was then bindS (if \<not> notify ob then put_event True (dh ob) else ret ()) (\<lambda>_. ret 1)
     else bindS (put_event True (dh ob)) (\<lambda>_. ret 0))))"

definition KeResetEvent :: "nat \<Rightarrow> nat \<Rightarrow> (int, DISP) st" where
  "KeResetEvent t p =
     bindS (max_irql t DISPATCH_LEVEL ''KeGetCurrentIrql() <= DISPATCH_LEVEL'') (\<lambda>_.
     bindS (dobj p) (\<lambda>ob.
     bindS (PollHandle t (dh ob)) (\<lambda>was.
     if was then bindS (if notify ob then put_event False (dh ob) else ret ()) (\<lambda>_. ret 1) else ret 0)))"

definition KeClearEvent :: "nat \<Rightarrow> nat \<Rightarrow> (unit, DISP) st" where
  "KeClearEvent t p =
     bindS (max_irql t DISPATCH_LEVEL ''KeGetCurrentIrql() <= DISPATCH_LEVEL'') (\<lambda>_.
     bindS (dobj p) (\<lambda>ob. put_event False (dh ob)))"

definition KeReadStateEvent :: "nat \<Rightarrow> nat \<Rightarrow> (bool, DISP) st" where
  "KeReadStateEvent t p =
     bindS (max_irql t DISPATCH_LEVEL ''KeGetCurrentIrql() <= DISPATCH_LEVEL'') (\<lambda>_.
     bindS (dobj p) (\<lambda>ob.
     bindS (PollHandle t (dh ob)) (\<lambda>was.
     if was then bindS (if \<not> notify ob then put_event True (dh ob) else ret ()) (\<lambda>_. ret True) else ret False)))"

subsection \<open>Semaphores\<close>

text \<open>CreateSemaphore fails unless \<open>0 \<le> Count \<le> Limit\<close> and \<open>0 < Limit\<close>.\<close>

definition KeInitializeSemaphore :: "nat \<Rightarrow> nat \<Rightarrow> int \<Rightarrow> int \<Rightarrow> (unit, DISP) st" where
  "KeInitializeSemaphore t p Count Limit =
     bindS (assertS (\<lambda>s. lvl s t = PASSIVE_LEVEL) ''KeGetCurrentIrql() == PASSIVE_LEVEL'') (\<lambda>_.
     bindS (InitObject p) (\<lambda>_.
     bindS (if 0 \<le> Count \<and> Count \<le> Limit \<and> 0 < Limit then CreateHandle (HSemaphore Count Limit) else ret 0) (\<lambda>h.
     bindS (set_dobj p (\<lambda>ob. ob\<lparr>dh := h, dtype := SemaphoreType, dcount := Count\<rparr>)) (\<lambda>_.
     if h = 0 then fail (DdkFail ''Unable to initialize Semaphore'') else ret ()))))"

text \<open>ReleaseSemaphore: the previous count, or None when it fails.\<close>

definition ReleaseHandle :: "nat \<Rightarrow> int \<Rightarrow> (int option, DISP) st" where
  "ReleaseHandle h n s =
     (case handles s h of
        Some (HSemaphore c limit) \<Rightarrow>
          if 0 < n \<and> c + n \<le> limit then Inr (Some c, s\<lparr>handles := (handles s)(h \<mapsto> HSemaphore (c + n) limit)\<rparr>) else Inr (None, s)
      | _ \<Rightarrow> Inr (None, s))"

text \<open>
  The copy is changed before ReleaseSemaphore is called.  When that fails, the routine raises a bug check, which a test may catch: the
  result is then \<open>Inl\<close> of its code, in the state that the routine leaves.
\<close>

definition KeReleaseSemaphore :: "nat \<Rightarrow> nat \<Rightarrow> int \<Rightarrow> bool \<Rightarrow> (ULONG + bool, DISP) st" where
  "KeReleaseSemaphore t p Adjustment Wait =
     bindS (max_irql t (if Wait then PASSIVE_LEVEL else DISPATCH_LEVEL) ''KeGetCurrentIrql() <= (Wait ? PASSIVE_LEVEL : DISPATCH_LEVEL)'') (\<lambda>_.
     bindS (set_dobj p (\<lambda>ob. ob\<lparr>dcount := wrap32 (dcount ob + Adjustment)\<rparr>)) (\<lambda>_.
     bindS (dobj p) (\<lambda>ob.
     bindS (ReleaseHandle (dh ob) Adjustment) (\<lambda>prev.
     ret (case prev of None \<Rightarrow> Inl 0xC0000047 | Some c \<Rightarrow> Inr (c \<noteq> 0))))))"


definition DdkUpdateSemaphore :: "nat \<Rightarrow> (unit, DISP) st" where
  "DdkUpdateSemaphore p = set_dobj p (\<lambda>ob. ob\<lparr>dcount := wrap32 (dcount ob - 1)\<rparr>)"

subsection \<open>Mutexes\<close>

definition KeInitializeMutex :: "nat \<Rightarrow> (unit, DISP) st" where
  "KeInitializeMutex p =
     bindS (InitObject p) (\<lambda>_.
     bindS (CreateHandle (HMutex 0 0)) (\<lambda>h.
     bindS (set_dobj p (\<lambda>ob. ob\<lparr>dh := h, dtype := MutexType\<rparr>)) (\<lambda>_.
     if h = 0 then fail (DdkFail ''Unable to initialize Mutex'') else ret ())))"

text \<open>ReleaseMutex: False when the thread is not the owner.\<close>

definition ReleaseMutexHandle :: "nat \<Rightarrow> nat \<Rightarrow> (bool, DISP) st" where
  "ReleaseMutexHandle t h s =
     (case handles s h of
        Some (HMutex own r) \<Rightarrow>
          if own = t \<and> r \<noteq> 0
          then Inr (True, s\<lparr>handles := (handles s)(h \<mapsto> (if r = 1 then HMutex 0 0 else HMutex own (r - 1)))\<rparr>)
          else Inr (False, s)
      | _ \<Rightarrow> Inr (False, s))"

definition KeReleaseMutex :: "nat \<Rightarrow> nat \<Rightarrow> (int, DISP) st" where
  "KeReleaseMutex t p =
     bindS (max_irql t DISPATCH_LEVEL ''KeGetCurrentIrql() <= DISPATCH_LEVEL'') (\<lambda>_.
     bindS (dobj p) (\<lambda>ob.
     bindS (if threadid ob = t
            then bindS (set_dobj p (\<lambda>ob. ob\<lparr>dcount := wrap32 (dcount ob - 1)\<rparr>)) (\<lambda>_.
                 bindS (dobj p) (\<lambda>ob.
                 if dcount ob = 0 then bindS (set_dobj p (\<lambda>ob. ob\<lparr>threadid := 0\<rparr>)) (\<lambda>_. ret 0) else ret 1))
            else ret 1) (\<lambda>rc.
     bindS (ReleaseMutexHandle t (dh ob)) (\<lambda>ok.
     if \<not> ok then ret 1 else ret rc))))"


definition DdkUpdateMutex :: "nat \<Rightarrow> nat \<Rightarrow> (unit, DISP) st" where
  "DdkUpdateMutex t p =
     bindS (dobj p) (\<lambda>ob.
     if threadid ob \<noteq> t then set_dobj p (\<lambda>ob. ob\<lparr>threadid := t, dcount := 1\<rparr>)
     else set_dobj p (\<lambda>ob. ob\<lparr>dcount := wrap32 (dcount ob + 1)\<rparr>))"

subsection \<open>Waiting\<close>

definition DdkWaitInit :: "(unit, DISP) st" where
  "DdkWaitInit = bindS (CreateHandle (HEvent False False)) (\<lambda>h. modify (\<lambda>s. s\<lparr>nullevent := h\<rparr>))"

definition GetDispatch :: "nat \<Rightarrow> (DOBJ, DISP) st" where
  "GetDispatch p s =
     (case dobjs s p of
        None \<Rightarrow> Inl (DdkFail ''Invalid dispatch object'')
      | Some ob \<Rightarrow> if dtype ob = NoType \<or> dh ob = 0 then Inl (DdkFail ''Invalid dispatch object'') else Inr (ob, s))"

fun GetHandles :: "nat list \<Rightarrow> (nat list, DISP) st" where
  "GetHandles [] = ret []"
| "GetHandles (p # ps) = bindS (GetDispatch p) (\<lambda>ob. bindS (GetHandles ps) (\<lambda>hs. ret (dh ob # hs)))"

definition UpdateWaited :: "nat \<Rightarrow> nat \<Rightarrow> (unit, DISP) st" where
  "UpdateWaited t p =
     bindS (dobj p) (\<lambda>ob.
     if dtype ob = SemaphoreType then DdkUpdateSemaphore p
     else if dtype ob = MutexType then DdkUpdateMutex t p else ret ())"

fun UpdateAll :: "nat \<Rightarrow> nat list \<Rightarrow> (unit, DISP) st" where
  "UpdateAll t [] = ret ()"
| "UpdateAll t (p # ps) = bindS (UpdateWaited t p) (\<lambda>_. UpdateAll t ps)"

definition WaitStatus :: "nat \<Rightarrow> nat list \<Rightarrow> bool \<Rightarrow> nat \<Rightarrow> (NTSTATUS, DISP) st" where
  "WaitStatus t ps wait_all rc =
     (if rc < MAXIMUM_WAIT_OBJECTS
      then bindS (if wait_all then UpdateAll t ps else if rc < length ps then UpdateWaited t (ps ! rc) else ret ()) (\<lambda>_.
           ret (of_nat rc))
      else if rc = WAIT_TIMEOUT then ret STATUS_TIMEOUT
      else if rc = WAIT_IO_COMPLETION then ret STATUS_ALERTED
      else ret STATUS_UNSUCCESSFUL)"

text \<open>
  The timeout in milliseconds: relative when it is not positive, otherwise a point in time.  The cast keeps 32 bits.  (The negation
  overflows for the least LONGLONG, which is not a timeout here.)
\<close>

definition DdkGetWaitTime :: "int option \<Rightarrow> (nat, DISP) st" where
  "DdkGetWaitTime Timeout =
     (case Timeout of
        None \<Rightarrow> ret INFINITE
      | Some q \<Rightarrow>
          if q \<le> 0 then ret (nat ((- q) div 10000 mod 2 ^ 32))
          else bindS (gets now) (\<lambda>v.
               if v > q then ret 0
               else if (q - v) div 10000 \<ge> 2 ^ 32 then fail (DdkFail ''Wait timeout is too large'')
               else ret (nat ((q - v) div 10000))))"

definition DdkGetDelayTime :: "int option \<Rightarrow> (nat, DISP) st" where
  "DdkGetDelayTime Timeout =
     (if Timeout = None then fail (DdkFail ''Timeout is zero pointer'') else DdkGetWaitTime Timeout)"

definition KeWaitForMultipleObjects :: "nat \<Rightarrow> nat list \<Rightarrow> bool \<Rightarrow> int option \<Rightarrow> bool \<Rightarrow> (NTSTATUS, DISP) st" where
  "KeWaitForMultipleObjects t ps wait_all Timeout WaitBlockArray =
     (if length ps > (if WaitBlockArray then MAXIMUM_WAIT_OBJECTS else ThreadWaitObjects) then fail (BugCheck 0xC)
      else
        bindS (GetHandles ps) (\<lambda>hs.
        bindS (gets nullevent) (\<lambda>n.
        bindS (DdkGetWaitTime Timeout) (\<lambda>timeout.
        bindS (WaitForMultipleObjects t (if length hs = 1 \<and> n \<noteq> 0 then hs @ [n] else hs) wait_all timeout) (\<lambda>rc.
        WaitStatus t ps wait_all rc)))))"

definition KeWaitForSingleObject :: "nat \<Rightarrow> nat \<Rightarrow> int option \<Rightarrow> (NTSTATUS, DISP) st" where
  "KeWaitForSingleObject t p Timeout = KeWaitForMultipleObjects t [p] False Timeout False"

definition KeDelayExecutionThread :: "nat \<Rightarrow> int option \<Rightarrow> (NTSTATUS, DISP) st" where
  "KeDelayExecutionThread t Interval =
     bindS (max_irql t APC_LEVEL ''KeGetCurrentIrql() <= APC_LEVEL'') (\<lambda>_.
     bindS (DdkGetDelayTime Interval) (\<lambda>ms. if ms = INFINITE then fail Waits else ret STATUS_SUCCESS))"


section \<open>The invariant\<close>

text \<open>
  What an object of the driver and the object of Windows behind it have in common.  The count of a semaphore of which a release was refused
  (\<open>off\<close>) is no copy any more.
\<close>

fun mirrors :: "bool \<Rightarrow> DOBJ \<Rightarrow> HOBJ \<Rightarrow> bool" where
  "mirrors off ob (HEvent manual b) = (dtype ob = EventType \<and> manual = notify ob)"
| "mirrors off ob (HSemaphore c limit) = (dtype ob = SemaphoreType \<and> (off \<or> dcount ob = c) \<and> 0 \<le> c \<and> c \<le> limit \<and> limit < 2 ^ 31)"
| "mirrors off ob (HMutex own r) =
     (dtype ob = MutexType \<and> threadid ob = own \<and> dcount ob = wrap32 (int r) \<and> r \<le> 2 ^ 31 + 1 \<and> (own = 0 \<longleftrightarrow> r = 0))"

definition wf_dobj :: "nat set \<Rightarrow> DISP \<Rightarrow> nat \<Rightarrow> DOBJ \<Rightarrow> bool" where
  "wf_dobj D s p ob = (case handles s (dh ob) of None \<Rightarrow> False | Some v \<Rightarrow> mirrors (p \<in> D) ob v)"

definition wf_disp :: "nat set \<Rightarrow> DISP \<Rightarrow> bool" where
  "wf_disp D s \<longleftrightarrow>
     (\<forall>p ob. dobjs s p = Some ob \<longrightarrow> wf_dobj D s p ob) \<and>
     (\<forall>p q a b. dobjs s p = Some a \<longrightarrow> dobjs s q = Some b \<longrightarrow> dh a = dh b \<longrightarrow> p = q) \<and>
     (\<forall>p ob. dobjs s p = Some ob \<longrightarrow> nullevent s \<noteq> 0 \<longrightarrow> dh ob \<noteq> nullevent s) \<and>
     (nullevent s \<noteq> 0 \<longrightarrow> handles s (nullevent s) = Some (HEvent False False)) \<and>
     handles s 0 = None \<and> 0 < next_handle s \<and> (\<forall>h v. handles s h = Some v \<longrightarrow> h < next_handle s)"

text \<open>
  The states that calls of the routines by any threads lead to from a start with no objects.  \<open>D\<close> are the semaphores of which a
  release was refused since they were initialised.
\<close>

inductive dreach :: "nat set \<Rightarrow> DISP \<Rightarrow> bool" where
  start: "dobjs s = Map.empty \<Longrightarrow> handles s = Map.empty \<Longrightarrow> next_handle s \<noteq> 0 \<Longrightarrow> nullevent s = 0 \<Longrightarrow>
    DdkWaitInit s = Inr (u, s') \<Longrightarrow> dreach {} s'"
| init_event: "dreach D s \<Longrightarrow> KeInitializeEvent p notification state s = Inr (u, s') \<Longrightarrow> dreach (D - {p}) s'"
| init_semaphore: "dreach D s \<Longrightarrow> Limit < 2 ^ 31 \<Longrightarrow> KeInitializeSemaphore t p Count Limit s = Inr (u, s') \<Longrightarrow> dreach (D - {p}) s'"
| init_mutex: "dreach D s \<Longrightarrow> KeInitializeMutex p s = Inr (u, s') \<Longrightarrow> dreach (D - {p}) s'"
| set_event: "dreach D s \<Longrightarrow> dobjs s p = Some ob \<Longrightarrow> dtype ob = EventType \<Longrightarrow> KeSetEvent t p Wait s = Inr (r, s') \<Longrightarrow> dreach D s'"
| reset_event: "dreach D s \<Longrightarrow> dobjs s p = Some ob \<Longrightarrow> dtype ob = EventType \<Longrightarrow> KeResetEvent t p s = Inr (r, s') \<Longrightarrow> dreach D s'"
| clear_event: "dreach D s \<Longrightarrow> dobjs s p = Some ob \<Longrightarrow> dtype ob = EventType \<Longrightarrow> KeClearEvent t p s = Inr (u, s') \<Longrightarrow> dreach D s'"
| release_semaphore: "dreach D s \<Longrightarrow> dobjs s p = Some ob \<Longrightarrow> dtype ob = SemaphoreType \<Longrightarrow>
    KeReleaseSemaphore t p n Wait s = Inr (Inr b, s') \<Longrightarrow> dreach D s'"
| release_refused: "dreach D s \<Longrightarrow> dobjs s p = Some ob \<Longrightarrow> dtype ob = SemaphoreType \<Longrightarrow>
    KeReleaseSemaphore t p n Wait s = Inr (Inl code, s') \<Longrightarrow> dreach (insert p D) s'"
| release_mutex: "dreach D s \<Longrightarrow> dobjs s p = Some ob \<Longrightarrow> dtype ob = MutexType \<Longrightarrow> t \<noteq> 0 \<Longrightarrow>
    KeReleaseMutex t p s = Inr (r, s') \<Longrightarrow> dreach D s'"
| wait: "dreach D s \<Longrightarrow> t \<noteq> 0 \<Longrightarrow> KeWaitForMultipleObjects t ps wait_all Timeout wb s = Inr (st, s') \<Longrightarrow> dreach D s'"
| irql_change: "dreach D s \<Longrightarrow> dreach D (s\<lparr>lvl := l\<rparr>)"
| time_passes: "dreach D s \<Longrightarrow> dreach D (s\<lparr>now := v\<rparr>)"

text \<open>The effect of a satisfied wait: what it waited for is taken, in Windows and in the copy.\<close>

definition after_wait :: "nat \<Rightarrow> DOBJ \<Rightarrow> DOBJ" where
  "after_wait t ob =
     (if dtype ob = SemaphoreType then ob\<lparr>dcount := wrap32 (dcount ob - 1)\<rparr>
      else if dtype ob = MutexType
      then if threadid ob \<noteq> t then ob\<lparr>threadid := t, dcount := 1\<rparr> else ob\<lparr>dcount := wrap32 (dcount ob + 1)\<rparr>
      else ob)"

definition handle_of :: "DISP \<Rightarrow> nat \<Rightarrow> nat" where
  "handle_of s p = (case dobjs s p of None \<Rightarrow> 0 | Some ob \<Rightarrow> dh ob)"

definition acquire :: "nat \<Rightarrow> nat list \<Rightarrow> DISP \<Rightarrow> DISP" where
  "acquire t ps s =
     s\<lparr>handles := (\<lambda>h. if h \<in> handle_of s ` set ps then map_option (consume t) (handles s h) else handles s h),
       dobjs := (\<lambda>p. if p \<in> set ps then map_option (after_wait t) (dobjs s p) else dobjs s p)\<rparr>"

definition ready :: "DISP \<Rightarrow> nat \<Rightarrow> nat \<Rightarrow> bool" where
  "ready s t p = is_signalled s t (handle_of s p)"

definition exhausted :: "DISP \<Rightarrow> nat \<Rightarrow> nat \<Rightarrow> bool" where
  "exhausted s t p = limit_reached s t (handle_of s p)"

text \<open>The specification of a wait: the first of the objects that is ready, or all of them at once.\<close>

definition wait_spec :: "nat \<Rightarrow> nat list \<Rightarrow> bool \<Rightarrow> nat \<Rightarrow> (NTSTATUS, DISP) st" where
  "wait_spec t ps wait_all ms s =
     (let waits = (if ms = INFINITE then Inl Waits else Inr (STATUS_TIMEOUT, s))
      in if wait_all
         then if \<not> distinct ps then Inr (STATUS_UNSUCCESSFUL, s)
              else if \<forall>p \<in> set ps. ready s t p
              then if \<exists>p \<in> set ps. exhausted s t p then Inr (STATUS_UNSUCCESSFUL, s) else Inr (STATUS_SUCCESS, acquire t ps s)
              else waits
         else case List.find (\<lambda>i. ready s t (ps ! i)) [0..<length ps] of
                None \<Rightarrow> waits
              | Some i \<Rightarrow> if exhausted s t (ps ! i) then Inr (STATUS_UNSUCCESSFUL, s) else Inr (of_nat i, acquire t [ps ! i] s))"

section \<open>Lemmas\<close>

lemma wrap32_add: "wrap32 (wrap32 a + b) = wrap32 (a + b)"
  by (simp add: wrap32_def)

lemma wrap32_eq_0_iff: "wrap32 (int r) = 0 \<longleftrightarrow> r mod 2 ^ 32 = 0"
proof -
  have "wrap32 (int r) = 0 \<longleftrightarrow> (of_nat r :: LONG) = 0"
    by (simp only: wrap32_def of_int_of_nat_eq signed_eq_0_iff)
  also have "\<dots> \<longleftrightarrow> r mod 2 ^ 32 = 0"
    by (simp add: word_of_nat_eq_0_iff dvd_eq_mod_eq_0)
  finally show ?thesis .
qed

lemma wf_objD:
  assumes "wf_disp D s" "dobjs s p = Some ob"
  obtains v where "handles s (dh ob) = Some v" "mirrors (p \<in> D) ob v" "dh ob \<noteq> 0" "dh ob < next_handle s"
proof -
  have "wf_dobj D s p ob" "handles s 0 = None" using assms unfolding wf_disp_def by blast+
  then obtain v where v: "handles s (dh ob) = Some v" "mirrors (p \<in> D) ob v"
    by (auto simp: wf_dobj_def split: option.splits)
  moreover have "dh ob \<noteq> 0" using v(1) \<open>handles s 0 = None\<close> by (metis option.distinct(1))
  moreover have "dh ob < next_handle s" using assms(1) v(1) unfolding wf_disp_def by blast
  ultimately show thesis by (rule that)
qed

lemma wf_injD: "wf_disp D s \<Longrightarrow> dobjs s p = Some a \<Longrightarrow> dobjs s q = Some b \<Longrightarrow> dh a = dh b \<Longrightarrow> p = q"
  unfolding wf_disp_def by blast

lemma wf_nulleventD:
  "wf_disp D s \<Longrightarrow> dobjs s p = Some ob \<Longrightarrow> nullevent s \<noteq> 0 \<Longrightarrow> dh ob \<noteq> nullevent s"
  unfolding wf_disp_def by blast

lemma mirrors_type: "mirrors off ob v \<Longrightarrow> dtype ob \<noteq> NoType"
  by (cases v) auto

text \<open>The object behind an object of a given type.\<close>

lemma wf_eventD:
  assumes "wf_disp D s" "dobjs s p = Some ob" "dtype ob = EventType"
  obtains b where "handles s (dh ob) = Some (HEvent (notify ob) b)"
proof -
  obtain v where "handles s (dh ob) = Some v" "mirrors (p \<in> D) ob v" by (rule wf_objD [OF assms(1,2)])
  with assms(3) that show thesis by (cases v) auto
qed

lemma wf_semaphoreD:
  assumes "wf_disp D s" "dobjs s p = Some ob" "dtype ob = SemaphoreType"
  obtains c limit where "handles s (dh ob) = Some (HSemaphore c limit)" "0 \<le> c" "c \<le> limit" "limit < 2 ^ 31" "p \<notin> D \<Longrightarrow> dcount ob = c"
proof -
  obtain v where "handles s (dh ob) = Some v" "mirrors (p \<in> D) ob v" by (rule wf_objD [OF assms(1,2)])
  with assms(3) that show thesis by (cases v) auto
qed

lemma wf_mutexD:
  assumes "wf_disp D s" "dobjs s p = Some ob" "dtype ob = MutexType"
  obtains r where "handles s (dh ob) = Some (HMutex (threadid ob) r)" "dcount ob = wrap32 (int r)" "r \<le> 2 ^ 31 + 1"
    "threadid ob = 0 \<longleftrightarrow> r = 0"
proof -
  obtain v where "handles s (dh ob) = Some v" "mirrors (p \<in> D) ob v" by (rule wf_objD [OF assms(1,2)])
  with assms(3) that show thesis by (cases v) auto
qed

text \<open>The invariant after a change of one object and its handle, and after a new object.\<close>

lemma wf_update:
  assumes "wf_disp D s" "dobjs s p = Some ob" "dh ob' = dh ob" "mirrors (p \<in> D) ob' v"
  shows "wf_disp D (s\<lparr>handles := (handles s)(dh ob \<mapsto> v), dobjs := (dobjs s)(p \<mapsto> ob')\<rparr>)"
proof -
  have *: "dh b \<noteq> dh ob" if "dobjs s q = Some b" "q \<noteq> p" for q b
    using wf_injD [OF assms(1) that(1) assms(2)] that(2) by blast
  obtain v0 where "dh ob \<noteq> 0" "dh ob < next_handle s" by (rule wf_objD [OF assms(1,2)])
  then show ?thesis
    using assms(1,3,4) * wf_nulleventD [OF assms(1,2)] assms(2) unfolding wf_disp_def wf_dobj_def
    by (simp add: all_conj_distrib imp_conjR) metis
qed

lemma wf_handle:
  assumes "wf_disp D s" "dobjs s p = Some ob" "mirrors (p \<in> D) ob v"
  shows "wf_disp D (s\<lparr>handles := (handles s)(dh ob \<mapsto> v)\<rparr>)"
proof -
  have "(dobjs s)(p \<mapsto> ob) = dobjs s" using assms(2) by auto
  then show ?thesis using wf_update [OF assms(1,2) refl assms(3)] by (cases s) simp
qed

lemma wf_new:
  assumes "wf_disp D s" "mirrors False ob v" "dh ob = next_handle s"
    and s': "s' = s\<lparr>dobjs := (dobjs s)(p \<mapsto> ob), handles := (handles s)(next_handle s \<mapsto> v), next_handle := next_handle s + 1,
      handles_left := n\<rparr>"
  shows "wf_disp (D - {p}) s'"
proof -
  have *: "dh b < next_handle s" if "dobjs s q = Some b" for q b
    by (rule wf_objD [OF assms(1) that])
  have "nullevent s \<noteq> next_handle s" 
    using assms(1) unfolding wf_disp_def by (metis less_irrefl)
  then show ?thesis
    using assms(1-3) * unfolding wf_disp_def wf_dobj_def s'
    apply (intro conjI)
          apply (auto split: if_splits option.splits dest: less_imp_neq)
      apply (metis less_irrefl option.distinct(1) | metis less_irrefl | metis less_Suc_eq)+
    done
qed

text \<open>Evaluation of the steps of a wait.\<close>

lemma handle_of_Some [simp]: "dobjs s p = Some ob \<Longrightarrow> handle_of s p = dh ob"
  by (simp add: handle_of_def)

lemma dobj_Some [simp]: "dobjs s p = Some ob \<Longrightarrow> dobj p s = Inr (ob, s)"
  by (simp add: dobj_def)

lemma set_dobj_Some [simp]: "dobjs s p = Some ob \<Longrightarrow> set_dobj p f s = Inr ((), s\<lparr>dobjs := (dobjs s)(p \<mapsto> f ob)\<rparr>)"
  by (simp add: set_dobj_def bindS_def)

lemma GetDispatch_wf:
  assumes "wf_disp D s" "dobjs s p = Some ob"
  shows "GetDispatch p s = Inr (ob, s)"
proof -
  obtain v where "mirrors (p \<in> D) ob v" "dh ob \<noteq> 0" by (rule wf_objD [OF assms])
  with assms(2) show ?thesis by (simp add: GetDispatch_def mirrors_type)
qed

lemma GetHandles_wf:
  assumes "wf_disp D s" "set ps \<subseteq> dom (dobjs s)"
  shows "GetHandles ps s = Inr (map (handle_of s) ps, s)"
  using assms(2)
proof (induction ps)
  case (Cons p ps)
  then obtain ob where "dobjs s p = Some ob" by auto
  with Cons GetDispatch_wf [OF assms(1) this] show ?case by (simp add: bindS_def)
qed simp

lemma UpdateWaited_eq:
  assumes "dobjs s p = Some ob"
  shows "UpdateWaited t p s = Inr ((), s\<lparr>dobjs := (dobjs s)(p \<mapsto> after_wait t ob)\<rparr>)"
proof -
  have "s = s\<lparr>dobjs := (dobjs s)(p \<mapsto> ob)\<rparr>" using assms by (cases s) auto
  then show ?thesis using assms
    by (auto simp: UpdateWaited_def bindS_def DdkUpdateSemaphore_def DdkUpdateMutex_def after_wait_def)
qed

lemma UpdateAll_eq:
  assumes "distinct ps" "set ps \<subseteq> dom (dobjs s)"
  shows "UpdateAll t ps s = Inr ((), s\<lparr>dobjs := (\<lambda>p. if p \<in> set ps then map_option (after_wait t) (dobjs s p) else dobjs s p)\<rparr>)"
  using assms
proof (induction ps arbitrary: s)
  case (Cons p ps)
  then obtain ob where ob: "dobjs s p = Some ob" by auto
  have "set ps \<subseteq> dom (dobjs (s\<lparr>dobjs := (dobjs s)(p \<mapsto> after_wait t ob)\<rparr>))" using Cons.prems(2) by auto
  with Cons.IH [OF _ this] Cons.prems(1) show ?case
    by (auto simp: bindS_def UpdateWaited_eq [OF ob] ob intro!: arg_cong [where f = "\<lambda>x. s\<lparr>dobjs := x\<rparr>"])
qed simp

lemma fold_consume_eq:
  assumes "distinct hs"
  shows "fold (consume_handle t) hs s =
    s\<lparr>handles := (\<lambda>h. if h \<in> set hs then map_option (consume t) (handles s h) else handles s h)\<rparr>"
  using assms
proof (induction hs arbitrary: s)
  case (Cons h hs)
  then show ?case
    by (auto simp: consume_handle_def intro!: arg_cong [where f = "\<lambda>x. s\<lparr>handles := x\<rparr>"])
qed simp

lemma handle_of_inj:
  assumes "wf_disp D s" "set ps \<subseteq> dom (dobjs s)"
  shows "inj_on (handle_of s) (set ps)"
proof (rule inj_onI)
  fix p q
  assume pq: "p \<in> set ps" "q \<in> set ps" "handle_of s p = handle_of s q"
  then obtain a b where "dobjs s p = Some a" "dobjs s q = Some b" using assms(2) by blast
  with pq(3) wf_injD [OF assms(1) this] show "p = q" by simp
qed

lemma mirrors_consume:
  assumes "mirrors off ob v" "signalled t v" "\<not> at_limit t v" "t \<noteq> 0"
  shows "mirrors off (after_wait t ob) (consume t v)"
proof (cases v)
  case (HMutex own r)
  then show ?thesis
    using assms by (auto simp: after_wait_def wrap32_add wrap32_small add.commute [of 1])
next
  case (HSemaphore c limit)
  then show ?thesis using assms by (auto simp: after_wait_def wrap32_small)
qed (use assms in \<open>auto simp: after_wait_def\<close>)

lemma after_wait_dh [simp]: "dh (after_wait t ob) = dh ob"
  by (simp add: after_wait_def)

lemma wf_acquire:
  assumes wf: "wf_disp D s" and ps: "set ps \<subseteq> dom (dobjs s)" and t: "t \<noteq> 0"
    and ok: "\<And>p. p \<in> set ps \<Longrightarrow> ready s t p \<and> \<not> exhausted s t p"
  shows "wf_disp D (acquire t ps s)"
proof -
  let ?a = "acquire t ps s"
  have obj: "\<exists>ob0. dobjs s p = Some ob0 \<and> dh ob = dh ob0 \<and> wf_dobj D ?a p ob" if "dobjs ?a p = Some ob" for p ob
  proof (cases "p \<in> set ps")
    case True
    with that obtain ob0 where ob0: "dobjs s p = Some ob0" "ob = after_wait t ob0" by (auto simp: acquire_def)
    obtain v where v: "handles s (dh ob0) = Some v" "mirrors (p \<in> D) ob0 v" by (rule wf_objD [OF wf ob0(1)])
    have "mirrors (p \<in> D) (after_wait t ob0) (consume t v)"
      using ok [OF True] ob0 v t
      by (intro mirrors_consume) (simp_all add: ready_def exhausted_def is_signalled_def limit_reached_def)
    moreover have "dh ob0 \<in> handle_of s ` set ps" using True ob0(1) by (auto intro: rev_image_eqI)
    ultimately show ?thesis using ob0 v by (simp add: wf_dobj_def acquire_def)
  next
    case False
    with that have ob: "dobjs s p = Some ob" by (simp add: acquire_def)
    have "dh ob \<notin> handle_of s ` set ps"
    proof
      assume "dh ob \<in> handle_of s ` set ps"
      then obtain q where q: "q \<in> set ps" "dh ob = handle_of s q" by blast
      with ps obtain b where "dobjs s q = Some b" by blast
      with q wf_injD [OF wf ob this] False show False by simp
    qed
    then show ?thesis using ob wf unfolding wf_disp_def wf_dobj_def by (simp add: acquire_def)
  qed
  have "nullevent s \<notin> handle_of s ` set ps" if "nullevent s \<noteq> 0"
  proof
    assume "nullevent s \<in> handle_of s ` set ps"
    then obtain q where q: "q \<in> set ps" "nullevent s = handle_of s q" by blast
    with ps obtain b where "dobjs s q = Some b" by blast
    with q wf_nulleventD [OF wf this that] show False by simp
  qed
  moreover have "(\<forall>p q a b. dobjs ?a p = Some a \<longrightarrow> dobjs ?a q = Some b \<longrightarrow> dh a = dh b \<longrightarrow> p = q)"
    using obj wf_injD [OF wf] by (metis (no_types))
  moreover have "(\<forall>p ob. dobjs ?a p = Some ob \<longrightarrow> nullevent s \<noteq> 0 \<longrightarrow> dh ob \<noteq> nullevent s)"
    using obj wf_nulleventD [OF wf] by (metis (no_types))
  moreover have "\<forall>h v. handles ?a h = Some v \<longrightarrow> h < next_handle s"
    using wf unfolding wf_disp_def acquire_def by (auto split: if_splits)
  moreover have "handles ?a 0 = None" using wf unfolding wf_disp_def acquire_def by simp
  moreover have "\<forall>p ob. dobjs ?a p = Some ob \<longrightarrow> wf_dobj D ?a p ob" using obj by blast
  ultimately show ?thesis using wf unfolding wf_disp_def by (simp add: acquire_def)
qed

lemma find_upt_cong:
  "(\<And>i. i < n \<Longrightarrow> P i = Q i) \<Longrightarrow> List.find P [0..<n] = List.find Q [0..<n]"
  by (rule find_cong) auto

lemma find_upt_Some: "List.find P [0..<n] = Some i \<longleftrightarrow> i < n \<and> P i \<and> (\<forall>j < i. \<not> P j)"
proof
  assume "List.find P [0..<n] = Some i"
  then obtain k where "k < n" "P k" "i = k" "\<forall>j < k. \<not> P j"
    by (auto simp: find_Some_iff)
  then show "i < n \<and> P i \<and> (\<forall>j < i. \<not> P j)" by simp
qed (auto simp: find_Some_iff intro!: exI [of _ i])

lemma find_upt_Suc:
  assumes "\<not> P n"
  shows "List.find P [0..<Suc n] = List.find P [0..<n]"
proof (cases "List.find P [0..<n]")
  case None
  then have "List.find P [0..<Suc n] = None" using assms by (auto simp: find_None_iff less_Suc_eq simp del: upt_Suc)
  with None show ?thesis by simp
next
  case (Some i)
  then have "List.find P [0..<Suc n] = Some i" by (simp add: find_upt_Some del: upt_Suc)
  with Some show ?thesis by simp
qed

text \<open>What the list of handles, with the event that never becomes signalled, does in a wait for one of them.\<close>

lemma nullevent_not_signalled: "wf_disp D s \<Longrightarrow> nullevent s \<noteq> 0 \<Longrightarrow> \<not> is_signalled s t (nullevent s)"
  by (auto simp: wf_disp_def is_signalled_def)

lemma WaitAny_handles:
  assumes "wf_disp D s" "ps \<noteq> []"
  shows "WaitForMultipleObjects t (if length ps = 1 \<and> nullevent s \<noteq> 0 then map (handle_of s) ps @ [nullevent s] else map (handle_of s) ps)
      False ms s =
    (case List.find (\<lambda>i. ready s t (ps ! i)) [0..<length ps] of
       Some i \<Rightarrow> if exhausted s t (ps ! i) then Inr (WAIT_FAILED, s) else Inr (i, consume_handle t (handle_of s (ps ! i)) s)
     | None \<Rightarrow> if ms = INFINITE then Inl Waits else Inr (WAIT_TIMEOUT, s))"
proof -
  have *: "List.find (\<lambda>i. is_signalled s t ((map (handle_of s) ps @ xs) ! i)) [0..<length ps] =
      List.find (\<lambda>i. ready s t (ps ! i)) [0..<length ps]" for xs
    by (rule find_upt_cong) (simp add: ready_def nth_append)
  have nth: "(map (handle_of s) ps @ xs) ! i = handle_of s (ps ! i)"
    if "List.find (\<lambda>i. ready s t (ps ! i)) [0..<length ps] = Some i" for i xs
    using that by (simp add: find_upt_Some nth_append)
  show ?thesis
  proof (cases "length ps = 1 \<and> nullevent s \<noteq> 0")
    case True
    then have "\<not> is_signalled s t ((map (handle_of s) ps @ [nullevent s]) ! length ps)"
      using nullevent_not_signalled [OF assms(1)] by (simp add: nth_append)
    from find_upt_Suc [of "\<lambda>i. is_signalled s t ((map (handle_of s) ps @ [nullevent s]) ! i)", OF this] * [of "[nullevent s]"] nth [of _ "[nullevent s]"] True show ?thesis
      by (auto simp: WaitForMultipleObjects_def exhausted_def simp del: upt_Suc split: option.splits)
  next
    case False
    then show ?thesis using * [of "[]"] nth [of _ "[]"] assms(2)
      by (auto simp: WaitForMultipleObjects_def exhausted_def split: option.splits)
  qed
qed

lemma acquire_all:
  assumes "wf_disp D s" "distinct ps" "set ps \<subseteq> dom (dobjs s)"
  shows "UpdateAll t ps (fold (consume_handle t) (map (handle_of s) ps) s) = Inr ((), acquire t ps s)"
proof -
  let ?f = "fold (consume_handle t) (map (handle_of s) ps) s"
  have "distinct (map (handle_of s) ps)" using assms by (simp add: distinct_map handle_of_inj)
  note f = fold_consume_eq [OF this, of t s]
  have d: "dobjs ?f = dobjs s" by (simp only: f) simp
  show ?thesis using UpdateAll_eq [OF assms(2), of ?f t] assms(3) by (simp only: d) (simp add: f acquire_def)
qed

lemma acquire_one:
  assumes "wf_disp D s" "dobjs s p = Some ob"
  shows "UpdateWaited t p (consume_handle t (handle_of s p) s) = Inr ((), acquire t [p] s)"
proof -
  have "p \<in> dom (dobjs s)" using assms(2) by auto
  with acquire_all [of D s "[p]" t] assms(1) have "bindS (UpdateWaited t p) (\<lambda>_. ret ()) (consume_handle t (handle_of s p) s) = Inr ((), acquire t [p] s)"
    by simp
  then show ?thesis by (auto simp: bindS_eq_Inr_iff)
qed

lemma wait_any_eq:
  assumes "wf_disp D s" "set ps \<subseteq> dom (dobjs s)" "ps \<noteq> []" "length ps \<le> (if wb then MAXIMUM_WAIT_OBJECTS else ThreadWaitObjects)"
    and "DdkGetWaitTime Timeout s = Inr (ms, s)"
  shows "KeWaitForMultipleObjects t ps False Timeout wb s = wait_spec t ps False ms s"
proof (cases "List.find (\<lambda>i. ready s t (ps ! i)) [0..<length ps]")
  case None
  with assms GetHandles_wf [OF assms(1,2)] WaitAny_handles [OF assms(1,3), of t ms] show ?thesis
    by (simp add: KeWaitForMultipleObjects_def bindS_def WaitStatus_def wait_spec_def)
next
  case (Some i)
  then have i: "i < length ps" by (simp add: find_upt_Some)
  then obtain ob where ob: "dobjs s (ps ! i) = Some ob" using assms(2) nth_mem by blast
  have "length ps \<le> MAXIMUM_WAIT_OBJECTS" using assms(4) by (auto split: if_splits)
  with i Some assms GetHandles_wf [OF assms(1,2)] WaitAny_handles [OF assms(1,3), of t ms] acquire_one [OF assms(1) ob] show ?thesis
    by (simp add: KeWaitForMultipleObjects_def bindS_def WaitStatus_def wait_spec_def)
qed

lemma WaitAll_eq:
  assumes "wf_disp D s" "set ps \<subseteq> dom (dobjs s)" "ps \<noteq> []"
  shows "WaitForMultipleObjects t (map (handle_of s) ps) True ms s =
    (if \<not> distinct ps then Inr (WAIT_FAILED, s)
     else if \<forall>p \<in> set ps. ready s t p
     then if \<exists>p \<in> set ps. exhausted s t p then Inr (WAIT_FAILED, s) else Inr (0, fold (consume_handle t) (map (handle_of s) ps) s)
     else if ms = INFINITE then Inl Waits else Inr (WAIT_TIMEOUT, s))"
  using assms handle_of_inj [OF assms(1,2)]
  by (simp add: WaitForMultipleObjects_def distinct_map ready_def exhausted_def)

lemma wait_all_eq:
  assumes "wf_disp D s" "set ps \<subseteq> dom (dobjs s)" "ps \<noteq> []" "length ps \<noteq> 1 \<or> nullevent s = 0"
    and "length ps \<le> (if wb then MAXIMUM_WAIT_OBJECTS else ThreadWaitObjects)" "DdkGetWaitTime Timeout s = Inr (ms, s)"
  shows "KeWaitForMultipleObjects t ps True Timeout wb s = wait_spec t ps True ms s"
proof -
  have *: "\<not> (length ps = 1 \<and> nullevent s \<noteq> 0)" using assms(4) by simp
  have "KeWaitForMultipleObjects t ps True Timeout wb s =
      bindS (WaitForMultipleObjects t (map (handle_of s) ps) True ms) (WaitStatus t ps True) s"
    using assms(5,6) * GetHandles_wf [OF assms(1,2)] by (auto simp: KeWaitForMultipleObjects_def bindS_def)
  also have "\<dots> = wait_spec t ps True ms s"
    using acquire_all [OF assms(1) _ assms(2), of t]
    by (simp add: bindS_def WaitAll_eq [OF assms(1,2,3)] WaitStatus_def wait_spec_def)
  finally show ?thesis .
qed

lemma wait_all_one_eq:
  assumes "wf_disp D s" "dobjs s p = Some ob" "nullevent s \<noteq> 0" "DdkGetWaitTime Timeout s = Inr (ms, s)"
  shows "KeWaitForMultipleObjects t [p] True Timeout wb s = (if ms = INFINITE then Inl Waits else Inr (STATUS_TIMEOUT, s))"
proof -
  have "dh ob \<noteq> nullevent s" using wf_nulleventD [OF assms(1-3)] .
  with assms nullevent_not_signalled [OF assms(1,3)] GetHandles_wf [OF assms(1), of "[p]"] show ?thesis
    by (auto simp: KeWaitForMultipleObjects_def bindS_def WaitForMultipleObjects_def WaitStatus_def domI)
qed

text \<open>A wait that returns was for objects there are, and either took them or changed nothing.\<close>

lemma GetHandles_Inr:
  "GetHandles ps s = Inr (hs, s') \<Longrightarrow> s' = s \<and> hs = map (handle_of s) ps \<and> set ps \<subseteq> dom (dobjs s)"
proof (induction ps arbitrary: hs)
  case (Cons p ps)
  then show ?case
    by (fastforce simp: bindS_eq_Inr_iff GetDispatch_def handle_of_def split: option.splits if_splits)
qed simp

lemma DdkGetWaitTime_state: "DdkGetWaitTime Timeout s = Inr (ms, s') \<Longrightarrow> s' = s"
  by (auto simp: DdkGetWaitTime_def split: option.splits if_splits)

lemma wait_spec_wf:
  assumes "wait_spec t ps wait_all ms s = Inr (st, s')" "wf_disp D s" "set ps \<subseteq> dom (dobjs s)" "t \<noteq> 0"
  shows "wf_disp D s'"
proof (cases wait_all)
  case True
  show ?thesis
  proof (cases "distinct ps \<and> (\<forall>p \<in> set ps. ready s t p) \<and> \<not> (\<exists>p \<in> set ps. exhausted s t p)")
    case ok: True
    with \<open>wait_all\<close> assms(1) have "s' = acquire t ps s" by (simp add: wait_spec_def)
    then show ?thesis using wf_acquire [OF assms(2-4)] ok by blast
  next
    case False
    with \<open>wait_all\<close> assms(1) have "s' = s" by (simp add: wait_spec_def Let_def split: if_split_asm)
    with assms(2) show ?thesis by simp
  qed
next
  case False
  then consider "s' = s"
    | i where "List.find (\<lambda>i. ready s t (ps ! i)) [0..<length ps] = Some i" "\<not> exhausted s t (ps ! i)" "s' = acquire t [ps ! i] s"
    using assms(1) by (auto simp: wait_spec_def Let_def split: if_splits option.splits)
  then show ?thesis
  proof cases
    case (2 i)
    then have "i < length ps" "ready s t (ps ! i)" by (simp_all add: find_upt_Some)
    then show ?thesis unfolding 2(3) using 2(2) assms(3) nth_mem by (intro wf_acquire [OF assms(2) _ assms(4)]) auto
  qed (simp add: assms(2))
qed

lemma KeWaitForMultipleObjects_wf:
  assumes "KeWaitForMultipleObjects t ps wait_all Timeout wb s = Inr (st, s')" "wf_disp D s" "t \<noteq> 0"
  shows "wf_disp D s'"
proof -
  have len: "length ps \<le> (if wb then MAXIMUM_WAIT_OBJECTS else ThreadWaitObjects)"
    using assms(1) by (auto simp: KeWaitForMultipleObjects_def split: if_splits)
  obtain ms where gh: "GetHandles ps s = Inr (map (handle_of s) ps, s)" "set ps \<subseteq> dom (dobjs s)"
      and ms: "DdkGetWaitTime Timeout s = Inr (ms, s)"
  proof -
    from assms(1) len obtain hs s1 s2 ms where hs: "GetHandles ps s = Inr (hs, s1)" "DdkGetWaitTime Timeout s1 = Inr (ms, s2)"
      unfolding KeWaitForMultipleObjects_def by (auto simp: bindS_eq_Inr_iff simp del: length_greater_0_conv split: if_splits)
    from GetHandles_Inr [OF this(1)] DdkGetWaitTime_state [OF this(2)] hs show thesis by (intro that) simp_all
  qed
  consider "ps = []" | "ps \<noteq> []" "\<not> wait_all" | "ps \<noteq> []" "wait_all" "length ps \<noteq> 1 \<or> nullevent s = 0"
    | "wait_all" "length ps = 1" "nullevent s \<noteq> 0" by blast
  then show ?thesis
  proof cases
    case 1
    with assms(1) ms have "s' = s"
      by (simp add: KeWaitForMultipleObjects_def bindS_def WaitForMultipleObjects_def WaitStatus_def)
    with assms(2) show ?thesis by simp
  next
    case 2
    with wait_any_eq [OF assms(2) gh(2) _ len ms] assms gh(2) show ?thesis by (auto intro: wait_spec_wf)
  next
    case 3
    with wait_all_eq [OF assms(2) gh(2) _ _ len ms] assms gh(2) show ?thesis by (auto intro: wait_spec_wf)
  next
    case 4
    then obtain p where "ps = [p]" by (auto simp: length_Suc_conv)
    with 4 wait_all_one_eq [OF assms(2) _ _ ms] assms(1,2) gh(2) show ?thesis by (auto split: if_splits)
  qed
qed

text \<open>Evaluation of the other routines on objects of a well-formed state.\<close>

abbreviation (input) set_handle :: "nat \<Rightarrow> HOBJ \<Rightarrow> DISP \<Rightarrow> DISP" where
  "set_handle h v s \<equiv> s\<lparr>handles := (handles s)(h \<mapsto> v)\<rparr>"

lemma set_handle_same: "handles s h = Some v \<Longrightarrow> set_handle h v s = s"
  by (cases s) auto

lemma put_event_eq [simp]: "handles s h = Some (HEvent m b0) \<Longrightarrow> put_event b h s = Inr ((), set_handle h (HEvent m b) s)"
  by (simp add: put_event_def)

lemma PollHandle_event [simp]:
  "handles s h = Some (HEvent m b) \<Longrightarrow> PollHandle t h s = Inr (b, set_handle h (HEvent m (m \<and> b)) s)"
  using set_handle_same [of s h "HEvent m False"]
  by (auto simp: PollHandle_def is_signalled_def limit_reached_def consume_handle_def)

lemma bindS_dispatch [simp]:
  "dobjs s p = Some ob \<Longrightarrow> bindS (dobj p) f s = f ob s"
  "dobjs s p = Some ob \<Longrightarrow> bindS (set_dobj p g) k s = k () (s\<lparr>dobjs := (dobjs s)(p \<mapsto> g ob)\<rparr>)"
  "handles s h = Some (HEvent m b0) \<Longrightarrow> bindS (put_event b h) k s = k () (set_handle h (HEvent m b) s)"
  "handles s h = Some (HEvent m b) \<Longrightarrow> bindS (PollHandle t h) l s = l b (set_handle h (HEvent m (m \<and> b)) s)"
  "handles s h = Some v \<Longrightarrow> bindS (ReleaseHandle h n) q s = (case ReleaseHandle h n s of Inl e \<Rightarrow> Inl e | Inr (r, s') \<Rightarrow> q r s')"
  "handles s h = Some v \<Longrightarrow> bindS (ReleaseMutexHandle t h) l s = (case ReleaseMutexHandle t h s of Inl e \<Rightarrow> Inl e | Inr (r, s') \<Rightarrow> l r s')"
  by (simp_all add: bindS_def)

lemmas event_defs = KeSetEvent_def KeResetEvent_def KeClearEvent_def KeReadStateEvent_def max_irql_def

lemma KeSetEvent_eq:
  assumes "wf_disp D s" "dobjs s p = Some ob" "handles s (dh ob) = Some (HEvent (notify ob) b)"
    and "lvl s t \<le> (if Wait then APC_LEVEL else DISPATCH_LEVEL)"
  shows "KeSetEvent t p Wait s = Inr (of_bool b, set_handle (dh ob) (HEvent (notify ob) True) s)"
  using assms(2-4) by (cases b; cases "notify ob") (auto simp: event_defs)

lemma KeResetEvent_eq:
  assumes "wf_disp D s" "dobjs s p = Some ob" "handles s (dh ob) = Some (HEvent (notify ob) b)" "lvl s t \<le> DISPATCH_LEVEL"
  shows "KeResetEvent t p s = Inr (of_bool b, set_handle (dh ob) (HEvent (notify ob) False) s)"
  using assms(2-4) by (cases b; cases "notify ob") (auto simp: event_defs)

lemma KeClearEvent_eq:
  assumes "dobjs s p = Some ob" "handles s (dh ob) = Some (HEvent (notify ob) b)" "lvl s t \<le> DISPATCH_LEVEL"
  shows "KeClearEvent t p s = Inr ((), set_handle (dh ob) (HEvent (notify ob) False) s)"
  using assms by (auto simp: event_defs)

lemma KeReadStateEvent_eq:
  assumes "dobjs s p = Some ob" "handles s (dh ob) = Some (HEvent (notify ob) b)" "lvl s t \<le> DISPATCH_LEVEL"
  shows "KeReadStateEvent t p s = Inr (b, s)"
  using assms set_handle_same [OF assms(2)] by (cases b; cases "notify ob") (auto simp: event_defs)

lemma KeReleaseSemaphore_eq:
  assumes "dobjs s p = Some ob" "handles s (dh ob) = Some (HSemaphore c limit)"
    and "lvl s t \<le> (if Wait then PASSIVE_LEVEL else DISPATCH_LEVEL)"
  shows "KeReleaseSemaphore t p n Wait s =
    (let s1 = s\<lparr>dobjs := (dobjs s)(p \<mapsto> ob\<lparr>dcount := wrap32 (dcount ob + n)\<rparr>)\<rparr>
     in if 0 < n \<and> c + n \<le> limit then Inr (Inr (c \<noteq> 0), s1\<lparr>handles := (handles s)(dh ob \<mapsto> HSemaphore (c + n) limit)\<rparr>)
        else Inr (Inl 0xC0000047, s1))"
  using assms by (auto simp: KeReleaseSemaphore_def max_irql_def ReleaseHandle_def)

lemma wrap32_owned:
  "wrap32 (wrap32 (1 + int n) - 1) = wrap32 (int n)" "n \<le> 2 ^ 31 \<Longrightarrow> wrap32 (int n) = 0 \<longleftrightarrow> n = 0"
  using wrap32_add [of "1 + int n" "- 1"] by (simp_all add: wrap32_eq_0_iff)

lemma KeReleaseMutex_eq:
  assumes "dobjs s p = Some ob" "handles s (dh ob) = Some (HMutex (threadid ob) r)" "dcount ob = wrap32 (int r)" "r \<le> 2 ^ 31 + 1"
    and "threadid ob = 0 \<longleftrightarrow> r = 0" "t \<noteq> 0" "lvl s t \<le> DISPATCH_LEVEL"
  shows "KeReleaseMutex t p s =
    (if threadid ob \<noteq> t then Inr (1, s)
     else if r = 1
     then Inr (0, s\<lparr>handles := (handles s)(dh ob \<mapsto> HMutex 0 0), dobjs := (dobjs s)(p \<mapsto> ob\<lparr>dcount := 0, threadid := 0\<rparr>)\<rparr>)
     else Inr (1, s\<lparr>handles := (handles s)(dh ob \<mapsto> HMutex t (r - 1)), dobjs := (dobjs s)(p \<mapsto> ob\<lparr>dcount := wrap32 (int (r - 1))\<rparr>)\<rparr>))"
proof (cases "threadid ob = t")
  case True
  with assms(5,6) obtain n where n: "r = Suc n" by (cases r) auto
  show ?thesis
    using True assms wrap32_owned(2) [of n]
    by (auto simp: n bindS_assoc wrap32_owned(1) KeReleaseMutex_def max_irql_def ReleaseMutexHandle_def)
next
  case False
  then show ?thesis using assms by (auto simp: KeReleaseMutex_def max_irql_def ReleaseMutexHandle_def)
qed

section \<open>Every routine keeps the invariant\<close>

lemma bindS_InitObject [simp]:
  "bindS (InitObject p) f s =
     f () (s\<lparr>dobjs := (dobjs s)(p \<mapsto> \<lparr>dtype = NoType, dh = 0, notify = False, threadid = 0, dcount = 0\<rparr>)\<rparr>)"
  by (simp add: InitObject_def)

lemma bindS_CreateHandle [simp]:
  "bindS (CreateHandle v) f s =
     (if handles_left s = 0 then f 0 s
      else f (next_handle s) (s\<lparr>handles := (handles s)(next_handle s \<mapsto> v), next_handle := next_handle s + 1,
             handles_left := handles_left s - 1\<rparr>))"
  by (simp add: CreateHandle_def bindS_def)

lemma KeInitializeEvent_wf:
  assumes "KeInitializeEvent p notification state s = Inr (u, s')" "wf_disp D s"
  shows "wf_disp (D - {p}) s'"
proof -
  have "s' = s\<lparr>dobjs := (dobjs s)(p \<mapsto> \<lparr>dtype = EventType, dh = next_handle s, notify = notification, threadid = 0, dcount = 0\<rparr>),
      handles := (handles s)(next_handle s \<mapsto> HEvent notification state), next_handle := next_handle s + 1,
      handles_left := handles_left s - 1\<rparr>"
    using assms(1) by (auto simp: KeInitializeEvent_def DdkInitEvent_def split: if_splits)
  then show ?thesis by (intro wf_new [OF assms(2)]) auto
qed

lemma KeInitializeSemaphore_wf:
  assumes "KeInitializeSemaphore t p Count Limit s = Inr (u, s')" "wf_disp D s" "Limit < 2 ^ 31"
  shows "wf_disp (D - {p}) s'"
proof -
  have "0 \<le> Count" "Count \<le> Limit" and
    "s' = s\<lparr>dobjs := (dobjs s)(p \<mapsto> \<lparr>dtype = SemaphoreType, dh = next_handle s, notify = False, threadid = 0, dcount = Count\<rparr>),
      handles := (handles s)(next_handle s \<mapsto> HSemaphore Count Limit), next_handle := next_handle s + 1,
      handles_left := handles_left s - 1\<rparr>"
    using assms(1) by (auto simp: KeInitializeSemaphore_def split: if_splits)
  with assms(3) show ?thesis by (intro wf_new [OF assms(2)]) auto
qed

lemma KeInitializeMutex_wf:
  assumes "KeInitializeMutex p s = Inr (u, s')" "wf_disp D s"
  shows "wf_disp (D - {p}) s'"
proof -
  have "s' = s\<lparr>dobjs := (dobjs s)(p \<mapsto> \<lparr>dtype = MutexType, dh = next_handle s, notify = False, threadid = 0, dcount = 0\<rparr>),
      handles := (handles s)(next_handle s \<mapsto> HMutex 0 0), next_handle := next_handle s + 1,
      handles_left := handles_left s - 1\<rparr>"
    using assms(1) by (auto simp: KeInitializeMutex_def split: if_splits)
  moreover have "wrap32 0 = 0" by (simp add: wrap32_small)
  ultimately show ?thesis by (intro wf_new [OF assms(2)]) auto
qed

lemma DdkWaitInit_wf:
  assumes "DdkWaitInit s = Inr (u, s')" "dobjs s = Map.empty" "handles s = Map.empty" "next_handle s \<noteq> 0" "nullevent s = 0"
  shows "wf_disp D s'"
  using assms by (auto simp: DdkWaitInit_def wf_disp_def split: if_splits)

lemma set_event_wf:
  assumes "wf_disp D s" "dobjs s p = Some ob" "dtype ob = EventType"
  shows "KeSetEvent t p Wait s = Inr (r, s') \<Longrightarrow> wf_disp D s'" "KeResetEvent t p s = Inr (r, s') \<Longrightarrow> wf_disp D s'"
    "KeClearEvent t p s = Inr (u, s') \<Longrightarrow> wf_disp D s'"
proof -
  obtain b where b: "handles s (dh ob) = Some (HEvent (notify ob) b)" by (rule wf_eventD [OF assms])
  have wf: "wf_disp D (set_handle (dh ob) (HEvent (notify ob) c) s)" for c
    using wf_handle [OF assms(1,2)] assms(3) by simp
  show "KeSetEvent t p Wait s = Inr (r, s') \<Longrightarrow> wf_disp D s'"
    using KeSetEvent_eq [OF assms(1,2) b] wf by (cases "lvl s t \<le> (if Wait then 1 else 2)") (auto simp: KeSetEvent_def max_irql_def)
  show "KeResetEvent t p s = Inr (r, s') \<Longrightarrow> wf_disp D s'"
    using KeResetEvent_eq [OF assms(1,2) b] wf by (cases "lvl s t \<le> 2") (auto simp: KeResetEvent_def max_irql_def)
  show "KeClearEvent t p s = Inr (u, s') \<Longrightarrow> wf_disp D s'"
    using KeClearEvent_eq [OF assms(2) b] wf by (cases "lvl s t \<le> 2") (auto simp: KeClearEvent_def max_irql_def)
qed

lemma wf_more: "wf_disp D s \<Longrightarrow> D \<subseteq> E \<Longrightarrow> wf_disp E s"
proof -
  assume wf: "wf_disp D s" and sub: "D \<subseteq> E"
  have "mirrors (p \<in> E) ob v" if "mirrors (p \<in> D) ob v" for p ob v using that sub by (cases v) auto
  then have "wf_dobj E s p ob" if "wf_dobj D s p ob" for p ob using that by (auto simp: wf_dobj_def split: option.splits)
  with wf show "wf_disp E s" unfolding wf_disp_def by blast
qed

lemma KeReleaseSemaphore_wf:
  assumes "wf_disp D s" "dobjs s p = Some ob" "dtype ob = SemaphoreType" "KeReleaseSemaphore t p n Wait s = Inr (r, s')"
  shows "wf_disp (if isl r then insert p D else D) s'"
proof -
  obtain c limit where l: "handles s (dh ob) = Some (HSemaphore c limit)" "0 \<le> c" "c \<le> limit" "limit < 2 ^ 31" "p \<notin> D \<Longrightarrow> dcount ob = c"
    by (rule wf_semaphoreD [OF assms(1-3)]) blast
  let ?ob = "ob\<lparr>dcount := wrap32 (dcount ob + n)\<rparr>"
  have "lvl s t \<le> (if Wait then 0 else 2)"
    using assms(4) by (auto simp: KeReleaseSemaphore_def max_irql_def split: if_splits)
  note eq = KeReleaseSemaphore_eq [OF assms(2) l(1) this, of n, unfolded Let_def]
  show ?thesis
  proof (cases "0 < n \<and> c + n \<le> limit")
    case True
    then have s': "r = Inr (c \<noteq> 0)" "s' = s\<lparr>handles := (handles s)(dh ob \<mapsto> HSemaphore (c + n) limit), dobjs := (dobjs s)(p \<mapsto> ?ob)\<rparr>"
      using eq assms(4) by auto
    have "wrap32 (c + n) = c + n" using True l by (intro wrap32_small) auto
    then have "mirrors (p \<in> D) ?ob (HSemaphore (c + n) limit)" using True l assms(3) by (cases "p \<in> D") auto
    then show ?thesis using s'(1) unfolding s'(2) by (simp only: sum.disc if_False) (rule wf_update [OF assms(1,2)], simp_all)
  next
    case False
    have same: "(handles s)(dh ob \<mapsto> HSemaphore c limit) = handles s" using l(1) by auto
    from False have s': "r = Inl 0xC0000047" "s' = s\<lparr>handles := (handles s)(dh ob \<mapsto> HSemaphore c limit), dobjs := (dobjs s)(p \<mapsto> ?ob)\<rparr>"
      using eq assms(4) by (auto simp: same)
    have wf: "wf_disp (insert p D) s" using wf_more [OF assms(1)] by blast
    have "mirrors (p \<in> insert p D) ?ob (HSemaphore c limit)" using l assms(3) by auto
    then show ?thesis using s'(1) unfolding s'(2) by (simp only: sum.disc if_True) (rule wf_update [OF wf assms(2)], simp_all)
  qed
qed

lemmas release_wf = KeReleaseSemaphore_wf [where r = "Inr b" for b, simplified] KeReleaseSemaphore_wf [where r = "Inl c" for c, simplified]

lemma KeReleaseMutex_wf:
  assumes "wf_disp D s" "dobjs s p = Some ob" "dtype ob = MutexType" "t \<noteq> 0" "KeReleaseMutex t p s = Inr (x, s')"
  shows "wf_disp D s'"
proof -
  obtain r where r: "handles s (dh ob) = Some (HMutex (threadid ob) r)" "dcount ob = wrap32 (int r)" "r \<le> 2 ^ 31 + 1"
    "threadid ob = 0 \<longleftrightarrow> r = 0" by (rule wf_mutexD [OF assms(1-3)])
  have "lvl s t \<le> 2" using assms(5) by (auto simp: KeReleaseMutex_def max_irql_def split: if_splits)
  note eq = KeReleaseMutex_eq [OF assms(2) r assms(4) this]
  have upd: "wf_disp D (s\<lparr>handles := (handles s)(dh ob \<mapsto> v), dobjs := (dobjs s)(p \<mapsto> ob')\<rparr>)"
    if "dh ob' = dh ob" "mirrors (p \<in> D) ob' v" for ob' v
    by (rule wf_update [OF assms(1,2) that])
  consider "threadid ob \<noteq> t" | "threadid ob = t" "r = 1" | "threadid ob = t" "r \<noteq> 1" by blast
  then show ?thesis
  proof cases
    case 1
    then have "s' = s" using eq assms(5) by simp
    with assms(1) show ?thesis by simp
  next
    case 2
    then have "s' = s\<lparr>handles := (handles s)(dh ob \<mapsto> HMutex 0 0), dobjs := (dobjs s)(p \<mapsto> ob\<lparr>dcount := 0, threadid := 0\<rparr>)\<rparr>"
      using eq assms(5) by simp
    then show ?thesis by (simp only:) (intro upd, simp_all add: assms(3) wrap32_small)
  next
    case 3
    then have "s' = s\<lparr>handles := (handles s)(dh ob \<mapsto> HMutex t (r - 1)), dobjs := (dobjs s)(p \<mapsto> ob\<lparr>dcount := wrap32 (int (r - 1))\<rparr>)\<rparr>"
      using eq assms(5) by simp
    moreover have "r - 1 \<le> 2 ^ 31 + 1" "0 < r - 1" using 3 assms(4) r(3,4) by auto
    then have "mirrors (p \<in> D) (ob\<lparr>dcount := wrap32 (int (r - 1))\<rparr>) (HMutex t (r - 1))"
      using 3 assms(3,4) by simp
    with upd [OF _ this] have "wf_disp D (s\<lparr>handles := (handles s)(dh ob \<mapsto> HMutex t (r - 1)),
        dobjs := (dobjs s)(p \<mapsto> ob\<lparr>dcount := wrap32 (int (r - 1))\<rparr>)\<rparr>)" by simp
    ultimately show ?thesis by (simp only:)
  qed
qed

lemma wf_disp_frame [simp]: "wf_disp D (s\<lparr>lvl := l\<rparr>) = wf_disp D s" "wf_disp D (s\<lparr>now := v\<rparr>) = wf_disp D s"
  by (simp_all add: wf_disp_def wf_dobj_def)

lemma dreach_wf: "dreach D s \<Longrightarrow> wf_disp D s"
proof (induction rule: dreach.induct)
  case (start s u s')
  show ?case by (rule DdkWaitInit_wf [OF start(5) start(1-4)])
next
  case (wait D s t ps wait_all Timeout wb st s')
  show ?case by (rule KeWaitForMultipleObjects_wf [OF wait(3) wait.IH wait(2)])
qed (auto intro: KeInitializeEvent_wf KeInitializeSemaphore_wf KeInitializeMutex_wf set_event_wf release_wf KeReleaseMutex_wf)

section \<open>Properties\<close>

text \<open>A state with an event at 10, a mutex at 20 and a semaphore at 30, for the examples.\<close>

definition disp_start :: DISP where
  "disp_start = \<lparr>dobjs = Map.empty, handles = Map.empty, next_handle = 4, handles_left = 9, nullevent = 0, lvl = (\<lambda>_. 0), now = 0\<rparr>"

definition disp_example :: DISP where
  "disp_example =
     \<lparr>dobjs = [10 \<mapsto> \<lparr>dtype = EventType, dh = 5, notify = False, threadid = 0, dcount = 0\<rparr>,
               20 \<mapsto> \<lparr>dtype = MutexType, dh = 6, notify = False, threadid = 0, dcount = 0\<rparr>,
               30 \<mapsto> \<lparr>dtype = SemaphoreType, dh = 7, notify = False, threadid = 0, dcount = 1\<rparr>],
      handles = [4 \<mapsto> HEvent False False, 5 \<mapsto> HEvent False False, 6 \<mapsto> HMutex 0 0, 7 \<mapsto> HSemaphore 1 2],
      next_handle = 8, handles_left = 5, nullevent = 4, lvl = (\<lambda>_. 0), now = 0\<rparr>"

lemma disp_example_reachable: "dreach {} disp_example"
proof -
  have "bindS DdkWaitInit (\<lambda>_. bindS (KeInitializeEvent 10 False False) (\<lambda>_. bindS (KeInitializeMutex 20)
      (\<lambda>_. KeInitializeSemaphore 1 30 1 2))) disp_start = Inr ((), disp_example)"
    by (simp add: bindS_assoc DdkWaitInit_def KeInitializeEvent_def DdkInitEvent_def KeInitializeMutex_def KeInitializeSemaphore_def disp_start_def
         disp_example_def)
  then obtain s1 s2 s3 where
      "DdkWaitInit disp_start = Inr ((), s1)" "KeInitializeEvent 10 False False s1 = Inr ((), s2)" "KeInitializeMutex 20 s2 = Inr ((), s3)"
      "KeInitializeSemaphore 1 30 1 2 s3 = Inr ((), disp_example)"
    by (auto simp: bindS_eq_Inr_iff)
  note run = this
  have "dreach {} s1" by (rule dreach.start [OF _ _ _ _ run(1)]) (simp_all add: disp_start_def)
  from dreach.init_event [OF this run(2)] have "dreach {} s2" by simp
  from dreach.init_mutex [OF this run(3)] have "dreach {} s3" by simp
  from dreach.init_semaphore [OF this _ run(4)] show ?thesis by simp
qed

lemma KeWaitForSingleObject_eq:
  assumes "wf_disp D s" "dobjs s p = Some ob"
  shows "KeWaitForSingleObject t p None s =
    (if \<not> ready s t p then Inl Waits
     else if exhausted s t p then Inr (STATUS_UNSUCCESSFUL, s) else Inr (STATUS_SUCCESS, acquire t [p] s))"
proof -
  have "KeWaitForSingleObject t p None s = wait_spec t [p] False INFINITE s"
    unfolding KeWaitForSingleObject_def using assms
    by (intro wait_any_eq) (auto simp: DdkGetWaitTime_def)
  then show ?thesis by (simp add: wait_spec_def)
qed

lemma acquire_single:
  assumes "dobjs s p = Some ob" "handles s (dh ob) = Some v"
  shows "acquire t [p] s = s\<lparr>handles := (handles s)(dh ob \<mapsto> consume t v), dobjs := (dobjs s)(p \<mapsto> after_wait t ob)\<rparr>"
  using assms by (auto simp: acquire_def fun_eq_iff intro!: arg_cong2 [where f = "\<lambda>x y. s\<lparr>handles := x, dobjs := y\<rparr>"])

lemma ready_eq: "dobjs s p = Some ob \<Longrightarrow> handles s (dh ob) = Some v \<Longrightarrow> ready s t p = signalled t v"
  by (simp add: ready_def is_signalled_def)

lemma exhausted_eq: "dobjs s p = Some ob \<Longrightarrow> handles s (dh ob) = Some v \<Longrightarrow> exhausted s t p = at_limit t v"
  by (simp add: exhausted_def limit_reached_def)

lemma undo_update:
  assumes "handles s h = Some v" "dobjs s p = Some ob"
  shows "s\<lparr>handles := (handles s)(h \<mapsto> v), dobjs := (dobjs s)(p \<mapsto> ob)\<rparr> = s"
  using assms by (cases s) auto



text \<open>
  C16.  KeWaitForMultipleObjects refines the specification of a wait, for at least one object and not more than the limit, and when it is for any
  of them or for all of at least two: a wait for any takes the first object that is ready and only that, a wait for all takes all of them when all are ready at
  once and none otherwise, the copies of counts and owners change with the objects, and when the objects are not ready the wait
  goes on without a timeout and ends with STATUS_TIMEOUT and no change with one.
\<close>

theorem KeWaitForMultipleObjects_refines:
  assumes "dreach D s" "set ps \<subseteq> dom (dobjs s)" "ps \<noteq> []" "wait_all \<longrightarrow> length ps \<noteq> 1"
    and "length ps \<le> (if wb then MAXIMUM_WAIT_OBJECTS else ThreadWaitObjects)" "DdkGetWaitTime Timeout s = Inr (ms, s)"
  shows "KeWaitForMultipleObjects t ps wait_all Timeout wb s = wait_spec t ps wait_all ms s"
proof (cases wait_all)
  case True
  with wait_all_eq [OF dreach_wf [OF assms(1)] assms(2,3) _ assms(5,6)] assms(4) show ?thesis by simp
next
  case False
  with wait_any_eq [OF dreach_wf [OF assms(1)] assms(2,3,5,6)] show ?thesis by simp
qed

theorem KeWaitForMultipleObjects_refines_witness:
  "KeWaitForMultipleObjects 1 [10, 30, 20] False None False disp_example = wait_spec 1 [10, 30, 20] False INFINITE disp_example \<and>
   List.find (\<lambda>i. ready disp_example 1 ([10, 30, 20] ! i)) [0..<3] = Some 1"
proof -
  have "set [10, 30, 20] \<subseteq> dom (dobjs disp_example)" by (simp add: disp_example_def)
  moreover have "DdkGetWaitTime None disp_example = Inr (INFINITE, disp_example)" by (simp add: DdkGetWaitTime_def)
  ultimately have "KeWaitForMultipleObjects 1 [10, 30, 20] False None False disp_example = wait_spec 1 [10, 30, 20] False INFINITE disp_example"
    by (intro KeWaitForMultipleObjects_refines [OF disp_example_reachable]) simp_all
  then show ?thesis by (simp add: disp_example_def ready_def is_signalled_def handle_of_def upt_rec)
qed

text \<open>
  C17.  Mutexes: a thread that waits for a mutex that is free or its own gets it; from then on every other thread that waits for the mutex waits,
  and its KeReleaseMutex is refused and changes nothing; KeReleaseMutex of the owner undoes the wait exactly, so nested waits need as
  many releases, and its result is 0 when the mutex was free before, that is, for the outermost one.
\<close>

theorem mutex_exclusion:
  assumes "dreach D s" "dobjs s p = Some ob" "dtype ob = MutexType" "lvl s = (\<lambda>_. 0)" "t \<noteq> 0"
    and "threadid ob = 0 \<or> threadid ob = t" "\<not> exhausted s t p"
  shows "\<exists>s'. KeWaitForSingleObject t p None s = Inr (STATUS_SUCCESS, s') \<and>
    KeReleaseMutex t p s' = Inr (if threadid ob = 0 then 0 else 1, s) \<and>
    (\<forall>t'. t' \<noteq> t \<longrightarrow> t' \<noteq> 0 \<longrightarrow> KeWaitForSingleObject t' p None s' = Inl Waits \<and> KeReleaseMutex t' p s' = Inr (1, s'))"
proof -
  note wf = dreach_wf [OF assms(1)]
  obtain r where r: "handles s (dh ob) = Some (HMutex (threadid ob) r)" "dcount ob = wrap32 (int r)" "r \<le> 2 ^ 31 + 1"
    "threadid ob = 0 \<longleftrightarrow> r = 0" by (rule wf_mutexD [OF wf assms(2,3)])
  have rd: "ready s t p" using assms(6) by (simp add: ready_eq [OF assms(2) r(1)])
  define s' where "s' = acquire t [p] s"
  have s': "s' = s\<lparr>handles := (handles s)(dh ob \<mapsto> HMutex t (r + 1)), dobjs := (dobjs s)(p \<mapsto> after_wait t ob)\<rparr>"
    by (simp add: s'_def acquire_single [OF assms(2) r(1)])
  have wf': "wf_disp D s'" unfolding s'_def using rd assms(2,5,7) by (intro wf_acquire [OF wf]) auto
  have ob': "dobjs s' p = Some (after_wait t ob)" by (simp add: s')
  have ty: "dtype (after_wait t ob) = MutexType" "threadid (after_wait t ob) = t" using assms(3) by (auto simp: after_wait_def)
  obtain r' where rx: "handles s' (dh (after_wait t ob)) = Some (HMutex (threadid (after_wait t ob)) r')"
      "dcount (after_wait t ob) = wrap32 (int r')" "r' \<le> 2 ^ 31 + 1" "threadid (after_wait t ob) = 0 \<longleftrightarrow> r' = 0"
    by (rule wf_mutexD [OF wf' ob' ty(1)])
  then have r': "r' = Suc r" by (simp add: s' ty(2))
  note rel = KeReleaseMutex_eq [OF ob' rx, unfolded r']
  have undo: "KeReleaseMutex t p s' = Inr (if threadid ob = 0 then 0 else 1, s)"
  proof (cases "threadid ob = 0")
    case True
    then have "ob\<lparr>dcount := 0, threadid := 0\<rparr> = ob" "(after_wait t ob)\<lparr>dcount := 0, threadid := 0\<rparr> = ob\<lparr>dcount := 0, threadid := 0\<rparr>"
      using r(2,4) assms(3,5) wrap32_small [of 0] by (simp_all add: after_wait_def)
    with True r(1,4) rel assms(2,4,5) show ?thesis by (simp add: s' ty(2) undo_update)
  next
    case False
    then have "threadid ob = t" "r \<noteq> 0" using assms(6) r(4) by simp_all
    moreover from this have "(after_wait t ob)\<lparr>dcount := wrap32 (int r)\<rparr> = ob" using r(2) assms(3) by (simp add: after_wait_def)
    ultimately show ?thesis using r(1) rel assms(2,4,5) by (simp add: s' ty(2) undo_update)
  qed
  have "KeWaitForSingleObject t' p None s' = Inl Waits \<and> KeReleaseMutex t' p s' = Inr (1, s')" if "t' \<noteq> t" "t' \<noteq> 0" for t'
    using that assms(4,5) rel ready_eq [OF ob' rx(1), of t'] KeWaitForSingleObject_eq [OF wf' ob', of t'] by (simp add: s' ty(2))
  moreover have "KeWaitForSingleObject t p None s = Inr (STATUS_SUCCESS, s')"
    using KeWaitForSingleObject_eq [OF wf assms(2), of t] rd assms(7) by (simp add: s'_def)
  ultimately show ?thesis using undo by blast
qed

theorem mutex_exclusion_witness:
  "\<exists>s'. KeWaitForSingleObject 1 20 None disp_example = Inr (STATUS_SUCCESS, s') \<and> KeReleaseMutex 1 20 s' = Inr (0, disp_example) \<and>
    KeWaitForSingleObject 2 20 None s' = Inl Waits \<and> KeReleaseMutex 2 20 s' = Inr (1, s')"
proof -
  have "\<exists>s'. KeWaitForSingleObject 1 20 None disp_example = Inr (STATUS_SUCCESS, s') \<and> KeReleaseMutex 1 20 s' = Inr (0, disp_example) \<and>
      (\<forall>t'. t' \<noteq> 1 \<longrightarrow> t' \<noteq> 0 \<longrightarrow> KeWaitForSingleObject t' 20 None s' = Inl Waits \<and> KeReleaseMutex t' 20 s' = Inr (1, s'))"
    using mutex_exclusion [OF disp_example_reachable, of 20 "\<lparr>dtype = MutexType, dh = 6, notify = False, threadid = 0, dcount = 0\<rparr>" 1]
    by (simp add: disp_example_def exhausted_def limit_reached_def handle_of_def)
  then show ?thesis by fastforce
qed

text \<open>
  Events: KeSetEvent and KeResetEvent answer whether the event was set and leave it set and not set.  A set synchronization event lets one
  waiting thread go on and is reset by that, so that the next one waits; a set notification event lets all of them go on and stays
  set until KeResetEvent or KeClearEvent, which have the same effect; after them every thread waits.
\<close>

theorem event_signalling:
  assumes "dreach D s" "dobjs s p = Some ob" "dtype ob = EventType" "lvl s = (\<lambda>_. 0)"
  shows "\<exists>b s1 s2. KeReadStateEvent t p s = Inr (b, s) \<and> KeSetEvent t p Wait s = Inr (of_bool b, s1) \<and> KeReadStateEvent t p s1 = Inr (True, s1) \<and>
    KeResetEvent t p s = Inr (of_bool b, s2) \<and> KeReadStateEvent t p s2 = Inr (False, s2) \<and> KeClearEvent t p s = Inr ((), s2) \<and>
    KeWaitForSingleObject t p None s1 = Inr (STATUS_SUCCESS, if notify ob then s1 else s2) \<and>
    KeWaitForSingleObject t p None s2 = Inl Waits"
proof -
  note wf = dreach_wf [OF assms(1)]
  obtain b where b: "handles s (dh ob) = Some (HEvent (notify ob) b)" by (rule wf_eventD [OF wf assms(2,3)])
  define s1 where "s1 = set_handle (dh ob) (HEvent (notify ob) True) s"
  define s2 where "s2 = set_handle (dh ob) (HEvent (notify ob) False) s"
  note ss = s1_def s2_def
  have wfs: "wf_disp D s1" "wf_disp D s2" unfolding ss by (rule wf_handle [OF wf assms(2)]; simp add: assms(3))+
  have obs: "dobjs s1 p = Some ob" "dobjs s2 p = Some ob"
    and hs: "handles s1 (dh ob) = Some (HEvent (notify ob) True)" "handles s2 (dh ob) = Some (HEvent (notify ob) False)"
    and lv: "lvl s1 t \<le> 2" "lvl s2 t \<le> 2" "lvl s t \<le> 2" "lvl s t \<le> (if Wait then 1 else 2)"
    using assms(2,4) by (simp_all add: ss)
  have same: "after_wait t ob = ob" using assms(3) by (simp add: after_wait_def)
  have "acquire t [p] s1 = (if notify ob then s1 else s2)"
    unfolding acquire_single [OF obs(1) hs(1)] same using obs hs undo_update [OF hs(1) obs(1)] undo_update [OF hs(2) obs(2)] by (auto simp: ss)
  then have "KeWaitForSingleObject t p None s1 = Inr (STATUS_SUCCESS, if notify ob then s1 else s2)"
    using KeWaitForSingleObject_eq [OF wfs(1) obs(1), of t] ready_eq [OF obs(1) hs(1)] exhausted_eq [OF obs(1) hs(1)] by simp
  moreover have "KeWaitForSingleObject t p None s2 = Inl Waits"
    using KeWaitForSingleObject_eq [OF wfs(2) obs(2), of t] ready_eq [OF obs(2) hs(2)] by simp
  ultimately show ?thesis
    using KeReadStateEvent_eq [OF assms(2) b lv(3)] KeSetEvent_eq [OF wf assms(2) b lv(4), folded s1_def] KeReadStateEvent_eq [OF obs(1) hs(1) lv(1)]
      KeResetEvent_eq [OF wf assms(2) b lv(3), folded s2_def] KeReadStateEvent_eq [OF obs(2) hs(2) lv(2)] KeClearEvent_eq [OF assms(2) b lv(3), folded s2_def]
    by blast
qed

theorem event_signalling_witness:
  "\<exists>b s1 s2. KeReadStateEvent 3 10 disp_example = Inr (b, disp_example) \<and> KeSetEvent 3 10 False disp_example = Inr (of_bool b, s1) \<and>
    KeReadStateEvent 3 10 s1 = Inr (True, s1) \<and> KeResetEvent 3 10 disp_example = Inr (of_bool b, s2) \<and> KeReadStateEvent 3 10 s2 = Inr (False, s2) \<and>
    KeClearEvent 3 10 disp_example = Inr ((), s2) \<and> KeWaitForSingleObject 3 10 None s1 = Inr (STATUS_SUCCESS, s2) \<and>
    KeWaitForSingleObject 3 10 None s2 = Inl Waits"
  using event_signalling [OF disp_example_reachable, of 10 "\<lparr>dtype = EventType, dh = 5, notify = False, threadid = 0, dcount = 0\<rparr>" 3 False]
  by (simp add: disp_example_def)

text \<open>
  Two waits that do not end as they should.  A wait for all of one object, which KeWaitForMultipleObjects allows, never succeeds even when the object is ready,
  because the list of handles is extended by an event that is never set and then all of the handles are waited for.  And
  a relative timeout of \<open>2 ^ 32 - 1\<close> milliseconds (about 50 days) is no timeout at all, while one of \<open>2 ^ 32\<close> milliseconds is over at once.
\<close>

theorem waits_that_never_succeed:
  assumes "dreach D s" "nullevent s \<noteq> 0" "dobjs s p = Some ob"
  shows "KeWaitForMultipleObjects t [p] True None wb s = Inl Waits \<and>
    KeWaitForMultipleObjects t [p] True (Some 0) wb s = Inr (STATUS_TIMEOUT, s) \<and>
    DdkGetWaitTime (Some (- ((2 ^ 32 - 1) * 10000))) s = Inr (INFINITE, s) \<and>
    DdkGetWaitTime (Some (- (2 ^ 32 * 10000))) s = Inr (0, s)"
  using wait_all_one_eq [OF dreach_wf [OF assms(1)] assms(3,2), of None INFINITE t wb]
    wait_all_one_eq [OF dreach_wf [OF assms(1)] assms(3,2), of "Some 0" 0 t wb]
  by (simp add: DdkGetWaitTime_def)

theorem waits_that_never_succeed_witness:
  "ready disp_example 1 20 \<and> KeWaitForMultipleObjects 1 [20] True None True disp_example = Inl Waits"
  using waits_that_never_succeed [OF disp_example_reachable, of 20 _ 1 True]
  by (simp add: disp_example_def ready_def is_signalled_def handle_of_def)

end
