(* ===== verification/DevStack.thy ===== *)
theory DevStack
  imports DdkBase
begin

text \<open>
  Stacks of devices: the attaching routines of src/src/device.cpp.

  A device points to the device attached to it (\<open>AttachedDevice\<close>) and, in its extension, to the device it is attached to
  (\<open>AttachedTo\<close>); 0 is the null pointer.  The stack size is a CCHAR.  The code follows the pointers without any check, so a cycle makes it run forever: the loops are
  partial functions, and a routine whose loop does not end is a call that does not return.  The abstraction of a group of linked
  devices is the list of their addresses from the bottom to the top.
\<close>

section \<open>Definitions\<close>

record DEVICE_OBJECT =
  StackSize :: int
  AlignmentRequirement :: nat
  AttachedDevice :: nat
  AttachedTo :: nat
  references :: int

type_synonym DEVS = "nat \<rightharpoonup> DEVICE_OBJECT"

definition device :: "nat \<Rightarrow> (DEVICE_OBJECT, DEVS) st" where
  "device p D = (case D p of None \<Rightarrow> Inl Fault | Some d \<Rightarrow> Inr (d, D))"

definition set_device :: "nat \<Rightarrow> (DEVICE_OBJECT \<Rightarrow> DEVICE_OBJECT) \<Rightarrow> (unit, DEVS) st" where
  "set_device p f = bindS (device p) (\<lambda>d. modify (\<lambda>D. D(p \<mapsto> f d)))"

partial_function (option) Follow :: "(DEVICE_OBJECT \<Rightarrow> nat) \<Rightarrow> DEVS \<Rightarrow> nat \<Rightarrow> nat res option" where
  "Follow nxt D p =
     (case D p of
        None \<Rightarrow> Some (Inl Fault)
      | Some d \<Rightarrow> if nxt d = 0 then Some (Inr p) else Follow nxt D (nxt d))"

declare Follow.simps [code]

definition FollowAll :: "(DEVICE_OBJECT \<Rightarrow> nat) \<Rightarrow> nat \<Rightarrow> (nat, DEVS) st" where
  "FollowAll nxt p D =
     (case Follow nxt D p of None \<Rightarrow> Inl Waits | Some (Inl e) \<Rightarrow> Inl e | Some (Inr q) \<Rightarrow> Inr (q, D))"

definition IoGetAttachedDevice :: "nat \<Rightarrow> (nat, DEVS) st" where
  "IoGetAttachedDevice DeviceObject = FollowAll AttachedDevice DeviceObject"

definition IoAttachDeviceToDeviceStackSafe :: "nat \<Rightarrow> nat \<Rightarrow> (NTSTATUS \<times> nat, DEVS) st" where
  "IoAttachDeviceToDeviceStackSafe SourceDevice TargetDevice =
     bindS (IoGetAttachedDevice TargetDevice) (\<lambda>pDevice.
     bindS (device pDevice) (\<lambda>d.
     bindS (set_device SourceDevice (\<lambda>x. x\<lparr>StackSize := cchar (StackSize d + 1)\<rparr>)) (\<lambda>_.
     bindS (device pDevice) (\<lambda>d.
     bindS (set_device SourceDevice (\<lambda>x. x\<lparr>AlignmentRequirement := AlignmentRequirement d\<rparr>)) (\<lambda>_.
     bindS (set_device SourceDevice (\<lambda>x. x\<lparr>AttachedTo := pDevice\<rparr>)) (\<lambda>_.
     bindS (set_device pDevice (\<lambda>x. x\<lparr>AttachedDevice := SourceDevice\<rparr>)) (\<lambda>_.
     ret (STATUS_SUCCESS, pDevice))))))))"

definition IoAttachDeviceToDeviceStack :: "nat \<Rightarrow> nat \<Rightarrow> (nat, DEVS) st" where
  "IoAttachDeviceToDeviceStack SourceDevice TargetDevice =
     bindS (IoAttachDeviceToDeviceStackSafe SourceDevice TargetDevice) (\<lambda>(status, pDevice).
     ret (if NT_SUCCESS status then pDevice else 0))"

definition IoAttachDeviceByPointer :: "nat \<Rightarrow> nat \<Rightarrow> (NTSTATUS, DEVS) st" where
  "IoAttachDeviceByPointer SourceDevice TargetDevice =
     bindS (IoAttachDeviceToDeviceStackSafe SourceDevice TargetDevice) (\<lambda>(status, pDevice). ret status)"

definition IoDetachDevice :: "nat \<Rightarrow> (unit, DEVS) st" where
  "IoDetachDevice TargetDevice =
     bindS (device TargetDevice) (\<lambda>d.
     bindS (set_device (AttachedDevice d) (\<lambda>x. x\<lparr>AttachedTo := 0\<rparr>)) (\<lambda>_.
     set_device TargetDevice (\<lambda>x. x\<lparr>AttachedDevice := 0\<rparr>)))"

definition ObReferenceDevice :: "nat \<Rightarrow> (unit, DEVS) st" where
  "ObReferenceDevice p = set_device p (\<lambda>x. x\<lparr>references := wrap32 (references x + 1)\<rparr>)"

definition IoGetAttachedDeviceReference :: "nat \<Rightarrow> (nat, DEVS) st" where
  "IoGetAttachedDeviceReference DeviceObject =
     bindS (IoGetAttachedDevice DeviceObject) (\<lambda>pDevice.
     bindS (ObReferenceDevice pDevice) (\<lambda>_. ret pDevice))"

definition IoGetLowerDeviceObject :: "nat \<Rightarrow> (nat, DEVS) st" where
  "IoGetLowerDeviceObject DeviceObject =
     bindS (device DeviceObject) (\<lambda>d.
     bindS (if AttachedTo d \<noteq> 0 then ObReferenceDevice (AttachedTo d) else ret ()) (\<lambda>_. ret (AttachedTo d)))"

definition IoGetDeviceAttachmentBaseRef :: "nat \<Rightarrow> (nat, DEVS) st" where
  "IoGetDeviceAttachmentBaseRef DeviceObject =
     bindS (FollowAll AttachedTo DeviceObject) (\<lambda>pDevice.
     bindS (ObReferenceDevice pDevice) (\<lambda>_. ret pDevice))"

section \<open>The abstraction\<close>

text \<open>
  \<open>path nxt D p ps\<close>: following \<open>nxt\<close> from \<open>p\<close> visits the devices \<open>ps\<close> and ends.  The devices of a stack are linked
  upwards and downwards.
\<close>

fun path :: "(DEVICE_OBJECT \<Rightarrow> nat) \<Rightarrow> DEVS \<Rightarrow> nat \<Rightarrow> nat list \<Rightarrow> bool" where
  "path nxt D p [] \<longleftrightarrow> p = 0"
| "path nxt D p (q # qs) \<longleftrightarrow> p = q \<and> q \<noteq> 0 \<and> (\<exists>d. D q = Some d \<and> path nxt D (nxt d) qs)"

definition is_stack :: "DEVS \<Rightarrow> nat list \<Rightarrow> bool" where
  "is_stack D ps \<longleftrightarrow> ps \<noteq> [] \<and> distinct ps \<and> path AttachedDevice D (hd ps) ps \<and> path AttachedTo D (last ps) (rev ps)"

section \<open>Lemmas\<close>

lemma path_Follow:
  assumes "path nxt D p ps" "ps \<noteq> []"
  shows "Follow nxt D p = Some (Inr (last ps))"
  using assms
proof (induction ps arbitrary: p)
  case (Cons q qs)
  then obtain d where d: "p = q" "D q = Some d" "path nxt D (nxt d) qs" by auto
  show ?case
  proof (cases qs)
    case Nil
    with d show ?thesis by (subst Follow.simps) simp
  next
    case (Cons r rs)
    with d Cons.IH show ?thesis by (subst Follow.simps) auto
  qed
qed simp

lemma path_suffix: "path nxt D p (xs @ q # ys) \<Longrightarrow> path nxt D q (q # ys)"
  by (induction xs arbitrary: p) auto


lemma path_unchanged: "q \<notin> set ps \<Longrightarrow> path nxt (D(q \<mapsto> d)) p ps = path nxt D p ps"
  by (induction ps arbitrary: p) auto

lemma path_link_unchanged: "D q = Some d0 \<Longrightarrow> nxt d = nxt d0 \<Longrightarrow> path nxt (D(q \<mapsto> d)) p ps = path nxt D p ps"
  by (induction ps arbitrary: p) auto

text \<open>Changing the link of one device of a path replaces the rest of the path.\<close>

lemma path_relink:
  assumes "path nxt D p (xs @ q # zs)" "q \<notin> set xs" "path nxt (D(q \<mapsto> d)) (nxt d) ys"
  shows "path nxt (D(q \<mapsto> d)) p (xs @ q # ys)"
  using assms by (induction xs arbitrary: p) auto

lemma path_in_dom: "path nxt D p ps \<Longrightarrow> q \<in> set ps \<Longrightarrow> q \<noteq> 0 \<and> (\<exists>d. D q = Some d)"
  by (induction ps arbitrary: p) auto

lemma path_member:
  assumes "path nxt D p ps" "q \<in> set ps"
  shows "Follow nxt D q = Some (Inr (last ps))"
proof -
  from assms(2) obtain xs ys where "ps = xs @ q # ys" by (meson split_list)
  with path_Follow [OF path_suffix] assms(1) show ?thesis by simp
qed

lemma stack_bounds:
  assumes "is_stack D ps" "q \<in> set ps"
  shows "Follow AttachedDevice D q = Some (Inr (last ps))" "Follow AttachedTo D q = Some (Inr (hd ps))"
    "q \<noteq> 0" "\<exists>d. D q = Some d"
proof -
  have ps: "ps \<noteq> []" "path AttachedDevice D (hd ps) ps" "path AttachedTo D (last ps) (rev ps)"
    using assms(1) by (simp_all add: is_stack_def)
  show "Follow AttachedDevice D q = Some (Inr (last ps))" by (rule path_member [OF ps(2) assms(2)])
  show "Follow AttachedTo D q = Some (Inr (hd ps))"
    using path_member [OF ps(3), of q] assms(2) ps(1) by (simp add: last_rev)
  show "q \<noteq> 0" "\<exists>d. D q = Some d" using path_in_dom [OF ps(2) assms(2)] by simp_all
qed

lemma stack_unchanged: "q \<notin> set ps \<Longrightarrow> is_stack (D(q \<mapsto> d)) ps = is_stack D ps"
  by (simp add: is_stack_def path_unchanged)

lemma stack_link_unchanged:
  "D q = Some d0 \<Longrightarrow> AttachedDevice d = AttachedDevice d0 \<Longrightarrow> AttachedTo d = AttachedTo d0 \<Longrightarrow> is_stack (D(q \<mapsto> d)) ps = is_stack D ps"
  by (simp add: is_stack_def path_link_unchanged)

lemma bindS_device [simp]: "D p = Some d \<Longrightarrow> bindS (device p) f D = f d D"
  by (simp add: bindS_def device_def)

lemma set_device_eq [simp]: "D p = Some d \<Longrightarrow> set_device p f D = Inr ((), D(p \<mapsto> f d))"
  by (simp add: set_device_def)

lemma bindS_set_device [simp]: "D p = Some d \<Longrightarrow> bindS (set_device p f) g D = g () (D(p \<mapsto> f d))"
  by (simp add: bindS_def)

lemma bindS_FollowAll [simp]: "Follow nxt D p = Some (Inr q) \<Longrightarrow> bindS (FollowAll nxt p) f D = f q D"
  by (simp add: bindS_def FollowAll_def)

lemma IoAttachDeviceToDeviceStackSafe_eq:
  assumes "Follow AttachedDevice D p = Some (Inr t)" "D t = Some l" "D q = Some x" "q \<noteq> t"
  shows "IoAttachDeviceToDeviceStackSafe q p D =
    Inr ((STATUS_SUCCESS, t),
         D(q \<mapsto> x\<lparr>StackSize := cchar (StackSize l + 1), AlignmentRequirement := AlignmentRequirement l, AttachedTo := t\<rparr>,
           t \<mapsto> l\<lparr>AttachedDevice := q\<rparr>))"
  using assms by (simp add: IoAttachDeviceToDeviceStackSafe_def IoGetAttachedDevice_def)

lemma stack_attach:
  assumes "is_stack D ps" "D q = Some x" "AttachedDevice x = 0" "q \<notin> set ps" "q \<noteq> 0" "D (last ps) = Some l"
    and "AttachedDevice x' = 0" "AttachedTo x' = last ps" "AttachedDevice l' = q" "AttachedTo l' = AttachedTo l"
  shows "is_stack (D(q \<mapsto> x', last ps \<mapsto> l')) (ps @ [q])"
proof -
  have ps: "ps \<noteq> []" "distinct ps" "path AttachedDevice D (hd ps) ps" "path AttachedTo D (last ps) (rev ps)"
    using assms(1) by (simp_all add: is_stack_def)
  have split: "ps = butlast ps @ last ps # []" using ps(1) by simp
  then have nl: "last ps \<notin> set (butlast ps)" using ps(2) by (metis distinct.simps(2) distinct_append disjoint_iff list.set_intros(1))
  have ql: "q \<noteq> last ps" using assms(4) ps(1) by auto
  have "path AttachedDevice (D(q \<mapsto> x')) (hd ps) (butlast ps @ last ps # [])"
    using ps(3) assms(4) by (simp add: path_unchanged flip: split)
  then have up: "path AttachedDevice (D(q \<mapsto> x', last ps \<mapsto> l')) (hd ps) (butlast ps @ last ps # [q])"
    by (rule path_relink [OF _ nl]) (use ql assms(5,7,9) in simp)
  have down: "path AttachedTo (D(q \<mapsto> x', last ps \<mapsto> l')) (last ps) (rev ps)"
    using path_link_unchanged [of "D(q \<mapsto> x')" "last ps" l AttachedTo l'] ps(4) assms(4,6,10) ql by (simp add: path_unchanged)
  have "butlast ps @ last ps # [q] = ps @ [q]" using split by (metis append.assoc append_Cons append_Nil)
  with up have "path AttachedDevice (D(q \<mapsto> x', last ps \<mapsto> l')) (hd ps) (ps @ [q])" by (simp only:)
  then show ?thesis
    using down ps(1,2) assms(4,5,8) ql by (simp add: is_stack_def)
qed

lemma stack_detach:
  assumes "is_stack D (xs @ t # u # ys)" "D t = Some d" "D u = Some e"
    and "AttachedDevice d' = 0" "AttachedTo d' = AttachedTo d" "AttachedTo e' = 0" "AttachedDevice e' = AttachedDevice e"
  shows "is_stack (D(u \<mapsto> e', t \<mapsto> d')) (xs @ [t])" "is_stack (D(u \<mapsto> e', t \<mapsto> d')) (u # ys)"
proof -
  let ?D = "D(u \<mapsto> e', t \<mapsto> d')"
  have dist: "distinct (xs @ t # u # ys)" and up: "path AttachedDevice D (hd (xs @ [t])) (xs @ t # u # ys)"
    and down: "path AttachedTo D (last (u # ys)) (rev ys @ u # t # rev xs)"
    using assms(1) by (auto simp: is_stack_def hd_append last_append split: if_splits)
  have down_t: "path AttachedTo D t (t # rev xs)" using path_suffix [of _ _ _ "rev ys @ [u]"] down by simp
  have up_u: "path AttachedDevice D u (u # ys)" using path_suffix [of _ _ _ "xs @ [t]"] up by simp
  have "path AttachedDevice (D(u \<mapsto> e')) (hd (xs @ [t])) (xs @ t # u # ys)"
    using up assms(3,7) by (simp add: path_link_unchanged)
  then have 1: "path AttachedDevice ?D (hd (xs @ [t])) (xs @ [t])"
    by (rule path_relink) (use dist assms(4) in auto)
  have 2: "path AttachedTo ?D t (t # rev xs)"
    using down_t dist assms(2,5) path_link_unchanged [of "D(u \<mapsto> e')" t d AttachedTo d'] path_unchanged [of u "t # rev xs" AttachedTo D e' t]
    by auto
  have 3: "path AttachedDevice ?D u (u # ys)"
    using up_u dist assms(3,7) path_link_unchanged [of D u e AttachedDevice e'] path_unchanged [of t "u # ys" AttachedDevice "D(u \<mapsto> e')" d' u]
    by auto
  have "path AttachedTo (D(u \<mapsto> e')) (last (u # ys)) (rev ys @ u # [])"
    by (rule path_relink [OF down]) (use dist assms(6) in auto)
  then have 4: "path AttachedTo ?D (last (u # ys)) (rev ys @ [u])"
    using dist by (simp add: path_unchanged)
  show "is_stack ?D (xs @ [t])" using 1 2 dist by (simp add: is_stack_def)
  show "is_stack ?D (u # ys)" using 3 4 dist by (simp add: is_stack_def)
qed

lemma stack_single: "is_stack D [q] \<longleftrightarrow> q \<noteq> 0 \<and> (\<exists>d. D q = Some d \<and> AttachedDevice d = 0 \<and> AttachedTo d = 0)"
  by (auto simp: is_stack_def)

lemma stack_top:
  assumes "is_stack D (xs @ [t])"
  shows "\<exists>d. D t = Some d \<and> AttachedDevice d = 0"
proof -
  have "path AttachedDevice D t [t]" using assms path_suffix [of _ _ _ xs t "[]"] by (auto simp: is_stack_def)
  then show ?thesis by auto
qed

lemma stack_links:
  assumes "is_stack D (xs @ t # u # ys)"
  obtains d e where "D t = Some d" "AttachedDevice d = u" "D u = Some e" "AttachedTo e = t" "t \<noteq> 0" "u \<noteq> 0" "t \<noteq> u"
proof -
  have "path AttachedDevice D t (t # u # ys)" using assms path_suffix [of AttachedDevice D _ xs t "u # ys"] by (auto simp: is_stack_def)
  moreover have "path AttachedTo D u (u # t # rev xs)"
    using assms path_suffix [of AttachedTo D _ "rev ys" u "t # rev xs"] by (auto simp: is_stack_def)
  moreover have "t \<noteq> u" using assms by (simp add: is_stack_def)
  ultimately show thesis using that by auto
qed

section \<open>Properties\<close>

text \<open>Three devices: 1 with 2 on top of it, and 3 alone.\<close>

definition example_device :: "int \<Rightarrow> nat \<Rightarrow> nat \<Rightarrow> DEVICE_OBJECT" where
  "example_device n up down = \<lparr>StackSize = n, AlignmentRequirement = 3, AttachedDevice = up, AttachedTo = down, references = 1\<rparr>"

definition dev_example :: DEVS where
  "dev_example = [1 \<mapsto> example_device 1 2 0, 2 \<mapsto> example_device 2 0 1, 3 \<mapsto> example_device 1 0 0]"

lemma dev_example_stacks: "is_stack dev_example [1, 2]" "is_stack dev_example [3]" "dev_example 0 = None"
  by (simp_all add: is_stack_def dev_example_def example_device_def)

text \<open>
  C18.  Attaching refines appending to the stack: a device that stands alone, attached to any device of a stack, becomes the new top; the routine
  returns the old top.  The size of its stack is one more than that of the old top, as a CCHAR, and it takes over the alignment.  From every device of the stack the
  loops now end, with the new device at the top and the same one at the bottom; other stacks are untouched.
\<close>

theorem IoAttachDeviceToDeviceStack_appends:
  assumes "is_stack D ps" "p \<in> set ps" "is_stack D [q]" "q \<notin> set ps"
  shows "\<exists>D' l x. IoAttachDeviceToDeviceStack q p D = Inr (last ps, D') \<and> is_stack D' (ps @ [q]) \<and>
    D (last ps) = Some l \<and> D' q = Some x \<and> StackSize x = cchar (StackSize l + 1) \<and> AlignmentRequirement x = AlignmentRequirement l \<and>
    (\<forall>r \<in> set (ps @ [q]). IoGetAttachedDevice r D' = Inr (q, D') \<and> FollowAll AttachedTo r D' = Inr (hd ps, D')) \<and>
    (\<forall>rs. is_stack D rs \<longrightarrow> set rs \<inter> set (q # ps) = {} \<longrightarrow> is_stack D' rs)"
proof -
  have ne: "ps \<noteq> []" using assms(1) by (simp add: is_stack_def)
  obtain x0 where x0: "q \<noteq> 0" "D q = Some x0" "AttachedDevice x0 = 0" using assms(3) by (auto simp: stack_single)
  obtain l where l: "D (last ps) = Some l" using stack_bounds(4) [OF assms(1), of "last ps"] ne by auto
  have ql: "q \<noteq> last ps" using assms(4) ne by auto
  let ?x = "x0\<lparr>StackSize := cchar (StackSize l + 1), AlignmentRequirement := AlignmentRequirement l, AttachedTo := last ps\<rparr>"
  let ?D = "D(q \<mapsto> ?x, last ps \<mapsto> l\<lparr>AttachedDevice := q\<rparr>)"
  have run: "IoAttachDeviceToDeviceStack q p D = Inr (last ps, ?D)"
    using IoAttachDeviceToDeviceStackSafe_eq [OF stack_bounds(1) [OF assms(1,2)] l x0(2) ql]
    by (simp add: IoAttachDeviceToDeviceStack_def bindS_def NT_SUCCESS_def)
  have st: "is_stack ?D (ps @ [q])"
    by (rule stack_attach [OF assms(1) x0(2,3) assms(4) x0(1) l]) (simp_all add: x0(3))
  have follow: "IoGetAttachedDevice r ?D = Inr (q, ?D) \<and> FollowAll AttachedTo r ?D = Inr (hd ps, ?D)" if "r \<in> set (ps @ [q])" for r
    using stack_bounds(1,2) [OF st that] ne by (simp add: IoGetAttachedDevice_def FollowAll_def)
  have frame: "is_stack ?D rs" if "is_stack D rs" "set rs \<inter> set (q # ps) = {}" for rs
  proof -
    have "q \<notin> set rs" "last ps \<notin> set rs" using that(2) ne by (auto simp: disjoint_iff)
    with that(1) show ?thesis by (simp add: stack_unchanged)
  qed
  have "?D q = Some ?x" using ql by simp
  with run st l follow frame show ?thesis by (intro exI [of _ ?D] exI [of _ l] exI [of _ ?x]) simp
qed

theorem IoAttachDeviceToDeviceStack_appends_witness:
  "\<exists>D' l x. IoAttachDeviceToDeviceStack 3 1 dev_example = Inr (2, D') \<and> is_stack D' [1, 2, 3] \<and>
    dev_example 2 = Some l \<and> D' 3 = Some x \<and> StackSize x = cchar (StackSize l + 1) \<and> AlignmentRequirement x = AlignmentRequirement l \<and>
    IoGetAttachedDevice 1 D' = Inr (3, D') \<and> FollowAll AttachedTo 3 D' = Inr (1, D')"
  using IoAttachDeviceToDeviceStack_appends [OF dev_example_stacks(1) _ dev_example_stacks(2), of 1] by auto

text \<open>
  Detaching cuts the stack above the given device, both parts are stacks again and other stacks are untouched; for the top of a
  stack, which has no device attached, the routine goes through the null pointer.
\<close>

theorem IoDetachDevice_cuts:
  assumes "is_stack D (xs @ t # ys)" "D 0 = None"
  shows "if ys = [] then IoDetachDevice t D = Inl Fault
    else \<exists>D'. IoDetachDevice t D = Inr ((), D') \<and> is_stack D' (xs @ [t]) \<and> is_stack D' ys \<and>
      (\<forall>rs. is_stack D rs \<longrightarrow> set rs \<inter> set (xs @ t # ys) = {} \<longrightarrow> is_stack D' rs)"
proof (cases ys)
  case Nil
  with stack_top assms show ?thesis
    by (fastforce simp: IoDetachDevice_def set_device_def device_def bindS_def)
next
  case (Cons u zs)
  obtain d e where de: "D t = Some d" "AttachedDevice d = u" "D u = Some e" "t \<noteq> u"
    using stack_links [of D xs t u zs] assms(1) Cons by blast
  let ?D = "D(u \<mapsto> e\<lparr>AttachedTo := 0\<rparr>, t \<mapsto> d\<lparr>AttachedDevice := 0\<rparr>)"
  have "IoDetachDevice t D = Inr ((), ?D)" using de by (simp add: IoDetachDevice_def)
  moreover have "is_stack ?D (xs @ [t])" "is_stack ?D (u # zs)"
    using stack_detach [OF assms(1) [unfolded Cons] de(1,3)] by simp_all
  moreover have "is_stack ?D rs" if "is_stack D rs" "set rs \<inter> set (xs @ t # ys) = {}" for rs
    using that Cons by (simp add: stack_unchanged)
  ultimately show ?thesis using Cons by auto
qed

theorem IoDetachDevice_cuts_witness:
  "(\<exists>D'. IoDetachDevice 1 dev_example = Inr ((), D') \<and> is_stack D' [1] \<and> is_stack D' [2] \<and> is_stack D' [3]) \<and>
   IoDetachDevice 2 dev_example = Inl Fault"
proof -
  have "\<exists>D'. IoDetachDevice 1 dev_example = Inr ((), D') \<and> is_stack D' [1] \<and> is_stack D' [2] \<and>
      (\<forall>rs. is_stack dev_example rs \<longrightarrow> set rs \<inter> {1, 2} = {} \<longrightarrow> is_stack D' rs)"
    using IoDetachDevice_cuts [of dev_example "[]" 1 "[2]"] dev_example_stacks by simp
  moreover have "IoDetachDevice 2 dev_example = Inl Fault"
    using IoDetachDevice_cuts [of dev_example "[1]" 2 "[]"] dev_example_stacks by simp
  ultimately show ?thesis using dev_example_stacks(2) by fastforce
qed

end
