(* ===== verification/IoPath.thy ===== *)
theory IoPath
  imports Irp DevStack
begin

text \<open>
  Packets in stacks of devices: what src/src/device.cpp does to the sizes of stacks and what src/src/irp.cpp needs of them.

  Attaching gives a device a stack size one above that of the device below, and a packet for a device is allocated with that many
  locations; so a packet that every driver passes on to the device below has a location for each of them.
\<close>

section \<open>Definitions\<close>

text \<open>A driver that passes every packet on to the device below its own, and succeeds at the bottom of a stack of at most \<open>n\<close> devices.\<close>

fun forward :: "DEVS \<Rightarrow> nat \<Rightarrow> nat \<Rightarrow> UCHAR \<Rightarrow> nat \<Rightarrow> (NTSTATUS, IO) st" where
  "forward D 0 dev major a = fail Waits"
| "forward D (Suc n) dev major a =
     (case D dev of
        None \<Rightarrow> fail Fault
      | Some d \<Rightarrow> if AttachedTo d = 0 then ret STATUS_SUCCESS else IofCallDriver (forward D n) (AttachedTo d) a)"

text \<open>The stack sizes of the devices of a stack count them from the bottom.\<close>

definition counted :: "DEVS \<Rightarrow> nat list \<Rightarrow> bool" where
  "counted D ps \<longleftrightarrow> (\<forall>i < length ps. \<exists>d. D (ps ! i) = Some d \<and> DEVICE_OBJECT.StackSize d = int i + 1)"

section \<open>Lemmas\<close>

lemma forward_reaches:
  assumes "path AttachedTo D q (q # qs)" "irps s a = Some p" "wf_irp p" "CurrentStackLocation p = int (length qs) + 1"
    and "cur_irql s \<le> DISPATCH_LEVEL" "length qs < n"
  shows "\<exists>p'. IofCallDriver (forward D n) q a s = Inr (STATUS_SUCCESS, s\<lparr>irps := (irps s)(a \<mapsto> p')\<rparr>) \<and> CurrentLocation p' = 1 \<and>
    map DeviceObject (stack p') = rev (q # qs) @ map DeviceObject (drop (Suc (length qs)) (stack p))"
  using assms
proof (induction qs arbitrary: q s p n)
  case Nil
  then obtain d m where d: "D q = Some d" "AttachedTo d = 0" "n = Suc m" by (cases n) auto
  let ?p = "p\<lparr>CurrentLocation := 1, CurrentStackLocation := 0, stack := (stack p)[0 := (stack p ! 0)\<lparr>DeviceObject := q\<rparr>]\<rparr>"
  have c: "CurrentLocation p = 2" "stack p \<noteq> []" using Nil.prems(3,4) by (auto simp: wf_irp_def)
  then have "IofCallDriver (forward D n) q a s = Inr (STATUS_SUCCESS, s\<lparr>irps := (irps s)(a \<mapsto> ?p)\<rparr>)"
    using IofCallDriver_down [OF Nil.prems(2,3,5) _ refl, of "forward D n" q] Nil.prems(4) d by simp
  moreover have "map DeviceObject (stack ?p) = q # map DeviceObject (drop 1 (stack p))" using c(2) by (cases "stack p") simp_all
  ultimately show ?case by (intro exI [of _ ?p]) (simp del: fun_upd_apply)
next
  case (Cons r rs)
  then obtain d m where d: "D q = Some d" "AttachedTo d = r" "r \<noteq> 0" "path AttachedTo D r (r # rs)" "n = Suc m"
    by (cases n) auto
  let ?i = "Suc (length rs)"
  let ?p = "p\<lparr>CurrentLocation := CurrentLocation p - 1, CurrentStackLocation := CurrentStackLocation p - 1,
      stack := (stack p)[?i := (stack p ! ?i)\<lparr>DeviceObject := q\<rparr>]\<rparr>"
  let ?s = "s\<lparr>irps := (irps s)(a \<mapsto> ?p)\<rparr>"
  have i: "?i < length (stack p)" "CurrentLocation p \<noteq> 1" "nat (CurrentStackLocation p - 1) = ?i"
    using Cons.prems(3,4) by (auto simp: wf_irp_def)
  have "IofCallDriver (forward D n) q a s = forward D n q (MajorFunction (stack p ! ?i)) a ?s"
    by (rule IofCallDriver_down [OF Cons.prems(2,3,5) i(2) i(3) [symmetric]])
  then have run: "IofCallDriver (forward D n) q a s = IofCallDriver (forward D m) r a ?s" using d by simp
  have "irps ?s a = Some ?p" "wf_irp ?p" "CurrentStackLocation ?p = int (length rs) + 1" "cur_irql ?s \<le> DISPATCH_LEVEL" "length rs < m"
    using Cons.prems(3-6) d(5) by (simp_all add: wf_irp_def)
  from Cons.IH [OF d(4) this] obtain p' where p': "IofCallDriver (forward D m) r a ?s = Inr (STATUS_SUCCESS, ?s\<lparr>irps := (irps ?s)(a \<mapsto> p')\<rparr>)"
      "CurrentLocation p' = 1" "map DeviceObject (stack p') = rev (r # rs) @ map DeviceObject (drop ?i (stack ?p))"
    by (elim exE conjE) (rule that; assumption)
  have "drop ?i (stack ?p) = (stack p ! ?i)\<lparr>DeviceObject := q\<rparr> # drop (Suc ?i) (stack p)"
    using i(1) by (simp add: Cons_nth_drop_Suc [symmetric] drop_update_swap)
  with run p' show ?case by (intro exI [of _ p']) (simp del: fun_upd_apply)
qed

lemma counted_attach:
  assumes "counted D ps" "D' = D(q \<mapsto> x, last ps \<mapsto> l\<lparr>AttachedDevice := q\<rparr>)" "D (last ps) = Some l" "ps \<noteq> []" "q \<notin> set ps" "distinct ps"
    and "DEVICE_OBJECT.StackSize x = cchar (DEVICE_OBJECT.StackSize l + 1)" "length ps < 127"
  shows "counted D' (ps @ [q])"
proof -
  have last: "ps ! (length ps - 1) = last ps" using assms(4) by (simp add: last_conv_nth)
  have len: "int (length ps - 1) + 1 = int (length ps)" using assms(4) by (cases ps) simp_all
  then have l: "DEVICE_OBJECT.StackSize l = int (length ps)"
    using assms(1,3,4) last by (auto simp: counted_def dest!: spec [of _ "length ps - 1"])
  have "\<exists>d. D' ((ps @ [q]) ! i) = Some d \<and> DEVICE_OBJECT.StackSize d = int i + 1" if i: "i < length ps" for i
  proof (cases "ps ! i = last ps")
    case True
    then have "i = length ps - 1" using i assms(4,6) last by (metis diff_less length_greater_0_conv nth_eq_iff_index_eq zero_less_one)
    with True i l len assms(2,4) show ?thesis by (simp add: nth_append)
  next
    case False
    moreover have "ps ! i \<noteq> q" using i assms(5) nth_mem by blast
    ultimately show ?thesis using i assms(1,2) by (simp add: nth_append counted_def)
  qed
  moreover have "q \<noteq> last ps" using assms(4,5) by auto
  then have "D' ((ps @ [q]) ! length ps) = Some x \<and> DEVICE_OBJECT.StackSize x = int (length ps) + 1"
    using l assms(2,7,8) by simp
  ultimately show ?thesis unfolding counted_def by (metis length_append_singleton less_Suc_eq)
qed

section \<open>Properties\<close>

text \<open>
  C19.  From attaching to the bottom: a device attached to a stack whose sizes count its devices makes a stack whose sizes do so again, and a packet allocated
  for its top with IoAllocateIrp and sent there with IofCallDriver, by drivers that pass it on, reaches every device once, in the order of the stack, uses exactly its locations
  and ends at the bottom with success.
\<close>

theorem packet_reaches_every_device:
  assumes "is_stack D ps" "counted D ps" "p \<in> set ps" "is_stack D [q]" "q \<notin> set ps" "length ps < 125"
    and "pool_left s \<noteq> 0" "next_addr s \<noteq> 0" "cur_irql s \<le> DISPATCH_LEVEL"
  shows "\<exists>r D' d a s1 s2 irp. IoAttachDeviceToDeviceStack q p D = Inr (r, D') \<and> is_stack D' (ps @ [q]) \<and> counted D' (ps @ [q]) \<and>
    D' q = Some d \<and> IoAllocateIrp (DEVICE_OBJECT.StackSize d) s = Inr (a, s1) \<and>
    IofCallDriver (forward D' (length ps + 1)) q a s1 = Inr (STATUS_SUCCESS, s2) \<and>
    irps s2 a = Some irp \<and> CurrentLocation irp = 1 \<and> map DeviceObject (stack irp) = ps @ [q]"
proof -
  have ne: "ps \<noteq> []" "distinct ps" using assms(1) by (simp_all add: is_stack_def)
  obtain x0 where x0: "q \<noteq> 0" "D q = Some x0" "AttachedDevice x0 = 0" using assms(4) by (auto simp: stack_single)
  obtain l where l: "D (last ps) = Some l" using stack_bounds(4) [OF assms(1), of "last ps"] ne by auto
  have ql: "q \<noteq> last ps" using assms(5) ne by auto
  define x where "x = x0\<lparr>DEVICE_OBJECT.StackSize := cchar (DEVICE_OBJECT.StackSize l + 1), AlignmentRequirement := AlignmentRequirement l, AttachedTo := last ps\<rparr>"
  define D' where "D' = D(q \<mapsto> x, last ps \<mapsto> l\<lparr>AttachedDevice := q\<rparr>)"
  have run: "IoAttachDeviceToDeviceStack q p D = Inr (last ps, D')"
    using IoAttachDeviceToDeviceStackSafe_eq [OF stack_bounds(1) [OF assms(1,3)] l x0(2) ql]
    by (simp add: IoAttachDeviceToDeviceStack_def bindS_def NT_SUCCESS_def D'_def x_def)
  have st: "is_stack D' (ps @ [q])" unfolding D'_def
    by (rule stack_attach [OF assms(1) x0(2,3) assms(5) x0(1) l]) (simp_all add: x0(3) x_def)
  have co: "counted D' (ps @ [q])"
    using counted_attach [OF assms(2) D'_def l ne(1) assms(5) ne(2)] assms(6) by (simp add: x_def)
  obtain d where d: "D' q = Some d" "DEVICE_OBJECT.StackSize d = int (length ps) + 1"
    using co by (auto simp: counted_def dest!: spec [of _ "length ps"])
  define n where "n = int (length ps) + 1"
  define s1 where "s1 = s\<lparr>pool_left := pool_left s - 1, next_addr := next_addr s + 1, irps := (irps s)(next_addr s \<mapsto> fresh_irp n)\<rparr>"
  have alloc: "IoAllocateIrp n s = Inr (next_addr s, s1)"
    unfolding s1_def by (rule IoAllocateIrp_eval) (use assms(6-8) in \<open>simp_all add: n_def\<close>)
  have "path AttachedTo D' q (q # rev ps)" using st by (simp add: is_stack_def)
  then obtain irp where "IofCallDriver (forward D' (length ps + 1)) q (next_addr s) s1 = Inr (STATUS_SUCCESS, s1\<lparr>irps := (irps s1)(next_addr s \<mapsto> irp)\<rparr>)"
      "CurrentLocation irp = 1" "map DeviceObject (stack irp) = rev (q # rev ps) @ map DeviceObject (drop (Suc (length ps)) (stack (fresh_irp n)))"
    using forward_reaches [of D' q "rev ps" s1 "next_addr s" "fresh_irp n" "length ps + 1"] wf_fresh_irp [of n] assms(6,9)
    by (auto simp: s1_def n_def fresh_irp_def)
  with run st co d alloc show ?thesis by (fastforce simp: n_def fresh_irp_def)
qed

theorem packet_reaches_every_device_witness:
  "\<exists>r D' d a s1 s2 irp. IoAttachDeviceToDeviceStack 3 1 dev_example = Inr (r, D') \<and> is_stack D' [1, 2, 3] \<and> counted D' [1, 2, 3] \<and>
    D' 3 = Some d \<and> IoAllocateIrp (DEVICE_OBJECT.StackSize d) sample_io = Inr (a, s1) \<and>
    IofCallDriver (forward D' 3) 3 a s1 = Inr (STATUS_SUCCESS, s2) \<and>
    irps s2 a = Some irp \<and> CurrentLocation irp = 1 \<and> map DeviceObject (stack irp) = [1, 2, 3]"
proof -
  have "counted dev_example [1, 2]"
    by (auto simp: counted_def dev_example_def example_device_def less_Suc_eq)
  then show ?thesis
    using packet_reaches_every_device [OF dev_example_stacks(1) _ _ dev_example_stacks(2), of 1 sample_io]
    by (simp add: sample_io_def numeral_3_eq_3)
qed

end
