(* ===== verification/RemoveLock.thy ===== *)
theory RemoveLock
  imports DdkBase
begin

text \<open>
  Remove locks: the last part of src/src/device.cpp.

  Any number of requests acquire and release a remove lock at the same time, and one of those that hold it removes the device:
  it marks the lock, gives up its own and the initial reference and waits until all others have released it.  Each routine is cut
  into its atomic steps (an interlocked operation, reading or writing the mark, setting or waiting for the notification event); a
  request is at one of the points between the steps, and the steps of all requests interleave.  \<open>IoCount\<close> is a
  32-bit counter.
\<close>

section \<open>Definitions\<close>

record RL_DBG =
  AllocateTag :: nat
  HighWatermark :: nat
  MaxLockedTicks :: int

record RLOCK =
  IoCount :: int
  Removed :: bool
  RemoveEvent :: bool
  Dbg :: "RL_DBG option"

text \<open>
  \<open>common\<close> is the size of the common part of the lock, which \<open>RemlockSize\<close> covers; \<open>inc\<close> is the time increment, not 0.
\<close>

definition IoInitializeRemoveLockEx :: "nat \<Rightarrow> nat \<Rightarrow> nat \<Rightarrow> nat \<Rightarrow> nat \<Rightarrow> nat \<Rightarrow> RLOCK" where
  "IoInitializeRemoveLockEx common inc tag MaxLockedMinutes high RemlockSize =
     \<lparr>IoCount = 1, Removed = False, RemoveEvent = False,
      Dbg = (if RemlockSize > common
             then Some \<lparr>AllocateTag = tag, HighWatermark = high, MaxLockedTicks = (int MaxLockedMinutes * 600000000) div int inc\<rparr>
             else None)\<rparr>"

text \<open>The points a request can be at: outside, holding the lock, or inside one of the routines.\<close>

datatype RLPC = Idle | AcqTest | AcqUndo | AcqSet | Held | RelSet | RemDec1 | RemDec2 | RemWait | RemDone

text \<open>
  IoAcquireRemoveLockEx: begun by a request outside; it ends in \<open>Held\<close> with STATUS_SUCCESS and in \<open>Idle\<close> with STATUS_DELETE_PENDING.
\<close>

definition IoAcquireRemoveLockEx :: "RLPC \<Rightarrow> RLOCK \<Rightarrow> (RLPC \<times> RLOCK) option" where
  "IoAcquireRemoveLockEx pc l =
     (case pc of
        Idle \<Rightarrow> Some (AcqTest, l\<lparr>IoCount := wrap32 (IoCount l + 1)\<rparr>)
      | AcqTest \<Rightarrow> Some (if Removed l then AcqUndo else Held, l)
      | AcqUndo \<Rightarrow> Some (if wrap32 (IoCount l - 1) = 0 then AcqSet else Idle, l\<lparr>IoCount := wrap32 (IoCount l - 1)\<rparr>)
      | AcqSet \<Rightarrow> Some (Idle, l\<lparr>RemoveEvent := True\<rparr>)
      | _ \<Rightarrow> None)"

definition IoReleaseRemoveLockEx :: "RLPC \<Rightarrow> RLOCK \<Rightarrow> (RLPC \<times> RLOCK) option" where
  "IoReleaseRemoveLockEx pc l =
     (case pc of
        Held \<Rightarrow> Some (if wrap32 (IoCount l - 1) = 0 then RelSet else Idle, l\<lparr>IoCount := wrap32 (IoCount l - 1)\<rparr>)
      | RelSet \<Rightarrow> Some (Idle, l\<lparr>RemoveEvent := True\<rparr>)
      | _ \<Rightarrow> None)"

definition IoReleaseRemoveLockAndWaitEx :: "RLPC \<Rightarrow> RLOCK \<Rightarrow> (RLPC \<times> RLOCK) option" where
  "IoReleaseRemoveLockAndWaitEx pc l =
     (case pc of
        Held \<Rightarrow> Some (RemDec1, l\<lparr>Removed := True\<rparr>)
      | RemDec1 \<Rightarrow> Some (RemDec2, l\<lparr>IoCount := wrap32 (IoCount l - 1)\<rparr>)
      | RemDec2 \<Rightarrow> Some (if wrap32 (IoCount l - 1) > 0 then RemWait else RemDone, l\<lparr>IoCount := wrap32 (IoCount l - 1)\<rparr>)
      | RemWait \<Rightarrow> if RemoveEvent l then Some (RemDone, l) else None
      | _ \<Rightarrow> None)"

definition removing :: "RLPC \<Rightarrow> bool" where
  "removing pc \<longleftrightarrow> pc = RemDec1 \<or> pc = RemDec2 \<or> pc = RemWait \<or> pc = RemDone"

type_synonym RLSTATE = "RLOCK \<times> RLPC list"

text \<open>
  Steps of the requests: \<open>rl_finish\<close> are those that carry on with what has been begun or let go of the lock; a new acquisition is
  the other kind.  The device is removed once.
\<close>

inductive rl_finish :: "RLSTATE \<Rightarrow> RLSTATE \<Rightarrow> bool" where
  acquire: "i < length pcs \<Longrightarrow> pcs ! i \<noteq> Idle \<Longrightarrow> IoAcquireRemoveLockEx (pcs ! i) l = Some (pc, l') \<Longrightarrow>
    rl_finish (l, pcs) (l', pcs[i := pc])"
| release: "i < length pcs \<Longrightarrow> IoReleaseRemoveLockEx (pcs ! i) l = Some (pc, l') \<Longrightarrow> rl_finish (l, pcs) (l', pcs[i := pc])"
| remove: "i < length pcs \<Longrightarrow> pcs ! i = Held \<longrightarrow> (\<forall>pc \<in> set pcs. \<not> removing pc) \<Longrightarrow>
    IoReleaseRemoveLockAndWaitEx (pcs ! i) l = Some (pc, l') \<Longrightarrow> rl_finish (l, pcs) (l', pcs[i := pc])"

inductive rl_step :: "RLSTATE \<Rightarrow> RLSTATE \<Rightarrow> bool" where
  begin_acquire: "i < length pcs \<Longrightarrow> pcs ! i = Idle \<Longrightarrow> IoAcquireRemoveLockEx Idle l = Some (pc, l') \<Longrightarrow>
    rl_step (l, pcs) (l', pcs[i := pc])"
| finish: "rl_finish s s' \<Longrightarrow> rl_step s s'"

inductive rl_reach :: "RLSTATE \<Rightarrow> bool" where
  start: "n < 2 ^ 31 - 2 \<Longrightarrow> rl_reach (IoInitializeRemoveLockEx common inc tag minutes high sz, replicate n Idle)"
| step: "rl_reach s \<Longrightarrow> rl_step s s' \<Longrightarrow> rl_reach s'"

inductive_cases rl_finishE: "rl_finish (l, pcs) s'"
inductive_cases rl_stepE: "rl_step (l, pcs) s'"

section \<open>The invariant\<close>

text \<open>
  The counter is 1 plus the references the requests have, less the initial one once it has been given up; at most one request
  removes.  When the event has been or is about to be set, the remover has given up both references and nobody holds the lock; while the
  remover waits, the event has been or is about to be set, or references are left.
\<close>

definition rl_inv :: "RLSTATE \<Rightarrow> bool" where
  "rl_inv = (\<lambda>(l, pcs).
     int (length pcs) < 2 ^ 31 - 2 \<and>
     IoCount l = 1 + cnt AcqTest pcs + cnt AcqUndo pcs + cnt Held pcs + cnt RemDec1 pcs - cnt RemWait pcs - cnt RemDone pcs \<and>
     cnt RemDec1 pcs + cnt RemDec2 pcs + cnt RemWait pcs + cnt RemDone pcs = of_bool (Removed l) \<and>
     (RemoveEvent l \<or> cnt AcqSet pcs > 0 \<or> cnt RelSet pcs > 0 \<or> cnt RemDone pcs > 0 \<longrightarrow>
       cnt RemWait pcs + cnt RemDone pcs > 0 \<and> cnt Held pcs = 0) \<and>
     (cnt RemWait pcs > 0 \<longrightarrow> RemoveEvent l \<or> cnt AcqSet pcs > 0 \<or> cnt RelSet pcs > 0 \<or> IoCount l > 0))"

section \<open>Lemmas\<close>

lemma cnt_le: "cnt AcqTest pcs + cnt AcqUndo pcs + cnt Held pcs + cnt RemDec1 pcs \<le> int (length pcs)"
  by (induction pcs) (auto simp: cnt_def)

lemma cnt_replicate: "cnt c (replicate n Idle) = (if c = Idle then int n else 0)"
  by (induction n) (auto simp: cnt_def)

text \<open>The counter does not wrap.\<close>

lemma rl_inv_bound:
  assumes "rl_inv (l, pcs)"
  shows "wrap32 (IoCount l + 1) = IoCount l + 1" "wrap32 (IoCount l - 1) = IoCount l - 1"
proof -
  have "cnt RemWait pcs + cnt RemDone pcs \<le> 1"
    using assms cnt_nonneg [of RemDec1 pcs] cnt_nonneg [of RemDec2 pcs] by (auto simp: rl_inv_def of_bool_def split: if_splits)
  then have "0 \<le> IoCount l" "IoCount l + 1 < 2 ^ 31"
    using assms cnt_le [of pcs] cnt_nonneg [of AcqTest pcs] cnt_nonneg [of AcqUndo pcs] cnt_nonneg [of Held pcs] cnt_nonneg [of RemDec1 pcs]
      cnt_nonneg [of RemWait pcs] cnt_nonneg [of RemDone pcs] by (auto simp: rl_inv_def)
  then show "wrap32 (IoCount l + 1) = IoCount l + 1" "wrap32 (IoCount l - 1) = IoCount l - 1"
    by (simp_all add: wrap32_small)
qed

lemmas cnt_facts = cnt_nonneg [of AcqTest] cnt_nonneg [of AcqUndo] cnt_nonneg [of AcqSet] cnt_nonneg [of Held] cnt_nonneg [of RelSet]
  cnt_nonneg [of RemDec1] cnt_nonneg [of RemDec2] cnt_nonneg [of RemWait] cnt_nonneg [of RemDone]

lemma acquire_inv:
  assumes inv: "rl_inv (l, pcs)" and i: "i < length pcs" and st: "IoAcquireRemoveLockEx (pcs ! i) l = Some (pc, l')"
  shows "rl_inv (l', pcs[i := pc])"
proof -
  note facts = inv [unfolded rl_inv_def] cnt_facts [of pcs] cnt_here [OF i]
  note st = st [unfolded IoAcquireRemoveLockEx_def rl_inv_bound [OF inv]]
  show ?thesis
  proof (cases "pcs ! i")
    case Idle
    with st facts show ?thesis by (clarsimp simp: rl_inv_def cnt_update [OF i]; presburger)
  next
    case AcqTest
    with st facts show ?thesis
      by (cases "Removed l") (clarsimp simp: rl_inv_def cnt_update [OF i]; presburger)+
  next
    case AcqUndo
    with st facts show ?thesis
      by (cases "IoCount l = 1"; cases "Removed l") (clarsimp simp: rl_inv_def cnt_update [OF i]; presburger)+
  next
    case AcqSet
    with st facts show ?thesis by (clarsimp simp: rl_inv_def cnt_update [OF i]; presburger)
  qed (use st in simp_all)
qed

lemma release_inv:
  assumes inv: "rl_inv (l, pcs)" and i: "i < length pcs" and st: "IoReleaseRemoveLockEx (pcs ! i) l = Some (pc, l')"
  shows "rl_inv (l', pcs[i := pc])"
proof -
  note facts = inv [unfolded rl_inv_def] cnt_facts [of pcs] cnt_here [OF i]
  show ?thesis
    using st facts unfolding IoReleaseRemoveLockEx_def rl_inv_bound [OF inv]
    by (cases "pcs ! i") (auto simp: rl_inv_def cnt_update [OF i] split: if_splits)
qed

lemma remove_inv:
  assumes inv: "rl_inv (l, pcs)" and i: "i < length pcs" and st: "IoReleaseRemoveLockAndWaitEx (pcs ! i) l = Some (pc, l')"
    and once: "pcs ! i = Held \<longrightarrow> (\<forall>pc \<in> set pcs. \<not> removing pc)"
  shows "rl_inv (l', pcs[i := pc])"
proof -
  note facts = inv [unfolded rl_inv_def] cnt_facts [of pcs] cnt_here [OF i]
  have "pcs ! i = Held \<longrightarrow> \<not> Removed l"
  proof
    assume "pcs ! i = Held"
    then have "RemDec1 \<notin> set pcs" "RemDec2 \<notin> set pcs" "RemWait \<notin> set pcs" "RemDone \<notin> set pcs"
      using once by (auto simp: removing_def)
    then have "cnt RemDec1 pcs = 0" "cnt RemDec2 pcs = 0" "cnt RemWait pcs = 0" "cnt RemDone pcs = 0" by (simp_all add: cnt_def)
    with facts(1) show "\<not> Removed l" by simp
  qed
  note once = this
  note st = st [unfolded IoReleaseRemoveLockAndWaitEx_def rl_inv_bound [OF inv]]
  show ?thesis
  proof (cases "pcs ! i")
    case Held
    with st facts once show ?thesis by (clarsimp simp: rl_inv_def cnt_update [OF i]; presburger)
  next
    case RemDec1
    with st facts show ?thesis by (cases "Removed l") (clarsimp simp: rl_inv_def cnt_update [OF i]; presburger)+
  next
    case RemDec2
    with st facts show ?thesis by (cases "Removed l"; cases "IoCount l > 1") (clarsimp simp: rl_inv_def cnt_update [OF i]; presburger)+
  next
    case RemWait
    with st facts show ?thesis by (cases "Removed l"; cases "RemoveEvent l") (clarsimp simp: rl_inv_def cnt_update [OF i]; presburger)+
  qed (use st in simp_all)
qed

lemma rl_finish_inv:
  assumes "rl_finish (l, pcs) s'" "rl_inv (l, pcs)"
  shows "rl_inv s'"
  using assms(1) by (cases rule: rl_finishE) (auto intro: acquire_inv [OF assms(2)] release_inv [OF assms(2)] remove_inv [OF assms(2)])

lemma rl_reach_inv: "rl_reach s \<Longrightarrow> rl_inv s"
proof (induction rule: rl_reach.induct)
  case (start n common inc tag minutes high sz)
  then show ?case by (simp add: rl_inv_def cnt_replicate IoInitializeRemoveLockEx_def)
next
  case (step s s')
  obtain l pcs where s: "s = (l, pcs)" by force
  from step.hyps(2) step.IH show ?case
    unfolding s by (cases rule: rl_stepE) (auto intro: rl_finish_inv acquire_inv)
qed

text \<open>How far a request is from being done.\<close>

fun weight :: "RLPC \<Rightarrow> nat" where
  "weight Idle = 0"
| "weight AcqTest = 7"
| "weight AcqUndo = 2"
| "weight AcqSet = 1"
| "weight Held = 6"
| "weight RelSet = 1"
| "weight RemDec1 = 5"
| "weight RemDec2 = 4"
| "weight RemWait = 3"
| "weight RemDone = 0"

definition total :: "RLPC list \<Rightarrow> nat" where
  "total pcs = sum_list (map weight pcs)"

lemma total_update:
  assumes "i < length pcs" "weight pc < weight (pcs ! i)"
  shows "total (pcs[i := pc]) < total pcs"
proof -
  have "weight (pcs ! i) \<le> total pcs" unfolding total_def using assms(1) by (intro member_le_sum_list) auto
  with assms show ?thesis by (simp add: total_def map_update sum_list_update)
qed

lemma finish_weight:
  "pc0 \<noteq> Idle \<Longrightarrow> IoAcquireRemoveLockEx pc0 l = Some (pc, l') \<Longrightarrow> weight pc < weight pc0"
  "IoReleaseRemoveLockEx pc0 l = Some (pc, l') \<Longrightarrow> weight pc < weight pc0"
  "IoReleaseRemoveLockAndWaitEx pc0 l = Some (pc, l') \<Longrightarrow> weight pc < weight pc0"
  by (cases pc0; auto simp: IoAcquireRemoveLockEx_def IoReleaseRemoveLockEx_def IoReleaseRemoveLockAndWaitEx_def split: if_splits)+

lemma finish_total:
  assumes "rl_finish (l, pcs) (l', pcs')"
  shows "total pcs' < total pcs"
  using assms by (cases rule: rl_finishE) (auto intro: total_update finish_weight)

text \<open>Whoever is not done has a step, the waiting remover alone excepted.\<close>

lemma can_finish:
  assumes "i < length pcs" "pcs ! i \<noteq> Idle" "pcs ! i \<noteq> RemDone" "pcs ! i = RemWait \<longrightarrow> RemoveEvent l"
  shows "\<exists>s'. rl_finish (l, pcs) s'"
proof (cases "IoAcquireRemoveLockEx (pcs ! i) l")
  case (Some r)
  then show ?thesis using assms(1,2) by (cases r) (blast intro: rl_finish.acquire)
next
  case acq: None
  show ?thesis
  proof (cases "IoReleaseRemoveLockEx (pcs ! i) l")
    case (Some r)
    then show ?thesis using assms(1) by (cases r) (blast intro: rl_finish.release)
  next
    case None
    then have "pcs ! i \<noteq> Held" "\<exists>r. IoReleaseRemoveLockAndWaitEx (pcs ! i) l = Some r"
      using acq assms(2-4)
      by (cases "pcs ! i"; simp add: IoAcquireRemoveLockEx_def IoReleaseRemoveLockEx_def IoReleaseRemoveLockAndWaitEx_def)+
    then show ?thesis using assms(1) by (auto intro: rl_finish.remove)
  qed
qed

section \<open>Properties\<close>

text \<open>A run of one request that acquires the lock and removes the device.\<close>

definition rl :: "int \<Rightarrow> bool \<Rightarrow> RLOCK" where
  "rl n removed = \<lparr>IoCount = n, Removed = removed, RemoveEvent = False, Dbg = None\<rparr>"

lemma rl_held: "rl_reach (rl 2 False, [Held])"
proof -
  have "rl_reach (IoInitializeRemoveLockEx 32 1 0 0 0 32, replicate 1 Idle)" by (rule rl_reach.start) simp
  then have 0: "rl_reach (rl 1 False, [Idle])" by (simp add: IoInitializeRemoveLockEx_def rl_def)
  have "rl_step (rl 1 False, [Idle]) (rl 2 False, [Idle][0 := AcqTest])"
    by (rule rl_step.begin_acquire) (simp_all add: IoAcquireRemoveLockEx_def rl_def wrap32_small)
  moreover have "rl_finish (rl 2 False, [AcqTest]) (rl 2 False, [AcqTest][0 := Held])"
    by (rule rl_finish.acquire) (simp_all add: IoAcquireRemoveLockEx_def rl_def)
  ultimately show ?thesis using rl_reach.step [OF rl_reach.step [OF 0]] rl_step.finish by fastforce
qed

lemma rl_removed: "rl_reach (rl 0 True, [RemDone])"
proof -
  have "rl_finish (rl 2 False, [Held]) (rl 2 True, [Held][0 := RemDec1])"
    by (rule rl_finish.remove) (simp_all add: IoReleaseRemoveLockAndWaitEx_def rl_def removing_def)
  moreover have "rl_finish (rl 2 True, [RemDec1]) (rl 1 True, [RemDec1][0 := RemDec2])"
    by (rule rl_finish.remove) (simp_all add: IoReleaseRemoveLockAndWaitEx_def rl_def wrap32_small)
  moreover have "rl_finish (rl 1 True, [RemDec2]) (rl 0 True, [RemDec2][0 := RemDone])"
    by (rule rl_finish.remove) (simp_all add: IoReleaseRemoveLockAndWaitEx_def rl_def wrap32_small)
  ultimately show ?thesis using rl_reach.step [OF rl_reach.step [OF rl_reach.step [OF rl_held]]] rl_step.finish by fastforce
qed

text \<open>
  C20.  When IoReleaseRemoveLockAndWaitEx has returned, nobody holds the remove lock, and nobody will: in every interleaving of acquisitions, releases
  and the removal by any number of requests, a state in which the remover is done has no holder, and an acquisition under way ends with
  STATUS_DELETE_PENDING.
\<close>

theorem remove_lock_safe:
  assumes "rl_reach (l, pcs)" "RemDone \<in> set pcs"
  shows "Held \<notin> set pcs \<and> Removed l \<and> IoAcquireRemoveLockEx AcqTest l = Some (AcqUndo, l)"
proof -
  have "0 < cnt RemDone pcs" using assms(2) by (simp add: cnt_pos)
  moreover from this rl_reach_inv [OF assms(1)] cnt_facts [of pcs] have "cnt Held pcs = 0" "Removed l"
    by (auto simp: rl_inv_def of_bool_def split: if_splits)
  ultimately show ?thesis using cnt_pos [of Held pcs] by (auto simp: IoAcquireRemoveLockEx_def)
qed

theorem remove_lock_safe_witness:
  "Held \<notin> set [RemDone] \<and> Removed (rl 0 True) \<and>
   IoAcquireRemoveLockEx AcqTest (rl 0 True) = Some (AcqUndo, rl 0 True)"
  using remove_lock_safe [OF rl_removed] by simp

text \<open>
  C21.  The removal is not stuck: when no new acquisition is begun, every further step of a request brings all of them nearer to the end, and when no request
  can take a step, all are outside and the remover, if there is one, is done; in particular it does not wait for an event that nobody will set.
\<close>

theorem remove_lock_drains:
  assumes "rl_reach (l, pcs)"
  shows "(\<forall>l' pcs'. rl_finish (l, pcs) (l', pcs') \<longrightarrow> total pcs' < total pcs) \<and>
    ((\<nexists>s'. rl_finish (l, pcs) s') \<longrightarrow> set pcs \<subseteq> {Idle, RemDone})"
proof -
  have "pc = Idle \<or> pc = RemDone" if stuck: "\<nexists>s'. rl_finish (l, pcs) s'" and pc: "pc \<in> set pcs" for pc
  proof (rule ccontr)
    have fin: "pcs ! i = Idle \<or> pcs ! i = RemDone \<or> pcs ! i = RemWait \<and> \<not> RemoveEvent l" if "i < length pcs" for i
      using can_finish [OF that] stuck by blast
    then have only: "q \<in> {Idle, RemDone, RemWait}" if "q \<in> set pcs" for q using that by (auto simp: in_set_conv_nth)
    assume "\<not> (pc = Idle \<or> pc = RemDone)"
    with pc only have w: "RemWait \<in> set pcs" by fastforce
    then obtain i where "i < length pcs" "pcs ! i = RemWait" by (auto simp: in_set_conv_nth)
    with fin have "\<not> RemoveEvent l" by fastforce
    moreover have "cnt AcqTest pcs = 0" "cnt AcqUndo pcs = 0" "cnt AcqSet pcs = 0" "cnt Held pcs = 0" "cnt RelSet pcs = 0" "cnt RemDec1 pcs = 0"
      using only cnt_pos [of _ pcs] cnt_facts [of pcs] by (fastforce simp: cnt_def)+
    moreover have "0 < cnt RemWait pcs" using w by (simp add: cnt_pos)
    ultimately show False using rl_reach_inv [OF assms] cnt_nonneg [of RemDone pcs] by (auto simp: rl_inv_def)
  qed
  then show ?thesis using finish_total by blast
qed

theorem remove_lock_drains_witness:
  "rl_finish (rl 2 False, [Held]) (rl 1 False, [Idle]) \<and> total [Idle] < total [Held] \<and> set [RemDone] \<subseteq> {Idle, RemDone}"
proof -
  have step: "rl_finish (rl 2 False, [Held]) (rl 1 False, [Held][0 := Idle])"
    by (rule rl_finish.release) (simp_all add: IoReleaseRemoveLockEx_def rl_def wrap32_small)
  have stuck: "\<nexists>s'. rl_finish (rl 0 True, [RemDone]) s'"
    by (auto elim!: rl_finishE simp: IoAcquireRemoveLockEx_def IoReleaseRemoveLockEx_def IoReleaseRemoveLockAndWaitEx_def)
  show ?thesis
    using remove_lock_drains [OF rl_held] remove_lock_drains [OF rl_removed] step stuck by simp
qed

end
