(* ===== verification/Deferred.thy ===== *)
theory Deferred
  imports DdkBase "HOL-Library.Multiset"
begin

text \<open>
  Deferred procedure calls: src/src/dpc.cpp.

  A queued DPC is work submitted to the thread pool of Windows, which starts the callback on a thread of its own; a DPC
  may be queued again as soon as its callback has cleared \<open>queued\<close>, even while its routine is still running.  The routines and the callback are cut into
  the steps other threads can see: KeInsertQueueDpc marks the DPC, counts it and submits it in three steps, the callback clears the mark, leaves the thread pool's account,
  calls the routine and counts its end in four.  \<open>Lock\<close> is the critical section of the DPC together with the point in KeInsertQueueDpc of the thread that holds it (any thread, also one
  that runs a routine); KeRemoveQueueDpc decides in one step, since it does not change anything else while it holds the section.  The two arguments of a DPC are written together and read together.
  Threads are at points between the steps, and the steps of all threads interleave.  The thread pool behaves as documented: submitted work is started once, on an idle thread or on a new
  one; WaitForThreadpoolWorkCallbacks cancels what has not been started and waits for the callbacks that have been, until they are
  disassociated from their thread.

  \<open>inserts\<close>, \<open>runs\<close> and \<open>removes\<close> record what has happened: the DPCs that were accepted with TRUE, the calls of routines (DPC, arguments, level), the
  DPCs whose removal answers TRUE.  A routine that returns at another level than it was called at stops the test and is not a step.
\<close>

section \<open>Definitions\<close>

datatype INSPC = LockFree | InMarked | InCounted

record DPC =
  submitted :: nat
  Lock :: INSPC
  DeferredRoutine :: nat
  DeferredContext :: nat
  SystemArgument1 :: nat
  SystemArgument2 :: nat
  queued :: bool
  cancel :: bool
  threaded :: bool

record DPCS =
  dpcs :: "DPC list"
  DpcsQueued :: int
  DpcsCompleted :: int
  inserts :: "nat list"
  runs :: "(nat \<times> nat \<times> nat \<times> nat) list"
  removes :: "nat list"

text \<open>Points of a thread: outside, in the callback of a DPC, in KeRemoveQueueDpc, in KeFlushQueuedDpcs.\<close>

datatype DPCPC = Out | CbStarted nat | CbCleared nat | CbDetached nat | CbRunning nat
  | RmCancel nat | RmDrain nat | RmSettle nat | RmCount nat bool | RmClear nat bool | FlWait int

definition upd_dpc :: "nat \<Rightarrow> (DPC \<Rightarrow> DPC) \<Rightarrow> DPCS \<Rightarrow> DPCS" where
  "upd_dpc d f s = s\<lparr>dpcs := (dpcs s)[d := f (dpcs s ! d)]\<rparr>"

definition KeInitializeDpc :: "nat \<Rightarrow> nat \<Rightarrow> DPCS \<Rightarrow> DPCS" where
  "KeInitializeDpc routine context s =
     s\<lparr>dpcs := dpcs s @ [\<lparr>submitted = 0, Lock = LockFree, DeferredRoutine = routine, DeferredContext = context, SystemArgument1 = 0, SystemArgument2 = 0,
        queued = False, cancel = False, threaded = False\<rparr>]\<rparr>"

definition KeInitializeThreadedDpc :: "nat \<Rightarrow> nat \<Rightarrow> DPCS \<Rightarrow> DPCS" where
  "KeInitializeThreadedDpc routine context s =
     upd_dpc (length (dpcs s)) (\<lambda>p. p\<lparr>threaded := True\<rparr>) (KeInitializeDpc routine context s)"

text \<open>The part of KeInsertQueueDpc up to the mark, and the rest, which answers TRUE.\<close>

definition KeInsertQueueDpc_begin :: "nat \<Rightarrow> nat \<Rightarrow> nat \<Rightarrow> DPCS \<Rightarrow> bool \<times> DPCS" where
  "KeInsertQueueDpc_begin d a1 a2 s =
     (if queued (dpcs s ! d) \<or> cancel (dpcs s ! d) then (False, s)
      else (True, (upd_dpc d (\<lambda>p. p\<lparr>SystemArgument1 := a1, SystemArgument2 := a2, queued := True, Lock := InMarked\<rparr>) s)
                    \<lparr>inserts := inserts s @ [d]\<rparr>))"

definition KeInsertQueueDpc :: "nat \<Rightarrow> DPCS \<Rightarrow> DPCS option" where
  "KeInsertQueueDpc d s =
     (case Lock (dpcs s ! d) of
        InMarked \<Rightarrow> Some ((upd_dpc d (\<lambda>p. p\<lparr>Lock := InCounted\<rparr>) s)\<lparr>DpcsQueued := DpcsQueued s + 1\<rparr>)
      | InCounted \<Rightarrow> Some (upd_dpc d (\<lambda>p. p\<lparr>submitted := submitted p + 1, Lock := LockFree\<rparr>) s)
      | LockFree \<Rightarrow> None)"

definition dpc_irql :: "DPC \<Rightarrow> nat" where
  "dpc_irql p = (if threaded p then PASSIVE_LEVEL else DISPATCH_LEVEL)"

text \<open>The callback: it clears \<open>queued\<close>, leaves the thread pool's account, and calls the routine with the arguments it finds then.\<close>

definition DdkDpcCallback :: "DPCPC \<Rightarrow> DPCS \<Rightarrow> (DPCPC \<times> DPCS) option" where
  "DdkDpcCallback pc s =
     (case pc of
        CbStarted d \<Rightarrow> Some (CbCleared d, upd_dpc d (\<lambda>p. p\<lparr>queued := False\<rparr>) s)
      | CbCleared d \<Rightarrow> Some (CbDetached d, s)
      | CbDetached d \<Rightarrow>
          let p = dpcs s ! d
          in Some (CbRunning d, s\<lparr>runs := runs s @ [(d, SystemArgument1 p, SystemArgument2 p, dpc_irql p)]\<rparr>)
      | CbRunning d \<Rightarrow> Some (Out, s\<lparr>DpcsCompleted := DpcsCompleted s + 1\<rparr>)
      | _ \<Rightarrow> None)"

definition KeRemoveQueueDpc_begin :: "nat \<Rightarrow> DPCS \<Rightarrow> DPCPC \<times> DPCS" where
  "KeRemoveQueueDpc_begin d s =
     (if \<not> queued (dpcs s ! d) \<or> cancel (dpcs s ! d) then (Out, s) else (RmCancel d, upd_dpc d (\<lambda>p. p\<lparr>cancel := True\<rparr>) s))"

definition associated :: "nat \<Rightarrow> DPCPC \<Rightarrow> bool" where
  "associated d pc \<longleftrightarrow> pc = CbStarted d \<or> pc = CbCleared d"

definition KeRemoveQueueDpc :: "DPCPC list \<Rightarrow> DPCPC \<Rightarrow> DPCS \<Rightarrow> (DPCPC \<times> DPCS) option" where
  "KeRemoveQueueDpc pcs pc s =
     (case pc of
        RmCancel d \<Rightarrow> Some (RmDrain d, upd_dpc d (\<lambda>p. p\<lparr>submitted := 0\<rparr>) s)
      | RmDrain d \<Rightarrow> if \<exists>q \<in> set pcs. associated d q then None else Some (RmSettle d, s)
      | RmSettle d \<Rightarrow> Some (RmCount d (queued (dpcs s ! d)), upd_dpc d (\<lambda>p. p\<lparr>queued := False\<rparr>) s)
      | RmCount d rc \<Rightarrow>
          Some (RmClear d rc, if rc then s\<lparr>DpcsCompleted := DpcsCompleted s + 1, removes := removes s @ [d]\<rparr> else s)
      | RmClear d rc \<Rightarrow> Some (Out, upd_dpc d (\<lambda>p. p\<lparr>cancel := False\<rparr>) s)
      | _ \<Rightarrow> None)"

definition KeFlushQueuedDpcs_begin :: "DPCS \<Rightarrow> DPCPC" where
  "KeFlushQueuedDpcs_begin s = FlWait (DpcsQueued s)"

definition KeFlushQueuedDpcs :: "DPCPC \<Rightarrow> DPCS \<Rightarrow> DPCPC option" where
  "KeFlushQueuedDpcs pc s = (case pc of FlWait n \<Rightarrow> if DpcsCompleted s < n then None else Some Out | _ \<Rightarrow> None)"

type_synonym DPCSTATE = "DPCS \<times> DPCPC list"

inductive dpc_step :: "DPCSTATE \<Rightarrow> DPCSTATE \<Rightarrow> bool" where
  init: "dpc_step (s, pcs) (KeInitializeDpc routine context s, pcs)"
| init_threaded: "dpc_step (s, pcs) (KeInitializeThreadedDpc routine context s, pcs)"
| insert_begin: "d < length (dpcs s) \<Longrightarrow> Lock (dpcs s ! d) = LockFree \<Longrightarrow> KeInsertQueueDpc_begin d a1 a2 s = (b, s') \<Longrightarrow> dpc_step (s, pcs) (s', pcs)"
| insert: "d < length (dpcs s) \<Longrightarrow> KeInsertQueueDpc d s = Some s' \<Longrightarrow> dpc_step (s, pcs) (s', pcs)"
| pool: "i < length pcs \<Longrightarrow> pcs ! i = Out \<Longrightarrow> d < length (dpcs s) \<Longrightarrow> 0 < submitted (dpcs s ! d) \<Longrightarrow>
    dpc_step (s, pcs) (upd_dpc d (\<lambda>p. p\<lparr>submitted := submitted p - 1\<rparr>) s, pcs[i := CbStarted d])"
| pool_new: "d < length (dpcs s) \<Longrightarrow> 0 < submitted (dpcs s ! d) \<Longrightarrow>
    dpc_step (s, pcs) (upd_dpc d (\<lambda>p. p\<lparr>submitted := submitted p - 1\<rparr>) s, pcs @ [CbStarted d])"
| callback: "i < length pcs \<Longrightarrow> DdkDpcCallback (pcs ! i) s = Some (pc, s') \<Longrightarrow> dpc_step (s, pcs) (s', pcs[i := pc])"
| remove_begin: "i < length pcs \<Longrightarrow> pcs ! i = Out \<Longrightarrow> d < length (dpcs s) \<Longrightarrow> Lock (dpcs s ! d) = LockFree \<Longrightarrow> KeRemoveQueueDpc_begin d s = (pc, s') \<Longrightarrow>
    dpc_step (s, pcs) (s', pcs[i := pc])"
| remove: "i < length pcs \<Longrightarrow> KeRemoveQueueDpc pcs (pcs ! i) s = Some (pc, s') \<Longrightarrow> dpc_step (s, pcs) (s', pcs[i := pc])"
| flush_begin: "i < length pcs \<Longrightarrow> pcs ! i = Out \<Longrightarrow> dpc_step (s, pcs) (s, pcs[i := KeFlushQueuedDpcs_begin s])"
| flush: "i < length pcs \<Longrightarrow> KeFlushQueuedDpcs (pcs ! i) s = Some pc \<Longrightarrow> dpc_step (s, pcs) (s, pcs[i := pc])"

definition dpc_start :: DPCS where
  "dpc_start = \<lparr>dpcs = [], DpcsQueued = 0, DpcsCompleted = 0, inserts = [], runs = [], removes = []\<rparr>"

inductive dpc_reach :: "DPCSTATE \<Rightarrow> bool" where
  start: "dpc_reach (dpc_start, replicate n Out)"
| step: "dpc_reach s \<Longrightarrow> dpc_step s s' \<Longrightarrow> dpc_reach s'"

text \<open>
  The steps that finish what has been begun: of the insertions under way, the thread pool, the callbacks and the removals.  \<open>dpc_todo\<close> bounds their number.
\<close>

inductive dpc_work :: "DPCSTATE \<Rightarrow> DPCSTATE \<Rightarrow> bool" where
  insert: "d < length (dpcs s) \<Longrightarrow> KeInsertQueueDpc d s = Some s' \<Longrightarrow> dpc_work (s, pcs) (s', pcs)"
| pool: "i < length pcs \<Longrightarrow> pcs ! i = Out \<Longrightarrow> d < length (dpcs s) \<Longrightarrow> 0 < submitted (dpcs s ! d) \<Longrightarrow>
    dpc_work (s, pcs) (upd_dpc d (\<lambda>p. p\<lparr>submitted := submitted p - 1\<rparr>) s, pcs[i := CbStarted d])"
| pool_new: "d < length (dpcs s) \<Longrightarrow> 0 < submitted (dpcs s ! d) \<Longrightarrow>
    dpc_work (s, pcs) (upd_dpc d (\<lambda>p. p\<lparr>submitted := submitted p - 1\<rparr>) s, pcs @ [CbStarted d])"
| callback: "i < length pcs \<Longrightarrow> DdkDpcCallback (pcs ! i) s = Some (pc, s') \<Longrightarrow> dpc_work (s, pcs) (s', pcs[i := pc])"
| remove: "i < length pcs \<Longrightarrow> KeRemoveQueueDpc pcs (pcs ! i) s = Some (pc, s') \<Longrightarrow> dpc_work (s, pcs) (s', pcs[i := pc])"

fun dpc_left :: "DPC \<Rightarrow> nat" where
  "dpc_left p = 5 * submitted p + (case Lock p of LockFree \<Rightarrow> 0 | InCounted \<Rightarrow> 6 | InMarked \<Rightarrow> 7)"

fun pc_left :: "DPCPC \<Rightarrow> nat" where
  "pc_left (CbStarted d) = 4"
| "pc_left (CbCleared d) = 3"
| "pc_left (CbDetached d) = 2"
| "pc_left (CbRunning d) = 1"
| "pc_left (RmCancel d) = 5"
| "pc_left (RmDrain d) = 4"
| "pc_left (RmSettle d) = 3"
| "pc_left (RmCount d rc) = 2"
| "pc_left (RmClear d rc) = 1"
| "pc_left Out = 0"
| "pc_left (FlWait n) = 0"

fun dpc_todo :: "DPCSTATE \<Rightarrow> nat" where
  "dpc_todo (s, pcs) = sum_list (map dpc_left (dpcs s)) + sum_list (map pc_left pcs)"

section \<open>The invariant\<close>

definition blank :: DPC where
  "blank = \<lparr>submitted = 0, Lock = LockFree, DeferredRoutine = 0, DeferredContext = 0, SystemArgument1 = 0, SystemArgument2 = 0, queued = False, cancel = False,
     threaded = False\<rparr>"

definition the_dpc :: "DPCS \<Rightarrow> nat \<Rightarrow> DPC" where
  "the_dpc s d = (if d < length (dpcs s) then dpcs s ! d else blank)"

text \<open>
  For each DPC: the threads that remove it are at most one and are known by \<open>cancel\<close>; an insertion under way, a callback that is submitted and one that has been started belong to a set \<open>queued\<close>, and
  there is at most one of them; \<open>queued\<close> without such a callback is left for the remover that cancelled it; and every accepted insertion has been run, has been removed, or is
  still to be one of them.  As a condition on numbers: of insertions under way, of callbacks submitted, started and cleared, of removers at each point, and of the insertions that are
  neither run nor removed.
\<close>

definition dpc_num :: "int \<Rightarrow> int \<Rightarrow> int \<Rightarrow> int \<Rightarrow> int \<Rightarrow> int \<Rightarrow> int \<Rightarrow> int \<Rightarrow> int \<Rightarrow> bool \<Rightarrow> bool \<Rightarrow> int \<Rightarrow> bool" where
  "dpc_num ins sub started cleared cancelling draining settling counting clearing q c open_inserts \<longleftrightarrow>
     0 \<le> ins \<and> 0 \<le> sub \<and> 0 \<le> started \<and> 0 \<le> cleared \<and> 0 \<le> cancelling \<and> 0 \<le> draining \<and> 0 \<le> settling \<and> 0 \<le> counting \<and> 0 \<le> clearing \<and>
     cancelling + draining + settling + counting + clearing = of_bool c \<and>
     ins + sub + started \<le> of_bool q \<and>
     (c \<longrightarrow> ins = 0) \<and>
     (q \<longrightarrow> ins + sub + started = 1 \<or> draining + settling = 1) \<and>
     (0 < draining + settling \<longrightarrow> sub = 0) \<and>
     (0 < settling \<longrightarrow> started = 0) \<and>
     open_inserts = of_bool q + cleared + counting"

definition dpc_ok :: "DPCS \<Rightarrow> DPCPC list \<Rightarrow> nat \<Rightarrow> bool" where
  "dpc_ok s pcs d \<longleftrightarrow>
     dpc_num (of_bool (Lock (the_dpc s d) \<noteq> LockFree)) (int (submitted (the_dpc s d))) (cnt (CbStarted d) pcs) (cnt (CbCleared d) pcs + cnt (CbDetached d) pcs) (cnt (RmCancel d) pcs) (cnt (RmDrain d) pcs)
       (cnt (RmSettle d) pcs) (cnt (RmCount d True) pcs) (cnt (RmCount d False) pcs + cnt (RmClear d True) pcs + cnt (RmClear d False) pcs)
       (queued (the_dpc s d)) (cancel (the_dpc s d)) (cnt d (inserts s) - cnt d (map fst (runs s)) - cnt d (removes s))"

definition running :: "DPCPC list \<Rightarrow> int" where
  "running pcs = cnt True (map (\<lambda>pc. case pc of CbRunning d \<Rightarrow> True | _ \<Rightarrow> False) pcs)"

definition uncounted :: "DPCS \<Rightarrow> int" where
  "uncounted s = cnt InMarked (map Lock (dpcs s))"

definition dpc_inv :: "DPCSTATE \<Rightarrow> bool" where
  "dpc_inv = (\<lambda>(s, pcs).
     (\<forall>d. dpc_ok s pcs d) \<and> (\<forall>d. length (dpcs s) \<le> d \<longrightarrow> cnt d (inserts s) = 0) \<and>
     DpcsQueued s = int (length (inserts s)) - uncounted s \<and>
     DpcsCompleted s = int (length (runs s)) + int (length (removes s)) - running pcs)"

section \<open>Lemmas\<close>

lemma cnt_append [simp]: "cnt c (xs @ [x]) = cnt c xs + of_bool (x = c)"
  by (simp add: cnt_def)

lemma the_dpc_upd:
  "the_dpc (upd_dpc d f s) e = (if e = d \<and> d < length (dpcs s) then f (the_dpc s d) else the_dpc s e)"
  by (simp add: the_dpc_def upd_dpc_def)

lemma upd_dpc_fields [simp]:
  "length (dpcs (upd_dpc d f s)) = length (dpcs s)" "DpcsQueued (upd_dpc d f s) = DpcsQueued s" "DpcsCompleted (upd_dpc d f s) = DpcsCompleted s"
  "inserts (upd_dpc d f s) = inserts s" "runs (upd_dpc d f s) = runs s" "removes (upd_dpc d f s) = removes s"
  by (simp_all add: upd_dpc_def)

lemma the_dpc_counters [simp]:
  "the_dpc (s\<lparr>DpcsQueued := x\<rparr>) d = the_dpc s d" "the_dpc (s\<lparr>DpcsCompleted := x\<rparr>) d = the_dpc s d" "the_dpc (s\<lparr>inserts := xs\<rparr>) d = the_dpc s d"
  "the_dpc (s\<lparr>runs := r\<rparr>) d = the_dpc s d" "the_dpc (s\<lparr>removes := xs\<rparr>) d = the_dpc s d"
  by (simp_all add: the_dpc_def)

lemma running_update:
  assumes "i < length pcs"
  shows "running (pcs[i := pc]) = running pcs - of_bool (\<exists>d. pcs ! i = CbRunning d) + of_bool (\<exists>d. pc = CbRunning d)"
  using assms unfolding running_def map_update
  by (subst cnt_update) (auto split: DPCPC.splits)

lemma running_append: "running (pcs @ [pc]) = running pcs + of_bool (\<exists>d. pc = CbRunning d)"
  by (auto simp: running_def split: DPCPC.splits)

lemma dpc_num_steps:
  assumes "dpc_num ins sub started cleared cancelling draining settling counting clearing q c x"
  shows "\<not> q \<Longrightarrow> \<not> c \<Longrightarrow> dpc_num 1 sub started cleared cancelling draining settling counting clearing True c (x + 1)"
    and "ins = 1 \<Longrightarrow> dpc_num 0 (sub + 1) started cleared cancelling draining settling counting clearing q c x"
    and "1 \<le> sub \<Longrightarrow> dpc_num ins (sub - 1) (started + 1) cleared cancelling draining settling counting clearing q c x"
    and "1 \<le> started \<Longrightarrow> dpc_num ins sub (started - 1) (cleared + 1) cancelling draining settling counting clearing False c x"
    and "1 \<le> cleared \<Longrightarrow> dpc_num ins sub started (cleared - 1) cancelling draining settling counting clearing q c (x - 1)"
    and "\<not> c \<Longrightarrow> ins = 0 \<Longrightarrow> dpc_num ins sub started cleared (cancelling + 1) draining settling counting clearing q True x"
    and "1 \<le> cancelling \<Longrightarrow> dpc_num ins 0 started cleared (cancelling - 1) (draining + 1) settling counting clearing q c x"
    and "1 \<le> draining \<Longrightarrow> started = 0 \<Longrightarrow> dpc_num ins sub started cleared cancelling (draining - 1) (settling + 1) counting clearing q c x"
    and "1 \<le> settling \<Longrightarrow> q \<Longrightarrow> dpc_num ins sub started cleared cancelling draining (settling - 1) (counting + 1) clearing False c x"
    and "1 \<le> settling \<Longrightarrow> \<not> q \<Longrightarrow> dpc_num ins sub started cleared cancelling draining (settling - 1) counting (clearing + 1) False c x"
    and "1 \<le> counting \<Longrightarrow> dpc_num ins sub started cleared cancelling draining settling (counting - 1) (clearing + 1) q c (x - 1)"
    and "1 \<le> clearing \<Longrightarrow> dpc_num ins sub started cleared cancelling draining settling counting (clearing - 1) q False x"
  using assms by (cases q; cases c; force simp: dpc_num_def)+

text \<open>A point of a thread names a DPC there is.\<close>

definition point_of :: "nat \<Rightarrow> DPCPC \<Rightarrow> bool" where
  "point_of d pc \<longleftrightarrow> pc \<in> {CbStarted d, CbCleared d, CbDetached d, RmCancel d, RmDrain d, RmSettle d, RmCount d True, RmCount d False, RmClear d True, RmClear d False}"

lemma dpc_id_valid:
  assumes "dpc_inv (s, pcs)" "i < length pcs" "point_of d (pcs ! i)"
  shows "d < length (dpcs s)"
proof (rule ccontr)
  assume out: "\<not> d < length (dpcs s)"
  then have *: "dpc_ok s pcs d" "the_dpc s d = blank" "cnt d (inserts s) = 0" using assms(1) by (simp_all add: dpc_inv_def the_dpc_def)
  show False
    using * cnt_here [OF assms(2)] assms(3) cnt_nonneg [of d "map fst (runs s)"] cnt_nonneg [of d "removes s"]
      cnt_nonneg [of "RmCount d False" pcs] cnt_nonneg [of "RmClear d True" pcs] cnt_nonneg [of "RmClear d False" pcs]
      cnt_nonneg [of "CbCleared d" pcs] cnt_nonneg [of "CbDetached d" pcs]
    by (auto simp: dpc_ok_def dpc_num_def blank_def point_of_def)
qed

lemma callback_ok:
  assumes inv: "dpc_inv (s, pcs)" and i: "i < length pcs" and st: "DdkDpcCallback (pcs ! i) s = Some (pc, s')"
  shows "dpc_ok s' (pcs[i := pc]) e"
proof -
  have ok: "dpc_ok s pcs e" using inv by (simp add: dpc_inv_def)
  note num = dpc_num_steps [OF ok [unfolded dpc_ok_def]]
  note here = cnt_here [OF i]
  show ?thesis
  proof (cases "pcs ! i")
    case (CbStarted d)
    then have "d < length (dpcs s)" using dpc_id_valid [OF inv i, of d] by (simp add: point_of_def)
    then show ?thesis using CbStarted st num(4) here ok
      by (cases "e = d") (auto simp: DdkDpcCallback_def dpc_ok_def cnt_update [OF i] the_dpc_upd algebra_simps)
  next
    case (CbCleared d)
    then show ?thesis using st ok by (cases "e = d") (auto simp: DdkDpcCallback_def dpc_ok_def cnt_update [OF i])
  next
    case (CbDetached d)
    then have "e = d \<Longrightarrow> 1 \<le> cnt (CbCleared e) pcs + cnt (CbDetached e) pcs" using here cnt_nonneg [of "CbCleared e" pcs] by simp
    then show ?thesis using CbDetached st num(5) ok
      by (cases "e = d") (auto simp: DdkDpcCallback_def Let_def dpc_ok_def cnt_update [OF i] algebra_simps)
  next
    case (CbRunning d)
    then show ?thesis using st ok by (auto simp: DdkDpcCallback_def dpc_ok_def cnt_update [OF i])
  qed (use st in \<open>simp_all add: DdkDpcCallback_def\<close>)
qed

lemma the_dpc_in: "d < length (dpcs s) \<Longrightarrow> dpcs s ! d = the_dpc s d"
  by (simp add: the_dpc_def)

lemma remove_ok:
  assumes inv: "dpc_inv (s, pcs)" and i: "i < length pcs" and st: "KeRemoveQueueDpc pcs (pcs ! i) s = Some (pc, s')"
  shows "dpc_ok s' (pcs[i := pc]) e"
proof -
  have ok: "dpc_ok s pcs e" using inv by (simp add: dpc_inv_def)
  note num = dpc_num_steps [OF ok [unfolded dpc_ok_def]]
  note here = cnt_here [OF i]
  have valid: "d < length (dpcs s)" if "point_of d (pcs ! i)" for d using dpc_id_valid [OF inv i that] .
  show ?thesis
  proof (cases "pcs ! i")
    case (RmCancel d)
    with valid [of d] have "d < length (dpcs s)" by (simp add: point_of_def)
    then show ?thesis using RmCancel st num(7) here ok
      by (cases "e = d") (auto simp: KeRemoveQueueDpc_def dpc_ok_def cnt_update [OF i] the_dpc_upd)
  next
    case (RmDrain d)
    then have "CbStarted d \<notin> set pcs" using st by (auto simp: KeRemoveQueueDpc_def associated_def split: if_splits)
    then have none: "cnt (CbStarted d) pcs = 0" by (simp add: cnt_def)
    have st': "pc = RmSettle d" "s' = s" using RmDrain st by (simp_all add: KeRemoveQueueDpc_def split: if_splits)
    show ?thesis
    proof (cases "e = d")
      case True
      with RmDrain st' none num(8) here show ?thesis by (simp add: dpc_ok_def cnt_update [OF i])
    next
      case False
      with RmDrain st' ok show ?thesis by (simp add: dpc_ok_def cnt_update [OF i])
    qed
  next
    case (RmSettle d)
    with valid [of d] have d: "d < length (dpcs s)" by (simp add: point_of_def)
    then show ?thesis using RmSettle st num(9,10) here ok
      by (cases "e = d"; cases "queued (the_dpc s d)")
         (auto simp: KeRemoveQueueDpc_def dpc_ok_def cnt_update [OF i] the_dpc_upd the_dpc_in algebra_simps)
  next
    case (RmCount d rc)
    then show ?thesis using st num(11) here ok
      by (cases "e = d"; cases rc) (auto simp: KeRemoveQueueDpc_def dpc_ok_def cnt_update [OF i] algebra_simps)
  next
    case (RmClear d rc)
    with valid [of d] have "d < length (dpcs s)" by (cases rc) (simp_all add: point_of_def)
    moreover have "1 \<le> cnt (RmCount d False) pcs + cnt (RmClear d True) pcs + cnt (RmClear d False) pcs"
      using RmClear here cnt_nonneg [of "RmCount d False" pcs] cnt_nonneg [of "RmClear d True" pcs] cnt_nonneg [of "RmClear d False" pcs]
      by (cases rc) simp_all
    ultimately show ?thesis using RmClear st num(12) ok
      by (cases "e = d"; cases rc) (auto simp: KeRemoveQueueDpc_def dpc_ok_def cnt_update [OF i] the_dpc_upd algebra_simps)
  qed (use st in \<open>simp_all add: KeRemoveQueueDpc_def\<close>)
qed

lemma insert_begin_ok:
  assumes ok: "dpc_ok s pcs e" and d: "d < length (dpcs s)" and st: "KeInsertQueueDpc_begin d a1 a2 s = (b, s')"
  shows "dpc_ok s' pcs e"
  using st dpc_num_steps(1) [OF ok [unfolded dpc_ok_def]] ok d
  by (cases "e = d") (auto simp: KeInsertQueueDpc_begin_def dpc_ok_def the_dpc_upd the_dpc_in algebra_simps split: if_splits)

lemma insert_ok:
  assumes ok: "dpc_ok s pcs e" and d: "d < length (dpcs s)" and st: "KeInsertQueueDpc d s = Some s'"
  shows "dpc_ok s' pcs e"
  using st dpc_num_steps(2) [OF ok [unfolded dpc_ok_def]] ok d
  by (cases "e = d"; cases "Lock (the_dpc s d)") (auto simp: KeInsertQueueDpc_def dpc_ok_def the_dpc_upd the_dpc_in algebra_simps)

lemma pool_ok:
  assumes ok: "dpc_ok s pcs e" and i: "i < length pcs" "pcs ! i = Out" and d: "d < length (dpcs s)" "0 < submitted (dpcs s ! d)"
  shows "dpc_ok (upd_dpc d (\<lambda>p. p\<lparr>submitted := submitted p - 1\<rparr>) s) (pcs[i := CbStarted d]) e"
  using dpc_num_steps(3) [OF ok [unfolded dpc_ok_def]] ok i d
  by (cases "e = d") (auto simp: dpc_ok_def cnt_update the_dpc_upd the_dpc_in of_nat_diff algebra_simps)

lemma pool_new_ok:
  assumes ok: "dpc_ok s pcs e" and d: "d < length (dpcs s)" "0 < submitted (dpcs s ! d)"
  shows "dpc_ok (upd_dpc d (\<lambda>p. p\<lparr>submitted := submitted p - 1\<rparr>) s) (pcs @ [CbStarted d]) e"
  using dpc_num_steps(3) [OF ok [unfolded dpc_ok_def]] ok d
  by (cases "e = d") (auto simp: dpc_ok_def the_dpc_upd the_dpc_in of_nat_diff algebra_simps)

lemma remove_begin_ok:
  assumes ok: "dpc_ok s pcs e" and i: "i < length pcs" "pcs ! i = Out" and d: "d < length (dpcs s)" "Lock (dpcs s ! d) = LockFree"
    and st: "KeRemoveQueueDpc_begin d s = (pc, s')"
  shows "dpc_ok s' (pcs[i := pc]) e"
proof (cases "queued (the_dpc s d) \<and> \<not> cancel (the_dpc s d)")
  case True
  then have "pc = RmCancel d" "s' = upd_dpc d (\<lambda>p. p\<lparr>cancel := True\<rparr>) s"
    using st d by (simp_all add: KeRemoveQueueDpc_begin_def the_dpc_in)
  then show ?thesis using True dpc_num_steps(6) [OF ok [unfolded dpc_ok_def]] ok i d
    by (cases "e = d") (simp_all add: dpc_ok_def cnt_update the_dpc_upd the_dpc_in)
next
  case False
  then have "pc = Out" "s' = s" using st d by (auto simp: KeRemoveQueueDpc_begin_def the_dpc_in)
  moreover have "pcs[i := Out] = pcs" using i by (metis list_update_id)
  ultimately show ?thesis using ok by simp
qed

lemma flush_ok:
  assumes "dpc_ok s pcs e" "i < length pcs" "pcs ! i = Out \<or> (\<exists>n. pcs ! i = FlWait n)" "pc = Out \<or> (\<exists>n. pc = FlWait n)"
  shows "dpc_ok s (pcs[i := pc]) e"
proof -
  have "cnt c (pcs[i := pc]) = cnt c pcs" if "c \<noteq> Out" "\<forall>n. c \<noteq> FlWait n" for c
    unfolding cnt_update [OF assms(2)] using that assms(3,4) by auto
  with assms(1) show ?thesis by (simp add: dpc_ok_def)
qed

lemma init_ok:
  assumes "dpc_ok s pcs e" "submitted p = 0" "Lock p = LockFree" "\<not> queued p" "\<not> cancel p"
  shows "dpc_ok (s\<lparr>dpcs := dpcs s @ [p]\<rparr>) pcs e"
proof -
  have "submitted (the_dpc (s\<lparr>dpcs := dpcs s @ [p]\<rparr>) e) = submitted (the_dpc s e)"
    "Lock (the_dpc (s\<lparr>dpcs := dpcs s @ [p]\<rparr>) e) = Lock (the_dpc s e)"
    "queued (the_dpc (s\<lparr>dpcs := dpcs s @ [p]\<rparr>) e) = queued (the_dpc s e)"
    "cancel (the_dpc (s\<lparr>dpcs := dpcs s @ [p]\<rparr>) e) = cancel (the_dpc s e)"
    using assms(2-5) by (auto simp: the_dpc_def blank_def nth_append)
  then show ?thesis using assms(1) by (simp add: dpc_ok_def)
qed

lemmas routine_defs = KeInsertQueueDpc_begin_def KeInsertQueueDpc_def DdkDpcCallback_def KeRemoveQueueDpc_begin_def KeRemoveQueueDpc_def KeFlushQueuedDpcs_def
  KeFlushQueuedDpcs_begin_def

lemma uncounted_upd:
  assumes "d < length (dpcs s)"
  shows "uncounted (upd_dpc d f s) = uncounted s - of_bool (Lock (dpcs s ! d) = InMarked) + of_bool (Lock (f (dpcs s ! d)) = InMarked)"
  using assms by (simp add: uncounted_def upd_dpc_def map_update cnt_update)

lemma uncounted_counters [simp]:
  "uncounted (s\<lparr>DpcsQueued := x\<rparr>) = uncounted s" "uncounted (s\<lparr>DpcsCompleted := x\<rparr>) = uncounted s" "uncounted (s\<lparr>inserts := xs\<rparr>) = uncounted s"
  "uncounted (s\<lparr>runs := r\<rparr>) = uncounted s" "uncounted (s\<lparr>removes := xs\<rparr>) = uncounted s"
  by (simp_all add: uncounted_def)

text \<open>The steps that leave the insertions alone.\<close>

lemma uncounted_steps:
  assumes "dpc_inv (s, pcs)" "i < length pcs"
  shows "DdkDpcCallback (pcs ! i) s = Some (pc, s') \<Longrightarrow> uncounted s' = uncounted s"
    and "KeRemoveQueueDpc pcs (pcs ! i) s = Some (pc, s') \<Longrightarrow> uncounted s' = uncounted s"
  using dpc_id_valid [OF assms]
  by (auto simp: DdkDpcCallback_def KeRemoveQueueDpc_def point_of_def uncounted_upd Let_def split: DPCPC.splits if_splits)

text \<open>The counters and the records of what has happened.\<close>

definition dpc_book :: "DPCSTATE \<Rightarrow> bool" where
  "dpc_book = (\<lambda>(s, pcs). (\<forall>d. length (dpcs s) \<le> d \<longrightarrow> cnt d (inserts s) = 0) \<and> DpcsQueued s = int (length (inserts s)) - uncounted s \<and>
     DpcsCompleted s = int (length (runs s)) + int (length (removes s)) - running pcs)"

lemma dpc_step_book:
  assumes "dpc_step (s, pcs) s'" "dpc_inv (s, pcs)" "dpc_book (s, pcs)"
  shows "dpc_book s'"
  using assms(1)
proof cases
  case (init routine ctx)
  then show ?thesis using assms(3) by (simp add: dpc_book_def KeInitializeDpc_def uncounted_def)
next
  case (init_threaded routine ctx)
  then show ?thesis using assms(3) by (simp add: dpc_book_def KeInitializeThreadedDpc_def KeInitializeDpc_def uncounted_def upd_dpc_def)
next
  case (insert_begin d a1 a2 b s1)
  then show ?thesis using assms(3) by (auto simp: dpc_book_def KeInsertQueueDpc_begin_def uncounted_upd split: if_splits)
next
  case (insert d s1)
  then show ?thesis using assms(3) by (auto simp: dpc_book_def KeInsertQueueDpc_def uncounted_upd split: INSPC.splits)
next
  case (callback i pc s1)
  note u = uncounted_steps(1) [OF assms(2) callback(2,3)]
  show ?thesis
  proof (cases "pcs ! i")
    case (CbRunning d)
    with callback u assms(3) show ?thesis by (auto simp: dpc_book_def DdkDpcCallback_def running_update)
  next
    case (CbDetached d)
    with callback u assms(3) show ?thesis by (auto simp: dpc_book_def DdkDpcCallback_def running_update Let_def)
  qed (use callback u assms(3) in \<open>auto simp: dpc_book_def DdkDpcCallback_def running_update\<close>)
next
  case (remove_begin i d pc s1)
  then show ?thesis using assms(3) by (auto simp: dpc_book_def routine_defs running_update uncounted_upd split: if_splits)
next
  case (remove i pc s1)
  note u = uncounted_steps(2) [OF assms(2) remove(2,3)]
  show ?thesis
    using remove u assms(3) by (cases "pcs ! i") (auto simp: dpc_book_def KeRemoveQueueDpc_def running_update split: if_splits)
next
  case (flush i pc)
  then show ?thesis using assms(3)
    by (cases "pcs ! i") (auto simp: dpc_book_def routine_defs running_update split: if_splits)
qed (use assms(3) in \<open>auto simp: dpc_book_def running_update running_append uncounted_upd routine_defs\<close>)

lemma dpc_inv_iff: "dpc_inv (s, pcs) \<longleftrightarrow> (\<forall>d. dpc_ok s pcs d) \<and> dpc_book (s, pcs)"
  by (simp add: dpc_inv_def dpc_book_def)

lemma dpc_step_ok:
  assumes "dpc_step (s, pcs) (s', pcs')" "dpc_inv (s, pcs)"
  shows "dpc_ok s' pcs' e"
proof -
  have ok: "dpc_ok s pcs e" using assms(2) by (simp add: dpc_inv_def)
  show ?thesis
    using assms(1)
  proof cases
    case (init routine ctx)
    then show ?thesis using init_ok [OF ok] by (simp add: KeInitializeDpc_def)
  next
    case (init_threaded routine ctx)
    then show ?thesis using init_ok [OF ok] by (simp add: KeInitializeThreadedDpc_def KeInitializeDpc_def upd_dpc_def)
  next
    case (pool i d)
    then show ?thesis using pool_ok [OF ok pool(3-6)] by simp
  next
    case (pool_new d)
    then show ?thesis using pool_new_ok [OF ok pool_new(3-4)] by simp
  next
    case (flush_begin i)
    then show ?thesis using flush_ok [OF ok] by (simp add: KeFlushQueuedDpcs_begin_def)
  next
    case (flush i pc)
    then show ?thesis using flush_ok [OF ok] by (cases "pcs ! i") (auto simp: KeFlushQueuedDpcs_def split: if_splits)
  qed (auto intro: insert_begin_ok [OF ok] insert_ok [OF ok] callback_ok [OF assms(2)] remove_begin_ok [OF ok] remove_ok [OF assms(2)])
qed

lemma dpc_reach_inv: "dpc_reach x \<Longrightarrow> dpc_inv x"
proof (induction rule: dpc_reach.induct)
  case (start n)
  have "running (replicate n Out) = 0" by (induction n) (simp_all add: running_def cnt_def)
  moreover have "cnt c (replicate n Out) = 0" if "c \<noteq> Out" for c using that by (induction n) (simp_all add: cnt_def)
  ultimately show ?case
    by (simp add: dpc_inv_def dpc_ok_def dpc_num_def dpc_start_def the_dpc_def blank_def uncounted_def) (simp add: cnt_def)
next
  case (step x x')
  obtain a b a' b' where x: "x = (a, b)" "x' = (a', b')" by (cases x; cases x')
  with step have st: "dpc_step (a, b) (a', b')" and inv: "dpc_inv (a, b)" by simp_all
  then have "dpc_book (a', b')" using dpc_step_book [OF st inv] by (simp add: dpc_inv_iff)
  then show ?case using dpc_step_ok [OF st inv] by (simp add: x dpc_inv_iff)
qed

section \<open>Flushing\<close>

lemma flush_bound: "dpc_reach x \<Longrightarrow> FlWait n \<in> set (snd x) \<Longrightarrow> n \<le> DpcsQueued (fst x)"
proof (induction arbitrary: n rule: dpc_reach.induct)
  case (start m)
  then show ?case by (simp split: if_splits)
next
  case (step x x')
  from step.hyps(2) step.IH step.prems show ?case
  proof cases
    case (insert_begin d s a1 a2 b s' pcs)
    then show ?thesis using step.IH [of n] step.prems by (auto simp: KeInsertQueueDpc_begin_def split: if_splits)
  next
    case (insert d s s' pcs)
    then show ?thesis using step.IH [of n] step.prems by (auto simp: KeInsertQueueDpc_def split: INSPC.splits)
  next
    case (callback i pcs s pc s')
    then have "pc \<noteq> FlWait n" "DpcsQueued s' = DpcsQueued s" by (auto simp: DdkDpcCallback_def Let_def split: DPCPC.splits)
    then show ?thesis using callback step.IH [of n] step.prems by (auto dest!: set_update_subset_insert [THEN subsetD])
  next
    case (remove_begin i pcs d s pc s')
    then have "pc \<noteq> FlWait n" "DpcsQueued s' = DpcsQueued s" by (auto simp: KeRemoveQueueDpc_begin_def split: if_splits)
    then show ?thesis using remove_begin step.IH [of n] step.prems by (auto dest!: set_update_subset_insert [THEN subsetD])
  next
    case (remove i pcs s pc s')
    then have "pc \<noteq> FlWait n" "DpcsQueued s' = DpcsQueued s" by (auto simp: KeRemoveQueueDpc_def split: DPCPC.splits if_splits)
    then show ?thesis using remove step.IH [of n] step.prems by (auto dest!: set_update_subset_insert [THEN subsetD])
  next
    case (flush i pcs s pc)
    then have "pc = Out" by (auto simp: KeFlushQueuedDpcs_def split: DPCPC.splits if_splits)
    then show ?thesis using flush step.IH [of n] step.prems by (auto dest!: set_update_subset_insert [THEN subsetD])
  qed (auto simp: KeInitializeDpc_def KeInitializeThreadedDpc_def KeFlushQueuedDpcs_begin_def dest!: set_update_subset_insert [THEN subsetD])
qed

text \<open>The insertions that are not counted yet.\<close>

definition marked_dpcs :: "DPCS \<Rightarrow> nat list" where
  "marked_dpcs s = filter (\<lambda>d. Lock (the_dpc s d) = InMarked) [0..<length (dpcs s)]"

lemma length_marked_dpcs: "int (length (marked_dpcs s)) = uncounted s"
proof -
  have "map Lock (dpcs s) = map (\<lambda>d. Lock (the_dpc s d)) [0..<length (dpcs s)]" by (rule nth_equalityI) (simp_all add: the_dpc_def)
  moreover have "(=) InMarked = (\<lambda>l. l = InMarked)" by auto
  ultimately show ?thesis unfolding uncounted_def cnt_def marked_dpcs_def count_list_eq_length_filter by (simp add: filter_map o_def)
qed

lemma count_marked_dpcs: "count (mset (marked_dpcs s)) e = of_bool (Lock (the_dpc s e) = InMarked)"
proof -
  have "e < length (dpcs s)" if "Lock (the_dpc s e) = InMarked" using that by (auto simp: the_dpc_def blank_def split: if_splits)
  then have "e \<in> set (marked_dpcs s) \<longleftrightarrow> Lock (the_dpc s e) = InMarked" by (auto simp: marked_dpcs_def)
  moreover have "distinct (marked_dpcs s)" by (simp add: marked_dpcs_def)
  ultimately show ?thesis by (simp add: distinct_count_atmost_1)
qed

text \<open>What is open, insertion by insertion.\<close>

definition open_count :: "DPCS \<Rightarrow> DPCPC list \<Rightarrow> nat \<Rightarrow> int" where
  "open_count s pcs d = of_bool (queued (the_dpc s d) \<and> Lock (the_dpc s d) \<noteq> InMarked) + cnt (CbCleared d) pcs + cnt (CbDetached d) pcs + cnt (RmCount d True) pcs"

lemma open_count_eq:
  assumes "dpc_ok s pcs d"
  shows "cnt d (inserts s) = cnt d (map fst (runs s)) + cnt d (removes s) + of_bool (Lock (the_dpc s d) = InMarked) + open_count s pcs d"
  using assms by (cases "Lock (the_dpc s d)"; cases "queued (the_dpc s d)") (auto simp: dpc_ok_def dpc_num_def open_count_def)

lemma open_count_nonneg: "0 \<le> open_count s pcs d"
  using cnt_nonneg [of "CbCleared d" pcs] cnt_nonneg [of "CbDetached d" pcs] cnt_nonneg [of "RmCount d True" pcs] by (simp add: open_count_def)

lemma running_nonneg: "0 \<le> running pcs"
  by (simp add: running_def cnt_nonneg)

lemma counters_equal:
  assumes "dpc_inv (s, pcs)"
  shows "DpcsCompleted s \<le> DpcsQueued s"
    and "DpcsCompleted s = DpcsQueued s \<longleftrightarrow> running pcs = 0 \<and> (\<forall>d. open_count s pcs d = 0)"
proof -
  let ?I = "mset (inserts s)" and ?R = "mset (map fst (runs s) @ removes s @ marked_dpcs s)"
  have x: "int (count ?I e) = int (count ?R e) + open_count s pcs e" for e
    using open_count_eq [of s pcs e] assms count_marked_dpcs [of s e] by (simp add: dpc_inv_def cnt_def count_mset del: mset_map)
  have sub: "?R \<subseteq># ?I"
  proof (rule mset_subset_eqI)
    fix e show "count ?R e \<le> count ?I e" using x [of e] open_count_nonneg [of s pcs e] by linarith
  qed
  have sz: "DpcsQueued s - DpcsCompleted s = int (size ?I) - int (size ?R) + running pcs"
    using assms length_marked_dpcs [of s] by (simp add: dpc_inv_def)
  have le: "size ?R \<le> size ?I" using sub by (rule size_mset_mono)
  show "DpcsCompleted s \<le> DpcsQueued s" using sz le running_nonneg [of pcs] by linarith
  have "size ?R = size ?I \<longleftrightarrow> ?R = ?I" using mset_subset_size [of ?R ?I] sub by (metis nat_less_le subset_mset.less_le)
  moreover have "?R = ?I \<longleftrightarrow> (\<forall>d. open_count s pcs d = 0)" unfolding multiset_eq_iff using x by (metis add.right_neutral add_cancel_right_right of_nat_eq_iff)
  moreover have "DpcsCompleted s = DpcsQueued s \<longleftrightarrow> running pcs = 0 \<and> size ?R = size ?I" using sz le running_nonneg [of pcs] by linarith
  ultimately show "DpcsCompleted s = DpcsQueued s \<longleftrightarrow> running pcs = 0 \<and> (\<forall>d. open_count s pcs d = 0)" by simp
qed

lemma running_zero: "running pcs = 0 \<longleftrightarrow> (\<forall>d. CbRunning d \<notin> set pcs)"
proof -
  have "running pcs = 0 \<longleftrightarrow> True \<notin> set (map (\<lambda>pc. case pc of CbRunning d \<Rightarrow> True | _ \<Rightarrow> False) pcs)"
    unfolding running_def cnt_def by (simp add: count_list_0_iff)
  also have "\<dots> \<longleftrightarrow> (\<forall>d. CbRunning d \<notin> set pcs)" by (auto simp: image_iff split: DPCPC.splits)
  finally show ?thesis .
qed

lemma dpc_work_step: "dpc_work x y \<Longrightarrow> dpc_step x y"
  by (induction rule: dpc_work.induct) (erule (3) dpc_step.insert dpc_step.pool dpc_step.pool_new dpc_step.callback dpc_step.remove | erule (1) dpc_step.insert dpc_step.pool_new dpc_step.callback dpc_step.remove)+

lemma dpc_work_reach: "(dpc_work ^^ k) x y \<Longrightarrow> dpc_reach x \<Longrightarrow> dpc_reach y"
  by (induction k arbitrary: y) (auto dest: dpc_work_step intro: dpc_reach.step)

lemma sum_upd_dpc:
  assumes "d < length (dpcs s)"
  shows "sum_list (map dpc_left (dpcs (upd_dpc d f s))) + dpc_left (dpcs s ! d) = sum_list (map dpc_left (dpcs s)) + dpc_left (f (dpcs s ! d))"
proof -
  have "dpc_left (dpcs s ! d) \<le> sum_list (map dpc_left (dpcs s))" using assms by (auto intro!: member_le_sum_list)
  then show ?thesis using assms by (simp add: upd_dpc_def map_update sum_list_update del: dpc_left.simps)
qed

lemma sum_upd_pc:
  assumes "i < length pcs"
  shows "sum_list (map pc_left (pcs[i := pc])) + pc_left (pcs ! i) = sum_list (map pc_left pcs) + pc_left pc"
proof -
  have "pc_left (pcs ! i) \<le> sum_list (map pc_left pcs)" using assms by (auto intro!: member_le_sum_list)
  then show ?thesis using assms by (simp add: map_update sum_list_update)
qed

lemma sum_upd_le:
  assumes "dpc_left (f (dpcs s ! d)) \<le> dpc_left (dpcs s ! d)"
  shows "sum_list (map dpc_left (dpcs (upd_dpc d f s))) \<le> sum_list (map dpc_left (dpcs s))"
proof (cases "d < length (dpcs s)")
  case True
  then show ?thesis using sum_upd_dpc [OF True, of f] assms by linarith
qed (simp add: upd_dpc_def list_update_beyond)

lemma dpc_work_less: "dpc_work x y \<Longrightarrow> dpc_todo y < dpc_todo x"
proof (induction rule: dpc_work.induct)
  case (insert d s s' pcs)
  then show ?case using sum_upd_dpc [OF insert(1), of "\<lambda>p. p\<lparr>Lock := InCounted\<rparr>"]
      sum_upd_dpc [OF insert(1), of "\<lambda>p. p\<lparr>submitted := submitted p + 1, Lock := LockFree\<rparr>"]
    by (auto simp: KeInsertQueueDpc_def split: INSPC.splits)
next
  case (pool i pcs d s)
  then show ?case using sum_upd_dpc [OF pool(3), of "\<lambda>p. p\<lparr>submitted := submitted p - 1\<rparr>"] sum_upd_pc [OF pool(1), of "CbStarted d"] by auto
next
  case (pool_new d s pcs)
  then show ?case using sum_upd_dpc [OF pool_new(1), of "\<lambda>p. p\<lparr>submitted := submitted p - 1\<rparr>"] by auto
next
  case (callback i pcs s pc s')
  have "sum_list (map dpc_left (dpcs s')) \<le> sum_list (map dpc_left (dpcs s))"
    using callback(2) sum_upd_le [of "\<lambda>p. p\<lparr>queued := False\<rparr>" s] by (auto simp: DdkDpcCallback_def Let_def split: DPCPC.splits)
  moreover have "pc_left pc < pc_left (pcs ! i)" using callback(2) by (auto simp: DdkDpcCallback_def Let_def split: DPCPC.splits)
  ultimately show ?case using sum_upd_pc [OF callback(1), of pc] by simp
next
  case (remove i pcs s pc s')
  have "sum_list (map dpc_left (dpcs s')) \<le> sum_list (map dpc_left (dpcs s))"
    using remove(2) sum_upd_le [of "\<lambda>p. p\<lparr>submitted := 0\<rparr>" s] sum_upd_le [of "\<lambda>p. p\<lparr>queued := False\<rparr>" s] sum_upd_le [of "\<lambda>p. p\<lparr>cancel := False\<rparr>" s]
    by (auto simp: KeRemoveQueueDpc_def split: DPCPC.splits if_splits)
  moreover have "pc_left pc < pc_left (pcs ! i)" using remove(2) by (auto simp: KeRemoveQueueDpc_def split: DPCPC.splits if_splits)
  ultimately show ?case using sum_upd_pc [OF remove(1), of pc] by simp
qed

lemma dpc_work_bound: "(dpc_work ^^ k) x y \<Longrightarrow> k + dpc_todo y \<le> dpc_todo x"
  by (induction k arbitrary: y) (fastforce dest: dpc_work_less)+

lemma dpc_work_flush:
  assumes "dpc_work (s, pcs) (s', pcs')" "i < length pcs" "pcs ! i = FlWait n"
  shows "i < length pcs' \<and> pcs' ! i = FlWait n"
  using assms by cases (auto simp: nth_list_update nth_append DdkDpcCallback_def KeRemoveQueueDpc_def)

lemma dpc_works_flush:
  "(dpc_work ^^ k) (s, pcs) (s', pcs') \<Longrightarrow> i < length pcs \<Longrightarrow> pcs ! i = FlWait n \<Longrightarrow> i < length pcs' \<and> pcs' ! i = FlWait n"
  by (induction k arbitrary: s' pcs') (auto dest: dpc_work_flush)

text \<open>When none of these steps can be taken, nothing is left.\<close>

lemma dpc_work_stuck:
  assumes "dpc_inv (s, pcs)" "\<And>y. \<not> dpc_work (s, pcs) y"
  shows "DpcsCompleted s = DpcsQueued s"
proof -
  have cb: "DdkDpcCallback pc s = None" if "pc \<in> set pcs" for pc
    using assms(2) that dpc_work.callback [of _ pcs s] by (metis in_set_conv_nth not_None_eq surj_pair)
  have no_cb: "CbStarted d \<notin> set pcs" "CbCleared d \<notin> set pcs" "CbDetached d \<notin> set pcs" "CbRunning d \<notin> set pcs" for d
    using cb [of "CbStarted d"] cb [of "CbCleared d"] cb [of "CbDetached d"] cb [of "CbRunning d"] by (auto simp: DdkDpcCallback_def Let_def)
  have rm: "KeRemoveQueueDpc pcs pc s = None" if "pc \<in> set pcs" for pc
    using assms(2) that dpc_work.remove [of _ pcs s] by (metis in_set_conv_nth not_None_eq surj_pair)
  have no_rm: "RmCancel d \<notin> set pcs" "RmDrain d \<notin> set pcs" "RmSettle d \<notin> set pcs" "RmCount d rc \<notin> set pcs" "RmClear d rc \<notin> set pcs" for d rc
    using rm [of "RmCancel d"] rm [of "RmDrain d"] rm [of "RmSettle d"] rm [of "RmCount d rc"] rm [of "RmClear d rc"] no_cb
    by (auto simp: KeRemoveQueueDpc_def associated_def split: if_splits)
  have sub: "submitted (the_dpc s d) = 0" "Lock (the_dpc s d) = LockFree" for d
  proof -
    show "submitted (the_dpc s d) = 0"
      using assms(2) dpc_work.pool_new [of d s pcs] by (auto simp: the_dpc_def blank_def)
    have "KeInsertQueueDpc d s = None" if "d < length (dpcs s)"
      using assms(2) dpc_work.insert [OF that] by (metis not_None_eq)
    then show "Lock (the_dpc s d) = LockFree"
      by (cases "d < length (dpcs s)") (auto simp: KeInsertQueueDpc_def the_dpc_def blank_def split: INSPC.splits)
  qed
  have zero: "cnt pc pcs = 0" if "pc \<notin> set pcs" for pc using that by (simp add: cnt_def count_list_0_iff)
  have "open_count s pcs d = 0" for d
  proof -
    have "\<not> queued (the_dpc s d)"
      using assms(1) sub [of d] zero no_cb no_rm by (auto simp: dpc_inv_def dpc_ok_def dpc_num_def dest: spec [of _ d])
    then show ?thesis using zero no_cb no_rm by (simp add: open_count_def)
  qed
  moreover have "running pcs = 0" using no_cb by (simp add: running_zero)
  ultimately show ?thesis using counters_equal(2) [OF assms(1)] by simp
qed

section \<open>Properties\<close>

text \<open>A run with one DPC and three threads.\<close>

definition one_dpc :: "nat \<Rightarrow> nat \<Rightarrow> nat \<Rightarrow> bool \<Rightarrow> DPC" where
  "one_dpc n a1 a2 q = \<lparr>submitted = n, Lock = LockFree, DeferredRoutine = 70, DeferredContext = 0, SystemArgument1 = a1, SystemArgument2 = a2, queued = q,
     cancel = False, threaded = False\<rparr>"

definition dpc_sample :: "DPC \<Rightarrow> int \<Rightarrow> int \<Rightarrow> nat list \<Rightarrow> (nat \<times> nat \<times> nat \<times> nat) list \<Rightarrow> DPCS" where
  "dpc_sample p q c ins rs = \<lparr>dpcs = [p], DpcsQueued = q, DpcsCompleted = c, inserts = ins, runs = rs, removes = []\<rparr>"

lemmas sample_defs = dpc_sample_def one_dpc_def upd_dpc_def dpc_irql_def routine_defs

text \<open>A whole insertion of the DPC.\<close>

lemma dpc_inserted:
  assumes "dpc_reach (dpc_sample (one_dpc m b1 b2 False) q c ins rs, pcs)"
  shows "dpc_reach (dpc_sample (one_dpc (m + 1) a1 a2 True) (q + 1) c (ins @ [0]) rs, pcs)"
proof -
  let ?marked = "dpc_sample ((one_dpc m a1 a2 True)\<lparr>Lock := InMarked\<rparr>) q c (ins @ [0]) rs"
  have "dpc_step (dpc_sample (one_dpc m b1 b2 False) q c ins rs, pcs) (?marked, pcs)"
    by (rule dpc_step.insert_begin [of 0 _ a1 a2 True]) (simp_all add: sample_defs)
  note 1 = dpc_reach.step [OF assms this]
  have "dpc_step (?marked, pcs) (dpc_sample ((one_dpc m a1 a2 True)\<lparr>Lock := InCounted\<rparr>) (q + 1) c (ins @ [0]) rs, pcs)"
    by (rule dpc_step.insert [of 0]) (simp_all add: sample_defs)
  note 2 = dpc_reach.step [OF 1 this]
  have "dpc_step (dpc_sample ((one_dpc m a1 a2 True)\<lparr>Lock := InCounted\<rparr>) (q + 1) c (ins @ [0]) rs, pcs)
      (dpc_sample (one_dpc (m + 1) a1 a2 True) (q + 1) c (ins @ [0]) rs, pcs)"
    by (rule dpc_step.insert [of 0]) (simp_all add: sample_defs)
  from dpc_reach.step [OF 2 this] show ?thesis .
qed

lemma dpc_run_queued: "dpc_reach (dpc_sample (one_dpc 1 5 6 True) 1 0 [0] [], [Out, Out, Out])"
proof -
  have "dpc_reach (dpc_start, replicate 3 Out)" by (rule dpc_reach.start)
  then have "dpc_reach (KeInitializeDpc 70 0 dpc_start, replicate 3 Out)" by (rule dpc_reach.step) (rule dpc_step.init)
  then have "dpc_reach (dpc_sample (one_dpc 0 0 0 False) 0 0 [] [], [Out, Out, Out])"
    by (simp add: KeInitializeDpc_def dpc_start_def sample_defs numeral_3_eq_3)
  then show ?thesis using dpc_inserted [of 0 0 0 0 0 "[]" "[]" "[Out, Out, Out]" 5 6] by simp
qed

text \<open>The steps of a callback of the DPC by the thread \<open>i\<close>.\<close>

lemma dpc_started:
  assumes "dpc_reach (dpc_sample (one_dpc (Suc m) a1 a2 qd) q c ins rs, pcs)" "i < length pcs" "pcs ! i = Out"
  shows "dpc_reach (dpc_sample (one_dpc m a1 a2 qd) q c ins rs, pcs[i := CbStarted 0])"
proof -
  have "dpc_step (dpc_sample (one_dpc (Suc m) a1 a2 qd) q c ins rs, pcs)
      (upd_dpc 0 (\<lambda>p. p\<lparr>submitted := submitted p - 1\<rparr>) (dpc_sample (one_dpc (Suc m) a1 a2 qd) q c ins rs), pcs[i := CbStarted 0])"
    by (rule dpc_step.pool) (use assms in \<open>simp_all add: sample_defs\<close>)
  then show ?thesis using dpc_reach.step [OF assms(1)] by (fastforce simp: sample_defs)
qed

lemma dpc_called_back:
  assumes "dpc_reach (s, pcs)" "i < length pcs" "DdkDpcCallback (pcs ! i) s = Some (pc, s')"
  shows "dpc_reach (s', pcs[i := pc])"
  using dpc_reach.step [OF assms(1) dpc_step.callback [OF assms(2,3)]] .

text \<open>The callback has left the thread pool's account and not yet called the routine; meanwhile a thread has begun to flush.\<close>

lemma dpc_run_detached:
  "dpc_reach (dpc_sample (one_dpc 0 5 6 False) 1 0 [0] [], [CbDetached 0, Out, FlWait 1])"
proof -
  have 1: "dpc_reach (dpc_sample (one_dpc 0 5 6 True) 1 0 [0] [], [CbStarted 0, Out, Out])"
    using dpc_started [of 0 5 6 True 1 0 "[0]" "[]" "[Out, Out, Out]" 0] dpc_run_queued by simp
  have 2: "dpc_reach (dpc_sample (one_dpc 0 5 6 False) 1 0 [0] [], [CbCleared 0, Out, Out])"
    using dpc_called_back [OF 1, of 0 "CbCleared 0" "dpc_sample (one_dpc 0 5 6 False) 1 0 [0] []"] by (simp add: sample_defs)
  have 3: "dpc_reach (dpc_sample (one_dpc 0 5 6 False) 1 0 [0] [], [CbDetached 0, Out, Out])"
    using dpc_called_back [OF 2, of 0 "CbDetached 0" "dpc_sample (one_dpc 0 5 6 False) 1 0 [0] []"] by (simp add: sample_defs)
  have "dpc_step (dpc_sample (one_dpc 0 5 6 False) 1 0 [0] [], [CbDetached 0, Out, Out])
      (dpc_sample (one_dpc 0 5 6 False) 1 0 [0] [], [CbDetached 0, Out, Out][2 := KeFlushQueuedDpcs_begin (dpc_sample (one_dpc 0 5 6 False) 1 0 [0] [])])"
    by (rule dpc_step.flush_begin) simp_all
  then show ?thesis using dpc_reach.step [OF 3] by (simp add: sample_defs numeral_2_eq_2)
qed

text \<open>
  C22.  DPCs are not lost and do not run twice: in every interleaving of insertions, callbacks, removals and flushes by any number of threads, the insertions
  of a DPC that KeInsertQueueDpc accepted are exactly the calls of its routine, the removals that answer TRUE, and those still outstanding: at most one that is queued, callbacks
  that have cleared the flag and are about to call the routine, and a removal about to be counted.  When no thread is in one of the routines and the DPC is not queued, every
  accepted insertion has been run once or removed; if it is queued then, it is submitted once.
\<close>

theorem dpc_accounting:
  assumes "dpc_reach (s, pcs)" "d < length (dpcs s)"
  shows "cnt d (inserts s) = cnt d (map fst (runs s)) + cnt d (removes s) + of_bool (queued (dpcs s ! d)) + cnt (CbCleared d) pcs + cnt (CbDetached d) pcs +
      cnt (RmCount d True) pcs \<and>
    (set pcs \<subseteq> {Out} \<and> \<not> queued (dpcs s ! d) \<longrightarrow> cnt d (inserts s) = cnt d (map fst (runs s)) + cnt d (removes s)) \<and>
    (set pcs \<subseteq> {Out} \<and> Lock (dpcs s ! d) = LockFree \<and> queued (dpcs s ! d) \<longrightarrow> submitted (dpcs s ! d) = 1)"
proof -
  have ok: "dpc_ok s pcs d" using dpc_reach_inv [OF assms(1)] by (simp add: dpc_inv_def)
  have zero: "cnt c pcs = 0" if "set pcs \<subseteq> {Out}" "c \<noteq> Out" for c using that by (auto simp: cnt_def count_list_0_iff)
  show ?thesis using ok zero assms(2) by (auto simp: dpc_ok_def dpc_num_def the_dpc_in [symmetric])
qed

theorem dpc_accounting_witness:
  "dpc_reach (dpc_sample (one_dpc 1 5 6 True) 1 0 [0] [], [Out, Out, Out]) \<and> cnt 0 [0::nat] = 0 + 0 + 1 + cnt (CbCleared 0) [Out, Out, Out] + 0 + 0 \<and>
   submitted (one_dpc 1 5 6 True) = 1"
  using dpc_accounting [OF dpc_run_queued, of 0] dpc_run_queued by (simp add: dpc_sample_def one_dpc_def cnt_def)

text \<open>
  C23.  A thread in KeFlushQueuedDpcs, called in the state \<open>s0\<close>, goes on waiting as long as fewer DPCs are complete than had been queued at the call.  If none has been queued since the
  call, it returns only when every queued DPC is done: none is queued (but for insertions that have marked their DPC and are not counted yet), submitted, started or running its routine, and every
  insertion that was counted has been run or removed.  And it does return: from any state that can be reached, the insertions, callbacks and removals that are under way end after at most \<open>dpc_todo\<close> steps of
  their threads and the thread pool, in whatever order these are taken, and in the state in which no such step is left the flush returns.  (A flush counts only:
  when a DPC is queued again after the call it may return too early, \<open>dpc_requeue_race\<close> below.)
\<close>

theorem flush_sound:
  assumes "dpc_reach (s, pcs)" "i < length pcs" "pcs ! i = KeFlushQueuedDpcs_begin s0"
  shows "(KeFlushQueuedDpcs (pcs ! i) s = (if DpcsCompleted s < DpcsQueued s0 then None else Some Out)) \<and>
    (KeFlushQueuedDpcs (pcs ! i) s \<noteq> None \<and> DpcsQueued s = DpcsQueued s0 \<longrightarrow>
      (\<forall>d. (queued (the_dpc s d) \<longrightarrow> Lock (the_dpc s d) = InMarked) \<and> submitted (the_dpc s d) = 0 \<and>
        set pcs \<inter> {CbStarted d, CbCleared d, CbDetached d, CbRunning d} = {} \<and>
        cnt d (inserts s) = cnt d (map fst (runs s)) + cnt d (removes s) + of_bool (Lock (the_dpc s d) = InMarked))) \<and>
    ((dpc_work ^^ k) (s, pcs) (s', pcs') \<longrightarrow>
      k \<le> dpc_todo (s, pcs) \<and> ((\<forall>y. \<not> dpc_work (s', pcs') y) \<longrightarrow> KeFlushQueuedDpcs (pcs' ! i) s' = Some Out))"
proof (intro conjI impI allI)
  show "KeFlushQueuedDpcs (pcs ! i) s = (if DpcsCompleted s < DpcsQueued s0 then None else Some Out)"
    using assms(3) by (simp add: KeFlushQueuedDpcs_def KeFlushQueuedDpcs_begin_def)
next
  fix d
  note inv = dpc_reach_inv [OF assms(1)]
  assume "KeFlushQueuedDpcs (pcs ! i) s \<noteq> None \<and> DpcsQueued s = DpcsQueued s0"
  then have "DpcsQueued s \<le> DpcsCompleted s" using assms(3) by (auto simp: KeFlushQueuedDpcs_def KeFlushQueuedDpcs_begin_def split: if_splits)
  then have eq: "running pcs = 0" "open_count s pcs d = 0" using counters_equal [OF inv] by auto
  have ok: "dpc_ok s pcs d" using inv by (simp add: dpc_inv_def)
  show "cnt d (inserts s) = cnt d (map fst (runs s)) + cnt d (removes s) + of_bool (Lock (the_dpc s d) = InMarked)"
    using open_count_eq [OF ok] eq by simp
  have zero: "\<not> (queued (the_dpc s d) \<and> Lock (the_dpc s d) \<noteq> InMarked)" "cnt (CbCleared d) pcs = 0" "cnt (CbDetached d) pcs = 0"
    using eq(2) cnt_nonneg [of "CbCleared d" pcs] cnt_nonneg [of "CbDetached d" pcs] cnt_nonneg [of "RmCount d True" pcs]
    by (auto simp: open_count_def of_bool_def split: if_splits)
  then show "Lock (the_dpc s d) = InMarked" if "queued (the_dpc s d)" using that by simp
  have started: "submitted (the_dpc s d) = 0" "cnt (CbStarted d) pcs = 0"
    using ok zero(1) by (auto simp: dpc_ok_def dpc_num_def of_bool_def split: if_splits)
  then show "submitted (the_dpc s d) = 0" by simp
  show "set pcs \<inter> {CbStarted d, CbCleared d, CbDetached d, CbRunning d} = {}"
    using zero started eq(1) by (auto simp: cnt_def count_list_0_iff running_zero)
next
  assume run: "(dpc_work ^^ k) (s, pcs) (s', pcs')"
  show "k \<le> dpc_todo (s, pcs)" using dpc_work_bound [OF run] by simp
  assume stuck: "\<forall>y. \<not> dpc_work (s', pcs') y"
  have reach: "dpc_reach (s', pcs')" using dpc_work_reach [OF run assms(1)] .
  have fl: "i < length pcs'" "pcs' ! i = FlWait (DpcsQueued s0)"
    using dpc_works_flush [OF run assms(2)] assms(3) by (simp_all add: KeFlushQueuedDpcs_begin_def)
  then have "DpcsQueued s0 \<le> DpcsQueued s'" using flush_bound [OF reach, of "DpcsQueued s0"] nth_mem [OF fl(1)] by simp
  then show "KeFlushQueuedDpcs (pcs' ! i) s' = Some Out"
    using dpc_work_stuck [OF dpc_reach_inv [OF reach]] stuck fl(2) by (simp add: KeFlushQueuedDpcs_def)
qed

text \<open>A flush that waits while the callback is about to call the routine, and returns once it has ended.\<close>

lemma dpc_detached_work:
  "(dpc_work ^^ 2) (dpc_sample (one_dpc 0 5 6 False) 1 0 [0] [], [CbDetached 0, Out, FlWait 1])
     (dpc_sample (one_dpc 0 5 6 False) 1 1 [0] [(0, 5, 6, 2)], [Out, Out, FlWait 1])"
proof -
  have "dpc_work (dpc_sample (one_dpc 0 5 6 False) 1 0 [0] [], [CbDetached 0, Out, FlWait 1])
      (dpc_sample (one_dpc 0 5 6 False) 1 0 [0] [(0, 5, 6, 2)], [CbDetached 0, Out, FlWait 1][0 := CbRunning 0])"
    by (rule dpc_work.callback) (simp_all add: sample_defs)
  moreover have "dpc_work (dpc_sample (one_dpc 0 5 6 False) 1 0 [0] [(0, 5, 6, 2)], [CbRunning 0, Out, FlWait 1])
      (dpc_sample (one_dpc 0 5 6 False) 1 1 [0] [(0, 5, 6, 2)], [CbRunning 0, Out, FlWait 1][0 := Out])"
    by (rule dpc_work.callback) (simp_all add: sample_defs)
  ultimately show ?thesis by (auto simp: numeral_2_eq_2 relcompp_apply)
qed

lemma dpc_work_ended: "\<not> dpc_work (dpc_sample (one_dpc 0 5 6 False) 1 1 [0] [(0, 5, 6, 2)], [Out, Out, FlWait 1]) y"
proof
  assume "dpc_work (dpc_sample (one_dpc 0 5 6 False) 1 1 [0] [(0, 5, 6, 2)], [Out, Out, FlWait 1]) y"
  then show False by cases (auto simp: sample_defs less_Suc_eq numeral_3_eq_3)
qed

theorem flush_sound_witness:
  "KeFlushQueuedDpcs (FlWait 1) (dpc_sample (one_dpc 0 5 6 False) 1 0 [0] []) = None \<and>
   KeFlushQueuedDpcs (FlWait 1) (dpc_sample (one_dpc 0 5 6 False) 1 1 [0] [(0, 5, 6, 2)]) = Some Out \<and>
   2 \<le> dpc_todo (dpc_sample (one_dpc 0 5 6 False) 1 0 [0] [], [CbDetached 0, Out, FlWait 1])"
proof -
  have "[CbDetached 0, Out, FlWait 1] ! 2 = KeFlushQueuedDpcs_begin (dpc_sample (one_dpc 0 5 6 False) 1 0 [0] [])" by (simp add: sample_defs)
  note f = flush_sound [OF dpc_run_detached _ this, of 2 _ "[Out, Out, FlWait 1]"]
  show ?thesis using f [of "dpc_sample (one_dpc 0 5 6 False) 1 1 [0] [(0, 5, 6, 2)]"] dpc_detached_work dpc_work_ended
    by (simp add: dpc_sample_def del: dpc_todo.simps)
qed

text \<open>
  What goes wrong when a DPC is queued again in the meantime.  The callback reads the arguments after it has cleared the flag: an
  insertion in between replaces them, both calls get the new ones and the first pair is lost.  And a flush that waits for the first insertion returns when the second one is
  complete, before the first has been run.
\<close>

lemma dpc_requeue_race:
  "dpc_reach (dpc_sample (one_dpc 0 7 8 False) 2 1 [0, 0] [(0, 7, 8, 2)], [CbDetached 0, Out, Out]) \<and>
   DdkDpcCallback (CbDetached 0) (dpc_sample (one_dpc 0 7 8 False) 2 1 [0, 0] [(0, 7, 8, 2)]) =
     Some (CbRunning 0, dpc_sample (one_dpc 0 7 8 False) 2 1 [0, 0] [(0, 7, 8, 2), (0, 7, 8, 2)])"
proof -
  let ?s = "\<lambda>n q c rs. dpc_sample (one_dpc n 7 8 q) 2 c [0, 0] rs"
  have 1: "dpc_reach (?s 1 True 0 [], [CbDetached 0, Out, FlWait 1])"
    using dpc_inserted [OF dpc_run_detached, of 7 8] by simp
  have 2: "dpc_reach (?s 0 True 0 [], [CbDetached 0, CbStarted 0, FlWait 1])"
    using dpc_started [of 0 7 8 True 2 0 "[0, 0]" "[]" _ 1] 1 by fastforce
  have 3: "dpc_reach (?s 0 False 0 [], [CbDetached 0, CbCleared 0, FlWait 1])"
    using dpc_called_back [OF 2, of 1 "CbCleared 0" "?s 0 False 0 []"] by (simp add: sample_defs)
  have 4: "dpc_reach (?s 0 False 0 [], [CbDetached 0, CbDetached 0, FlWait 1])"
    using dpc_called_back [OF 3, of 1 "CbDetached 0" "?s 0 False 0 []"] by (simp add: sample_defs)
  have 5: "dpc_reach (?s 0 False 0 [(0, 7, 8, 2)], [CbDetached 0, CbRunning 0, FlWait 1])"
    using dpc_called_back [OF 4, of 1 "CbRunning 0" "?s 0 False 0 [(0, 7, 8, 2)]"] by (simp add: sample_defs)
  have 6: "dpc_reach (?s 0 False 1 [(0, 7, 8, 2)], [CbDetached 0, Out, FlWait 1])"
    using dpc_called_back [OF 5, of 1 Out "?s 0 False 1 [(0, 7, 8, 2)]"] by (simp add: sample_defs)
  have "dpc_step (?s 0 False 1 [(0, 7, 8, 2)], [CbDetached 0, Out, FlWait 1]) (?s 0 False 1 [(0, 7, 8, 2)], [CbDetached 0, Out, FlWait 1][2 := Out])"
    by (rule dpc_step.flush) (simp_all add: sample_defs)
  with dpc_reach.step [OF 6] show ?thesis by (simp add: sample_defs numeral_2_eq_2)
qed

end
