(* ===== verification/Registry.thy ===== *)
theory Registry
  imports Strings "HOL-Library.AList"
begin

text \<open>
  Registry keys and values: src/src/registry.cpp except the query tables, which are in theory RegQuery.

  The library keeps a hive of its own and works on it with the registry functions of Windows.  Those are a parameter, the record \<open>WINREG\<close>, of every definition
  that calls them; what is relied on of them is the locale \<open>winreg\<close>, which says what each call does to a tree of keys with their values and to the table of open handles
  (\<open>RVIEW\<close>).  A handle is a number, the null handle is 0.  A pointer to a null-terminated string is the list of its characters.  A KEY object is known by its handle, and \<open>kobjs\<close>
  gives the HKEY it holds.
\<close>

section \<open>Definitions\<close>

type_synonym wstr = "WCHAR list"
type_synonym DWORD = ULONG

subsection \<open>The registry functions of Windows\<close>

text \<open>
  The arguments are those the code passes: handles, names, and for a buffer its size (None for a null buffer).  The results are the error code and what is stored through pointers.
  Functions that only read do not change the state.
\<close>

record 'w WINREG =
  RegOpenKeyW :: "nat \<Rightarrow> wstr \<Rightarrow> 'w \<Rightarrow> (nat \<times> nat) \<times> 'w"
  RegCreateKeyW :: "nat \<Rightarrow> wstr \<Rightarrow> 'w \<Rightarrow> (nat \<times> nat) \<times> 'w"
  RegCreateKeyExW :: "nat \<Rightarrow> wstr \<Rightarrow> 'w \<Rightarrow> (nat \<times> nat \<times> ULONG) \<times> 'w"
  RegCloseKey :: "nat \<Rightarrow> 'w \<Rightarrow> unit \<times> 'w"
  RegFlushKey :: "nat \<Rightarrow> 'w \<Rightarrow> nat \<times> 'w"
  RegDeleteKeyW :: "nat \<Rightarrow> wstr \<Rightarrow> 'w \<Rightarrow> nat \<times> 'w"
  RegSetValueExW :: "nat \<Rightarrow> wstr \<Rightarrow> ULONG \<Rightarrow> UCHAR list \<Rightarrow> 'w \<Rightarrow> nat \<times> 'w"
  RegDeleteValueW :: "nat \<Rightarrow> wstr \<Rightarrow> 'w \<Rightarrow> nat \<times> 'w"
  RegDeleteKeyValueW :: "nat \<Rightarrow> wstr \<Rightarrow> wstr \<Rightarrow> 'w \<Rightarrow> nat \<times> 'w"
  RegQueryValueExW :: "nat \<Rightarrow> wstr \<Rightarrow> DWORD option \<Rightarrow> 'w \<Rightarrow> nat \<times> ULONG \<times> DWORD \<times> UCHAR list"
  RegEnumValueW :: "nat \<Rightarrow> DWORD \<Rightarrow> DWORD option \<Rightarrow> 'w \<Rightarrow> nat \<times> wstr \<times> ULONG \<times> DWORD \<times> UCHAR list"
  RegEnumKeyExW :: "nat \<Rightarrow> DWORD \<Rightarrow> 'w \<Rightarrow> nat \<times> wstr \<times> wstr \<times> nat"
  RegQueryInfoKeyW :: "nat \<Rightarrow> 'w \<Rightarrow> nat \<times> ULONG list"

text \<open>
  The state: that of Windows, the root of the hive, the KEY objects, whether the thread is a system thread, which sizes can be allocated, and for the query tables the state of the
  driver's routines and the variables that entries of a table point to.
\<close>

datatype SLOT = StringSlot UNICODE_STRING | RawSlot "UCHAR list"

record ('w, 'c) REG =
  win :: 'w
  hive :: nat
  kobjs :: "nat \<rightharpoonup> nat"
  next_kobj :: nat
  kobjs_left :: nat
  system_thread :: bool
  can_alloc :: "DWORD \<Rightarrow> bool"
  client :: 'c
  slots :: "nat \<rightharpoonup> SLOT"

definition call_win :: "('w \<Rightarrow> 'a \<times> 'w) \<Rightarrow> ('a, ('w, 'c) REG) st" where
  "call_win f s = (case f (win s) of (x, w) \<Rightarrow> Inr (x, s\<lparr>win := w\<rparr>))"

definition read_win :: "('w \<Rightarrow> 'a) \<Rightarrow> ('a, ('w, 'c) REG) st" where
  "read_win f = gets (\<lambda>s. f (win s))"

abbreviation (input) ERROR_SUCCESS :: nat where "ERROR_SUCCESS \<equiv> 0"
abbreviation (input) ERROR_FILE_NOT_FOUND :: nat where "ERROR_FILE_NOT_FOUND \<equiv> 2"
abbreviation (input) ERROR_ACCESS_DENIED :: nat where "ERROR_ACCESS_DENIED \<equiv> 5"
abbreviation (input) ERROR_INVALID_HANDLE :: nat where "ERROR_INVALID_HANDLE \<equiv> 6"
abbreviation (input) ERROR_NOT_ENOUGH_MEMORY :: nat where "ERROR_NOT_ENOUGH_MEMORY \<equiv> 8"
abbreviation (input) ERROR_MORE_DATA :: nat where "ERROR_MORE_DATA \<equiv> 234"
abbreviation (input) ERROR_NO_MORE_ITEMS :: nat where "ERROR_NO_MORE_ITEMS \<equiv> 259"
abbreviation (input) ERROR_KEY_DELETED :: nat where "ERROR_KEY_DELETED \<equiv> 1018"
abbreviation (input) STATUS_ACCESS_DENIED :: NTSTATUS where "STATUS_ACCESS_DENIED \<equiv> 0xC0000022"
abbreviation (input) STATUS_UNSUCCESSFUL :: NTSTATUS where "STATUS_UNSUCCESSFUL \<equiv> 0xC0000001"
abbreviation (input) backslash :: WCHAR where "backslash \<equiv> 0x5C"
abbreviation (input) RTL_REGISTRY_HANDLE :: ULONG where "RTL_REGISTRY_HANDLE \<equiv> 0x40000000"
abbreviation (input) RTL_REGISTRY_OPTIONAL :: ULONG where "RTL_REGISTRY_OPTIONAL \<equiv> 0x80000000"
abbreviation (input) REG_SZ :: ULONG where "REG_SZ \<equiv> 1"
abbreviation (input) REG_EXPAND_SZ :: ULONG where "REG_EXPAND_SZ \<equiv> 2"
abbreviation (input) REG_BINARY :: ULONG where "REG_BINARY \<equiv> 3"
abbreviation (input) REG_DWORD :: ULONG where "REG_DWORD \<equiv> 4"
abbreviation (input) REG_DWORD_BIG_ENDIAN :: ULONG where "REG_DWORD_BIG_ENDIAN \<equiv> 5"
abbreviation (input) REG_MULTI_SZ :: ULONG where "REG_MULTI_SZ \<equiv> 7"
abbreviation (input) REG_QWORD :: ULONG where "REG_QWORD \<equiv> 11"

subsection \<open>Opening keys\<close>

definition DdkGetRegistryStatus :: "nat \<Rightarrow> NTSTATUS" where
  "DdkGetRegistryStatus rc =
     (if rc = ERROR_SUCCESS then STATUS_SUCCESS
      else if rc = ERROR_ACCESS_DENIED then STATUS_ACCESS_DENIED
      else if rc = ERROR_NOT_ENOUGH_MEMORY then STATUS_INSUFFICIENT_RESOURCES
      else if rc = ERROR_INVALID_HANDLE then STATUS_INVALID_HANDLE
      else if rc = ERROR_FILE_NOT_FOUND then STATUS_OBJECT_NAME_NOT_FOUND
      else if rc = ERROR_MORE_DATA then STATUS_BUFFER_TOO_SMALL
      else if rc = ERROR_NO_MORE_ITEMS then STATUS_NO_MORE_ENTRIES
      else STATUS_UNSUCCESSFUL)"

definition rooted :: "string list \<Rightarrow> wstr" where
  "rooted names = concat (map (\<lambda>n. backslash # map of_char n) names)"

definition DdkGetRelativePath :: "ULONG \<Rightarrow> (wstr, ('w, 'c) REG) st" where
  "DdkGetRelativePath RelativeTo =
     (let r = RelativeTo AND NOT RTL_REGISTRY_OPTIONAL
      in if r = 0 then ret []
         else if r = 2 then ret (rooted [''Registry'', ''Machine'', ''System'', ''CurrentControlSet'', ''Control''])
         else if r = 4 then ret (rooted [''Registry'', ''Machine'', ''Hardware'', ''DeviceMap''])
         else if r = 1 then ret (rooted [''Registry'', ''Machine'', ''System'', ''CurrentControlSet'', ''Services''])
         else if r = 5 then bindS (gets system_thread) (\<lambda>sys.
           ret (if sys then rooted [''Registry'', ''User'', ''CurrentUser''] else rooted [''Registry'', ''User'', ''.Default'']))
         else if r = 3 then ret (rooted [''Registry'', ''Machine'', ''Software'', ''Microsoft'', ''Windows NT'', ''CurrentVersion''])
         else fail (DdkFail ''Unknown RTL_REGISTRY value''))"

text \<open>The path argument is a string, or the handle of a KEY object when RTL_REGISTRY_HANDLE is given.\<close>

datatype RPATHARG = Path wstr | KeyHandle nat

text \<open>The HKEY of a KEY object, 0 when there is no such object.\<close>

definition from_handle :: "nat \<Rightarrow> (nat, ('w, 'c) REG) st" where
  "from_handle k = gets (\<lambda>s. case kobjs s k of None \<Rightarrow> 0 | Some h \<Rightarrow> h)"

definition by_handle :: "ULONG \<Rightarrow> bool" where
  "by_handle RelativeTo \<longleftrightarrow> RelativeTo AND RTL_REGISTRY_HANDLE \<noteq> 0"

definition skip_backslashes :: "wstr \<Rightarrow> wstr" where
  "skip_backslashes = dropWhile (\<lambda>c. c = backslash)"

definition open_or_create :: "'w WINREG \<Rightarrow> bool \<Rightarrow> nat \<Rightarrow> wstr \<Rightarrow> (nat \<times> nat, ('w, 'c) REG) st" where
  "open_or_create W create h name = call_win (if create then RegCreateKeyW W h name else RegOpenKeyW W h name)"

definition close_hkey :: "'w WINREG \<Rightarrow> nat \<Rightarrow> (unit, ('w, 'c) REG) st" where
  "close_hkey W h = call_win (RegCloseKey W h)"

text \<open>The two steps below the hive: to the key that RelativeTo stands for, and from there along the path.\<close>

definition open_below :: "'w WINREG \<Rightarrow> bool \<Rightarrow> wstr \<Rightarrow> wstr \<Rightarrow> (NTSTATUS \<times> nat, ('w, 'c) REG) st" where
  "open_below W create rel path =
     bindS (gets hive) (\<lambda>hv.
     bindS (if rel \<noteq> [] then open_or_create W create hv rel else ret (ERROR_SUCCESS, hv)) (\<lambda>(rc, base).
     if rc \<noteq> ERROR_SUCCESS then ret (DdkGetRegistryStatus rc, 0)
     else
       bindS (if path \<noteq> [] then open_or_create W create base path else ret (ERROR_SUCCESS, base)) (\<lambda>(rc, k).
       let key = (if rc = ERROR_SUCCESS then k else 0)
       in bindS (if base \<noteq> key \<and> base \<noteq> hv then close_hkey W base else ret ()) (\<lambda>_.
          ret (DdkGetRegistryStatus rc, key)))))"

definition DdkGetRegistryKey :: "'w WINREG \<Rightarrow> ULONG \<Rightarrow> RPATHARG \<Rightarrow> bool \<Rightarrow> (NTSTATUS \<times> nat, ('w, 'c) REG) st" where
  "DdkGetRegistryKey W RelativeTo path create =
     (if by_handle RelativeTo then
        if create then ret (STATUS_INVALID_PARAMETER, 0)
        else
          (case path of
             Path _ \<Rightarrow> fail Fault
           | KeyHandle k \<Rightarrow> bindS (from_handle k) (\<lambda>h. if h = 0 then ret (STATUS_INVALID_HANDLE, 0) else ret (STATUS_SUCCESS, h)))
      else
        bindS (DdkGetRelativePath RelativeTo) (\<lambda>rel.
        case path of
          KeyHandle _ \<Rightarrow> fail Fault
        | Path p \<Rightarrow> open_below W create (skip_backslashes rel) (skip_backslashes p)))"

definition close_unless_hive :: "'w WINREG \<Rightarrow> nat \<Rightarrow> (unit, ('w, 'c) REG) st" where
  "close_unless_hive W h = bindS (gets hive) (\<lambda>hv. if h \<noteq> 0 \<and> h \<noteq> hv then close_hkey W h else ret ())"

definition DdkCreateRegistryKey :: "'w WINREG \<Rightarrow> ULONG \<Rightarrow> RPATHARG \<Rightarrow> (unit, ('w, 'c) REG) st" where
  "DdkCreateRegistryKey W RelativeTo path =
     bindS (DdkGetRegistryKey W RelativeTo path True) (\<lambda>(status, key). close_unless_hive W key)"

definition DdkDeleteRegistryKey :: "'w WINREG \<Rightarrow> ULONG \<Rightarrow> RPATHARG \<Rightarrow> (unit, ('w, 'c) REG) st" where
  "DdkDeleteRegistryKey W RelativeTo path =
     bindS (DdkGetRegistryKey W RelativeTo path False) (\<lambda>(status, key).
     bindS (if key \<noteq> 0 then bindS (call_win (RegDeleteKeyW W key [])) (\<lambda>_. ret ()) else ret ()) (\<lambda>_.
     if \<not> by_handle RelativeTo then close_unless_hive W key else ret ()))"

text \<open>The path up to the last backslash, nothing when there is none.\<close>

definition parent_path :: "wstr \<Rightarrow> wstr" where
  "parent_path w = (if backslash \<in> set w then rev (tl (dropWhile (\<lambda>c. c \<noteq> backslash) (rev w))) else [])"

fun parent_arg :: "RPATHARG \<Rightarrow> RPATHARG" where
  "parent_arg (Path w) = Path (parent_path w)"
| "parent_arg (KeyHandle k) = KeyHandle k"

definition DdkCheckKeyExists :: "'w WINREG \<Rightarrow> ULONG \<Rightarrow> RPATHARG \<Rightarrow> bool \<Rightarrow> (bool, ('w, 'c) REG) st" where
  "DdkCheckKeyExists W RelativeTo path parent =
     (if by_handle RelativeTo then ret True
      else
        bindS (DdkGetRegistryKey W RelativeTo (if parent then parent_arg path else path) False) (\<lambda>(status, key).
        bindS (close_unless_hive W key) (\<lambda>_. ret (key \<noteq> 0))))"

subsection \<open>The Rtl routines on keys and values\<close>

definition RtlCreateRegistryKey :: "'w WINREG \<Rightarrow> ULONG \<Rightarrow> RPATHARG \<Rightarrow> (NTSTATUS, ('w, 'c) REG) st" where
  "RtlCreateRegistryKey W RelativeTo path =
     bindS (DdkCheckKeyExists W RelativeTo path True) (\<lambda>ok.
     if \<not> ok then ret STATUS_OBJECT_NAME_NOT_FOUND
     else
       bindS (DdkGetRegistryKey W RelativeTo path True) (\<lambda>(status, key).
       if \<not> NT_SUCCESS status then ret status
       else bindS (gets hive) (\<lambda>hv. bindS (if key \<noteq> hv then close_hkey W key else ret ()) (\<lambda>_. ret STATUS_SUCCESS))))"

definition RtlCheckRegistryKey :: "'w WINREG \<Rightarrow> ULONG \<Rightarrow> RPATHARG \<Rightarrow> (NTSTATUS, ('w, 'c) REG) st" where
  "RtlCheckRegistryKey W RelativeTo path =
     bindS (DdkCheckKeyExists W RelativeTo path False) (\<lambda>ok. ret (if ok then STATUS_SUCCESS else STATUS_OBJECT_NAME_NOT_FOUND))"

definition close_if_opened :: "'w WINREG \<Rightarrow> ULONG \<Rightarrow> nat \<Rightarrow> (unit, ('w, 'c) REG) st" where
  "close_if_opened W RelativeTo key =
     (if \<not> by_handle RelativeTo then bindS (gets hive) (\<lambda>hv. if key \<noteq> hv then close_hkey W key else ret ()) else ret ())"

definition RtlWriteRegistryValue ::
  "'w WINREG \<Rightarrow> ULONG \<Rightarrow> RPATHARG \<Rightarrow> wstr \<Rightarrow> ULONG \<Rightarrow> UCHAR list \<Rightarrow> (NTSTATUS, ('w, 'c) REG) st" where
  "RtlWriteRegistryValue W RelativeTo path ValueName ValueType ValueData =
     bindS (DdkGetRegistryKey W RelativeTo path False) (\<lambda>(status, key).
     if \<not> NT_SUCCESS status then ret status
     else
       bindS (call_win (RegSetValueExW W key ValueName ValueType ValueData)) (\<lambda>rc.
       bindS (close_if_opened W RelativeTo key) (\<lambda>_. ret (DdkGetRegistryStatus rc))))"

definition RtlDeleteRegistryValue :: "'w WINREG \<Rightarrow> ULONG \<Rightarrow> RPATHARG \<Rightarrow> wstr \<Rightarrow> (NTSTATUS, ('w, 'c) REG) st" where
  "RtlDeleteRegistryValue W RelativeTo path ValueName =
     bindS (DdkGetRegistryKey W RelativeTo path False) (\<lambda>(status, key).
     if \<not> NT_SUCCESS status then ret (if status = STATUS_OBJECT_NAME_NOT_FOUND then STATUS_SUCCESS else status)
     else
       bindS (call_win (RegDeleteValueW W key ValueName)) (\<lambda>rc.
       bindS (close_if_opened W RelativeTo key) (\<lambda>_. ret (DdkGetRegistryStatus rc))))"

subsection \<open>KEY objects\<close>

text \<open>
  A counted name as a null-terminated string without leading backslashes, or None for a null pointer; \<open>ok\<close> tells whether there is memory for it.
\<close>

definition name_text :: "bool \<Rightarrow> UNICODE_STRING option \<Rightarrow> wstr option res" where
  "name_text ok up =
     bindE (DdkUnicodeToString ok up backslash) (\<lambda>r.
     case r of None \<Rightarrow> Inr None | Some b \<Rightarrow> bindE (wcslen (wchars b)) (\<lambda>n. Inr (Some (take n (wchars b)))))"

definition name_arg :: "bool \<Rightarrow> UNICODE_STRING option \<Rightarrow> (wstr option, ('w, 'c) REG) st" where
  "name_arg ok up = liftE (name_text ok up)"

record OBJECT_ATTRIBUTES =
  RootDirectory :: nat
  ObjectName :: UNICODE_STRING

definition new_kobj :: "nat \<Rightarrow> (nat, ('w, 'c) REG) st" where
  "new_kobj h s =
     (if kobjs_left s = 0 then Inr (0, s)
      else Inr (next_kobj s, s\<lparr>kobjs := (kobjs s)(next_kobj s \<mapsto> h), next_kobj := next_kobj s + 1, kobjs_left := kobjs_left s - 1\<rparr>))"

text \<open>\<open>pDisposition\<close> is null when a key is opened; the result is the status, the object (0 for none) and the disposition.\<close>

definition DdkGetRegistryObject ::
  "'w WINREG \<Rightarrow> bool \<Rightarrow> OBJECT_ATTRIBUTES option \<Rightarrow> bool \<Rightarrow> (NTSTATUS \<times> nat \<times> ULONG, ('w, 'c) REG) st" where
  "DdkGetRegistryObject W ok ObjectAttributes create =
     (case ObjectAttributes of
        None \<Rightarrow> ret (STATUS_INVALID_PARAMETER, 0, 0)
      | Some oa \<Rightarrow>
          if Buffer (ObjectName oa) = None then ret (STATUS_INVALID_PARAMETER, 0, 0)
          else
            bindS (if RootDirectory oa \<noteq> 0 then from_handle (RootDirectory oa) else gets hive) (\<lambda>base.
            if RootDirectory oa \<noteq> 0 \<and> base = 0 then ret (STATUS_INVALID_HANDLE, 0, 0)
            else
              bindS (name_arg ok (Some (ObjectName oa))) (\<lambda>name.
              let path = (case name of None \<Rightarrow> [] | Some n \<Rightarrow> n)
              in bindS (if path = [] then ret (ERROR_SUCCESS, base, 0)
                        else if create then call_win (RegCreateKeyExW W base path)
                        else bindS (call_win (RegOpenKeyW W base path)) (\<lambda>(rc, k). ret (rc, k, 0))) (\<lambda>(rc, key, disposition).
                 if rc \<noteq> ERROR_SUCCESS then ret (DdkGetRegistryStatus rc, 0, 0)
                 else
                   bindS (new_kobj key) (\<lambda>pKey.
                   if pKey = 0 then bindS (if key \<noteq> base then close_hkey W key else ret ()) (\<lambda>_. ret (STATUS_INSUFFICIENT_RESOURCES, 0, 0))
                   else ret (STATUS_SUCCESS, pKey, disposition))))))"

definition ZwOpenKeyEx ::
  "'w WINREG \<Rightarrow> bool \<Rightarrow> bool \<Rightarrow> OBJECT_ATTRIBUTES option \<Rightarrow> (NTSTATUS \<times> nat option, ('w, 'c) REG) st" where
  "ZwOpenKeyEx W ok have_handle ObjectAttributes =
     (if \<not> have_handle then ret (STATUS_INVALID_PARAMETER, None)
      else bindS (DdkGetRegistryObject W ok ObjectAttributes False) (\<lambda>(status, pKey, disposition).
           ret (status, if NT_SUCCESS status then Some pKey else None)))"

definition ZwOpenKey ::
  "'w WINREG \<Rightarrow> bool \<Rightarrow> bool \<Rightarrow> OBJECT_ATTRIBUTES option \<Rightarrow> (NTSTATUS \<times> nat option, ('w, 'c) REG) st" where
  "ZwOpenKey W ok have_handle ObjectAttributes = ZwOpenKeyEx W ok have_handle ObjectAttributes"

definition ZwCreateKey ::
  "'w WINREG \<Rightarrow> bool \<Rightarrow> bool \<Rightarrow> OBJECT_ATTRIBUTES option \<Rightarrow> (NTSTATUS \<times> (nat \<times> ULONG) option, ('w, 'c) REG) st" where
  "ZwCreateKey W ok have_handle ObjectAttributes =
     (if \<not> have_handle then ret (STATUS_INVALID_PARAMETER, None)
      else bindS (DdkGetRegistryObject W ok ObjectAttributes True) (\<lambda>(status, pKey, disposition).
           ret (status, if NT_SUCCESS status then Some (pKey, disposition) else None)))"

text \<open>The test at the start of the routines that take the handle of a key.\<close>

definition with_key :: "nat \<Rightarrow> 'a \<Rightarrow> (nat \<Rightarrow> ('a, ('w, 'c) REG) st) \<Rightarrow> ('a, ('w, 'c) REG) st" where
  "with_key h invalid k = bindS (from_handle h) (\<lambda>hk. if hk = 0 then ret invalid else k hk)"

definition ZwSetValueKey ::
  "'w WINREG \<Rightarrow> bool \<Rightarrow> nat \<Rightarrow> UNICODE_STRING option \<Rightarrow> ULONG \<Rightarrow> UCHAR list \<Rightarrow> (NTSTATUS, ('w, 'c) REG) st" where
  "ZwSetValueKey W ok h ValueName Type Data =
     with_key h STATUS_INVALID_HANDLE (\<lambda>hk.
     bindS (name_arg ok ValueName) (\<lambda>name.
     bindS (call_win (RegSetValueExW W hk (case name of None \<Rightarrow> [] | Some n \<Rightarrow> n) Type Data)) (\<lambda>rc.
     ret (DdkGetRegistryStatus rc))))"

definition ZwFlushKey :: "'w WINREG \<Rightarrow> nat \<Rightarrow> (NTSTATUS, ('w, 'c) REG) st" where
  "ZwFlushKey W h =
     with_key h STATUS_INVALID_HANDLE (\<lambda>hk. bindS (call_win (RegFlushKey W hk)) (\<lambda>rc. ret (DdkGetRegistryStatus rc)))"

definition ZwDeleteValueKey :: "'w WINREG \<Rightarrow> bool \<Rightarrow> nat \<Rightarrow> UNICODE_STRING option \<Rightarrow> (NTSTATUS, ('w, 'c) REG) st" where
  "ZwDeleteValueKey W ok h ValueName =
     with_key h STATUS_INVALID_HANDLE (\<lambda>hk.
     bindS (name_arg ok ValueName) (\<lambda>name.
     bindS (call_win (RegDeleteValueW W hk (case name of None \<Rightarrow> [] | Some n \<Rightarrow> n))) (\<lambda>rc.
     ret (DdkGetRegistryStatus rc))))"

definition ZwDeleteKey :: "'w WINREG \<Rightarrow> nat \<Rightarrow> (NTSTATUS, ('w, 'c) REG) st" where
  "ZwDeleteKey W h =
     with_key h STATUS_INVALID_HANDLE (\<lambda>hk. bindS (call_win (RegDeleteKeyW W hk [])) (\<lambda>rc. ret (DdkGetRegistryStatus rc)))"

text \<open>
  The information classes of ZwQueryValueKey and ZwEnumerateValueKey.  The structures are filled when the buffer (None for a null pointer, otherwise its length) is large enough; the results are the status, the
  length reported (None when it is not stored) and the structure (None when it is not filled).  \<open>fetch\<close> is the call that reads the data again, into the place that was measured.
\<close>

datatype VALUE_CLASS = KeyValueBasicInformation | KeyValueFullInformation | KeyValuePartialInformation | OtherValueInformation

datatype VALUE_INFO =
  ValueBasic ULONG ULONG wstr
| ValueFull ULONG ULONG ULONG ULONG wstr "UCHAR list"
| ValuePartial ULONG ULONG "UCHAR list"

definition fill_value_info ::
  "VALUE_CLASS \<Rightarrow> ULONG option \<Rightarrow> ULONG \<Rightarrow> wstr \<Rightarrow> DWORD \<Rightarrow> (DWORD \<Rightarrow> nat \<times> DWORD \<times> UCHAR list) \<Rightarrow>
   NTSTATUS \<times> ULONG option \<times> VALUE_INFO option" where
  "fill_value_info cls buf type name datalen fetch =
     (let namebytes = of_nat (2 * length name)
      in case cls of
           KeyValueBasicInformation \<Rightarrow>
             (let need = 12 + namebytes
              in case buf of
                   None \<Rightarrow> (STATUS_SUCCESS, Some need, None)
                 | Some len \<Rightarrow>
                     if len < need then (STATUS_BUFFER_TOO_SMALL, Some need, None)
                     else (STATUS_SUCCESS, Some need, Some (ValueBasic type namebytes name)))
         | KeyValueFullInformation \<Rightarrow>
             (let need = 20 + namebytes + datalen
              in case buf of
                   None \<Rightarrow> (STATUS_SUCCESS, Some need, None)
                 | Some len \<Rightarrow>
                     if len < need then (STATUS_BUFFER_TOO_SMALL, Some need, None)
                     else (case fetch datalen of (rc, datalen', d) \<Rightarrow>
                       (DdkGetRegistryStatus rc, Some need, Some (ValueFull type (20 + namebytes) datalen' namebytes name d))))
         | KeyValuePartialInformation \<Rightarrow>
             (let need = 12 + datalen
              in case buf of
                   None \<Rightarrow> (STATUS_SUCCESS, Some need, None)
                 | Some len \<Rightarrow>
                     if len < need then (STATUS_BUFFER_TOO_SMALL, Some need, None)
                     else (case fetch datalen of (rc, datalen', d) \<Rightarrow>
                       (DdkGetRegistryStatus rc, Some need, Some (ValuePartial type datalen' d))))
         | OtherValueInformation \<Rightarrow> (STATUS_INVALID_PARAMETER, None, None))"

definition ZwQueryValueKey ::
  "'w WINREG \<Rightarrow> bool \<Rightarrow> nat \<Rightarrow> UNICODE_STRING option \<Rightarrow> VALUE_CLASS \<Rightarrow> ULONG option \<Rightarrow>
   (NTSTATUS \<times> ULONG option \<times> VALUE_INFO option, ('w, 'c) REG) st" where
  "ZwQueryValueKey W ok h ValueName cls buf =
     with_key h (STATUS_INVALID_HANDLE, None, None) (\<lambda>hk.
     bindS (name_arg ok ValueName) (\<lambda>r.
     case r of
       None \<Rightarrow> fail Fault
     | Some name \<Rightarrow>
         bindS (read_win (RegQueryValueExW W hk name None)) (\<lambda>(rc, type, datalen, _).
         if rc \<noteq> ERROR_SUCCESS then ret (DdkGetRegistryStatus rc, None, None)
         else bindS (read_win (\<lambda>w cap. case RegQueryValueExW W hk name (Some cap) w of (rc, _, n, d) \<Rightarrow> (rc, n, d))) (\<lambda>fetch.
              ret (fill_value_info cls buf type name datalen fetch)))))"

definition ZwEnumerateValueKey ::
  "'w WINREG \<Rightarrow> nat \<Rightarrow> DWORD \<Rightarrow> VALUE_CLASS \<Rightarrow> ULONG option \<Rightarrow> (NTSTATUS \<times> ULONG option \<times> VALUE_INFO option, ('w, 'c) REG) st" where
  "ZwEnumerateValueKey W h Index cls buf =
     with_key h (STATUS_INVALID_HANDLE, None, None) (\<lambda>hk.
     bindS (read_win (RegEnumValueW W hk Index None)) (\<lambda>(rc, name, type, datalen, _).
     if rc \<noteq> ERROR_SUCCESS then ret (DdkGetRegistryStatus rc, None, None)
     else bindS (read_win (\<lambda>w cap. case RegEnumValueW W hk Index (Some cap) w of (rc, _, _, n, d) \<Rightarrow> (rc, n, d))) (\<lambda>fetch.
          ret (fill_value_info cls buf type name datalen fetch))))"

datatype KEY_CLASS = KeyBasicInformation | KeyNodeInformation | KeyFullInformation | OtherKeyInformation

datatype KEY_INFO =
  KeyBasic nat ULONG wstr
| KeyNode nat ULONG ULONG ULONG wstr wstr
| KeyFull nat ULONG ULONG wstr "ULONG list"

definition ZwEnumerateKey ::
  "'w WINREG \<Rightarrow> nat \<Rightarrow> DWORD \<Rightarrow> KEY_CLASS \<Rightarrow> ULONG option \<Rightarrow> (NTSTATUS \<times> ULONG option \<times> KEY_INFO option, ('w, 'c) REG) st" where
  "ZwEnumerateKey W h Index cls buf =
     with_key h (STATUS_INVALID_HANDLE, None, None) (\<lambda>hk.
     bindS (read_win (RegEnumKeyExW W hk Index)) (\<lambda>(rc, name, classname, ftime).
     if rc \<noteq> ERROR_SUCCESS then ret (DdkGetRegistryStatus rc, None, None)
     else
       let namebytes = of_nat (2 * length name); classbytes = of_nat (2 * length classname)
       in case cls of
            KeyBasicInformation \<Rightarrow>
              (let need = 16 + namebytes
               in case buf of
                    None \<Rightarrow> ret (STATUS_SUCCESS, Some need, None)
                  | Some len \<Rightarrow>
                      if len < need then ret (STATUS_BUFFER_TOO_SMALL, Some need, None)
                      else ret (STATUS_SUCCESS, Some need, Some (KeyBasic ftime namebytes name)))
          | KeyNodeInformation \<Rightarrow>
              (let need = 24 + namebytes + classbytes
               in case buf of
                    None \<Rightarrow> ret (STATUS_SUCCESS, Some need, None)
                  | Some len \<Rightarrow>
                      if len < need then ret (STATUS_BUFFER_TOO_SMALL, Some need, None)
                      else ret (STATUS_SUCCESS, Some need, Some (KeyNode ftime (24 + namebytes) classbytes namebytes name classname)))
          | KeyFullInformation \<Rightarrow>
              (let need = 44 + classbytes
               in case buf of
                    None \<Rightarrow> ret (STATUS_SUCCESS, Some need, None)
                  | Some len \<Rightarrow>
                      if len < need then ret (STATUS_BUFFER_TOO_SMALL, Some need, None)
                      else
                        bindS (call_win (RegOpenKeyW W hk name)) (\<lambda>(rc, key).
                        if rc \<noteq> ERROR_SUCCESS then ret (DdkGetRegistryStatus rc, Some need, None)
                        else
                          bindS (read_win (RegQueryInfoKeyW W key)) (\<lambda>(rc, counts).
                          bindS (close_hkey W key) (\<lambda>_.
                          ret (DdkGetRegistryStatus rc, Some need, Some (KeyFull ftime 44 classbytes classname counts))))))
          | OtherKeyInformation \<Rightarrow> ret (STATUS_INVALID_PARAMETER, None, None)))"

subsection \<open>Initialisation\<close>

text \<open>
  \<open>DdkRegistryInit\<close> after RegLoadAppKeyA has given the root of the hive (None when it fails), and \<open>DdkRegistryDeinit\<close>.
\<close>

definition wide :: "string \<Rightarrow> wstr" where
  "wide = map of_char"

definition wide_value :: "string \<Rightarrow> UCHAR list" where
  "wide_value t = bytes_of (wide t @ [0])"

definition DdkRegistryInit :: "'w WINREG \<Rightarrow> nat option \<Rightarrow> (unit, ('w, 'c) REG) st" where
  "DdkRegistryInit W loaded =
     (case loaded of
        None \<Rightarrow> fail (DdkFail ''Unable to create registry hive'')
      | Some hv \<Rightarrow>
          let computer = Path (rooted [''Registry'', ''Machine'', ''System'', ''CurrentControlSet'', ''Control'', ''ComputerName'']);
              tcpip = Path (wide ''Tcpip'' @ backslash # wide ''Parameters'')
          in
          bindS (modify (\<lambda>s. s\<lparr>hive := hv\<rparr>)) (\<lambda>_.
          bindS (DdkCreateRegistryKey W 2 (Path [])) (\<lambda>_.
          bindS (DdkCreateRegistryKey W 4 (Path [])) (\<lambda>_.
          bindS (DdkCreateRegistryKey W 1 (Path [])) (\<lambda>_.
          bindS (DdkCreateRegistryKey W 1 (Path (wide ''Disk''))) (\<lambda>_.
          bindS (DdkCreateRegistryKey W 1 tcpip) (\<lambda>_.
          bindS (RtlWriteRegistryValue W 1 tcpip (wide ''Hostname'') REG_SZ (wide_value ''UnitTest'')) (\<lambda>_.
          bindS (DdkCreateRegistryKey W 3 (Path [])) (\<lambda>_.
          bindS (DdkCreateRegistryKey W 0 (Path (rooted [''Registry'', ''User'', ''.Default'']))) (\<lambda>_.
          bindS (DdkCreateRegistryKey W 0 (Path (rooted [''Registry'', ''User'', ''CurrentUser'']))) (\<lambda>_.
          bindS (DdkCreateRegistryKey W 0 computer) (\<lambda>_.
          bindS (RtlWriteRegistryValue W 0 computer (wide ''ComputerName'') REG_SZ (wide_value ''UnitTest'')) (\<lambda>_.
          bindS (RtlWriteRegistryValue W 3 (Path []) (wide ''SystemRoot'') REG_SZ (bytes_of ([0x43, 0x3A, 0x5C] @ wide ''Windows'' @ [0]))) (\<lambda>_.
          bindS (RtlWriteRegistryValue W 3 (Path []) (wide ''CurrentMajorVersionNumber'') REG_DWORD [10, 0, 0, 0]) (\<lambda>_.
          bindS (RtlWriteRegistryValue W 3 (Path []) (wide ''CurrentMinorVersionNumber'') REG_DWORD [0, 0, 0, 0]) (\<lambda>_.
          ret ()))))))))))))))))"

definition DdkRegistryDeinit :: "'w WINREG \<Rightarrow> (unit, ('w, 'c) REG) st" where
  "DdkRegistryDeinit W = bindS (gets hive) (\<lambda>hv. if hv \<noteq> 0 then close_hkey W hv else ret ())"


section \<open>What is relied on of Windows\<close>

text \<open>
  A registry as its documentation describes it: which handles are open on which keys, and the values of each key that exists.  A path is the list of the names from the root of the hive; \<open>canon\<close> splits
  the text of a path into names and \<open>cname\<close> reads the name of a value, both without regard to case.
\<close>

type_synonym rpath = "wstr list"
type_synonym rvals = "wstr \<rightharpoonup> ULONG \<times> UCHAR list"

record RVIEW =
  handles :: "nat \<rightharpoonup> rpath"
  tree :: "rpath \<rightharpoonup> rvals"

text \<open>The keys along a path that do not exist yet, added without values.\<close>

definition grow :: "(rpath \<rightharpoonup> rvals) \<Rightarrow> rpath \<Rightarrow> (rpath \<rightharpoonup> rvals)" where
  "grow m path = (\<lambda>q. if m q = None \<and> take (length q) path = q then Some Map.empty else m q)"

definition opened :: "nat \<Rightarrow> rpath \<Rightarrow> RVIEW \<Rightarrow> RVIEW \<Rightarrow> bool" where
  "opened k p v v' \<longleftrightarrow> k \<noteq> 0 \<and> handles v k = None \<and> handles v' = (handles v)(k \<mapsto> p)"

locale winreg =
  fixes W :: "'w WINREG" and view :: "'w \<Rightarrow> RVIEW" and canon :: "wstr \<Rightarrow> rpath" and cname :: "wstr \<Rightarrow> wstr"
  assumes canon_empty: "canon [] = []"
    and open_law: "handles (view w) h = Some p \<Longrightarrow> n \<noteq> [] \<Longrightarrow> RegOpenKeyW W h n w = ((rc, k), w') \<Longrightarrow>
      (if rc = ERROR_SUCCESS then opened k (p @ canon n) (view w) (view w') \<and> p @ canon n \<in> dom (tree (view w)) \<and> tree (view w') = tree (view w)
       else view w' = view w)"
    and open_missing: "handles (view w) h = Some p \<Longrightarrow> n \<noteq> [] \<Longrightarrow> p \<in> dom (tree (view w)) \<Longrightarrow>
      p @ canon n \<notin> dom (tree (view w)) \<Longrightarrow> fst (fst (RegOpenKeyW W h n w)) = ERROR_FILE_NOT_FOUND"
    and create_law: "handles (view w) h = Some p \<Longrightarrow> n \<noteq> [] \<Longrightarrow> RegCreateKeyW W h n w = ((rc, k), w') \<Longrightarrow>
      (if rc = ERROR_SUCCESS then opened k (p @ canon n) (view w) (view w') \<and> tree (view w') = grow (tree (view w)) (p @ canon n)
       else handles (view w') = handles (view w) \<and> tree (view w) \<subseteq>\<^sub>m tree (view w'))"
    and close_law: "handles (view w) h \<noteq> None \<Longrightarrow>
      view (snd (RegCloseKey W h w)) = (view w)\<lparr>handles := (handles (view w))(h := None)\<rparr>"
    and set_law: "handles (view w) h = Some p \<Longrightarrow> RegSetValueExW W h n t d w = (rc, w') \<Longrightarrow>
      (if rc = ERROR_SUCCESS then \<exists>m. tree (view w) p = Some m \<and> view w' = (view w)\<lparr>tree := (tree (view w))(p \<mapsto> m(cname n \<mapsto> (t, d)))\<rparr>
       else view w' = view w)"
    and delete_law: "handles (view w) h = Some p \<Longrightarrow> RegDeleteValueW W h n w = (rc, w') \<Longrightarrow>
      (if rc = ERROR_SUCCESS then \<exists>m. tree (view w) p = Some m \<and> cname n \<in> dom m \<and> view w' = (view w)\<lparr>tree := (tree (view w))(p \<mapsto> m(cname n := None))\<rparr>
       else view w' = view w)"
    and query_missing: "handles (view w) h = Some p \<Longrightarrow> tree (view w) p = Some m \<Longrightarrow> m (cname n) = None \<Longrightarrow>
      fst (RegQueryValueExW W h n cap w) = ERROR_FILE_NOT_FOUND"
    and query_size: "handles (view w) h = Some p \<Longrightarrow> tree (view w) p = Some m \<Longrightarrow> m (cname n) = Some (t, d) \<Longrightarrow> length d < 2 ^ 32 \<Longrightarrow>
      \<exists>x. RegQueryValueExW W h n None w = (ERROR_SUCCESS, t, of_nat (length d), x)"
    and query_small: "handles (view w) h = Some p \<Longrightarrow> tree (view w) p = Some m \<Longrightarrow> m (cname n) = Some (t, d) \<Longrightarrow> length d < 2 ^ 32 \<Longrightarrow>
      unat c < length d \<Longrightarrow> \<exists>x. RegQueryValueExW W h n (Some c) w = (ERROR_MORE_DATA, t, of_nat (length d), x)"
    and query_fits: "handles (view w) h = Some p \<Longrightarrow> tree (view w) p = Some m \<Longrightarrow> m (cname n) = Some (t, d) \<Longrightarrow>
      length d \<le> unat c \<Longrightarrow> RegQueryValueExW W h n (Some c) w = (ERROR_SUCCESS, t, of_nat (length d), d)"

text \<open>The root of the hive is open.\<close>

definition hive_open :: "('w \<Rightarrow> RVIEW) \<Rightarrow> ('w, 'c) REG \<Rightarrow> bool" where
  "hive_open view s \<longleftrightarrow> hive s \<noteq> 0 \<and> handles (view (win s)) (hive s) = Some [] \<and> [] \<in> dom (tree (view (win s)))"

text \<open>The key that the arguments of the Rtl routines stand for; None when RelativeTo is not known.\<close>

definition rel_names :: "('w, 'c) REG \<Rightarrow> ULONG \<Rightarrow> wstr option" where
  "rel_names s RelativeTo = (case DdkGetRelativePath RelativeTo s of Inl e \<Rightarrow> None | Inr (rel, _) \<Rightarrow> Some (skip_backslashes rel))"

definition target :: "(wstr \<Rightarrow> rpath) \<Rightarrow> wstr \<Rightarrow> wstr \<Rightarrow> rpath" where
  "target canon rel path = canon rel @ canon (skip_backslashes path)"

section \<open>Lemmas\<close>

lemma bindS_call_win [simp]: "bindS (call_win f) g s = (case f (win s) of (x, w) \<Rightarrow> g x (s\<lparr>win := w\<rparr>))"
  by (simp add: bindS_def call_win_def split: prod.splits)

lemma bindS_read_win [simp]: "bindS (read_win f) g s = g (f (win s)) s"
  by (simp add: read_win_def)

lemma bindS_from_handle [simp]: "bindS (from_handle k) g s = g (case kobjs s k of None \<Rightarrow> 0 | Some h \<Rightarrow> h) s"
  by (simp add: from_handle_def)

lemma bindS_close_hkey [simp]: "bindS (close_hkey W h) g s = g () (s\<lparr>win := snd (RegCloseKey W h (win s))\<rparr>)"
  by (simp add: close_hkey_def split: prod.splits)

lemma close_hkey_eq [simp]: "close_hkey W h s = Inr ((), s\<lparr>win := snd (RegCloseKey W h (win s))\<rparr>)"
  by (simp add: close_hkey_def call_win_def split: prod.splits)

lemma DdkGetRegistryStatus_success: "NT_SUCCESS (DdkGetRegistryStatus rc) \<longleftrightarrow> rc = ERROR_SUCCESS"
  by (simp add: DdkGetRegistryStatus_def NT_SUCCESS_def)

lemma DdkGetRegistryStatus_zero: "DdkGetRegistryStatus rc = STATUS_SUCCESS \<longleftrightarrow> rc = ERROR_SUCCESS"
  by (simp add: DdkGetRegistryStatus_def)

lemma DdkGetRelativePath_state: "DdkGetRelativePath RelativeTo s = Inr (rel, s') \<Longrightarrow> s' = s"
  by (auto simp: DdkGetRelativePath_def Let_def split: if_splits)

lemma rel_names_eq:
  assumes "rel_names s RelativeTo = Some rel"
  obtains r where "DdkGetRelativePath RelativeTo s = Inr (r, s)" "rel = skip_backslashes r"
  using assms DdkGetRelativePath_state unfolding rel_names_def by (fastforce split: sum.splits)

lemma grow_in [simp]: "p \<in> dom (grow m p)"
  by (simp add: grow_def dom_def)

lemma grow_root: "[] \<in> dom m \<Longrightarrow> grow m [] = m"
  by (rule ext) (auto simp: grow_def)

lemma map_le_grow: "m \<subseteq>\<^sub>m grow m p"
  by (auto simp: map_le_def grow_def)

lemma grow_append: "grow (grow m p) (p @ q) = grow m (p @ q)"
proof (rule ext)
  fix x
  show "grow (grow m p) (p @ q) x = grow m (p @ q) x"
  proof (cases "take (length x) p = x")
    case True
    then have "length x \<le> length p" by (metis length_take min.cobounded1)
    with True show ?thesis by (simp add: grow_def)
  qed (auto simp: grow_def)
qed

text \<open>The outcome of opening or creating a key \<open>p\<close>: a new handle, or no change of the handles.\<close>

definition step_ok :: "bool \<Rightarrow> rpath \<Rightarrow> nat \<Rightarrow> nat \<Rightarrow> RVIEW \<Rightarrow> RVIEW \<Rightarrow> bool" where
  "step_ok create p rc k v v' \<longleftrightarrow>
     (if rc = ERROR_SUCCESS then opened k p v v' \<and> tree v' = (if create then grow (tree v) p else tree v) \<and> p \<in> dom (tree v')
      else handles v' = handles v \<and> tree v \<subseteq>\<^sub>m tree v' \<and> (create \<or> tree v' = tree v))"

text \<open>The outcome for the caller of \<open>DdkGetRegistryKey\<close>, who may also get the root of the hive.\<close>

definition got_key :: "bool \<Rightarrow> nat \<Rightarrow> rpath \<Rightarrow> NTSTATUS \<Rightarrow> nat \<Rightarrow> RVIEW \<Rightarrow> RVIEW \<Rightarrow> bool" where
  "got_key create hv p status key v v' \<longleftrightarrow>
     (if status = STATUS_SUCCESS
      then (key = hv \<and> p = [] \<and> handles v' = handles v \<or> opened key p v v') \<and>
           tree v' = (if create then grow (tree v) p else tree v) \<and> p \<in> dom (tree v')
      else \<not> NT_SUCCESS status \<and> key = 0 \<and> handles v' = handles v \<and> tree v \<subseteq>\<^sub>m tree v' \<and> (create \<or> tree v' = tree v))"

lemma got_key_step:
  assumes "step_ok create p rc k v v'"
  shows "got_key create hv p (DdkGetRegistryStatus rc) (if rc = ERROR_SUCCESS then k else 0) v v'"
  using assms by (auto simp: step_ok_def got_key_def DdkGetRegistryStatus_zero DdkGetRegistryStatus_success split: if_splits)

text \<open>A call that either fails and changes nothing or changes the values of the key whose handle it gets.\<close>

definition value_change :: "('w \<Rightarrow> RVIEW) \<Rightarrow> (nat \<Rightarrow> 'w \<Rightarrow> nat \<times> 'w) \<Rightarrow> (rvals \<Rightarrow> rvals) \<Rightarrow> bool" where
  "value_change view f g \<longleftrightarrow>
     (\<forall>w key p rc w'. handles (view w) key = Some p \<longrightarrow> f key w = (rc, w') \<longrightarrow>
        (if rc = ERROR_SUCCESS then \<exists>m. tree (view w) p = Some m \<and> view w' = (view w)\<lparr>tree := (tree (view w))(p \<mapsto> g m)\<rparr> else view w' = view w))"

context winreg
begin

lemma open_or_create_step:
  assumes "handles (view (win s)) h = Some p" "n \<noteq> []"
  obtains rc k w' where "open_or_create W create h n s = Inr ((rc, k), s\<lparr>win := w'\<rparr>)"
    "step_ok create (p @ canon n) rc k (view (win s)) (view w')"
proof (cases create)
  case True
  obtain rc k w' where call: "RegCreateKeyW W h n (win s) = ((rc, k), w')" by (metis surj_pair)
  then have "step_ok create (p @ canon n) rc k (view (win s)) (view w')"
    using create_law [OF assms call] True by (auto simp: step_ok_def split: if_splits)
  with call True that show ?thesis by (simp add: open_or_create_def call_win_def)
next
  case False
  obtain rc k w' where call: "RegOpenKeyW W h n (win s) = ((rc, k), w')" by (metis surj_pair)
  then have "step_ok create (p @ canon n) rc k (view (win s)) (view w')"
    using open_law [OF assms call] False by (auto simp: step_ok_def split: if_splits)
  with call False that show ?thesis by (simp add: open_or_create_def call_win_def)
qed

lemma step_twice:
  assumes "step_ok create p 0 base v v1" "step_ok create (p @ q) rc k v1 v2" "handles v hv \<noteq> None"
    and "view (snd (RegCloseKey W base w)) = (view w)\<lparr>handles := (handles (view w))(base := None)\<rparr>" "v2 = view w"
  shows "base \<noteq> (if rc = ERROR_SUCCESS then k else 0)" "base \<noteq> hv"
    "step_ok create (p @ q) rc k v (view (snd (RegCloseKey W base w)))"
proof -
  show "base \<noteq> (if rc = ERROR_SUCCESS then k else 0)" "base \<noteq> hv"
    using assms(1-3) by (auto simp: step_ok_def opened_def split: if_splits)
  show "step_ok create (p @ q) rc k v (view (snd (RegCloseKey W base w)))"
  proof (cases "rc = ERROR_SUCCESS")
    case True
    then show ?thesis using assms
      by (auto simp: step_ok_def opened_def grow_append fun_upd_twist split: if_splits)
  next
    case False
    then show ?thesis using assms
      by (auto simp: step_ok_def opened_def intro: map_le_grow map_le_trans [OF map_le_grow])
  qed
qed

lemma open_below_got:
  assumes "hive_open view s"
  obtains status key w' where "open_below W create rel path s = Inr ((status, key), s\<lparr>win := w'\<rparr>)"
    "got_key create (hive s) (canon rel @ canon path) status key (view (win s)) (view w')"
proof (cases "rel = []")
  case rel: True
  show ?thesis
  proof (cases "path = []")
    case True
    with rel assms show ?thesis
      by (intro that [of STATUS_SUCCESS "hive s" "win s"])
        (simp_all add: open_below_def got_key_def canon_empty hive_open_def DdkGetRegistryStatus_def grow_root)
  next
    case False
    have h: "handles (view (win s)) (hive s) = Some []" using assms by (simp add: hive_open_def)
    from open_or_create_step [OF h False] obtain rc k w' where
      "open_or_create W create (hive s) path s = Inr ((rc, k), s\<lparr>win := w'\<rparr>)" "step_ok create (canon path) rc k (view (win s)) (view w')"
      by (metis append_Nil)
    with rel False show ?thesis
      by (intro that [of "DdkGetRegistryStatus rc" "if rc = ERROR_SUCCESS then k else 0" w'])
        (simp_all add: open_below_def bindS_def canon_empty got_key_step)
  qed
next
  case rel: False
  have h: "handles (view (win s)) (hive s) = Some []" using assms by (simp add: hive_open_def)
  from open_or_create_step [OF h rel] obtain rc base w1 where
    one: "open_or_create W create (hive s) rel s = Inr ((rc, base), s\<lparr>win := w1\<rparr>)" "step_ok create (canon rel) rc base (view (win s)) (view w1)"
    by (metis append_Nil)
  show ?thesis
  proof (cases "rc = ERROR_SUCCESS")
    case False
    then have "got_key create (hive s) (canon rel @ canon path) (DdkGetRegistryStatus rc) 0 (view (win s)) (view w1)"
      using one(2) by (simp add: got_key_def step_ok_def DdkGetRegistryStatus_zero DdkGetRegistryStatus_success)
    with one(1) rel False show ?thesis
      by (intro that [of "DdkGetRegistryStatus rc" 0 w1]) (simp_all add: open_below_def bindS_def)
  next
    case ok: True
    show ?thesis
    proof (cases "path = []")
      case True
      have "got_key create (hive s) (canon rel @ canon path) STATUS_SUCCESS base (view (win s)) (view w1)"
        using one(2) ok True by (auto simp: got_key_def step_ok_def canon_empty)
      with one ok rel True show ?thesis
        by (intro that [of STATUS_SUCCESS base w1]) (simp_all add: open_below_def bindS_def DdkGetRegistryStatus_def)
    next
      case False
      have "handles (view (win (s\<lparr>win := w1\<rparr>))) base = Some (canon rel)" using one(2) ok by (simp add: step_ok_def opened_def)
      from open_or_create_step [OF this False] obtain rc2 k w2 where
        two: "open_or_create W create base path (s\<lparr>win := w1\<rparr>) = Inr ((rc2, k), s\<lparr>win := w2\<rparr>)"
          "step_ok create (canon rel @ canon path) rc2 k (view w1) (view w2)"
        by simp blast
      have "handles (view w2) base \<noteq> None" using one(2) two(2) ok by (auto simp: step_ok_def opened_def split: if_splits)
      note close = close_law [OF this]
      note both = step_twice [OF _ two(2) _ close refl, of "view (win s)" "hive s"]
      have "step_ok create (canon rel) 0 base (view (win s)) (view w1)" "handles (view (win s)) (hive s) \<noteq> None"
        using one(2) ok h by simp_all
      note both = both [OF this]
      with one two rel ok False show ?thesis
        by (intro that [of "DdkGetRegistryStatus rc2" "if rc2 = ERROR_SUCCESS then k else 0" "snd (RegCloseKey W base w2)"])
          (auto simp: open_below_def bindS_def got_key_step Let_def)
    qed
  qed
qed

lemma DdkGetRegistryKey_got:
  assumes "hive_open view s" "\<not> by_handle RelativeTo" "rel_names s RelativeTo = Some rel"
  obtains status key w' where "DdkGetRegistryKey W RelativeTo (Path path) create s = Inr ((status, key), s\<lparr>win := w'\<rparr>)"
    "got_key create (hive s) (target canon rel path) status key (view (win s)) (view w')"
proof -
  from assms(3) obtain r where r: "DdkGetRelativePath RelativeTo s = Inr (r, s)" "rel = skip_backslashes r" by (rule rel_names_eq)
  from open_below_got [OF assms(1)] obtain status key w' where
    "open_below W create rel (skip_backslashes path) s = Inr ((status, key), s\<lparr>win := w'\<rparr>)"
    "got_key create (hive s) (target canon rel path) status key (view (win s)) (view w')"
    unfolding target_def by blast
  with r assms(2) that show ?thesis by (simp add: DdkGetRegistryKey_def bindS_def)
qed

text \<open>Closing what \<open>DdkGetRegistryKey\<close> opened gives the handles there were before.\<close>

lemma got_key_close:
  assumes "got_key create hv p STATUS_SUCCESS key v v'" "handles v hv \<noteq> None" "hv \<noteq> 0" "handles (view w) = handles v'"
  shows "key \<noteq> hv \<Longrightarrow> view (snd (RegCloseKey W key w)) = (view w)\<lparr>handles := handles v\<rparr>"
    "key = hv \<Longrightarrow> handles v' = handles v" "key \<noteq> 0"
    "handles (view w) key = Some p \<or> key = hv \<and> p = []"
proof -
  show "view (snd (RegCloseKey W key w)) = (view w)\<lparr>handles := handles v\<rparr>" if "key \<noteq> hv"
  proof -
    have k: "opened key p v v'" using assms(1) that by (auto simp: got_key_def)
    then have "handles (view w) key \<noteq> None" using assms(4) by (simp add: opened_def)
    from close_law [OF this] k assms(4) show ?thesis by (simp add: opened_def fun_upd_idem)
  qed
qed (use assms in \<open>auto simp: got_key_def opened_def\<close>)

text \<open>An operation \<open>f\<close> on the key, between opening and closing it.\<close>

lemma change_value:
  assumes "hive_open view s" "\<not> by_handle RelativeTo" "rel_names s RelativeTo = Some rel" and f: "value_change view f g"
  shows "\<exists>status w'. bindS (DdkGetRegistryKey W RelativeTo (Path path) False) (\<lambda>(status, key).
       if \<not> NT_SUCCESS status then ret (h status)
       else bindS (call_win (f key)) (\<lambda>rc. bindS (close_if_opened W RelativeTo key) (\<lambda>_. ret (DdkGetRegistryStatus rc)))) s = Inr (status, s\<lparr>win := w'\<rparr>) \<and>
     handles (view w') = handles (view (win s)) \<and>
     (tree (view w') = tree (view (win s)) \<and> (\<exists>st. \<not> NT_SUCCESS st \<and> status \<in> {st, h st}) \<or>
      status = STATUS_SUCCESS \<and> (\<exists>m. tree (view (win s)) (target canon rel path) = Some m \<and>
        tree (view w') = (tree (view (win s)))(target canon rel path \<mapsto> g m)))"
proof -
  from DdkGetRegistryKey_got [OF assms(1-3)] obtain status key w1 where
    got: "DdkGetRegistryKey W RelativeTo (Path path) False s = Inr ((status, key), s\<lparr>win := w1\<rparr>)"
      "got_key False (hive s) (target canon rel path) status key (view (win s)) (view w1)" by blast
  show ?thesis
  proof (cases "status = STATUS_SUCCESS")
    case False
    then have "\<not> NT_SUCCESS status" "handles (view w1) = handles (view (win s))" "tree (view w1) = tree (view (win s))"
      using got(2) by (simp_all add: got_key_def)
    with got(1) show ?thesis by (auto simp: bindS_Inr)
  next
    case True
    then have g: "got_key False (hive s) (target canon rel path) STATUS_SUCCESS key (view (win s)) (view w1)" using got(2) by simp
    have h: "handles (view (win s)) (hive s) = Some []" "hive s \<noteq> 0" using assms(1) by (simp_all add: hive_open_def)
    obtain rc w2 where call: "f key w1 = (rc, w2)" by (metis surj_pair)
    define w3 where "w3 = (if key \<noteq> hive s then snd (RegCloseKey W key w2) else w2)"
    have "handles (view w1) key = Some (target canon rel path)"
      using g h by (auto simp: got_key_def opened_def)
    with f call have eff: "if rc = ERROR_SUCCESS
        then \<exists>m. tree (view w1) (target canon rel path) = Some m \<and> view w2 = (view w1)\<lparr>tree := (tree (view w1))(target canon rel path \<mapsto> g m)\<rparr>
        else view w2 = view w1" unfolding value_change_def by blast
    then have same: "handles (view w2) = handles (view w1)" by (auto split: if_splits)
    have "tree (view w1) = tree (view (win s))" using g by (simp add: got_key_def)
    with eff got_key_close [OF g _ h(2) same] h have
      "handles (view w3) = handles (view (win s))"
      "if rc = ERROR_SUCCESS then \<exists>m. tree (view (win s)) (target canon rel path) = Some m \<and> tree (view w3) = (tree (view (win s)))(target canon rel path \<mapsto> g m)
       else tree (view w3) = tree (view (win s))"
      unfolding w3_def by (auto split: if_splits)
    note fin = this
    have "close_if_opened W RelativeTo key (s\<lparr>win := w2\<rparr>) = Inr ((), s\<lparr>win := w3\<rparr>)"
      using assms(2) by (simp add: close_if_opened_def w3_def)
    then have run: "bindS (DdkGetRegistryKey W RelativeTo (Path path) False) (\<lambda>(status, key).
       if \<not> NT_SUCCESS status then ret (h status)
       else bindS (call_win (f key)) (\<lambda>rc. bindS (close_if_opened W RelativeTo key) (\<lambda>_. ret (DdkGetRegistryStatus rc)))) s
       = Inr (DdkGetRegistryStatus rc, s\<lparr>win := w3\<rparr>)"
      using got(1) True call by (simp add: bindS_Inr NT_SUCCESS_def)
    show ?thesis
    proof (cases "rc = ERROR_SUCCESS")
      case True
      with fin show ?thesis unfolding run by (auto simp: DdkGetRegistryStatus_zero)
    next
      case False
      then have "\<not> NT_SUCCESS (DdkGetRegistryStatus rc)" by (simp add: DdkGetRegistryStatus_success)
      with fin False show ?thesis unfolding run by (intro exI [of _ "DdkGetRegistryStatus rc"] exI [of _ w3]) auto
    qed
  qed
qed

lemma RtlWriteRegistryValue_effect:
  assumes "hive_open view s" "\<not> by_handle RelativeTo" "rel_names s RelativeTo = Some rel"
  shows "\<exists>status w'. RtlWriteRegistryValue W RelativeTo (Path path) n t d s = Inr (status, s\<lparr>win := w'\<rparr>) \<and>
    handles (view w') = handles (view (win s)) \<and>
    (if status = STATUS_SUCCESS
     then \<exists>m. tree (view (win s)) (target canon rel path) = Some m \<and>
              tree (view w') = (tree (view (win s)))(target canon rel path \<mapsto> m(cname n \<mapsto> (t, d)))
     else \<not> NT_SUCCESS status \<and> tree (view w') = tree (view (win s)))"
proof -
  have "value_change view (\<lambda>key. RegSetValueExW W key n t d) (\<lambda>m. m(cname n \<mapsto> (t, d)))"
    unfolding value_change_def using set_law by blast
  from change_value [OF assms this, of path "\<lambda>status. status", folded RtlWriteRegistryValue_def] show ?thesis
    by (elim exE, intro exI) (auto simp: NT_SUCCESS_def split: if_splits)
qed

lemma RtlDeleteRegistryValue_effect:
  assumes "hive_open view s" "\<not> by_handle RelativeTo" "rel_names s RelativeTo = Some rel"
  shows "\<exists>status w'. RtlDeleteRegistryValue W RelativeTo (Path path) n s = Inr (status, s\<lparr>win := w'\<rparr>) \<and>
    handles (view w') = handles (view (win s)) \<and>
    (tree (view w') = tree (view (win s)) \<or>
     status = STATUS_SUCCESS \<and> (\<exists>m. tree (view (win s)) (target canon rel path) = Some m \<and>
        tree (view w') = (tree (view (win s)))(target canon rel path \<mapsto> m(cname n := None))))"
proof -
  have "value_change view (\<lambda>key. RegDeleteValueW W key n) (\<lambda>m. m(cname n := None))"
    unfolding value_change_def using delete_law by fastforce
  from change_value [OF assms this, of path "\<lambda>status. if status = STATUS_OBJECT_NAME_NOT_FOUND then STATUS_SUCCESS else status"] show ?thesis
    by (auto simp: RtlDeleteRegistryValue_def)
qed

text \<open>Opening a key and closing it again, as \<open>DdkCheckKeyExists\<close> and the creating routines do.\<close>

lemma get_and_close:
  assumes "hive_open view s" "\<not> by_handle RelativeTo" "rel_names s RelativeTo = Some rel"
  obtains status key w1 w2 where "DdkGetRegistryKey W RelativeTo (Path path) create s = Inr ((status, key), s\<lparr>win := w1\<rparr>)"
    "close_unless_hive W key (s\<lparr>win := w1\<rparr>) = Inr ((), s\<lparr>win := w2\<rparr>)" "key \<noteq> 0 \<longleftrightarrow> status = STATUS_SUCCESS"
    "handles (view w2) = handles (view (win s))" "tree (view w2) = tree (view w1)"
    "got_key create (hive s) (target canon rel path) status key (view (win s)) (view w1)"
proof -
  from DdkGetRegistryKey_got [OF assms] obtain status key w1 where
    got: "DdkGetRegistryKey W RelativeTo (Path path) create s = Inr ((status, key), s\<lparr>win := w1\<rparr>)"
      "got_key create (hive s) (target canon rel path) status key (view (win s)) (view w1)" by blast
  have h: "handles (view (win s)) (hive s) \<noteq> None" "hive s \<noteq> 0" using assms(1) by (simp_all add: hive_open_def)
  define w2 where "w2 = (if key \<noteq> 0 \<and> key \<noteq> hive s then snd (RegCloseKey W key w1) else w1)"
  have key: "key \<noteq> 0 \<longleftrightarrow> status = STATUS_SUCCESS" using got(2) h(2) by (auto simp: got_key_def opened_def split: if_splits)
  have close: "close_unless_hive W key (s\<lparr>win := w1\<rparr>) = Inr ((), s\<lparr>win := w2\<rparr>)" by (simp add: close_unless_hive_def w2_def)
  have "handles (view w2) = handles (view (win s)) \<and> tree (view w2) = tree (view w1)"
  proof (cases "status = STATUS_SUCCESS")
    case True
    from got_key_close [OF got(2) [unfolded True] h refl] key show ?thesis by (auto simp: w2_def)
  next
    case False
    with got(2) key show ?thesis by (auto simp: w2_def got_key_def split: if_splits)
  qed
  then show ?thesis using that [OF got(1) close key _ _ got(2)] by blast
qed

lemma DdkCheckKeyExists_effect:
  assumes "hive_open view s" "\<not> by_handle RelativeTo" "rel_names s RelativeTo = Some rel"
  obtains b w' where "DdkCheckKeyExists W RelativeTo (Path path) parent s = Inr (b, s\<lparr>win := w'\<rparr>)" "view w' = view (win s)"
    "b \<Longrightarrow> target canon rel (if parent then parent_path path else path) \<in> dom (tree (view (win s)))"
proof -
  from get_and_close [OF assms, of "if parent then parent_path path else path" False] obtain status key w1 w2 where
    r: "DdkGetRegistryKey W RelativeTo (Path (if parent then parent_path path else path)) False s = Inr ((status, key), s\<lparr>win := w1\<rparr>)"
    "close_unless_hive W key (s\<lparr>win := w1\<rparr>) = Inr ((), s\<lparr>win := w2\<rparr>)" "key \<noteq> 0 \<longleftrightarrow> status = STATUS_SUCCESS"
    "handles (view w2) = handles (view (win s))" "tree (view w2) = tree (view w1)"
    "got_key False (hive s) (target canon rel (if parent then parent_path path else path)) status key (view (win s)) (view w1)" by blast
  have arg: "(if parent then parent_arg (Path path) else Path path) = Path (if parent then parent_path path else path)" by simp
  have "tree (view w1) = tree (view (win s))" using r(6) by (simp add: got_key_def split: if_splits)
  with r(4,5) have "view w2 = view (win s)" by simp
  moreover have "DdkCheckKeyExists W RelativeTo (Path path) parent s = Inr (key \<noteq> 0, s\<lparr>win := w2\<rparr>)"
    using r(1,2) assms(2) unfolding DdkCheckKeyExists_def arg by (simp add: bindS_Inr)
  moreover have "target canon rel (if parent then parent_path path else path) \<in> dom (tree (view (win s)))" if "key \<noteq> 0"
    using that r(3,6) by (auto simp: got_key_def)
  ultimately show ?thesis using that by blast
qed

lemma RtlCreateRegistryKey_effect:
  assumes "hive_open view s" "\<not> by_handle RelativeTo" "rel_names s RelativeTo = Some rel"
  shows "\<exists>status w'. RtlCreateRegistryKey W RelativeTo (Path path) s = Inr (status, s\<lparr>win := w'\<rparr>) \<and>
    handles (view w') = handles (view (win s)) \<and>
    (if status = STATUS_SUCCESS
     then target canon rel (parent_path path) \<in> dom (tree (view (win s))) \<and> tree (view w') = grow (tree (view (win s))) (target canon rel path)
     else \<not> NT_SUCCESS status \<and> tree (view (win s)) \<subseteq>\<^sub>m tree (view w') \<and>
          (target canon rel (parent_path path) \<notin> dom (tree (view (win s))) \<longrightarrow> status = STATUS_OBJECT_NAME_NOT_FOUND \<and> view w' = view (win s)))"
proof -
  from DdkCheckKeyExists_effect [OF assms, of path True] obtain b w0 where
    b: "DdkCheckKeyExists W RelativeTo (Path path) True s = Inr (b, s\<lparr>win := w0\<rparr>)" "view w0 = view (win s)"
      "b \<Longrightarrow> target canon rel (parent_path path) \<in> dom (tree (view (win s)))" by auto
  show ?thesis
  proof (cases b)
    case False
    with b show ?thesis by (auto simp: RtlCreateRegistryKey_def bindS_Inr NT_SUCCESS_def)
  next
    case True
    have "hive_open view (s\<lparr>win := w0\<rparr>)" "rel_names (s\<lparr>win := w0\<rparr>) RelativeTo = Some rel"
      using assms(1,3) b(2) by (simp_all add: hive_open_def rel_names_def DdkGetRelativePath_def Let_def split: if_splits)
    from get_and_close [OF this(1) assms(2) this(2), of path True] obtain status key w1 w2 where
      r: "DdkGetRegistryKey W RelativeTo (Path path) True (s\<lparr>win := w0\<rparr>) = Inr ((status, key), s\<lparr>win := w1\<rparr>)"
      "close_unless_hive W key (s\<lparr>win := w1\<rparr>) = Inr ((), s\<lparr>win := w2\<rparr>)" "key \<noteq> 0 \<longleftrightarrow> status = STATUS_SUCCESS"
      "handles (view w2) = handles (view (win s))" "tree (view w2) = tree (view w1)"
      "got_key True (hive s) (target canon rel path) status key (view (win s)) (view w1)"
      by (simp add: b(2)) blast
    show ?thesis
    proof (cases "status = STATUS_SUCCESS")
      case True
      have "RtlCreateRegistryKey W RelativeTo (Path path) s = Inr (STATUS_SUCCESS, s\<lparr>win := w2\<rparr>)"
        using b(1) \<open>b\<close> r(1-3) True by (auto simp: RtlCreateRegistryKey_def bindS_Inr close_unless_hive_def NT_SUCCESS_def)
      with True r(4-6) b(3) \<open>b\<close> show ?thesis by (auto simp: got_key_def)
    next
      case False
      then have f: "\<not> NT_SUCCESS status" "handles (view w1) = handles (view (win s))" "tree (view (win s)) \<subseteq>\<^sub>m tree (view w1)"
        using r(6) by (simp_all add: got_key_def)
      have "RtlCreateRegistryKey W RelativeTo (Path path) s = Inr (status, s\<lparr>win := w1\<rparr>)"
        using b(1) \<open>b\<close> r(1) f(1) by (simp add: RtlCreateRegistryKey_def bindS_Inr)
      with False f b(3) \<open>b\<close> show ?thesis by auto
    qed
  qed
qed

lemma ZwSetValueKey_ZwQueryValueKey:
  assumes obj: "kobjs s k = Some h" "h \<noteq> 0" "handles (view (win s)) h = Some p"
    and name: "name_text ok (Some u) = Inr (Some n)"
    and small: "20 + 2 * length n + length d < 2 ^ 32"
    and set: "ZwSetValueKey W ok k (Some u) t d s = Inr (STATUS_SUCCESS, s')"
  shows "ZwQueryValueKey W ok k (Some u) cls buf s' = Inr (fill_value_info cls buf t n (of_nat (length d)) (\<lambda>c. (ERROR_SUCCESS, of_nat (length d), d)), s')"
proof -
  obtain rc w' where call: "RegSetValueExW W h n t d (win s) = (rc, w')" by (metis surj_pair)
  have "rc = ERROR_SUCCESS" "s' = s\<lparr>win := w'\<rparr>"
    using set obj(1,2) name call by (auto simp: ZwSetValueKey_def name_arg_def with_key_def bindS_Inr DdkGetRegistryStatus_zero)
  with set_law [OF obj(3) call] obtain m where m: "tree (view w') p = Some m" "m (cname n) = Some (t, d)" "handles (view w') h = Some p"
    using obj(3) by auto
  have d: "length d < 2 ^ 32" "length d \<le> unat (of_nat (length d) :: DWORD)" using small by (simp_all add: unat_of_nat)
  from query_size [OF m(3,1,2) d(1)] obtain x where x: "RegQueryValueExW W h n None w' = (ERROR_SUCCESS, t, of_nat (length d), x)" by blast
  have fetch: "fill_value_info cls buf t n (of_nat (length d)) (\<lambda>c. case RegQueryValueExW W h n (Some c) w' of (rc, _, n, d) \<Rightarrow> (rc, n, d))
      = fill_value_info cls buf t n (of_nat (length d)) (\<lambda>c. (ERROR_SUCCESS, of_nat (length d), d))"
    using query_fits [OF m(3,1,2) d(2)] by (simp add: fill_value_info_def Let_def split: VALUE_CLASS.splits option.splits)
  show ?thesis using obj(1,2) name x fetch \<open>s' = s\<lparr>win := w'\<rparr>\<close>
    by (simp add: ZwQueryValueKey_def name_arg_def with_key_def bindS_Inr)
qed

end

subsection \<open>A registry that obeys the laws\<close>

text \<open>
  An executable registry in memory: association lists of keys and of their values, looked up by names in upper case; the next handle is a counter, and a call that would need a handle in use fails.
\<close>

type_synonym mvals = "(wstr \<times> wstr \<times> ULONG \<times> UCHAR list) list"

record MEMREG =
  mhandles :: "nat \<rightharpoonup> rpath"
  mkeys :: "(rpath \<times> mvals) list"
  mnext :: nat

definition vals_view :: "mvals \<Rightarrow> rvals" where
  "vals_view vs = (\<lambda>c. map_option snd (map_of vs c))"

definition mview :: "MEMREG \<Rightarrow> RVIEW" where
  "mview w = \<lparr>handles = mhandles w, tree = (\<lambda>p. map_option vals_view (map_of (mkeys w) p))\<rparr>"

fun split_names :: "wstr \<Rightarrow> wstr \<Rightarrow> rpath" where
  "split_names acc [] = (if acc = [] then [] else [acc])"
| "split_names acc (c # cs) =
     (if c = backslash then (if acc = [] then split_names [] cs else acc # split_names [] cs) else split_names (acc @ [towupper c]) cs)"

definition mem_canon :: "wstr \<Rightarrow> rpath" where
  "mem_canon = split_names []"

definition mem_cname :: "wstr \<Rightarrow> wstr" where
  "mem_cname = map towupper"

definition mem_new :: "rpath \<Rightarrow> MEMREG \<Rightarrow> (nat \<times> nat) \<times> MEMREG" where
  "mem_new p w =
     (if mnext w = 0 \<or> mhandles w (mnext w) \<noteq> None then ((ERROR_NOT_ENOUGH_MEMORY, 0), w)
      else ((ERROR_SUCCESS, mnext w), w\<lparr>mhandles := (mhandles w)(mnext w \<mapsto> p), mnext := mnext w + 1\<rparr>))"

definition mem_open :: "nat \<Rightarrow> wstr \<Rightarrow> MEMREG \<Rightarrow> (nat \<times> nat) \<times> MEMREG" where
  "mem_open h n w =
     (case mhandles w h of
        None \<Rightarrow> ((ERROR_INVALID_HANDLE, 0), w)
      | Some p \<Rightarrow>
          if n = [] then ((ERROR_SUCCESS, h), w)
          else if map_of (mkeys w) (p @ mem_canon n) = None then ((ERROR_FILE_NOT_FOUND, 0), w)
          else mem_new (p @ mem_canon n) w)"

definition add_key :: "rpath \<Rightarrow> nat \<Rightarrow> (rpath \<times> mvals) list \<Rightarrow> (rpath \<times> mvals) list" where
  "add_key path i ks = (if map_of ks (take i path) = None then ks @ [(take i path, [])] else ks)"

definition add_keys :: "rpath \<Rightarrow> (rpath \<times> mvals) list \<Rightarrow> (rpath \<times> mvals) list" where
  "add_keys path = fold (add_key path) [0..<Suc (length path)]"

definition mem_create :: "nat \<Rightarrow> wstr \<Rightarrow> MEMREG \<Rightarrow> (nat \<times> nat) \<times> MEMREG" where
  "mem_create h n w =
     (case mhandles w h of
        None \<Rightarrow> ((ERROR_INVALID_HANDLE, 0), w)
      | Some p \<Rightarrow>
          if n = [] then ((ERROR_SUCCESS, h), w)
          else let path = p @ mem_canon n
               in mem_new path (w\<lparr>mkeys := add_keys path (mkeys w)\<rparr>))"

definition mem_vals :: "nat \<Rightarrow> MEMREG \<Rightarrow> mvals option" where
  "mem_vals h w = (case mhandles w h of None \<Rightarrow> None | Some p \<Rightarrow> map_of (mkeys w) p)"

definition mem_change :: "nat \<Rightarrow> (mvals \<Rightarrow> bool) \<Rightarrow> (mvals \<Rightarrow> mvals) \<Rightarrow> MEMREG \<Rightarrow> nat \<times> MEMREG" where
  "mem_change h ok f w =
     (case mem_vals h w of
        None \<Rightarrow> (ERROR_KEY_DELETED, w)
      | Some vs \<Rightarrow>
          if ok vs then (ERROR_SUCCESS, w\<lparr>mkeys := AList.update (the (mhandles w h)) (f vs) (mkeys w)\<rparr>) else (ERROR_FILE_NOT_FOUND, w))"

definition mem_set :: "nat \<Rightarrow> wstr \<Rightarrow> ULONG \<Rightarrow> UCHAR list \<Rightarrow> MEMREG \<Rightarrow> nat \<times> MEMREG" where
  "mem_set h n t d = mem_change h (\<lambda>vs. True) (AList.update (mem_cname n) (n, t, d))"

definition mem_delete :: "nat \<Rightarrow> wstr \<Rightarrow> MEMREG \<Rightarrow> nat \<times> MEMREG" where
  "mem_delete h n = mem_change h (\<lambda>vs. map_of vs (mem_cname n) \<noteq> None) (AList.delete (mem_cname n))"

definition mem_fetch :: "DWORD option \<Rightarrow> ULONG \<Rightarrow> UCHAR list \<Rightarrow> nat \<times> ULONG \<times> DWORD \<times> UCHAR list" where
  "mem_fetch cap t d =
     (case cap of
        None \<Rightarrow> (ERROR_SUCCESS, t, of_nat (length d), [])
      | Some c \<Rightarrow> if length d \<le> unat c then (ERROR_SUCCESS, t, of_nat (length d), d) else (ERROR_MORE_DATA, t, of_nat (length d), []))"

definition mem_query :: "nat \<Rightarrow> wstr \<Rightarrow> DWORD option \<Rightarrow> MEMREG \<Rightarrow> nat \<times> ULONG \<times> DWORD \<times> UCHAR list" where
  "mem_query h n cap w =
     (case mem_vals h w of
        None \<Rightarrow> (ERROR_KEY_DELETED, 0, 0, [])
      | Some vs \<Rightarrow> (case map_of vs (mem_cname n) of None \<Rightarrow> (ERROR_FILE_NOT_FOUND, 0, 0, []) | Some (_, t, d) \<Rightarrow> mem_fetch cap t d))"

definition mem_enum_value :: "nat \<Rightarrow> DWORD \<Rightarrow> DWORD option \<Rightarrow> MEMREG \<Rightarrow> nat \<times> wstr \<times> ULONG \<times> DWORD \<times> UCHAR list" where
  "mem_enum_value h i cap w =
     (case mem_vals h w of
        None \<Rightarrow> (ERROR_KEY_DELETED, [], 0, 0, [])
      | Some vs \<Rightarrow>
          if unat i < length vs then (case vs ! unat i of (_, n, t, d) \<Rightarrow> (case mem_fetch cap t d of (rc, t, len, d) \<Rightarrow> (rc, n, t, len, d)))
          else (ERROR_NO_MORE_ITEMS, [], 0, 0, []))"

definition mem_subkeys :: "nat \<Rightarrow> MEMREG \<Rightarrow> rpath list" where
  "mem_subkeys h w = (case mhandles w h of None \<Rightarrow> [] | Some p \<Rightarrow> filter (\<lambda>q. q \<noteq> [] \<and> butlast q = p) (map fst (mkeys w)))"

definition mem_enum_key :: "nat \<Rightarrow> DWORD \<Rightarrow> MEMREG \<Rightarrow> nat \<times> wstr \<times> wstr \<times> nat" where
  "mem_enum_key h i w =
     (if unat i < length (mem_subkeys h w) then (ERROR_SUCCESS, last (mem_subkeys h w ! unat i), [], 0) else (ERROR_NO_MORE_ITEMS, [], [], 0))"

definition mem_delete_key :: "nat \<Rightarrow> wstr \<Rightarrow> MEMREG \<Rightarrow> nat \<times> MEMREG" where
  "mem_delete_key h n w =
     (case mhandles w h of
        None \<Rightarrow> (ERROR_INVALID_HANDLE, w)
      | Some p \<Rightarrow>
          if p @ mem_canon n = [] \<or> (\<exists>q \<in> fst ` set (mkeys w). q \<noteq> [] \<and> butlast q = p @ mem_canon n) then (ERROR_ACCESS_DENIED, w)
          else (ERROR_SUCCESS, w\<lparr>mkeys := AList.delete (p @ mem_canon n) (mkeys w)\<rparr>))"

definition mem_registry :: "MEMREG WINREG" where
  "mem_registry =
     \<lparr>RegOpenKeyW = mem_open, RegCreateKeyW = mem_create,
      RegCreateKeyExW = (\<lambda>h n w. case mem_create h n w of ((rc, k), w') \<Rightarrow> ((rc, k, if length (mkeys w') = length (mkeys w) then 2 else 1), w')),
      RegCloseKey = (\<lambda>h w. ((), w\<lparr>mhandles := (mhandles w)(h := None)\<rparr>)),
      RegFlushKey = (\<lambda>h w. (ERROR_SUCCESS, w)),
      RegDeleteKeyW = mem_delete_key,
      RegSetValueExW = mem_set,
      RegDeleteValueW = mem_delete,
      RegDeleteKeyValueW = (\<lambda>h k n. mem_delete h n),
      RegQueryValueExW = mem_query,
      RegEnumValueW = mem_enum_value,
      RegEnumKeyExW = mem_enum_key,
      RegQueryInfoKeyW = (\<lambda>h w. (ERROR_SUCCESS, [of_nat (length (mem_subkeys h w))]))\<rparr>"

lemma fold_add_key:
  "map_of (fold (add_key path) is ks) q = (if map_of ks q = None \<and> q \<in> (\<lambda>i. take i path) ` set is then Some [] else map_of ks q)"
  by (induction "is" arbitrary: ks) (auto simp: add_key_def map_of_append map_add_def split: option.splits)

lemma vals_view_empty [simp]: "vals_view [] = Map.empty"
  by (simp add: vals_view_def)

lemma add_keys_grow:
  "(\<lambda>q. map_option vals_view (map_of (add_keys path ks) q)) = grow (\<lambda>q. map_option vals_view (map_of ks q)) path"
proof
  fix q
  have "q \<in> (\<lambda>i. take i path) ` set [0..<Suc (length path)] \<longleftrightarrow> take (length q) path = q"
  proof
    assume q: "take (length q) path = q"
    then have "length q \<le> length path" by (metis length_take min.cobounded1)
    with q show "q \<in> (\<lambda>i. take i path) ` set [0..<Suc (length path)]" by (intro image_eqI [of _ _ "length q"]) auto
  qed auto
  then show "map_option vals_view (map_of (add_keys path ks) q) = grow (\<lambda>q. map_option vals_view (map_of ks q)) path q"
    unfolding add_keys_def fold_add_key by (simp only: grow_def) simp
qed

lemma vals_view_iff:
  "vals_view vs c = None \<longleftrightarrow> map_of vs c = None" "vals_view vs c = Some (t, d) \<longleftrightarrow> (\<exists>n. map_of vs c = Some (n, t, d))"
  by (auto simp: vals_view_def)

lemma vals_view_update: "vals_view (AList.update c (n, t, d) vs) = (vals_view vs)(c \<mapsto> (t, d))"
  by (rule ext) (simp add: vals_view_def update_conv)

lemma vals_view_delete: "vals_view (AList.delete c vs) = (vals_view vs)(c := None)"
  by (rule ext) (simp add: vals_view_def delete_conv)

lemma keys_view_update:
  "(\<lambda>q. map_option vals_view (map_of (AList.update p vs ks) q)) = (\<lambda>q. map_option vals_view (map_of ks q))(p \<mapsto> vals_view vs)"
  by (rule ext) (simp add: update_conv)

lemmas mem_registry_defs = mem_registry_def mview_def mem_open_def mem_create_def mem_new_def mem_set_def mem_delete_def mem_change_def mem_query_def mem_vals_def mem_fetch_def

interpretation mr: winreg mem_registry mview mem_canon mem_cname
proof unfold_locales
  show "mem_canon [] = []" by (simp add: mem_canon_def)
qed (auto simp: mem_registry_defs opened_def map_le_grow add_keys_grow keys_view_update vals_view_update vals_view_delete vals_view_iff Let_def
  split: if_splits option.splits)

section \<open>Theorems\<close>

text \<open>
  C36.  RtlWriteRegistryValue and RtlDeleteRegistryValue on a path refine the update of one value: they leave no handle open whatever happens, RtlWriteRegistryValue either stores the value in
  the key that the path stands for, leaving every other value and key as it was, or fails and changes nothing, and RtlDeleteRegistryValue either removes the value or changes nothing.
\<close>

theorem registry_values_refine:
  assumes "winreg W view canon cname" "hive_open view s" "\<not> by_handle RelativeTo" "rel_names s RelativeTo = Some rel"
  shows "(\<exists>status w'. RtlWriteRegistryValue W RelativeTo (Path path) n t d s = Inr (status, s\<lparr>win := w'\<rparr>) \<and>
      handles (view w') = handles (view (win s)) \<and>
      (if status = STATUS_SUCCESS
       then \<exists>m. tree (view (win s)) (target canon rel path) = Some m \<and>
                tree (view w') = (tree (view (win s)))(target canon rel path \<mapsto> m(cname n \<mapsto> (t, d)))
       else \<not> NT_SUCCESS status \<and> tree (view w') = tree (view (win s)))) \<and>
    (\<exists>status w'. RtlDeleteRegistryValue W RelativeTo (Path path) n s = Inr (status, s\<lparr>win := w'\<rparr>) \<and>
      handles (view w') = handles (view (win s)) \<and>
      (tree (view w') = tree (view (win s)) \<or>
       status = STATUS_SUCCESS \<and> (\<exists>m. tree (view (win s)) (target canon rel path) = Some m \<and>
          tree (view w') = (tree (view (win s)))(target canon rel path \<mapsto> m(cname n := None)))))"
  using winreg.RtlWriteRegistryValue_effect [OF assms] winreg.RtlDeleteRegistryValue_effect [OF assms] by blast

definition small_reg :: "(MEMREG, unit) REG" where
  "small_reg =
     \<lparr>win = \<lparr>mhandles = [5 \<mapsto> []], mkeys = [([], []), ([wide ''A''], [])], mnext = 6\<rparr>,
      hive = 5, kobjs = Map.empty, next_kobj = 100, kobjs_left = 3, system_thread = False, can_alloc = (\<lambda>n. True), client = (), slots = Map.empty\<rparr>"

lemma small_reg_ready: "hive_open mview small_reg" "\<not> by_handle 0" "rel_names small_reg 0 = Some []"
  by (simp_all add: small_reg_def hive_open_def mview_def by_handle_def rel_names_def DdkGetRelativePath_def skip_backslashes_def dom_def)

definition status_of :: "(NTSTATUS \<times> 's) res \<Rightarrow> NTSTATUS option" where
  "status_of r = (case r of Inl e \<Rightarrow> None | Inr (status, s) \<Rightarrow> Some status)"

lemma small_write: "status_of (RtlWriteRegistryValue mem_registry 0 (Path (wide ''a'')) (wide ''v'') 4 [1, 0, 0, 0] small_reg) = Some STATUS_SUCCESS"
  by code_simp

theorem registry_values_refine_witness:
  "winreg mem_registry mview mem_canon mem_cname \<and>
   (\<exists>w'. RtlWriteRegistryValue mem_registry 0 (Path (wide ''a'')) (wide ''v'') 4 [1, 0, 0, 0] small_reg = Inr (STATUS_SUCCESS, small_reg\<lparr>win := w'\<rparr>) \<and>
      handles (mview w') = [5 \<mapsto> []])"
  using mr.winreg_axioms small_write
    registry_values_refine [OF mr.winreg_axioms small_reg_ready, where path = "wide ''a''" and n = "wide ''v''" and t = 4 and d = "[1, 0, 0, 0]"]
  by (auto simp: status_of_def small_reg_def mview_def)

text \<open>
  RtlCreateRegistryKey on a path creates the key, with the keys along the path that are missing, only when the parent exists, and leaves every existing key and value as it was; when the parent does not
  exist it reports that and changes nothing.  RtlCheckRegistryKey changes nothing and reports success only for keys that exist.  Neither leaves a handle open.
\<close>

theorem registry_keys_refine:
  assumes "winreg W view canon cname" "hive_open view s" "\<not> by_handle RelativeTo" "rel_names s RelativeTo = Some rel"
  shows "(\<exists>status w'. RtlCreateRegistryKey W RelativeTo (Path path) s = Inr (status, s\<lparr>win := w'\<rparr>) \<and>
      handles (view w') = handles (view (win s)) \<and>
      (if status = STATUS_SUCCESS
       then target canon rel (parent_path path) \<in> dom (tree (view (win s))) \<and> tree (view w') = grow (tree (view (win s))) (target canon rel path)
       else \<not> NT_SUCCESS status \<and> tree (view (win s)) \<subseteq>\<^sub>m tree (view w') \<and>
            (target canon rel (parent_path path) \<notin> dom (tree (view (win s))) \<longrightarrow> status = STATUS_OBJECT_NAME_NOT_FOUND \<and> view w' = view (win s)))) \<and>
    (\<exists>status w'. RtlCheckRegistryKey W RelativeTo (Path path) s = Inr (status, s\<lparr>win := w'\<rparr>) \<and> view w' = view (win s) \<and>
      (status = STATUS_SUCCESS \<and> target canon rel path \<in> dom (tree (view (win s))) \<or> status = STATUS_OBJECT_NAME_NOT_FOUND))"
proof -
  from winreg.DdkCheckKeyExists_effect [OF assms, of path False] obtain b w' where
    "DdkCheckKeyExists W RelativeTo (Path path) False s = Inr (b, s\<lparr>win := w'\<rparr>)" "view w' = view (win s)"
    "b \<Longrightarrow> target canon rel path \<in> dom (tree (view (win s)))" by auto
  then have "\<exists>status w'. RtlCheckRegistryKey W RelativeTo (Path path) s = Inr (status, s\<lparr>win := w'\<rparr>) \<and> view w' = view (win s) \<and>
      (status = STATUS_SUCCESS \<and> target canon rel path \<in> dom (tree (view (win s))) \<or> status = STATUS_OBJECT_NAME_NOT_FOUND)"
    by (cases b) (auto simp: RtlCheckRegistryKey_def bindS_Inr)
  with winreg.RtlCreateRegistryKey_effect [OF assms, of path] show ?thesis by blast
qed

lemma small_create:
  "status_of (RtlCreateRegistryKey mem_registry 0 (Path (wide ''a'' @ backslash # wide ''b'')) small_reg) = Some STATUS_SUCCESS"
  "status_of (RtlCheckRegistryKey mem_registry 0 (Path (wide ''a'' @ backslash # wide ''b'')) small_reg) = Some STATUS_OBJECT_NAME_NOT_FOUND"
  by code_simp+

theorem registry_keys_refine_witness:
  "\<exists>w'. RtlCreateRegistryKey mem_registry 0 (Path (wide ''a'' @ backslash # wide ''b'')) small_reg = Inr (STATUS_SUCCESS, small_reg\<lparr>win := w'\<rparr>) \<and>
      handles (mview w') = [5 \<mapsto> []] \<and> [wide ''A'', wide ''B''] \<in> dom (tree (mview w'))"
proof -
  have "target mem_canon [] (wide ''a'' @ backslash # wide ''b'') = [wide ''A'', wide ''B'']" by code_simp
  with small_create registry_keys_refine [OF mr.winreg_axioms small_reg_ready, where path = "wide ''a'' @ backslash # wide ''b''"]
  show ?thesis by (auto simp: status_of_def small_reg_def mview_def split: if_splits)
qed

text \<open>
  C37.  A value stored through the handle of a key is read back through it: ZwQueryValueKey reports the type, the size and the data that ZwSetValueKey was given, and when the buffer is too short, the
  length that is needed and nothing else.
\<close>

theorem registry_value_roundtrip:
  assumes "winreg W view canon cname" "kobjs s k = Some h" "h \<noteq> 0" "handles (view (win s)) h = Some p"
    and "name_text ok (Some u) = Inr (Some n)"
    and "20 + 2 * length n + length d < 2 ^ 32" "ZwSetValueKey W ok k (Some u) t d s = Inr (STATUS_SUCCESS, s')"
  shows "ZwQueryValueKey W ok k (Some u) KeyValuePartialInformation (Some len) s' =
      Inr (if unat len < 12 + length d then (STATUS_BUFFER_TOO_SMALL, Some (of_nat (12 + length d)), None)
           else (STATUS_SUCCESS, Some (of_nat (12 + length d)), Some (ValuePartial t (of_nat (length d)) d)), s') \<and>
    ZwQueryValueKey W ok k (Some u) KeyValueFullInformation (Some len) s' =
      Inr (if unat len < 20 + 2 * length n + length d then (STATUS_BUFFER_TOO_SMALL, Some (of_nat (20 + 2 * length n + length d)), None)
           else (STATUS_SUCCESS, Some (of_nat (20 + 2 * length n + length d)),
                 Some (ValueFull t (of_nat (20 + 2 * length n)) (of_nat (length d)) (of_nat (2 * length n)) n d)), s')"
proof -
  have a: "len < (12 + of_nat (length d) :: ULONG) \<longleftrightarrow> unat len < 12 + length d"
    using assms(6) by (simp add: word_less_nat_alt unat_word_ariths unat_of_nat)
  have b: "len < (20 + of_nat (2 * length n) + of_nat (length d) :: ULONG) \<longleftrightarrow> unat len < 20 + 2 * length n + length d"
    using assms(6) by (simp add: word_less_nat_alt unat_word_ariths unat_of_nat)
  show ?thesis
    unfolding winreg.ZwSetValueKey_ZwQueryValueKey [OF assms] fill_value_info_def
    using a b by (simp add: Let_def DdkGetRegistryStatus_def)
qed

definition small_key :: "(MEMREG, unit) REG" where
  "small_key = small_reg\<lparr>kobjs := [100 \<mapsto> 5]\<rparr>"

definition value_name :: UNICODE_STRING where
  "value_name = \<lparr>Length = 4, MaximumLength = 4, Buffer = Some [0x5C, 0, 0x76, 0]\<rparr>"

lemma small_set:
  "status_of (ZwSetValueKey mem_registry True 100 (Some value_name) 3 [7, 8] small_key) = Some STATUS_SUCCESS"
  "name_text True (Some value_name) = Inr (Some [0x76])"
  by code_simp+

theorem registry_value_roundtrip_witness:
  "\<exists>s'. ZwSetValueKey mem_registry True 100 (Some value_name) 3 [7, 8] small_key = Inr (STATUS_SUCCESS, s') \<and>
     ZwQueryValueKey mem_registry True 100 (Some value_name) KeyValuePartialInformation (Some 14) s' =
       Inr ((STATUS_SUCCESS, Some 14, Some (ValuePartial 3 2 [7, 8])), s')"
proof -
  obtain s' where s': "ZwSetValueKey mem_registry True 100 (Some value_name) 3 [7, 8] small_key = Inr (STATUS_SUCCESS, s')"
    using small_set(1) by (auto simp: status_of_def split: sum.splits)
  have "kobjs small_key 100 = Some 5" "(5 :: nat) \<noteq> 0" "handles (mview (win small_key)) 5 = Some []"
    by (simp_all add: small_key_def small_reg_def mview_def)
  from registry_value_roundtrip [OF mr.winreg_axioms this small_set(2) _ s', of 14] s' show ?thesis by simp
qed

end
