(* ===== verification/RegQuery.thy ===== *)
theory RegQuery
  imports Registry
begin

text \<open>
  The query tables of src/src/registry.cpp: RtlQueryRegistryValues and the routines behind it.

  The driver's query routine is a function of the name, the type, the bytes of the data and their number (the two context pointers are fixed per entry of a table) that changes the state of the driver,
  \<open>client\<close>.  The variables that entries point to for direct values are the \<open>slots\<close>: a counted string, or the bytes from the pointer on.  A null pointer is slot 0.  The two loops that go on for as long as Windows says so are
  partial functions: None means that they do not return.
\<close>

section \<open>Definitions\<close>

type_synonym 'c ROUTINE = "wstr option \<Rightarrow> ULONG \<Rightarrow> UCHAR list \<Rightarrow> ULONG \<Rightarrow> 'c \<Rightarrow> NTSTATUS \<times> 'c"

record 'c QUERY_TABLE =
  QueryRoutine :: "'c ROUTINE option"
  Flags :: ULONG
  QName :: "wstr option"
  EntryContext :: nat
  DefaultType :: ULONG
  DefaultData :: "UCHAR list"
  DefaultLength :: ULONG

abbreviation (input) QUERY_SUBKEY :: ULONG where "QUERY_SUBKEY \<equiv> 0x1"
abbreviation (input) QUERY_TOPKEY :: ULONG where "QUERY_TOPKEY \<equiv> 0x2"
abbreviation (input) QUERY_REQUIRED :: ULONG where "QUERY_REQUIRED \<equiv> 0x4"
abbreviation (input) QUERY_NOVALUE :: ULONG where "QUERY_NOVALUE \<equiv> 0x8"
abbreviation (input) QUERY_NOEXPAND :: ULONG where "QUERY_NOEXPAND \<equiv> 0x10"
abbreviation (input) QUERY_DIRECT :: ULONG where "QUERY_DIRECT \<equiv> 0x20"
abbreviation (input) QUERY_DELETE :: ULONG where "QUERY_DELETE \<equiv> 0x40"
abbreviation (input) QUERY_TYPECHECK :: ULONG where "QUERY_TYPECHECK \<equiv> 0x100"

definition flag :: "'c QUERY_TABLE \<Rightarrow> ULONG \<Rightarrow> bool" where
  "flag qp b \<longleftrightarrow> Flags qp AND b \<noteq> 0"

definition call_routine ::
  "'c ROUTINE \<Rightarrow> wstr option \<Rightarrow> ULONG \<Rightarrow> UCHAR list \<Rightarrow> ULONG \<Rightarrow> (NTSTATUS, ('w, 'c) REG) st" where
  "call_routine r name type data len s = (case r name type data len (client s) of (status, c) \<Rightarrow> Inr (status, s\<lparr>client := c\<rparr>))"

text \<open>\<open>env\<close> tells whether the environment is given.\<close>

definition DdkExpandString :: "bool \<Rightarrow> (unit, 's) st" where
  "DdkExpandString env = (if env then fail (DdkFail ''Unable to expand registry values'') else ret ())"

subsection \<open>Values for a routine\<close>

text \<open>The loop \<open>while (dp[i++] != L'\\0')\<close>.\<close>

function ScanNull :: "UCHAR list \<Rightarrow> nat \<Rightarrow> nat res" where
  "ScanNull b i = (case rdw b i of Inl e \<Rightarrow> Inl e | Inr c \<Rightarrow> if c = 0 then Inr (i + 1) else ScanNull b (i + 1))"
  by pat_completeness auto

lemma rdw_in_range: "rdw b i = Inr c \<Longrightarrow> 2 * i + 1 < length b"
  by (auto simp: rdw_def rd_def bindE_eq_Inr_iff split: if_splits)

termination ScanNull
  by (relation "measure (\<lambda>(b, i). length b - i)") (auto dest: rdw_in_range)

declare ScanNull.simps [simp del]

lemma ScanNull_bounds: "ScanNull b i = Inr j \<Longrightarrow> i < j \<and> 2 * j \<le> length b"
proof (induction b i rule: ScanNull.induct)
  case (1 b i)
  then show ?case by (subst (asm) (2) ScanNull.simps) (auto split: sum.splits if_splits dest!: rdw_in_range)
qed

function CallbackLoop ::
  "'c ROUTINE \<Rightarrow> wstr option \<Rightarrow> ULONG \<Rightarrow> bool \<Rightarrow> UCHAR list \<Rightarrow> nat \<Rightarrow> NTSTATUS \<Rightarrow> (NTSTATUS, ('w, 'c) REG) st" where
  "CallbackLoop r name type env b base status s =
     (case ScanNull b base of
        Inl e \<Rightarrow> Inl e
      | Inr i \<Rightarrow>
          if i = base + 1 then Inr (status, s)
          else
            bindS (if type = REG_EXPAND_SZ then DdkExpandString env else ret ()) (\<lambda>_.
            bindS (call_routine r name REG_SZ (take (2 * (i - base - 1)) (drop (2 * base) b)) (of_nat (2 * (i - base - 1)))) (\<lambda>status.
            if NT_SUCCESS status \<and> type = REG_MULTI_SZ then CallbackLoop r name type env b i status else ret status)) s)"
  by pat_completeness auto

termination CallbackLoop
  by (relation "measure (\<lambda>(r, name, type, env, b, base, status, s). length b - base)") (auto dest: ScanNull_bounds)

declare CallbackLoop.simps [simp del]

definition DdkQueryCallback ::
  "'c ROUTINE \<Rightarrow> 'c QUERY_TABLE \<Rightarrow> ULONG \<Rightarrow> UCHAR list \<Rightarrow> DWORD \<Rightarrow> bool \<Rightarrow> (NTSTATUS, ('w, 'c) REG) st" where
  "DdkQueryCallback r qp type data bytes env =
     (if flag qp QUERY_NOEXPAND \<or> type \<noteq> REG_MULTI_SZ \<and> type \<noteq> REG_EXPAND_SZ
      then call_routine r (QName qp) type (take (unat bytes) data) bytes
      else CallbackLoop r (QName qp) type env data 0 STATUS_SUCCESS)"

subsection \<open>Direct values\<close>

text \<open>The definitions of the C library that are used: memcpy to an offset, and the bytes of 32-bit integers.\<close>

definition blit :: "UCHAR list \<Rightarrow> nat \<Rightarrow> UCHAR list \<Rightarrow> UCHAR list res" where
  "blit m off xs = (if off + length xs \<le> length m then Inr (take off m @ xs @ drop (off + length xs) m) else Inl Fault)"

definition le32 :: "ULONG \<Rightarrow> UCHAR list" where
  "le32 v = [ucast v, ucast (drop_bit 8 v), ucast (drop_bit 16 v), ucast (drop_bit 24 v)]"

definition long_at :: "UCHAR list \<Rightarrow> LONG res" where
  "long_at m =
     (if length m < 4 then Inl Fault
      else Inr (push_bit 16 (ucast (wchar_of (m ! 2) (m ! 3))) OR ucast (wchar_of (m ! 0) (m ! 1))))"

text \<open>A string value: \<open>data\<close> and \<open>bytes\<close> are the memory of the value and its size.\<close>

definition DirectString :: "(nat \<Rightarrow> UCHAR list option) \<Rightarrow> UCHAR list \<Rightarrow> nat \<Rightarrow> UNICODE_STRING \<Rightarrow> UNICODE_STRING res" where
  "DirectString pool data bytes0 u =
     bindE (prefix_of data bytes0) (\<lambda>d.
     let bytes = (if 2 \<le> bytes0 \<and> drop (bytes0 - 2) d = [0, 0] then bytes0 - 2 else bytes0)
     in bindE (if Buffer u = None
               then bindE (DdkAllocUnicodeBuffer pool ((bytes + 6) mod 2 ^ 32)) (\<lambda>b. Inr (u\<lparr>Buffer := Some b, MaximumLength := (bytes + 6) mod 2 ^ 16\<rparr>))
               else Inr u) (\<lambda>u.
        let len = min (MaximumLength u) bytes
        in bindE (blit (mem u) 0 (take len d)) (\<lambda>b.
           bindE (blit b len (replicate (min (MaximumLength u - len) 6) 0)) (\<lambda>b.
           Inr ((set_mem b u)\<lparr>Length := len\<rparr>)))))"

text \<open>A value of fixed size, stored from the pointer on; the LONG at the pointer is the size of the buffer, negative when the type and the length are not wanted.\<close>

definition DirectRaw :: "ULONG \<Rightarrow> UCHAR list \<Rightarrow> nat \<Rightarrow> UCHAR list \<Rightarrow> UCHAR list res" where
  "DirectRaw type data bytes m =
     bindE (prefix_of data bytes) (\<lambda>d.
     if bytes \<le> 4 then blit m 0 d
     else bindE (long_at m) (\<lambda>size.
       if sint size < 0
       then let n = min (sint (- size)) (sint (of_nat bytes :: LONG))
            in if n < 0 then Inl Fault else blit m 0 (take (nat n) d)
       else bindE (blit m 0 (take (nat (min (sint size) 8)) (le32 (of_nat bytes) @ le32 type))) (\<lambda>m.
            if 8 < sint size then blit m 8 (take (nat (min (sint size - 8) (int bytes))) d) else Inr m)))"

definition DdkQueryDirect ::
  "(nat \<Rightarrow> UCHAR list option) \<Rightarrow> 'c QUERY_TABLE \<Rightarrow> ULONG \<Rightarrow> UCHAR list \<Rightarrow> DWORD \<Rightarrow> bool \<Rightarrow> (NTSTATUS, ('w, 'c) REG) st" where
  "DdkQueryDirect pool qp type data bytes env =
     (if EntryContext qp = 0 then ret STATUS_INVALID_PARAMETER
      else if type = REG_MULTI_SZ \<and> \<not> flag qp QUERY_NOEXPAND then ret STATUS_INVALID_PARAMETER
      else if type = REG_MULTI_SZ \<or> type = REG_EXPAND_SZ \<or> type = REG_SZ then
        bindS (if type = REG_EXPAND_SZ \<and> \<not> flag qp QUERY_NOEXPAND then DdkExpandString env else ret ()) (\<lambda>_.
        bindS (gets (\<lambda>s. slots s (EntryContext qp))) (\<lambda>slot.
        case slot of
          Some (StringSlot u) \<Rightarrow>
            bindS (liftE (DirectString pool data (unat bytes) u)) (\<lambda>u'.
            bindS (modify (\<lambda>s. s\<lparr>slots := (slots s)(EntryContext qp \<mapsto> StringSlot u')\<rparr>)) (\<lambda>_. ret STATUS_SUCCESS))
        | _ \<Rightarrow> fail Fault))
      else if type = REG_DWORD \<or> type = REG_QWORD \<or> type = REG_BINARY \<or> type = REG_DWORD_BIG_ENDIAN then
        bindS (gets (\<lambda>s. slots s (EntryContext qp))) (\<lambda>slot.
        case slot of
          Some (RawSlot m) \<Rightarrow>
            bindS (liftE (DirectRaw type data (unat bytes) m)) (\<lambda>m'.
            bindS (modify (\<lambda>s. s\<lparr>slots := (slots s)(EntryContext qp \<mapsto> RawSlot m')\<rparr>)) (\<lambda>_. ret STATUS_SUCCESS))
        | _ \<Rightarrow> fail Fault)
      else fail (DdkFail ''Unsupported type for registry value''))"

text \<open>The length of a default string, or of a list of strings up to the empty one.\<close>

function DefaultLoop :: "UCHAR list \<Rightarrow> ULONG \<Rightarrow> nat \<Rightarrow> nat res" where
  "DefaultLoop b type i =
     (case ScanNull b i of
        Inl e \<Rightarrow> Inl e
      | Inr j \<Rightarrow>
          if type = REG_MULTI_SZ \<and> (j < 2 \<or> rdw b (j - 1) \<noteq> Inr 0 \<or> rdw b (j - 2) \<noteq> Inr 0) then DefaultLoop b type j else Inr j)"
  by pat_completeness auto

termination DefaultLoop
  by (relation "measure (\<lambda>(b, type, i). length b - i)") (auto dest: ScanNull_bounds)

declare DefaultLoop.simps [simp del]

definition DdkGetDefaultValue :: "'c QUERY_TABLE \<Rightarrow> (ULONG \<times> UCHAR list \<times> DWORD) res" where
  "DdkGetDefaultValue qp =
     (let type = DefaultType qp AND 0xFF
      in if DefaultLength qp \<noteq> 0 \<or> type \<noteq> REG_SZ \<and> type \<noteq> REG_EXPAND_SZ \<and> type \<noteq> REG_MULTI_SZ
         then Inr (type, DefaultData qp, DefaultLength qp)
         else bindE (DefaultLoop (DefaultData qp) type 0) (\<lambda>i. Inr (type, DefaultData qp, of_nat (2 * i))))"

subsection \<open>Reading values\<close>

text \<open>
  The loop that enlarges the buffer: \<open>can\<close> tells which sizes can be allocated, \<open>fetch\<close> is the call of RegQueryValueExW.  The result is None when there is no memory, otherwise the error code, the type, the
  size and the data of the value.
\<close>

partial_function (option) ReadLoop ::
  "(DWORD \<Rightarrow> bool) \<Rightarrow> (DWORD option \<Rightarrow> nat \<times> ULONG \<times> DWORD \<times> UCHAR list) \<Rightarrow> DWORD \<Rightarrow> DWORD \<Rightarrow>
   (nat \<times> ULONG \<times> DWORD \<times> UCHAR list) option option" where
  "ReadLoop can fetch len0 bytes =
     (let len1 = len0 + 4096; len = (if bytes > len1 then bytes + 6 else len1)
      in if \<not> can len then Some None
         else let r = fetch (Some (len - 6))
              in if fst r = ERROR_MORE_DATA then ReadLoop can fetch len (fst (snd (snd r))) else Some (Some r))"

declare ReadLoop.simps [code]

definition DdkQueryValue ::
  "'w WINREG \<Rightarrow> (nat \<Rightarrow> UCHAR list option) \<Rightarrow> nat \<Rightarrow> 'c QUERY_TABLE \<Rightarrow> bool \<Rightarrow> (NTSTATUS, ('w, 'c) REG) st" where
  "DdkQueryValue W pool h qp env =
     (if \<not> flag qp QUERY_DIRECT \<longleftrightarrow> QueryRoutine qp = None then ret STATUS_INVALID_PARAMETER
      else
        bindS (gets can_alloc) (\<lambda>can.
        bindS (read_win (\<lambda>w cap. RegQueryValueExW W h (case QName qp of None \<Rightarrow> [] | Some n \<Rightarrow> n) cap w)) (\<lambda>fetch.
        case ReadLoop can fetch 0 0 of
          None \<Rightarrow> fail Waits
        | Some None \<Rightarrow> ret STATUS_INSUFFICIENT_RESOURCES
        | Some (Some (rc, type, bytes, d)) \<Rightarrow>
            (case QueryRoutine qp of
               Some r \<Rightarrow>
                 if rc \<noteq> ERROR_SUCCESS then ret (DdkGetRegistryStatus rc)
                 else DdkQueryCallback r qp type (d @ replicate 6 0) bytes env
             | None \<Rightarrow>
                 if rc = ERROR_SUCCESS \<and> flag qp QUERY_TYPECHECK \<and> type \<noteq> drop_bit 24 (DefaultType qp) AND 0xFF
                 then ret STATUS_OBJECT_TYPE_MISMATCH
                 else if rc = ERROR_FILE_NOT_FOUND then
                   if DefaultType qp = 0 then
                     ret (if flag qp QUERY_REQUIRED then STATUS_OBJECT_NAME_NOT_FOUND else STATUS_SUCCESS)
                   else bindS (liftE (DdkGetDefaultValue qp)) (\<lambda>(type, data, bytes). DdkQueryDirect pool qp type data bytes env)
                 else if rc \<noteq> ERROR_SUCCESS then ret (DdkGetRegistryStatus rc)
                 else DdkQueryDirect pool qp type (d @ replicate 6 0) bytes env))))"

subsection \<open>Query tables\<close>

partial_function (option) EnumLoop ::
  "'w WINREG \<Rightarrow> (nat \<Rightarrow> UCHAR list option) \<Rightarrow> nat \<Rightarrow> 'c QUERY_TABLE \<Rightarrow> bool \<Rightarrow> DWORD \<Rightarrow> DWORD \<Rightarrow> NTSTATUS \<Rightarrow> ('w, 'c) REG \<Rightarrow>
   ((NTSTATUS \<times> DWORD) \<times> ('w, 'c) REG) res option" where
  "EnumLoop W pool h qp env index count status s =
     (if \<not> NT_SUCCESS status then Some (Inr ((status, count), s))
      else case RegEnumValueW W h index None (win s) of (rc, name, _) \<Rightarrow>
        if rc \<noteq> ERROR_SUCCESS then Some (Inr ((if rc \<noteq> ERROR_NO_MORE_ITEMS then DdkGetRegistryStatus rc else status, count), s))
        else (case DdkQueryValue W pool h (qp\<lparr>QName := Some name\<rparr>) env s of
            Inl e \<Rightarrow> Some (Inl e)
          | Inr (status, s1) \<Rightarrow>
              if NT_SUCCESS status \<and> flag qp QUERY_DELETE
              then (case RegDeleteKeyValueW W h [] name (win s1) of (rc, w) \<Rightarrow>
                EnumLoop W pool h qp env (if rc = ERROR_SUCCESS then index else index + 1) (count + 1) status (s1\<lparr>win := w\<rparr>))
              else EnumLoop W pool h qp env (index + 1) (count + 1) status s1))"

declare EnumLoop.simps [code]

definition DdkQueryEnumerateValues ::
  "'w WINREG \<Rightarrow> (nat \<Rightarrow> UCHAR list option) \<Rightarrow> nat \<Rightarrow> 'c QUERY_TABLE \<Rightarrow> bool \<Rightarrow> (NTSTATUS, ('w, 'c) REG) st" where
  "DdkQueryEnumerateValues W pool h qp env s =
     (case EnumLoop W pool h qp env 0 0 STATUS_SUCCESS s of
        None \<Rightarrow> Inl Waits
      | Some (Inl e) \<Rightarrow> Inl e
      | Some (Inr ((status, count), s')) \<Rightarrow>
          Inr (if flag qp QUERY_REQUIRED \<and> count = 0 then STATUS_OBJECT_NAME_NOT_FOUND else status, s'))"

text \<open>
  The start of the loop over the table, which selects the key of an entry: the status and the key that is open.
\<close>

definition SelectKey :: "'w WINREG \<Rightarrow> nat \<Rightarrow> 'c QUERY_TABLE \<Rightarrow> nat \<Rightarrow> (NTSTATUS \<times> nat, ('w, 'c) REG) st" where
  "SelectKey W base qp key0 =
     bindS (if flag qp (QUERY_SUBKEY OR QUERY_TOPKEY) \<and> key0 \<noteq> 0 \<and> key0 \<noteq> base then close_hkey W key0 else ret ()) (\<lambda>_.
     let key = (if flag qp (QUERY_SUBKEY OR QUERY_TOPKEY) then base else key0)
     in if flag qp QUERY_SUBKEY
        then (case QName qp of
                None \<Rightarrow> ret (STATUS_INVALID_PARAMETER, key)
              | Some n \<Rightarrow> bindS (call_win (RegOpenKeyW W base n)) (\<lambda>(rc, k). ret (DdkGetRegistryStatus rc, if rc = ERROR_SUCCESS then k else key)))
        else ret (STATUS_SUCCESS, key))"

text \<open>
  The loop over the table; the result is the status, the key that is open and whether the routine returns at once.  A table ends with an entry without a name and a routine, so reading past the list is a fault.
\<close>

fun QueryLoop ::
  "'w WINREG \<Rightarrow> (nat \<Rightarrow> UCHAR list option) \<Rightarrow> bool \<Rightarrow> nat \<Rightarrow> 'c QUERY_TABLE list \<Rightarrow> nat \<Rightarrow> (NTSTATUS \<times> nat \<times> bool, ('w, 'c) REG) st" where
  "QueryLoop W pool env base [] key0 = fail Fault"
| "QueryLoop W pool env base (qp # rest) key0 =
     bindS (SelectKey W base qp key0) (\<lambda>(status, key).
     if \<not> NT_SUCCESS status then ret (status, key, False)
     else if flag qp QUERY_SUBKEY \<and> QueryRoutine qp = None then QueryLoop W pool env base rest key
     else if QName qp = None \<or> flag qp QUERY_SUBKEY then
       (case QueryRoutine qp of
          None \<Rightarrow> ret (status, key, False)
        | Some r \<Rightarrow>
            if flag qp QUERY_DIRECT then ret (STATUS_INVALID_PARAMETER, key, True)
            else
              bindS (if flag qp QUERY_NOVALUE then call_routine r (QName qp) 0 [] 0 else DdkQueryEnumerateValues W pool key qp env) (\<lambda>status.
              if NT_SUCCESS status then QueryLoop W pool env base rest key else ret (status, key, False)))
     else
       bindS (DdkQueryValue W pool key qp env) (\<lambda>status.
       bindS (if NT_SUCCESS status \<and> flag qp QUERY_DELETE
              then bindS (call_win (RegDeleteKeyValueW W key [] (the (QName qp)))) (\<lambda>_. ret ()) else ret ()) (\<lambda>_.
       if NT_SUCCESS status then QueryLoop W pool env base rest key else ret (status, key, False))))"

definition RtlQueryRegistryValues ::
  "'w WINREG \<Rightarrow> (nat \<Rightarrow> UCHAR list option) \<Rightarrow> ULONG \<Rightarrow> RPATHARG \<Rightarrow> 'c QUERY_TABLE list \<Rightarrow> bool \<Rightarrow> (NTSTATUS, ('w, 'c) REG) st" where
  "RtlQueryRegistryValues W pool RelativeTo path QueryTable env =
     bindS (DdkGetRegistryKey W RelativeTo path False) (\<lambda>(status, base).
     if \<not> NT_SUCCESS status then ret status
     else
       bindS (QueryLoop W pool env base QueryTable base) (\<lambda>(status, key, returned).
       if returned then ret status
       else
         bindS (if key \<noteq> 0 \<and> key \<noteq> base then close_hkey W key else ret ()) (\<lambda>_.
         bindS (if \<not> by_handle RelativeTo then close_unless_hive W base else ret ()) (\<lambda>_.
         ret status))))"

section \<open>Lemmas\<close>

subsection \<open>The loop that reads a value\<close>

definition serves :: "(DWORD option \<Rightarrow> nat \<times> ULONG \<times> DWORD \<times> UCHAR list) \<Rightarrow> ULONG \<Rightarrow> UCHAR list \<Rightarrow> bool" where
  "serves fetch t d \<longleftrightarrow>
     (\<forall>c. if length d \<le> unat c then fetch (Some c) = (ERROR_SUCCESS, t, of_nat (length d), d)
          else \<exists>x. fetch (Some c) = (ERROR_MORE_DATA, t, of_nat (length d), x))"

lemma ReadLoop_fits:
  assumes "serves fetch t d" "can (if bytes > len0 + 4096 then bytes + 6 else len0 + 4096)"
    and "length d \<le> unat ((if bytes > len0 + 4096 then bytes + 6 else len0 + 4096) - 6 :: DWORD)"
  shows "ReadLoop can fetch len0 bytes = Some (Some (ERROR_SUCCESS, t, of_nat (length d), d))"
proof -
  have "fetch (Some ((if bytes > len0 + 4096 then bytes + 6 else len0 + 4096) - 6)) = (ERROR_SUCCESS, t, of_nat (length d), d)"
    using assms(1,3) unfolding serves_def by meson
  with assms(2) show ?thesis by (subst ReadLoop.simps) (simp add: Let_def)
qed

lemma ReadLoop_again:
  assumes "serves fetch t d" "can (if bytes > len0 + 4096 then bytes + 6 else len0 + 4096)"
    and "unat ((if bytes > len0 + 4096 then bytes + 6 else len0 + 4096) - 6 :: DWORD) < length d"
  shows "ReadLoop can fetch len0 bytes = ReadLoop can fetch (if bytes > len0 + 4096 then bytes + 6 else len0 + 4096) (of_nat (length d))"
proof -
  obtain x where "fetch (Some ((if bytes > len0 + 4096 then bytes + 6 else len0 + 4096) - 6)) = (ERROR_MORE_DATA, t, of_nat (length d), x)"
    using assms(1,3) unfolding serves_def by (meson leD)
  with assms(2) show ?thesis by (subst ReadLoop.simps) (simp add: Let_def)
qed

text \<open>Three rounds are enough: the second asks for what the first reported, or for 8192 bytes if that is more, and then at most 6 bytes are missing.\<close>

lemma ReadLoop_reads:
  assumes s: "serves fetch t d" and can: "\<And>n. can n" and small: "length d + 6 < 2 ^ 32"
  shows "ReadLoop can fetch 0 0 = Some (Some (ERROR_SUCCESS, t, of_nat (length d), d))"
proof (cases "length d \<le> 4090")
  case True
  then show ?thesis by (intro ReadLoop_fits [OF s can]) simp
next
  case False
  let ?n = "of_nat (length d) :: DWORD"
  have un: "unat ?n = length d" using small by (simp add: unat_of_nat)
  have one: "ReadLoop can fetch 0 0 = ReadLoop can fetch 4096 ?n"
    using ReadLoop_again [OF s can, of 0 0] False by simp
  have big: "?n > 8192 \<longleftrightarrow> length d > 8192" by (simp add: word_less_nat_alt un)
  show ?thesis
  proof (cases "length d > 8192")
    case True
    with big small un have "length d \<le> unat ((if ?n > 4096 + 4096 then ?n + 6 else 4096 + 4096) - 6 :: DWORD)" by simp
    from ReadLoop_fits [OF s can this] one show ?thesis by simp
  next
    case mid: False
    show ?thesis
    proof (cases "length d \<le> 8186")
      case True
      with big mid have "length d \<le> unat ((if ?n > 4096 + 4096 then ?n + 6 else 4096 + 4096) - 6 :: DWORD)" by simp
      from ReadLoop_fits [OF s can this] one show ?thesis by simp
    next
      case False
      with big mid have "unat ((if ?n > 4096 + 4096 then ?n + 6 else 4096 + 4096) - 6 :: DWORD) < length d" by simp
      from ReadLoop_again [OF s can this] big mid one have "ReadLoop can fetch 0 0 = ReadLoop can fetch 8192 ?n" by simp
      moreover have "\<not> ?n > 12288" using mid by (simp add: word_less_nat_alt un)
      then have "length d \<le> unat ((if ?n > 8192 + 4096 then ?n + 6 else 8192 + 4096) - 6 :: DWORD)" using mid by simp
      from ReadLoop_fits [OF s can this] have "ReadLoop can fetch 8192 ?n = Some (Some (ERROR_SUCCESS, t, ?n, d))" .
      ultimately show ?thesis by simp
    qed
  qed
qed

subsection \<open>Lists of strings\<close>

text \<open>The strings of a list up to the first empty one, and what a routine makes of them one after the other until it fails.\<close>

function multi_strings :: "wstr \<Rightarrow> wstr list" where
  "multi_strings w =
     (if takeWhile (\<lambda>c. c \<noteq> 0) w = [] then []
      else takeWhile (\<lambda>c. c \<noteq> 0) w # multi_strings (drop (Suc (length (takeWhile (\<lambda>c. c \<noteq> 0) w))) w))"
  by pat_completeness auto

termination multi_strings
  by (relation "measure length") (auto simp: takeWhile_eq_Nil_iff)

declare multi_strings.simps [simp del]

fun visit :: "'c ROUTINE \<Rightarrow> wstr option \<Rightarrow> wstr list \<Rightarrow> NTSTATUS \<Rightarrow> 'c \<Rightarrow> NTSTATUS \<times> 'c" where
  "visit r name [] status c = (status, c)"
| "visit r name (w # ws) status c =
     (case r name REG_SZ (bytes_of w) (of_nat (2 * length w)) c of (status, c') \<Rightarrow>
        if NT_SUCCESS status then visit r name ws status c' else (status, c'))"

lemma rdw_wchars: "2 * i + 1 < length b \<Longrightarrow> rdw b i = Inr (wchars b ! i)"
  by (simp add: rdw_def rd_in wchars_nth)

lemma ScanNull_takeWhile:
  assumes "0 \<in> set (drop i (wchars b))"
  shows "ScanNull b i = Inr (Suc (i + length (takeWhile (\<lambda>c. c \<noteq> 0) (drop i (wchars b)))))"
  using assms
proof (induction b i rule: ScanNull.induct)
  case (1 b i)
  then have i: "i < length (wchars b)" by (metis drop_all empty_iff linorder_not_less list.set(1))
  then have rd: "rdw b i = Inr (wchars b ! i)" by (intro rdw_wchars) simp
  have split: "drop i (wchars b) = wchars b ! i # drop (Suc i) (wchars b)" using i by (simp add: Cons_nth_drop_Suc)
  show ?case
  proof (cases "wchars b ! i = 0")
    case True
    with rd split show ?thesis by (subst ScanNull.simps) simp
  next
    case False
    with "1.IH" [OF rd False] "1.prems" split have
      "ScanNull b (i + 1) = Inr (Suc (i + 1 + length (takeWhile (\<lambda>c. c \<noteq> 0) (drop (Suc i) (wchars b)))))" by simp
    with rd False split show ?thesis by (subst ScanNull.simps) simp
  qed
qed

lemma wchar_of_lo: "ucast (wchar_of lo hi) = lo"
  by (rule bit_word_eqI) (simp add: wchar_of_def bit_ucast_iff bit_or_iff bit_push_bit_iff)

lemma wchar_of_hi: "ucast (drop_bit 8 (wchar_of lo hi)) = hi"
  by (rule bit_word_eqI) (auto simp: wchar_of_def bit_ucast_iff bit_or_iff bit_push_bit_iff bit_drop_bit_eq dest: bit_imp_le_length)

lemma bytes_of_wchars: "even (length b) \<Longrightarrow> bytes_of (wchars b) = b"
  by (induction b rule: wchars.induct) (auto simp: wchar_of_lo wchar_of_hi)

lemma wchars_drop: "wchars (drop (2 * i) b) = drop i (wchars b)"
proof (induction i arbitrary: b)
  case (Suc i)
  then show ?case by (cases b rule: wchars.cases) auto
qed simp

lemma wchars_take: "wchars (take (2 * i) b) = take i (wchars b)"
proof (induction i arbitrary: b)
  case (Suc i)
  then show ?case by (cases b rule: wchars.cases) auto
qed simp

lemma bytes_between:
  assumes "2 * (i + k) \<le> length b"
  shows "take (2 * k) (drop (2 * i) b) = bytes_of (take k (drop i (wchars b)))"
proof -
  have "bytes_of (wchars (take (2 * k) (drop (2 * i) b))) = take (2 * k) (drop (2 * i) b)"
    using assms by (intro bytes_of_wchars) (simp add: min_absorb2)
  then show ?thesis by (simp add: wchars_take wchars_drop)
qed

text \<open>The padding leaves two nulls at the end, also after an odd number of bytes.\<close>

lemma wchars_padded: "\<exists>v. wchars (d @ replicate 6 0) = v @ [0, 0]"
proof (induction d rule: induct_list012)
  case 1
  have "wchars ([] @ replicate 6 0) = [0] @ [0, 0]" by code_simp
  then show ?case by blast
next
  case (2 v)
  have "wchars ([v] @ replicate 6 0) = [wchar_of v 0] @ [0, 0]" by (simp add: numeral_eq_Suc wchar_of_def)
  then show ?case by blast
next
  case (3 lo hi b)
  then show ?case by auto
qed

lemma takeWhile_before_end:
  assumes "w = v @ [0, 0 :: WCHAR]" "base \<le> Suc (length v)" "takeWhile (\<lambda>c. c \<noteq> 0) (drop base w) \<noteq> []"
  shows "base + length (takeWhile (\<lambda>c. c \<noteq> 0) (drop base w)) \<le> length v"
proof -
  have "base \<le> length v" using assms by (cases "base = Suc (length v)") auto
  then have split: "drop base w = drop base v @ [0, 0]" using assms(1) by simp
  have "length (takeWhile (\<lambda>c. c \<noteq> 0) (drop base v @ [0, 0])) \<le> length (drop base v)"
    using length_takeWhile_le [of "\<lambda>c. c \<noteq> 0" "drop base v"] by (auto simp: takeWhile_append)
  with split \<open>base \<le> length v\<close> show ?thesis by simp
qed

lemma CallbackLoop_visits:
  assumes "wchars b = v @ [0, 0]" "base \<le> Suc (length v)"
  shows "CallbackLoop r name REG_MULTI_SZ env b base status s =
    (case visit r name (multi_strings (drop base (wchars b))) status (client s) of (status, c) \<Rightarrow> Inr (status, s\<lparr>client := c\<rparr>))"
  using assms
proof (induction "length b - base" arbitrary: base status s rule: less_induct)
  case less
  let ?w = "drop base (wchars b)" and ?t = "takeWhile (\<lambda>c. c \<noteq> 0) (drop base (wchars b))"
  have "0 \<in> set ?w" using less.prems by (auto simp: drop_Cons' split: if_splits)
  note scan = ScanNull_takeWhile [OF this]
  show ?case
  proof (cases "?t = []")
    case True
    with scan have "ScanNull b base = Inr (base + 1)" by simp
    then have "CallbackLoop r name REG_MULTI_SZ env b base status s = Inr (status, s)" by (subst CallbackLoop.simps) simp
    moreover have "multi_strings ?w = []" using True by (subst multi_strings.simps) simp
    ultimately show ?thesis by simp
  next
    case False
    let ?i = "Suc (base + length ?t)"
    have i: "?i \<le> Suc (length v)" using takeWhile_before_end [OF less.prems(1) less.prems(2) False] by simp
    have len: "2 * Suc (Suc (length v)) \<le> length b" using less.prems(1) length_wchars [of b] by simp
    have "take (2 * length ?t) (drop (2 * base) b) = bytes_of (take (length ?t) ?w)"
      using i len by (intro bytes_between) simp
    then have data: "take (2 * length ?t) (drop (2 * base) b) = bytes_of ?t"
      using takeWhile_eq_take [of "\<lambda>c. c \<noteq> 0" ?w, symmetric] by simp
    have strings: "multi_strings ?w = ?t # multi_strings (drop ?i (wchars b))"
      using False by (subst multi_strings.simps) (simp add: add.commute)
    obtain st c where st: "r name REG_SZ (bytes_of ?t) (of_nat (2 * length ?t)) (client s) = (st, c)" by (metis surj_pair)
    have "CallbackLoop r name REG_MULTI_SZ env b base status s =
        (if NT_SUCCESS st then CallbackLoop r name REG_MULTI_SZ env b ?i st (s\<lparr>client := c\<rparr>) else Inr (st, s\<lparr>client := c\<rparr>))"
      using scan False data st by (subst CallbackLoop.simps) (simp add: bindS_def call_routine_def)
    moreover have "length b - ?i < length b - base" using i len by simp
    note less.hyps [OF this less.prems(1) i, of st "s\<lparr>client := c\<rparr>"]
    ultimately show ?thesis using strings st by (simp split: prod.splits)
  qed
qed

lemma takeWhile_string: "0 \<notin> set w \<Longrightarrow> takeWhile (\<lambda>c. c \<noteq> 0) (w @ 0 # rest) = w"
  by (induction w) auto

lemma multi_strings_encoded:
  "(\<forall>w \<in> set ws. w \<noteq> [] \<and> 0 \<notin> set w) \<Longrightarrow> multi_strings (concat (map (\<lambda>w. w @ [0]) ws) @ 0 # rest) = ws"
proof (induction ws)
  case Nil
  then show ?case by (subst multi_strings.simps) simp
next
  case (Cons w ws)
  then show ?case by (subst multi_strings.simps) (simp add: takeWhile_string)
qed

subsection \<open>Reading a value of a key\<close>

context winreg
begin

lemma query_serves:
  assumes "handles (view w) h = Some p" "tree (view w) p = Some m" "m (cname n) = Some (t, d)" "length d < 2 ^ 32"
  shows "serves (\<lambda>cap. RegQueryValueExW W h n cap w) t d"
  using query_small [OF assms] query_fits [OF assms(1-3)] by (auto simp: serves_def)

lemma DdkQueryValue_reads:
  assumes key: "handles (view (win s)) h = Some p" "tree (view (win s)) p = Some m"
    and qp: "QueryRoutine qp = Some r" "\<not> flag qp QUERY_DIRECT" "QName qp = Some n"
    and can: "\<And>k. can_alloc s k" and small: "\<And>t d. m (cname n) = Some (t, d) \<Longrightarrow> length d + 6 < 2 ^ 32"
  shows "DdkQueryValue W pool h qp env s =
    (case m (cname n) of
       None \<Rightarrow> Inr (STATUS_OBJECT_NAME_NOT_FOUND, s)
     | Some (t, d) \<Rightarrow> DdkQueryCallback r qp t (d @ replicate 6 0) (of_nat (length d)) env s)"
proof (cases "m (cname n)")
  case None
  let ?q = "RegQueryValueExW W h n (Some 4090) (win s)"
  have rc: "fst ?q = ERROR_FILE_NOT_FOUND" using query_missing [OF key None] .
  then have "ReadLoop (can_alloc s) (\<lambda>cap. RegQueryValueExW W h n cap (win s)) 0 0 = Some (Some ?q)"
    using can by (subst ReadLoop.simps) (simp add: Let_def)
  moreover obtain t b x where "?q = (ERROR_FILE_NOT_FOUND, t, b, x)" using rc by (metis prod.collapse)
  ultimately show ?thesis using qp None by (simp add: DdkQueryValue_def DdkGetRegistryStatus_def)
next
  case (Some td)
  obtain t d where td: "m (cname n) = Some (t, d)" using Some by (cases td) simp
  have "ReadLoop (can_alloc s) (\<lambda>cap. RegQueryValueExW W h n cap (win s)) 0 0 = Some (Some (ERROR_SUCCESS, t, of_nat (length d), d))"
    using query_serves [OF key td] small [OF td] can by (intro ReadLoop_reads) auto
  with qp td show ?thesis by (simp add: DdkQueryValue_def)
qed

end

subsection \<open>Direct values\<close>

lemma blit_in:
  assumes "off + length xs \<le> length m"
  shows "blit m off xs = Inr (take off m @ xs @ drop (off + length xs) m)"
  using assms by (simp add: blit_def)

lemma prefix_of_padded: "prefix_of (d @ replicate k 0) (length d) = Inr d"
  by (simp add: prefix_of_def)

text \<open>The text of a string value: without the null at its end, if there is one.\<close>

definition string_text :: "UCHAR list \<Rightarrow> UCHAR list" where
  "string_text d = (if 2 \<le> length d \<and> drop (length d - 2) d = [0, 0] then take (length d - 2) d else d)"

lemma string_text_prefix: "string_text d = take (length (string_text d)) d"
  by (simp add: string_text_def)

lemma DirectString_fits:
  assumes "Buffer u = Some b" "length b = MaximumLength u"
  shows "\<exists>u'. DirectString pool (d @ replicate 6 0) (length d) u = Inr u' \<and> MaximumLength u' = MaximumLength u \<and> length (mem u') = MaximumLength u \<and>
    Length u' = min (MaximumLength u) (length (string_text d)) \<and> take (Length u') (mem u') = take (Length u') (string_text d)"
proof -
  define n where "n = length (string_text d)"
  define k where "k = min (MaximumLength u) n"
  have n: "n = (if 2 \<le> length d \<and> drop (length d - 2) d = [0, 0] then length d - 2 else length d)" "n \<le> length d"
    by (simp_all add: n_def string_text_def)
  have k: "length (take k d) = k" "k \<le> length b" using n(2) assms by (simp_all add: k_def)
  have one: "blit (mem u) 0 (take k d) = Inr (take k d @ drop k b)" using k assms(1) by (simp add: blit_def mem_def)
  define z where "z = min (MaximumLength u - k) 6"
  have two: "blit (take k d @ drop k b) k (replicate z 0) = Inr (take k d @ replicate z 0 @ drop (k + z) b)"
    using k assms(2) by (simp add: blit_def z_def add.commute)
  have "DirectString pool (d @ replicate 6 0) (length d) u = Inr ((set_mem (take k d @ replicate z 0 @ drop (k + z) b) u)\<lparr>Length := k\<rparr>)"
    using one two assms(1) by (simp add: DirectString_def prefix_of_padded Let_def k_def z_def n(1))
  moreover have "take k d = take k (string_text d)"
    using string_text_prefix [of d] by (metis k_def min.cobounded2 min_def n_def take_take)
  ultimately show ?thesis using k assms
    by (auto simp: set_mem_def mem_def k_def [symmetric] n_def [symmetric] z_def)
qed

lemma sint_small: "- (2 ^ 31) \<le> x \<Longrightarrow> x < 2 ^ 31 \<Longrightarrow> sint (word_of_int x :: LONG) = x"
  using wrap32_small [of x] by (simp add: wrap32_def)

lemma sint_of_nat_small: "n < 2 ^ 31 \<Longrightarrow> sint (of_nat n :: LONG) = int n"
  using sint_small [of "int n"] by simp

lemma sint_uminus_small:
  assumes "sint (w :: LONG) \<noteq> - (2 ^ 31)"
  shows "sint (- w) = - sint w"
proof -
  have "- (2 ^ 31) \<le> sint w" "sint w < 2 ^ 31" using sint_greater_eq [of w] sint_less [of w] by simp_all
  with assms have "sint (word_of_int (- sint w) :: LONG) = - sint w" by (intro sint_small) simp_all
  moreover have "(word_of_int (- sint w) :: LONG) = - w" by simp
  ultimately show ?thesis by simp
qed

lemma take_blit: "off + length xs \<le> length m \<Longrightarrow> blit m off xs = Inr m' \<Longrightarrow>
    length m' = length m \<and> take off m' = take off m \<and> take (length xs) (drop off m') = xs \<and> (\<forall>k \<ge> off + length xs. drop k m' = drop k m)"
  by (auto simp: blit_def split: if_splits)

lemma nat_min: "nat (min x y) = min (nat x) (nat y)"
  by (auto simp: min_def)

lemma DirectRaw_fits:
  assumes size: "long_at m = Inr sz" "sint sz \<noteq> - (2 ^ 31)" "nat \<bar>sint sz\<bar> \<le> length m" and d: "length d < 2 ^ 31"
  shows "\<exists>m'. DirectRaw type (d @ replicate 6 0) (length d) m = Inr m' \<and> length m' = length m \<and>
    drop (max 4 (nat \<bar>sint sz\<bar>)) m' = drop (max 4 (nat \<bar>sint sz\<bar>)) m \<and>
    (if length d \<le> 4 then take (length d) m' = d
     else if sint sz < 0 then take (min (nat (- sint sz)) (length d)) m' = take (min (nat (- sint sz)) (length d)) d
     else take (min (nat (sint sz)) 8) m' = take (min (nat (sint sz)) 8) (le32 (of_nat (length d)) @ le32 type) \<and>
          (8 < sint sz \<longrightarrow> take (min (nat (sint sz) - 8) (length d)) (drop 8 m') = take (nat (sint sz) - 8) d))"
proof -
  have four: "4 \<le> length m" using size(1) by (simp add: long_at_def split: if_splits)
  consider "length d \<le> 4" | "4 < length d" "sint sz < 0" | "4 < length d" "0 \<le> sint sz" by linarith
  then show ?thesis
  proof cases
    case 1
    then have "DirectRaw type (d @ replicate 6 0) (length d) m = Inr (d @ drop (length d) m)"
      using four by (simp add: DirectRaw_def prefix_of_padded blit_def)
    with 1 four show ?thesis by (simp add: max_def)
  next
    case 2
    let ?k = "min (nat (- sint sz)) (length d)"
    have k: "nat (min (sint (- sz)) (sint (of_nat (length d) :: LONG))) = ?k" "\<not> min (sint (- sz)) (sint (of_nat (length d) :: LONG)) < 0"
      using 2 sint_uminus_small [OF size(2)] sint_of_nat_small [OF d] by (auto simp: min_def)
    have "DirectRaw type (d @ replicate 6 0) (length d) m = Inr (take ?k d @ drop ?k m)"
      using 2 size(1,3) k by (simp add: DirectRaw_def prefix_of_padded blit_def Let_def)
    with 2 size(3) show ?thesis by (auto simp: max_def min_def)
  next
    case 3
    define hd where "hd = take (nat (min (sint sz) 8)) (le32 (of_nat (length d)) @ le32 type)"
    have h: "length hd = min (nat (sint sz)) 8" by (simp add: hd_def le32_def nat_min)
    define m1 where "m1 = hd @ drop (length hd) m"
    have one: "blit m 0 hd = Inr m1" using size(3) 3 h by (simp add: blit_def m1_def min_def)
    have m1: "length m1 = length m" "take (min (nat (sint sz)) 8) m1 = hd" "drop (max 4 (nat (sint sz))) m1 = drop (max 4 (nat (sint sz))) m"
      using size(3) 3 h by (auto simp: m1_def max_def min_def)
    show ?thesis
    proof (cases "8 < sint sz")
      case False
      with 3 size(1) one have "DirectRaw type (d @ replicate 6 0) (length d) m = Inr m1"
        by (simp add: DirectRaw_def prefix_of_padded hd_def)
      with m1 3 False show ?thesis by (simp add: hd_def nat_min)
    next
      case True
      let ?x = "take (nat (min (sint sz - 8) (int (length d)))) d"
      have x: "?x = take (nat (sint sz) - 8) d" "8 + length ?x \<le> length m1" using True size(3) m1(1) by (auto simp: min_def nat_diff_distrib)
      obtain m2 where two: "blit m1 8 ?x = Inr m2" using x(2) by (simp add: blit_def)
      note m2 = take_blit [OF x(2) two]
      have "DirectRaw type (d @ replicate 6 0) (length d) m = Inr m2"
        using 3 size(1) one two True by (simp add: DirectRaw_def prefix_of_padded hd_def)
      moreover have "drop (max 4 (nat (sint sz))) m2 = drop (max 4 (nat (sint sz))) m"
        using m2 m1(3) True x by (auto simp: max_def)
      moreover have "take (min (nat (sint sz)) 8) m2 = hd" using m2 m1(2) True by simp
      moreover have "length ?x = min (nat (sint sz) - 8) (length d)" using True x(1) by simp
      ultimately show ?thesis using m2 m1(1) 3 True x(1) by (simp add: hd_def nat_min)
    qed
  qed
qed

subsection \<open>Handles\<close>

text \<open>What the query routines add to what is relied on: an empty name gives the same handle, and removing a value leaves the handles alone.\<close>

locale winreg_query = winreg +
  assumes open_empty: "handles (view w) h \<noteq> None \<Longrightarrow> RegOpenKeyW W h [] w = ((ERROR_SUCCESS, h), w)"
    and delete_key_value_law: "RegDeleteKeyValueW W h k n w = (rc, w') \<Longrightarrow> handles (view w') = handles (view w)"

lemma call_routine_win: "call_routine r name type data len s = Inr (status, s') \<Longrightarrow> win s' = win s \<and> hive s' = hive s"
  by (auto simp: call_routine_def split: prod.splits)

lemma CallbackLoop_win: "CallbackLoop r name type env b base status s = Inr (status', s') \<Longrightarrow> win s' = win s \<and> hive s' = hive s"
proof (induction "length b - base" arbitrary: type base status s rule: less_induct)
  case less
  have ih: "CallbackLoop r name ty env b i st s1 = Inr (status', s') \<Longrightarrow> ScanNull b base = Inr i \<Longrightarrow> win s' = win s1 \<and> hive s' = hive s1" for ty i st s1
  proof -
    assume a: "CallbackLoop r name ty env b i st s1 = Inr (status', s')" "ScanNull b base = Inr i"
    have "length b - i < length b - base" using ScanNull_bounds [OF a(2)] by linarith
    from less.hyps [OF this a(1)] show ?thesis .
  qed
  from less.prems show ?case
    by (subst (asm) CallbackLoop.simps)
      (auto simp: bindS_eq_Inr_iff DdkExpandString_def split: sum.splits if_splits dest!: call_routine_win dest: ih)
qed

lemma DdkQueryDirect_win: "DdkQueryDirect pool qp type data bytes env s = Inr (status, s') \<Longrightarrow> win s' = win s \<and> hive s' = hive s"
  by (auto simp: DdkQueryDirect_def bindS_eq_Inr_iff DdkExpandString_def split: if_splits option.splits SLOT.splits sum.splits)

lemma DdkQueryValue_win: "DdkQueryValue W pool h qp env s = Inr (status, s') \<Longrightarrow> win s' = win s \<and> hive s' = hive s"
  by (auto simp: DdkQueryValue_def DdkQueryCallback_def bindS_eq_Inr_iff split: if_splits option.splits sum.splits
    dest: call_routine_win CallbackLoop_win DdkQueryDirect_win)

definition keeps_handles :: "('w \<Rightarrow> RVIEW) \<Rightarrow> 'w WINREG \<Rightarrow> bool" where
  "keeps_handles view W \<longleftrightarrow> (\<forall>h k n w rc w'. RegDeleteKeyValueW W h k n w = (rc, w') \<longrightarrow> handles (view w') = handles (view w))"

definition same_handles :: "('w \<Rightarrow> RVIEW) \<Rightarrow> ('w, 'c) REG \<Rightarrow> ('w, 'c) REG \<Rightarrow> bool" where
  "same_handles view s s' \<longleftrightarrow> handles (view (win s')) = handles (view (win s)) \<and> hive s' = hive s"

lemma DdkQueryValue_same: "DdkQueryValue W pool h qp env s = Inr (status, s') \<Longrightarrow> same_handles view s s'"
  by (simp add: same_handles_def DdkQueryValue_win)

lemma same_handles_refl [simp]: "same_handles view s s"
  by (simp add: same_handles_def)

lemma same_handles_trans: "same_handles view s s1 \<Longrightarrow> same_handles view s1 s2 \<Longrightarrow> same_handles view s s2"
  by (simp add: same_handles_def)

lemma EnumLoop_handles:
  assumes "EnumLoop W pool h qp env index count status s = Some r"
  shows "keeps_handles view W \<longrightarrow> (\<forall>x s'. r = Inr (x, s') \<longrightarrow> same_handles view s s')"
  using assms
proof (rule EnumLoop.raw_induct [rotated, where P = "\<lambda>W pool h qp env index count status s r. keeps_handles view W \<longrightarrow> (\<forall>x s'. r = Inr (x, s') \<longrightarrow> same_handles view s s')"], goal_cases)
  case (1 F W pool h qp env index count status s r)
  show ?case
  proof (intro impI allI)
    fix x s'
    assume keep: "keeps_handles view W" and r: "r = Inr (x, s')"
    have ih: "same_handles view s1 s'" if "F W pool h qp env index count status s1 = Some (Inr (x, s'))" for index count status s1
      using 1(1) keep that by blast
    have del: "same_handles view s1 (s1\<lparr>win := w\<rparr>)" if "RegDeleteKeyValueW W h [] n (win s1) = (rc, w)" for n rc w s1
      using keep that by (auto simp: keeps_handles_def same_handles_def)
    show "same_handles view s s'"
      using 1(2) keep r
      by (auto split: if_splits prod.splits sum.splits
          dest!: ih DdkQueryValue_same [where view = view] del intro: same_handles_trans)
  qed
qed

text \<open>The handles while a table is processed: those at the start, and a subkey.\<close>

definition held :: "(nat \<rightharpoonup> rpath) \<Rightarrow> nat \<Rightarrow> nat \<Rightarrow> (nat \<rightharpoonup> rpath) \<Rightarrow> bool" where
  "held H base key hs \<longleftrightarrow> key = base \<and> hs = H \<or> key \<noteq> base \<and> key \<noteq> 0 \<and> H key = None \<and> (\<exists>p. hs = H(key \<mapsto> p))"

text \<open>The entries for which \<open>RtlQueryRegistryValues\<close> returns without closing its keys.\<close>

definition returns_early :: "'c QUERY_TABLE \<Rightarrow> bool" where
  "returns_early qp \<longleftrightarrow> flag qp QUERY_DIRECT \<and> QueryRoutine qp \<noteq> None \<and> (QName qp = None \<or> flag qp QUERY_SUBKEY)"

lemma subkey_selects: "flag qp QUERY_SUBKEY \<Longrightarrow> flag qp (QUERY_SUBKEY OR QUERY_TOPKEY)"
proof -
  assume "flag qp QUERY_SUBKEY"
  moreover have "Flags qp AND 1 = (Flags qp AND (1 OR 2)) AND 1" by (simp add: and.assoc)
  ultimately show ?thesis by (auto simp: flag_def)
qed

lemma close_unless_hive_eq:
  "close_unless_hive W h s = Inr ((), s\<lparr>win := if h \<noteq> 0 \<and> h \<noteq> hive s then snd (RegCloseKey W h (win s)) else win s\<rparr>)"
  by (simp add: close_unless_hive_def)

context winreg_query
begin

lemma keeps: "keeps_handles view W"
  using delete_key_value_law by (auto simp: keeps_handles_def)

lemma held_close:
  assumes "held H base key (handles (view w))" "key \<noteq> base"
  shows "handles (view (snd (RegCloseKey W key w))) = H"
proof -
  from assms obtain p where p: "H key = None" "handles (view w) = H(key \<mapsto> p)" by (auto simp: held_def)
  then have "handles (view w) key \<noteq> None" by simp
  from close_law [OF this] p show ?thesis by (auto simp: fun_upd_idem)
qed

lemma SelectKey_held:
  assumes "SelectKey W base qp key0 s = Inr ((status, key), s')" "held H base key0 (handles (view (win s)))" "H base \<noteq> None" "base \<noteq> 0"
  shows "held H base key (handles (view (win s'))) \<and> hive s' = hive s"
proof (cases "flag qp (QUERY_SUBKEY OR QUERY_TOPKEY)")
  case False
  then have "\<not> flag qp QUERY_SUBKEY" using subkey_selects by blast
  with False assms(1,2) show ?thesis by (simp add: SelectKey_def)
next
  case True
  define w1 where "w1 = (if key0 \<noteq> 0 \<and> key0 \<noteq> base then snd (RegCloseKey W key0 (win s)) else win s)"
  have w1: "handles (view w1) = H" using held_close [OF assms(2)] assms(2) unfolding w1_def by (auto simp: held_def)
  show ?thesis
  proof (cases "flag qp QUERY_SUBKEY \<and> QName qp \<noteq> None")
    case False
    with assms(1) True have "key = base" "s' = s\<lparr>win := w1\<rparr>"
      by (auto simp: SelectKey_def w1_def split: if_splits option.splits)
    with w1 show ?thesis by (simp add: held_def)
  next
    case sub: True
    then obtain n where n: "QName qp = Some n" by auto
    obtain rc k w2 where call: "RegOpenKeyW W base n w1 = ((rc, k), w2)" by (metis surj_pair)
    with assms(1) True sub n have key: "key = (if rc = ERROR_SUCCESS then k else base)" "s' = s\<lparr>win := w2\<rparr>"
      by (auto simp: SelectKey_def w1_def split: if_splits)
    obtain p where p: "handles (view w1) base = Some p" using w1 assms(3) by auto
    show ?thesis
    proof (cases "n = []")
      case True
      with open_empty [of w1 base] p call have "rc = ERROR_SUCCESS" "k = base" "w2 = w1" by auto
      with key w1 show ?thesis by (simp add: held_def)
    next
      case False
      from open_law [OF p False call] key w1 assms(3) show ?thesis
        by (auto simp: held_def opened_def split: if_splits)
    qed
  qed
qed

lemma DdkQueryEnumerateValues_same: "DdkQueryEnumerateValues W pool h qp env s = Inr (status, s') \<Longrightarrow> same_handles view s s'"
  using EnumLoop_handles [of W pool h qp env 0 0 0 s _ view] keeps
  by (fastforce simp: DdkQueryEnumerateValues_def split: option.splits sum.splits prod.splits)

lemma QueryLoop_held:
  assumes "QueryLoop W pool env base qps key s = Inr ((status, key', early), s')"
    and "held H base key (handles (view (win s)))" "H base \<noteq> None" "base \<noteq> 0"
  shows "held H base key' (handles (view (win s'))) \<and> hive s' = hive s \<and> (early \<longrightarrow> (\<exists>qp \<in> set qps. returns_early qp))"
  using assms(1,2)
proof (induction qps arbitrary: key s)
  case Nil
  then show ?case by simp
next
  case (Cons qp rest)
  from Cons.prems(1) obtain st k s1 where sel: "SelectKey W base qp key s = Inr ((st, k), s1)"
    by (auto simp: bindS_eq_Inr_iff)
  note held1 = SelectKey_held [OF sel Cons.prems(2) assms(3,4)]
  have go: ?case if "same_handles view s1 s2" "QueryLoop W pool env base rest k s2 = Inr ((status, key', early), s')" for s2
    using Cons.IH [OF that(2)] that(1) held1 by (auto simp: same_handles_def)
  have stop: ?case if "same_handles view s1 s'" "key' = k" "early \<longrightarrow> returns_early qp"
    using that held1 by (auto simp: same_handles_def)
  have next_entry: ?case if "same_handles view s1 s2"
    "(if NT_SUCCESS st2 then QueryLoop W pool env base rest k else ret (st2, k, False)) s2 = Inr ((status, key', early), s')" for st2 s2
  proof (cases "NT_SUCCESS st2")
    case True
    with that show ?thesis by (intro go [OF that(1)]) simp
  next
    case False
    with that show ?thesis by (intro stop) auto
  qed
  show ?case
  proof (cases "NT_SUCCESS st")
    case False
    with Cons.prems(1) sel show ?thesis by (intro stop) (auto simp: bindS_Inr)
  next
    case ok: True
    show ?thesis
    proof (cases "QName qp = None \<or> flag qp QUERY_SUBKEY")
      case sub: True
      show ?thesis
      proof (cases "QueryRoutine qp")
        case None
        show ?thesis
        proof (cases "flag qp QUERY_SUBKEY")
          case True
          with Cons.prems(1) sel ok None show ?thesis by (intro go [OF same_handles_refl]) (simp add: bindS_Inr)
        next
          case False
          with Cons.prems(1) sel ok sub None show ?thesis by (intro stop) (auto simp: bindS_Inr)
        qed
      next
        case (Some r)
        show ?thesis
        proof (cases "flag qp QUERY_DIRECT")
          case True
          with Cons.prems(1) sel ok sub Some show ?thesis by (intro stop) (auto simp: bindS_Inr returns_early_def)
        next
          case False
          with Cons.prems(1) sel ok sub Some obtain st2 s2 where
            run: "(if flag qp QUERY_NOVALUE then call_routine r (QName qp) 0 [] 0 else DdkQueryEnumerateValues W pool k qp env) s1 = Inr (st2, s2)"
            "(if NT_SUCCESS st2 then QueryLoop W pool env base rest k else ret (st2, k, False)) s2 = Inr ((status, key', early), s')"
            by (auto simp: bindS_Inr bindS_eq_Inr_iff)
          have "same_handles view s1 s2"
            using run(1) by (auto simp: same_handles_def split: if_splits dest: call_routine_win DdkQueryEnumerateValues_same)
          then show ?thesis by (rule next_entry [OF _ run(2)])
        qed
      qed
    next
      case False
      with Cons.prems(1) sel ok obtain st2 s2 s3 where
        run: "DdkQueryValue W pool k qp env s1 = Inr (st2, s2)"
        "(if NT_SUCCESS st2 \<and> flag qp QUERY_DELETE then bindS (call_win (RegDeleteKeyValueW W k [] (the (QName qp)))) (\<lambda>_. ret ()) else ret ()) s2 = Inr ((), s3)"
        "(if NT_SUCCESS st2 then QueryLoop W pool env base rest k else ret (st2, k, False)) s3 = Inr ((status, key', early), s')"
        by (auto simp: bindS_Inr bindS_eq_Inr_iff)
      have "same_handles view s2 s3"
        using run(2) delete_key_value_law by (auto simp: same_handles_def split: if_splits prod.splits)
      with DdkQueryValue_same [OF run(1)] have "same_handles view s1 s3" by (rule same_handles_trans)
      then show ?thesis by (rule next_entry [OF _ run(3)])
    qed
  qed
qed

lemma RtlQueryRegistryValues_handles:
  assumes "hive_open view s" "\<not> by_handle RelativeTo" "rel_names s RelativeTo = Some rel"
    and run: "RtlQueryRegistryValues W pool RelativeTo (Path path) tab env s = Inr (status, s')"
    and tab: "\<forall>qp \<in> set tab. \<not> returns_early qp"
  shows "handles (view (win s')) = handles (view (win s))"
proof -
  from DdkGetRegistryKey_got [OF assms(1-3)] obtain st base w1 where
    got: "DdkGetRegistryKey W RelativeTo (Path path) False s = Inr ((st, base), s\<lparr>win := w1\<rparr>)"
      "got_key False (hive s) (target canon rel path) st base (view (win s)) (view w1)" by blast
  have h: "handles (view (win s)) (hive s) \<noteq> None" "hive s \<noteq> 0" using assms(1) by (simp_all add: hive_open_def)
  show ?thesis
  proof (cases "st = STATUS_SUCCESS")
    case False
    then have "\<not> NT_SUCCESS st" "handles (view w1) = handles (view (win s))" using got(2) by (simp_all add: got_key_def)
    with run got(1) show ?thesis by (auto simp: RtlQueryRegistryValues_def bindS_Inr)
  next
    case True
    note close = got_key_close [OF got(2) [unfolded True] h]
    from True run got(1) obtain st2 key early s2 where
      loop: "QueryLoop W pool env base tab base (s\<lparr>win := w1\<rparr>) = Inr ((st2, key, early), s2)"
      "(if early then ret st2 else bindS (if key \<noteq> 0 \<and> key \<noteq> base then close_hkey W key else ret ()) (\<lambda>_.
         bindS (if \<not> by_handle RelativeTo then close_unless_hive W base else ret ()) (\<lambda>_. ret st2))) s2 = Inr (status, s')"
      by (auto simp: RtlQueryRegistryValues_def bindS_Inr bindS_eq_Inr_iff NT_SUCCESS_def)
    have "base \<noteq> 0" "handles (view w1) base \<noteq> None" using close(2-4) [OF refl] h by auto
    with QueryLoop_held [OF loop(1), of "handles (view w1)"] tab have
      q: "held (handles (view w1)) base key (handles (view (win s2)))" "hive s2 = hive s" "\<not> early" by (auto simp: held_def)
    define w3 where "w3 = (if key \<noteq> 0 \<and> key \<noteq> base then snd (RegCloseKey W key (win s2)) else win s2)"
    have w3: "handles (view w3) = handles (view w1)"
      using q(1) held_close [OF q(1)] by (auto simp: w3_def held_def)
    have "win s' = (if base \<noteq> 0 \<and> base \<noteq> hive s then snd (RegCloseKey W base w3) else w3)"
      using loop(2) q(2,3) assms(2) by (cases "key \<noteq> 0 \<and> key \<noteq> base") (auto simp: w3_def bindS_Inr [OF close_unless_hive_eq])
    with close [OF w3] w3 \<open>base \<noteq> 0\<close> show ?thesis by (auto split: if_splits)
  qed
qed

end

interpretation mq: winreg_query mem_registry mview mem_canon mem_cname
  by unfold_locales (auto simp: mem_registry_defs split: option.splits if_splits)

subsection \<open>Enumeration\<close>

text \<open>The names of the values of a key in the order Windows enumerates them, and the entry applied to each of them until it fails.\<close>

definition enumerates :: "'w WINREG \<Rightarrow> nat \<Rightarrow> 'w \<Rightarrow> wstr list \<Rightarrow> bool" where
  "enumerates W h w ns \<longleftrightarrow> length ns < 2 ^ 32 \<and>
     (\<forall>i. if unat i < length ns then fst (RegEnumValueW W h i None w) = ERROR_SUCCESS \<and> fst (snd (RegEnumValueW W h i None w)) = ns ! unat i
          else fst (RegEnumValueW W h i None w) = ERROR_NO_MORE_ITEMS)"

fun query_each ::
  "'w WINREG \<Rightarrow> (nat \<Rightarrow> UCHAR list option) \<Rightarrow> nat \<Rightarrow> 'c QUERY_TABLE \<Rightarrow> bool \<Rightarrow> wstr list \<Rightarrow> NTSTATUS \<Rightarrow> (NTSTATUS, ('w, 'c) REG) st" where
  "query_each W pool h qp env [] status = ret status"
| "query_each W pool h qp env (n # ns) status =
     bindS (DdkQueryValue W pool h (qp\<lparr>QName := Some n\<rparr>) env) (\<lambda>status.
     if NT_SUCCESS status then query_each W pool h qp env ns status else ret status)"

lemma EnumLoop_stop: "\<not> NT_SUCCESS status \<Longrightarrow> EnumLoop W pool h qp env index count status s = Some (Inr ((status, count), s))"
  by (subst EnumLoop.simps) simp

lemma EnumLoop_visits:
  assumes "enumerates W h (win s) ns" "\<not> flag qp QUERY_DELETE" "NT_SUCCESS status" "i \<le> length ns"
  shows "\<exists>k. EnumLoop W pool h qp env (of_nat i) (of_nat i) status s =
      Some (case query_each W pool h qp env (drop i ns) status s of Inl e \<Rightarrow> Inl e | Inr (st, s') \<Rightarrow> Inr ((st, of_nat k), s')) \<and>
    i \<le> k \<and> k \<le> length ns \<and> (i < length ns \<longrightarrow> i < k)"
  using assms
proof (induction "length ns - i" arbitrary: i status s)
  case 0
  then have i: "i = length ns" by simp
  moreover have "unat (of_nat (length ns) :: DWORD) = length ns" using 0(2) by (simp add: enumerates_def unat_of_nat)
  ultimately have "fst (RegEnumValueW W h (of_nat i) None (win s)) = ERROR_NO_MORE_ITEMS" using 0(2) by (simp add: enumerates_def)
  then obtain x where "RegEnumValueW W h (of_nat i) None (win s) = (ERROR_NO_MORE_ITEMS, x)" by (metis prod.collapse)
  then have "EnumLoop W pool h qp env (of_nat i) (of_nat i) status s = Some (Inr ((status, of_nat i), s))"
    using 0(4) by (subst EnumLoop.simps) (simp split: prod.splits)
  with i show ?case by auto
next
  case (Suc x)
  then have i: "i < length ns" by simp
  have un: "unat (of_nat i :: DWORD) = i" using Suc(3) i by (simp add: enumerates_def unat_of_nat)
  have rc: "fst (RegEnumValueW W h (of_nat i) None (win s)) = ERROR_SUCCESS" "fst (snd (RegEnumValueW W h (of_nat i) None (win s))) = ns ! i"
    using Suc(3) i un unfolding enumerates_def by metis+
  then obtain y where rc: "RegEnumValueW W h (of_nat i) None (win s) = (ERROR_SUCCESS, ns ! i, y)" by (metis prod.collapse)
  have split: "drop i ns = ns ! i # drop (Suc i) ns" using i by (simp add: Cons_nth_drop_Suc)
  show ?case
  proof (cases "DdkQueryValue W pool h (qp\<lparr>QName := Some (ns ! i)\<rparr>) env s")
    case (Inl e)
    then have "EnumLoop W pool h qp env (of_nat i) (of_nat i) status s = Some (Inl e)"
      using Suc(5) rc by (subst EnumLoop.simps) (simp split: prod.splits)
    with Inl i split show ?thesis by (intro exI [of _ "Suc i"]) (simp add: bindS_Inl)
  next
    case (Inr r)
    obtain st s1 where r: "r = (st, s1)" by (cases r)
    have next_value: "EnumLoop W pool h qp env (of_nat i) (of_nat i) status s = EnumLoop W pool h qp env (of_nat (Suc i)) (of_nat (Suc i)) st s1"
      using Suc(4,5) rc Inr r by (subst EnumLoop.simps) (simp add: add.commute split: prod.splits)
    show ?thesis
    proof (cases "NT_SUCCESS st")
      case True
      have "win s1 = win s" using DdkQueryValue_win Inr r by blast
      then have "enumerates W h (win s1) ns" using Suc(3) by simp
      moreover have "x = length ns - Suc i" "Suc i \<le> length ns" using Suc(2) i by simp_all
      ultimately obtain k where "EnumLoop W pool h qp env (of_nat (Suc i)) (of_nat (Suc i)) st s1 =
          Some (case query_each W pool h qp env (drop (Suc i) ns) st s1 of Inl e \<Rightarrow> Inl e | Inr (st, s') \<Rightarrow> Inr ((st, of_nat k), s'))"
        "Suc i \<le> k" "k \<le> length ns"
        using Suc(1) [OF _ _ Suc(4) True, of "Suc i" s1] by blast
      with True Inr r split next_value show ?thesis by (intro exI [of _ k]) (simp add: bindS_Inr)
    next
      case False
      with Inr r split i next_value EnumLoop_stop [OF False] show ?thesis
        by (intro exI [of _ "Suc i"]) (simp add: bindS_Inr del: of_nat_Suc)
    qed
  qed
qed

section \<open>Theorems\<close>


definition log_routine :: "(ULONG \<times> UCHAR list) list ROUTINE" where
  "log_routine name type data len c = (STATUS_SUCCESS, c @ [(type, data)])"

definition log_entry :: "(ULONG \<times> UCHAR list) list QUERY_TABLE" where
  "log_entry = \<lparr>QueryRoutine = Some log_routine, Flags = 0, QName = Some (wide ''v''), EntryContext = 0, DefaultType = 0, DefaultData = [], DefaultLength = 0\<rparr>"

definition query_reg :: "(MEMREG, (ULONG \<times> UCHAR list) list) REG" where
  "query_reg =
     \<lparr>win = \<lparr>mhandles = [5 \<mapsto> []], mkeys = [([], [(wide ''V'', wide ''V'', 4, [1, 0, 0, 0])]), ([wide ''A''], [])], mnext = 6\<rparr>,
      hive = 5, kobjs = Map.empty, next_kobj = 100, kobjs_left = 3, system_thread = False, can_alloc = (\<lambda>n. True), client = [], slots = Map.empty\<rparr>"

lemma query_reg_ready: "hive_open mview query_reg" "\<not> by_handle 0" "rel_names query_reg 0 = Some []"
  by (simp_all add: query_reg_def hive_open_def mview_def by_handle_def rel_names_def DdkGetRelativePath_def skip_backslashes_def dom_def)


text \<open>
  A REG_MULTI_SZ value is handed to the routine one string at a time, in order and up to the first failure, whatever bytes are stored: the padding behind the value keeps the loop inside the buffer.  For a
  list of strings that is properly terminated these are exactly the strings of the list.
\<close>

theorem DdkQueryCallback_strings:
  assumes "\<not> flag qp QUERY_NOEXPAND"
  shows "DdkQueryCallback r qp REG_MULTI_SZ (d @ replicate 6 0) bytes env s =
      (case visit r (QName qp) (multi_strings (wchars (d @ replicate 6 0))) STATUS_SUCCESS (client s) of (status, c) \<Rightarrow> Inr (status, s\<lparr>client := c\<rparr>)) \<and>
    ((\<forall>w \<in> set ws. w \<noteq> [] \<and> 0 \<notin> set w) \<longrightarrow> d = bytes_of (concat (map (\<lambda>w. w @ [0]) ws) @ [0]) \<longrightarrow>
      multi_strings (wchars (d @ replicate 6 0)) = ws)"
proof -
  obtain v where v: "wchars (d @ replicate 6 0) = v @ [0, 0]" using wchars_padded by blast
  have "DdkQueryCallback r qp REG_MULTI_SZ (d @ replicate 6 0) bytes env s = CallbackLoop r (QName qp) REG_MULTI_SZ env (d @ replicate 6 0) 0 STATUS_SUCCESS s"
    using assms by (simp add: DdkQueryCallback_def)
  also have "\<dots> = (case visit r (QName qp) (multi_strings (wchars (d @ replicate 6 0))) STATUS_SUCCESS (client s) of (status, c) \<Rightarrow> Inr (status, s\<lparr>client := c\<rparr>))"
    using CallbackLoop_visits [OF v, of 0] by simp
  finally have calls: "DdkQueryCallback r qp REG_MULTI_SZ (d @ replicate 6 0) bytes env s =
      (case visit r (QName qp) (multi_strings (wchars (d @ replicate 6 0))) STATUS_SUCCESS (client s) of (status, c) \<Rightarrow> Inr (status, s\<lparr>client := c\<rparr>))" .
  show ?thesis
  proof (intro conjI impI)
    assume ws: "\<forall>w \<in> set ws. w \<noteq> [] \<and> 0 \<notin> set w" and d: "d = bytes_of (concat (map (\<lambda>w. w @ [0]) ws) @ [0])"
    have "wchars (d @ replicate 6 0) = concat (map (\<lambda>w. w @ [0]) ws) @ 0 # wchars (replicate 6 0)"
      unfolding d wchars_append by (simp only: append.assoc append.simps)
    then show "multi_strings (wchars (d @ replicate 6 0)) = ws" using multi_strings_encoded [OF ws] by simp
  qed (rule calls)
qed

definition two_strings :: "UCHAR list" where
  "two_strings = bytes_of (concat (map (\<lambda>w. w @ [0]) [[0x61], [0x62]]) @ [0])"

theorem DdkQueryCallback_strings_witness:
  "\<not> flag log_entry QUERY_NOEXPAND \<and>
   DdkQueryCallback log_routine log_entry REG_MULTI_SZ (two_strings @ replicate 6 0) 10 False query_reg =
     Inr (STATUS_SUCCESS, query_reg\<lparr>client := [(REG_SZ, [0x61, 0]), (REG_SZ, [0x62, 0])]\<rparr>)"
proof -
  have f: "\<not> flag log_entry QUERY_NOEXPAND" by (simp add: log_entry_def flag_def)
  note both = DdkQueryCallback_strings [OF f, of log_routine two_strings 10 False query_reg "[[0x61], [0x62]]"]
  have "multi_strings (wchars (two_strings @ replicate 6 0)) = [[0x61], [0x62]]"
    using conjunct2 [OF both] by (simp add: two_strings_def)
  with conjunct1 [OF both] have "DdkQueryCallback log_routine log_entry REG_MULTI_SZ (two_strings @ replicate 6 0) 10 False query_reg =
      (case visit log_routine (QName log_entry) [[0x61], [0x62]] STATUS_SUCCESS (client query_reg) of (status, c) \<Rightarrow> Inr (status, query_reg\<lparr>client := c\<rparr>))"
    by (simp only:)
  then have "DdkQueryCallback log_routine log_entry REG_MULTI_SZ (two_strings @ replicate 6 0) 10 False query_reg =
      Inr (STATUS_SUCCESS, query_reg\<lparr>client := [(REG_SZ, [0x61, 0]), (REG_SZ, [0x62, 0])]\<rparr>)"
    by (simp add: log_routine_def query_reg_def NT_SUCCESS_def)
  with f show ?thesis by (rule conjI)
qed

text \<open>
  C39.  A direct value stays inside the variable the caller provides.  A string is cut to the maximum length and loses only its terminating null.  A value of fixed size changes no byte
  beyond the size the caller declares (and beyond the four bytes of the size itself), and what fits of the data, with the length and the type before it unless the size is negative, is stored.
\<close>

theorem direct_values_fit:
  assumes "Buffer u = Some b" "length b = MaximumLength u"
    and "long_at m = Inr sz" "sint sz \<noteq> - (2 ^ 31)" "nat \<bar>sint sz\<bar> \<le> length m" "length d < 2 ^ 31"
  shows "(\<exists>u'. DirectString pool (d @ replicate 6 0) (length d) u = Inr u' \<and> MaximumLength u' = MaximumLength u \<and> length (mem u') = MaximumLength u \<and>
      Length u' = min (MaximumLength u) (length (string_text d)) \<and> take (Length u') (mem u') = take (Length u') (string_text d)) \<and>
    (\<exists>m'. DirectRaw type (d @ replicate 6 0) (length d) m = Inr m' \<and> length m' = length m \<and>
      drop (max 4 (nat \<bar>sint sz\<bar>)) m' = drop (max 4 (nat \<bar>sint sz\<bar>)) m \<and>
      (if length d \<le> 4 then take (length d) m' = d
       else if sint sz < 0 then take (min (nat (- sint sz)) (length d)) m' = take (min (nat (- sint sz)) (length d)) d
       else take (min (nat (sint sz)) 8) m' = take (min (nat (sint sz)) 8) (le32 (of_nat (length d)) @ le32 type) \<and>
            (8 < sint sz \<longrightarrow> take (min (nat (sint sz) - 8) (length d)) (drop 8 m') = take (nat (sint sz) - 8) d)))"
  using DirectString_fits [OF assms(1,2)] DirectRaw_fits [OF assms(3-6)] by blast

definition some_text :: "UCHAR list" where
  "some_text = [0x61, 0, 0x62, 0, 0, 0]"

definition some_slot :: UNICODE_STRING where
  "some_slot = \<lparr>Length = 0, MaximumLength = 2, Buffer = Some [9, 9]\<rparr>"

definition some_raw :: "UCHAR list" where
  "some_raw = [10, 0, 0, 0, 7, 7, 7, 7, 7, 7, 7]"

lemma some_sizes: "long_at some_raw = Inr 10" "sint (10 :: LONG) = 10" "length some_raw = 11" "drop 10 some_raw = [7]" "length some_text = 6"
    "string_text some_text = [0x61, 0, 0x62, 0]" "Buffer some_slot = Some [9, 9]" "MaximumLength some_slot = 2"
  by code_simp+

theorem direct_values_fit_witness:
  "(\<exists>u'. DirectString (\<lambda>n. None) (some_text @ replicate 6 0) (length some_text) some_slot = Inr u' \<and> Length u' = 2 \<and> take 2 (mem u') = [0x61, 0]) \<and>
   (\<exists>m'. DirectRaw REG_BINARY (some_text @ replicate 6 0) (length some_text) some_raw = Inr m' \<and> length m' = 11 \<and> drop 10 m' = [7])"
proof -
  have "length [9, 9 :: UCHAR] = MaximumLength some_slot" "sint (10 :: LONG) \<noteq> - (2 ^ 31)" "nat \<bar>sint (10 :: LONG)\<bar> \<le> length some_raw"
    "length some_text < 2 ^ 31" by (simp_all add: some_sizes)
  note fit = direct_values_fit [OF some_sizes(7) this(1) some_sizes(1) this(2-4), of "\<lambda>n. None" REG_BINARY]
  from fit obtain u' where "DirectString (\<lambda>n. None) (some_text @ replicate 6 0) (length some_text) some_slot = Inr u'"
    "Length u' = 2" "take (Length u') (mem u') = take (Length u') [0x61, 0, 0x62, 0]" by (auto simp: some_sizes)
  moreover from fit obtain m' where "DirectRaw REG_BINARY (some_text @ replicate 6 0) (length some_text) some_raw = Inr m'"
    "length m' = 11" "drop 10 m' = [7]" by (auto simp: some_sizes)
  ultimately show ?thesis by simp
qed

text \<open>
  C40.  RtlQueryRegistryValues leaves no handle open when it returns, whatever the table asks for, the routines answer and Windows reports, unless the table has an entry with RTL_QUERY_REGISTRY_DIRECT
  and a routine that names no value.
\<close>

theorem query_closes_keys:
  assumes "winreg_query W view canon cname" "hive_open view s" "\<not> by_handle RelativeTo" "rel_names s RelativeTo = Some rel"
    and "RtlQueryRegistryValues W pool RelativeTo (Path path) tab env s = Inr (status, s')" "\<forall>qp \<in> set tab. \<not> returns_early qp"
  shows "handles (view (win s')) = handles (view (win s))"
  using assms by (rule winreg_query.RtlQueryRegistryValues_handles)

definition end_entry :: "(ULONG \<times> UCHAR list) list QUERY_TABLE" where
  "end_entry = log_entry\<lparr>QueryRoutine := None, QName := None\<rparr>"

definition subkey_entry :: "(ULONG \<times> UCHAR list) list QUERY_TABLE" where
  "subkey_entry = log_entry\<lparr>QueryRoutine := None, Flags := QUERY_SUBKEY, QName := Some (wide ''a'')\<rparr>"

lemma table_runs:
  "status_of (RtlQueryRegistryValues mem_registry (\<lambda>n. None) 0 (Path []) [log_entry, subkey_entry, end_entry] False query_reg) = Some STATUS_SUCCESS"
  by code_simp

lemma early_return_leaks:
  "case RtlQueryRegistryValues mem_registry (\<lambda>n. None) 0 (Path (wide ''a'')) [log_entry\<lparr>Flags := QUERY_DIRECT, QName := None\<rparr>] False query_reg of
     Inl e \<Rightarrow> False
   | Inr (status, s') \<Rightarrow> status = STATUS_INVALID_PARAMETER \<and> handles (mview (win s')) 6 = Some [wide ''A'']"
  by code_simp

theorem query_closes_keys_witness:
  "\<exists>s'. RtlQueryRegistryValues mem_registry (\<lambda>n. None) 0 (Path []) [log_entry, subkey_entry, end_entry] False query_reg = Inr (STATUS_SUCCESS, s') \<and>
     handles (mview (win s')) = [5 \<mapsto> []]"
proof -
  obtain s' where s': "RtlQueryRegistryValues mem_registry (\<lambda>n. None) 0 (Path []) [log_entry, subkey_entry, end_entry] False query_reg = Inr (STATUS_SUCCESS, s')"
    using table_runs by (auto simp: status_of_def split: sum.splits)
  have "\<forall>qp \<in> set [log_entry, subkey_entry, end_entry]. \<not> returns_early qp"
    by (simp add: returns_early_def flag_def log_entry_def subkey_entry_def end_entry_def)
  from query_closes_keys [OF mq.winreg_query_axioms query_reg_ready s' this] s' show ?thesis
    by (simp add: query_reg_def mview_def)
qed

text \<open>
  DdkQueryEnumerateValues without RTL_QUERY_REGISTRY_DELETE returns after it has applied the entry to every value of the key, each once and in the order of the enumeration, up to the first failure;
  a key without values is an error only for an entry that is required.
\<close>

theorem DdkQueryEnumerateValues_each:
  assumes "enumerates W h (win s) ns" "\<not> flag qp QUERY_DELETE"
  shows "DdkQueryEnumerateValues W pool h qp env s =
    (case query_each W pool h qp env ns STATUS_SUCCESS s of
       Inl e \<Rightarrow> Inl e
     | Inr (status, s') \<Rightarrow> Inr (if flag qp QUERY_REQUIRED \<and> ns = [] then STATUS_OBJECT_NAME_NOT_FOUND else status, s'))"
proof -
  have "NT_SUCCESS STATUS_SUCCESS" by (simp add: NT_SUCCESS_def)
  from EnumLoop_visits [OF assms this, of 0 pool env] obtain k where
    loop: "EnumLoop W pool h qp env 0 0 STATUS_SUCCESS s =
      Some (case query_each W pool h qp env ns STATUS_SUCCESS s of Inl e \<Rightarrow> Inl e | Inr (st, s') \<Rightarrow> Inr ((st, of_nat k), s'))"
    "k \<le> length ns" "0 < length ns \<longrightarrow> 0 < k" by auto
  have "k < 2 ^ 32" using assms(1) loop(2) by (simp add: enumerates_def)
  then have "unat (of_nat k :: DWORD) = k" by (simp add: unat_of_nat)
  then have "(of_nat k :: DWORD) = 0 \<longleftrightarrow> ns = []" using loop(2,3) by (cases "ns = []") auto
  with loop(1) show ?thesis
    by (simp add: DdkQueryEnumerateValues_def split: sum.splits prod.splits)
qed

lemma query_reg_enumerates: "enumerates mem_registry 5 (win query_reg) [wide ''V'']"
  by (auto simp: enumerates_def mem_registry_def mem_enum_value_def mem_vals_def mem_fetch_def query_reg_def)

theorem DdkQueryEnumerateValues_each_witness:
  "DdkQueryEnumerateValues mem_registry (\<lambda>n. None) 5 (log_entry\<lparr>QName := None\<rparr>) False query_reg =
     query_each mem_registry (\<lambda>n. None) 5 (log_entry\<lparr>QName := None\<rparr>) False [wide ''V''] STATUS_SUCCESS query_reg"
proof -
  have "\<not> flag (log_entry\<lparr>QName := None\<rparr>) QUERY_DELETE" by (simp add: flag_def log_entry_def)
  from DdkQueryEnumerateValues_each [OF query_reg_enumerates this, of "\<lambda>n. None" False] show ?thesis
    by (simp split: sum.splits prod.splits)
qed

end
