(* ===== verification/Timer.thy ===== *)
theory Timer
  imports DdkBase
begin

text \<open>
  Timers: src/src/timer.cpp.

  A timer is a thread pool timer (\<open>armed\<close>, \<open>clock_period\<close>), an event and a state word.  Each routine is cut into its atomic steps, and the steps of the threads that set and cancel the timer and of
  the callbacks of the thread pool interleave.  The thread pool behaves as documented: an armed timer may start a callback at any time, again and again if it has a period; after it is disarmed no
  more callbacks start, and WaitForThreadpoolTimerCallbacks drops callbacks that have not begun and returns when none is left.  \<open>was_set\<close>, \<open>fired\<close> and \<open>inserted\<close> record what happened: whether the timer has been set and
  not been stopped since, how often it has signalled its event and how often it has queued its DPC since it was set.
\<close>

section \<open>Definitions\<close>

datatype TIMERSTATE = TimerIdle | TimerActive | TimerDone

record TIMER =
  th :: bool
  armed :: bool
  clock_period :: int
  Dpc :: nat
  DueTime :: int
  Period :: int
  tstate :: TIMERSTATE
  notify :: bool
  was_set :: bool
  fired :: nat
  inserted :: nat

text \<open>The points of a callback, and of a thread with its call and the value it will return.\<close>

datatype TCB = CbBegin | CbSwap | CbSignal | CbQueue

datatype TREQ = Cancel | Start int int nat

datatype TPC = Out | Swapped TREQ bool | Disarmed TREQ bool | Stopped TREQ bool | Filled TREQ bool | Marked TREQ bool | Cleared TREQ bool | Returned TREQ bool

text \<open>\<open>ok\<close> tells whether Windows could create the event and the clock.\<close>

definition KeInitializeTimerEx :: "nat \<Rightarrow> bool \<Rightarrow> bool \<Rightarrow> TIMER res" where
  "KeInitializeTimerEx irql ok notification =
     ddkassert (irql \<le> DISPATCH_LEVEL) ''KeGetCurrentIrql() <= DISPATCH_LEVEL''
       (if \<not> ok then Inl (DdkFail ''Unable to initialize Timer'')
        else Inr \<lparr>th = False, armed = False, clock_period = 0, Dpc = 0, DueTime = 0, Period = 0, tstate = TimerIdle, notify = notification,
                  was_set = False, fired = 0, inserted = 0\<rparr>)"

definition KeInitializeTimer :: "nat \<Rightarrow> bool \<Rightarrow> TIMER res" where
  "KeInitializeTimer irql ok = KeInitializeTimerEx irql ok True"

text \<open>The callback: whether it goes on, and the timer.\<close>

definition DdkTimerCallback :: "TCB \<Rightarrow> TIMER \<Rightarrow> TCB option \<times> TIMER" where
  "DdkTimerCallback pc t =
     (case pc of
        CbBegin \<Rightarrow> (Some (if Period t \<noteq> 0 then CbSignal else CbSwap), t)
      | CbSwap \<Rightarrow> if tstate t = TimerActive then (Some CbSignal, t\<lparr>tstate := TimerDone\<rparr>) else (None, t)
      | CbSignal \<Rightarrow> (Some CbQueue, t\<lparr>th := True, fired := fired t + 1\<rparr>)
      | CbQueue \<Rightarrow> (None, if Dpc t \<noteq> 0 then t\<lparr>inserted := inserted t + 1\<rparr> else t))"

text \<open>The three steps that KeCancelTimer and KeSetTimerEx begin with; the last one waits for the callbacks \<open>cbs\<close>.\<close>

definition SwapState :: "TREQ \<Rightarrow> TIMER \<Rightarrow> TPC \<times> TIMER" where
  "SwapState r t = (Swapped r (tstate t = TimerActive), t\<lparr>tstate := TimerIdle\<rparr>)"

definition StopClock :: "TPC \<Rightarrow> TIMER \<Rightarrow> TCB list \<Rightarrow> (TPC \<times> TIMER) option" where
  "StopClock pc t cbs =
     (case pc of
        Swapped r rc \<Rightarrow> Some (Disarmed r rc, t\<lparr>armed := False\<rparr>)
      | Disarmed r rc \<Rightarrow> if cbs = [] then Some (Stopped r rc, t\<lparr>was_set := False\<rparr>) else None
      | _ \<Rightarrow> None)"

definition outside :: "TPC \<Rightarrow> bool" where
  "outside pc \<longleftrightarrow> (case pc of Out \<Rightarrow> True | Returned _ _ \<Rightarrow> True | _ \<Rightarrow> False)"

fun request :: "TPC \<Rightarrow> TREQ option" where
  "request Out = None"
| "request (Swapped r rc) = Some r"
| "request (Disarmed r rc) = Some r"
| "request (Stopped r rc) = Some r"
| "request (Filled r rc) = Some r"
| "request (Marked r rc) = Some r"
| "request (Cleared r rc) = Some r"
| "request (Returned r rc) = None"

definition KeCancelTimer :: "TPC \<Rightarrow> TIMER \<Rightarrow> TCB list \<Rightarrow> (TPC \<times> TIMER) option" where
  "KeCancelTimer pc t cbs =
     (if outside pc then Some (SwapState Cancel t)
      else if request pc \<noteq> Some Cancel then None
      else case pc of
             Stopped r rc \<Rightarrow> Some (Returned r rc, t)
           | _ \<Rightarrow> StopClock pc t cbs)"

definition DdkGetDueTime :: "int \<Rightarrow> int" where
  "DdkGetDueTime Timeout = Timeout"

definition KeSetTimerEx :: "nat \<Rightarrow> int \<Rightarrow> int \<Rightarrow> nat \<Rightarrow> TPC \<Rightarrow> TIMER \<Rightarrow> TCB list \<Rightarrow> (TPC \<times> TIMER) option res" where
  "KeSetTimerEx irql due per dpc pc t cbs =
     (if outside pc then
        ddkassert (per \<le> 2 ^ 31 - 1) ''Period <= MAXLONG''
        (ddkassert (irql \<le> DISPATCH_LEVEL) ''KeGetCurrentIrql() <= DISPATCH_LEVEL'' (Inr (Some (SwapState (Start due per dpc) t))))
      else if request pc \<noteq> Some (Start due per dpc) then Inr None
      else Inr (case pc of
             Stopped r rc \<Rightarrow> Some (Filled r rc, t\<lparr>Dpc := dpc, Period := per, DueTime := DdkGetDueTime due\<rparr>)
           | Filled r rc \<Rightarrow> Some (Marked r rc, t\<lparr>tstate := TimerActive, was_set := True, fired := 0, inserted := 0\<rparr>)
           | Marked r rc \<Rightarrow> Some (Cleared r rc, t\<lparr>th := False\<rparr>)
           | Cleared r rc \<Rightarrow> Some (Returned r rc, t\<lparr>armed := True, clock_period := per\<rparr>)
           | _ \<Rightarrow> StopClock pc t cbs))"

definition KeSetTimer :: "nat \<Rightarrow> int \<Rightarrow> nat \<Rightarrow> TPC \<Rightarrow> TIMER \<Rightarrow> TCB list \<Rightarrow> (TPC \<times> TIMER) option res" where
  "KeSetTimer irql due dpc = KeSetTimerEx irql due 0 dpc"

text \<open>A wait that times out at once: an event of a synchronization timer is reset by a wait that succeeds.\<close>

definition PollTimer :: "TIMER \<Rightarrow> bool \<times> TIMER" where
  "PollTimer t = (th t, if th t \<and> \<not> notify t then t\<lparr>th := False\<rparr> else t)"

definition KeReadStateTimer :: "nat \<Rightarrow> TIMER \<Rightarrow> (bool \<times> TIMER) res" where
  "KeReadStateTimer irql t =
     ddkassert (irql \<le> DISPATCH_LEVEL) ''KeGetCurrentIrql() <= DISPATCH_LEVEL''
       (case PollTimer t of
          (True, t') \<Rightarrow> Inr (True, if \<not> notify t' then t'\<lparr>th := True\<rparr> else t')
        | (False, t') \<Rightarrow> Inr (False, t'))"

type_synonym TMSTATE = "TIMER \<times> TCB list \<times> TPC list"

definition waiting :: "TPC \<Rightarrow> bool" where
  "waiting pc \<longleftrightarrow> (case pc of Disarmed _ _ \<Rightarrow> True | _ \<Rightarrow> False)"

inductive tm_step :: "TMSTATE \<Rightarrow> TMSTATE \<Rightarrow> bool" where
  cancel: "i < length pcs \<Longrightarrow> KeCancelTimer (pcs ! i) t cbs = Some (pc, t') \<Longrightarrow> tm_step (t, cbs, pcs) (t', cbs, pcs[i := pc])"
| set_timer: "i < length pcs \<Longrightarrow> KeSetTimerEx irql due per dpc (pcs ! i) t cbs = Inr (Some (pc, t')) \<Longrightarrow> tm_step (t, cbs, pcs) (t', cbs, pcs[i := pc])"
| expire: "armed t \<Longrightarrow> tm_step (t, cbs, pcs) (t\<lparr>armed := clock_period t \<noteq> 0\<rparr>, cbs @ [CbBegin], pcs)"
| callback_on: "cbs = xs @ cb # ys \<Longrightarrow> DdkTimerCallback cb t = (Some cb', t') \<Longrightarrow> tm_step (t, cbs, pcs) (t', xs @ cb' # ys, pcs)"
| callback_end: "cbs = xs @ cb # ys \<Longrightarrow> DdkTimerCallback cb t = (None, t') \<Longrightarrow> tm_step (t, cbs, pcs) (t', xs @ ys, pcs)"
| dropped: "cbs = xs @ CbBegin # ys \<Longrightarrow> pc \<in> set pcs \<Longrightarrow> waiting pc \<Longrightarrow> tm_step (t, cbs, pcs) (t, xs @ ys, pcs)"
| waited: "PollTimer t = (True, t') \<Longrightarrow> tm_step (t, cbs, pcs) (t', cbs, pcs)"

text \<open>The states that \<open>n\<close> threads lead to.\<close>

inductive tm_reach :: "nat \<Rightarrow> TMSTATE \<Rightarrow> bool" for n where
  start: "KeInitializeTimerEx irql ok notification = Inr t \<Longrightarrow> tm_reach n (t, [], replicate n Out)"
| step: "tm_reach n s \<Longrightarrow> tm_step s s' \<Longrightarrow> tm_reach n s'"

section \<open>The invariant\<close>

text \<open>
  For one thread that sets and cancels the timer, at the point \<open>pc\<close>.  A callback is undecided before it has looked at the state word and late when it has signalled but not yet queued the DPC.
\<close>

definition undecided :: "TCB list \<Rightarrow> int" where
  "undecided cbs = cnt CbBegin cbs + cnt CbSwap cbs"

text \<open>Nothing can happen to the timer.\<close>

definition quiet :: "TIMER \<Rightarrow> TCB list \<Rightarrow> bool" where
  "quiet t cbs \<longleftrightarrow> \<not> armed t \<and> cbs = []"

text \<open>The timer has been set: the DPC is queued once for every signal, the event is signalled only after the timer expired, and a timer without a period expires once.\<close>

definition live :: "TIMER \<Rightarrow> TCB list \<Rightarrow> bool" where
  "live t cbs \<longleftrightarrow>
     clock_period t = Period t \<and> (th t \<longrightarrow> 0 < fired t) \<and>
     (Dpc t \<noteq> 0 \<longrightarrow> int (inserted t) + cnt CbQueue cbs = int (fired t)) \<and>
     (Period t = 0 \<longrightarrow> of_bool (armed t) + length cbs \<le> 1) \<and>
     (Period t \<noteq> 0 \<longrightarrow> cnt CbSwap cbs = 0)"

definition pending_shot :: "TIMER \<Rightarrow> TCB list \<Rightarrow> bool" where
  "pending_shot t cbs \<longleftrightarrow> fired t = 0 \<and> cnt CbSignal cbs = 0 \<and> cnt CbQueue cbs = 0"

definition taken_shot :: "TIMER \<Rightarrow> TCB list \<Rightarrow> bool" where
  "taken_shot t cbs \<longleftrightarrow> int (fired t) + cnt CbSignal cbs = 1 \<and> undecided cbs = 0 \<and> \<not> armed t"

definition tm_inv :: "TIMER \<Rightarrow> TCB list \<Rightarrow> TPC \<Rightarrow> bool" where
  "tm_inv t cbs pc \<longleftrightarrow>
     (case pc of
        Out \<Rightarrow> quiet t cbs \<and> tstate t = TimerIdle \<and> \<not> was_set t
      | Returned Cancel rc \<Rightarrow> quiet t cbs \<and> tstate t = TimerIdle \<and> \<not> was_set t
      | Returned (Start due per dpc) rc \<Rightarrow>
          was_set t \<and> live t cbs \<and>
          (if Period t = 0 then tstate t = TimerActive \<and> pending_shot t cbs \<or> tstate t = TimerDone \<and> taken_shot t cbs else tstate t = TimerActive)
      | Swapped r rc \<Rightarrow> tstate t = TimerIdle \<and>
          (if was_set t then live t cbs \<and> (if Period t = 0 then (if rc then pending_shot t cbs else taken_shot t cbs) else rc)
           else quiet t cbs \<and> \<not> rc)
      | Disarmed r rc \<Rightarrow> \<not> armed t \<and> tstate t = TimerIdle \<and>
          (if was_set t then live t cbs \<and> (if Period t = 0 then (if rc then pending_shot t cbs else taken_shot t cbs) else rc)
           else quiet t cbs \<and> \<not> rc)
      | Stopped r rc \<Rightarrow> quiet t cbs \<and> tstate t = TimerIdle \<and> \<not> was_set t
      | Filled r rc \<Rightarrow> quiet t cbs \<and> tstate t = TimerIdle \<and> \<not> was_set t \<and> (\<exists>due per dpc. r = Start due per dpc \<and> Period t = per)
      | Marked r rc \<Rightarrow> quiet t cbs \<and> tstate t = TimerActive \<and> was_set t \<and> fired t = 0 \<and> inserted t = 0 \<and> (\<exists>due per dpc. r = Start due per dpc \<and> Period t = per)
      | Cleared r rc \<Rightarrow> quiet t cbs \<and> tstate t = TimerActive \<and> was_set t \<and> fired t = 0 \<and> inserted t = 0 \<and> \<not> th t \<and>
          (\<exists>due per dpc. r = Start due per dpc \<and> Period t = per))"

section \<open>Lemmas\<close>

lemma cnt_simps [simp]: "cnt c [] = 0" "cnt c (x # xs) = of_bool (x = c) + cnt c xs" "cnt c (xs @ ys) = cnt c xs + cnt c ys"
  by (simp_all add: cnt_def)

lemmas tm_defs = tm_inv_def quiet_def live_def pending_shot_def taken_shot_def undecided_def

lemma swap_inv: "tm_inv t cbs pc \<Longrightarrow> outside pc \<Longrightarrow> SwapState r t = (pc', t') \<Longrightarrow> tm_inv t' cbs pc'"
proof (cases pc)
  case (Returned r' rc)
  then show "tm_inv t cbs pc \<Longrightarrow> outside pc \<Longrightarrow> SwapState r t = (pc', t') \<Longrightarrow> tm_inv t' cbs pc'"
    by (cases r'; cases "Period t = 0") (auto simp: SwapState_def tm_defs)
qed (auto simp: SwapState_def outside_def tm_defs)

lemma stop_inv: "tm_inv t cbs pc \<Longrightarrow> StopClock pc t cbs = Some (pc', t') \<Longrightarrow> tm_inv t' cbs pc'"
proof (cases pc)
  case (Swapped r rc)
  then show "tm_inv t cbs pc \<Longrightarrow> StopClock pc t cbs = Some (pc', t') \<Longrightarrow> tm_inv t' cbs pc'"
    by (cases "was_set t"; cases "Period t = 0"; cases rc; cases "armed t") (auto simp: StopClock_def tm_defs)
qed (auto simp: StopClock_def tm_inv_def quiet_def split: if_splits)

lemma cancel_inv:
  assumes "tm_inv t cbs pc" "KeCancelTimer pc t cbs = Some (pc', t')"
  shows "tm_inv t' cbs pc'"
proof (cases "outside pc")
  case True
  with assms show ?thesis by (intro swap_inv [OF assms(1) True, of Cancel]) (simp add: KeCancelTimer_def)
next
  case out: False
  show ?thesis
  proof (cases "\<exists>rc. pc = Stopped Cancel rc")
    case True
    with assms out show ?thesis by (auto simp: KeCancelTimer_def tm_inv_def)
  next
    case False
    with assms(2) out have "StopClock pc t cbs = Some (pc', t')" by (auto simp: KeCancelTimer_def split: TPC.splits if_splits)
    with assms(1) show ?thesis by (rule stop_inv)
  qed
qed

lemma set_inv:
  assumes "tm_inv t cbs pc" "KeSetTimerEx irql due per dpc pc t cbs = Inr (Some (pc', t'))"
  shows "tm_inv t' cbs pc'"
proof (cases pc)
  case (Stopped r rc)
  with assms show ?thesis by (auto simp: KeSetTimerEx_def tm_inv_def quiet_def outside_def split: if_splits)
next
  case (Filled r rc)
  with assms show ?thesis by (auto simp: KeSetTimerEx_def tm_inv_def quiet_def outside_def split: if_splits)
next
  case (Marked r rc)
  with assms show ?thesis by (auto simp: KeSetTimerEx_def tm_inv_def quiet_def outside_def split: if_splits)
next
  case (Cleared r rc)
  with assms show ?thesis by (cases "Period t = 0") (auto simp: KeSetTimerEx_def tm_defs outside_def split: if_splits)
next
  case (Swapped r rc)
  with assms show ?thesis by (intro stop_inv [OF assms(1)]) (auto simp: KeSetTimerEx_def outside_def split: if_splits)
next
  case (Disarmed r rc)
  with assms show ?thesis by (intro stop_inv [OF assms(1)]) (auto simp: KeSetTimerEx_def outside_def split: if_splits)
qed (use assms swap_inv [OF assms(1), of "Start due per dpc" pc' t'] in \<open>simp_all add: KeSetTimerEx_def outside_def ddkassert_eq_Inr_iff\<close>)

text \<open>
  The steps of the thread pool leave the point of the thread alone: it is enough that they keep \<open>live\<close> and what is known of the shot.
\<close>

lemma pool_inv:
  assumes "tm_inv t cbs pc" "\<not> quiet t cbs"
    and "was_set t' = was_set t" "Period t' = Period t" "armed t' \<Longrightarrow> armed t" "live t cbs \<Longrightarrow> live t' cbs'"
    and "tstate t' = tstate t \<and> (Period t = 0 \<longrightarrow> live t cbs \<longrightarrow> (pending_shot t cbs \<longrightarrow> pending_shot t' cbs') \<and> (taken_shot t cbs \<longrightarrow> taken_shot t' cbs')) \<or>
      Period t = 0 \<and> tstate t = TimerActive \<and> tstate t' = TimerDone \<and> (live t cbs \<longrightarrow> pending_shot t cbs \<longrightarrow> taken_shot t' cbs')"
  shows "tm_inv t' cbs' pc"
proof (cases pc)
  case (Returned r rc)
  with assms show ?thesis by (cases r; cases "Period t = 0") (auto simp: tm_inv_def)
next
  case (Swapped r rc)
  with assms show ?thesis by (cases "was_set t"; cases "Period t = 0") (auto simp: tm_inv_def)
next
  case (Disarmed r rc)
  with assms show ?thesis by (cases "was_set t"; cases "Period t = 0") (auto simp: tm_inv_def)
qed (use assms in \<open>auto simp: tm_inv_def\<close>)

lemma expire_inv:
  assumes "tm_inv t cbs pc" "armed t"
  shows "tm_inv (t\<lparr>armed := clock_period t \<noteq> 0\<rparr>) (cbs @ [CbBegin]) pc"
  using assms by (intro pool_inv [OF assms(1)]) (auto simp: quiet_def live_def pending_shot_def taken_shot_def)

lemma inv_live: "tm_inv t cbs pc \<Longrightarrow> cbs \<noteq> [] \<Longrightarrow> live t cbs"
  by (auto simp: tm_inv_def quiet_def split: TPC.splits TREQ.splits if_splits)

lemma callback_inv:
  assumes "tm_inv t (xs @ cb # ys) pc" "DdkTimerCallback cb t = (r, t')"
  shows "tm_inv t' (xs @ (case r of None \<Rightarrow> [] | Some cb' \<Rightarrow> [cb']) @ ys) pc"
proof -
  have one: "xs = [] \<and> ys = [] \<and> \<not> armed t" if "live t (xs @ cb # ys)" "Period t = 0"
    using that by (cases "armed t") (auto simp: live_def)
  have "cb \<noteq> CbSwap" if "Period t \<noteq> 0"
    using inv_live [OF assms(1)] that cnt_nonneg [of CbSwap xs] cnt_nonneg [of CbSwap ys] by (auto simp: live_def)
  note swap = this
  note nonneg = cnt_nonneg [of CbBegin xs] cnt_nonneg [of CbBegin ys] cnt_nonneg [of CbSwap xs] cnt_nonneg [of CbSwap ys]
  have nq: "\<not> quiet t (xs @ cb # ys)" by (simp add: quiet_def)
  show ?thesis
  proof (cases cb)
    case CbBegin
    show ?thesis
      using assms(2) CbBegin nonneg
      by (intro pool_inv [OF assms(1) nq]) (auto simp: DdkTimerCallback_def live_def pending_shot_def taken_shot_def undecided_def)
  next
    case CbSwap
    with swap have p: "Period t = 0" by auto
    from one [OF inv_live [OF assms(1)] this] have e: "xs = []" "ys = []" "\<not> armed t" by simp_all
    from nq have nq: "\<not> quiet t [CbSwap]" by (simp add: quiet_def)
    have inv: "tm_inv t [CbSwap] pc" using assms(1) CbSwap e by simp
    show ?thesis
    proof (cases "tstate t = TimerActive")
      case True
      then have "r = Some CbSignal" "t' = t\<lparr>tstate := TimerDone\<rparr>" using assms(2) CbSwap by (simp_all add: DdkTimerCallback_def)
      moreover have "tm_inv (t\<lparr>tstate := TimerDone\<rparr>) [CbSignal] pc"
        by (rule pool_inv [OF inv nq]) (use p e True in \<open>simp_all add: live_def pending_shot_def taken_shot_def undecided_def\<close>)
      ultimately show ?thesis using e by simp
    next
      case False
      then have "r = None" "t' = t" using assms(2) CbSwap by (simp_all add: DdkTimerCallback_def)
      moreover have "tm_inv t [] pc"
        by (rule pool_inv [OF inv nq]) (use p e in \<open>simp_all add: live_def pending_shot_def taken_shot_def undecided_def\<close>)
      ultimately show ?thesis using e by simp
    qed
  next
    case CbSignal
    then have t': "r = Some CbQueue" "t' = t\<lparr>th := True, fired := fired t + 1\<rparr>" using assms(2) by (simp_all add: DdkTimerCallback_def)
    have "live t' (xs @ CbQueue # ys)" if "live t (xs @ cb # ys)" using that CbSignal t' by (simp add: live_def)
    moreover have "\<not> pending_shot t (xs @ cb # ys)"
      using CbSignal cnt_nonneg [of CbSignal xs] cnt_nonneg [of CbSignal ys] by (simp add: pending_shot_def)
    moreover have "taken_shot t' (xs @ CbQueue # ys)" if "taken_shot t (xs @ cb # ys)" using that CbSignal t' by (simp add: taken_shot_def undecided_def)
    ultimately have "tm_inv t' (xs @ CbQueue # ys) pc" using t' by (intro pool_inv [OF assms(1) nq]) simp_all
    with t' show ?thesis by simp
  next
    case CbQueue
    then have t': "r = None" "t' = t \<and> Dpc t = 0 \<or> t' = t\<lparr>inserted := inserted t + 1\<rparr> \<and> Dpc t \<noteq> 0"
      using assms(2) by (auto simp: DdkTimerCallback_def split: if_splits)
    have "live t' (xs @ ys)" if "live t (xs @ cb # ys)" using that CbQueue t'(2) by (auto simp: live_def)
    moreover have "\<not> pending_shot t (xs @ cb # ys)"
      using CbQueue cnt_nonneg [of CbQueue xs] cnt_nonneg [of CbQueue ys] by (simp add: pending_shot_def)
    moreover have "taken_shot t' (xs @ ys)" if "taken_shot t (xs @ cb # ys)" using that CbQueue t'(2) by (auto simp: taken_shot_def undecided_def)
    ultimately have "tm_inv t' (xs @ ys) pc" using t'(2) by (intro pool_inv [OF assms(1) nq]) auto
    with t' show ?thesis by simp
  qed
qed

lemma dropped_inv:
  assumes "tm_inv t (xs @ CbBegin # ys) pc" 
  shows "tm_inv t (xs @ ys) pc"
proof (rule pool_inv [OF assms(1)])
  show "live t (xs @ CbBegin # ys) \<Longrightarrow> live t (xs @ ys)" by (auto simp: live_def)
  have "\<not> taken_shot t (xs @ CbBegin # ys)"
    using cnt_nonneg [of CbBegin xs] cnt_nonneg [of CbBegin ys] cnt_nonneg [of CbSwap xs] cnt_nonneg [of CbSwap ys]
    by (simp add: taken_shot_def undecided_def)
  then show "tstate t = tstate t \<and> (Period t = 0 \<longrightarrow> live t (xs @ CbBegin # ys) \<longrightarrow>
      (pending_shot t (xs @ CbBegin # ys) \<longrightarrow> pending_shot t (xs @ ys)) \<and> (taken_shot t (xs @ CbBegin # ys) \<longrightarrow> taken_shot t (xs @ ys))) \<or>
    Period t = 0 \<and> tstate t = TimerActive \<and> tstate t = TimerDone \<and> (live t (xs @ CbBegin # ys) \<longrightarrow> pending_shot t (xs @ CbBegin # ys) \<longrightarrow> taken_shot t (xs @ ys))"
    by (simp add: pending_shot_def)
qed (simp_all add: quiet_def)

lemma waited_inv:
  assumes "tm_inv t cbs pc" "PollTimer t = (True, t')"
  shows "tm_inv t' cbs pc"
proof -
  have t': "t' = t \<or> t' = t\<lparr>th := False\<rparr>" using assms(2) by (auto simp: PollTimer_def split: if_splits)
  have keep: "live t cbs \<Longrightarrow> live (t\<lparr>th := False\<rparr>) cbs" "pending_shot t cbs = pending_shot (t\<lparr>th := False\<rparr>) cbs"
    "taken_shot t cbs = taken_shot (t\<lparr>th := False\<rparr>) cbs" "quiet t cbs = quiet (t\<lparr>th := False\<rparr>) cbs"
    by (simp_all add: live_def pending_shot_def taken_shot_def quiet_def)
  have "tm_inv (t\<lparr>th := False\<rparr>) cbs pc"
  proof (cases pc)
    case (Returned r rc)
    with assms(1) keep show ?thesis by (cases r) (auto simp: tm_inv_def)
  qed (use assms(1) keep in \<open>simp_all add: tm_inv_def split: if_splits\<close>)
  with t' assms(1) show ?thesis by blast
qed

lemma tm_step_inv:
  assumes "tm_step (t, cbs, [pc]) s'" "tm_inv t cbs pc"
  shows "\<exists>t' cbs' pc'. s' = (t', cbs', [pc']) \<and> tm_inv t' cbs' pc'"
  using assms(1)
proof cases
  case (cancel i pc' t')
  with cancel_inv assms(2) show ?thesis by auto
next
  case (set_timer i irql due per dpc pc' t')
  with set_inv assms(2) show ?thesis by auto
next
  case expire
  with expire_inv assms(2) show ?thesis by auto
next
  case (callback_on xs cb ys cb' t')
  with callback_inv [of t xs cb ys pc "Some cb'" t'] assms(2) show ?thesis by auto
next
  case (callback_end xs cb ys t')
  with callback_inv [of t xs cb ys pc None t'] assms(2) show ?thesis by auto
next
  case (dropped xs ys)
  with dropped_inv assms(2) show ?thesis by auto
next
  case (waited t')
  with waited_inv assms(2) show ?thesis by auto
qed

lemma tm_reach_inv: "tm_reach 1 s \<Longrightarrow> \<exists>t cbs pc. s = (t, cbs, [pc]) \<and> tm_inv t cbs pc"
proof (induction rule: tm_reach.induct)
  case (start irql ok notification t)
  then have "tm_inv t [] Out" by (auto simp: KeInitializeTimerEx_def ddkassert_eq_Inr_iff tm_defs split: if_splits)
  then show ?case by simp
next
  case (step s s')
  then show ?case using tm_step_inv by blast
qed

subsection \<open>Runs\<close>

text \<open>Steps named by labels and carried out, to evaluate runs.\<close>

datatype TMLABEL = DoCancel nat | DoSet nat int int nat | DoExpire | DoCallback nat

definition at_thread :: "nat \<Rightarrow> TCB list \<Rightarrow> TPC list \<Rightarrow> (TPC \<times> TIMER) option \<Rightarrow> TMSTATE option" where
  "at_thread i cbs pcs r = map_option (\<lambda>(pc, t). (t, cbs, pcs[i := pc])) r"

fun tm_exec :: "TMLABEL \<Rightarrow> TMSTATE \<Rightarrow> TMSTATE option" where
  "tm_exec (DoCancel i) (t, cbs, pcs) = (if i < length pcs then at_thread i cbs pcs (KeCancelTimer (pcs ! i) t cbs) else None)"
| "tm_exec (DoSet i due per dpc) (t, cbs, pcs) =
     (if i < length pcs
      then at_thread i cbs pcs (case KeSetTimerEx 0 due per dpc (pcs ! i) t cbs of Inl e \<Rightarrow> None | Inr x \<Rightarrow> x) else None)"
| "tm_exec DoExpire (t, cbs, pcs) = (if armed t then Some (t\<lparr>armed := clock_period t \<noteq> 0\<rparr>, cbs @ [CbBegin], pcs) else None)"
| "tm_exec (DoCallback i) (t, cbs, pcs) =
     (if i < length cbs
      then Some (case DdkTimerCallback (cbs ! i) t of
                   (None, t') \<Rightarrow> (t', take i cbs @ drop (Suc i) cbs, pcs)
                 | (Some cb, t') \<Rightarrow> (t', take i cbs @ cb # drop (Suc i) cbs, pcs))
      else None)"

fun tm_run :: "TMLABEL list \<Rightarrow> TMSTATE \<Rightarrow> TMSTATE option" where
  "tm_run [] s = Some s"
| "tm_run (l # ls) s = (case tm_exec l s of None \<Rightarrow> None | Some s' \<Rightarrow> tm_run ls s')"

lemma at_thread_eq: "at_thread i cbs pcs r = Some s' \<longleftrightarrow> (\<exists>pc t. r = Some (pc, t) \<and> s' = (t, cbs, pcs[i := pc]))"
  by (auto simp: at_thread_def split: if_splits)

lemma tm_exec_step: "tm_exec l s = Some s' \<Longrightarrow> tm_step s s'"
proof (induction l s rule: tm_exec.induct)
  case (4 i t cbs pcs)
  then have i: "i < length cbs" by (auto split: if_splits)
  then have split: "cbs = take i cbs @ cbs ! i # drop (Suc i) cbs" by (simp add: id_take_nth_drop [symmetric])
  from 4 i show ?case
    by (auto split: prod.splits option.splits if_splits intro: tm_step.callback_on [OF split] tm_step.callback_end [OF split])
qed (auto simp: at_thread_eq split: if_splits sum.splits option.splits intro: tm_step.intros)

lemma tm_run_reach: "tm_run ls s = Some s' \<Longrightarrow> tm_reach n s \<Longrightarrow> tm_reach n s'"
proof (induction ls arbitrary: s)
  case (Cons l ls)
  then obtain s1 where s1: "tm_exec l s = Some s1" "tm_run ls s1 = Some s'" by (auto split: option.splits)
  have "tm_reach n s1" using Cons.prems(2) tm_exec_step [OF s1(1)] by (rule tm_reach.step)
  with Cons.IH s1(2) show ?case by blast
qed simp

definition new_timer :: TIMER where
  "new_timer = \<lparr>th = False, armed = False, clock_period = 0, Dpc = 0, DueTime = 0, Period = 0, tstate = TimerIdle, notify = True, was_set = False, fired = 0, inserted = 0\<rparr>"

lemma new_timer_reach: "tm_reach n (new_timer, [], replicate n Out)"
  by (rule tm_reach.start [of 0 True True]) (simp add: KeInitializeTimerEx_def new_timer_def)

section \<open>Theorems\<close>


definition set_labels :: "TMLABEL list" where
  "set_labels = replicate 7 (DoSet 0 (- 5) 0 7)"

definition expiry_labels :: "TMLABEL list" where
  "expiry_labels = DoExpire # replicate 4 (DoCallback 0)"

definition expired_timer :: TIMER where
  "expired_timer = new_timer\<lparr>th := True, Dpc := 7, DueTime := - 5, was_set := True, fired := 1, inserted := 1\<rparr>"

lemma expired_run:
  "tm_run (set_labels @ expiry_labels) (new_timer, [], [Out]) = Some (expired_timer\<lparr>tstate := TimerDone\<rparr>, [], [Returned (Start (- 5) 0 7) False])"
  "tm_run (set_labels @ expiry_labels @ [DoCancel 0, DoCancel 0]) (new_timer, [], [Out]) = Some (expired_timer, [], [Disarmed Cancel False])"
  by code_simp+


text \<open>
  A timer that has been set by the one thread that controls it is signalled only after it expired, queues its DPC once per expiry, and expires at most once unless it has a period; reading its state
  does not change it.
\<close>

theorem timer_expires:
  assumes "tm_reach 1 (t, cbs, [Returned (Start due per dpc) rc])"
  shows "(th t \<longrightarrow> 0 < fired t) \<and> (Dpc t \<noteq> 0 \<longrightarrow> int (inserted t) + cnt CbQueue cbs = int (fired t)) \<and>
    (Period t = 0 \<longrightarrow> fired t \<le> 1 \<and> (fired t = 1 \<longrightarrow> \<not> armed t \<and> tstate t = TimerDone)) \<and>
    (irql \<le> DISPATCH_LEVEL \<longrightarrow> KeReadStateTimer irql t = Inr (th t, t))"
proof -
  have "tm_inv t cbs (Returned (Start due per dpc) rc)" using assms tm_reach_inv by fastforce
  moreover have "KeReadStateTimer irql t = Inr (th t, t)" if "irql \<le> DISPATCH_LEVEL"
    using that by (cases "th t"; cases "notify t") (simp_all add: KeReadStateTimer_def PollTimer_def)
  ultimately show ?thesis using cnt_nonneg [of CbSignal cbs]
    by (cases "Period t = 0") (auto simp: tm_inv_def live_def pending_shot_def taken_shot_def)
qed

theorem timer_expires_witness:
  "\<exists>t. tm_reach 1 (t, [], [Returned (Start (- 5) 0 7) False]) \<and> th t \<and> fired t = 1 \<and> inserted t = 1 \<and> KeReadStateTimer 0 t = Inr (True, t)"
proof -
  have r: "tm_reach 1 (expired_timer\<lparr>tstate := TimerDone\<rparr>, [], [Returned (Start (- 5) 0 7) False])"
    using tm_run_reach [OF expired_run(1), of 1] new_timer_reach [of 1] by simp
  from timer_expires [OF this, of 0] r show ?thesis
    by (intro exI [of _ "expired_timer\<lparr>tstate := TimerDone\<rparr>"]) (simp add: expired_timer_def)
qed

text \<open>
  Two threads are not enough apart: a cancellation that finds the timer active between the mark and the arming of a concurrent KeSetTimerEx returns TRUE, and the periodic timer stays armed.
\<close>

lemma cancel_set_race:
  "\<exists>t. tm_reach 2 (t, [], [Returned (Start (- 5) 10 7) False, Returned Cancel True]) \<and> armed t \<and> clock_period t = 10"
proof -
  have "map_option (\<lambda>(t, cbs, pcs). (armed t, clock_period t, cbs, pcs))
      (tm_run (replicate 5 (DoSet 0 (- 5) 10 7) @ replicate 4 (DoCancel 1) @ replicate 2 (DoSet 0 (- 5) 10 7))
        (new_timer, [], [Out, Out])) = Some (True, 10, [], [Returned (Start (- 5) 10 7) False, Returned Cancel True])"
    by code_simp
  then obtain t where "tm_run (replicate 5 (DoSet 0 (- 5) 10 7) @ replicate 4 (DoCancel 1) @ replicate 2 (DoSet 0 (- 5) 10 7))
        (new_timer, [], [Out, Out]) = Some (t, [], [Returned (Start (- 5) 10 7) False, Returned Cancel True])" "armed t" "clock_period t = 10" by auto
  moreover have "tm_reach 2 (new_timer, [], [Out, Out])" using new_timer_reach [of 2] by (simp add: numeral_eq_Suc)
  ultimately show ?thesis using tm_run_reach by blast
qed

end
