(* ===== verification/Threads.thy ===== *)
theory Threads
  imports DdkBase
begin

text \<open>
  Threads: src/src/thread.cpp.

  Every thread of Windows that calls the library gets a thread object, found through a variable of the thread (\<open>cur\<close>) and kept in a list.  Threads of Windows are known by their ids, objects by their
  addresses, which also stand for their handles; 0 is a null pointer.  A system thread is created with an object of its own (\<open>starting\<close> are those that have not begun to run), which replaces the one the
  new thread got when it was attached.  \<open>held\<close> counts the references that the driver holds, through handles.  The list is changed under a lock, so each routine is one step.
\<close>

section \<open>Definitions\<close>

record THREAD =
  refcount :: int
  Start :: "nat \<times> nat"
  process :: nat
  Priority :: int
  BasePriority :: int
  ThreadId :: nat

record THREADS =
  threads :: "nat \<rightharpoonup> THREAD"
  processes :: "nat \<rightharpoonup> int"
  threadlist :: "nat list"
  cur :: "nat \<Rightarrow> nat"
  curproc :: "nat \<Rightarrow> nat"
  next_thread :: nat
  room :: nat
  irqls :: "nat \<Rightarrow> nat"
  intercepts :: "nat list"
  starting :: "nat list"
  held :: "nat \<Rightarrow> int"

abbreviation (input) SystemProcess :: nat where "SystemProcess \<equiv> 2"
abbreviation (input) DefaultThreadPriority :: int where "DefaultThreadPriority \<equiv> 8"
abbreviation (input) DefaultBaseThreadPriority :: int where "DefaultBaseThreadPriority \<equiv> 16"

definition thread_at :: "nat \<Rightarrow> (THREAD, THREADS) st" where
  "thread_at a s = (case threads s a of None \<Rightarrow> Inl Fault | Some th \<Rightarrow> Inr (th, s))"

definition upd_thread :: "nat \<Rightarrow> (THREAD \<Rightarrow> THREAD) \<Rightarrow> (unit, THREADS) st" where
  "upd_thread a f = bindS (thread_at a) (\<lambda>th. modify (\<lambda>s. s\<lparr>threads := (threads s)(a \<mapsto> f th)\<rparr>))"

text \<open>The loop of \<open>DdkInsertThread\<close> over the list.\<close>

fun CheckIds :: "nat \<Rightarrow> nat list \<Rightarrow> (unit, THREADS) st" where
  "CheckIds tid [] = ret ()"
| "CheckIds tid (a # rest) =
     bindS (thread_at a) (\<lambda>th. if ThreadId th = tid then fail (DdkFail ''Thread already in list'') else CheckIds tid rest)"

definition DdkInsertThread :: "nat \<Rightarrow> (unit, THREADS) st" where
  "DdkInsertThread tid =
     bindS (gets (\<lambda>s. cur s tid)) (\<lambda>a.
     bindS (upd_thread a (\<lambda>th. th\<lparr>ThreadId := tid\<rparr>)) (\<lambda>_.
     bindS (gets threadlist) (\<lambda>l.
     bindS (CheckIds tid l) (\<lambda>_.
     modify (\<lambda>s. s\<lparr>threadlist := a # threadlist s\<rparr>)))))"

text \<open>DdkAllocObject for a thread; \<open>opt\<close> as there.\<close>

definition alloc_thread :: "bool \<Rightarrow> THREAD \<Rightarrow> (nat option, THREADS) st" where
  "alloc_thread opt th s =
     (if room s = 0 then if opt then Inr (None, s) else Inl (DdkFail ''Unable to allocate object'')
      else Inr (Some (next_thread s),
             s\<lparr>threads := (threads s)(next_thread s \<mapsto> th), next_thread := next_thread s + 16, room := room s - 1\<rparr>))"

definition init_process :: "nat \<Rightarrow> THREADS \<Rightarrow> THREADS" where
  "init_process tid s =
     s\<lparr>processes := (if processes s SystemProcess = None then (processes s)(SystemProcess \<mapsto> DefaultBaseThreadPriority) else processes s),
       curproc := (if curproc s tid = 0 then (curproc s)(tid := SystemProcess) else curproc s)\<rparr>"

text \<open>\<open>dup\<close> tells whether the handle of the thread could be duplicated.\<close>

definition DdkThreadInit :: "bool \<Rightarrow> nat \<Rightarrow> (unit, THREADS) st" where
  "DdkThreadInit dup tid =
     bindS (modify (init_process tid)) (\<lambda>_.
     bindS (gets (\<lambda>s. cur s tid)) (\<lambda>c.
     if c \<noteq> 0 then ret ()
     else
       bindS (alloc_thread False \<lparr>refcount = 1, Start = (0, 0), process = SystemProcess, Priority = DefaultThreadPriority,
         BasePriority = DefaultBaseThreadPriority, ThreadId = 0\<rparr>) (\<lambda>p.
       bindS (modify (\<lambda>s. s\<lparr>cur := (cur s)(tid := the p)\<rparr>)) (\<lambda>_.
       if \<not> dup then fail (DdkFail ''Failed to duplicate thread handle'') else DdkInsertThread tid))))"

text \<open>\<open>DdkDereferenceObject\<close> for a thread: the object is freed with its last reference.\<close>

definition drop_thread :: "nat \<Rightarrow> (unit, THREADS) st" where
  "drop_thread a =
     bindS (thread_at a) (\<lambda>th.
     modify (\<lambda>s. s\<lparr>threads := (if refcount th - 1 = 0 then (threads s)(a := None) else (threads s)(a \<mapsto> th\<lparr>refcount := refcount th - 1\<rparr>))\<rparr>))"

definition DdkThreadDeinit :: "nat \<Rightarrow> (unit, THREADS) st" where
  "DdkThreadDeinit tid =
     bindS (gets (\<lambda>s. cur s tid)) (\<lambda>a.
     if a = 0 then ret ()
     else
       bindS (modify (\<lambda>s. s\<lparr>intercepts := filter (\<lambda>x. x \<noteq> a) (intercepts s)\<rparr>)) (\<lambda>_.
       bindS (modify (\<lambda>s. s\<lparr>threadlist := remove1 a (threadlist s)\<rparr>)) (\<lambda>_.
       bindS (drop_thread a) (\<lambda>_.
       modify (\<lambda>s. s\<lparr>cur := (cur s)(tid := 0)\<rparr>)))))"

text \<open>
  The function is called with the handle of each thread until it fails: the pseudo handle \<open>None\<close> for the thread that calls, the handle of its object for any other.  It may change a state of its own.
\<close>

fun InvokeLoop :: "nat \<Rightarrow> (nat option \<Rightarrow> 'x \<Rightarrow> nat \<times> 'x) \<Rightarrow> nat list \<Rightarrow> 'x \<Rightarrow> nat \<times> 'x" where
  "InvokeLoop self f [] x = (0, x)"
| "InvokeLoop self f (a # rest) x =
     (case f (if a = self then None else Some a) x of (rc, x') \<Rightarrow> if rc \<noteq> 0 then (rc, x') else InvokeLoop self f rest x')"

definition DdkInvokeForAllThreads :: "nat \<Rightarrow> (nat option \<Rightarrow> 'x \<Rightarrow> nat \<times> 'x) \<Rightarrow> 'x \<Rightarrow> (nat \<times> 'x, THREADS) st" where
  "DdkInvokeForAllThreads tid f x = gets (\<lambda>s. InvokeLoop (cur s tid) f (threadlist s) x)"

definition DdkGetCurrentThread :: "bool \<Rightarrow> nat \<Rightarrow> (nat, THREADS) st" where
  "DdkGetCurrentThread dup tid =
     bindS (gets (\<lambda>s. cur s tid)) (\<lambda>c. bindS (if c = 0 then DdkThreadInit dup tid else ret ()) (\<lambda>_. gets (\<lambda>s. cur s tid)))"

definition KeGetCurrentThread :: "bool \<Rightarrow> nat \<Rightarrow> (nat, THREADS) st" where
  "KeGetCurrentThread dup tid = bindS (DdkThreadInit dup tid) (\<lambda>_. gets (\<lambda>s. cur s tid))"

definition IoGetCurrentProcess :: "bool \<Rightarrow> nat \<Rightarrow> (nat, THREADS) st" where
  "IoGetCurrentProcess dup tid = bindS (DdkThreadInit dup tid) (\<lambda>_. gets (\<lambda>s. curproc s tid))"

definition GetProcess :: "nat \<Rightarrow> (nat, THREADS) st" where
  "GetProcess p = bindS (gets processes) (\<lambda>ps. if p = 0 \<or> ps p = None then fail (DdkFail ''Invalid process specified'') else ret p)"

definition GetThread :: "nat \<Rightarrow> (nat, THREADS) st" where
  "GetThread a = bindS (gets threads) (\<lambda>ts. if a = 0 \<or> ts a = None then fail (DdkFail ''Invalid thread specified'') else ret a)"

definition PsGetCurrentProcessId :: "bool \<Rightarrow> nat \<Rightarrow> (nat, THREADS) st" where
  "PsGetCurrentProcessId dup tid = bindS (DdkThreadInit dup tid) (\<lambda>_. gets (\<lambda>s. curproc s tid))"

definition PsGetProcessId :: "bool \<Rightarrow> nat \<Rightarrow> nat \<Rightarrow> (nat, THREADS) st" where
  "PsGetProcessId dup tid Process = bindS (DdkThreadInit dup tid) (\<lambda>_. GetProcess Process)"

definition PsGetCurrentThread :: "bool \<Rightarrow> nat \<Rightarrow> (nat, THREADS) st" where
  "PsGetCurrentThread dup tid = bindS (DdkThreadInit dup tid) (\<lambda>_. gets (\<lambda>s. cur s tid))"

definition PsGetCurrentThreadId :: "bool \<Rightarrow> nat \<Rightarrow> (nat, THREADS) st" where
  "PsGetCurrentThreadId dup tid = bindS (DdkThreadInit dup tid) (\<lambda>_. gets (\<lambda>s. cur s tid))"

definition at_passive :: "nat \<Rightarrow> (unit, THREADS) st" where
  "at_passive tid = assertS (\<lambda>s. irqls s tid = PASSIVE_LEVEL) ''KeGetCurrentIrql() == PASSIVE_LEVEL''"

definition PsCreateSystemThread :: "bool \<Rightarrow> bool \<Rightarrow> nat \<Rightarrow> nat \<Rightarrow> nat \<times> nat \<Rightarrow> (NTSTATUS \<times> nat, THREADS) st" where
  "PsCreateSystemThread dup started tid ProcessHandle start =
     bindS (DdkThreadInit dup tid) (\<lambda>_.
     bindS (at_passive tid) (\<lambda>_.
     bindS (if ProcessHandle = 0 then ret SystemProcess else GetProcess ProcessHandle) (\<lambda>pProcess.
     bindS (alloc_thread True \<lparr>refcount = 1, Start = start, process = pProcess, Priority = DefaultThreadPriority,
       BasePriority = DefaultBaseThreadPriority, ThreadId = 0\<rparr>) (\<lambda>p.
     case p of
       None \<Rightarrow> ret (STATUS_INSUFFICIENT_RESOURCES, 0)
     | Some a \<Rightarrow>
         bindS (upd_thread a (\<lambda>th. th\<lparr>refcount := refcount th + 1\<rparr>)) (\<lambda>_.
         if \<not> started then bindS (modify (\<lambda>s. s\<lparr>threads := (threads s)(a := None)\<rparr>)) (\<lambda>_. ret (STATUS_INSUFFICIENT_RESOURCES, 0))
         else bindS (modify (\<lambda>s. s\<lparr>starting := a # starting s, held := (held s)(a := 1)\<rparr>)) (\<lambda>_. ret (STATUS_SUCCESS, a)))))))"

text \<open>The beginning of a new thread, up to the call of the routine it was created for.\<close>

definition StartThread :: "bool \<Rightarrow> nat \<Rightarrow> nat \<Rightarrow> (nat \<times> nat, THREADS) st" where
  "StartThread dup tid pThread =
     bindS (DdkThreadDeinit tid) (\<lambda>_.
     bindS (thread_at pThread) (\<lambda>th.
     bindS (modify (\<lambda>s. s\<lparr>cur := (cur s)(tid := pThread), curproc := (curproc s)(tid := process th), starting := remove1 pThread (starting s)\<rparr>)) (\<lambda>_.
     bindS (DdkThreadInit dup tid) (\<lambda>_.
     bindS (DdkInsertThread tid) (\<lambda>_. ret (Start th))))))"

definition PsTerminateSystemThread :: "nat \<Rightarrow> (unit, THREADS) st" where
  "PsTerminateSystemThread tid = bindS (at_passive tid) (\<lambda>_. DdkThreadDeinit tid)"

subsection \<open>Priorities\<close>

definition KeQueryPriorityThread :: "nat \<Rightarrow> nat \<Rightarrow> (int, THREADS) st" where
  "KeQueryPriorityThread tid Thread =
     bindS (at_passive tid) (\<lambda>_. bindS (GetThread Thread) (\<lambda>a. bindS (thread_at a) (\<lambda>th. ret (Priority th))))"

definition KeSetPriorityThread :: "nat \<Rightarrow> nat \<Rightarrow> int \<Rightarrow> (int, THREADS) st" where
  "KeSetPriorityThread tid Thread prio =
     bindS (at_passive tid) (\<lambda>_.
     bindS (KeQueryPriorityThread tid Thread) (\<lambda>old.
     bindS (GetThread Thread) (\<lambda>a.
     bindS (upd_thread a (\<lambda>th. th\<lparr>Priority := (if prio < 0 then 0 else if prio > 31 then 31 else prio)\<rparr>)) (\<lambda>_. ret old))))"

text \<open>The sum is a 32-bit LONG.\<close>

definition KeSetBasePriorityThread :: "nat \<Rightarrow> nat \<Rightarrow> int \<Rightarrow> (int, THREADS) st" where
  "KeSetBasePriorityThread tid Thread Increment =
     bindS (at_passive tid) (\<lambda>_.
     bindS (GetThread Thread) (\<lambda>a.
     bindS (thread_at a) (\<lambda>th.
     bindS (gets processes) (\<lambda>ps.
     case ps (process th) of
       None \<Rightarrow> fail Fault
     | Some base \<Rightarrow>
         let newBase = wrap32 (base + Increment)
         in bindS (upd_thread a (\<lambda>th. th\<lparr>BasePriority := (if newBase > 31 then 31 else if newBase < 0 then 0 else newBase)\<rparr>)) (\<lambda>_.
            ret (BasePriority th - base))))))"

definition PsIsSystemThread :: "nat \<Rightarrow> nat \<Rightarrow> (bool, THREADS) st" where
  "PsIsSystemThread tid Thread =
     bindS (assertS (\<lambda>s. irqls s tid \<le> DISPATCH_LEVEL) ''KeGetCurrentIrql() <= DISPATCH_LEVEL'') (\<lambda>_.
     bindS (GetThread Thread) (\<lambda>a. bindS (thread_at a) (\<lambda>th. ret (process th = SystemProcess))))"

text \<open>What can happen: a thread of Windows is attached or detached, creates a system thread, begins to run one, ends, changes priorities; a handle is closed; levels change.\<close>

inductive th_step :: "THREADS \<Rightarrow> THREADS \<Rightarrow> bool" where
  attach: "DdkThreadInit dup tid s = Inr ((), s') \<Longrightarrow> th_step s s'"
| detach: "DdkThreadDeinit tid s = Inr ((), s') \<Longrightarrow> th_step s s'"
| create: "PsCreateSystemThread dup ok tid ph start s = Inr (r, s') \<Longrightarrow> th_step s s'"
| begin_thread: "a \<in> set (starting s) \<Longrightarrow> StartThread dup tid a s = Inr (r, s') \<Longrightarrow> th_step s s'"
| terminate: "PsTerminateSystemThread tid s = Inr ((), s') \<Longrightarrow> th_step s s'"
| priority: "KeSetPriorityThread tid a prio s = Inr (r, s') \<Longrightarrow> th_step s s'"
| base_priority: "KeSetBasePriorityThread tid a inc s = Inr (r, s') \<Longrightarrow> th_step s s'"
| close: "0 < held s a \<Longrightarrow> drop_thread a s = Inr ((), s') \<Longrightarrow> th_step s (s'\<lparr>held := (held s)(a := held s a - 1)\<rparr>)"
| level: "th_step s (s\<lparr>irqls := f\<rparr>)"

definition no_threads :: "nat \<Rightarrow> THREADS" where
  "no_threads m =
     \<lparr>threads = Map.empty, processes = Map.empty, threadlist = [], cur = (\<lambda>t. 0), curproc = (\<lambda>t. 0), next_thread = 16, room = m,
      irqls = (\<lambda>t. 0), intercepts = [], starting = [], held = (\<lambda>a. 0)\<rparr>"

inductive th_reach :: "THREADS \<Rightarrow> bool" where
  start: "th_reach (no_threads m)"
| step: "th_reach s \<Longrightarrow> th_step s s' \<Longrightarrow> th_reach s'"

section \<open>The invariant\<close>

definition typed :: "int \<Rightarrow> bool" where
  "typed prio \<longleftrightarrow> 0 \<le> prio \<and> prio \<le> 31"

definition wf_thread :: "THREADS \<Rightarrow> nat \<Rightarrow> THREAD \<Rightarrow> bool" where
  "wf_thread s a th \<longleftrightarrow> a \<noteq> 0 \<and> a < next_thread s \<and> 0 < refcount th \<and>
     refcount th = held s a + of_bool (a \<in> set (threadlist s)) + of_bool (a \<in> set (starting s)) \<and>
     typed (Priority th) \<and> typed (BasePriority th) \<and> process th \<in> dom (processes s) - {0}"

text \<open>
  The list and the created threads are different objects that exist; every other address has no references; the list has exactly the current objects of the threads of Windows, each with the id of its thread.
\<close>

definition wf_threads :: "THREADS \<Rightarrow> bool" where
  "wf_threads s \<longleftrightarrow>
     distinct (threadlist s) \<and> distinct (starting s) \<and> set (threadlist s) \<inter> set (starting s) = {} \<and>
     (\<forall>a. threads s a = None \<longrightarrow> a \<notin> set (threadlist s) \<and> a \<notin> set (starting s) \<and> held s a = 0) \<and>
     (\<forall>a th. threads s a = Some th \<longrightarrow> wf_thread s a th) \<and>
     (\<forall>a \<in> set (threadlist s). \<exists>t. cur s t = a) \<and>
     (\<forall>t. cur s t \<noteq> 0 \<longrightarrow> cur s t \<in> set (threadlist s) \<and> map_option ThreadId (threads s (cur s t)) = Some t) \<and>
     (\<forall>a. 0 \<le> held s a) \<and> 0 < next_thread s"

section \<open>Lemmas\<close>

lemma bindS_thread_at: "threads s a = Some th \<Longrightarrow> bindS (thread_at a) f s = f th s"
  by (simp add: bindS_def thread_at_def)

lemma bindS_upd_thread: "threads s a = Some th \<Longrightarrow> bindS (upd_thread a g) f s = f () (s\<lparr>threads := (threads s)(a \<mapsto> g th)\<rparr>)"
  by (simp add: upd_thread_def bindS_def thread_at_def)

lemma wf_threadD: "wf_threads s \<Longrightarrow> threads s a = Some th \<Longrightarrow> wf_thread s a th"
  by (simp add: wf_threads_def)

lemma wf_fresh: "wf_threads s \<Longrightarrow> threads s (next_thread s) = None"
proof (rule ccontr)
  assume wf: "wf_threads s" and "threads s (next_thread s) \<noteq> None"
  then obtain th where "threads s (next_thread s) = Some th" by auto
  from wf_threadD [OF wf this] show False by (simp add: wf_thread_def)
qed

lemma wf_listed: "wf_threads s \<Longrightarrow> a \<in> set (threadlist s) \<Longrightarrow> \<exists>th t. threads s a = Some th \<and> cur s t = a \<and> ThreadId th = t"
proof -
  assume wf: "wf_threads s" and a: "a \<in> set (threadlist s)"
  then obtain th where th: "threads s a = Some th" by (cases "threads s a") (auto simp: wf_threads_def)
  obtain t where t: "cur s t = a" using wf a by (auto simp: wf_threads_def)
  moreover have "a \<noteq> 0" using wf_threadD [OF wf th] by (simp add: wf_thread_def)
  ultimately have "map_option ThreadId (threads s a) = Some t" using wf by (auto simp: wf_threads_def)
  with th t show ?thesis by auto
qed

lemma CheckIds_ok: "(\<forall>b \<in> set l. \<exists>th. threads s b = Some th \<and> ThreadId th \<noteq> tid) \<Longrightarrow> CheckIds tid l s = Inr ((), s)"
proof (induction l)
  case (Cons b l)
  then obtain th where "threads s b = Some th" "ThreadId th \<noteq> tid" by auto
  with Cons show ?case by (simp add: bindS_thread_at)
qed simp

text \<open>A thread that has no object gets one: a new one, or one of those created for it.\<close>

lemma wf_insert:
  assumes wf: "wf_threads s" and free: "cur s tid = 0" and a: "a \<notin> set (threadlist s)" "a \<noteq> 0" "a < n" "next_thread s \<le> n"
    and th: "refcount th = held s a + 1" "ThreadId th = tid" "typed (Priority th)" "typed (BasePriority th)" "process th \<in> dom ps - {0}"
    and ps: "processes s \<subseteq>\<^sub>m ps"
  shows "wf_threads (s\<lparr>threads := (threads s)(a \<mapsto> th), threadlist := a # threadlist s, cur := (cur s)(tid := a), next_thread := n,
    starting := remove1 a (starting s), processes := ps, curproc := cp, room := r\<rparr>)" (is "wf_threads ?s")
proof -
  have dom: "dom (processes s) \<subseteq> dom ps" using ps by (rule map_le_implies_dom_le)
  have st: "set (starting ?s) = set (starting s) - {a}" using wf by (simp add: wf_threads_def set_remove1_eq)
  have held: "\<forall>a. 0 \<le> held s a" using wf by (simp add: wf_threads_def)
  have one: "wf_thread ?s b tb" if "threads ?s b = Some tb" for b tb
  proof (cases "b = a")
    case True
    with that th a held st show ?thesis by (auto simp: wf_thread_def add_nonneg_pos)
  next
    case False
    with that wf have "wf_thread s b tb" by (simp add: wf_threadD)
    with False dom a st show ?thesis by (auto simp: wf_thread_def)
  qed
  have c: "cur ?s t \<in> set (threadlist ?s) \<and> map_option ThreadId (threads ?s (cur ?s t)) = Some t" if "cur ?s t \<noteq> 0" for t
  proof (cases "t = tid")
    case True
    then show ?thesis using th by simp
  next
    case False
    then have "cur s t \<in> set (threadlist s) \<and> map_option ThreadId (threads s (cur s t)) = Some t" using that wf by (simp add: wf_threads_def)
    with False a show ?thesis by auto
  qed
  have l: "\<exists>t. cur ?s t = b" if "b \<in> set (threadlist ?s)" for b
  proof (cases "b = a")
    case True
    then show ?thesis by (intro exI [of _ tid]) simp
  next
    case False
    with that wf obtain t where t: "cur s t = b" by (auto simp: wf_threads_def)
    have "b \<noteq> 0" using wf_listed [OF wf, of b] wf_threadD [OF wf] False that by (auto simp: wf_thread_def)
    with t free have "t \<noteq> tid" by auto
    with t show ?thesis by (intro exI [of _ t]) simp
  qed
  have d: "distinct (threadlist ?s)" "distinct (starting ?s)" "set (threadlist ?s) \<inter> set (starting ?s) = {}"
    using wf a st by (auto simp: wf_threads_def distinct_remove1)
  have z: "b \<notin> set (threadlist ?s) \<and> b \<notin> set (starting ?s) \<and> held ?s b = 0" if "threads ?s b = None" for b
    using that wf st by (auto simp: wf_threads_def split: if_splits)
  show ?thesis unfolding wf_threads_def using d z one c l held a by (simp del: set_remove1_eq)
qed

lemma DdkInsertThread_eq:
  assumes wf: "wf_threads s" and free: "cur s tid = 0" and a: "a \<notin> set (threadlist s)"
    and s1: "cur s1 tid = a" "threadlist s1 = threadlist s" "threads s1 = (threads s)(a \<mapsto> th)"
  shows "DdkInsertThread tid s1 = Inr ((), s1\<lparr>threads := (threads s)(a \<mapsto> th\<lparr>ThreadId := tid\<rparr>), threadlist := a # threadlist s\<rparr>)"
proof -
  let ?s2 = "s1\<lparr>threads := (threads s)(a \<mapsto> th\<lparr>ThreadId := tid\<rparr>)\<rparr>"
  have "\<exists>tb. threads ?s2 b = Some tb \<and> ThreadId tb \<noteq> tid" if "b \<in> set (threadlist s)" for b
  proof -
    from wf_listed [OF wf that] obtain tb t where b: "threads s b = Some tb" "cur s t = b" "ThreadId tb = t" by blast
    have "b \<noteq> 0" using wf_threadD [OF wf b(1)] by (simp add: wf_thread_def)
    with b free have "t \<noteq> tid" by auto
    with b a that show ?thesis by auto
  qed
  then have "CheckIds tid (threadlist s) ?s2 = Inr ((), ?s2)" by (intro CheckIds_ok) blast
  then show ?thesis using s1 by (simp add: DdkInsertThread_def bindS_upd_thread bindS_Inr)
qed

lemma wf_frame:
  assumes "wf_threads s" "threadlist s' = threadlist s" "starting s' = starting s" "held s' = held s" "cur s' = cur s" "next_thread s' = next_thread s"
    and "threads s' = threads s" "dom (processes s) \<subseteq> dom (processes s')"
  shows "wf_threads s'"
proof -
  have "wf_thread s a th \<Longrightarrow> wf_thread s' a th" for a th using assms(2-8) by (auto simp: wf_thread_def)
  with assms show ?thesis by (simp add: wf_threads_def)
qed

lemma DdkThreadInit_wf:
  assumes wf: "wf_threads s" and run: "DdkThreadInit dup tid s = Inr ((), s')"
  shows "wf_threads s' \<and> cur s' tid \<noteq> 0 \<and> SystemProcess \<in> dom (processes s') \<and> starting s' = starting s \<and> held s' = held s \<and> (cur s tid \<noteq> 0 \<longrightarrow> threadlist s' = threadlist s \<and> cur s' = cur s)"
proof -
  define ps where "ps = (if processes s SystemProcess = None then (processes s)(SystemProcess \<mapsto> DefaultBaseThreadPriority) else processes s)"
  define cp where "cp = (if curproc s tid = 0 then (curproc s)(tid := SystemProcess) else curproc s)"
  have sys: "SystemProcess \<in> dom ps" by (auto simp: ps_def)
  have pre: "init_process tid s = s\<lparr>processes := ps, curproc := cp\<rparr>"
    by (simp add: init_process_def ps_def cp_def)
  show ?thesis
  proof (cases "cur s tid = 0")
    case False
    with run pre have "s' = s\<lparr>processes := ps, curproc := cp\<rparr>" by (simp add: DdkThreadInit_def split: if_splits)
    moreover from this have "wf_threads s'" by (intro wf_frame [OF wf]) (auto simp: ps_def)
    ultimately show ?thesis using sys False by simp
  next
    case True
    define a where "a = next_thread s"
    define th where "th = \<lparr>refcount = 1, Start = (0, 0), process = SystemProcess, Priority = DefaultThreadPriority, BasePriority = DefaultBaseThreadPriority, ThreadId = 0\<rparr>"
    have fresh: "threads s a = None" using wf_fresh [OF wf] by (simp add: a_def)
    then have a: "a \<notin> set (threadlist s)" "a \<notin> set (starting s)" "held s a = 0" "0 < a" using wf by (auto simp: wf_threads_def a_def)
    define s1 where "s1 = s\<lparr>processes := ps, curproc := cp, threads := (threads s)(a \<mapsto> th), next_thread := a + 16, room := room s - 1, cur := (cur s)(tid := a)\<rparr>"
    have "DdkInsertThread tid s1 = Inr ((), s')"
      using run True pre by (auto simp: DdkThreadInit_def alloc_thread_def bindS_def s1_def th_def a_def split: if_splits)
    moreover have "DdkInsertThread tid s1 = Inr ((), s1\<lparr>threads := (threads s)(a \<mapsto> th\<lparr>ThreadId := tid\<rparr>), threadlist := a # threadlist s\<rparr>)"
      by (rule DdkInsertThread_eq [OF wf True a(1)]) (simp_all add: s1_def)
    ultimately have s': "s' = s1\<lparr>threads := (threads s)(a \<mapsto> th\<lparr>ThreadId := tid\<rparr>), threadlist := a # threadlist s\<rparr>" by simp
    have "wf_threads (s\<lparr>threads := (threads s)(a \<mapsto> th\<lparr>ThreadId := tid\<rparr>), threadlist := a # threadlist s, cur := (cur s)(tid := a), next_thread := a + 16,
        starting := remove1 a (starting s), processes := ps, curproc := cp, room := room s - 1\<rparr>)"
      by (rule wf_insert [OF wf True a(1)]) (use a sys in \<open>auto simp: th_def typed_def a_def ps_def map_le_def\<close>)
    then have "wf_threads s'" by (rule wf_frame) (use a(2) in \<open>simp_all add: s' s1_def remove1_idem\<close>)
    then show ?thesis using True a sys by (simp add: s' s1_def)
  qed
qed

lemma drop_thread_eq:
  "threads s a = Some th \<Longrightarrow> drop_thread a s =
    Inr ((), s\<lparr>threads := (if refcount th - 1 = 0 then (threads s)(a := None) else (threads s)(a \<mapsto> th\<lparr>refcount := refcount th - 1\<rparr>))\<rparr>)"
  by (simp add: drop_thread_def bindS_thread_at)

text \<open>One reference less: of the list, or of a handle.\<close>

lemma wf_drop:
  assumes wf: "wf_threads s" and a: "threads s a = Some th"
    and l: "l = threadlist s \<and> h = (held s)(a := held s a - 1) \<and> 0 < held s a \<and> c = cur s \<or>
      l = remove1 a (threadlist s) \<and> h = held s \<and> cur s tid = a \<and> c = (cur s)(tid := 0)"
  shows "wf_threads (s\<lparr>threads := (if refcount th - 1 = 0 then (threads s)(a := None) else (threads s)(a \<mapsto> th\<lparr>refcount := refcount th - 1\<rparr>)),
    threadlist := l, held := h, cur := c, intercepts := ics\<rparr>)" (is "wf_threads ?s")
proof -
  note wa = wf_threadD [OF wf a]
  have dist: "distinct (threadlist s)" "distinct (starting s)" "set (threadlist s) \<inter> set (starting s) = {}" "\<forall>a. 0 \<le> held s a" using wf by (simp_all add: wf_threads_def)
  have cur: "cur s tid = a \<Longrightarrow> a \<in> set (threadlist s)" using wf wa by (auto simp: wf_threads_def wf_thread_def)
  have set_l: "set l = (if l = threadlist s then set (threadlist s) else set (threadlist s) - {a})" using l dist by (auto simp: set_remove1_eq)
  have count: "refcount th - 1 = h a + of_bool (a \<in> set l) + of_bool (a \<in> set (starting s))"
    using l wa cur dist by (auto simp: wf_thread_def)
  have h: "\<forall>b. 0 \<le> h b" "\<forall>b. b \<noteq> a \<longrightarrow> h b = held s b" using l dist by auto
  have sub: "set l \<subseteq> set (threadlist s)" "\<forall>b. b \<noteq> a \<longrightarrow> (b \<in> set l \<longleftrightarrow> b \<in> set (threadlist s))" using l dist by (auto simp: set_remove1_eq)
  have one: "wf_thread ?s b tb" if "threads ?s b = Some tb" for b tb
  proof (cases "b = a")
    case True
    with that wa count h(1) show ?thesis
      by (auto simp: wf_thread_def split: if_splits)
  next
    case False
    with that have "wf_thread s b tb" using wf by (auto simp: wf_threadD split: if_splits)
    with False h sub show ?thesis by (auto simp: wf_thread_def)
  qed
  have zero: "b \<notin> set l \<and> b \<notin> set (starting s) \<and> h b = 0" if "threads ?s b = None" for b
  proof (cases "b = a")
    case True
    with that count h(1) show ?thesis by (auto simp: of_bool_def split: if_splits) (smt (verit))+
  next
    case False
    with that wf h sub show ?thesis by (auto simp: wf_threads_def split: if_splits)
  qed
  have c: "c t \<in> set l \<and> map_option ThreadId (threads ?s (c t)) = Some t" if "c t \<noteq> 0" for t
  proof -
    have ct: "c t = cur s t" "cur s t \<noteq> 0" using that l by (auto split: if_splits)
    then have old: "cur s t \<in> set (threadlist s)" "map_option ThreadId (threads s (cur s t)) = Some t" using wf by (auto simp: wf_threads_def)
    have "c t \<in> set l"
    proof (cases "l = threadlist s")
      case False
      with l that have "t \<noteq> tid" "cur s tid = a" by (auto split: if_splits)
      moreover from this have "map_option ThreadId (threads s a) = Some tid" using wf wa by (auto simp: wf_threads_def wf_thread_def)
      ultimately have "cur s t \<noteq> a" using old(2) by auto
      with old sub ct show ?thesis by simp
    qed (use old ct in simp)
    moreover have "threads ?s (c t) \<noteq> None" using calculation zero by blast
    ultimately show ?thesis using old(2) a ct by (auto split: if_splits)
  qed
  have known: "\<exists>t. c t = b" if "b \<in> set l" for b
  proof -
    have "b \<in> set (threadlist s)" using that sub(1) by blast
    then obtain t where t: "cur s t = b" using wf unfolding wf_threads_def by blast
    have "c = cur s \<or> b \<noteq> a \<and> cur s tid = a \<and> c = (cur s)(tid := 0)" using that l dist by auto
    with t show ?thesis by (intro exI [of _ t]) auto
  qed
  have "distinct l" "set l \<inter> set (starting s) = {}" using l dist sub by auto
  then show ?thesis unfolding wf_threads_def using dist zero one c known h wf by (simp add: wf_threads_def)
qed

lemma DdkThreadDeinit_wf:
  assumes wf: "wf_threads s"
  shows "\<exists>s'. DdkThreadDeinit tid s = Inr ((), s') \<and> wf_threads s' \<and> cur s' = (cur s)(tid := 0) \<and> starting s' = starting s \<and> held s' = held s \<and>
    processes s' = processes s \<and> irqls s' = irqls s \<and> (\<forall>a \<in> set (starting s). threads s' a = threads s a)"
proof (cases "cur s tid = 0")
  case True
  then show ?thesis using wf by (auto simp: DdkThreadDeinit_def fun_upd_idem)
next
  case False
  define a where "a = cur s tid"
  have listed: "a \<in> set (threadlist s)" using wf False by (simp add: wf_threads_def a_def)
  then obtain th where th: "threads s a = Some th" using wf_listed [OF wf] by blast
  let ?s = "s\<lparr>threads := (if refcount th - 1 = 0 then (threads s)(a := None) else (threads s)(a \<mapsto> th\<lparr>refcount := refcount th - 1\<rparr>)),
    threadlist := remove1 a (threadlist s), held := held s, cur := (cur s)(tid := 0), intercepts := filter (\<lambda>x. x \<noteq> a) (intercepts s)\<rparr>"
  have "DdkThreadDeinit tid s = Inr ((), ?s)"
    using False th by (simp add: DdkThreadDeinit_def a_def bindS_def drop_thread_eq)
  moreover have "wf_threads ?s" by (rule wf_drop [OF wf th, where tid = tid]) (simp add: a_def)
  moreover have "a \<notin> set (starting s)" using wf listed by (auto simp: wf_threads_def)
  ultimately show ?thesis by auto
qed

lemma wf_close:
  assumes wf: "wf_threads s" and "0 < held s a" and run: "drop_thread a s = Inr ((), s')"
  shows "wf_threads (s'\<lparr>held := (held s)(a := held s a - 1)\<rparr>)"
proof -
  obtain th where th: "threads s a = Some th" using wf assms(2) by (cases "threads s a") (auto simp: wf_threads_def)
  have "wf_threads (s\<lparr>threads := (if refcount th - 1 = 0 then (threads s)(a := None) else (threads s)(a \<mapsto> th\<lparr>refcount := refcount th - 1\<rparr>)),
    threadlist := threadlist s, held := (held s)(a := held s a - 1), cur := cur s, intercepts := intercepts s\<rparr>)"
    by (rule wf_drop [OF wf th]) (use assms(2) in simp)
  moreover have "s' = s\<lparr>threads := (if refcount th - 1 = 0 then (threads s)(a := None) else (threads s)(a \<mapsto> th\<lparr>refcount := refcount th - 1\<rparr>))\<rparr>"
    using run by (simp add: drop_thread_eq [OF th])
  ultimately show ?thesis by (simp del: fun_upd_apply)
qed

text \<open>A change of an object that keeps its references and its id.\<close>

lemma wf_set_thread:
  assumes wf: "wf_threads s" and a: "threads s a = Some th"
    and th': "refcount th' = refcount th" "ThreadId th' = ThreadId th" "process th' = process th" "typed (Priority th')" "typed (BasePriority th')"
  shows "wf_threads (s\<lparr>threads := (threads s)(a \<mapsto> th')\<rparr>)" (is "wf_threads ?s")
proof -
  have one: "wf_thread ?s b tb" if "threads ?s b = Some tb" for b tb
    using that wf_threadD [OF wf, of b] wf_threadD [OF wf a] th' by (auto simp: wf_thread_def split: if_splits)
  have "map_option ThreadId (threads ?s b) = map_option ThreadId (threads s b)" for b using a th' by simp
  moreover have "threads ?s b = None \<longleftrightarrow> threads s b = None" for b using a by simp
  ultimately show ?thesis using wf one unfolding wf_threads_def by simp
qed

lemma DdkThreadInit_idle: "cur s tid \<noteq> 0 \<Longrightarrow> DdkThreadInit dup tid s = Inr ((), init_process tid s)"
  by (simp add: DdkThreadInit_def init_process_def)

lemma StartThread_wf:
  assumes wf: "wf_threads s" and a: "a \<in> set (starting s)" and th: "threads s a = Some th"
  shows "\<exists>s'. StartThread dup tid a s = Inr (Start th, s') \<and> wf_threads s' \<and> cur s' tid = a \<and> curproc s' tid = process th"
proof -
  from DdkThreadDeinit_wf [OF wf, of tid] obtain s1 where s1: "DdkThreadDeinit tid s = Inr ((), s1)" "wf_threads s1" "cur s1 = (cur s)(tid := 0)" "starting s1 = starting s"
    "threads s1 a = Some th" using a th by auto
  have wa: "wf_thread s1 a th" using wf_threadD [OF s1(2,5)] .
  have free: "cur s1 tid = 0" and na: "a \<notin> set (threadlist s1)" "a \<in> set (starting s1)" using s1 a by (auto simp: wf_threads_def)
  define s2 where "s2 = init_process tid (s1\<lparr>cur := (cur s1)(tid := a), curproc := (curproc s1)(tid := process th), starting := remove1 a (starting s1)\<rparr>)"
  have a0: "a \<noteq> 0" "process th \<in> dom (processes s1)" "process th \<noteq> 0" using wa by (auto simp: wf_thread_def)
  have s2: "s2 = s1\<lparr>cur := (cur s1)(tid := a), curproc := curproc s2, starting := remove1 a (starting s1), processes := processes s2\<rparr>"
    by (simp add: s2_def init_process_def)
  have ps: "processes s1 \<subseteq>\<^sub>m processes s2" by (auto simp: s2_def init_process_def map_le_def)
  have "DdkInsertThread tid s2 = Inr ((), s2\<lparr>threads := (threads s1)(a \<mapsto> th\<lparr>ThreadId := tid\<rparr>), threadlist := a # threadlist s1\<rparr>)" (is "_ = Inr ((), ?s)")
    by (rule DdkInsertThread_eq [OF s1(2) free na(1)]) (simp_all add: s2_def init_process_def fun_upd_idem [of "threads s1"] s1(5))
  then have run: "StartThread dup tid a s = Inr (Start th, ?s)"
    using s1(1,5) a0(1) by (simp add: StartThread_def bindS_Inr bindS_thread_at DdkThreadInit_idle s2_def [symmetric])
  have "wf_threads (s1\<lparr>threads := (threads s1)(a \<mapsto> th\<lparr>ThreadId := tid\<rparr>), threadlist := a # threadlist s1, cur := (cur s1)(tid := a), next_thread := next_thread s1,
    starting := remove1 a (starting s1), processes := processes s2, curproc := curproc s2, room := room s1\<rparr>)"
    by (rule wf_insert [OF s1(2) free na(1)]) (use wa na a0 ps map_le_implies_dom_le [OF ps] in \<open>auto simp: wf_thread_def\<close>)
  then have "wf_threads ?s" by (rule wf_frame) (simp_all add: s2_def init_process_def)
  then show ?thesis using run a0(3) by (auto simp: s2_def init_process_def)
qed

text \<open>A created thread, not started yet, with the reference of its creator.\<close>

lemma wf_create:
  assumes wf: "wf_threads s" and th: "refcount th = 2" "typed (Priority th)" "typed (BasePriority th)" "process th \<in> dom (processes s) - {0}"
  shows "wf_threads (s\<lparr>threads := (threads s)(next_thread s \<mapsto> th), next_thread := next_thread s + 16, room := r,
    starting := next_thread s # starting s, held := (held s)(next_thread s := 1)\<rparr>)" (is "wf_threads ?s")
proof -
  define a where "a = next_thread s"
  have fresh: "threads s a = None" using wf_fresh [OF wf] by (simp add: a_def)
  then have a: "a \<notin> set (threadlist s)" "a \<notin> set (starting s)" "0 < a" using wf by (auto simp: wf_threads_def a_def)
  have one: "wf_thread ?s b tb" if "threads ?s b = Some tb" for b tb
  proof (cases "b = a")
    case True
    with that th a show ?thesis by (auto simp: wf_thread_def a_def)
  next
    case False
    with that have "wf_thread s b tb" using wf_threadD [OF wf] by (simp add: a_def)
    with False show ?thesis by (auto simp: wf_thread_def a_def)
  qed
  have c: "cur s t \<noteq> 0 \<longrightarrow> cur s t \<in> set (threadlist s) \<and> map_option ThreadId (threads ?s (cur s t)) = Some t" for t
  proof
    assume "cur s t \<noteq> 0"
    then have "cur s t \<in> set (threadlist s) \<and> map_option ThreadId (threads s (cur s t)) = Some t" using wf by (simp add: wf_threads_def)
    moreover from this a(1) have "cur s t \<noteq> next_thread s" by (auto simp: a_def)
    ultimately show "cur s t \<in> set (threadlist s) \<and> map_option ThreadId (threads ?s (cur s t)) = Some t" by simp
  qed
  have z: "threads ?s b = None \<longrightarrow> b \<notin> set (threadlist s) \<and> b \<notin> set (starting ?s) \<and> held ?s b = 0" for b
    using wf a by (auto simp: wf_threads_def a_def)
  show ?thesis unfolding wf_threads_def using one c z wf a by (simp add: wf_threads_def a_def)
qed

lemma PsCreateSystemThread_cases:
  assumes run: "PsCreateSystemThread dup started tid ph st s = Inr (r, s')"
    and s1: "DdkThreadInit dup tid s = Inr ((), s1)" and sys: "SystemProcess \<in> dom (processes s1)" and fresh: "threads s1 (next_thread s1) = None"
  shows "r = (STATUS_INSUFFICIENT_RESOURCES, 0) \<and> (s' = s1 \<or> s' = s1\<lparr>next_thread := next_thread s1 + 16, room := room s1 - 1\<rparr>) \<or>
    (\<exists>p \<in> dom (processes s1) - {0}. r = (STATUS_SUCCESS, next_thread s1) \<and>
       s' = s1\<lparr>threads := (threads s1)(next_thread s1 \<mapsto> \<lparr>refcount = 2, Start = st, process = p, Priority = DefaultThreadPriority, BasePriority = DefaultBaseThreadPriority, ThreadId = 0\<rparr>),
         next_thread := next_thread s1 + 16, room := room s1 - 1, starting := next_thread s1 # starting s1, held := (held s1)(next_thread s1 := 1)\<rparr>)"
proof -
  define p where "p = (if ph = 0 then SystemProcess else ph)"
  let ?th = "\<lparr>refcount = 1, Start = st, process = p, Priority = DefaultThreadPriority, BasePriority = DefaultBaseThreadPriority, ThreadId = 0\<rparr>"
  let ?k = "\<lambda>o'. case o' of None \<Rightarrow> ret (STATUS_INSUFFICIENT_RESOURCES, 0)
     | Some a \<Rightarrow>
         bindS (upd_thread a (\<lambda>th. th\<lparr>refcount := refcount th + 1\<rparr>)) (\<lambda>_.
         if \<not> started then bindS (modify (\<lambda>s. s\<lparr>threads := (threads s)(a := None)\<rparr>)) (\<lambda>_. ret (STATUS_INSUFFICIENT_RESOURCES, 0))
         else bindS (modify (\<lambda>s. s\<lparr>starting := a # starting s, held := (held s)(a := 1)\<rparr>)) (\<lambda>_. ret (STATUS_SUCCESS, a)))"
  have p: "p \<in> dom (processes s1) - {0}" and k: "bindS (alloc_thread True ?th) ?k s1 = Inr (r, s')"
    using run sys by (auto simp: PsCreateSystemThread_def bindS_Inr [where m = "DdkThreadInit dup tid", OF s1] at_passive_def GetProcess_def bindS_assoc p_def split: if_splits)
  show ?thesis
  proof (cases "room s1 = 0")
    case True
    with k show ?thesis by (simp add: bindS_def alloc_thread_def ret_def)
  next
    case False
    define s2 where "s2 = s1\<lparr>threads := (threads s1)(next_thread s1 \<mapsto> ?th), next_thread := next_thread s1 + 16, room := room s1 - 1\<rparr>"
    from k False have "?k (Some (next_thread s1)) s2 = Inr (r, s')" by (simp add: bindS_def alloc_thread_def s2_def)
    moreover have "threads s2 (next_thread s1) = Some ?th" by (simp add: s2_def)
    ultimately have *: "(if \<not> started then bindS (modify (\<lambda>s. s\<lparr>threads := (threads s)(next_thread s1 := None)\<rparr>)) (\<lambda>_. ret (STATUS_INSUFFICIENT_RESOURCES, 0))
         else bindS (modify (\<lambda>s. s\<lparr>starting := next_thread s1 # starting s, held := (held s)(next_thread s1 := 1)\<rparr>)) (\<lambda>_. ret (STATUS_SUCCESS, next_thread s1)))
         (s2\<lparr>threads := (threads s2)(next_thread s1 \<mapsto> ?th\<lparr>refcount := 2\<rparr>)\<rparr>) = Inr (r, s')" by (simp add: bindS_upd_thread)
    show ?thesis
    proof (cases started)
      case True
      with * have "r = (STATUS_SUCCESS, next_thread s1)" "s' = s2\<lparr>threads := (threads s2)(next_thread s1 \<mapsto> ?th\<lparr>refcount := 2\<rparr>),
        starting := next_thread s1 # starting s2, held := (held s2)(next_thread s1 := 1)\<rparr>" by (simp_all add: ret_def)
      with p show ?thesis by (intro disjI2 bexI [of _ p]) (simp_all add: s2_def)
    next
      case False
      with * fresh show ?thesis by (intro disjI1) (simp add: s2_def ret_def fun_upd_idem)
    qed
  qed
qed

lemma wf_grow:
  assumes "wf_threads s" "next_thread s \<le> n"
  shows "wf_threads (s\<lparr>next_thread := n, room := r\<rparr>)"
proof -
  have "wf_thread s a th \<Longrightarrow> wf_thread (s\<lparr>next_thread := n, room := r\<rparr>) a th" for a th using assms(2) by (auto simp: wf_thread_def)
  with assms show ?thesis by (simp add: wf_threads_def)
qed

lemma PsCreateSystemThread_wf:
  assumes wf: "wf_threads s" and run: "PsCreateSystemThread dup started tid ph st s = Inr (r, s')"
  shows "wf_threads s'"
proof -
  obtain s1 where s1: "DdkThreadInit dup tid s = Inr ((), s1)" using run by (auto simp: PsCreateSystemThread_def bindS_eq_Inr_iff)
  note w1 = DdkThreadInit_wf [OF wf s1]
  have grow: "wf_threads (s1\<lparr>next_thread := next_thread s1 + 16, room := room s1 - 1\<rparr>)"
    by (rule wf_grow) (use w1 in simp_all)
  have wf1: "wf_threads s1" and sys: "SystemProcess \<in> dom (processes s1)" using w1 by simp_all
  from PsCreateSystemThread_cases [OF run s1 sys wf_fresh [OF wf1]] show ?thesis
  proof (elim disjE conjE bexE)
    fix p assume "p \<in> dom (processes s1) - {0}"
      and s': "s' = s1\<lparr>threads := (threads s1)(next_thread s1 \<mapsto> \<lparr>refcount = 2, Start = st, process = p, Priority = DefaultThreadPriority, BasePriority = DefaultBaseThreadPriority, ThreadId = 0\<rparr>),
         next_thread := next_thread s1 + 16, room := room s1 - 1, starting := next_thread s1 # starting s1, held := (held s1)(next_thread s1 := 1)\<rparr>"
    then show ?thesis unfolding s' by (intro wf_create [OF wf1]) (simp_all add: typed_def)
  qed (use wf1 grow in simp_all)
qed

lemma KeSetPriorityThread_eq:
  assumes "irqls s tid = PASSIVE_LEVEL" "a \<noteq> 0" "threads s a = Some th"
  shows "KeSetPriorityThread tid a prio s =
    Inr (Priority th, s\<lparr>threads := (threads s)(a \<mapsto> th\<lparr>Priority := (if prio < 0 then 0 else if prio > 31 then 31 else prio)\<rparr>)\<rparr>)"
  using assms by (simp add: KeSetPriorityThread_def KeQueryPriorityThread_def at_passive_def GetThread_def bindS_assoc bindS_thread_at bindS_upd_thread ret_def)

lemma KeSetPriorityThread_ok:
  "KeSetPriorityThread tid a prio s = Inr (r, s') \<Longrightarrow> irqls s tid = PASSIVE_LEVEL \<and> a \<noteq> 0 \<and> (\<exists>th. threads s a = Some th)"
  by (auto simp: KeSetPriorityThread_def KeQueryPriorityThread_def at_passive_def GetThread_def bindS_assoc split: if_splits)

lemma KeSetBasePriorityThread_eq:
  assumes "irqls s tid = PASSIVE_LEVEL" "a \<noteq> 0" "threads s a = Some th" "processes s (process th) = Some base"
  shows "KeSetBasePriorityThread tid a inc s =
    Inr (BasePriority th - base, s\<lparr>threads := (threads s)(a \<mapsto> th\<lparr>BasePriority :=
      (if wrap32 (base + inc) > 31 then 31 else if wrap32 (base + inc) < 0 then 0 else wrap32 (base + inc))\<rparr>)\<rparr>)"
  using assms by (simp add: KeSetBasePriorityThread_def at_passive_def GetThread_def bindS_assoc bindS_thread_at bindS_upd_thread ret_def Let_def)

lemma KeSetBasePriorityThread_ok:
  "KeSetBasePriorityThread tid a inc s = Inr (r, s') \<Longrightarrow>
    irqls s tid = PASSIVE_LEVEL \<and> a \<noteq> 0 \<and> (\<exists>th base. threads s a = Some th \<and> processes s (process th) = Some base)"
  by (auto simp: KeSetBasePriorityThread_def at_passive_def GetThread_def bindS_assoc bindS_thread_at fail_def split: if_splits option.splits)

lemma wf_step: "th_step s s' \<Longrightarrow> wf_threads s \<Longrightarrow> wf_threads s'"
proof (induction rule: th_step.induct)
  case (attach dup tid s s')
  then show ?case using DdkThreadInit_wf by blast
next
  case (detach tid s s')
  then show ?case using DdkThreadDeinit_wf [of s tid] by auto
next
  case (create dup ok tid ph start s r s')
  then show ?case using PsCreateSystemThread_wf by blast
next
  case (begin_thread a s dup tid r s')
  then obtain th where "threads s a = Some th" by (cases "threads s a") (auto simp: wf_threads_def)
  with begin_thread show ?case using StartThread_wf [of s a th dup tid] by auto
next
  case (terminate tid s s')
  then show ?case using DdkThreadDeinit_wf [of s tid] by (auto simp: PsTerminateSystemThread_def at_passive_def split: if_splits)
next
  case (priority tid a prio s r s')
  with KeSetPriorityThread_ok [of tid a prio s] obtain th where th: "irqls s tid = PASSIVE_LEVEL" "a \<noteq> 0" "threads s a = Some th" by blast
  note w = wf_threadD [OF priority(2) th(3)]
  show ?case using priority(1) w unfolding KeSetPriorityThread_eq [OF th]
    by (auto intro!: wf_set_thread [OF priority(2) th(3)] simp: wf_thread_def typed_def simp del: fun_upd_apply)
next
  case (base_priority tid a inc s r s')
  with KeSetBasePriorityThread_ok [of tid a inc s] obtain th base where th: "irqls s tid = PASSIVE_LEVEL" "a \<noteq> 0" "threads s a = Some th" "processes s (process th) = Some base" by blast
  note w = wf_threadD [OF base_priority(2) th(3)]
  show ?case using base_priority(1) w unfolding KeSetBasePriorityThread_eq [OF th]
    by (auto intro!: wf_set_thread [OF base_priority(2) th(3)] simp: wf_thread_def typed_def simp del: fun_upd_apply)
next
  case (close s a s')
  then show ?case using wf_close by blast
next
  case (level s f)
  then show ?case by (rule wf_frame) simp_all
qed

lemma wf_reach: "th_reach s \<Longrightarrow> wf_threads s"
proof (induction rule: th_reach.induct)
  case (start m)
  show ?case by (simp add: wf_threads_def no_threads_def)
next
  case (step s s')
  then show ?case by (simp add: wf_step)
qed

lemma DdkThreadInit_total:
  assumes wf: "wf_threads s" and run: "DdkThreadInit True tid s = Inl e"
  shows "room s = 0 \<and> e = DdkFail ''Unable to allocate object''"
proof (cases "cur s tid = 0")
  case True
  define s0 where "s0 = init_process tid s"
  have s0: "threadlist s0 = threadlist s" "threads s0 = threads s" "next_thread s0 = next_thread s" "room s0 = room s" "cur s0 = cur s" by (simp_all add: s0_def init_process_def)
  have a: "next_thread s \<notin> set (threadlist s)" using wf_fresh [OF wf] wf by (auto simp: wf_threads_def)
  show ?thesis
  proof (cases "room s = 0")
    case True
    then show ?thesis using run s0 \<open>cur s tid = 0\<close> by (simp add: DdkThreadInit_def s0_def [symmetric] bindS_def alloc_thread_def)
  next
    case False
    let ?th = "\<lparr>refcount = 1, Start = (0, 0), process = SystemProcess, Priority = DefaultThreadPriority, BasePriority = DefaultBaseThreadPriority, ThreadId = 0\<rparr>"
    have "DdkInsertThread tid (s0\<lparr>threads := (threads s)(next_thread s \<mapsto> ?th), next_thread := next_thread s + 16, room := room s - 1, cur := (cur s)(tid := next_thread s)\<rparr>) = Inl e"
      using run s0 \<open>cur s tid = 0\<close> False by (simp add: DdkThreadInit_def s0_def [symmetric] bindS_def alloc_thread_def)
    then show ?thesis by (subst (asm) DdkInsertThread_eq [OF wf \<open>cur s tid = 0\<close> a]) (simp_all add: s0)
  qed
qed (use run DdkThreadInit_idle [of s tid True] in simp)

text \<open>A small run: thread 1 is attached and creates a system thread, which begins to run as thread 2.\<close>

definition two_threads :: THREADS where
  "two_threads = (case bindS (DdkThreadInit True 1) (\<lambda>_. bindS (PsCreateSystemThread True True 1 0 (7, 8)) (\<lambda>_. StartThread True 2 32)) (no_threads 4) of
     Inr (_, s) \<Rightarrow> s | Inl _ \<Rightarrow> no_threads 0)"

lemma two_threads_reach: "th_reach two_threads"
proof -
  define r1 where "r1 = DdkThreadInit True 1 (no_threads 4)"
  define s1 where "s1 = snd (projr r1)"
  define r2 where "r2 = PsCreateSystemThread True True 1 0 (7, 8) s1"
  define s2 where "s2 = snd (projr r2)"
  define r3 where "r3 = StartThread True 2 32 s2"
  have ok: "isl r1 = False" "isl r2 = False" "isl r3 = False" "32 \<in> set (starting s2)" unfolding r3_def s2_def r2_def s1_def r1_def by code_simp+
  have 1: "DdkThreadInit True 1 (no_threads 4) = Inr ((), s1)" using ok(1) by (cases r1) (auto simp: s1_def r1_def)
  have 2: "PsCreateSystemThread True True 1 0 (7, 8) s1 = Inr (fst (projr r2), s2)" using ok(2) by (cases r2) (auto simp: s2_def r2_def)
  have 3: "StartThread True 2 32 s2 = Inr (fst (projr r3), two_threads)" using ok(3) 1 2 by (cases r3) (auto simp: two_threads_def bindS_def r3_def)
  show ?thesis using th_reach.start th_step.attach [OF 1] th_step.create [OF 2] th_step.begin_thread [OF ok(4) 3] by (meson th_reach.step)
qed

section \<open>Properties\<close>

text \<open>
  C25.  Threads and their objects.  In every state that threads can reach by being attached and detached, by creating, starting and ending system threads and by closing handles: the list of threads has no duplicates; the
  current object of every thread is in the list and has the id of that thread, and every object of the list is the current object of the thread it names, so that attaching a thread fails only when there is
  no memory and never finds the id in the list; an object has exactly the references of the handles, plus one while it is in the list or waits to be started, and at least one; a created thread can always be started and then
  has the object made for it; and \<open>DdkInvokeForAllThreads\<close> calls a function that succeeds once for every thread, with the pseudo handle for the caller and the thread's own handle for every other.
\<close>

theorem thread_list_exact:
  assumes "th_reach s"
  shows "distinct (threadlist s) \<and>
    (\<forall>t. cur s t \<noteq> 0 \<longrightarrow> cur s t \<in> set (threadlist s) \<and> map_option ThreadId (threads s (cur s t)) = Some t) \<and>
    (\<forall>a \<in> set (threadlist s). \<exists>th. threads s a = Some th \<and> cur s (ThreadId th) = a) \<and>
    (\<forall>t e. DdkThreadInit True t s = Inl e \<longrightarrow> room s = 0 \<and> e = DdkFail ''Unable to allocate object'') \<and>
    (\<forall>a th. threads s a = Some th \<longrightarrow> refcount th = held s a + of_bool (a \<in> set (threadlist s)) + of_bool (a \<in> set (starting s)) \<and> 0 < refcount th) \<and>
    (\<forall>a \<in> set (starting s). \<forall>t. \<exists>r s'. StartThread True t a s = Inr (r, s') \<and> cur s' t = a) \<and>
    (\<forall>t. DdkInvokeForAllThreads t (\<lambda>h l. (0, l @ [h])) [] s = Inr ((0, map (\<lambda>a. if a = cur s t then None else Some a) (threadlist s)), s))"
proof -
  have wf: "wf_threads s" using wf_reach assms .
  have loop: "InvokeLoop self (\<lambda>h l. (0, l @ [h])) l x = (0, x @ map (\<lambda>a. if a = self then None else Some a) l)" for self l x
    by (induction l arbitrary: x) simp_all
  have begins: "\<exists>r s'. StartThread True t a s = Inr (r, s') \<and> cur s' t = a" if st: "a \<in> set (starting s)" for a t
  proof -
    obtain th where "threads s a = Some th" using wf st by (cases "threads s a") (auto simp: wf_threads_def)
    from StartThread_wf [OF wf st this] show ?thesis by blast
  qed
  have refs: "refcount th = held s a + of_bool (a \<in> set (threadlist s)) + of_bool (a \<in> set (starting s)) \<and> 0 < refcount th" if "threads s a = Some th" for a th
    using wf_threadD [OF wf that] by (simp add: wf_thread_def)
  have "distinct (threadlist s)" "\<forall>t. cur s t \<noteq> 0 \<longrightarrow> cur s t \<in> set (threadlist s) \<and> map_option ThreadId (threads s (cur s t)) = Some t"
    using wf by (simp_all add: wf_threads_def)
  moreover have "\<forall>a \<in> set (threadlist s). \<exists>th. threads s a = Some th \<and> cur s (ThreadId th) = a" using wf_listed [OF wf] by blast
  moreover have "\<forall>t. DdkInvokeForAllThreads t (\<lambda>h l. (0, l @ [h])) [] s = Inr ((0, map (\<lambda>a. if a = cur s t then None else Some a) (threadlist s)), s)"
    by (simp add: DdkInvokeForAllThreads_def gets_def loop)
  ultimately show ?thesis using begins refs DdkThreadInit_total [OF wf] by blast
qed

theorem thread_list_exact_witness:
  "th_reach two_threads \<and> threadlist two_threads = [32, 16] \<and> distinct (threadlist two_threads) \<and>
    DdkInvokeForAllThreads 2 (\<lambda>h l. (0, l @ [h])) [] two_threads = Inr ((0, [None, Some 16]), two_threads)"
proof -
  have l: "threadlist two_threads = [32, 16]" "cur two_threads 2 = 32" by code_simp+
  note claim = thread_list_exact [OF two_threads_reach]
  from claim have "\<forall>t. DdkInvokeForAllThreads t (\<lambda>h l. (0, l @ [h])) [] two_threads = Inr ((0, map (\<lambda>a. if a = cur two_threads t then None else Some a) (threadlist two_threads)), two_threads)"
    by (elim conjE)
  then show ?thesis using l two_threads_reach by simp
qed

text \<open>
  C26.  Priorities stay in their type.  In every reachable state the priority and the base priority of every thread are between 0 and 31.  At passive level \<open>KeSetPriorityThread\<close> returns the old priority and sets the
  new one, brought into that range; \<open>KeSetBasePriorityThread\<close> returns the old base priority relative to that of the process and sets the 32-bit sum of the latter and the increment, brought into that range.
\<close>

theorem priorities_typed:
  assumes "th_reach s"
  shows "(\<forall>a th. threads s a = Some th \<longrightarrow> 0 \<le> Priority th \<and> Priority th \<le> 31 \<and> 0 \<le> BasePriority th \<and> BasePriority th \<le> 31) \<and>
    (\<forall>a th tid prio. threads s a = Some th \<and> irqls s tid = PASSIVE_LEVEL \<longrightarrow>
      (\<exists>s'. KeSetPriorityThread tid a prio s = Inr (Priority th, s') \<and> KeQueryPriorityThread tid a s' = Inr (max 0 (min 31 prio), s'))) \<and>
    (\<forall>a th tid inc. threads s a = Some th \<and> irqls s tid = PASSIVE_LEVEL \<longrightarrow>
      (\<exists>base s'. processes s (process th) = Some base \<and> KeSetBasePriorityThread tid a inc s = Inr (BasePriority th - base, s') \<and>
        map_option BasePriority (threads s' a) = Some (max 0 (min 31 (wrap32 (base + inc))))))"
proof -
  have wf: "wf_threads s" using wf_reach assms .
  have range: "0 \<le> Priority th \<and> Priority th \<le> 31 \<and> 0 \<le> BasePriority th \<and> BasePriority th \<le> 31" if "threads s a = Some th" for a th
    using wf_threadD [OF wf that] by (simp add: wf_thread_def typed_def)
  have prio: "\<exists>s'. KeSetPriorityThread tid a prio s = Inr (Priority th, s') \<and> KeQueryPriorityThread tid a s' = Inr (max 0 (min 31 prio), s')"
    if "threads s a = Some th" "irqls s tid = PASSIVE_LEVEL" for a th tid prio
  proof -
    have "a \<noteq> 0" using wf_threadD [OF wf that(1)] by (simp add: wf_thread_def)
    with that show ?thesis
      by (simp add: KeSetPriorityThread_eq) (simp add: KeQueryPriorityThread_def at_passive_def GetThread_def bindS_assoc bindS_thread_at ret_def min_def max_def)
  qed
  have base: "\<exists>base s'. processes s (process th) = Some base \<and> KeSetBasePriorityThread tid a inc s = Inr (BasePriority th - base, s') \<and>
        map_option BasePriority (threads s' a) = Some (max 0 (min 31 (wrap32 (base + inc))))"
    if "threads s a = Some th" "irqls s tid = PASSIVE_LEVEL" for a th tid inc
  proof -
    have "a \<noteq> 0" "process th \<in> dom (processes s)" using wf_threadD [OF wf that(1)] by (auto simp: wf_thread_def)
    then obtain b where "processes s (process th) = Some b" by blast
    with that \<open>a \<noteq> 0\<close> show ?thesis by (intro exI [of _ b]) (simp add: KeSetBasePriorityThread_eq min_def max_def)
  qed
  show ?thesis using range prio base by blast
qed

theorem priorities_typed_witness:
  "th_reach two_threads \<and> (\<exists>s'. KeSetPriorityThread 1 32 99 two_threads = Inr (8, s') \<and> KeQueryPriorityThread 1 32 s' = Inr (31, s'))"
proof -
  obtain th where th: "threads two_threads 32 = Some th" "Priority th = 8" "irqls two_threads 1 = PASSIVE_LEVEL"
  proof -
    have "map_option Priority (threads two_threads 32) = Some 8" "irqls two_threads 1 = PASSIVE_LEVEL" by code_simp+
    then show thesis using that by auto
  qed
  have "\<forall>a th tid prio. threads two_threads a = Some th \<and> irqls two_threads tid = PASSIVE_LEVEL \<longrightarrow>
      (\<exists>s'. KeSetPriorityThread tid a prio two_threads = Inr (Priority th, s') \<and> KeQueryPriorityThread tid a s' = Inr (max 0 (min 31 prio), s'))"
    using priorities_typed [OF two_threads_reach] by (elim conjE)
  from this [rule_format, of 32 th 1 99] th two_threads_reach show ?thesis by simp
qed

end
