(* ===== verification/WorkItem.thy ===== *)
theory WorkItem
  imports DdkBase "HOL-Library.Multiset"
begin

text \<open>
  Work items: src/src/workitem.cpp.

  A work item is queued to the thread pool of Windows, which runs the callback once for every submission.  The callback is cut into its steps: it copies the item, marks it as not queued, runs the routine of the driver
  with the values of its copy, and drops the reference to the object.  The calls of the driver interleave with them, each as one step: it writes to an item only while the item is not queued, and a callback that has marked the
  item as not queued does not read it again.  Addresses and routines are numbers, 0 is a null pointer.  \<open>submitted\<close> and \<open>runs\<close> record the calls that queue an item and the calls of routines.
\<close>

section \<open>Definitions\<close>

record IO_WORKITEM =
  Work :: bool
  IoObject :: nat
  WorkerRoutine :: nat
  WorkerRoutineEx :: nat
  QueueType :: nat
  Context :: nat
  queued :: bool

text \<open>A call of a routine: the object, whether it is a routine of the extended kind, the routine, its context.\<close>

type_synonym WCALL = "nat \<times> bool \<times> nat \<times> nat"

text \<open>The points of a callback: submitted, the item copied, marked as not queued, the routine called.\<close>

datatype WCB = Submitted nat | Copied nat IO_WORKITEM | Unmarked nat IO_WORKITEM | Called IO_WORKITEM

record WORKS =
  items :: "nat \<rightharpoonup> IO_WORKITEM"
  refs :: "nat \<Rightarrow> int"
  pool :: "WCB list"
  next_item :: nat
  room :: nat
  submitted :: "WCALL list"
  runs :: "WCALL list"

definition item_at :: "nat \<Rightarrow> (IO_WORKITEM, WORKS) st" where
  "item_at a s = (case items s a of None \<Rightarrow> Inl Fault | Some it \<Rightarrow> Inr (it, s))"

definition put_item :: "nat \<Rightarrow> IO_WORKITEM \<Rightarrow> (unit, WORKS) st" where
  "put_item a it = modify (\<lambda>s. s\<lparr>items := (items s)(a \<mapsto> it)\<rparr>)"


definition call_of :: "IO_WORKITEM \<Rightarrow> WCALL" where
  "call_of w = (if WorkerRoutineEx w \<noteq> 0 then (IoObject w, True, WorkerRoutineEx w, Context w) else (IoObject w, False, WorkerRoutine w, Context w))"





text \<open>The last part of both queueing routines.\<close>

definition submit :: "nat \<Rightarrow> WCALL \<Rightarrow> (unit, WORKS) st" where
  "submit a call =
     bindS (item_at a) (\<lambda>it.
     modify (\<lambda>s. s\<lparr>refs := (refs s)(IoObject it := refs s (IoObject it) + 1), pool := pool s @ [Submitted a], submitted := submitted s @ [call]\<rparr>))"

definition IoQueueWorkItem :: "nat \<Rightarrow> nat \<Rightarrow> nat \<Rightarrow> nat \<Rightarrow> nat \<Rightarrow> (unit, WORKS) st" where
  "IoQueueWorkItem irql a routine qt ctx =
     bindS (assertS (\<lambda>_. a \<noteq> 0) ''IoWorkItem'') (\<lambda>_.
     bindS (assertS (\<lambda>_. irql \<le> DISPATCH_LEVEL) ''KeGetCurrentIrql() <= DISPATCH_LEVEL'') (\<lambda>_.
     bindS (item_at a) (\<lambda>it.
     bindS (put_item a (it\<lparr>WorkerRoutine := routine, QueueType := qt, Context := ctx, queued := True\<rparr>)) (\<lambda>_.
     submit a (IoObject it, False, routine, ctx)))))"



text \<open>Whether the thread that runs a callback is in a work item.\<close>

definition DdkIsWorkItem :: "WCB option \<Rightarrow> bool" where
  "DdkIsWorkItem c = (case c of None \<Rightarrow> False | Some (Submitted a) \<Rightarrow> False | Some (Copied a w) \<Rightarrow> True | Some (Unmarked a w) \<Rightarrow> True | Some (Called w) \<Rightarrow> True)"






section \<open>The invariant\<close>

text \<open>The item whose mark a callback still has to clear, and the values it runs with.\<close>

fun cb_addr :: "WCB \<Rightarrow> nat option" where
  "cb_addr (Submitted a) = Some a"
| "cb_addr (Copied a w) = Some a"
| "cb_addr (Unmarked a w) = None"
| "cb_addr (Called w) = None"

fun cb_item :: "(nat \<rightharpoonup> IO_WORKITEM) \<Rightarrow> WCB \<Rightarrow> IO_WORKITEM" where
  "cb_item m (Submitted a) = the (m a)"
| "cb_item m (Copied a w) = w"
| "cb_item m (Unmarked a w) = w"
| "cb_item m (Called w) = w"

fun called :: "WCB \<Rightarrow> bool" where
  "called (Called w) = True"
| "called _ = False"

definition on_item :: "nat \<Rightarrow> WCB list \<Rightarrow> WCB list" where
  "on_item a l = filter (\<lambda>cb. cb_addr cb = Some a) l"

definition on_object :: "(nat \<rightharpoonup> IO_WORKITEM) \<Rightarrow> nat \<Rightarrow> WCB list \<Rightarrow> WCB list" where
  "on_object m ob l = filter (\<lambda>cb. IoObject (cb_item m cb) = ob) l"

definition to_call :: "(nat \<rightharpoonup> IO_WORKITEM) \<Rightarrow> WCB list \<Rightarrow> WCALL list" where
  "to_call m l = map (\<lambda>cb. call_of (cb_item m cb)) (filter (\<lambda>cb. \<not> called cb) l)"




section \<open>Lemmas\<close>

lemma bindS_item_at: "items s a = Some it \<Longrightarrow> bindS (item_at a) f s = f it s"
  by (simp add: bindS_def item_at_def)

lemma bindS_put_item [simp]: "bindS (put_item a it) f s = f () (s\<lparr>items := (items s)(a \<mapsto> it)\<rparr>)"
  by (simp add: put_item_def)

lemma on_item_split [simp]: "on_item a [] = []" "on_item a (xs @ ys) = on_item a xs @ on_item a ys" "on_item a (cb # ys) = (if cb_addr cb = Some a then [cb] else []) @ on_item a ys"
  by (simp_all add: on_item_def)

lemma on_object_split [simp]: "on_object m ob [] = []" "on_object m ob (xs @ ys) = on_object m ob xs @ on_object m ob ys"
  "on_object m ob (cb # ys) = (if IoObject (cb_item m cb) = ob then [cb] else []) @ on_object m ob ys"
  by (simp_all add: on_object_def)

lemma to_call_split [simp]: "to_call m [] = []" "to_call m (xs @ ys) = to_call m xs @ to_call m ys"
  "to_call m (cb # ys) = (if called cb then [] else [call_of (cb_item m cb)]) @ to_call m ys"
  by (simp_all add: to_call_def)
























text \<open>An item that was queued with an extended routine before runs it again, whatever the plain routine is.\<close>

lemma extended_routine_sticks:
  assumes "items s a = Some it" "WorkerRoutineEx it = f" "f \<noteq> 0" "a \<noteq> 0"
  shows "\<exists>s'. IoQueueWorkItem PASSIVE_LEVEL a r qt ctx s = Inr ((), s') \<and> call_of (cb_item (items s') (Submitted a)) = (IoObject it, True, f, ctx)"
  using assms by (simp add: IoQueueWorkItem_def submit_def bindS_item_at modify_def call_of_def)



section \<open>Properties\<close>



end
