(* ===== verification/Files.thy ===== *)
theory Files
  imports Namespace
begin

text \<open>
  Files: src/src/file.cpp and the file part of local.cpp.

  A path with a drive letter names a file in the temporary directory of the process, any other name a device.  The file functions of Windows are a parameter, the record \<open>WINFS\<close>; what is
  relied on of them is the locale \<open>winfs\<close>, which says what each call does to the files (by path) and to the table of open handles.  The state has that of Windows, the object manager
  and, for every file object, its CurrentByteOffset; \<open>apcs\<close> records the calls of the APC routines of the driver.
\<close>

section \<open>Definitions\<close>

type_synonym wstr = "WCHAR list"

record 'w WINFS =
  CreateDirectoryW :: "wstr \<Rightarrow> 'w \<Rightarrow> nat \<times> 'w"
  CreateFileW :: "wstr \<Rightarrow> ULONG \<Rightarrow> ULONG \<Rightarrow> nat \<Rightarrow> ULONG \<Rightarrow> 'w \<Rightarrow> (nat option \<times> nat) \<times> 'w"
  ReadFile :: "nat \<Rightarrow> nat \<Rightarrow> nat \<Rightarrow> 'w \<Rightarrow> (nat \<times> UCHAR list) \<times> 'w"
  WriteFile :: "nat \<Rightarrow> UCHAR list \<Rightarrow> nat \<Rightarrow> 'w \<Rightarrow> (nat \<times> nat) \<times> 'w"
  FlushFileBuffers :: "nat \<Rightarrow> 'w \<Rightarrow> nat \<times> 'w"
  GetFileInformationByHandleEx :: "nat \<Rightarrow> nat \<Rightarrow> nat \<Rightarrow> 'w \<Rightarrow> nat \<times> UCHAR list"
  DeleteFileW :: "wstr \<Rightarrow> 'w \<Rightarrow> nat \<times> 'w"
  CloseHandle :: "nat \<Rightarrow> 'w \<Rightarrow> 'w"

text \<open>The error codes of the functions are 0 for success; CreateFileW also sets the last error when it succeeds.\<close>

record IO_STATUS_BLOCK =
  Status :: NTSTATUS
  Information :: nat

record 'w FILES =
  ddk :: DDK
  win :: 'w
  TempDir :: wstr
  CurrentByteOffset :: "addr \<Rightarrow> 64 word"
  apcs :: "(nat \<times> nat \<times> IO_STATUS_BLOCK) list"

definition liftD :: "('a, DDK) st \<Rightarrow> ('a, 'w FILES) st" where
  "liftD m s = (case m (ddk s) of Inl e \<Rightarrow> Inl e | Inr (x, d) \<Rightarrow> Inr (x, s\<lparr>ddk := d\<rparr>))"

definition call_win :: "('w \<Rightarrow> 'a \<times> 'w) \<Rightarrow> ('a, 'w FILES) st" where
  "call_win f s = (case f (win s) of (x, w) \<Rightarrow> Inr (x, s\<lparr>win := w\<rparr>))"

abbreviation (input) ERROR_FILE_NOT_FOUND :: nat where "ERROR_FILE_NOT_FOUND \<equiv> 2"
abbreviation (input) ERROR_PATH_NOT_FOUND :: nat where "ERROR_PATH_NOT_FOUND \<equiv> 3"
abbreviation (input) ERROR_ACCESS_DENIED :: nat where "ERROR_ACCESS_DENIED \<equiv> 5"
abbreviation (input) ERROR_INVALID_HANDLE :: nat where "ERROR_INVALID_HANDLE \<equiv> 6"
abbreviation (input) ERROR_NOT_ENOUGH_MEMORY :: nat where "ERROR_NOT_ENOUGH_MEMORY \<equiv> 8"
abbreviation (input) ERROR_SHARING_VIOLATION :: nat where "ERROR_SHARING_VIOLATION \<equiv> 32"
abbreviation (input) ERROR_HANDLE_EOF :: nat where "ERROR_HANDLE_EOF \<equiv> 38"
abbreviation (input) ERROR_FILE_EXISTS :: nat where "ERROR_FILE_EXISTS \<equiv> 80"
abbreviation (input) ERROR_INVALID_PARAMETER :: nat where "ERROR_INVALID_PARAMETER \<equiv> 87"
abbreviation (input) ERROR_ALREADY_EXISTS :: nat where "ERROR_ALREADY_EXISTS \<equiv> 183"
abbreviation (input) ERROR_MORE_DATA :: nat where "ERROR_MORE_DATA \<equiv> 234"
abbreviation (input) ERROR_NOACCESS :: nat where "ERROR_NOACCESS \<equiv> 998"
abbreviation (input) STATUS_UNSUCCESSFUL :: NTSTATUS where "STATUS_UNSUCCESSFUL \<equiv> 0xC0000001"
abbreviation (input) STATUS_ACCESS_VIOLATION :: NTSTATUS where "STATUS_ACCESS_VIOLATION \<equiv> 0xC0000005"
abbreviation (input) STATUS_END_OF_FILE :: NTSTATUS where "STATUS_END_OF_FILE \<equiv> 0xC0000011"
abbreviation (input) STATUS_ACCESS_DENIED :: NTSTATUS where "STATUS_ACCESS_DENIED \<equiv> 0xC0000022"
abbreviation (input) STATUS_OBJECT_PATH_NOT_FOUND :: NTSTATUS where "STATUS_OBJECT_PATH_NOT_FOUND \<equiv> 0xC000003A"
abbreviation (input) STATUS_SHARING_VIOLATION :: NTSTATUS where "STATUS_SHARING_VIOLATION \<equiv> 0xC0000043"
abbreviation (input) STATUS_NOT_SUPPORTED :: NTSTATUS where "STATUS_NOT_SUPPORTED \<equiv> 0xC00000BB"
abbreviation (input) STATUS_STOPPED_ON_SYMLINK :: NTSTATUS where "STATUS_STOPPED_ON_SYMLINK \<equiv> 0x8000002D"
abbreviation (input) FILE_SUPERSEDED :: nat where "FILE_SUPERSEDED \<equiv> 0"
abbreviation (input) FILE_OPENED :: nat where "FILE_OPENED \<equiv> 1"
abbreviation (input) FILE_CREATED :: nat where "FILE_CREATED \<equiv> 2"
abbreviation (input) FILE_OVERWRITTEN :: nat where "FILE_OVERWRITTEN \<equiv> 3"
abbreviation (input) FILE_EXISTS :: nat where "FILE_EXISTS \<equiv> 4"
abbreviation (input) FILE_DOES_NOT_EXIST :: nat where "FILE_DOES_NOT_EXIST \<equiv> 5"
abbreviation (input) CREATE_NEW :: nat where "CREATE_NEW \<equiv> 1"
abbreviation (input) CREATE_ALWAYS :: nat where "CREATE_ALWAYS \<equiv> 2"
abbreviation (input) OPEN_EXISTING :: nat where "OPEN_EXISTING \<equiv> 3"
abbreviation (input) OPEN_ALWAYS :: nat where "OPEN_ALWAYS \<equiv> 4"
abbreviation (input) TRUNCATE_EXISTING :: nat where "TRUNCATE_EXISTING \<equiv> 5"
abbreviation (input) MAX_PATH :: nat where "MAX_PATH \<equiv> 260"

subsection \<open>Dispositions, options, error codes\<close>

text \<open>The six dispositions of the kernel are the numbers 0 (FILE_SUPERSEDE) to 5 (FILE_OVERWRITE_IF).  The result has the value stored in \<open>*pInfo\<close>, None when nothing is stored.\<close>

abbreviation (input) FILE_SUPERSEDE :: nat where "FILE_SUPERSEDE \<equiv> 0"
abbreviation (input) FILE_OPEN :: nat where "FILE_OPEN \<equiv> 1"
abbreviation (input) FILE_CREATE :: nat where "FILE_CREATE \<equiv> 2"
abbreviation (input) FILE_OPEN_IF :: nat where "FILE_OPEN_IF \<equiv> 3"
abbreviation (input) FILE_OVERWRITE :: nat where "FILE_OVERWRITE \<equiv> 4"
abbreviation (input) FILE_OVERWRITE_IF :: nat where "FILE_OVERWRITE_IF \<equiv> 5"

definition DdkGetFileDisposition :: "nat \<Rightarrow> nat \<times> nat option" where
  "DdkGetFileDisposition Disposition =
     (if Disposition = FILE_SUPERSEDE then (CREATE_ALWAYS, Some FILE_SUPERSEDED)
      else if Disposition = FILE_CREATE then (CREATE_NEW, Some FILE_CREATED)
      else if Disposition = FILE_OPEN then (OPEN_EXISTING, Some FILE_OPENED)
      else if Disposition = FILE_OPEN_IF then (OPEN_ALWAYS, Some FILE_OPENED)
      else if Disposition = FILE_OVERWRITE then (TRUNCATE_EXISTING, Some FILE_OVERWRITTEN)
      else if Disposition = FILE_OVERWRITE_IF then (CREATE_ALWAYS, Some FILE_OVERWRITTEN)
      else (2 ^ 32 - 1, None))"

definition DdkGetFileFlags :: "ULONG \<Rightarrow> ULONG" where
  "DdkGetFileFlags CreateOptions =
     (if CreateOptions AND 0x2 \<noteq> 0 then 0x80000000 else 0) OR (if CreateOptions AND 0x8 \<noteq> 0 then 0x20000000 else 0) OR
     (if CreateOptions AND 0x1000 \<noteq> 0 then 0x04000000 else 0) OR (if CreateOptions AND 0x1 \<noteq> 0 then 0x02000000 else 0)"

definition DdkGetFileStatus :: "nat \<Rightarrow> NTSTATUS" where
  "DdkGetFileStatus rc =
     (if rc = 0 then STATUS_SUCCESS
      else if rc = ERROR_ACCESS_DENIED then STATUS_ACCESS_DENIED
      else if rc = ERROR_NOT_ENOUGH_MEMORY then STATUS_INSUFFICIENT_RESOURCES
      else if rc = ERROR_INVALID_HANDLE then STATUS_INVALID_HANDLE
      else if rc = ERROR_FILE_NOT_FOUND then STATUS_OBJECT_NAME_NOT_FOUND
      else if rc = ERROR_FILE_EXISTS then STATUS_OBJECT_NAME_COLLISION
      else if rc = ERROR_SHARING_VIOLATION then STATUS_SHARING_VIOLATION
      else if rc = ERROR_MORE_DATA then STATUS_BUFFER_TOO_SMALL
      else if rc = ERROR_INVALID_PARAMETER then STATUS_INVALID_PARAMETER
      else if rc = ERROR_NOACCESS then STATUS_ACCESS_VIOLATION
      else if rc = ERROR_HANDLE_EOF then STATUS_END_OF_FILE
      else if rc = ERROR_PATH_NOT_FOUND then STATUS_OBJECT_PATH_NOT_FOUND
      else STATUS_UNSUCCESSFUL)"

subsection \<open>Paths\<close>

definition separator :: "WCHAR \<Rightarrow> bool" where
  "separator c \<longleftrightarrow> c = 0x5C \<or> c = 0x2F"

text \<open>Leading backslashes and the prefix of the object directory \<open>??\<close>.\<close>

definition skip_prefix :: "wstr \<Rightarrow> wstr" where
  "skip_prefix path =
     (let wp = dropWhile (\<lambda>c. c = 0x5C) path in if 3 \<le> length wp \<and> take 3 wp = [0x3F, 0x3F, 0x5C] then drop 3 wp else wp)"

definition has_drive :: "wstr \<Rightarrow> bool" where
  "has_drive wp \<longleftrightarrow> 2 \<le> length wp \<and> wp ! 1 = 0x3A"

definition DdkIsFilePath :: "wstr \<Rightarrow> bool" where
  "DdkIsFilePath path = has_drive (skip_prefix path)"

definition strip_path :: "wstr \<Rightarrow> wstr" where
  "strip_path path = (let wp = skip_prefix path in dropWhile separator (if has_drive wp then drop 2 wp else wp))"

text \<open>The loop that creates the directories: \<open>pre\<close> is the path up to the index, \<open>rest\<close> what follows.  It leaves backslashes where it has found a separator.\<close>

function CreateDirs :: "'w WINFS \<Rightarrow> wstr \<Rightarrow> wstr \<Rightarrow> (wstr, 'w FILES) st" where
  "CreateDirs W pre rest =
     (let seg = takeWhile (\<lambda>c. \<not> separator c) rest; rest' = dropWhile (\<lambda>c. \<not> separator c) rest
      in if rest' = [] then ret (pre @ rest)
         else bindS (call_win (CreateDirectoryW W (pre @ seg))) (\<lambda>_. CreateDirs W (pre @ seg @ [0x5C]) (tl rest')))"
  by pat_completeness auto
termination
proof (relation "measure (\<lambda>(W, pre, rest). length rest)")
  fix W :: "'w WINFS" and pre rest x xa xb
  assume "xa = dropWhile (\<lambda>c. \<not> separator c) rest" "xa \<noteq> []"
  then have "length xa \<le> length rest" "0 < length xa" using length_dropWhile_le [of "\<lambda>c. \<not> separator c" rest] by simp_all
  then have "length (tl xa) < length rest" by (cases xa) simp_all
  then show "((W, pre @ x @ [0x5C], tl xa), W, pre, rest) \<in> measure (\<lambda>(W, pre, rest). length rest)" by simp
qed simp

text \<open>
  The path of the local file in a buffer of \<open>len\<close> characters.  \<open>_snwprintf\<close> stops at a null, and ends the string with one only if there is room: a path that fills the buffer or does not fit
  is not terminated, which reading it as a string finds out.
\<close>

definition DdkGetLocalPath :: "'w WINFS \<Rightarrow> nat \<Rightarrow> wstr \<Rightarrow> bool \<Rightarrow> (wstr, 'w FILES) st" where
  "DdkGetLocalPath W len path create =
     bindS (gets TempDir) (\<lambda>tmp.
     let local = takeWhile (\<lambda>c. c \<noteq> 0) (strip_path path)
     in if len \<le> length tmp + length local then fail Fault
        else if create then CreateDirs W tmp local else ret (tmp @ local))"

subsection \<open>File objects\<close>

definition GetFileFromHandle :: "nat \<Rightarrow> (addr option, 'w FILES) st" where
  "GetFileFromHandle h =
     bindS (liftD (FromHandle h)) (\<lambda>pObj.
     case pObj of
       None \<Rightarrow> ret None
     | Some a \<Rightarrow> bindS (liftD (lookup a)) (\<lambda>ob. ret (if otype ob = IoFileType then Some a else None)))"

definition SetStatus :: "NTSTATUS \<Rightarrow> nat \<Rightarrow> (NTSTATUS \<times> IO_STATUS_BLOCK option, 'w FILES) st" where
  "SetStatus status info = ret (status, Some \<lparr>Status = status, Information = info\<rparr>)"

definition DdkAllocFile :: "(addr option, 'w FILES) st" where
  "DdkAllocFile =
     bindS (liftD (DdkAllocObject (FILEOBJ NullPtr) IoFileType True)) (\<lambda>p.
     case p of None \<Rightarrow> ret None | Some a \<Rightarrow> bindS (modify (\<lambda>s. s\<lparr>CurrentByteOffset := (CurrentByteOffset s)(a := 0)\<rparr>)) (\<lambda>_. ret (Some a)))"

text \<open>The result of opening: the status block and the file object, if there is one.\<close>

definition DdkIoCreateDevice :: "wstr \<Rightarrow> ULONG \<Rightarrow> ((NTSTATUS \<times> IO_STATUS_BLOCK option) \<times> addr option, 'w FILES) st" where
  "DdkIoCreateDevice ObjectName Options =
     bindS (liftD (DdkLookupName ObjectName [])) (\<lambda>pObj.
     bindS (case pObj of None \<Rightarrow> ret None | Some a \<Rightarrow> bindS (liftD (lookup a)) (\<lambda>ob. ret (Some (otype ob)))) (\<lambda>ty.
     if ty = Some IoSymbolicLinkType \<and> Options AND 8 \<noteq> 0
     then bindS (SetStatus STATUS_STOPPED_ON_SYMLINK FILE_DOES_NOT_EXIST) (\<lambda>r. ret (r, None))
     else
       bindS (if ty = Some IoSymbolicLinkType then liftD (DdkResolveSymbolicLink pObj) else ret pObj) (\<lambda>pDev.
       bindS (case pDev of None \<Rightarrow> ret None | Some a \<Rightarrow> bindS (liftD (lookup a)) (\<lambda>ob. ret (if otype ob = IoDeviceType then Some a else None))) (\<lambda>dev.
       case dev of
         None \<Rightarrow> bindS (SetStatus STATUS_OBJECT_NAME_NOT_FOUND FILE_DOES_NOT_EXIST) (\<lambda>r. ret (r, None))
       | Some d \<Rightarrow>
           bindS DdkAllocFile (\<lambda>pFile.
           case pFile of
             None \<Rightarrow>
               bindS (liftD (DdkDereferenceObject d)) (\<lambda>_.
               bindS (SetStatus STATUS_INSUFFICIENT_RESOURCES FILE_EXISTS) (\<lambda>r. ret (r, None)))
           | Some f \<Rightarrow>
               bindS (liftD (ToPointer d)) (\<lambda>p.
               bindS (liftD (update f (\<lambda>ob. ob\<lparr>body := FILEOBJ p\<rparr>))) (\<lambda>_.
               bindS (SetStatus STATUS_SUCCESS FILE_OPENED) (\<lambda>r. ret (r, Some f)))))))))"

text \<open>The result: the status, the disposition for CreateFileW and whether the directory was created.\<close>

definition DdkIoCreateDir :: "'w WINFS \<Rightarrow> wstr \<Rightarrow> nat \<Rightarrow> nat \<Rightarrow> (NTSTATUS \<times> nat \<times> bool, 'w FILES) st" where
  "DdkIoCreateDir W path Disposition disp =
     (if Disposition \<noteq> FILE_CREATE \<and> Disposition \<noteq> FILE_OPEN \<and> Disposition \<noteq> FILE_OPEN_IF then ret (STATUS_INVALID_PARAMETER, disp, True)
      else if Disposition = FILE_OPEN then ret (STATUS_SUCCESS, disp, True)
      else
        let disp' = fst (DdkGetFileDisposition FILE_OPEN)
        in bindS (call_win (CreateDirectoryW W path)) (\<lambda>rc.
           if rc = ERROR_ALREADY_EXISTS then ret (if Disposition \<noteq> FILE_CREATE then STATUS_SUCCESS else STATUS_OBJECT_NAME_COLLISION, disp', False)
           else if rc \<noteq> 0 then ret (DdkGetFileStatus rc, disp', True)
           else ret (STATUS_SUCCESS, disp', True)))"

text \<open>\<open>info\<close> is not initialised when the disposition is none of the six; the status block then gets whatever it is, 0 here.\<close>

definition DdkIoCreateFile ::
  "'w WINFS \<Rightarrow> ULONG \<Rightarrow> wstr \<Rightarrow> ULONG \<Rightarrow> ULONG \<Rightarrow> nat \<Rightarrow> ULONG \<Rightarrow> ((NTSTATUS \<times> IO_STATUS_BLOCK option) \<times> addr option, 'w FILES) st" where
  "DdkIoCreateFile W DesiredAccess ObjectName FileAttributes ShareAccess Disposition CreateOptions =
     bindS (DdkGetLocalPath W (MAX_PATH + 1) ObjectName (Disposition \<noteq> FILE_OPEN \<and> Disposition \<noteq> FILE_OVERWRITE)) (\<lambda>path.
     case DdkGetFileDisposition Disposition of (disp, inf0) \<Rightarrow>
     bindS (if CreateOptions AND 1 \<noteq> 0 then DdkIoCreateDir W path Disposition disp else ret (STATUS_SUCCESS, disp, True)) (\<lambda>(status, disp, created).
     if \<not> NT_SUCCESS status then bindS (SetStatus status 0) (\<lambda>r. ret (r, None))
     else
       bindS (call_win (CreateFileW W path DesiredAccess ShareAccess disp (FileAttributes OR DdkGetFileFlags CreateOptions))) (\<lambda>(h, rc).
       case h of
         None \<Rightarrow> bindS (SetStatus (DdkGetFileStatus rc) (if rc = ERROR_FILE_EXISTS then FILE_EXISTS else FILE_DOES_NOT_EXIST)) (\<lambda>r. ret (r, None))
       | Some h \<Rightarrow>
           let info = (if (Disposition = FILE_SUPERSEDE \<or> Disposition = FILE_OPEN_IF \<or> Disposition = FILE_OVERWRITE_IF) \<and> rc \<noteq> ERROR_ALREADY_EXISTS \<and> created
                       then FILE_CREATED else case inf0 of None \<Rightarrow> 0 | Some i \<Rightarrow> i)
           in bindS DdkAllocFile (\<lambda>pFile.
              case pFile of
                None \<Rightarrow>
                  bindS (call_win (\<lambda>w. ((), CloseHandle W h w))) (\<lambda>_.
                  bindS (SetStatus STATUS_INSUFFICIENT_RESOURCES FILE_EXISTS) (\<lambda>r. ret (r, None)))
              | Some f \<Rightarrow>
                  bindS (liftD (update f (\<lambda>ob. ob\<lparr>handle := Some h\<rparr>))) (\<lambda>_.
                  bindS (SetStatus STATUS_SUCCESS info) (\<lambda>r. ret (r, Some f)))))))"

subsection \<open>The kernel routines\<close>

text \<open>
  ObjectAttributes is the name, None for a null pointer, and whether there is a RootDirectory; \<open>iosb\<close> tells whether there is a status block.  The result is the status, what is stored in the block, and the handle.
\<close>

definition IoCreateFileEx ::
  "'w WINFS \<Rightarrow> ULONG \<Rightarrow> (wstr option \<times> bool) option \<Rightarrow> bool \<Rightarrow> ULONG \<Rightarrow> ULONG \<Rightarrow> nat \<Rightarrow> ULONG \<Rightarrow> ULONG \<Rightarrow>
   ((NTSTATUS \<times> IO_STATUS_BLOCK option) \<times> nat option, 'w FILES) st" where
  "IoCreateFileEx W DesiredAccess ObjectAttributes iosb FileAttributes ShareAccess Disposition CreateOptions Options =
     (case ObjectAttributes of
        Some (Some name, root) \<Rightarrow>
          if \<not> iosb then ret ((STATUS_INVALID_PARAMETER, None), None)
          else
            bindS (assertS (\<lambda>_. \<not> root) ''!ObjectAttributes->RootDirectory'') (\<lambda>_.
            bindS (if \<not> DdkIsFilePath name then DdkIoCreateDevice name Options
                   else DdkIoCreateFile W DesiredAccess name FileAttributes ShareAccess Disposition CreateOptions) (\<lambda>(r, pFile).
            if \<not> NT_SUCCESS (fst r) then ret (r, None)
            else case pFile of None \<Rightarrow> fail Fault | Some f \<Rightarrow> ret (r, Some (ToHandle f))))
      | _ \<Rightarrow> ret ((STATUS_INVALID_PARAMETER, None), None))"

definition IoCreateFile ::
  "'w WINFS \<Rightarrow> ULONG \<Rightarrow> (wstr option \<times> bool) option \<Rightarrow> bool \<Rightarrow> ULONG \<Rightarrow> ULONG \<Rightarrow> nat \<Rightarrow> ULONG \<Rightarrow> ULONG \<Rightarrow>
   ((NTSTATUS \<times> IO_STATUS_BLOCK option) \<times> nat option, 'w FILES) st" where
  "IoCreateFile W DesiredAccess ObjectAttributes iosb FileAttributes ShareAccess Disposition CreateOptions Options =
     IoCreateFileEx W DesiredAccess ObjectAttributes iosb FileAttributes ShareAccess Disposition CreateOptions Options"

definition ZwOpenFile ::
  "'w WINFS \<Rightarrow> ULONG \<Rightarrow> (wstr option \<times> bool) option \<Rightarrow> bool \<Rightarrow> ULONG \<Rightarrow> ULONG \<Rightarrow> ((NTSTATUS \<times> IO_STATUS_BLOCK option) \<times> nat option, 'w FILES) st" where
  "ZwOpenFile W DesiredAccess ObjectAttributes iosb ShareAccess OpenOptions =
     IoCreateFileEx W DesiredAccess ObjectAttributes iosb 0 ShareAccess FILE_OPEN OpenOptions 0"

definition ZwCreateFile ::
  "'w WINFS \<Rightarrow> ULONG \<Rightarrow> (wstr option \<times> bool) option \<Rightarrow> bool \<Rightarrow> ULONG \<Rightarrow> ULONG \<Rightarrow> nat \<Rightarrow> ULONG \<Rightarrow> ((NTSTATUS \<times> IO_STATUS_BLOCK option) \<times> nat option, 'w FILES) st" where
  "ZwCreateFile W DesiredAccess ObjectAttributes iosb FileAttributes ShareAccess CreateDisposition CreateOptions =
     IoCreateFileEx W DesiredAccess ObjectAttributes iosb FileAttributes ShareAccess CreateDisposition CreateOptions 0"






definition ZwFlushBuffersFile :: "'w WINFS \<Rightarrow> nat \<Rightarrow> bool \<Rightarrow> (NTSTATUS \<times> IO_STATUS_BLOCK option, 'w FILES) st" where
  "ZwFlushBuffersFile W FileHandle iosb =
     bindS (GetFileFromHandle FileHandle) (\<lambda>pFile.
     case pFile of
       None \<Rightarrow> ret (STATUS_INVALID_HANDLE, None)
     | Some f \<Rightarrow>
         bindS (liftD (lookup f)) (\<lambda>ob.
         bindS (call_win (FlushFileBuffers W (case handle ob of None \<Rightarrow> 0 | Some h \<Rightarrow> h))) (\<lambda>rc.
         if \<not> iosb then fail Fault else SetStatus (if rc \<noteq> 0 then DdkGetFileStatus rc else STATUS_SUCCESS) 0)))"

text \<open>The classes 4 (basic), 5 (standard) and 14 (position); the result is the error code, the number of bytes copied and the bytes.\<close>

definition DdkGetFileInfo :: "'w WINFS \<Rightarrow> nat \<Rightarrow> nat \<Rightarrow> nat \<Rightarrow> nat \<Rightarrow> (nat \<times> nat \<times> UCHAR list, 'w FILES) st" where
  "DdkGetFileInfo W h cls len InfoSize =
     (if cls = 4 \<or> cls = 5 then
        bindS (assertS (\<lambda>_. InfoSize = (if cls = 4 then 40 else 24)) ''sizeof(FILE_INFO) == InfoSize'') (\<lambda>_.
        bindS (gets (\<lambda>s. GetFileInformationByHandleEx W h (if cls = 4 then 0 else 1) len (win s))) (\<lambda>(rc, data).
        ret (if rc = 0 then (0, InfoSize, data) else (rc, 0, []))))
      else ret (ERROR_INVALID_PARAMETER, 0, []))"

definition qword_bytes :: "64 word \<Rightarrow> UCHAR list" where
  "qword_bytes x = map (\<lambda>i. ucast (drop_bit (8 * i) x)) [0..<8]"

definition ZwQueryInformationFile ::
  "'w WINFS \<Rightarrow> nat \<Rightarrow> bool \<Rightarrow> bool \<Rightarrow> nat \<Rightarrow> nat \<Rightarrow> ((NTSTATUS \<times> IO_STATUS_BLOCK option) \<times> UCHAR list, 'w FILES) st" where
  "ZwQueryInformationFile W FileHandle iosb buf len FileInformationClass =
     bindS (GetFileFromHandle FileHandle) (\<lambda>pFile.
     case pFile of
       None \<Rightarrow> ret ((STATUS_INVALID_HANDLE, None), [])
     | Some f \<Rightarrow>
         if \<not> iosb \<or> \<not> buf then ret ((STATUS_INVALID_PARAMETER, None), [])
         else
           bindS (liftD (lookup f)) (\<lambda>ob.
           if FileInformationClass = 4 \<or> FileInformationClass = 5 then
             bindS (DdkGetFileInfo W (case handle ob of None \<Rightarrow> 0 | Some h \<Rightarrow> h) FileInformationClass len (if FileInformationClass = 4 then 40 else 24)) (\<lambda>(rc, bytes, data).
             bindS (SetStatus (if rc \<noteq> 0 then DdkGetFileStatus rc else STATUS_SUCCESS) bytes) (\<lambda>r. ret (r, data)))
           else if FileInformationClass = 14 then
             if len < 8 then bindS (SetStatus STATUS_BUFFER_TOO_SMALL 0) (\<lambda>r. ret (r, []))
             else bindS (gets (\<lambda>s. CurrentByteOffset s f)) (\<lambda>x. bindS (SetStatus STATUS_SUCCESS 8) (\<lambda>r. ret (r, qword_bytes x)))
           else bindS (SetStatus STATUS_NOT_SUPPORTED 0) (\<lambda>r. ret (r, []))))"

definition ZwDeleteFile :: "'w WINFS \<Rightarrow> wstr option \<Rightarrow> (NTSTATUS, 'w FILES) st" where
  "ZwDeleteFile W ObjectAttributes =
     (case ObjectAttributes of
        None \<Rightarrow> ret STATUS_INVALID_PARAMETER
      | Some name \<Rightarrow>
          bindS (DdkGetLocalPath W (MAX_PATH + 1) name False) (\<lambda>path.
          bindS (call_win (DeleteFileW W path)) (\<lambda>rc. ret (if rc \<noteq> 0 then DdkGetFileStatus rc else STATUS_SUCCESS))))"

definition ZwQueryDirectoryFile :: "nat \<Rightarrow> NTSTATUS" where
  "ZwQueryDirectoryFile FileHandle = STATUS_OBJECT_NAME_NOT_FOUND"

definition DdkGetFilePointer :: "nat \<Rightarrow> (PVOID, 'w FILES) st" where
  "DdkGetFilePointer FileHandle =
     bindS (liftD (FromHandle FileHandle)) (\<lambda>pObj.
     case pObj of
       None \<Rightarrow> fail (DdkFail ''Invalid file object specified'')
     | Some a \<Rightarrow> bindS (liftD (GetFile a)) (\<lambda>_. liftD (ToPointer a)))"

section \<open>What is relied on of Windows\<close>

text \<open>
  Files by their path, in the form in which paths are compared; the directories; the files that handles are open for.  \<open>vplain\<close> are the handles that read and write at the given offset and leave the file in place when they are
  closed: those opened without FILE_FLAG_OVERLAPPED and FILE_FLAG_DELETE_ON_CLOSE, and not with FILE_APPEND_DATA alone, which always appends.  The laws for reading, writing and closing are for these.  Writing past the end of a file fills the gap with zeros, writing nothing changes nothing,
  and the offset with all bits set stands for the end of the file.
\<close>

record FSVIEW =
  vfiles :: "wstr \<rightharpoonup> UCHAR list"
  vdirs :: "wstr set"
  vopen :: "nat \<rightharpoonup> wstr"
  vplain :: "nat set"

definition splice :: "nat \<Rightarrow> UCHAR list \<Rightarrow> UCHAR list \<Rightarrow> UCHAR list" where
  "splice off data c = (if data = [] then c else take off (c @ replicate (off - length c) 0) @ data @ drop (off + length data) c)"

abbreviation (input) END_OF_FILE :: nat where "END_OF_FILE \<equiv> 0xFFFFFFFFFFFFFFFF"

definition write_at :: "nat \<Rightarrow> UCHAR list \<Rightarrow> UCHAR list \<Rightarrow> UCHAR list" where
  "write_at off data c = splice (if off = END_OF_FILE then length c else off) data c"

definition plain_open :: "ULONG \<Rightarrow> ULONG \<Rightarrow> bool" where
  "plain_open acc fl \<longleftrightarrow> fl AND 0x44000000 = 0 \<and> acc AND 6 \<noteq> 4"


declare CreateDirs.simps [simp del]

section \<open>Lemmas\<close>

lemma bindS_call_fs: "f (win s) = (x, w) \<Longrightarrow> bindS (call_win f) k s = k x (s\<lparr>win := w\<rparr>)"
  by (simp add: bindS_def call_win_def)

lemma bindS_liftD: "m (ddk s) = Inr (x, d) \<Longrightarrow> bindS (liftD m) k s = k x (s\<lparr>ddk := d\<rparr>)"
  by (simp add: bindS_def liftD_def)




subsection \<open>Paths\<close>

text \<open>The directories of a local path: what stands before each separator, with all earlier separators as backslashes.\<close>

definition norm :: "wstr \<Rightarrow> wstr" where
  "norm ws = map (\<lambda>c. if separator c then 0x5C else c) ws"

definition dirs_of :: "wstr \<Rightarrow> wstr \<Rightarrow> wstr list" where
  "dirs_of pre rest = map (\<lambda>i. pre @ norm (take i rest)) (filter (\<lambda>i. separator (rest ! i)) [0..<length rest])"

fun create_each :: "'w WINFS \<Rightarrow> wstr list \<Rightarrow> 'w \<Rightarrow> 'w" where
  "create_each W [] w = w"
| "create_each W (p # ps) w = create_each W ps (snd (CreateDirectoryW W p w))"

lemma norm_simps [simp]: "norm [] = []" "norm (xs @ ys) = norm xs @ norm ys" "norm (c # xs) = (if separator c then 0x5C else c) # norm xs" "length (norm xs) = length xs"
  by (simp_all add: norm_def)

lemma norm_plain: "(\<And>c. c \<in> set seg \<Longrightarrow> \<not> separator c) \<Longrightarrow> norm seg = seg"
  by (induction seg) simp_all

lemma dirs_of_plain: "(\<And>c. c \<in> set seg \<Longrightarrow> \<not> separator c) \<Longrightarrow> dirs_of pre seg = []"
  by (simp add: dirs_of_def filter_empty_conv)

lemma upt_split: "[0..<n + Suc m] = [0..<n] @ n # map (\<lambda>i. n + 1 + i) [0..<m]"
  by (induction m) simp_all

lemma dirs_of_split:
  assumes "\<And>c. c \<in> set seg \<Longrightarrow> \<not> separator c" "separator x"
  shows "dirs_of pre (seg @ x # ys) = (pre @ seg) # dirs_of (pre @ seg @ [0x5C]) ys"
proof -
  have upt: "[0..<length (seg @ x # ys)] = [0..<length seg] @ length seg # map (\<lambda>i. length seg + 1 + i) [0..<length ys]"
    using upt_split [of "length seg" "length ys"] by simp
  have none: "filter (\<lambda>i. separator ((seg @ x # ys) ! i)) [0..<length seg] = []" using assms(1) by (auto simp: filter_empty_conv nth_append)
  show ?thesis unfolding dirs_of_def upt using none assms norm_plain [of seg]
    by (simp add: filter_map o_def nth_append)
qed

lemma CreateDirs_eq: "CreateDirs W pre rest s = Inr (pre @ norm rest, s\<lparr>win := create_each W (dirs_of pre rest) (win s)\<rparr>)"
proof (induction W pre rest arbitrary: s rule: CreateDirs.induct)
  case (1 W pre rest)
  let ?seg = "takeWhile (\<lambda>c. \<not> separator c) rest" and ?rest = "dropWhile (\<lambda>c. \<not> separator c) rest"
  have seg: "\<And>c. c \<in> set ?seg \<Longrightarrow> \<not> separator c" by (auto dest: set_takeWhileD)
  show ?case
  proof (cases ?rest)
    case Nil
    then have plain: "\<And>c. c \<in> set rest \<Longrightarrow> \<not> separator c" by simp
    have "CreateDirs W pre rest s = Inr (pre @ rest, s)" using Nil by (subst CreateDirs.simps) (simp add: ret_def)
    then show ?thesis by (simp add: norm_plain [OF plain] dirs_of_plain [OF plain])
  next
    case (Cons x ys)
    then have x: "separator x" using hd_dropWhile [of "\<lambda>c. \<not> separator c" rest] by (metis list.sel(1) list.simps(3))
    have rest: "rest = ?seg @ x # ys" by (metis Cons takeWhile_dropWhile_id)
    obtain rc w where w: "CreateDirectoryW W (pre @ ?seg) (win s) = (rc, w)" by (cases "CreateDirectoryW W (pre @ ?seg) (win s)")
    have "CreateDirs W pre rest s = CreateDirs W (pre @ ?seg @ [0x5C]) ys (s\<lparr>win := w\<rparr>)"
      using Cons by (subst CreateDirs.simps) (simp add: Let_def bindS_def call_win_def w)
    also have "\<dots> = Inr ((pre @ ?seg @ [0x5C]) @ norm ys, s\<lparr>win := create_each W (dirs_of (pre @ ?seg @ [0x5C]) ys) w\<rparr>)"
      using 1 [OF refl refl] Cons by simp
    also have "(pre @ ?seg @ [0x5C]) @ norm ys = pre @ norm rest" by (subst (2) rest) (simp add: norm_plain [OF seg] x)
    also have "create_each W (dirs_of (pre @ ?seg @ [0x5C]) ys) w = create_each W (dirs_of pre rest) (win s)"
      by (subst (2) rest) (simp add: dirs_of_split [OF seg x] w)
    finally show ?thesis .
  qed
qed

lemma DdkGetLocalPath_eq:
  assumes "length (TempDir s) + length (takeWhile (\<lambda>c. c \<noteq> 0) (strip_path path)) < n"
  shows "DdkGetLocalPath W n path create s =
    (let l = takeWhile (\<lambda>c. c \<noteq> 0) (strip_path path)
     in Inr (TempDir s @ (if create then norm l else l), if create then s\<lparr>win := create_each W (dirs_of (TempDir s) l) (win s)\<rparr> else s))"
  using assms by (simp add: DdkGetLocalPath_def Let_def CreateDirs_eq ret_def)

subsection \<open>Reading and writing\<close>






text \<open>The path of the local file of a name, and when it can be used for a file.\<close>

definition local_name :: "wstr \<Rightarrow> wstr" where
  "local_name name = takeWhile (\<lambda>c. c \<noteq> 0) (strip_path name)"







section \<open>A file system in memory\<close>

text \<open>
  An executable instance of the interface; letters are compared without their case, and both separators are the same.  A file can be created in a directory that exists only.
\<close>

record MEMFS =
  mfiles :: "wstr \<rightharpoonup> UCHAR list"
  mdirs :: "wstr list"
  mopen :: "nat \<rightharpoonup> wstr"
  mplain :: "nat list"
  mnext :: nat

definition mcanon :: "wstr \<Rightarrow> wstr" where
  "mcanon p = map (\<lambda>c. if 0x61 \<le> c \<and> c \<le> 0x7A then c - 0x20 else if c = 0x2F then 0x5C else c) p"


definition mparent :: "wstr \<Rightarrow> wstr" where
  "mparent p = rev (tl (dropWhile (\<lambda>c. c \<noteq> 0x5C) (rev p)))"

definition mview :: "MEMFS \<Rightarrow> FSVIEW" where
  "mview w = \<lparr>vfiles = mfiles w, vdirs = set (mdirs w), vopen = (\<lambda>h. if h < mnext w then mopen w h else None), vplain = set (mplain w)\<rparr>"

definition mopen_file :: "bool \<Rightarrow> wstr \<Rightarrow> UCHAR list \<Rightarrow> nat \<Rightarrow> MEMFS \<Rightarrow> (nat option \<times> nat) \<times> MEMFS" where
  "mopen_file plain p c rc w = ((Some (mnext w), rc), w\<lparr>mfiles := (mfiles w)(p \<mapsto> c), mopen := (mopen w)(mnext w \<mapsto> p),
     mplain := (if plain then [mnext w] else []) @ filter (\<lambda>h. h \<noteq> mnext w) (mplain w), mnext := mnext w + 1\<rparr>)"

definition mcreate :: "bool \<Rightarrow> wstr \<Rightarrow> nat \<Rightarrow> MEMFS \<Rightarrow> (nat option \<times> nat) \<times> MEMFS" where
  "mcreate plain p d w =
     (let p = mcanon p
      in if d = 0 \<or> 5 < d then ((None, ERROR_INVALID_PARAMETER), w)
         else case mfiles w p of
                None \<Rightarrow>
                  if mparent p \<notin> set (mdirs w) then ((None, ERROR_PATH_NOT_FOUND), w)
                  else if d = OPEN_EXISTING \<or> d = TRUNCATE_EXISTING then ((None, ERROR_FILE_NOT_FOUND), w) else mopen_file plain p [] 0 w
              | Some c \<Rightarrow>
                  if d = CREATE_NEW then ((None, ERROR_FILE_EXISTS), w)
                  else mopen_file plain p (if d = OPEN_EXISTING \<or> d = OPEN_ALWAYS then c else []) (if d = CREATE_ALWAYS \<or> d = OPEN_ALWAYS then ERROR_ALREADY_EXISTS else 0) w)"

definition mcontents :: "nat \<Rightarrow> MEMFS \<Rightarrow> (wstr \<times> UCHAR list) option" where
  "mcontents h w = (case vopen (mview w) h of None \<Rightarrow> None | Some p \<Rightarrow> map_option (Pair p) (mfiles w p))"

definition mem_fs :: "MEMFS WINFS" where
  "mem_fs =
     \<lparr>CreateDirectoryW = (\<lambda>p w. if mcanon p \<in> set (mdirs w) then (ERROR_ALREADY_EXISTS, w) else (0, w\<lparr>mdirs := mcanon p # mdirs w\<rparr>)),
      CreateFileW = (\<lambda>p acc sh d fl w. mcreate (plain_open acc fl) p d w),
      ReadFile = (\<lambda>h n off w. case mcontents h w of
         None \<Rightarrow> ((ERROR_INVALID_HANDLE, []), w)
       | Some (p, c) \<Rightarrow> if 0 < n \<and> length c \<le> off then ((ERROR_HANDLE_EOF, []), w) else ((0, take n (drop off c)), w)),
      WriteFile = (\<lambda>h data off w. case mcontents h w of
         None \<Rightarrow> ((ERROR_INVALID_HANDLE, 0), w)
       | Some (p, c) \<Rightarrow> ((0, length data), w\<lparr>mfiles := (mfiles w)(p \<mapsto> write_at off data c)\<rparr>)),
      FlushFileBuffers = (\<lambda>h w. (0, w)),
      GetFileInformationByHandleEx = (\<lambda>h cls len w. (ERROR_INVALID_HANDLE, [])),
      DeleteFileW = (\<lambda>p w. if mfiles w (mcanon p) = None then (ERROR_FILE_NOT_FOUND, w) else (0, w\<lparr>mfiles := (mfiles w)(mcanon p := None)\<rparr>)),
      CloseHandle = (\<lambda>h w. w\<lparr>mopen := (mopen w)(h := None), mplain := filter (\<lambda>g. g \<noteq> h) (mplain w)\<rparr>)\<rparr>"



section \<open>Files for devices\<close>

text \<open>A file object that has a device, with its only reference; closing it gives the reference to the device back.\<close>

definition device_file :: "addr \<Rightarrow> OBJECT" where
  "device_file dev = \<lparr>otype = IoFileType, alloc = True, refcount = 1, handle = None, body = FILEOBJ (PublicPtr dev)\<rparr>"

lemma wrap32_one: "wrap32 0 = 0" "wrap32 1 = 1"
  by (simp_all add: wrap32_small)

lemma close_device_file:
  assumes f: "heap d f = Some (device_file dev)" "f \<noteq> 0" "even f" "name_refs d f = 0" and dev: "heap d dev = Some ob" "otype ob = IoDeviceType" "1 < refcount ob" "refcount ob < 2 ^ 31" "dev \<noteq> f"
    and irql: "irql d = PASSIVE_LEVEL"
  shows "ZwClose (ToHandle f) d = Inr (STATUS_SUCCESS, d\<lparr>heap := (heap d)(dev \<mapsto> ob\<lparr>refcount := refcount ob - 1\<rparr>, f := None)\<rparr>)"
proof -
  obtain k where "f = 2 * k" using f(3) by (elim evenE)
  then have h: "ToHandle f mod 2 = 1" "ToHandle f - ToHandle f mod 2 = f" by (simp_all add: ToHandle_def)
  have fh: "FromHandle (ToHandle f) d = Inr (Some f, d)" using h f(1,2) by (simp add: FromHandle_def Let_def bindS_def lookup_def ret_def isHandleObject_def device_file_def)
  have ptr: "FromPointer (HeaderPtr f) d = Inr (f, d)" using f(1) by (simp add: FromPointer_def bindS_def lookup_def ret_def device_file_def)
  define d1 where "d1 = d\<lparr>heap := (heap d)(f \<mapsto> (device_file dev)\<lparr>refcount := 0\<rparr>)\<rparr>"
  define d2 where "d2 = d\<lparr>heap := (heap d)(f \<mapsto> (device_file dev)\<lparr>refcount := 0\<rparr>, dev \<mapsto> ob\<lparr>refcount := refcount ob - 1\<rparr>)\<rparr>"
  have low: "Dereference 3 dev d1 = Inr ((), d2)"
    using dev by (simp add: numeral_3_eq_3 bindS_def update_def lookup_def ret_def d1_def d2_def wrap32_small)
  have free: "FreeFileObject (Dereference 3) f d1 = Inr ((), d2)"
    using dev low by (simp add: FreeFileObject_def GetFile_def FromPointer_def bindS_def lookup_def ret_def isPublicObject_def device_file_def d1_def)
  have "name_refs d2 f = 0" using f(4) by (simp add: d2_def name_refs_def)
  then have rem: "RemoveObjectName (Dereference 3) f d2 = Inr ((), d2)" by (rule RemoveObjectName_none)
  have "FreeObject (Dereference 3) f d1 = Inr ((), d2\<lparr>heap := (heap d2)(f := None)\<rparr>)"
    using free rem by (simp add: FreeObject_def FreeByType_def CloseObjectHandle_def bindS_def [of "lookup f"] bindS_def [of "FreeFileObject (Dereference 3) f"] bindS_def [of "RemoveObjectName (Dereference 3) f"]
        lookup_def d1_def device_file_def modify_def)
  then have "Dereference 4 f d = Inr ((), d2\<lparr>heap := (heap d2)(f := None)\<rparr>)"
    using f(1) by (simp add: numeral_eq_Suc bindS_def update_def lookup_def d1_def device_file_def wrap32_one)
  moreover have "(heap d2)(f := None) = (heap d)(dev \<mapsto> ob\<lparr>refcount := refcount ob - 1\<rparr>, f := None)" using dev(5) by (auto simp: d2_def fun_eq_iff)
  ultimately have "DdkDereferenceObject f d = Inr ((), d\<lparr>heap := (heap d)(dev \<mapsto> ob\<lparr>refcount := refcount ob - 1\<rparr>, f := None)\<rparr>)"
    by (simp add: DdkDereferenceObject_def d2_def)
  then show ?thesis using fh ptr irql by (simp add: ZwClose_def ObfDereferenceObject_def ObfDereferenceObjectWithTag_def bindS_def assertS_def ret_def)
qed

text \<open>A name of a device that is no link: one reference to the device goes into a new file object.\<close>

lemma open_device_file:
  assumes wf: "wf_ddk (ddk s)" and irql: "irql (ddk s) = PASSIVE_LEVEL" and nm: "\<not> DdkIsFilePath nm" "nm \<noteq> []" "name_ok (full_path nm [])" and mem: "1 < mem_left (ddk s)"
    and e: "find_name (ddk s) (full_path nm []) = Some e" "heap (ddk s) (Object e) = Some ob" "otype ob = IoDeviceType" "refcount ob < 2 ^ 31 - 1"
  defines "f \<equiv> next_addr (ddk s)"
  shows "\<exists>s'. IoCreateFileEx W acc (Some (Some nm, False)) True attr share d opts Options s =
      Inr (((STATUS_SUCCESS, Some \<lparr>Status = STATUS_SUCCESS, Information = FILE_OPENED\<rparr>), Some (ToHandle f)), s') \<and> win s' = win s \<and> CurrentByteOffset s' f = 0 \<and>
    ddk s' = (ddk s)\<lparr>heap := (heap (ddk s))(Object e \<mapsto> ob\<lparr>refcount := refcount ob + 1\<rparr>, f \<mapsto> device_file (Object e)), next_addr := f + 16, mem_left := mem_left (ddk s) - 2\<rparr>"
proof -
  define dev where "dev = Object e"
  have fresh: "heap (ddk s) f = None" using fresh_addr [OF wf] by (simp add: f_def)
  then have neq: "dev \<noteq> f" using e(2) by (auto simp: dev_def)
  define d1 where "d1 = (ddk s)\<lparr>mem_left := mem_left (ddk s) - 1, heap := (heap (ddk s))(dev \<mapsto> ob\<lparr>refcount := refcount ob + 1\<rparr>)\<rparr>"
  have look: "DdkLookupName nm [] (ddk s) = Inr (Some dev, d1)"
    using DdkLookupName_finds(2) [OF wf irql nm(2,3) _ e(1,2,4)] mem by (simp add: d1_def dev_def)
  have ld: "lookup dev d1 = Inr (ob\<lparr>refcount := refcount ob + 1\<rparr>, d1)" by (simp add: lookup_def d1_def)
  define s1 where "s1 = s\<lparr>ddk := d1\<rparr>"
  have lifted: "liftD (DdkLookupName nm []) s = Inr (Some dev, s1)" "liftD (lookup dev) s1 = Inr (ob\<lparr>refcount := refcount ob + 1\<rparr>, s1)"
    by (simp_all add: liftD_def look ld s1_def)
  have m1: "0 < mem_left (ddk s1)" "next_addr (ddk s1) = f" using mem by (simp_all add: s1_def d1_def f_def)
  define s2 where "s2 = s1\<lparr>ddk := d1\<lparr>heap := (heap d1)(f \<mapsto> \<lparr>otype = IoFileType, alloc = True, refcount = 1, handle = None, body = FILEOBJ NullPtr\<rparr>), next_addr := f + 16, mem_left := mem_left d1 - 1\<rparr>,
    CurrentByteOffset := (CurrentByteOffset s1)(f := 0)\<rparr>"
  have alloc: "DdkAllocFile s1 = Inr (Some f, s2)"
    using m1 by (simp add: DdkAllocFile_def bindS_def liftD_def DdkAllocObject_def modify_def ret_def s1_def s2_def)
  have ptr: "liftD (ToPointer dev) s2 = Inr (PublicPtr dev, s2)"
    using neq e(3) by (simp add: liftD_def ToPointer_def bindS_def lookup_def ret_def isPublicObject_def s2_def s1_def d1_def)
  define s3 where "s3 = s2\<lparr>ddk := (ddk s2)\<lparr>heap := (heap (ddk s2))(f \<mapsto> device_file dev)\<rparr>\<rparr>"
  have upd: "liftD (update f (\<lambda>ob. ob\<lparr>body := FILEOBJ (PublicPtr dev)\<rparr>)) s2 = Inr ((), s3)"
    by (simp add: liftD_def update_def s2_def s3_def device_file_def)
  have "DdkIoCreateDevice nm Options s = Inr (((STATUS_SUCCESS, Some \<lparr>Status = STATUS_SUCCESS, Information = FILE_OPENED\<rparr>), Some f), s3)"
    using e(3) ptr upd alloc lifted by (simp add: DdkIoCreateDevice_def bindS_def ret_def SetStatus_def)
  then have "IoCreateFileEx W acc (Some (Some nm, False)) True attr share d opts Options s =
      Inr (((STATUS_SUCCESS, Some \<lparr>Status = STATUS_SUCCESS, Information = FILE_OPENED\<rparr>), Some (ToHandle f)), s3)"
    using nm(1) by (simp add: IoCreateFileEx_def bindS_def assertS_def ret_def NT_SUCCESS_def)
  then show ?thesis by (simp add: s3_def s2_def s1_def d1_def dev_def)
qed

text \<open>A name of an object that is neither a device nor a link: it is refused, and the reference of the lookup is lost.\<close>

lemma wrong_type_leaks:
  assumes wf: "wf_ddk (ddk s)" and irql: "irql (ddk s) = PASSIVE_LEVEL" and nm: "nm \<noteq> []" "name_ok (full_path nm [])" and mem: "0 < mem_left (ddk s)"
    and e: "find_name (ddk s) (full_path nm []) = Some e" "heap (ddk s) (Object e) = Some ob" "otype ob = IoDriverType" "refcount ob < 2 ^ 31 - 1"
  shows "\<exists>r s'. DdkIoCreateDevice nm Options s = Inr (((STATUS_OBJECT_NAME_NOT_FOUND, r), None), s') \<and> heap (ddk s') (Object e) = Some (ob\<lparr>refcount := refcount ob + 1\<rparr>)"
proof -
  define s1 where "s1 = s\<lparr>ddk := (ddk s)\<lparr>mem_left := mem_left (ddk s) - 1, heap := (heap (ddk s))(Object e \<mapsto> ob\<lparr>refcount := refcount ob + 1\<rparr>)\<rparr>\<rparr>"
  have "liftD (DdkLookupName nm []) s = Inr (Some (Object e), s1)" "liftD (lookup (Object e)) s1 = Inr (ob\<lparr>refcount := refcount ob + 1\<rparr>, s1)"
    using DdkLookupName_finds(2) [OF wf irql nm mem e(1,2,4)] by (simp_all add: liftD_def lookup_def s1_def)
  then show ?thesis using e(3) by (simp add: DdkIoCreateDevice_def bindS_def ret_def SetStatus_def s1_def)
qed

section \<open>Properties\<close>

text \<open>
  Where a file goes.  For a name that fits, DdkGetLocalPath gives the temporary directory followed by the name without its leading backslashes, object directory, drive letter and leading separators.  With \<open>create\<close> every separator has become
  a backslash, and the loop has created exactly the directories that stand before a separator, the outermost first.
\<close>

theorem local_path_exact:
  assumes "length (TempDir s) + length (local_name name) \<le> MAX_PATH"
  shows "DdkGetLocalPath W (MAX_PATH + 1) name True s =
      Inr (TempDir s @ norm (local_name name), s\<lparr>win := create_each W (dirs_of (TempDir s) (local_name name)) (win s)\<rparr>) \<and>
    DdkGetLocalPath W (MAX_PATH + 1) name False s = Inr (TempDir s @ local_name name, s)"
  using assms DdkGetLocalPath_eq [of s name "MAX_PATH + 1" W] by (simp add: local_name_def Let_def)

definition wide :: "string \<Rightarrow> wstr" where
  "wide x = map of_char x"

definition empty_fs :: "MEMFS FILES" where
  "empty_fs = \<lparr>ddk = sample, win = \<lparr>mfiles = Map.empty, mdirs = [wide ''T''], mopen = Map.empty, mplain = [], mnext = 4\<rparr>, TempDir = wide ''T'' @ [0x5C], CurrentByteOffset = (\<lambda>_. 0), apcs = []\<rparr>"

text \<open>The name \<open>\??\C:\d/f\<close>.\<close>

definition sample_name :: wstr where
  "sample_name = [0x5C, 0x3F, 0x3F, 0x5C] @ wide ''C:'' @ [0x5C] @ wide ''d/f''"

lemma sample_local: "local_name sample_name = wide ''d/f''"
  by code_simp

theorem local_path_exact_witness:
  "DdkGetLocalPath mem_fs (MAX_PATH + 1) sample_name True empty_fs =
     Inr (wide ''T'' @ [0x5C] @ wide ''d'' @ [0x5C] @ wide ''f'', empty_fs\<lparr>win := create_each mem_fs [wide ''T'' @ [0x5C] @ wide ''d''] (win empty_fs)\<rparr>)"
proof -
  have "length (TempDir empty_fs) + length (local_name sample_name) \<le> MAX_PATH" "TempDir empty_fs @ norm (wide ''d/f'') = wide ''T'' @ [0x5C] @ wide ''d'' @ [0x5C] @ wide ''f''"
    "dirs_of (TempDir empty_fs) (wide ''d/f'') = [wide ''T'' @ [0x5C] @ wide ''d'']" by code_simp+
  with local_path_exact [of empty_fs sample_name mem_fs] show ?thesis by (simp add: sample_local)
qed









text \<open>
  C30.  Opening a device.  A name of a device that is no file path gives a file object that holds one reference to that device, and closing its handle gives exactly that reference back: all objects are as they were.
\<close>

theorem device_file_lifecycle:
  assumes "wf_ddk (ddk s)" "irql (ddk s) = PASSIVE_LEVEL" "\<not> DdkIsFilePath nm" "nm \<noteq> []" "name_ok (full_path nm [])" "1 < mem_left (ddk s)" "0 < next_addr (ddk s)" "even (next_addr (ddk s))"
    and "find_name (ddk s) (full_path nm []) = Some e" "heap (ddk s) (Object e) = Some ob" "otype ob = IoDeviceType" "refcount ob < 2 ^ 31 - 1"
  shows "\<exists>h s' d. IoCreateFileEx W acc (Some (Some nm, False)) True attr share disp opts Options s =
      Inr (((STATUS_SUCCESS, Some \<lparr>Status = STATUS_SUCCESS, Information = FILE_OPENED\<rparr>), Some h), s') \<and>
    heap (ddk s') (Object e) = Some (ob\<lparr>refcount := refcount ob + 1\<rparr>) \<and> GetFile (next_addr (ddk s)) (ddk s') = Inr (PublicPtr (Object e), ddk s') \<and>
    ZwClose h (ddk s') = Inr (STATUS_SUCCESS, d) \<and> heap d = heap (ddk s) \<and> DdkNameList d = DdkNameList (ddk s)"
proof -
  let ?f = "next_addr (ddk s)"
  from open_device_file [OF assms(1-6,9-12)] obtain s' where s': "IoCreateFileEx W acc (Some (Some nm, False)) True attr share disp opts Options s =
      Inr (((STATUS_SUCCESS, Some \<lparr>Status = STATUS_SUCCESS, Information = FILE_OPENED\<rparr>), Some (ToHandle ?f)), s')"
    "ddk s' = (ddk s)\<lparr>heap := (heap (ddk s))(Object e \<mapsto> ob\<lparr>refcount := refcount ob + 1\<rparr>, ?f \<mapsto> device_file (Object e)), next_addr := ?f + 16, mem_left := mem_left (ddk s) - 2\<rparr>" by blast
  have fresh: "heap (ddk s) ?f = None" using fresh_addr [OF assms(1)] .
  then have neq: "Object e \<noteq> ?f" using assms(10) by auto
  have "e \<in> set (DdkNameList (ddk s))" using assms(9) by (auto simp: find_name_def find_Some_iff)
  from named_live [OF assms(1) this] assms(10) have pos: "0 < refcount ob" by auto
  have "name_refs (ddk s') ?f = 0" using unnamed_fresh [OF assms(1)] s'(2) by (simp add: name_refs_def)
  from close_device_file [of "ddk s'" ?f "Object e" "ob\<lparr>refcount := refcount ob + 1\<rparr>", OF _ _ assms(8) this] have
    "ZwClose (ToHandle ?f) (ddk s') = Inr (STATUS_SUCCESS, (ddk s')\<lparr>heap := (heap (ddk s'))(Object e \<mapsto> ob, ?f := None)\<rparr>)"
    using assms(2,7,11,12) s'(2) neq pos by simp
  moreover have "(heap (ddk s'))(Object e \<mapsto> ob, ?f := None) = heap (ddk s)" using s'(2) fresh assms(10) by (auto simp: fun_eq_iff)
  moreover have "GetFile ?f (ddk s') = Inr (PublicPtr (Object e), ddk s')" using s'(2) by (simp add: GetFile_def bindS_def lookup_def ret_def device_file_def)
  ultimately show ?thesis using s' neq by (intro exI [of _ "ToHandle ?f"] exI [of _ s'] exI [of _ "(ddk s')\<lparr>heap := (heap (ddk s'))(Object e \<mapsto> ob, ?f := None)\<rparr>"]) simp
qed

theorem device_file_lifecycle_witness:
  "\<exists>h s' d. IoCreateFileEx mem_fs 0 (Some (Some [0x5C, 0x78], False)) True 0 0 1 0 0 empty_fs =
      Inr (((STATUS_SUCCESS, Some \<lparr>Status = STATUS_SUCCESS, Information = FILE_OPENED\<rparr>), Some h), s') \<and> ZwClose h (ddk s') = Inr (STATUS_SUCCESS, d) \<and> heap d = heap sample"
proof -
  have s: "ddk empty_fs = sample" by (simp add: empty_fs_def)
  have 1: "irql sample = PASSIVE_LEVEL" "\<not> DdkIsFilePath [0x5C, 0x78]" "name_ok (full_path [0x5C, 0x78] [])" "1 < mem_left sample" "0 < next_addr sample" "even (next_addr sample)"
    by (simp_all add: sample_def DdkIsFilePath_def has_drive_def skip_prefix_def name_ok_def full_path_def)
  have 2: "find_name sample (full_path [0x5C, 0x78] []) = Some \<lparr>Name = [0x5C, 0x78], Object = 32\<rparr>" "heap sample 32 = Some sample_device" "otype sample_device = IoDeviceType" "refcount sample_device < 2 ^ 31 - 1"
    by (simp_all add: sample_def sample_device_def find_name_def full_path_def same_name_def)
  from device_file_lifecycle [of empty_fs, unfolded s, OF wf_sample 1(1,2) _ 1(3-6) 2(1), of sample_device mem_fs 0 0 0 1 0 0] 2 show ?thesis by auto
qed

end
