(* ===== verification/Loader.thy ===== *)
theory Loader
  imports Detours
begin

text \<open>
  Driver images: src/src/load.cpp and \<open>DdkFindModule\<close> of detours.cpp.

  A driver file is patched, written to the temporary directory and loaded as a library.  An image in memory is a list of bytes with its sections; the data of its writable sections is saved, so that it can be restored when
  the library is unloaded but stays in memory.  Every module of the process that was linked to the driver with delayed loading has an entry with a counter in a table of the image.  The state has the images by address, the
  list of images, the memory of the loaded modules, the modules as the Detours library enumerates them, and the intercepts (theory Detours); \<open>calls\<close> records the calls of the load and unload functions of the modules.
  What Windows does with files and libraries is the parameter \<open>WINLOAD\<close>;
  \<open>OpenFiles\<close> has the handles of files that are open, \<open>NewDirs\<close> the directories that were asked for, \<open>LocalDir\<close> is TempDir of local.cpp.
\<close>

section \<open>Definitions\<close>

record SECTION =
  VirtualAddress :: nat
  VirtualSize :: nat
  SecFlags :: ULONG

text \<open>A module: its handle, whether it has a file name, where it is, the names of the libraries it loads with delay.\<close>

record MODULE =
  mhandle :: nat
  has_name :: bool
  ImageBase :: nat
  SizeOfImage :: nat
  DelayImports :: "string list"

type_synonym DELAYLOAD = "nat \<times> int"

record IMAGE =
  ih :: nat
  isections :: "SECTION list"
  ibase :: nat
  isize :: nat
  DriverEntry :: nat
  DelayLoad :: "DELAYLOAD list"
  Data :: "UCHAR list option"
  iname :: string

record LOADER =
  images :: "nat \<rightharpoonup> IMAGE"
  next_image :: nat
  images_left :: nat
  DdkImageList :: "nat list"
  modmem :: "nat \<Rightarrow> UCHAR list"
  modules :: "MODULE list"
  det :: DET
  OpenFiles :: "nat list"
  NewDirs :: "string list"
  LocalDir :: string
  calls :: "(bool \<times> nat \<times> string) list"

abbreviation (input) maxmodules :: nat where "maxmodules \<equiv> 100"

definition liftDet :: "('a, DET) st \<Rightarrow> ('a, LOADER) st" where
  "liftDet m s = (case m (det s) of Inl e \<Rightarrow> Inl e | Inr (x, d) \<Rightarrow> Inr (x, s\<lparr>det := d\<rparr>))"

subsection \<open>Bytes in memory\<close>


definition wrn :: "UCHAR list \<Rightarrow> nat \<Rightarrow> UCHAR list \<Rightarrow> UCHAR list res" where
  "wrn buf i bs = (if i + length bs \<le> length buf then Inr (take i buf @ bs @ drop (i + length bs) buf) else Inl Fault)"



text \<open>\<open>memcpy\<close> of the bytes of a string with its null.\<close>

definition cstr :: "string \<Rightarrow> UCHAR list" where
  "cstr x = map of_char x @ [0]"

definition lower :: "UCHAR \<Rightarrow> UCHAR" where
  "lower c = (if 0x41 \<le> c \<and> c \<le> 0x5A then c + 0x20 else c)"

text \<open>\<open>_strnicmp\<close> and \<open>memcmp\<close> with a pattern that has no null, up to the first difference.\<close>

fun MatchNoCase :: "UCHAR list \<Rightarrow> nat \<Rightarrow> UCHAR list \<Rightarrow> bool res" where
  "MatchNoCase buf i [] = Inr True"
| "MatchNoCase buf i (p # ps) = bindE (rd buf i) (\<lambda>b. if lower b \<noteq> lower p then Inr False else MatchNoCase buf (i + 1) ps)"

fun MatchBytes :: "UCHAR list \<Rightarrow> nat \<Rightarrow> UCHAR list \<Rightarrow> bool res" where
  "MatchBytes buf i [] = Inr True"
| "MatchBytes buf i (p # ps) = bindE (rd buf i) (\<lambda>b. if b \<noteq> p then Inr False else MatchBytes buf (i + 1) ps)"

subsection \<open>Patching a driver file\<close>

definition ntoskrnl :: "UCHAR list" where "ntoskrnl = map of_char ''ntoskrnl.exe''"
definition hal :: "UCHAR list" where "hal = map of_char ''hal.dll''"
definition wmilib :: "UCHAR list" where "wmilib = map of_char ''wmilib.sys''"

definition PatchName :: "nat \<Rightarrow> UCHAR list \<Rightarrow> UCHAR list res" where
  "PatchName i buf =
     bindE (MatchNoCase buf i ntoskrnl) (\<lambda>b1.
     if b1 then wrn buf i (cstr ''ddk.dll'')
     else bindE (MatchNoCase buf i hal) (\<lambda>b2.
          if b2 then wrn buf i (cstr ''ddk.dll'')
          else bindE (MatchNoCase buf i wmilib) (\<lambda>b3.
               if b3 then wrn buf i (cstr ''ddk.dll'') else Inr buf)))"

definition shared_from :: "UCHAR list" where "shared_from = [0x00, 0x00, 0x80, 0xF7, 0xFF, 0xFF]"
definition shared_to :: "UCHAR list" where "shared_to = [0xFE, 0x7F, 0x00, 0x00, 0x00, 0x00]"

definition PatchShared :: "nat \<Rightarrow> UCHAR list \<Rightarrow> UCHAR list res" where
  "PatchShared i buf =
     bindE (MatchBytes buf i shared_from) (\<lambda>b.
     if b \<and> 1 < i then bindE (rd buf (i - 1)) (\<lambda>c. if c < 0x80 then wrn buf i shared_to else Inr buf) else Inr buf)"


subsection \<open>The data of an image\<close>







subsection \<open>Modules that load the driver with delay\<close>

fun DdkFindModule :: "nat \<Rightarrow> MODULE list \<Rightarrow> MODULE option" where
  "DdkFindModule addr [] = None"
| "DdkFindModule addr (m # ms) = (if has_name m \<and> ImageBase m \<le> addr \<and> addr < ImageBase m + SizeOfImage m then Some m else DdkFindModule addr ms)"

definition lower_char :: "char \<Rightarrow> char" where
  "lower_char c = (let n = of_char c :: nat in if 65 \<le> n \<and> n \<le> 90 then char_of (n + 32) else c)"

text \<open>The first library with the name of the driver and the suffix .sys.\<close>

definition DdkFindDLLName :: "MODULE \<Rightarrow> string \<Rightarrow> string option" where
  "DdkFindDLLName m name = List.find (\<lambda>n. map lower_char n = map lower_char (name @ ''.sys'')) (DelayImports m)"

text \<open>The search from the last entry down: the entry of the module, and the lowest empty entry passed before it.\<close>

fun FindEntry :: "nat \<Rightarrow> DELAYLOAD list \<Rightarrow> nat \<Rightarrow> nat option \<Rightarrow> nat option \<times> nat option" where
  "FindEntry h t 0 free = (None, free)"
| "FindEntry h t (Suc i) free =
     (if fst (t ! i) = h then (Some i, free) else FindEntry h t i (if fst (t ! i) = 0 then Some i else free))"

definition image_at :: "nat \<Rightarrow> (IMAGE, LOADER) st" where
  "image_at a s = (case images s a of None \<Rightarrow> Inl Fault | Some im \<Rightarrow> Inr (im, s))"

definition put_image :: "nat \<Rightarrow> IMAGE \<Rightarrow> (unit, LOADER) st" where
  "put_image a im = modify (\<lambda>s. s\<lparr>images := (images s)(a \<mapsto> im)\<rparr>)"

definition call_module :: "bool \<Rightarrow> nat \<Rightarrow> string option \<Rightarrow> (unit, LOADER) st" where
  "call_module loading f dll = (case dll of None \<Rightarrow> ret () | Some n \<Rightarrow> modify (\<lambda>s. s\<lparr>calls := calls s @ [(loading, f, n)]\<rparr>))"

definition add_entry :: "nat \<Rightarrow> DELAYLOAD list \<Rightarrow> DELAYLOAD list option" where
  "add_entry h t =
     (case FindEntry h t maxmodules None of
        (Some i, _) \<Rightarrow> Some (t[i := (h, snd (t ! i) + 1)])
      | (None, Some i) \<Rightarrow> Some (t[i := (h, snd (t ! i) + 1)])
      | (None, None) \<Rightarrow> None)"

definition DdkDelayLoad :: "nat \<Rightarrow> nat \<Rightarrow> (unit, LOADER) st" where
  "DdkDelayLoad pImage pLoad =
     (if pImage = 0 \<or> pLoad = 0 then ret ()
      else
        bindS (image_at pImage) (\<lambda>im.
        bindS (gets modules) (\<lambda>ms.
        case DdkFindModule pLoad ms of
          None \<Rightarrow> ret ()
        | Some m \<Rightarrow>
            (case add_entry (mhandle m) (DelayLoad im) of
               None \<Rightarrow> fail (DdkFail ''Unable to reference driver'')
             | Some t \<Rightarrow>
                 bindS (put_image pImage (im\<lparr>DelayLoad := t\<rparr>)) (\<lambda>_.
                 call_module True pLoad (DdkFindDLLName m (iname im)))))))"

text \<open>One reference less: the table, and whether the module still has others.\<close>

fun DropEntry :: "nat \<Rightarrow> DELAYLOAD list \<Rightarrow> bool \<times> DELAYLOAD list" where
  "DropEntry h [] = (False, [])"
| "DropEntry h ((m, n) # rest) =
     (if m = h then (if n > 1 then (True, (m, n - 1) # rest) else (False, (0, n - 1) # rest))
      else case DropEntry h rest of (b, r) \<Rightarrow> (b, (m, n) # r))"

definition DdkDelayUnload :: "nat \<Rightarrow> nat \<Rightarrow> (unit, LOADER) st" where
  "DdkDelayUnload pImage pUnload =
     (if pImage = 0 \<or> pUnload = 0 then ret ()
      else
        bindS (image_at pImage) (\<lambda>im.
        bindS (gets modules) (\<lambda>ms.
        case DdkFindModule pUnload ms of
          None \<Rightarrow> ret ()
        | Some m \<Rightarrow>
            (case DropEntry (mhandle m) (DelayLoad im) of (others, t) \<Rightarrow>
             bindS (put_image pImage (im\<lparr>DelayLoad := t\<rparr>)) (\<lambda>_.
             if others then ret ()
             else
               bindS (liftDet (DdkDetachAddressRange (ibase im) (isize im) (Some (ImageBase m, SizeOfImage m)))) (\<lambda>status.
               if \<not> NT_SUCCESS status then fail (DdkFail ''Unable to detach detours for module'')
               else call_module False pUnload (DdkFindDLLName m (iname im))))))))"

subsection \<open>Files\<close>

text \<open>
  What Windows does.  Opening a file gives a handle, or None; the size of a file is its two halves; ReadFile gives the bytes that it has read, WriteFile the number of bytes that it has written, None if they fail.
  LoadLibrary is given the path and what has been written there, and gives the module, its memory and its sections; \<open>StillLoaded\<close> tells whether a library that has been freed is still in memory.
  \<open>ModuleFileName\<close> is the path of ddk.dll, \<open>Attributes\<close> tells whether GetFileAttributes finds a file.
\<close>

record WINLOAD =
  OpenRead :: "string \<Rightarrow> nat option"
  OpenWrite :: "string \<Rightarrow> nat option"
  FileSize :: "nat \<Rightarrow> (nat \<times> nat) option"
  ReadBytes :: "nat \<Rightarrow> nat \<Rightarrow> UCHAR list option"
  WriteBytes :: "nat \<Rightarrow> UCHAR list \<Rightarrow> nat option"
  FileTime :: "nat \<Rightarrow> nat option"
  LoadLibrary :: "string \<Rightarrow> UCHAR list \<Rightarrow> (MODULE \<times> UCHAR list \<times> SECTION list) option"
  StillLoaded :: "nat \<Rightarrow> bool"
  ModuleFileName :: "string option"
  SystemDirectory :: "string option"
  Attributes :: "string \<Rightarrow> bool"

definition open_file :: "nat option \<Rightarrow> (nat option, LOADER) st" where
  "open_file r = (case r of None \<Rightarrow> ret None | Some h \<Rightarrow> bindS (modify (\<lambda>s. s\<lparr>OpenFiles := h # OpenFiles s\<rparr>)) (\<lambda>_. ret (Some h)))"

definition close_file :: "nat \<Rightarrow> (unit, LOADER) st" where
  "close_file h = modify (\<lambda>s. s\<lparr>OpenFiles := remove1 h (OpenFiles s)\<rparr>)"



definition DdkGetWriteTime :: "WINLOAD \<Rightarrow> string \<Rightarrow> (nat option, LOADER) st" where
  "DdkGetWriteTime W pPath =
     bindS (open_file (OpenRead W pPath)) (\<lambda>r.
     case r of
       None \<Rightarrow> ret None
     | Some h \<Rightarrow> (case FileTime W h of None \<Rightarrow> ret None | Some tm \<Rightarrow> bindS (close_file h) (\<lambda>_. ret (Some tm))))"





subsection \<open>Loading and unloading\<close>

definition same_name :: "string \<Rightarrow> string \<Rightarrow> bool" where
  "same_name x y \<longleftrightarrow> map lower_char x = map lower_char y"

fun FindImage :: "string \<Rightarrow> nat list \<Rightarrow> (nat option, LOADER) st" where
  "FindImage name [] = ret None"
| "FindImage name (a # rest) = bindS (image_at a) (\<lambda>im. if same_name (iname im) name then ret (Some a) else FindImage name rest)"




text \<open>The name of a driver: what follows the last backslash, which stays, up to the last dot.\<close>

definition from_last :: "char \<Rightarrow> string \<Rightarrow> string option" where
  "from_last c x = (if c \<in> set x then Some (c # rev (takeWhile (\<lambda>d. d \<noteq> c) (rev x))) else None)"

definition before_last :: "char \<Rightarrow> string \<Rightarrow> string" where
  "before_last c x = (if c \<in> set x then rev (tl (dropWhile (\<lambda>d. d \<noteq> c) (rev x))) else x)"

definition DdkGetDriverName :: "string \<Rightarrow> string" where
  "DdkGetDriverName pFile = before_last CHR ''.'' (case from_last (CHR 0x5C) pFile of None \<Rightarrow> pFile | Some x \<Rightarrow> x)"

text \<open>
  Where a driver is looked for: next to the file that names it if that has a path; otherwise in the directory of ddk.dll or the directory above, whichever has the later file; then among the drivers of the system.
  The buffers have MAX_PATH + 1 characters: a longer path is a Fault, and so is the path that is read although ddk.dll was not found.
\<close>

definition fits :: "string \<Rightarrow> (unit, LOADER) st" where
  "fits x = (if length x \<le> 260 then ret () else fail Fault)"

definition through_last :: "char \<Rightarrow> string \<Rightarrow> string" where
  "through_last c x = rev (dropWhile (\<lambda>d. d \<noteq> c) (rev x))"

definition NextToDdk :: "WINLOAD \<Rightarrow> string \<Rightarrow> string \<Rightarrow> (string, LOADER) st" where
  "NextToDdk W full pName =
     (let dir = (if CHR 0x5C \<in> set full then Some (before_last (CHR 0x5C) full) else None);
          path = (case dir of None \<Rightarrow> pName @ ''.sys'' | Some d \<Rightarrow> d @ [CHR 0x5C] @ pName @ ''.sys'');
          above = (case dir of None \<Rightarrow> None
                   | Some d \<Rightarrow> if CHR 0x5C \<in> set d then Some (through_last (CHR 0x5C) d) else if d \<noteq> [] then Some [] else None)
      in bindS (fits path) (\<lambda>_.
         case above of
           None \<Rightarrow> ret path
         | Some u \<Rightarrow>
             let up = u @ pName @ ''.sys''
             in bindS (fits up) (\<lambda>_.
                bindS (DdkGetWriteTime W path) (\<lambda>t.
                case t of
                  None \<Rightarrow> ret up
                | Some t \<Rightarrow> bindS (DdkGetWriteTime W up) (\<lambda>upt. ret (case upt of None \<Rightarrow> path | Some u \<Rightarrow> if t < u then up else path))))))"

definition DdkGetDriverPath :: "WINLOAD \<Rightarrow> string \<Rightarrow> string \<Rightarrow> (string, LOADER) st" where
  "DdkGetDriverPath W pFile pName =
     (if CHR 0x5C \<in> set pFile
      then bindS (fits pFile) (\<lambda>_. let p = through_last (CHR 0x5C) pFile @ pName @ ''.sys'' in bindS (fits p) (\<lambda>_. ret p))
      else
        bindS (case ModuleFileName W of None \<Rightarrow> fail Fault | Some full \<Rightarrow> NextToDdk W full pName) (\<lambda>pPath.
        if Attributes W pPath then ret pPath
        else case SystemDirectory W of
          None \<Rightarrow> let p = pName @ ''.sys'' in bindS (fits p) (\<lambda>_. ret p)
        | Some d \<Rightarrow>
            let p = d @ [CHR 0x5C] @ ''drivers'' @ [CHR 0x5C] @ pName @ ''.sys''
            in bindS (fits p) (\<lambda>_. if Attributes W p then ret p else let q = pName @ ''.sys'' in bindS (fits q) (\<lambda>_. ret q))))"

section \<open>Lemmas\<close>


lemma wrn_ok: "i + length bs \<le> length buf \<Longrightarrow> wrn buf i bs = Inr (take i buf @ bs @ drop (i + length bs) buf)"
  by (simp add: wrn_def)


subsection \<open>Saved data\<close>







subsection \<open>The table of modules\<close>

text \<open>Every module has at most one entry, empty entries have no references and the others have some.\<close>

definition wf_delay :: "DELAYLOAD list \<Rightarrow> bool" where
  "wf_delay t \<longleftrightarrow> length t = maxmodules \<and> (\<forall>i < length t. 0 \<le> snd (t ! i) \<and> (fst (t ! i) = 0 \<longleftrightarrow> snd (t ! i) = 0)) \<and>
     (\<forall>i < length t. \<forall>j < length t. fst (t ! i) \<noteq> 0 \<and> fst (t ! i) = fst (t ! j) \<longrightarrow> i = j)"

definition refs_of :: "DELAYLOAD list \<Rightarrow> nat \<Rightarrow> int" where
  "refs_of t h = (case map_of t h of None \<Rightarrow> 0 | Some n \<Rightarrow> n)"

lemma FindEntry_found: "FindEntry h t n e = (Some i, e') \<Longrightarrow> i < n \<and> fst (t ! i) = h"
  by (induction h t n e rule: FindEntry.induct) (auto split: if_splits simp: less_Suc_eq)

lemma FindEntry_missing:
  "FindEntry h t n e = (None, e') \<Longrightarrow> (\<forall>i < n. fst (t ! i) \<noteq> h) \<and> (case e' of None \<Rightarrow> e = None \<and> (\<forall>i < n. fst (t ! i) \<noteq> 0) | Some i \<Rightarrow> e = Some i \<or> i < n \<and> fst (t ! i) = 0)"
  by (induction h t n e rule: FindEntry.induct) (auto split: if_splits option.splits simp: less_Suc_eq)

lemma refs_of_entry:
  assumes wf: "wf_delay t" and i: "i < length t" "t ! i = (h, n)"
  shows "refs_of t h = n"
proof -
  have "(h, n) \<in> set t" using i by (metis nth_mem)
  then obtain m where m: "map_of t h = Some m" by (metis map_of_eq_None_iff fst_conv image_eqI not_None_eq)
  then have "(h, m) \<in> set t" by (rule map_of_SomeD)
  then obtain j where j: "j < length t" "t ! j = (h, m)" by (metis in_set_conv_nth)
  have "m = n"
  proof (cases "h = 0")
    case True
    then show ?thesis using wf i j by (simp add: wf_delay_def) (metis fst_conv snd_conv)
  next
    case False
    then have "i = j" using wf i j by (simp add: wf_delay_def)
    then show ?thesis using i j by simp
  qed
  with m show ?thesis by (simp add: refs_of_def)
qed

lemma refs_of_absent: "(\<And>i. i < length t \<Longrightarrow> fst (t ! i) \<noteq> h) \<Longrightarrow> refs_of t h = 0"
  by (cases "map_of t h") (force simp: refs_of_def in_set_conv_nth dest!: map_of_SomeD)+

lemma refs_of_zero: "wf_delay t \<Longrightarrow> refs_of t 0 = 0"
proof -
  assume wf: "wf_delay t"
  show ?thesis
  proof (cases "\<exists>i < length t. fst (t ! i) = 0")
    case True
    then obtain i where i: "i < length t" "t ! i = (0, snd (t ! i))" by (metis prod.collapse)
    moreover have "snd (t ! i) = 0" using wf i by (simp add: wf_delay_def) (metis fst_conv)
    ultimately show ?thesis using refs_of_entry [OF wf, of i 0] by metis
  qed (auto intro: refs_of_absent)
qed

lemma delay_unique:
  "wf_delay t \<Longrightarrow> fst (t ! a) \<noteq> 0 \<Longrightarrow> fst (t ! a) = fst (t ! b) \<Longrightarrow> a < length t \<Longrightarrow> b < length t \<Longrightarrow> a = b"
  unfolding wf_delay_def by blast

lemma delay_entry: "wf_delay t \<Longrightarrow> j < length t \<Longrightarrow> 0 \<le> snd (t ! j) \<and> (fst (t ! j) = 0 \<longleftrightarrow> snd (t ! j) = 0)"
  unfolding wf_delay_def by blast

text \<open>Replacing one entry: that of \<open>h\<close>, or an empty one when \<open>h\<close> has none.\<close>

definition replaceable :: "nat \<Rightarrow> DELAYLOAD list \<Rightarrow> nat \<Rightarrow> DELAYLOAD \<Rightarrow> int \<Rightarrow> bool" where
  "replaceable h t i e n \<longleftrightarrow> wf_delay t \<and> h \<noteq> 0 \<and> i < length t \<and> (fst (t ! i) = h \<or> fst (t ! i) = 0 \<and> (\<forall>j < length t. fst (t ! j) \<noteq> h)) \<and>
     (e = (h, n) \<and> 0 < n \<or> e = (0, 0) \<and> n = 0 \<and> fst (t ! i) = h)"

lemma replaceable_other: "replaceable h t i e n \<Longrightarrow> j < length t \<Longrightarrow> j \<noteq> i \<Longrightarrow> fst (t ! j) \<noteq> h"
  unfolding replaceable_def by (metis delay_unique)

lemma wf_replace:
  assumes "replaceable h t i e n"
  shows "wf_delay (t[i := e])"
proof -
  have wf: "wf_delay t" and i: "i < length t" and e: "e = (h, n) \<and> 0 < n \<or> e = (0, 0) \<and> n = 0" and h: "h \<noteq> 0"
    using assms by (auto simp: replaceable_def)
  show ?thesis unfolding wf_delay_def
  proof (intro conjI allI impI)
    show "length (t[i := e]) = maxmodules" using wf by (simp add: wf_delay_def)
    fix j assume j: "j < length (t[i := e])"
    show "0 \<le> snd (t[i := e] ! j)" "fst (t[i := e] ! j) = 0 \<longleftrightarrow> snd (t[i := e] ! j) = 0"
      using delay_entry [OF wf, of j] e h j i by (cases "j = i"; auto)+
    fix k assume k: "k < length (t[i := e])" and eq: "fst (t[i := e] ! j) \<noteq> 0 \<and> fst (t[i := e] ! j) = fst (t[i := e] ! k)"
    consider "j = i" "k = i" | "j \<noteq> i" "k \<noteq> i" | "j = i" "k \<noteq> i" | "j \<noteq> i" "k = i" by blast
    then show "j = k"
    proof cases
      case 2
      then show ?thesis using eq j k delay_unique [OF wf, of j k] by simp
    next
      case 3
      then show ?thesis using eq e i k replaceable_other [OF assms, of k] by auto
    next
      case 4
      then show ?thesis using eq e i j replaceable_other [OF assms, of j] by auto
    qed simp
  qed
qed

lemma refs_replace:
  assumes "replaceable h t i e n"
  shows "refs_of (t[i := e]) = (refs_of t)(h := n)"
proof
  fix x
  have wf: "wf_delay t" and i: "i < length t" and e: "e = (h, n) \<and> 0 < n \<or> e = (0, 0) \<and> n = 0" and h: "h \<noteq> 0"
    and old: "fst (t ! i) = h \<or> fst (t ! i) = 0" using assms by (auto simp: replaceable_def)
  note wf' = wf_replace [OF assms]
  consider (zero) "x = 0" | (new) "x = h" | (other) j where "x \<noteq> 0" "x \<noteq> h" "j < length t" "j \<noteq> i" "fst (t ! j) = x"
    | (none) "x \<noteq> 0" "x \<noteq> h" "\<And>j. j < length t \<Longrightarrow> fst (t ! j) \<noteq> x" using i old by metis
  then show "refs_of (t[i := e]) x = ((refs_of t)(h := n)) x"
  proof cases
    case zero
    then show ?thesis using h refs_of_zero [OF wf] refs_of_zero [OF wf'] by simp
  next
    case new
    from e show ?thesis
    proof
      assume "e = (h, n) \<and> 0 < n"
      then show ?thesis using refs_of_entry [OF wf', of i h n] i new by simp
    next
      assume e0: "e = (0, 0) \<and> n = 0"
      then have "fst (t[i := e] ! k) \<noteq> h" if "k < length (t[i := e])" for k using that h i replaceable_other [OF assms, of k] by (cases "k = i") auto
      then show ?thesis using e0 new refs_of_absent [of "t[i := e]" h] by simp
    qed
  next
    case (other j)
    then have "t ! j = (x, snd (t ! j))" by (metis prod.collapse)
    then show ?thesis using other refs_of_entry [OF wf', of j x] refs_of_entry [OF wf, of j x] by simp
  next
    case none
    then have "fst (t[i := e] ! k) \<noteq> x" if "k < length (t[i := e])" for k using that e i by (cases "k = i") auto
    then show ?thesis using none refs_of_absent [of "t[i := e]" x] refs_of_absent [of t x] by simp
  qed
qed

lemma add_entry_refines:
  assumes wf: "wf_delay t" and h: "h \<noteq> 0"
  shows "case add_entry h t of
      None \<Rightarrow> refs_of t h = 0 \<and> (\<forall>i < length t. fst (t ! i) \<noteq> 0)
    | Some t' \<Rightarrow> wf_delay t' \<and> refs_of t' = (refs_of t)(h := refs_of t h + 1)"
proof -
  have len: "length t = maxmodules" using wf by (simp add: wf_delay_def)
  obtain r e where fe: "FindEntry h t maxmodules None = (r, e)" by (cases "FindEntry h t maxmodules None")
  show ?thesis
  proof (cases r)
    case (Some i)
    with FindEntry_found [of h t maxmodules None i e] fe len have i: "i < length t" "fst (t ! i) = h" by simp_all
    then have n: "refs_of t h = snd (t ! i)" using refs_of_entry [OF wf i(1), of h] by (metis prod.collapse)
    have "0 < snd (t ! i) + 1" using wf i(1) unfolding wf_delay_def by (metis add_strict_increasing zero_less_one add.commute)
    then show ?thesis using wf_replace [of h t i "(h, snd (t ! i) + 1)" "snd (t ! i) + 1"] refs_replace [of h t i "(h, snd (t ! i) + 1)" "snd (t ! i) + 1"]
      wf i h fe Some n by (simp add: add_entry_def replaceable_def)
  next
    case None
    from FindEntry_missing [of h t maxmodules None e] fe None len have miss: "\<forall>i < length t. fst (t ! i) \<noteq> h"
      and e: "case e of None \<Rightarrow> \<forall>i < length t. fst (t ! i) \<noteq> 0 | Some i \<Rightarrow> i < length t \<and> fst (t ! i) = 0" by (auto split: option.splits)
    have r0: "refs_of t h = 0" using miss by (intro refs_of_absent) simp
    show ?thesis
    proof (cases e)
      case e0: None
      with e fe None r0 show ?thesis by (simp add: add_entry_def)
    next
      case (Some i)
      with e have i: "i < length t" "fst (t ! i) = 0" by simp_all
      then have "snd (t ! i) = 0" using wf by (simp add: wf_delay_def)
      then show ?thesis using wf_replace [of h t i "(h, 1)" 1] refs_replace [of h t i "(h, 1)" 1] wf i miss h fe None Some r0 by (simp add: add_entry_def replaceable_def)
    qed
  qed
qed

lemma DropEntry_absent: "(\<And>i. i < length t \<Longrightarrow> fst (t ! i) \<noteq> h) \<Longrightarrow> DropEntry h t = (False, t)"
proof (induction h t rule: DropEntry.induct)
  case (2 h m n rest)
  from 2(2) [of 0] have "m \<noteq> h" by simp
  moreover have "DropEntry h rest = (False, rest)" using 2(1) [OF calculation] 2(2) [of "Suc i" for i] by auto
  ultimately show ?case by simp
qed simp

lemma DropEntry_at:
  "i < length t \<Longrightarrow> t ! i = (h, n) \<Longrightarrow> (\<And>j. j < i \<Longrightarrow> fst (t ! j) \<noteq> h) \<Longrightarrow> DropEntry h t = (1 < n, t[i := if 1 < n then (h, n - 1) else (0, n - 1)])"
proof (induction t arbitrary: i)
  case (Cons e t)
  obtain m k where e: "e = (m, k)" by (cases e)
  show ?case
  proof (cases i)
    case 0
    with Cons e show ?thesis by simp
  next
    case (Suc j)
    have "m \<noteq> h" using Cons(4) [of 0] Suc e by simp
    moreover have "DropEntry h t = (1 < n, t[j := if 1 < n then (h, n - 1) else (0, n - 1)])"
      using Cons(1) [of j] Cons(2,3) Cons(4) [of "Suc l" for l] Suc by auto
    ultimately show ?thesis using e Suc by simp
  qed
qed simp

lemma DropEntry_refines:
  assumes wf: "wf_delay t" and h: "h \<noteq> 0"
  shows "\<exists>t'. DropEntry h t = (1 < refs_of t h, t') \<and> wf_delay t' \<and> refs_of t' = (refs_of t)(h := max 0 (refs_of t h - 1))"
proof (cases "\<exists>i < length t. fst (t ! i) = h")
  case False
  then have "refs_of t h = 0" "DropEntry h t = (False, t)" by (auto intro: refs_of_absent DropEntry_absent)
  with wf show ?thesis by (simp add: fun_upd_idem)
next
  case True
  then obtain i where i: "i < length t" "fst (t ! i) = h" by blast
  define n where "n = snd (t ! i)"
  have ti: "t ! i = (h, n)" using i by (simp add: n_def prod_eq_iff)
  have n: "refs_of t h = n" "0 < n" using refs_of_entry [OF wf i(1) ti] wf i h by (auto simp: wf_delay_def n_def order_le_less)
  have "fst (t ! j) \<noteq> h" if "j < i" for j using that i h wf unfolding wf_delay_def by (metis less_irrefl less_trans)
  then have d: "DropEntry h t = (1 < n, t[i := if 1 < n then (h, n - 1) else (0, n - 1)])" by (rule DropEntry_at [OF i(1) ti])
  show ?thesis
  proof (cases "1 < n")
    case True
    then have "replaceable h t i (h, n - 1) (n - 1)" using wf i h by (simp add: replaceable_def)
    with wf_replace [OF this] refs_replace [OF this] True d n show ?thesis by (auto simp: max_def)
  next
    case False
    with n have "n = 1" by simp
    moreover have "replaceable h t i (0, 0) 0" using wf i h by (simp add: replaceable_def)
    ultimately show ?thesis using wf_replace [of h t i "(0, 0)" 0] refs_replace [of h t i "(0, 0)" 0] d n by (auto simp: max_def)
  qed
qed

subsection \<open>The routines\<close>

lemma image_at_some: "images s a = Some im \<Longrightarrow> image_at a s = Inr (im, s)"
  by (simp add: image_at_def)

lemma detach_range:
  assumes "wf_det (det s)" "api (det s) = []"
  obtains d where "liftDet (DdkDetachAddressRange lo n m) s = Inr (STATUS_SUCCESS, s\<lparr>det := d\<rparr>)" "wf_det d" "api d = []"
    "view d = filter (\<lambda>x. \<not> range_hits (lo, n, m) x) (view (det s))"
  using by_range.law [OF assms(1), of "(lo, n, m)"] assms(2) by (force simp: liftDet_def)

lemma FindImage_none:
  "FindImage name l s = Inr (None, s') \<Longrightarrow> s' = s \<and> (\<forall>a \<in> set l. \<exists>im. images s a = Some im \<and> \<not> same_name (iname im) name)"
  by (induction l) (auto simp: bindS_def image_at_def split: option.splits if_splits)

lemma calls_of_module:
  "call_module b f dll s = Inr ((), s\<lparr>calls := calls s @ (case dll of None \<Rightarrow> [] | Some n \<Rightarrow> [(b, f, n)])\<rparr>)"
  by (simp add: call_module_def split: option.split)

lemma MatchNoCase_here: "MatchNoCase (pre @ p @ suf) (length pre) p = Inr True"
proof (induction p arbitrary: pre)
  case (Cons c p)
  from Cons [of "pre @ [c]"] show ?case by (simp add: rd_def nth_append)
qed simp

text \<open>The scan for the shared data compares six bytes at every index of the file, and \<open>strcpy\<close> writes eight bytes over a name of seven.\<close>

lemma patching_leaves_the_file:
  assumes "buf \<noteq> []" "last buf = 0"
  shows "PatchShared (length buf - 1) buf = Inl Fault" "PatchName (length pre) (pre @ hal) = Inl Fault"
proof -
  have "rd buf (length buf - 1) = Inr 0" "rd buf (Suc (length buf - 1)) = Inl Fault" using assms by (auto simp: rd_def last_conv_nth)
  then show "PatchShared (length buf - 1) buf = Inl Fault" by (simp add: PatchShared_def shared_from_def)
  have "rd (pre @ hal) (length pre) = Inr 0x68" by (simp add: rd_def hal_def)
  then have "MatchNoCase (pre @ hal) (length pre) ntoskrnl = Inr False" by (simp add: ntoskrnl_def lower_def)
  moreover have "wrn (pre @ hal) (length pre) (cstr ''ddk.dll'') = Inl Fault" by (simp add: wrn_def cstr_def hal_def)
  ultimately show "PatchName (length pre) (pre @ hal) = Inl Fault" using MatchNoCase_here [of pre hal "[]"] by (simp add: PatchName_def)
qed

lemma delay_load:
  assumes "images s a = Some im" "wf_delay (DelayLoad im)" "a \<noteq> 0" "f \<noteq> 0" "DdkFindModule f (modules s) = Some m" "mhandle m \<noteq> 0"
  shows "case DdkDelayLoad a f s of
      Inl e \<Rightarrow> e = DdkFail ''Unable to reference driver'' \<and> refs_of (DelayLoad im) (mhandle m) = 0 \<and> (\<forall>i < maxmodules. fst (DelayLoad im ! i) \<noteq> 0)
    | Inr (_, s') \<Rightarrow> \<exists>t. s' = s\<lparr>images := (images s)(a \<mapsto> im\<lparr>DelayLoad := t\<rparr>),
          calls := calls s @ (case DdkFindDLLName m (iname im) of None \<Rightarrow> [] | Some n \<Rightarrow> [(True, f, n)])\<rparr> \<and>
        wf_delay t \<and> refs_of t = (refs_of (DelayLoad im))(mhandle m := refs_of (DelayLoad im) (mhandle m) + 1)"
proof -
  have len: "length (DelayLoad im) = maxmodules" using assms(2) by (simp add: wf_delay_def)
  note add_entry_refines [OF assms(2,6)]
  with assms len show ?thesis
    by (cases "add_entry (mhandle m) (DelayLoad im)") (auto simp: DdkDelayLoad_def image_at_some bindS_def put_image_def calls_of_module)
qed

lemma delay_unload:
  assumes "images s a = Some im" "wf_delay (DelayLoad im)" "a \<noteq> 0" "f \<noteq> 0" "DdkFindModule f (modules s) = Some m" "mhandle m \<noteq> 0"
    and "wf_det (det s)" "api (det s) = []"
  shows "\<exists>t d. DdkDelayUnload a f s = Inr ((), s\<lparr>images := (images s)(a \<mapsto> im\<lparr>DelayLoad := t\<rparr>), det := d,
        calls := calls s @ (if 1 < refs_of (DelayLoad im) (mhandle m) then [] else case DdkFindDLLName m (iname im) of None \<Rightarrow> [] | Some n \<Rightarrow> [(False, f, n)])\<rparr>) \<and>
      wf_delay t \<and> refs_of t = (refs_of (DelayLoad im))(mhandle m := max 0 (refs_of (DelayLoad im) (mhandle m) - 1)) \<and> wf_det d \<and> api d = [] \<and>
      view d = (if 1 < refs_of (DelayLoad im) (mhandle m) then view (det s)
                else filter (\<lambda>x. \<not> range_hits (ibase im, isize im, Some (ImageBase m, SizeOfImage m)) x) (view (det s)))"
proof -
  obtain t where t: "DropEntry (mhandle m) (DelayLoad im) = (1 < refs_of (DelayLoad im) (mhandle m), t)" "wf_delay t"
    "refs_of t = (refs_of (DelayLoad im))(mhandle m := max 0 (refs_of (DelayLoad im) (mhandle m) - 1))" using DropEntry_refines [OF assms(2,6)] by blast
  let ?s = "s\<lparr>images := (images s)(a \<mapsto> im\<lparr>DelayLoad := t\<rparr>)\<rparr>"
  from detach_range [of ?s "ibase im" "isize im" "Some (ImageBase m, SizeOfImage m)"] assms(7,8) obtain d where
    d: "liftDet (DdkDetachAddressRange (ibase im) (isize im) (Some (ImageBase m, SizeOfImage m))) ?s = Inr (STATUS_SUCCESS, ?s\<lparr>det := d\<rparr>)"
      "wf_det d" "api d = []" "view d = filter (\<lambda>x. \<not> range_hits (ibase im, isize im, Some (ImageBase m, SizeOfImage m)) x) (view (det s))" by auto
  show ?thesis
  proof (cases "1 < refs_of (DelayLoad im) (mhandle m)")
    case True
    then show ?thesis using assms t by (intro exI [of _ t] exI [of _ "det s"]) (simp add: DdkDelayUnload_def image_at_some bindS_def put_image_def)
  next
    case False
    then show ?thesis using assms t d
      by (intro exI [of _ t] exI [of _ d]) (simp add: DdkDelayUnload_def image_at_some bindS_def put_image_def calls_of_module)
  qed
qed











lemma leaked_handle:
  assumes "OpenRead W path = Some h" "FileTime W h = None"
  shows "DdkGetWriteTime W path s = Inr (None, s\<lparr>OpenFiles := h # OpenFiles s\<rparr>)"
  using assms by (simp add: DdkGetWriteTime_def open_file_def bindS_def)

lemma driver_name_of_path:
  assumes "CHR 0x5C \<notin> set n" "CHR ''.'' \<notin> set n"
  shows "DdkGetDriverName (n @ ''.sys'') = n" "DdkGetDriverName (dir @ CHR 0x5C # n @ ''.sys'') = CHR 0x5C # n"
proof -
  have d: "takeWhile (\<lambda>d. d \<noteq> CHR 0x5C) (rev n @ CHR 0x5C # x) = rev n" for x using assms(1) by (subst takeWhile_append2) auto
  show "DdkGetDriverName (n @ ''.sys'') = n" using assms by (simp add: DdkGetDriverName_def from_last_def before_last_def)
  show "DdkGetDriverName (dir @ CHR 0x5C # n @ ''.sys'') = CHR 0x5C # n" using assms d by (simp add: DdkGetDriverName_def from_last_def before_last_def)
qed

section \<open>Properties\<close>





definition sample_loader :: LOADER where
  "sample_loader = \<lparr>images = Map.empty, next_image = 16, images_left = 1, DdkImageList = [], modmem = (\<lambda>_. []),
     modules = [\<lparr>mhandle = 5, has_name = True, ImageBase = 5, SizeOfImage = 3, DelayImports = [''DISK.sys'']\<rparr>], det = one_region,
     OpenFiles = [], NewDirs = [], LocalDir = ''T'' @ [CHR 0x5C], calls = []\<rparr>"






text \<open>
  C32.  The table of an image counts the references of every module.  On behalf of the module that has the code at \<open>f\<close>, DdkDelayLoad adds one reference and calls the load function of the module with the name of the driver if the
  module loads that driver with delay; it stops only if all 100 entries belong to other modules.  DdkDelayUnload takes one reference away and, when it was the last, removes exactly the intercepts that the module has set on
  functions of the driver and calls the unload function; as long as there are others it changes nothing else.  The other modules keep their counts, and the invariants of the table and of the intercepts are kept.
\<close>

theorem delay_load_counts:
  assumes "images s a = Some im" "wf_delay (DelayLoad im)" "a \<noteq> 0" "f \<noteq> 0" "DdkFindModule f (modules s) = Some m" "mhandle m \<noteq> 0"
    and "wf_det (det s)" "api (det s) = []"
  shows "(case DdkDelayLoad a f s of
      Inl e \<Rightarrow> e = DdkFail ''Unable to reference driver'' \<and> refs_of (DelayLoad im) (mhandle m) = 0 \<and> (\<forall>i < maxmodules. fst (DelayLoad im ! i) \<noteq> 0)
    | Inr (_, s') \<Rightarrow> \<exists>t. s' = s\<lparr>images := (images s)(a \<mapsto> im\<lparr>DelayLoad := t\<rparr>),
          calls := calls s @ (case DdkFindDLLName m (iname im) of None \<Rightarrow> [] | Some n \<Rightarrow> [(True, f, n)])\<rparr> \<and>
        wf_delay t \<and> refs_of t = (refs_of (DelayLoad im))(mhandle m := refs_of (DelayLoad im) (mhandle m) + 1)) \<and>
    (\<exists>t d. DdkDelayUnload a f s = Inr ((), s\<lparr>images := (images s)(a \<mapsto> im\<lparr>DelayLoad := t\<rparr>), det := d,
        calls := calls s @ (if 1 < refs_of (DelayLoad im) (mhandle m) then [] else case DdkFindDLLName m (iname im) of None \<Rightarrow> [] | Some n \<Rightarrow> [(False, f, n)])\<rparr>) \<and>
      wf_delay t \<and> refs_of t = (refs_of (DelayLoad im))(mhandle m := max 0 (refs_of (DelayLoad im) (mhandle m) - 1)) \<and> wf_det d \<and> api d = [] \<and>
      view d = (if 1 < refs_of (DelayLoad im) (mhandle m) then view (det s)
                else filter (\<lambda>x. \<not> range_hits (ibase im, isize im, Some (ImageBase m, SizeOfImage m)) x) (view (det s))))"
  using delay_load [OF assms(1-6)] delay_unload [OF assms] by (rule conjI)

definition sample_image :: IMAGE where
  "sample_image = \<lparr>ih = 0x20000, isections = [], ibase = 0x20000, isize = 4, DriverEntry = 0x20000, DelayLoad = (5, 1) # replicate 99 (0, 0), Data = None, iname = ''disk''\<rparr>"

lemma wf_sample_table: "wf_delay ((5, 1) # replicate 99 (0, 0))"
  by (auto simp: wf_delay_def nth_Cons split: nat.splits)

theorem delay_load_counts_witness:
  "\<exists>s. DdkDelayUnload 16 6 (sample_loader\<lparr>images := [16 \<mapsto> sample_image]\<rparr>) = Inr ((), s) \<and> calls s = [(False, 6, ''DISK.sys'')] \<and> view (det s) = []"
proof -
  let ?s = "sample_loader\<lparr>images := [16 \<mapsto> sample_image]\<rparr>" and ?m = "\<lparr>mhandle = 5, has_name = True, ImageBase = 5, SizeOfImage = 3, DelayImports = [''DISK.sys'']\<rparr>"
  have v: "filter (\<lambda>x. \<not> range_hits (0x20000, 4, Some (5, 3)) x) (view one_region) = []"
    by (simp add: view_def region_view_def tagged_def one_region_def range_hits_def)
  have n: "DdkFindDLLName ?m ''disk'' = Some ''DISK.sys''" by code_simp
  have r: "refs_of (DelayLoad sample_image) 5 = 1" by (simp add: refs_of_def sample_image_def)
  have s: "images ?s 16 = Some sample_image" "wf_delay (DelayLoad sample_image)" "DdkFindModule 6 (modules ?s) = Some ?m" "wf_det (det ?s)" "api (det ?s) = []" "det ?s = one_region"
    using wf_sample_table wf_one_region(1) by (simp_all add: sample_image_def sample_loader_def one_region_def)
  from delay_load_counts [OF s(1,2) _ _ s(3) _ s(4,5)] show ?thesis
    using v n r s(6) by (auto simp: sample_image_def sample_loader_def)
qed

end
