(* ===== verification/Exceptions.thy ===== *)
theory Exceptions
  imports Sync
begin

text \<open>
  The exception handler: src/src/exception.cpp, for AMD64.

  Driver code reads the data that the kernel shares with user space at an address that is not mapped in a user process, and reads and writes its interrupt request level as the control register CR8, which is a privileged
  instruction.  Both raise an exception; the handler repairs the registers or emulates the instruction and lets the driver go on.  The state has the exception record, the registers in the order of their encoding, the
  instruction pointer, the bytes of the code (None where there is no memory) and the levels of the threads (theory Sync).
\<close>

section \<open>Definitions\<close>

record XSTATE =
  ExceptionCode :: ULONG
  NumberParameters :: nat
  ExceptionInformation :: "64 word list"
  ExceptionAddress :: nat
  Regs :: "64 word list"
  Rip :: "64 word"
  code_at :: "nat \<Rightarrow> UCHAR option"
  levels :: SYNC

abbreviation (input) EXCEPTION_CONTINUE_SEARCH :: int where "EXCEPTION_CONTINUE_SEARCH \<equiv> 0"
abbreviation (input) EXCEPTION_CONTINUE_EXECUTION :: int where "EXCEPTION_CONTINUE_EXECUTION \<equiv> - 1"
abbreviation (input) EXCEPTION_ACCESS_VIOLATION :: ULONG where "EXCEPTION_ACCESS_VIOLATION \<equiv> 0xC0000005"
abbreviation (input) EXCEPTION_PRIV_INSTRUCTION :: ULONG where "EXCEPTION_PRIV_INSTRUCTION \<equiv> 0xC0000096"
abbreviation (input) STATUS_ASSERTION_FAILURE :: ULONG where "STATUS_ASSERTION_FAILURE \<equiv> 0xC0000420"
abbreviation (input) EXCEPTION_UNITTEST_ASSERTION :: ULONG where "EXCEPTION_UNITTEST_ASSERTION \<equiv> 0xE3530001"
abbreviation (input) REGISTER_COUNT :: nat where "REGISTER_COUNT \<equiv> 16"

definition KernelShared :: "64 word" where "KernelShared = 0xFFFFF78000000000"
definition UserShared :: "64 word" where "UserShared = 0x7FFE0000"

definition liftY :: "('a, SYNC) st \<Rightarrow> ('a, XSTATE) st" where
  "liftY m s = (case m (levels s) of Inl e \<Rightarrow> Inl e | Inr (x, y) \<Rightarrow> Inr (x, s\<lparr>levels := y\<rparr>))"

text \<open>The index of the register; there are sixteen, so that it cannot be out of range.\<close>

definition DdkGetRegister :: "nat \<Rightarrow> nat" where
  "DdkGetRegister reg = reg mod 16"

definition get_reg :: "nat \<Rightarrow> (64 word, XSTATE) st" where
  "get_reg reg = bindS (gets Regs) (\<lambda>rs. liftE (rd rs (DdkGetRegister reg)))"

definition set_reg :: "nat \<Rightarrow> 64 word \<Rightarrow> (unit, XSTATE) st" where
  "set_reg reg v = bindS (gets Regs) (\<lambda>rs. bindS (liftE (wr rs (DdkGetRegister reg) v)) (\<lambda>rs'. modify (\<lambda>s. s\<lparr>Regs := rs'\<rparr>)))"

definition info_at :: "nat \<Rightarrow> (64 word, XSTATE) st" where
  "info_at i = bindS (gets ExceptionInformation) (\<lambda>xs. liftE (rd xs i))"

text \<open>The loop over the registers, from \<open>i\<close> on, for \<open>n\<close> rounds.\<close>

fun FixRegisters :: "64 word \<Rightarrow> nat \<Rightarrow> nat \<Rightarrow> bool \<Rightarrow> (bool, XSTATE) st" where
  "FixRegisters addr i 0 found = ret found"
| "FixRegisters addr i (Suc n) found =
     bindS (get_reg i) (\<lambda>r.
     if r = addr then bindS (set_reg i (UserShared OR (r AND 0x7FF))) (\<lambda>_. FixRegisters addr (Suc i) n True)
     else FixRegisters addr (Suc i) n found)"

definition DdkAccessException :: "(int, XSTATE) st" where
  "DdkAccessException =
     bindS (gets NumberParameters) (\<lambda>n.
     if n \<noteq> 2 then ret EXCEPTION_CONTINUE_SEARCH
     else
       bindS (info_at 0) (\<lambda>kind.
       if kind \<noteq> 0 then ret EXCEPTION_CONTINUE_SEARCH
       else
         bindS (info_at 1) (\<lambda>addr.
         if KernelShared \<le> addr \<and> addr < KernelShared + 0x800
         then bindS (FixRegisters addr 0 REGISTER_COUNT False) (\<lambda>found. ret (if found then EXCEPTION_CONTINUE_EXECUTION else EXCEPTION_CONTINUE_SEARCH))
         else ret EXCEPTION_CONTINUE_SEARCH)))"

definition op_at :: "nat \<Rightarrow> (UCHAR, XSTATE) st" where
  "op_at a s = (case code_at s a of None \<Rightarrow> Inl Fault | Some b \<Rightarrow> Inr (b, s))"

text \<open>The four bytes of the instruction, read as far as they match.\<close>

definition IsCR8 :: "nat \<Rightarrow> (bool, XSTATE) st" where
  "IsCR8 a =
     bindS (op_at a) (\<lambda>b0. if b0 AND 0xF6 \<noteq> 0x44 then ret False else
     bindS (op_at (a + 1)) (\<lambda>b1. if b1 \<noteq> 0x0F then ret False else
     bindS (op_at (a + 2)) (\<lambda>b2. if b2 AND 0xFD \<noteq> 0x20 then ret False else
     bindS (op_at (a + 3)) (\<lambda>b3. ret (b3 AND 0xF8 = 0xC0)))))"

definition DdkPrivException :: "nat \<Rightarrow> (int, XSTATE) st" where
  "DdkPrivException t =
     bindS (gets ExceptionAddress) (\<lambda>a.
     bindS (IsCR8 a) (\<lambda>cr8.
     if cr8
     then
       bindS (op_at a) (\<lambda>b0.
       bindS (op_at (a + 2)) (\<lambda>b2.
       bindS (op_at (a + 3)) (\<lambda>b3.
       let reg = 8 * unat (b0 AND 1) + unat (b3 AND 7)
       in bindS (if b2 AND 2 \<noteq> 0 then bindS (get_reg reg) (\<lambda>v. liftY (DdkWriteCR8 t (unat v)))
                 else bindS (liftY (DdkReadCR8 t)) (\<lambda>v. set_reg reg (of_nat v))) (\<lambda>_.
          bindS (modify (\<lambda>s. s\<lparr>Rip := Rip s + 4\<rparr>)) (\<lambda>_. ret EXCEPTION_CONTINUE_EXECUTION)))))
     else ret EXCEPTION_CONTINUE_SEARCH))"

definition DdkExceptionHandler :: "nat \<Rightarrow> (int, XSTATE) st" where
  "DdkExceptionHandler t =
     bindS (gets ExceptionCode) (\<lambda>c.
     if c = EXCEPTION_ACCESS_VIOLATION then DdkAccessException
     else if c = EXCEPTION_PRIV_INSTRUCTION then DdkPrivException t
     else
       bindS (if c = STATUS_ASSERTION_FAILURE
              then modify (\<lambda>s. s\<lparr>ExceptionCode := EXCEPTION_UNITTEST_ASSERTION, NumberParameters := 2,
                ExceptionInformation := (ExceptionInformation s)[0 := 0, 1 := 0]\<rparr>)
              else ret ()) (\<lambda>_. ret EXCEPTION_CONTINUE_SEARCH))"

section \<open>Lemmas\<close>

text \<open>The address of the shared data in user space.\<close>

definition user_address :: "64 word \<Rightarrow> 64 word" where
  "user_address addr = UserShared + (addr - KernelShared)"

lemma fixed_address:
  assumes "KernelShared \<le> addr" "addr < KernelShared + 0x800"
  shows "UserShared OR (addr AND 0x7FF) = user_address addr"
proof -
  define x where "x = addr - KernelShared"
  have k: "unat KernelShared = 0xFFFFF78000000000" "unat (KernelShared + 0x800) = 0xFFFFF78000000800" by (simp_all add: KernelShared_def)
  have "unat x = unat addr - unat KernelShared" unfolding x_def by (rule unat_sub [OF assms(1)])
  then have "unat x < 0x800" using assms k by (simp add: word_le_nat_alt word_less_nat_alt)
  then have x: "x < 0x800" "addr = KernelShared + x" by (simp_all add: word_less_nat_alt x_def)
  have tx: "x AND 0x7FF = x"
  proof -
    have "x AND 0x7FF = take_bit 11 x" by (simp add: take_bit_eq_mask mask_eq_exp_minus_1)
    then show ?thesis using x(1) by (simp add: take_bit_eq_mod word_arith_nat_mod unat_arith_simps)
  qed
  have low: "b AND x = 0" if "b AND 0x7FF = 0" for b :: "64 word"
  proof -
    have "b AND x = b AND (0x7FF AND x)" using tx by (simp add: and.commute)
    also have "\<dots> = (b AND 0x7FF) AND x" by (simp only: and.assoc)
    finally show ?thesis by (simp add: that)
  qed
  have "addr = KernelShared OR x" using low [of KernelShared] x(2) word_plus_and_or [of KernelShared x] by (simp add: KernelShared_def)
  then have a: "addr AND 0x7FF = x" using tx by (simp add: bit.conj_disj_distrib2 KernelShared_def)
  have "UserShared AND x = 0" by (rule low) (simp add: UserShared_def)
  then have "UserShared + x = UserShared OR x" using word_plus_and_or [of UserShared x] by simp
  then show ?thesis by (simp add: a user_address_def x_def)
qed

lemma FixRegisters_eq:
  assumes "i + n \<le> 16" "length (Regs s) = 16"
  shows "\<exists>rs. FixRegisters addr i n found s = Inr (found \<or> (\<exists>j. i \<le> j \<and> j < i + n \<and> Regs s ! j = addr), s\<lparr>Regs := rs\<rparr>) \<and> length rs = 16 \<and>
    (\<forall>j < 16. rs ! j = (if i \<le> j \<and> j < i + n \<and> Regs s ! j = addr then UserShared OR (addr AND 0x7FF) else Regs s ! j))"
  using assms
proof (induction n arbitrary: i found s)
  case 0
  then show ?case by (intro exI [of _ "Regs s"]) auto
next
  case (Suc n)
  define s' where "s' = (if Regs s ! i = addr then s\<lparr>Regs := (Regs s)[i := UserShared OR (addr AND 0x7FF)]\<rparr> else s)"
  have len: "length (Regs s') = 16" using Suc.prems by (simp add: s'_def)
  have step: "FixRegisters addr i (Suc n) found s = FixRegisters addr (Suc i) n (found \<or> Regs s ! i = addr) s'"
    using Suc.prems by (simp add: get_reg_def set_reg_def s'_def DdkGetRegister_def bindS_def liftE_def rd_def wr_def)
  obtain rs where rs: "FixRegisters addr (Suc i) n (found \<or> Regs s ! i = addr) s' =
      Inr ((found \<or> Regs s ! i = addr) \<or> (\<exists>j. Suc i \<le> j \<and> j < Suc i + n \<and> Regs s' ! j = addr), s'\<lparr>Regs := rs\<rparr>)" "length rs = 16"
    "\<forall>j < 16. rs ! j = (if Suc i \<le> j \<and> j < Suc i + n \<and> Regs s' ! j = addr then UserShared OR (addr AND 0x7FF) else Regs s' ! j)"
    using Suc.IH [of "Suc i" s' "found \<or> Regs s ! i = addr"] Suc.prems(1) len by auto
  have same: "Regs s' ! j = Regs s ! j" if "Suc i \<le> j" for j using that by (simp add: s'_def)
  have at: "Regs s' ! i = (if Regs s ! i = addr then UserShared OR (addr AND 0x7FF) else Regs s ! i)" using Suc.prems by (simp add: s'_def)
  have split: "(\<exists>j. i \<le> j \<and> j < i + Suc n \<and> P j) \<longleftrightarrow> P i \<or> (\<exists>j. Suc i \<le> j \<and> j < Suc i + n \<and> P j)" for P
  proof -
    have "(i \<le> j \<and> j < i + Suc n) = (j = i \<or> Suc i \<le> j \<and> j < Suc i + n)" for j by arith
    then show ?thesis by (metis (no_types, lifting))
  qed
  have "(found \<or> Regs s ! i = addr) \<or> (\<exists>j. Suc i \<le> j \<and> j < Suc i + n \<and> Regs s' ! j = addr) \<longleftrightarrow>
      found \<or> (\<exists>j. i \<le> j \<and> j < i + Suc n \<and> Regs s ! j = addr)" unfolding split using same by metis
  moreover have "s'\<lparr>Regs := rs\<rparr> = s\<lparr>Regs := rs\<rparr>" by (simp add: s'_def)
  moreover have "rs ! j = (if i \<le> j \<and> j < i + Suc n \<and> Regs s ! j = addr then UserShared OR (addr AND 0x7FF) else Regs s ! j)" if "j < 16" for j
  proof (cases j i rule: linorder_cases)
    case less
    then show ?thesis using rs(3) that by (simp add: s'_def)
  next
    case equal
    then show ?thesis using rs(3) that at by simp
  next
    case greater
    then show ?thesis using rs(3) that same [of j] by simp
  qed
  ultimately show ?case using step rs(1,2) by (intro exI [of _ rs]) simp
qed

lemma op_at_some: "code_at s a = Some b \<Longrightarrow> op_at a s = Inr (b, s)"
  by (simp add: op_at_def)

text \<open>The instruction that moves between CR8 and register \<open>r\<close>; \<open>wide\<close> sets the bit of the prefix that CR8 does not depend on.\<close>

definition mov_cr8 :: "bool \<Rightarrow> bool \<Rightarrow> nat \<Rightarrow> UCHAR list" where
  "mov_cr8 wide to_cr8 r = [0x44 OR (if wide then 8 else 0) OR of_nat (r div 8), 0x0F, if to_cr8 then 0x22 else 0x20, 0xC0 OR of_nat (r mod 8)]"

definition has_code :: "XSTATE \<Rightarrow> UCHAR list \<Rightarrow> bool" where
  "has_code s bs \<longleftrightarrow> (\<forall>i < length bs. code_at s (ExceptionAddress s + i) = Some (bs ! i))"

lemma less_16: "r < 16 \<Longrightarrow> r \<in> {0, 1, 2, 3, 4, 5, 6, 7, 8, 9, 10, 11, 12, 13, 14, 15 :: nat}"
  by (simp; arith)

lemma mov_cr8_bits:
  assumes "r < 16"
  shows "mov_cr8 w d r ! 0 AND 0xF6 = 0x44" "mov_cr8 w d r ! 1 = 0x0F" "mov_cr8 w d r ! 2 AND 0xFD = 0x20" "mov_cr8 w d r ! 3 AND 0xF8 = 0xC0"
    "8 * unat (mov_cr8 w d r ! 0 AND 1) + unat (mov_cr8 w d r ! 3 AND 7) = r" "mov_cr8 w d r ! 2 AND 2 \<noteq> 0 \<longleftrightarrow> d"
  using less_16 [OF assms] by (auto simp: mov_cr8_def)

lemma priv_mov:
  assumes "r < 16" "has_code s (mov_cr8 w d r)" "length (Regs s) = 16"
  shows "DdkPrivException t s = Inr (EXCEPTION_CONTINUE_EXECUTION,
    if d then s\<lparr>levels := (levels s)\<lparr>DdkCurrentIrql := (DdkCurrentIrql (levels s))(t := unat (Regs s ! r) mod 256)\<rparr>, Rip := Rip s + 4\<rparr>
    else s\<lparr>Regs := (Regs s)[r := of_nat (DdkCurrentIrql (levels s) t)], Rip := Rip s + 4\<rparr>)"
proof -
  let ?a = "ExceptionAddress s"
  have "length (mov_cr8 w d r) = 4" by (simp add: mov_cr8_def)
  then have op: "op_at ?a s = Inr (mov_cr8 w d r ! 0, s)" "op_at (?a + 1) s = Inr (mov_cr8 w d r ! 1, s)"
      "op_at (?a + 2) s = Inr (mov_cr8 w d r ! 2, s)" "op_at (?a + 3) s = Inr (mov_cr8 w d r ! 3, s)"
    using assms(2) by (auto simp: has_code_def op_at_def dest: spec [of _ 0] spec [of _ 1] spec [of _ 2] spec [of _ 3])
  note bits = mov_cr8_bits [OF assms(1), of w d]
  have "IsCR8 ?a s = Inr (True, s)" using op bits by (simp add: IsCR8_def bindS_def)
  then show ?thesis using op bits assms(1,3)
    by (simp add: DdkPrivException_def bindS_def get_reg_def set_reg_def DdkGetRegister_def liftE_def rd_def wr_def liftY_def DdkWriteCR8_def DdkReadCR8_def set_irql_def)
qed

text \<open>Other privileged instructions are left to the next handler, with the registers and the level as they were.\<close>

lemma priv_other:
  assumes "DdkPrivException t s = Inr (EXCEPTION_CONTINUE_SEARCH, s')"
  shows "s' = s"
  using assms by (auto simp: DdkPrivException_def IsCR8_def bindS_def op_at_def Let_def split: sum.splits option.splits if_splits)

lemma access_repaired:
  assumes "NumberParameters s = 2" "ExceptionInformation s = 0 # addr # xs" "KernelShared \<le> addr" "addr < KernelShared + 0x800" "length (Regs s) = 16"
  shows "DdkAccessException s = Inr (if addr \<in> set (Regs s) then EXCEPTION_CONTINUE_EXECUTION else EXCEPTION_CONTINUE_SEARCH,
    s\<lparr>Regs := map (\<lambda>r. if r = addr then user_address addr else r) (Regs s)\<rparr>)"
proof -
  obtain rs where rs: "FixRegisters addr 0 16 False s = Inr (\<exists>j < 16. Regs s ! j = addr, s\<lparr>Regs := rs\<rparr>)" "length rs = 16"
    "\<forall>j < 16. rs ! j = (if Regs s ! j = addr then UserShared OR (addr AND 0x7FF) else Regs s ! j)"
    using FixRegisters_eq [of 0 16 s addr False] assms(5) by auto
  have "rs = map (\<lambda>r. if r = addr then user_address addr else r) (Regs s)"
    using rs(2,3) assms(5) by (intro nth_equalityI) (auto simp: fixed_address [OF assms(3,4)])
  moreover have "(\<exists>j < 16. Regs s ! j = addr) \<longleftrightarrow> addr \<in> set (Regs s)" using assms(5) by (auto simp: in_set_conv_nth)
  ultimately show ?thesis using rs(1) assms by (simp add: DdkAccessException_def bindS_def info_at_def liftE_def rd_def)
qed

section \<open>Properties\<close>

text \<open>
  C33.  The handler lets driver code go on as it would in the kernel.  A read of the shared data at an address that is in a register is repeated with the same offset into the data of user space: exactly the registers
  with that address are changed; if there is none, the next handler gets the exception.  A move from CR8 to any of the sixteen registers, in either encoding, stores the level of the thread there, a move to CR8 makes the low byte of the
  register the level of the thread; both go on behind the four bytes of the instruction and change nothing else.  A failed assertion is turned into the exception of the unit test.
\<close>

theorem exceptions_repaired:
  assumes "length (Regs s) = 16" "length (ExceptionInformation s) = 15"
  shows "(ExceptionCode s = EXCEPTION_ACCESS_VIOLATION \<and> NumberParameters s = 2 \<and> ExceptionInformation s ! 0 = 0 \<and> ExceptionInformation s ! 1 = addr \<and>
      KernelShared \<le> addr \<and> addr < KernelShared + 0x800 \<longrightarrow>
      DdkExceptionHandler t s = Inr (if addr \<in> set (Regs s) then EXCEPTION_CONTINUE_EXECUTION else EXCEPTION_CONTINUE_SEARCH,
        s\<lparr>Regs := map (\<lambda>r. if r = addr then UserShared + (addr - KernelShared) else r) (Regs s)\<rparr>)) \<and>
    (ExceptionCode s = EXCEPTION_PRIV_INSTRUCTION \<and> r < 16 \<and> has_code s (mov_cr8 w to_cr8 r) \<longrightarrow>
      DdkExceptionHandler t s = Inr (EXCEPTION_CONTINUE_EXECUTION,
        if to_cr8 then s\<lparr>levels := (levels s)\<lparr>DdkCurrentIrql := (DdkCurrentIrql (levels s))(t := unat (Regs s ! r) mod 256)\<rparr>, Rip := Rip s + 4\<rparr>
        else s\<lparr>Regs := (Regs s)[r := of_nat (DdkCurrentIrql (levels s) t)], Rip := Rip s + 4\<rparr>)) \<and>
    (ExceptionCode s = STATUS_ASSERTION_FAILURE \<longrightarrow> (\<exists>s'. DdkExceptionHandler t s = Inr (EXCEPTION_CONTINUE_SEARCH, s') \<and>
      ExceptionCode s' = EXCEPTION_UNITTEST_ASSERTION \<and> NumberParameters s' = 2 \<and> take 2 (ExceptionInformation s') = [0, 0] \<and> Regs s' = Regs s \<and> levels s' = levels s))"
proof (intro conjI impI)
  assume a: "ExceptionCode s = EXCEPTION_ACCESS_VIOLATION \<and> NumberParameters s = 2 \<and> ExceptionInformation s ! 0 = 0 \<and> ExceptionInformation s ! 1 = addr \<and>
      KernelShared \<le> addr \<and> addr < KernelShared + 0x800"
  obtain x y xs where i: "ExceptionInformation s = x # y # xs" using assms(2) by (metis Suc_length_conv numeral_eq_Suc pred_numeral_simps)
  with a have "ExceptionInformation s = 0 # addr # xs" by simp
  from access_repaired [OF _ this _ _ assms(1)] a
  show "DdkExceptionHandler t s = Inr (if addr \<in> set (Regs s) then EXCEPTION_CONTINUE_EXECUTION else EXCEPTION_CONTINUE_SEARCH,
        s\<lparr>Regs := map (\<lambda>r. if r = addr then UserShared + (addr - KernelShared) else r) (Regs s)\<rparr>)"
    by (simp add: DdkExceptionHandler_def bindS_def user_address_def)
next
  assume "ExceptionCode s = EXCEPTION_PRIV_INSTRUCTION \<and> r < 16 \<and> has_code s (mov_cr8 w to_cr8 r)"
  with priv_mov [of r s w to_cr8 t] assms(1) show "DdkExceptionHandler t s = Inr (EXCEPTION_CONTINUE_EXECUTION,
        if to_cr8 then s\<lparr>levels := (levels s)\<lparr>DdkCurrentIrql := (DdkCurrentIrql (levels s))(t := unat (Regs s ! r) mod 256)\<rparr>, Rip := Rip s + 4\<rparr>
        else s\<lparr>Regs := (Regs s)[r := of_nat (DdkCurrentIrql (levels s) t)], Rip := Rip s + 4\<rparr>)"
    by (simp add: DdkExceptionHandler_def bindS_def)
next
  assume a: "ExceptionCode s = STATUS_ASSERTION_FAILURE"
  obtain x y xs where i: "ExceptionInformation s = x # y # xs" using assms(2) by (metis Suc_length_conv numeral_eq_Suc pred_numeral_simps)
  from a i show "\<exists>s'. DdkExceptionHandler t s = Inr (EXCEPTION_CONTINUE_SEARCH, s') \<and>
      ExceptionCode s' = EXCEPTION_UNITTEST_ASSERTION \<and> NumberParameters s' = 2 \<and> take 2 (ExceptionInformation s') = [0, 0] \<and> Regs s' = Regs s \<and> levels s' = levels s"
    by (simp add: DdkExceptionHandler_def bindS_def)
qed

definition sample_exception :: XSTATE where
  "sample_exception = \<lparr>ExceptionCode = EXCEPTION_PRIV_INSTRUCTION, NumberParameters = 0, ExceptionInformation = replicate 15 0, ExceptionAddress = 64,
     Regs = replicate 9 7 @ [0x102] @ replicate 6 0, Rip = 64, code_at = (\<lambda>a. if a = 64 then Some 0x45 else if a = 65 then Some 0x0F else if a = 66 then Some 0x22 else if a = 67 then Some 0xC1 else None),
     levels = \<lparr>DdkCurrentIrql = (\<lambda>_. 0), srw = (\<lambda>_. Free), cell = (\<lambda>_. 0), lockcount = 0, lockv = [], blocks_left = 0\<rparr>\<rparr>"

theorem exceptions_repaired_witness:
  "\<exists>s'. DdkExceptionHandler 3 sample_exception = Inr (- 1, s') \<and> DdkCurrentIrql (levels s') 3 = 2 \<and> DdkCurrentIrql (levels s') 4 = 0 \<and> Rip s' = 68"
proof -
  have l: "length (Regs sample_exception) = 16" "length (ExceptionInformation sample_exception) = 15" by (simp_all add: sample_exception_def)
  have c: "has_code sample_exception (mov_cr8 False True 9)" 
  proof -
    have "mov_cr8 False True 9 = [0x45, 0x0F, 0x22, 0xC1]" by (simp add: mov_cr8_def)
    moreover have "i < 4 \<Longrightarrow> i = 0 \<or> i = 1 \<or> i = 2 \<or> i = 3" for i :: nat by arith
    ultimately show ?thesis by (force simp: has_code_def sample_exception_def)
  qed
  have r: "unat (Regs sample_exception ! 9) mod 256 = 2" by (simp add: sample_exception_def nth_append)
  show ?thesis using exceptions_repaired [OF l, of 0 3 9 False True] c r by (simp add: sample_exception_def)
qed

end
