(* ===== verification/Lists.thy ===== *)
theory Lists
  imports Sync
begin

text \<open>
  Interlocked lists, pool memory and lookaside lists: src/src/list.cpp, src/src/slist.cpp, src/src/alloc.cpp and src/src/interlocked.cpp.

  The operations on doubly linked lists come from the header of the kernel and are a parameter \<open>LISTOPS\<close> on memory of any type; the locale \<open>dlist\<close> says what is relied on of them, and is interpreted on the cells of a memory with
  forward and backward links.  The state has that memory, the spin locks and levels (theory Sync), the singly linked lists of Windows, the lookaside lists by address, and the blocks of the pool.
  A call of an allocation or free function of the driver is recorded.
\<close>

section \<open>Definitions\<close>

record 'h LISTOPS =
  IsListEmpty :: "nat \<Rightarrow> 'h \<Rightarrow> bool option"
  RemoveHeadList :: "nat \<Rightarrow> 'h \<Rightarrow> (nat \<times> 'h) option"
  InsertHeadList :: "nat \<Rightarrow> nat \<Rightarrow> 'h \<Rightarrow> 'h option"
  InsertTailList :: "nat \<Rightarrow> nat \<Rightarrow> 'h \<Rightarrow> 'h option"
  Flink :: "nat \<Rightarrow> 'h \<Rightarrow> nat option"
  Blink :: "nat \<Rightarrow> 'h \<Rightarrow> nat option"

datatype ALLOCATE = PoolAllocate | DriverAllocate nat
datatype FREE = PoolFree | DriverFree nat

record LOOKASIDE =
  Allocate :: ALLOCATE
  FreeFn :: FREE
  BlockSize :: ULONG
  LTag :: ULONG
  Depth :: nat
  LType :: nat
  TotalAllocates :: nat

record 'h LISTS =
  links :: 'h
  locks :: SYNC
  slists :: "nat \<Rightarrow> nat list"
  lookasides :: "nat \<Rightarrow> LOOKASIDE"
  blocks :: "nat list"
  freed :: "(nat \<times> nat) list"

abbreviation (input) PAGE_SIZE :: nat where "PAGE_SIZE \<equiv> 4096"

definition liftK :: "('a, SYNC) st \<Rightarrow> ('a, 'h LISTS) st" where
  "liftK m s = (case m (locks s) of Inl e \<Rightarrow> Inl e | Inr (x, y) \<Rightarrow> Inr (x, s\<lparr>locks := y\<rparr>))"

definition readL :: "('h \<Rightarrow> 'a option) \<Rightarrow> ('a, 'h LISTS) st" where
  "readL f s = (case f (links s) of None \<Rightarrow> Inl Fault | Some x \<Rightarrow> Inr (x, s))"

definition changeL :: "('h \<Rightarrow> ('a \<times> 'h) option) \<Rightarrow> ('a, 'h LISTS) st" where
  "changeL f s = (case f (links s) of None \<Rightarrow> Inl Fault | Some (x, h) \<Rightarrow> Inr (x, s\<lparr>links := h\<rparr>))"

subsection \<open>Doubly linked lists\<close>

text \<open>KeAcquireSpinLock is KeAcquireSpinLockRaiseToDpc with the old level as its result.\<close>

definition ExInterlockedRemoveHeadList :: "'h LISTOPS \<Rightarrow> nat \<Rightarrow> nat \<Rightarrow> nat \<Rightarrow> (nat, 'h LISTS) st" where
  "ExInterlockedRemoveHeadList W t ListHead Lock =
     bindS (liftK (KeAcquireSpinLockRaiseToDpc t Lock)) (\<lambda>irql.
     bindS (changeL (RemoveHeadList W ListHead)) (\<lambda>Entry.
     bindS (liftK (KeReleaseSpinLock t Lock irql)) (\<lambda>_. ret Entry)))"

definition ExInterlockedInsertHeadList :: "'h LISTOPS \<Rightarrow> nat \<Rightarrow> nat \<Rightarrow> nat \<Rightarrow> nat \<Rightarrow> (nat, 'h LISTS) st" where
  "ExInterlockedInsertHeadList W t ListHead ListEntry Lock =
     bindS (liftK (KeAcquireSpinLockRaiseToDpc t Lock)) (\<lambda>irql.
     bindS (readL (IsListEmpty W ListHead)) (\<lambda>empty.
     bindS (if \<not> empty then readL (Flink W ListHead) else ret 0) (\<lambda>Entry.
     bindS (changeL (\<lambda>h. map_option (Pair ()) (InsertHeadList W ListHead ListEntry h))) (\<lambda>_.
     bindS (liftK (KeReleaseSpinLock t Lock irql)) (\<lambda>_. ret Entry)))))"

definition ExInterlockedInsertTailList :: "'h LISTOPS \<Rightarrow> nat \<Rightarrow> nat \<Rightarrow> nat \<Rightarrow> nat \<Rightarrow> (nat, 'h LISTS) st" where
  "ExInterlockedInsertTailList W t ListHead ListEntry Lock =
     bindS (liftK (KeAcquireSpinLockRaiseToDpc t Lock)) (\<lambda>irql.
     bindS (readL (IsListEmpty W ListHead)) (\<lambda>empty.
     bindS (if \<not> empty then readL (Blink W ListHead) else ret 0) (\<lambda>Entry.
     bindS (changeL (\<lambda>h. map_option (Pair ()) (InsertTailList W ListHead ListEntry h))) (\<lambda>_.
     bindS (liftK (KeReleaseSpinLock t Lock irql)) (\<lambda>_. ret Entry)))))"

subsection \<open>Singly linked lists\<close>

text \<open>The lists of Windows: last in, first out; the depth is 16 bits wide.\<close>

definition ExQueryDepthSList :: "nat \<Rightarrow> nat \<Rightarrow> (nat, 'h LISTS) st" where
  "ExQueryDepthSList t l =
     bindS (assertS (\<lambda>s. DdkCurrentIrql (locks s) t \<le> DISPATCH_LEVEL) ''KeGetCurrentIrql() <= DISPATCH_LEVEL'') (\<lambda>_.
     gets (\<lambda>s. length (slists s l) mod 2 ^ 16))"

definition ExpInterlockedPopEntrySList :: "nat \<Rightarrow> (nat, 'h LISTS) st" where
  "ExpInterlockedPopEntrySList l =
     bindS (gets (\<lambda>s. slists s l)) (\<lambda>xs.
     case xs of [] \<Rightarrow> ret 0 | x # r \<Rightarrow> bindS (modify (\<lambda>s. s\<lparr>slists := (slists s)(l := r)\<rparr>)) (\<lambda>_. ret x))"

definition first_or_null :: "nat list \<Rightarrow> nat" where
  "first_or_null xs = (case xs of [] \<Rightarrow> 0 | x # _ \<Rightarrow> x)"

definition ExpInterlockedPushEntrySList :: "nat \<Rightarrow> nat \<Rightarrow> (nat, 'h LISTS) st" where
  "ExpInterlockedPushEntrySList l e =
     bindS (gets (\<lambda>s. slists s l)) (\<lambda>xs. bindS (modify (\<lambda>s. s\<lparr>slists := (slists s)(l := e # xs)\<rparr>)) (\<lambda>_. ret (first_or_null xs)))"

definition ExpInterlockedFlushSList :: "nat \<Rightarrow> (nat, 'h LISTS) st" where
  "ExpInterlockedFlushSList l =
     bindS (gets (\<lambda>s. slists s l)) (\<lambda>xs. bindS (modify (\<lambda>s. s\<lparr>slists := (slists s)(l := [])\<rparr>)) (\<lambda>_. ret (first_or_null xs)))"

definition ExInterlockedAddLargeInteger :: "64 word \<Rightarrow> 64 word \<Rightarrow> 64 word \<times> 64 word" where
  "ExInterlockedAddLargeInteger Addend Increment = (Addend, Addend + Increment)"

subsection \<open>Pool memory\<close>

text \<open>\<open>_aligned_malloc\<close> is a parameter: the size, the alignment and the blocks in use give an address or 0.\<close>

definition ExAllocatePoolWithTag :: "(nat \<Rightarrow> nat \<Rightarrow> nat list \<Rightarrow> nat) \<Rightarrow> nat \<Rightarrow> (nat, 'h LISTS) st" where
  "ExAllocatePoolWithTag M NumberOfBytes =
     bindS (gets blocks) (\<lambda>bs.
     let a = M NumberOfBytes (if NumberOfBytes < PAGE_SIZE then 16 else PAGE_SIZE) bs
     in if a = 0 then ret 0 else bindS (modify (\<lambda>s. s\<lparr>blocks := a # bs\<rparr>)) (\<lambda>_. ret a))"

definition ExAllocatePool :: "(nat \<Rightarrow> nat \<Rightarrow> nat list \<Rightarrow> nat) \<Rightarrow> nat \<Rightarrow> (nat, 'h LISTS) st" where
  "ExAllocatePool M NumberOfBytes = ExAllocatePoolWithTag M NumberOfBytes"

definition ExAllocatePoolWithTagPriority :: "(nat \<Rightarrow> nat \<Rightarrow> nat list \<Rightarrow> nat) \<Rightarrow> nat \<Rightarrow> (nat, 'h LISTS) st" where
  "ExAllocatePoolWithTagPriority M NumberOfBytes = ExAllocatePoolWithTag M NumberOfBytes"

text \<open>Freeing null does nothing; freeing what is not a block of the pool is undefined.\<close>

definition ExFreePoolWithTag :: "nat \<Rightarrow> (unit, 'h LISTS) st" where
  "ExFreePoolWithTag P =
     (if P = 0 then ret ()
      else bindS (gets blocks) (\<lambda>bs. if P \<in> set bs then modify (\<lambda>s. s\<lparr>blocks := remove1 P bs\<rparr>) else fail Fault))"

definition ExFreePool :: "nat \<Rightarrow> (unit, 'h LISTS) st" where
  "ExFreePool P = ExFreePoolWithTag P"

subsection \<open>Lookaside lists\<close>

text \<open>\<open>old\<close> is what the counters of the list are before; null functions are None.\<close>

definition new_lookaside :: "nat option \<Rightarrow> nat option \<Rightarrow> nat \<Rightarrow> nat \<Rightarrow> ULONG \<Rightarrow> nat \<Rightarrow> nat \<Rightarrow> LOOKASIDE" where
  "new_lookaside Alloc FreeRoutine sz type Tag d old =
     \<lparr>Allocate = (case Alloc of None \<Rightarrow> PoolAllocate | Some f \<Rightarrow> DriverAllocate f), FreeFn = (case FreeRoutine of None \<Rightarrow> PoolFree | Some f \<Rightarrow> DriverFree f),
      BlockSize = of_nat sz, LTag = Tag, Depth = d, LType = type, TotalAllocates = old\<rparr>"

definition put_lookaside :: "nat \<Rightarrow> LOOKASIDE \<Rightarrow> (unit, 'h LISTS) st" where
  "put_lookaside l v = modify (\<lambda>s. s\<lparr>slists := (slists s)(l := []), lookasides := (lookasides s)(l := v)\<rparr>)"

definition ExInitializePagedLookasideList :: "nat \<Rightarrow> nat option \<Rightarrow> nat option \<Rightarrow> nat \<Rightarrow> ULONG \<Rightarrow> nat \<Rightarrow> (unit, 'h LISTS) st" where
  "ExInitializePagedLookasideList l Alloc FreeRoutine sz Tag d = put_lookaside l (new_lookaside Alloc FreeRoutine sz 1 Tag d 0)"

definition ExInitializeNPagedLookasideList :: "nat \<Rightarrow> nat option \<Rightarrow> nat option \<Rightarrow> nat \<Rightarrow> ULONG \<Rightarrow> nat \<Rightarrow> (unit, 'h LISTS) st" where
  "ExInitializeNPagedLookasideList l Alloc FreeRoutine sz Tag d = put_lookaside l (new_lookaside Alloc FreeRoutine sz 0 Tag d 0)"

text \<open>Only as many bytes as a pointer has are cleared: the counters stay as they are.\<close>

definition ExInitializeLookasideListEx :: "nat \<Rightarrow> nat option \<Rightarrow> nat option \<Rightarrow> nat \<Rightarrow> nat \<Rightarrow> ULONG \<Rightarrow> nat \<Rightarrow> (NTSTATUS, 'h LISTS) st" where
  "ExInitializeLookasideListEx l Alloc FreeRoutine PoolType sz Tag d =
     bindS (gets (\<lambda>s. TotalAllocates (lookasides s l))) (\<lambda>old.
     bindS (put_lookaside l (new_lookaside Alloc FreeRoutine sz PoolType Tag d old)) (\<lambda>_. ret STATUS_SUCCESS))"

definition call_free :: "nat \<Rightarrow> nat \<Rightarrow> (unit, 'h LISTS) st" where
  "call_free l e =
     bindS (gets (\<lambda>s. FreeFn (lookasides s l))) (\<lambda>f.
     case f of PoolFree \<Rightarrow> ExFreePool e | DriverFree g \<Rightarrow> modify (\<lambda>s. s\<lparr>freed := freed s @ [(g, e)]\<rparr>))"

text \<open>The loop that takes the entries off the list; \<open>n\<close> rounds are given.\<close>

fun DrainList :: "nat \<Rightarrow> nat \<Rightarrow> (unit, 'h LISTS) st" where
  "DrainList l 0 = fail Waits"
| "DrainList l (Suc n) =
     bindS (ExpInterlockedPopEntrySList l) (\<lambda>e. if e = 0 then ret () else bindS (call_free l e) (\<lambda>_. DrainList l n))"

definition ExDeletePagedLookasideList :: "nat \<Rightarrow> (unit, 'h LISTS) st" where
  "ExDeletePagedLookasideList l = bindS (gets (\<lambda>s. length (slists s l))) (\<lambda>n. DrainList l (Suc n))"

definition ExDeleteNPagedLookasideList :: "nat \<Rightarrow> (unit, 'h LISTS) st" where
  "ExDeleteNPagedLookasideList l = bindS (gets (\<lambda>s. length (slists s l))) (\<lambda>n. DrainList l (Suc n))"

definition ExDeleteLookasideListEx :: "nat \<Rightarrow> (unit, 'h LISTS) st" where
  "ExDeleteLookasideListEx l = bindS (gets (\<lambda>s. length (slists s l))) (\<lambda>n. DrainList l (Suc n))"

section \<open>Doubly linked lists as sequences\<close>

text \<open>A lock that is free, and a thread that may take it.\<close>

definition available :: "nat \<Rightarrow> nat \<Rightarrow> 'h LISTS \<Rightarrow> bool" where
  "available t k s \<longleftrightarrow> srw (locks s) (Spin k) = Free \<and> DdkCurrentIrql (locks s) t \<le> DISPATCH_LEVEL"

definition while_locked :: "nat \<Rightarrow> nat \<Rightarrow> 'h LISTS \<Rightarrow> SYNC" where
  "while_locked t k s = (locks s)\<lparr>DdkCurrentIrql := (DdkCurrentIrql (locks s))(t := DISPATCH_LEVEL), srw := (srw (locks s))(Spin k := Exclusive t)\<rparr>"

lemma locked_call:
  assumes "available t k s"
  shows "liftK (KeAcquireSpinLockRaiseToDpc t k) s = Inr (DdkCurrentIrql (locks s) t, s\<lparr>locks := while_locked t k s\<rparr>)"
    "liftK (KeReleaseSpinLock t k (DdkCurrentIrql (locks s) t)) (s\<lparr>locks := while_locked t k s, links := h\<rparr>) = Inr ((), s\<lparr>links := h\<rparr>)"
    "liftK (KeReleaseSpinLock t k (DdkCurrentIrql (locks s) t)) (s\<lparr>links := h, locks := while_locked t k s\<rparr>) = Inr ((), s\<lparr>links := h\<rparr>)"
proof -
  have f: "srw (locks s) (Spin k) = Free" "DdkCurrentIrql (locks s) t \<le> DISPATCH_LEVEL" using assms by (simp_all add: available_def)
  show "liftK (KeAcquireSpinLockRaiseToDpc t k) s = Inr (DdkCurrentIrql (locks s) t, s\<lparr>locks := while_locked t k s\<rparr>)"
    using f by (simp add: liftK_def KeAcquireSpinLockRaiseToDpc_def AcquireSpinLock_def KeRaiseIrql_def KfRaiseIrql_def AcquireSRWLockExclusive_def set_irql_def set_srw_def assertS_def
        bindS_def while_locked_def)
  have "(srw (locks s))(Spin k := Free) = srw (locks s)" using f(1) by (simp add: fun_upd_idem)
  then have "KeReleaseSpinLock t k (DdkCurrentIrql (locks s) t) (while_locked t k s) = Inr ((), locks s)"
    using f by (simp add: KeReleaseSpinLock_def ReleaseSRWLockExclusive_def KeLowerIrql_def set_irql_def set_srw_def assertS_def bindS_def while_locked_def)
  then show "liftK (KeReleaseSpinLock t k (DdkCurrentIrql (locks s) t)) (s\<lparr>locks := while_locked t k s, links := h\<rparr>) = Inr ((), s\<lparr>links := h\<rparr>)"
    "liftK (KeReleaseSpinLock t k (DdkCurrentIrql (locks s) t)) (s\<lparr>links := h, locks := while_locked t k s\<rparr>) = Inr ((), s\<lparr>links := h\<rparr>)"
    by (simp_all add: liftK_def)
qed

locale dlist =
  fixes W :: "'h LISTOPS" and entries :: "'h \<Rightarrow> nat \<Rightarrow> nat list \<Rightarrow> bool" and node :: "'h \<Rightarrow> nat \<Rightarrow> bool"
  assumes nonnull: "entries h l xs \<Longrightarrow> 0 \<notin> set xs"
    and empty: "entries h l xs \<Longrightarrow> IsListEmpty W l h = Some (xs = [])"
    and first: "entries h l (x # xs) \<Longrightarrow> Flink W l h = Some x"
    and final: "entries h l (xs @ [x]) \<Longrightarrow> Blink W l h = Some x"
    and remove: "entries h l (x # xs) \<Longrightarrow> \<exists>h'. RemoveHeadList W l h = Some (x, h') \<and> entries h' l xs \<and>
      (\<forall>k ys. entries h k ys \<and> set (k # ys) \<inter> set (l # x # xs) = {} \<longrightarrow> entries h' k ys)"
    and remove_empty: "entries h l [] \<Longrightarrow> RemoveHeadList W l h = Some (l, h)"
    and insert_head: "entries h l xs \<Longrightarrow> node h e \<Longrightarrow> e \<notin> set (0 # l # xs) \<Longrightarrow> \<exists>h'. InsertHeadList W l e h = Some h' \<and> entries h' l (e # xs) \<and>
      (\<forall>k ys. entries h k ys \<and> set (k # ys) \<inter> set (l # e # xs) = {} \<longrightarrow> entries h' k ys)"
    and insert_tail: "entries h l xs \<Longrightarrow> node h e \<Longrightarrow> e \<notin> set (0 # l # xs) \<Longrightarrow> \<exists>h'. InsertTailList W l e h = Some h' \<and> entries h' l (xs @ [e]) \<and>
      (\<forall>k ys. entries h k ys \<and> set (k # ys) \<inter> set (l # e # xs) = {} \<longrightarrow> entries h' k ys)"
begin

text \<open>What a thread below the level of DPCs gets from a lock that is free, and what the call leaves behind.\<close>

lemma remove_head:
  assumes "available t k s" "entries (links s) l (x # xs)"
  shows "\<exists>h. ExInterlockedRemoveHeadList W t l k s = Inr (x, s\<lparr>links := h\<rparr>) \<and> entries h l xs \<and>
    (\<forall>m ys. entries (links s) m ys \<and> set (m # ys) \<inter> set (l # x # xs) = {} \<longrightarrow> entries h m ys)"
proof -
  obtain h where "RemoveHeadList W l (links s) = Some (x, h)" "entries h l xs" "\<forall>m ys. entries (links s) m ys \<and> set (m # ys) \<inter> set (l # x # xs) = {} \<longrightarrow> entries h m ys"
    using remove [OF assms(2)] by blast
  then show ?thesis using locked_call [OF assms(1)] by (intro exI [of _ h]) (simp add: ExInterlockedRemoveHeadList_def changeL_def bindS_def)
qed

text \<open>On an empty list the address of the head comes back, not the null pointer.\<close>

lemma remove_none:
  assumes "available t k s" "entries (links s) l []"
  shows "ExInterlockedRemoveHeadList W t l k s = Inr (l, s)"
  using locked_call(1) [OF assms(1)] locked_call(2,3) [OF assms(1), where h = "links s"] remove_empty [OF assms(2)] by (simp add: ExInterlockedRemoveHeadList_def changeL_def bindS_def)

lemma add_head:
  assumes "available t k s" "entries (links s) l xs" "node (links s) e" "e \<notin> set (0 # l # xs)"
  shows "\<exists>h. ExInterlockedInsertHeadList W t l e k s = Inr (first_or_null xs, s\<lparr>links := h\<rparr>) \<and> entries h l (e # xs) \<and>
    (\<forall>m ys. entries (links s) m ys \<and> set (m # ys) \<inter> set (l # e # xs) = {} \<longrightarrow> entries h m ys)"
proof -
  obtain h where h: "InsertHeadList W l e (links s) = Some h" "entries h l (e # xs)" "\<forall>m ys. entries (links s) m ys \<and> set (m # ys) \<inter> set (l # e # xs) = {} \<longrightarrow> entries h m ys"
    using insert_head [OF assms(2-4)] by blast
  show ?thesis using h locked_call [OF assms(1)] empty [OF assms(2)] first [of "links s" l] assms(2)
    by (cases xs; intro exI [of _ h]) (simp_all add: ExInterlockedInsertHeadList_def changeL_def readL_def bindS_def first_or_null_def)
qed

lemma add_tail:
  assumes "available t k s" "entries (links s) l xs" "node (links s) e" "e \<notin> set (0 # l # xs)"
  shows "\<exists>h. ExInterlockedInsertTailList W t l e k s = Inr (first_or_null (rev xs), s\<lparr>links := h\<rparr>) \<and> entries h l (xs @ [e]) \<and>
    (\<forall>m ys. entries (links s) m ys \<and> set (m # ys) \<inter> set (l # e # xs) = {} \<longrightarrow> entries h m ys)"
proof -
  obtain h where h: "InsertTailList W l e (links s) = Some h" "entries h l (xs @ [e])" "\<forall>m ys. entries (links s) m ys \<and> set (m # ys) \<inter> set (l # e # xs) = {} \<longrightarrow> entries h m ys"
    using insert_tail [OF assms(2-4)] by blast
  show ?thesis using h locked_call [OF assms(1)] empty [OF assms(2)] final [of "links s" l] assms(2)
    by (cases xs rule: rev_cases; intro exI [of _ h]) (simp_all add: ExInterlockedInsertTailList_def changeL_def readL_def bindS_def first_or_null_def)
qed

end

section \<open>Cells with two links\<close>

text \<open>The operations of the kernel's header on cells: the forward links and the backward links.  A list is a circle that starts and ends at its head.\<close>

record CELLS =
  nx :: "nat \<rightharpoonup> nat"
  pv :: "nat \<rightharpoonup> nat"

definition cells :: "CELLS LISTOPS" where
  "cells = \<lparr>
     IsListEmpty = (\<lambda>l h. map_option (\<lambda>x. x = l) (nx h l)),
     RemoveHeadList = (\<lambda>l h. case nx h l of None \<Rightarrow> None | Some e \<Rightarrow>
       (case nx h e of None \<Rightarrow> None | Some y \<Rightarrow> Some (e, h\<lparr>nx := (nx h)(l \<mapsto> y), pv := (pv h)(y \<mapsto> l)\<rparr>))),
     InsertHeadList = (\<lambda>l e h. case nx h l of None \<Rightarrow> None | Some y \<Rightarrow>
       if e \<in> dom (nx h) then Some (h\<lparr>nx := (nx h)(e \<mapsto> y, l \<mapsto> e), pv := (pv h)(e \<mapsto> l, y \<mapsto> e)\<rparr>) else None),
     InsertTailList = (\<lambda>l e h. case pv h l of None \<Rightarrow> None | Some z \<Rightarrow>
       if e \<in> dom (nx h) then Some (h\<lparr>nx := (nx h)(e \<mapsto> l, z \<mapsto> e), pv := (pv h)(e \<mapsto> z, l \<mapsto> e)\<rparr>) else None),
     Flink = (\<lambda>l h. nx h l), Blink = (\<lambda>l h. pv h l)\<rparr>"

fun linked :: "CELLS \<Rightarrow> nat list \<Rightarrow> bool" where
  "linked h (a # b # r) \<longleftrightarrow> nx h a = Some b \<and> pv h b = Some a \<and> linked h (b # r)"
| "linked h _ \<longleftrightarrow> True"

definition circle :: "CELLS \<Rightarrow> nat \<Rightarrow> nat list \<Rightarrow> bool" where
  "circle h l xs \<longleftrightarrow> distinct (l # xs) \<and> 0 \<notin> set (l # xs) \<and> linked h (l # xs @ [l])"

lemma linked_append: "linked h (xs @ a # ys) \<longleftrightarrow> linked h (xs @ [a]) \<and> linked h (a # ys)"
proof (induction xs)
  case (Cons x xs)
  then show ?case by (cases xs) auto
qed simp

lemma linked_frame:
  "linked h zs \<Longrightarrow> (\<And>a. a \<in> set (butlast zs) \<Longrightarrow> nx h' a = nx h a) \<Longrightarrow> (\<And>b. b \<in> set (tl zs) \<Longrightarrow> pv h' b = pv h b) \<Longrightarrow> linked h' zs"
  by (induction h zs rule: linked.induct) auto

text \<open>A change of the links of some cells leaves the circles of others alone.\<close>

lemma circle_frame:
  assumes "circle h k ys" "\<And>a. a \<notin> A \<Longrightarrow> nx h' a = nx h a" "\<And>a. a \<notin> A \<Longrightarrow> pv h' a = pv h a" "set (k # ys) \<inter> A = {}"
  shows "circle h' k ys"
proof -
  have "linked h' (k # ys @ [k])"
  proof (rule linked_frame [of h])
    show "linked h (k # ys @ [k])" using assms(1) by (simp add: circle_def)
    have "a \<in> set (k # ys)" if "a \<in> set (butlast (k # ys @ [k]))" for a using that by (simp add: butlast_append split: if_splits)
    then show "nx h' a = nx h a" if "a \<in> set (butlast (k # ys @ [k]))" for a using that assms(2,4) by blast
    show "pv h' a = pv h a" if "a \<in> set (tl (k # ys @ [k]))" for a using that assms(3,4) by auto
  qed
  then show ?thesis using assms(1) by (simp add: circle_def)
qed

lemma circle_first: "circle h l xs \<Longrightarrow> nx h l = Some (hd (xs @ [l]))"
  by (cases xs) (auto simp: circle_def)

lemma ring_split: "l # xs @ ys = butlast (l # xs) @ last (l # xs) # ys"
proof -
  have "butlast (l # xs) @ last (l # xs) # ys = (butlast (l # xs) @ [last (l # xs)]) @ ys" by simp
  also have "butlast (l # xs) @ [last (l # xs)] = l # xs" by (rule append_butlast_last_id) simp
  finally show ?thesis by simp
qed

lemma circle_last:
  assumes "circle h l xs"
  shows "pv h l = Some (last (l # xs))"
proof -
  have "linked h (butlast (l # xs) @ last (l # xs) # [l])" using assms by (simp only: circle_def ring_split [of l xs "[l]"])
  then show ?thesis unfolding linked_append [of h "butlast (l # xs)" "last (l # xs)" "[l]"] by simp
qed

lemma circle_remove:
  assumes "circle h l (x # xs)"
  shows "\<exists>h'. RemoveHeadList cells l h = Some (x, h') \<and> circle h' l xs \<and> (\<forall>k ys. circle h k ys \<and> set (k # ys) \<inter> set (l # x # xs) = {} \<longrightarrow> circle h' k ys)"
proof -
  define y where "y = hd (xs @ [l])"
  define r where "r = tl (xs @ [l])"
  have yr: "xs @ [l] = y # r" by (simp add: y_def r_def)
  have o: "nx h l = Some x" "nx h x = Some y" "linked h (y # r)" "distinct (l # x # xs)" "0 \<notin> set (l # xs)" using assms by (simp_all add: circle_def yr)
  let ?h = "h\<lparr>nx := (nx h)(l \<mapsto> y), pv := (pv h)(y \<mapsto> l)\<rparr>"
  have sub: "set (butlast (y # r)) \<subseteq> set xs" "y \<in> set (l # xs)" unfolding yr [symmetric] by (simp_all add: y_def hd_append)
  have "y \<notin> set r" using o(4) by (cases xs) (auto simp: y_def r_def)
  then have "linked ?h (y # r)" using o(3,4) sub by (intro linked_frame [OF o(3)]) auto
  then have "circle ?h l xs" using o(4,5) by (simp add: circle_def yr)
  moreover have "circle ?h k ys" if "circle h k ys" "set (k # ys) \<inter> set (l # x # xs) = {}" for k ys
    by (rule circle_frame [OF that(1), of "set (l # x # xs)"]) (use sub that(2) in auto)
  ultimately show ?thesis using o(1,2) by (intro exI [of _ ?h]) (auto simp: cells_def)
qed

lemma circle_insert_head:
  assumes "circle h l xs" "e \<in> dom (nx h)" "e \<notin> set (0 # l # xs)"
  shows "\<exists>h'. InsertHeadList cells l e h = Some h' \<and> circle h' l (e # xs) \<and> (\<forall>k ys. circle h k ys \<and> set (k # ys) \<inter> set (l # e # xs) = {} \<longrightarrow> circle h' k ys)"
proof -
  define y where "y = hd (xs @ [l])"
  define r where "r = tl (xs @ [l])"
  have yr: "xs @ [l] = y # r" by (simp add: y_def r_def)
  have o: "nx h l = Some y" "linked h (y # r)" "distinct (l # xs)" "0 \<notin> set (l # xs)" using assms(1) by (simp_all add: circle_def yr)
  let ?h = "h\<lparr>nx := (nx h)(e \<mapsto> y, l \<mapsto> e), pv := (pv h)(e \<mapsto> l, y \<mapsto> e)\<rparr>"
  have sub: "set (butlast (y # r)) \<subseteq> set xs" "y \<in> set (l # xs)" unfolding yr [symmetric] by (simp_all add: y_def hd_append)
  have "set r \<subseteq> set (l # xs)" by (cases xs) (auto simp: r_def)
  note sub = sub this
  have "y \<notin> set r" using o(3) by (cases xs) (auto simp: y_def r_def)
  then have "linked ?h (y # r)" using assms(3) o(2,3) sub by (intro linked_frame [OF o(2)]) auto
  then have "circle ?h l (e # xs)" using o assms(3) sub(2) by (auto simp: circle_def yr)
  moreover have "circle ?h k ys" if "circle h k ys" "set (k # ys) \<inter> set (l # e # xs) = {}" for k ys
    by (rule circle_frame [OF that(1), of "set (l # e # xs)"]) (use sub that(2) in auto)
  ultimately show ?thesis using o(1) assms(2) by (intro exI [of _ ?h]) (auto simp: cells_def)
qed

lemma circle_insert_tail:
  assumes "circle h l xs" "e \<in> dom (nx h)" "e \<notin> set (0 # l # xs)"
  shows "\<exists>h'. InsertTailList cells l e h = Some h' \<and> circle h' l (xs @ [e]) \<and> (\<forall>k ys. circle h k ys \<and> set (k # ys) \<inter> set (l # e # xs) = {} \<longrightarrow> circle h' k ys)"
proof -
  define z where "z = last (l # xs)"
  define r where "r = butlast (l # xs)"
  have zr: "l # xs @ ys = r @ z # ys" for ys unfolding z_def r_def by (rule ring_split)
  have c: "distinct (l # xs)" "0 \<notin> set (l # xs)" "linked h (r @ z # [l])" using assms(1) unfolding circle_def zr by simp_all
  then have o: "pv h l = Some z" "linked h (r @ [z])" unfolding linked_append [of h r z "[l]"] by simp_all
  have d: "distinct (r @ [z])" "set (l # xs) = set (r @ [z])" using zr [of "[]"] c(1) by (metis append_Nil2)+
  let ?h = "h\<lparr>nx := (nx h)(e \<mapsto> l, z \<mapsto> e), pv := (pv h)(e \<mapsto> z, l \<mapsto> e)\<rparr>"
  have z: "z \<in> set (l # xs)" "z \<noteq> e" using assms(3) d(2) by auto
  have tl: "tl (r @ [z]) = xs" using zr [of "[]"] by (metis append_Nil2 list.sel(3))
  have "linked ?h (r @ [z])"
  proof (rule linked_frame [OF o(2)])
    show "nx ?h a = nx h a" if "a \<in> set (butlast (r @ [z]))" for a
    proof -
      have "a \<in> set r" using that by simp
      then have "a \<noteq> z" "a \<noteq> e" using d assms(3) by auto
      then show ?thesis by simp
    qed
    show "pv ?h a = pv h a" if "a \<in> set (tl (r @ [z]))" for a using that c(1) assms(3) unfolding tl by auto
  qed
  then have "linked ?h (r @ z # [e, l])" unfolding linked_append [of ?h r z "[e, l]"] using z(2) assms(3) by auto
  then have "linked ?h (l # (xs @ [e]) @ [l])" unfolding append.assoc append_Cons append_Nil zr [of "[e, l]"] .
  then have "circle ?h l (xs @ [e])" using c(1,2) assms(3) by (simp add: circle_def)
  moreover have "circle ?h k ys" if "circle h k ys" "set (k # ys) \<inter> set (l # e # xs) = {}" for k ys
    by (rule circle_frame [OF that(1), of "set (l # e # xs)"]) (use z that(2) in auto)
  ultimately show ?thesis using o(1) assms(2) by (intro exI [of _ ?h]) (auto simp: cells_def)
qed

interpretation cl: dlist cells circle "\<lambda>h e. e \<in> dom (nx h)"
proof
  fix h l xs x
  show "circle h l xs \<Longrightarrow> 0 \<notin> set xs" by (simp add: circle_def)
  show "circle h l xs \<Longrightarrow> IsListEmpty cells l h = Some (xs = [])" using circle_first [of h l xs] by (cases xs) (auto simp: cells_def circle_def)
  show "circle h l (x # xs) \<Longrightarrow> Flink cells l h = Some x" using circle_first [of h l "x # xs"] by (simp add: cells_def)
  show "circle h l (xs @ [x]) \<Longrightarrow> Blink cells l h = Some x" using circle_last [of h l "xs @ [x]"] by (simp add: cells_def)
  show "circle h l [] \<Longrightarrow> RemoveHeadList cells l h = Some (l, h)" by (auto simp: cells_def circle_def fun_upd_idem)
qed (rule circle_remove circle_insert_head circle_insert_tail; assumption)+

section \<open>Draining a lookaside list\<close>

lemma pop_cons: "slists s l = x # xs \<Longrightarrow> ExpInterlockedPopEntrySList l s = Inr (x, s\<lparr>slists := (slists s)(l := xs)\<rparr>)"
  by (simp add: ExpInterlockedPopEntrySList_def bindS_def)

lemma drain_pool:
  assumes "slists s l = xs" "0 \<notin> set xs" "FreeFn (lookasides s l) = PoolFree" "distinct xs" "set xs \<subseteq> set (blocks s)"
  shows "DrainList l (Suc (length xs)) s = Inr ((), s\<lparr>slists := (slists s)(l := []), blocks := fold remove1 xs (blocks s)\<rparr>)"
  using assms
proof (induction xs arbitrary: s)
  case Nil
  then show ?case by (simp add: ExpInterlockedPopEntrySList_def bindS_def fun_upd_idem)
next
  case (Cons x xs)
  let ?s = "s\<lparr>slists := (slists s)(l := xs), blocks := remove1 x (blocks s)\<rparr>"
  have "DrainList l (Suc (length xs)) ?s = Inr ((), ?s\<lparr>slists := (slists ?s)(l := []), blocks := fold remove1 xs (blocks ?s)\<rparr>)"
  proof (intro Cons.IH)
    show "set xs \<subseteq> set (blocks ?s)"
    proof
      fix a assume "a \<in> set xs"
      then have "a \<noteq> x" "a \<in> set (blocks s)" using Cons.prems by auto
      then show "a \<in> set (blocks ?s)" by simp
    qed
  qed (use Cons.prems in auto)
  moreover have "DrainList l (Suc (Suc (length xs))) s = DrainList l (Suc (length xs)) ?s"
    using Cons.prems pop_cons [OF Cons.prems(1)] by (subst DrainList.simps) (simp add: call_free_def ExFreePool_def ExFreePoolWithTag_def bindS_def del: DrainList.simps)
  ultimately show ?case by (simp del: DrainList.simps) (simp add: fun_upd_def)
qed

lemma drain_driver:
  assumes "slists s l = xs" "0 \<notin> set xs" "FreeFn (lookasides s l) = DriverFree g"
  shows "DrainList l (Suc (length xs)) s = Inr ((), s\<lparr>slists := (slists s)(l := []), freed := freed s @ map (Pair g) xs\<rparr>)"
  using assms
proof (induction xs arbitrary: s)
  case Nil
  then show ?case by (simp add: ExpInterlockedPopEntrySList_def bindS_def fun_upd_idem)
next
  case (Cons x xs)
  let ?s = "s\<lparr>slists := (slists s)(l := xs), freed := freed s @ [(g, x)]\<rparr>"
  have "DrainList l (Suc (length xs)) ?s = Inr ((), ?s\<lparr>slists := (slists ?s)(l := []), freed := freed ?s @ map (Pair g) xs\<rparr>)"
    using Cons.prems by (intro Cons.IH) auto
  moreover have "DrainList l (Suc (Suc (length xs))) s = DrainList l (Suc (length xs)) ?s"
    using Cons.prems pop_cons [OF Cons.prems(1)] by (subst DrainList.simps) (simp add: call_free_def bindS_def del: DrainList.simps)
  ultimately show ?case by (simp del: DrainList.simps) (simp add: fun_upd_def)
qed

text \<open>A list that was initialised with ExInitializeLookasideListEx keeps the counters that its memory had.\<close>

lemma stale_counters:
  "ExInitializeLookasideListEx l a f ty n tag d s = Inr (STATUS_SUCCESS, s') \<Longrightarrow> TotalAllocates (lookasides s' l) = TotalAllocates (lookasides s l)"
  by (auto simp: ExInitializeLookasideListEx_def bindS_def put_lookaside_def new_lookaside_def)

lemma aligned_block:
  assumes "\<And>n a bs. 0 < M n a bs \<Longrightarrow> a dvd M n a bs \<and> M n a bs \<notin> set bs"
    "ExAllocatePoolWithTag M n s = Inr (p, s')" "p \<noteq> 0"
  shows "16 dvd p \<and> (4096 \<le> n \<longrightarrow> 4096 dvd p) \<and> p \<notin> set (blocks s) \<and> blocks s' = p # blocks s \<and> ExFreePool p s' = Inr ((), s'\<lparr>blocks := blocks s\<rparr>)"
proof -
  let ?al = "if n < PAGE_SIZE then 16 else PAGE_SIZE"
  have p: "p = M n ?al (blocks s)" "s' = s\<lparr>blocks := p # blocks s\<rparr>"
    using assms(2,3) by (auto simp: ExAllocatePoolWithTag_def bindS_def Let_def split: if_splits)
  then have "?al dvd p" "p \<notin> set (blocks s)" using assms(1) [of n ?al "blocks s"] assms(3) by auto
  moreover have "(16 :: nat) dvd ?al" by simp
  ultimately have "16 dvd p" using dvd_trans by blast
  then show ?thesis using p(2) \<open>?al dvd p\<close> \<open>p \<notin> set (blocks s)\<close> assms(3) by (auto simp: ExFreePool_def ExFreePoolWithTag_def bindS_def)
qed

lemma locked_waits:
  assumes "srw (locks s) (Spin k) \<noteq> Free" "DdkCurrentIrql (locks s) t \<le> DISPATCH_LEVEL"
  shows "liftK (KeAcquireSpinLockRaiseToDpc t k) s = Inl Waits"
  using assms by (simp add: liftK_def KeAcquireSpinLockRaiseToDpc_def AcquireSpinLock_def KeRaiseIrql_def KfRaiseIrql_def AcquireSRWLockExclusive_def set_irql_def assertS_def bindS_def)

section \<open>Properties\<close>

text \<open>
  C34.  The interlocked lists are sequences under a lock.  While the lock is free, inserting at either end returns the entry that was there before, or null, and adds the new entry; removing from a list with entries
  returns the first and leaves the others in their order.  The lock is free again and the level is the old one when the routine returns, and lists with other cells are not touched.  Removing from an empty list returns the address of the head.  While the lock is held,
  the routines wait and change nothing.
\<close>

theorem interlocked_lists_refine:
  assumes "dlist W entries node" "available t k s" "entries (links s) l xs" "node (links s) e" "e \<notin> set (0 # l # xs)"
    and "entries (links s) m ys" "set (m # ys) \<inter> set (l # e # xs) = {}"
  shows "(\<exists>h. ExInterlockedInsertHeadList W t l e k s = Inr (first_or_null xs, s\<lparr>links := h\<rparr>) \<and> entries h l (e # xs) \<and> entries h m ys) \<and>
    (\<exists>h. ExInterlockedInsertTailList W t l e k s = Inr (first_or_null (rev xs), s\<lparr>links := h\<rparr>) \<and> entries h l (xs @ [e]) \<and> entries h m ys) \<and>
    (xs \<noteq> [] \<longrightarrow> (\<exists>h. ExInterlockedRemoveHeadList W t l k s = Inr (hd xs, s\<lparr>links := h\<rparr>) \<and> entries h l (tl xs) \<and> entries h m ys)) \<and>
    (xs = [] \<longrightarrow> ExInterlockedRemoveHeadList W t l k s = Inr (l, s)) \<and>
    (\<forall>s2. srw (locks s2) (Spin k) \<noteq> Free \<and> DdkCurrentIrql (locks s2) t \<le> DISPATCH_LEVEL \<longrightarrow>
      ExInterlockedInsertHeadList W t l e k s2 = Inl Waits \<and> ExInterlockedInsertTailList W t l e k s2 = Inl Waits \<and> ExInterlockedRemoveHeadList W t l k s2 = Inl Waits)"
proof (intro conjI impI allI)
  show "\<exists>h. ExInterlockedInsertHeadList W t l e k s = Inr (first_or_null xs, s\<lparr>links := h\<rparr>) \<and> entries h l (e # xs) \<and> entries h m ys"
    using dlist.add_head [OF assms(1-5)] assms(6,7) by metis
  show "\<exists>h. ExInterlockedInsertTailList W t l e k s = Inr (first_or_null (rev xs), s\<lparr>links := h\<rparr>) \<and> entries h l (xs @ [e]) \<and> entries h m ys"
    using dlist.add_tail [OF assms(1-5)] assms(6,7) by metis
  show "\<exists>h. ExInterlockedRemoveHeadList W t l k s = Inr (hd xs, s\<lparr>links := h\<rparr>) \<and> entries h l (tl xs) \<and> entries h m ys" if "xs \<noteq> []"
  proof -
    have x: "xs = hd xs # tl xs" using that by simp
    have "set (m # ys) \<inter> set (l # hd xs # tl xs) = {}" using assms(7) that by auto
    with dlist.remove_head [OF assms(1,2), of l "hd xs" "tl xs"] assms(3,6) x show ?thesis by metis
  qed
  show "ExInterlockedRemoveHeadList W t l k s = Inr (l, s)" if "xs = []" using dlist.remove_none [OF assms(1,2)] assms(3) that by simp
  fix s2 :: "'a LISTS"
  assume "srw (locks s2) (Spin k) \<noteq> Free \<and> DdkCurrentIrql (locks s2) t \<le> DISPATCH_LEVEL"
  then have "liftK (KeAcquireSpinLockRaiseToDpc t k) s2 = Inl Waits" by (simp add: locked_waits)
  then show "ExInterlockedInsertHeadList W t l e k s2 = Inl Waits" "ExInterlockedInsertTailList W t l e k s2 = Inl Waits" "ExInterlockedRemoveHeadList W t l k s2 = Inl Waits"
    by (simp_all add: ExInterlockedInsertHeadList_def ExInterlockedInsertTailList_def ExInterlockedRemoveHeadList_def bindS_def)
qed

definition sample_lists :: "CELLS LISTS" where
  "sample_lists = \<lparr>links = \<lparr>nx = [16 \<mapsto> 32, 32 \<mapsto> 16, 48 \<mapsto> 0, 64 \<mapsto> 64], pv = [16 \<mapsto> 32, 32 \<mapsto> 16, 48 \<mapsto> 0, 64 \<mapsto> 64]\<rparr>,
     locks = \<lparr>DdkCurrentIrql = (\<lambda>_. 1), srw = (\<lambda>_. Free), cell = (\<lambda>_. 0), lockcount = 0, lockv = [], blocks_left = 0\<rparr>, slists = (\<lambda>_. [96, 80]),
     lookasides = (\<lambda>_. new_lookaside None None 64 1 0 4 0), blocks = [80, 112, 96], freed = []\<rparr>"

theorem interlocked_lists_refine_witness:
  "\<exists>h. ExInterlockedInsertTailList cells 2 16 48 8 sample_lists = Inr (32, sample_lists\<lparr>links := h\<rparr>) \<and> circle h 16 [32, 48] \<and> circle h 64 []"
proof -
  have "available 2 8 sample_lists" "circle (links sample_lists) 16 [32]" "48 \<in> dom (nx (links sample_lists))" "48 \<notin> set (0 # 16 # [32 :: nat])" "circle (links sample_lists) 64 []"
    "set (64 # []) \<inter> set (16 # 48 # [32 :: nat]) = {}" by (simp_all add: available_def sample_lists_def circle_def)
  from interlocked_lists_refine [OF cl.dlist_axioms this] show ?thesis by (simp add: first_or_null_def)
qed

text \<open>
  Deleting a lookaside list, of any of the three kinds, ends and hands every entry exactly once to the free function: when the driver has given none, the blocks go back to the pool, which keeps the others; otherwise the function of the driver is called
  with each entry, from the last that was put on the list to the first.  The list is empty afterwards.
\<close>

theorem lookaside_drained:
  assumes "0 \<notin> set (slists s l)" "distinct (slists s l)" "del = ExDeletePagedLookasideList \<or> del = ExDeleteNPagedLookasideList \<or> del = ExDeleteLookasideListEx"
    "distinct (blocks s)" "FreeFn (lookasides s l) = PoolFree \<Longrightarrow> set (slists s l) \<subseteq> set (blocks s)"
  shows "\<exists>s'. del l s = Inr ((), s') \<and> slists s' = (slists s)(l := []) \<and> links s' = links s \<and> locks s' = locks s \<and>
    (case FreeFn (lookasides s l) of
       PoolFree \<Rightarrow> set (blocks s') = set (blocks s) - set (slists s l) \<and> distinct (blocks s') \<and> freed s' = freed s
     | DriverFree g \<Rightarrow> blocks s' = blocks s \<and> freed s' = freed s @ map (Pair g) (slists s l))"
proof -
  have del: "del l s = DrainList l (Suc (length (slists s l))) s"
    using assms(3) by (elim disjE) (simp_all add: ExDeletePagedLookasideList_def ExDeleteNPagedLookasideList_def ExDeleteLookasideListEx_def bindS_def)
  have fold: "set (fold remove1 xs bs) = set bs - set xs \<and> distinct (fold remove1 xs bs)" if "distinct bs" for xs bs :: "nat list"
    using that by (induction xs arbitrary: bs) auto
  show ?thesis
  proof (cases "FreeFn (lookasides s l)")
    case PoolFree
    with drain_pool [OF refl assms(1) PoolFree assms(2)] assms(5) del fold [OF assms(4)] show ?thesis by (simp del: DrainList.simps)
  next
    case (DriverFree g)
    with drain_driver [OF refl assms(1) DriverFree] del show ?thesis by (simp del: DrainList.simps)
  qed
qed

theorem lookaside_drained_witness:
  "\<exists>s'. ExDeleteLookasideListEx 128 sample_lists = Inr ((), s') \<and> slists s' 128 = [] \<and> set (blocks s') = {112}"
proof -
  have "0 \<notin> set (slists sample_lists 128)" "distinct (slists sample_lists 128)" "distinct (blocks sample_lists)" "set (slists sample_lists 128) \<subseteq> set (blocks sample_lists)"
    "FreeFn (lookasides sample_lists 128) = PoolFree" by (simp_all add: sample_lists_def new_lookaside_def)
  from lookaside_drained [OF this(1,2) _ this(3,4), of ExDeleteLookasideListEx] this(5) show ?thesis by (auto simp: sample_lists_def)
qed

end
