(* ===== verification/Modules.thy ===== *)
theory Modules
  imports DdkBase
begin

text \<open>
  Test modules: src/src/unittest.cpp.

  A module of tests registers its cleanup function when it starts and asks, when it ends, whether it has to clean up.  A test runner that starts the next module on the same thread before it ends the first makes the start of
  the next one clean up the first, whose name is then kept in a table until its end is reported.  The routines change the state under a lock, so each is one step; the first argument \<open>t\<close> is the calling thread.
  A function is a number, 0 is the null pointer.  A cleanup function begins with the macro of UnitTest.h, which returns if the module does not have to clean up; \<open>fname\<close> gives its name, and \<open>cleaned\<close> records the
  functions that went on and cleaned up.
\<close>

section \<open>Definitions\<close>


text \<open>The name behind the last colon.\<close>

definition test_name :: "string \<Rightarrow> string" where
  "test_name pName = rev (takeWhile (\<lambda>c. c \<noteq> CHR '':'') (rev pName))"

fun AddName :: "string option \<Rightarrow> string option list \<Rightarrow> string option list" where
  "AddName x [] = []"
| "AddName x (v # vs) = (if v = None then x # vs else v # AddName x vs)"







section \<open>Lemmas\<close>



lemma AddName_full: "None \<notin> set vs \<Longrightarrow> AddName x vs = vs"
  by (induction x vs rule: AddName.induct) auto

lemma marks_remove: "{n. Some n \<in> (\<lambda>v. if v = Some x then None else v) ` A} = {n. Some n \<in> A} - {x}"
  by auto

lemma free_remove: "None \<in> A \<Longrightarrow> None \<in> (\<lambda>v. if v = Some x then None else v) ` A"
  by (auto simp: image_iff)



lemma test_name_colon:
  assumes "CHR '':'' \<notin> set b"
  shows "test_name (a @ CHR '':'' # b) = b" "test_name b = b"
proof -
  have "takeWhile (\<lambda>c. c \<noteq> CHR '':'') (rev b @ x) = rev b @ takeWhile (\<lambda>c. c \<noteq> CHR '':'') x" for x using assms by (intro takeWhile_append2) auto
  from this [of "CHR '':'' # rev a"] this [of "[]"] show "test_name (a @ CHR '':'' # b) = b" "test_name b = b" using assms by (simp_all add: test_name_def takeWhile_eq_all_conv [THEN iffD2])
qed





section \<open>Properties\<close>




end
