(* ===== verification/Runtime.thy ===== *)
theory Runtime
  imports DdkBase
begin

text \<open>
  Memory, byte order, versions and clocks: src/src/rtl.cpp and the clocks of src/src/time.cpp.

  Memory is a list of bytes, None for a null pointer.  The conversions of Windows between file times and calendar dates and the local time are the parameter \<open>WINTIME\<close>; a LARGE_INTEGER or a FILETIME is a 64-bit word, its parts are taken apart and put together
  as the code does.
\<close>

section \<open>Definitions\<close>

subsection \<open>Memory\<close>

definition RtlZeroMemory :: "UCHAR list option \<Rightarrow> nat \<Rightarrow> UCHAR list res" where
  "RtlZeroMemory Destination len =
     (case Destination of
        None \<Rightarrow> Inl (DdkFail ''Destination != NULL'')
      | Some d \<Rightarrow> if len \<le> length d then Inr (replicate len 0 @ drop len d) else Inl Fault)"

fun CompareLoop :: "UCHAR list \<Rightarrow> UCHAR list \<Rightarrow> nat \<Rightarrow> nat \<Rightarrow> nat res" where
  "CompareLoop s1 s2 i 0 = Inr i"
| "CompareLoop s1 s2 i (Suc n) =
     bindE (rd s1 i) (\<lambda>a. bindE (rd s2 i) (\<lambda>b. if a \<noteq> b then Inr i else CompareLoop s1 s2 (Suc i) n))"

definition RtlCompareMemory :: "UCHAR list option \<Rightarrow> UCHAR list option \<Rightarrow> nat \<Rightarrow> nat res" where
  "RtlCompareMemory Source1 Source2 len =
     (case (Source1, Source2) of
        (Some s1, Some s2) \<Rightarrow> CompareLoop s1 s2 0 len
      | _ \<Rightarrow> Inl (DdkFail ''Source1 != NULL && Source2 != NULL''))"

subsection \<open>Byte order\<close>

text \<open>The bytes of a half are exchanged, then the halves.\<close>

definition RtlUshortByteSwap :: "16 word \<Rightarrow> 16 word" where
  "RtlUshortByteSwap x = push_bit 8 x OR drop_bit 8 x"

definition RtlUlongByteSwap :: "32 word \<Rightarrow> 32 word" where
  "RtlUlongByteSwap x = push_bit 16 (ucast (RtlUshortByteSwap (ucast x))) OR ucast (RtlUshortByteSwap (ucast (drop_bit 16 x)))"

definition RtlUlonglongByteSwap :: "64 word \<Rightarrow> 64 word" where
  "RtlUlonglongByteSwap x = push_bit 32 (ucast (RtlUlongByteSwap (ucast x))) OR ucast (RtlUlongByteSwap (ucast (drop_bit 32 x)))"

subsection \<open>Version\<close>

record OSVERSION =
  dwOSVersionInfoSize :: nat
  dwMajorVersion :: nat
  dwMinorVersion :: nat
  dwBuildNumber :: nat
  dwPlatformId :: nat
  wServicePackMajor :: nat
  wServicePackMinor :: nat
  wSuiteMask :: nat
  wProductType :: nat
  wReserved :: nat

text \<open>The sizes of RTL_OSVERSIONINFOW and RTL_OSVERSIONINFOEXW are 276 and 284.\<close>

definition RtlGetVersion :: "OSVERSION option \<Rightarrow> (NTSTATUS \<times> OSVERSION) res" where
  "RtlGetVersion p =
     (case p of
        None \<Rightarrow> Inl (DdkFail ''OsVersionInfo != NULL'')
      | Some v \<Rightarrow>
          let v1 = (if dwOSVersionInfoSize v = 284
                    then v\<lparr>wServicePackMajor := 0, wServicePackMinor := 0, wSuiteMask := 0x110, wProductType := 3, wReserved := 0\<rparr>
                    else v\<lparr>dwOSVersionInfoSize := 276\<rparr>)
          in Inr (STATUS_SUCCESS, v1\<lparr>dwMajorVersion := 6, dwMinorVersion := 3, dwBuildNumber := 0x2580, dwPlatformId := 2\<rparr>))"

subsection \<open>Clocks\<close>

record SYSTEMTIME =
  wYear :: nat
  wMonth :: nat
  wDayOfWeek :: nat
  wDay :: nat
  wHour :: nat
  wMinute :: nat
  wSecond :: nat
  wMilliseconds :: nat

record TIME_FIELDS =
  Year :: int
  Month :: int
  Day :: int
  Hour :: int
  Minute :: int
  Second :: int
  Milliseconds :: int
  Weekday :: int

record WINTIME =
  FileTimeToSystemTime :: "64 word \<Rightarrow> SYSTEMTIME option"
  SystemTimeToFileTime :: "SYSTEMTIME \<Rightarrow> 64 word option"
  FileTimeToLocalFileTime :: "64 word \<Rightarrow> 64 word option"

text \<open>The two halves of a time, and a time of two halves.\<close>

definition halves :: "64 word \<Rightarrow> 32 word \<times> 32 word" where
  "halves x = (ucast x, ucast (drop_bit 32 x))"

definition from_halves :: "32 word \<times> 32 word \<Rightarrow> 64 word" where
  "from_halves = (\<lambda>(low, high). push_bit 32 (ucast high) OR ucast low)"

text \<open>A WORD of the date is stored in a CSHORT, and a CSHORT in a WORD.\<close>

definition cshort :: "nat \<Rightarrow> int" where
  "cshort n = sint (of_nat n :: 16 word)"

definition word16 :: "int \<Rightarrow> nat" where
  "word16 i = unat (of_int i :: 16 word)"

definition RtlTimeToTimeFields :: "WINTIME \<Rightarrow> 64 word \<Rightarrow> TIME_FIELDS res" where
  "RtlTimeToTimeFields W Time =
     (case FileTimeToSystemTime W (from_halves (halves Time)) of
        None \<Rightarrow> Inl (DdkFail ''Could not convert time structure'')
      | Some st \<Rightarrow> Inr \<lparr>Year = cshort (wYear st), Month = cshort (wMonth st), Day = cshort (wDay st), Hour = cshort (wHour st), Minute = cshort (wMinute st),
          Second = cshort (wSecond st), Milliseconds = cshort (wMilliseconds st), Weekday = cshort (wDayOfWeek st)\<rparr>)"

text \<open>The time, None for FALSE.\<close>

definition RtlTimeFieldsToTime :: "WINTIME \<Rightarrow> TIME_FIELDS \<Rightarrow> 64 word option" where
  "RtlTimeFieldsToTime W t =
     map_option (\<lambda>ft. from_halves (halves ft))
       (SystemTimeToFileTime W \<lparr>wYear = word16 (Year t), wMonth = word16 (Month t), wDayOfWeek = word16 (Weekday t), wDay = word16 (Day t), wHour = word16 (Hour t),
          wMinute = word16 (Minute t), wSecond = word16 (Second t), wMilliseconds = word16 (Milliseconds t)\<rparr>)"

definition ExSystemTimeToLocalTime :: "WINTIME \<Rightarrow> 64 word \<Rightarrow> 64 word res" where
  "ExSystemTimeToLocalTime W t =
     (case FileTimeToLocalFileTime W (from_halves (halves t)) of
        None \<Rightarrow> Inl (DdkFail ''Could not convert system time to a valid local time'')
      | Some x \<Rightarrow> Inr (from_halves (halves x)))"

text \<open>The length of a tick in units of 100 nanoseconds, from the multiplier of the shared data, which has 24 bits behind the point and counts milliseconds.\<close>

definition KeMaximumIncrement :: "32 word \<Rightarrow> 32 word" where
  "KeMaximumIncrement multiplier = ucast (drop_bit 24 (10000 * ucast multiplier + (2 ^ 23 - 1) :: 64 word))"

section \<open>Lemmas\<close>

text \<open>RtlCompareMemory returns the length of the common beginning.\<close>

lemma CompareLoop_eq:
  assumes "i + n \<le> length s1" "i + n \<le> length s2"
  shows "\<exists>k. CompareLoop s1 s2 i n = Inr k \<and> i \<le> k \<and> k \<le> i + n \<and> (\<forall>j. i \<le> j \<and> j < k \<longrightarrow> s1 ! j = s2 ! j) \<and> (k < i + n \<longrightarrow> s1 ! k \<noteq> s2 ! k)"
  using assms
proof (induction n arbitrary: i)
  case (Suc n)
  show ?case
  proof (cases "s1 ! i = s2 ! i")
    case True
    from Suc.IH [of "Suc i"] Suc.prems obtain k where k: "CompareLoop s1 s2 (Suc i) n = Inr k" "Suc i \<le> k" "k \<le> i + Suc n"
      "\<forall>j. Suc i \<le> j \<and> j < k \<longrightarrow> s1 ! j = s2 ! j" "k < i + Suc n \<longrightarrow> s1 ! k \<noteq> s2 ! k" by auto
    have "\<forall>j. i \<le> j \<and> j < k \<longrightarrow> s1 ! j = s2 ! j" using k(4) True by (metis Suc_leI le_neq_implies_less)
    then show ?thesis using k True Suc.prems by (intro exI [of _ k]) (simp add: rd_def)
  next
    case False
    then show ?thesis using Suc.prems by (intro exI [of _ i]) (auto simp: rd_def)
  qed
qed (intro exI, auto)

lemma from_halves_halves: "from_halves (halves x) = x"
  by (rule bit_word_eqI) (auto simp: from_halves_def halves_def bit_simps)

lemma ushort_swap_twice: "RtlUshortByteSwap (RtlUshortByteSwap x) = x"
  by (rule bit_word_eqI) (auto simp: RtlUshortByteSwap_def bit_simps)

lemma join32:
  fixes a b :: "16 word"
  shows "ucast (push_bit 16 (ucast a) OR ucast b :: 32 word) = b" "ucast (drop_bit 16 (push_bit 16 (ucast a) OR ucast b :: 32 word)) = a"
  by (rule bit_word_eqI; auto simp: bit_simps dest: bit_imp_le_length)+

lemma split32: "push_bit 16 (ucast (ucast (drop_bit 16 x) :: 16 word)) OR ucast (ucast x :: 16 word) = (x :: 32 word)"
  by (rule bit_word_eqI) (auto simp: bit_simps)

lemma ulong_swap_twice: "RtlUlongByteSwap (RtlUlongByteSwap x) = x"
  unfolding RtlUlongByteSwap_def join32 ushort_swap_twice by (rule split32)

lemma join64:
  fixes a b :: "32 word"
  shows "ucast (push_bit 32 (ucast a) OR ucast b :: 64 word) = b" "ucast (drop_bit 32 (push_bit 32 (ucast a) OR ucast b :: 64 word)) = a"
  by (rule bit_word_eqI; auto simp: bit_simps dest: bit_imp_le_length)+

lemma ulonglong_swap_twice: "RtlUlonglongByteSwap (RtlUlonglongByteSwap x) = x"
  using from_halves_halves [of x] unfolding RtlUlonglongByteSwap_def join64 ulong_swap_twice by (simp add: from_halves_def halves_def)

lemma compare_exact:
  assumes "n \<le> length s1" "n \<le> length s2"
  shows "\<exists>k \<le> n. RtlCompareMemory (Some s1) (Some s2) n = Inr k \<and> take k s1 = take k s2 \<and> (k = n \<longleftrightarrow> take n s1 = take n s2)"
proof -
  from CompareLoop_eq [of 0 n s1 s2] assms obtain k where k: "CompareLoop s1 s2 0 n = Inr k" "k \<le> n" "\<forall>j < k. s1 ! j = s2 ! j" "k < n \<longrightarrow> s1 ! k \<noteq> s2 ! k" by auto
  have "take k s1 = take k s2" using k(2,3) assms by (intro nth_equalityI) auto
  moreover have "take n s1 \<noteq> take n s2" if "k < n" using k(4) that nth_take [of k n s1] nth_take [of k n s2] by metis
  ultimately show ?thesis using k(1,2) by (intro exI [of _ k]) (auto simp: RtlCompareMemory_def le_less)
qed

text \<open>Dates of Windows are WORDs below 32768, so that they survive the signed fields; a time that Windows converts is converted back.\<close>

lemma cshort_word16: "n < 2 ^ 15 \<Longrightarrow> word16 (cshort n) = n"
  by (simp add: word16_def cshort_def unat_of_nat)

lemma time_fields_roundtrip:
  assumes "\<And>ft st. FileTimeToSystemTime W ft = Some st \<Longrightarrow> wYear st < 2 ^ 15 \<and> wMonth st < 2 ^ 15 \<and> wDayOfWeek st < 2 ^ 15 \<and> wDay st < 2 ^ 15 \<and>
      wHour st < 2 ^ 15 \<and> wMinute st < 2 ^ 15 \<and> wSecond st < 2 ^ 15 \<and> wMilliseconds st < 2 ^ 15 \<and> SystemTimeToFileTime W st = Some (ft - ft mod 10000)"
    and "RtlTimeToTimeFields W t = Inr f"
  shows "RtlTimeFieldsToTime W f = Some (t - t mod 10000)"
proof -
  from assms(2) obtain st where st: "FileTimeToSystemTime W t = Some st" by (auto simp: RtlTimeToTimeFields_def from_halves_halves split: option.splits)
  with assms(1) [OF st] assms(2) show ?thesis by (auto simp: RtlTimeToTimeFields_def RtlTimeFieldsToTime_def from_halves_halves cshort_word16) (cases st, simp)
qed

end
