(* ===== verification/Spec2Isabelle.thy ===== *)
theory Spec2Isabelle
  imports DdkBase Bitmap Strings Objects Namespace Detours Sync BugCheck Irp Dispatch DevStack IoPath RemoveLock Deferred RegQuery Timer Threads WorkItem Files Loader Exceptions Lists Modules Runtime
begin

text \<open>
  Verification of the Windows Driver Unit Test Framework (src/src): a library that implements kernel
  routines of Windows in user space, so that driver code can be run under a unit test.

  \<^bold>\<open>Parts of the program and theories.\<close>  A test loads a driver (load.cpp, driver.cpp); the driver calls the kernel routines of the
  library, which keep the state of a small kernel: reference counted objects with names (object.cpp, name.cpp,
  symlink.cpp), devices on the lists of their drivers (device.cpp), request packets that travel through stacks of devices
  (irp.cpp), interrupt request levels and locks (irql.cpp, spinlock.cpp), events, semaphores and mutexes to wait for (event.cpp, semaphore.cpp,
  mutex.cpp, wait.cpp), run-time helpers on strings and bitmaps (unicode.cpp,
  string.cpp, bitmap.cpp).  A failed check ends in a bug check or an assertion (error.cpp), which the test sees as an exception.
  The registry of the driver is a private hive (registry.cpp).  Independently of these, tests replace functions by intercepts (detours.cpp).

  \<^item> DdkBase: machine types, results, the state monad, status codes, shared lemmas.
  \<^item> Bitmap: bitmap.cpp.  RTL_BITMAP is a record with the size and the array of 32-bit elements, or None for null pointers.
  \<^item> Strings: unicode.cpp and string.cpp.  A counted string is a record of the two lengths and the bytes of its buffer.
  \<^item> Objects: object.cpp, object.h, name.cpp, symlink.cpp and the parts of device.cpp, driver.cpp, file.cpp and registry.cpp that
    release objects.  The state is a heap of objects with their reference counts, the list of names and the process's handles.
    Namespace: its invariant at work and the properties of names, links and devices.
  \<^item> Detours: detours.cpp.  Regions of detours, each detour with its intercepts; the abstract state (\<open>view\<close>) is the list of pairs of a
    function and an intercept.
  \<^item> Sync: irql.cpp and spinlock.cpp.  Levels per thread, slim locks, the pool of reader/writer locks; \<open>reach\<close> are the states all
    interleavings of the threads lead to.
  \<^item> BugCheck: error.cpp, on top of Sync.
  \<^item> Irp: irp.cpp, with the parts of mdl.cpp and memory.cpp it uses.
  \<^item> Dispatch: event.cpp, semaphore.cpp, mutex.cpp, wait.cpp and the timeouts of time.cpp.  The state has the objects of the driver and the
    objects of Windows behind their handles; \<open>dreach\<close> are the states that calls by any threads lead to.
  \<^item> DevStack: the attaching routines of device.cpp.  Devices linked by pointers; the abstract state is the list of the devices of a stack.
    IoPath: packets in such stacks, on top of Irp and DevStack.
  \<^item> RemoveLock: the remove locks of device.cpp, as atomic steps of any number of requests; \<open>rl_reach\<close> are the states of all interleavings.
  \<^item> Deferred: dpc.cpp, as steps of any number of threads and the thread pool; \<open>dpc_reach\<close> are the states of all interleavings.
  \<^item> Timer: timer.cpp, as atomic steps of the threads that set and cancel a timer and of the callbacks of the thread pool; \<open>tm_reach\<close> are the states of all interleavings.
  \<^item> Threads: thread.cpp.  The objects of threads with their references, the list of threads, the current object of every thread of Windows; \<open>th_reach\<close> are the states that
    attaching, detaching, creating, starting and ending threads lead to.
  \<^item> WorkItem: workitem.cpp, as steps of the driver and of the callbacks of the thread pool; \<open>wk_reach\<close> are the states of all interleavings.
  \<^item> Files: file.cpp and the paths of local.cpp, on top of Objects and Namespace.  The file functions of Windows are a parameter, the locale \<open>winfs\<close> says what is relied on of them; it is
    interpreted on a file system in memory.
  \<^item> Loader: load.cpp, on top of Detours.  Images as lists of bytes with their sections, the list of images, the modules of the process and the counters of delayed loading.
  \<^item> Exceptions: exception.cpp on AMD64, on top of Sync.  Registers, instruction bytes and the exception record.
  \<^item> Lists: list.cpp, slist.cpp, alloc.cpp and interlocked.cpp, on top of Sync.  The primitives on linked lists are a parameter with the locale \<open>dlist\<close>, interpreted on cells with forward and backward links.
  \<^item> Modules: unittest.cpp.  The module that runs, its cleanup function and the table of modules that were cleaned up early.
  \<^item> Runtime: rtl.cpp and the conversions of time.cpp.
  \<^item> Registry: registry.cpp without the query tables.  The registry functions of Windows are a parameter, the locale \<open>winreg\<close> says what is relied on of them;
    RegQuery: the query tables of RtlQueryRegistryValues.

  \<^bold>\<open>Conventions.\<close>  A routine is a function of the state that returns a value and the new state or a failure: \<open>DdkFail\<close> for a failed assertion,
  \<open>BugCheck\<close>, \<open>Fault\<close> for memory the code must not touch, \<open>Waits\<close> for a call that does not return from the state.
  Null pointers are None or 0.  ULONG arithmetic wraps where the code relies on it.  Memory may run out: every state counts what is left.
  What Windows, the C library, the Detours library and the driver do is a parameter or part of the state that no definition fixes.

  \<^bold>\<open>What the lemmas show.\<close>
  \<^item> Bitmap (C1 to C3): setting, clearing, testing, counting and searching bits agree with a reference on single bits; the locales
    \<open>bit_writer\<close> and \<open>bit_kind\<close> hold the arguments that setting and clearing, clear and set runs share.
  \<^item> Strings (C4): round trips of integers and guids, appending, copying, comparing and hashing.
  \<^item> Objects and Namespace (C5 to C7): the invariant \<open>wf_ddk\<close> (counts equal the references from names, lists and links plus those
    held outside) is kept, names are found again, links are resolved or refused, a device leaves no trace; two defects.
  \<^item> Detours (C8 to C10): attaching and detaching refine insertion into and removal from the abstract state, regions are released; the locale \<open>detacher\<close>
    is the contract of the two detaching routines.
  \<^item> Sync (C11): nesting of spin locks, the pool of reader/writer locks, mutual exclusion under interleaving.
  \<^item> BugCheck (C12): registration and callbacks; the locale \<open>callback_registry\<close> is the contract of the two kinds of records.
  \<^item> Irp (C13 and C14): the order of completion, calling down the stack, device control requests.
  \<^item> Dispatch (C15 to C17): the library's copies agree with the objects of Windows, waiting refines its specification, mutual exclusion of mutexes,
    signalling of events, and two waits that go wrong.
  \<^item> DevStack (C18): attaching appends to a stack, detaching cuts it.
  \<^item> IoPath (C19): a packet for the top of a stack has a location for each of its devices.
  \<^item> RemoveLock (C20 and C21): nobody holds the lock when the removal is over, and the removal gets there.
  \<^item> Deferred (C22 and C23): DPCs are neither lost nor run twice, and flushing waits for all of them unless they are queued again meanwhile.
  \<^item> Timer (C24): cancelling stops a timer for good and tells exactly whether it was still to expire; a timer that expires signals its event and queues its DPC.
  \<^item> Threads (C25 and C26): the list has exactly the threads that run, objects live as long as they are referenced, priorities stay in their range.
  \<^item> WorkItem (C27): every queued work item is run once with its arguments, holds its object meanwhile, and can be freed afterwards.
  \<^item> Files (C28 to C30): paths lead into the temporary directory, opening a file does what its disposition asks for, what is written is read again, and files of devices hold and drop their references.
  \<^item> Loader (C31 and C32): the data of an image is restored, the references of modules are counted and their intercepts are removed with the last.
  \<^item> Exceptions (C33): reads of the shared data and accesses of CR8 go on as in the kernel.
  \<^item> Lists (C34): interlocked lists are sequences under a lock; lookaside lists free every entry once; the alignment of pool memory.
  \<^item> Modules (C35): every module is cleaned up exactly once.
  \<^item> Runtime: comparing memory, byte order, dates there and back.
  \<^item> Registry (C36 and C37): values and keys are stored, removed and created as in an abstract registry, and no handle stays open.
  \<^item> RegQuery (C38 to C40): values are read as a whole, lists of strings are split, direct values stay in their variables, tables close their keys.

  \<^bold>\<open>Bounds and fuel.\<close>  The release of an object recurses along the chain file, device, driver, so its depth is at most 4 (C5 shows that it
  does not run out).  DdkResolveSymbolicLink follows at most 1000 links, as the code does.  The loop of IofCompleteRequest has a number of rounds as an
  argument, because a completion routine may put the packet back; C13 shows that one more than the size of the stack is enough.  The chain of memory
  descriptor lists is followed for as many steps as rounds are left.  The loops along the pointers of a stack of devices may run forever and are partial functions, of
  which C18 shows that they return on stacks; so are the loop that enlarges the buffer for a registry value, of which C38 shows that it
  returns with the whole value, and the enumeration of values, which ends after the last value.  All other loops are recursive functions that terminate.

  \<^bold>\<open>Not modelled.\<close>  Named events, plug and play, the setting up of the temporary directory, the assembly code of the wrappers, clocks, tracing, the stubs of ddk.cpp (they only stop with a message),
  the thin wrappers around functions of the C library and of Windows, and the unit test macros.
\<close>

end
